(* ===== verification/Prelude.thy ===== *)
theory Prelude
  imports Complex_Main "HOL-Library.Multiset" "HOL-Library.Word"
    "HOL-Library.List_Lexorder" "HOL-Library.Char_ord"
begin

text \<open>
  The prelude of the development: the parts of the Go language and its standard library that
  every component uses, and the generic lemmas on lists and maps that the components share.

  Instants (Go's \<open>time.Time\<close>) are the nanoseconds since the Unix epoch, an unbounded
  \<open>int\<close>; the zero value of \<open>time.Time\<close> is the first of January of year 1, so
  \<open>IsZero\<close> is a test against that instant. Durations are nanoseconds in an \<open>int64\<close>:
  products that the source computes in 64 bits go through \<open>wrap64\<close>, and \<open>Time.Sub\<close>
  saturates as the library's does. A Go string is a list of bytes.
\<close>

named_theorems go_time "the definitions of the time operations"
named_theorems inv_intros "preservation of the component invariants"

section \<open>64-bit integers, instants and durations\<close>

type_synonym time = int
type_synonym duration = int

definition maxInt64 :: int where
  "maxInt64 = 9223372036854775807"

definition minInt64 :: int where
  "minInt64 = -9223372036854775808"

text \<open>Two's complement wrap-around of an integer that Go computes in an \<open>int64\<close>.\<close>

definition wrap64 :: "int \<Rightarrow> int" where
  "wrap64 x = (x + 9223372036854775808) mod 18446744073709551616 - 9223372036854775808"

lemma wrap64_id: "minInt64 \<le> x \<Longrightarrow> x \<le> maxInt64 \<Longrightarrow> wrap64 x = x"
  by (simp add: wrap64_def minInt64_def maxInt64_def mod_pos_pos_trivial)

lemma wrap64_range: "minInt64 \<le> wrap64 x \<and> wrap64 x \<le> maxInt64"
  using pos_mod_bound [of 18446744073709551616 "x + 9223372036854775808"]
    pos_mod_sign [of 18446744073709551616 "x + 9223372036854775808"]
  by (simp add: wrap64_def minInt64_def maxInt64_def)

definition nsPerSecond :: int where
  [go_time]: "nsPerSecond = 1000000000"

definition nsPerMilli :: int where
  [go_time]: "nsPerMilli = 1000000"

text \<open>\<open>time.Duration(n) * time.Second\<close>, a 64-bit product.\<close>

definition seconds :: "int \<Rightarrow> duration" where
  "seconds n = wrap64 (n * 1000000000)"

lemma seconds_id: "\<bar>n\<bar> \<le> 9223372036 \<Longrightarrow> seconds n = n * 1000000000"
  unfolding seconds_def by (rule wrap64_id) (auto simp: minInt64_def maxInt64_def)

lemma seconds_0 [simp]: "seconds 0 = 0"
  by (simp add: seconds_id)

lemma seconds_uint32: "seconds (uint (w :: 32 word)) = uint w * 1000000000"
proof -
  have "uint w < 2 ^ 32" using uint_lt2p [of w] by simp
  then show ?thesis by (intro seconds_id) simp
qed

text \<open>\<open>time.Unix(s, 0)\<close> and \<open>Time.Unix()\<close>, which rounds towards the past.\<close>

definition unixTime :: "int \<Rightarrow> time" where
  [go_time]: "unixTime s = s * 1000000000"

definition toUnix :: "time \<Rightarrow> int" where
  [go_time]: "toUnix t = t div 1000000000"

lemma toUnix_unixTime [simp]: "toUnix (unixTime s) = s"
  by (simp add: go_time)

lemma unixTime_less [simp]: "unixTime a < unixTime b \<longleftrightarrow> a < b"
  by (simp add: go_time)

lemma unixTime_le [simp]: "unixTime a \<le> unixTime b \<longleftrightarrow> a \<le> b"
  by (simp add: go_time)

definition zeroTime :: time where
  "zeroTime = -62135596800000000000"

text \<open>\<open>Time.Sub\<close> saturates at the ends of the \<open>int64\<close> range.\<close>

definition timeSub :: "time \<Rightarrow> time \<Rightarrow> duration" where
  "timeSub a b = max minInt64 (min maxInt64 (a - b))"

lemma timeSub_id: "\<bar>a - b\<bar> \<le> maxInt64 \<Longrightarrow> timeSub a b = a - b"
  by (auto simp: timeSub_def minInt64_def maxInt64_def)

lemma timeSub_ge_iff: "w \<le> maxInt64 \<Longrightarrow> minInt64 < w \<Longrightarrow> w \<le> timeSub a b \<longleftrightarrow> w \<le> a - b"
  by (auto simp: timeSub_def)

lemma timeSub_less_iff: "w \<le> maxInt64 \<Longrightarrow> minInt64 < w \<Longrightarrow> timeSub a b < w \<longleftrightarrow> a - b < w"
  using timeSub_ge_iff [of w a b] by linarith

lemma timeSub_pos_iff: "0 < timeSub a b \<longleftrightarrow> b < a"
  by (auto simp: timeSub_def minInt64_def maxInt64_def)

lemma timeSub_self [simp]: "timeSub a a = 0"
  by (simp add: timeSub_def minInt64_def maxInt64_def)

section \<open>Strings\<close>

text \<open>
  \<open>strings.ToUpper\<close> and \<open>strings.EqualFold\<close> on the ASCII letters. The identifiers the
  program folds are LFDIs, hexadecimal strings.
\<close>

definition upperChar :: "char \<Rightarrow> char" where
  "upperChar c = (let n = (of_char c :: nat) in if 97 \<le> n \<and> n \<le> 122 then char_of (n - 32) else c)"

definition toUpper :: "string \<Rightarrow> string" where
  "toUpper s = map upperChar s"

definition equalFold :: "string \<Rightarrow> string \<Rightarrow> bool" where
  "equalFold a b \<longleftrightarrow> toUpper a = toUpper b"

lemma equalFold_refl [simp]: "equalFold a a"
  by (simp add: equalFold_def)

lemma equalFold_sym: "equalFold a b \<longleftrightarrow> equalFold b a"
  by (auto simp: equalFold_def)

lemma equalFold_trans: "equalFold a b \<Longrightarrow> equalFold b c \<Longrightarrow> equalFold a c"
  by (auto simp: equalFold_def)

lemma toUpper_Nil_iff [simp]: "toUpper s = [] \<longleftrightarrow> s = []"
  by (simp add: toUpper_def)

text \<open>The decimal rendering of an integer (\<open>%d\<close>, \<open>strconv.Itoa\<close>).\<close>

fun digits :: "nat \<Rightarrow> string" where
  "digits n = (if n < 10 then [] else digits (n div 10)) @ [char_of (48 + n mod 10)]"

declare digits.simps [simp del]

definition itoa :: "int \<Rightarrow> string" where
  "itoa n = (if n < 0 then ''-'' @ digits (nat (- n)) else digits (nat n))"

section \<open>Lists and maps\<close>

text \<open>The loops that delete the first match of a key from a slice.\<close>

fun removeFirst :: "('a \<Rightarrow> bool) \<Rightarrow> 'a list \<Rightarrow> 'a list" where
  "removeFirst P [] = []"
| "removeFirst P (x # xs) = (if P x then xs else x # removeFirst P xs)"

lemma removeFirst_subset: "set (removeFirst P xs) \<subseteq> set xs"
  by (induction xs) auto

lemma removeFirst_none: "\<not> (\<exists>x\<in>set xs. P x) \<Longrightarrow> removeFirst P xs = xs"
  by (induction xs) auto

lemma sorted_map_removeFirst:
  "sorted (map f xs) \<Longrightarrow> sorted (map f (removeFirst P xs))"
  using removeFirst_subset [of P] by (induction xs) fastforce+

lemma distinct_map_removeFirst:
  "distinct (map f xs) \<Longrightarrow> distinct (map f (removeFirst P xs))"
  using removeFirst_subset [of P] by (induction xs) fastforce+

lemma removeFirst_eq_filter:
  "distinct (map f xs) \<Longrightarrow> removeFirst (\<lambda>x. f x = k) xs = filter (\<lambda>x. f x \<noteq> k) xs"
proof (induction xs)
  case Nil
  then show ?case by simp
next
  case (Cons x xs)
  show ?case
  proof (cases "f x = k")
    case True
    with Cons.prems have "\<forall>y\<in>set xs. f y \<noteq> k" by (auto simp: image_iff)
    then show ?thesis using True by (simp add: filter_id_conv)
  next
    case False
    with Cons show ?thesis by simp
  qed
qed

lemma takeWhile_sorted_filter:
  "sorted (map f xs) \<Longrightarrow> takeWhile (\<lambda>x. f x \<le> (t::'b::linorder)) xs = filter (\<lambda>x. f x \<le> t) xs"
proof (induction xs)
  case Nil
  then show ?case by simp
next
  case (Cons x xs)
  show ?case
  proof (cases "f x \<le> t")
    case True
    with Cons show ?thesis by simp
  next
    case False
    with Cons.prems have "\<forall>y\<in>set xs. \<not> f y \<le> t" by fastforce
    with False show ?thesis by simp
  qed
qed

lemma dropWhile_sorted_filter:
  "sorted (map f xs) \<Longrightarrow> dropWhile (\<lambda>x. f x \<le> (t::'b::linorder)) xs = filter (\<lambda>x. \<not> f x \<le> t) xs"
proof (induction xs)
  case Nil
  then show ?case by simp
next
  case (Cons x xs)
  show ?case
  proof (cases "f x \<le> t")
    case True
    with Cons show ?thesis by simp
  next
    case False
    with Cons.prems have "\<forall>y\<in>set xs. \<not> f y \<le> t" by fastforce
    then have "filter (\<lambda>y. \<not> f y \<le> t) xs = xs" by (simp add: filter_id_conv)
    with False show ?thesis by simp
  qed
qed

lemma sorted_map_filter: "sorted (map f xs) \<Longrightarrow> sorted (map f (filter P xs))"
  by (induction xs) auto

lemma distinct_map_filter_key: "distinct (map f xs) \<Longrightarrow> distinct (map f (filter P xs))"
  by (induction xs) auto

lemma foldl_preserves:
  assumes "I s" and "\<And>s x. x \<in> set xs \<Longrightarrow> I s \<Longrightarrow> I (f s x)"
  shows "I (foldl f s xs)"
  using assms by (induction xs arbitrary: s) auto

end
