(* ===== verification/F64.thy ===== *)
theory F64
  imports Prelude
begin

text \<open>
  Go's \<open>float64\<close>. A value is a finite number, an infinity or NaN; the operations, the
  comparisons (every comparison with NaN is false) and the functions of package \<open>math\<close>
  the program calls are written out on all four. Finite arithmetic is exact: the rounding of
  the last bit, the overflow of a finite result to an infinity and the sign of zero are not
  modelled, so a bound proved here is a bound on the computation up to rounding.
\<close>

datatype f64 = Fin real | PInf | NInf | NaN

instantiation f64 :: "{zero, one, plus, uminus, minus, times, inverse, ord}"
begin

definition zero_f64 :: f64 where "0 = Fin 0"

definition one_f64 :: f64 where "1 = Fin 1"

fun plus_f64 :: "f64 \<Rightarrow> f64 \<Rightarrow> f64" where
  "Fin a + Fin b = Fin (a + b)"
| "NaN + y = NaN"
| "x + NaN = NaN"
| "PInf + NInf = NaN"
| "NInf + PInf = NaN"
| "PInf + y = PInf"
| "NInf + y = NInf"
| "x + PInf = PInf"
| "x + NInf = NInf"

fun uminus_f64 :: "f64 \<Rightarrow> f64" where
  "- Fin a = Fin (- a)"
| "- PInf = NInf"
| "- NInf = PInf"
| "- NaN = NaN"

definition minus_f64 :: "f64 \<Rightarrow> f64 \<Rightarrow> f64" where
  "x - y = x + - (y::f64)"

definition scaleInf :: "f64 \<Rightarrow> real \<Rightarrow> f64" where
  "scaleInf x b = (if b = 0 then NaN else if b > 0 then x else - x)"

fun times_f64 :: "f64 \<Rightarrow> f64 \<Rightarrow> f64" where
  "Fin a * Fin b = Fin (a * b)"
| "NaN * y = NaN"
| "x * NaN = NaN"
| "Fin a * y = scaleInf y a"
| "x * Fin b = scaleInf x b"
| "PInf * y = y"
| "NInf * y = - y"

fun divide_f64 :: "f64 \<Rightarrow> f64 \<Rightarrow> f64" where
  "divide_f64 (Fin a) (Fin b) =
     (if b = 0 then (if a = 0 then NaN else if a > 0 then PInf else NInf) else Fin (a / b))"
| "divide_f64 NaN y = NaN"
| "divide_f64 x NaN = NaN"
| "divide_f64 (Fin a) y = Fin 0"
| "divide_f64 x (Fin b) = (if b \<ge> 0 then x else - x)"
| "divide_f64 x y = NaN"

definition inverse_f64 :: "f64 \<Rightarrow> f64" where
  "inverse x = divide 1 (x::f64)"

fun less_f64 :: "f64 \<Rightarrow> f64 \<Rightarrow> bool" where
  "Fin a < Fin b \<longleftrightarrow> a < b"
| "NaN < y \<longleftrightarrow> False"
| "x < NaN \<longleftrightarrow> False"
| "NInf < y \<longleftrightarrow> y \<noteq> NInf"
| "x < PInf \<longleftrightarrow> x \<noteq> PInf"
| "(x::f64) < y \<longleftrightarrow> False"

definition less_eq_f64 :: "f64 \<Rightarrow> f64 \<Rightarrow> bool" where
  "x \<le> y \<longleftrightarrow> x < y \<or> ((x::f64) = y \<and> x \<noteq> NaN)"

instance ..

end

lemma scaleInf_simps [simp]: "scaleInf x b = (if b = 0 then NaN else if b > 0 then x else - x)"
  by (simp add: scaleInf_def)

lemma f64_le_simps [simp]:
  "Fin a \<le> Fin b \<longleftrightarrow> a \<le> b" "\<not> NaN \<le> x" "\<not> x \<le> NaN" "x \<le> PInf \<longleftrightarrow> x \<noteq> NaN" "NInf \<le> x \<longleftrightarrow> x \<noteq> NaN"
  "\<not> PInf \<le> Fin a" "\<not> Fin a \<le> NInf" "\<not> PInf \<le> NInf"
  by (cases x; auto simp: less_eq_f64_def)+

lemma f64_less_simps [simp]:
  "\<not> x < NInf" "\<not> PInf < x" "\<not> (x::f64) < NaN" "x < PInf \<longleftrightarrow> x \<noteq> NaN \<and> x \<noteq> PInf"
  by (cases x; simp)+

lemma Fin_minus [simp]: "Fin a - Fin b = Fin (a - b)"
  by (simp add: minus_f64_def)

lemma NaN_minus [simp]: "NaN - x = NaN" "x - NaN = NaN"
  by (cases x; simp add: minus_f64_def)+

lemma plus_NaN [simp]: "x + NaN = (NaN::f64)"
  by (cases x) auto

lemma times_NaN [simp]: "x * NaN = (NaN::f64)"
  by (cases x) auto

lemma not_le_f64: "x \<noteq> NaN \<Longrightarrow> y \<noteq> NaN \<Longrightarrow> \<not> (x::f64) \<le> y \<longleftrightarrow> y < x"
  by (cases x; cases y) auto

text \<open>Addition of exact values is associative and commutative, so numerals and sums work.\<close>

instance f64 :: comm_monoid_add
proof
  fix a b c :: f64
  show "a + b + c = a + (b + c)" by (cases a; cases b; cases c) auto
  show "a + b = b + a" by (cases a; cases b) auto
  show "0 + a = a" by (cases a) (auto simp: zero_f64_def)
qed

instance f64 :: numeral ..

lemma numeral_f64: "numeral n = Fin (numeral n)"
proof (induction n)
  case One
  then show ?case by (simp add: numeral_One one_f64_def)
qed (simp_all only: numeral.simps plus_f64.simps one_f64_def)

lemmas f64_consts [simp] = zero_f64_def one_f64_def numeral_f64

lemma Fin_eq_iff: "Fin a = Fin b \<longleftrightarrow> a = b"
  by simp

text \<open>Go's \<open>==\<close>: NaN is not equal to itself.\<close>

definition feq :: "f64 \<Rightarrow> f64 \<Rightarrow> bool" where
  "feq x y \<longleftrightarrow> x = y \<and> x \<noteq> NaN"

definition isNaN :: "f64 \<Rightarrow> bool" where
  "isNaN x \<longleftrightarrow> x = NaN"

definition isInf :: "f64 \<Rightarrow> bool" where
  "isInf x \<longleftrightarrow> x = PInf \<or> x = NInf"

definition isFin :: "f64 \<Rightarrow> bool" where
  "isFin x \<longleftrightarrow> (case x of Fin _ \<Rightarrow> True | _ \<Rightarrow> False)"

lemma isFin_simps [simp]: "isFin (Fin a)" "\<not> isFin NaN" "\<not> isFin PInf" "\<not> isFin NInf"
  by (simp_all add: isFin_def)

lemma isFinE: "isFin x \<Longrightarrow> (\<And>r. x = Fin r \<Longrightarrow> P) \<Longrightarrow> P"
  by (cases x) (auto simp: isFin_def)

lemma isFin_iff: "isFin x \<longleftrightarrow> \<not> isNaN x \<and> \<not> isInf x"
  by (cases x) (auto simp: isFin_def isNaN_def isInf_def)

lemma isNaN_simps [simp]: "\<not> isNaN (Fin a)" "isNaN NaN" "\<not> isNaN PInf" "\<not> isNaN NInf"
  by (simp_all add: isNaN_def)

lemma isInf_simps [simp]: "\<not> isInf (Fin a)" "\<not> isInf NaN" "isInf PInf" "isInf NInf"
  by (simp_all add: isInf_def)

lemma feq_simps [simp]: "feq (Fin a) (Fin b) \<longleftrightarrow> a = b" "\<not> feq NaN x" "\<not> feq x NaN"
  by (auto simp: feq_def)

section \<open>Package math\<close>

fun fabs :: "f64 \<Rightarrow> f64" where
  "fabs (Fin a) = Fin \<bar>a\<bar>"
| "fabs NaN = NaN"
| "fabs x = PInf"

text \<open>\<open>math.Min\<close> and \<open>math.Max\<close>: an infinity in the direction asked for wins over NaN.\<close>

definition fmin :: "f64 \<Rightarrow> f64 \<Rightarrow> f64" where
  "fmin x y = (if x = NInf \<or> y = NInf then NInf
     else if isNaN x \<or> isNaN y then NaN else if x < y then x else y)"

definition fmax :: "f64 \<Rightarrow> f64 \<Rightarrow> f64" where
  "fmax x y = (if x = PInf \<or> y = PInf then PInf
     else if isNaN x \<or> isNaN y then NaN else if x > y then x else y)"

lemma fmin_Fin [simp]: "fmin (Fin a) (Fin b) = Fin (min a b)"
  by (simp add: fmin_def)

lemma fmax_Fin [simp]: "fmax (Fin a) (Fin b) = Fin (max a b)"
  by (simp add: fmax_def)

fun fsqrt :: "f64 \<Rightarrow> f64" where
  "fsqrt (Fin a) = (if a < 0 then NaN else Fin (sqrt a))"
| "fsqrt PInf = PInf"
| "fsqrt NInf = NaN"
| "fsqrt NaN = NaN"

text \<open>\<open>math.Round\<close> rounds half away from zero.\<close>

definition roundHalfAway :: "real \<Rightarrow> int" where
  "roundHalfAway a = (if a \<ge> 0 then \<lfloor>a + 1/2\<rfloor> else - \<lfloor>1/2 - a\<rfloor>)"

fun fround :: "f64 \<Rightarrow> f64" where
  "fround (Fin a) = Fin (of_int (roundHalfAway a))"
| "fround x = x"

text \<open>\<open>math.Pow10\<close> and \<open>math.Pow(10, n)\<close> for an integer \<open>n\<close>.\<close>

definition pow10 :: "int \<Rightarrow> f64" where
  "pow10 n = Fin (if n \<ge> 0 then 10 ^ nat n else 1 / 10 ^ nat (- n))"

lemma isFin_pow10 [simp]: "isFin (pow10 n)"
  by (simp add: pow10_def)

text \<open>Conversions: \<open>float64(n)\<close>, and \<open>int64(x)\<close>, which truncates towards zero. A value that
  does not fit gives the smallest \<open>int64\<close>, as it does on amd64.\<close>

definition ofInt :: "int \<Rightarrow> f64" where
  "ofInt n = Fin (of_int n)"

definition truncReal :: "real \<Rightarrow> int" where
  "truncReal a = (if a \<ge> 0 then \<lfloor>a\<rfloor> else \<lceil>a\<rceil>)"

fun toInt64 :: "f64 \<Rightarrow> int" where
  "toInt64 (Fin a) = (if minInt64 \<le> truncReal a \<and> truncReal a \<le> maxInt64 then truncReal a else minInt64)"
| "toInt64 _ = minInt64"

lemma ofInt_simps [simp]: "ofInt n = Fin (of_int n)"
  by (simp add: ofInt_def)

lemma truncReal_of_int [simp]: "truncReal (of_int n) = n"
  by (simp add: truncReal_def)

lemma roundHalfAway_of_int [simp]: "roundHalfAway (of_int n) = n"
proof -
  have "\<lfloor>real_of_int n + 1 / 2\<rfloor> = n" by (simp add: floor_eq_iff)
  moreover have "\<lfloor>1 / 2 - real_of_int n\<rfloor> = - n" by (simp add: floor_eq_iff)
  ultimately show ?thesis by (simp add: roundHalfAway_def)
qed

lemma roundHalfAway_near: "\<bar>real_of_int (roundHalfAway a) - a\<bar> \<le> 1 / 2"
proof (cases "a \<ge> 0")
  case True
  have "real_of_int \<lfloor>a + 1/2\<rfloor> \<le> a + 1/2" "a + 1/2 < real_of_int \<lfloor>a + 1/2\<rfloor> + 1"
    using floor_correct [of "a + 1/2"] by auto
  moreover have "roundHalfAway a = \<lfloor>a + 1/2\<rfloor>" using True by (simp add: roundHalfAway_def)
  ultimately show ?thesis by linarith
next
  case False
  have "real_of_int \<lfloor>1/2 - a\<rfloor> \<le> 1/2 - a" "1/2 - a < real_of_int \<lfloor>1/2 - a\<rfloor> + 1"
    using floor_correct [of "1/2 - a"] by auto
  moreover have "roundHalfAway a = - \<lfloor>1/2 - a\<rfloor>" using False by (simp add: roundHalfAway_def)
  ultimately show ?thesis by linarith
qed

end
