(* ===== verification/Sep2.thy ===== *)
theory Sep2
  imports F64
begin

text \<open>
  The IEEE 2030.5 resources the program exchanges. Their Go types come from the module
  \<open>ieee-2030_5-core-go\<close>, which is not part of this repository: the records here hold the
  fields this repository's code reads, at the widths the code relies on, and none of that
  module's functions is modelled. A Go pointer that may be nil is an \<open>option\<close>. \<open>Copy()\<close> is
  the identity on values.
\<close>

text \<open>\<open>EventStatus.CurrentStatus\<close>, with the wire values the code names.\<close>

type_synonym status = "8 word"

abbreviation EventStatusScheduled :: status where "EventStatusScheduled \<equiv> 0"
abbreviation EventStatusCancelled :: status where "EventStatusCancelled \<equiv> 2"
abbreviation EventStatusSuperseded :: status where "EventStatusSuperseded \<equiv> 4"

record DateTimeInterval =
  Start :: int
  Duration :: "32 word"

text \<open>The fields of \<open>DERControlBase\<close> that \<open>controller.go\<close> reads.\<close>

record FixedVar =
  RefType :: int
  fvValue :: int

record ActivePower =
  apMultiplier :: int
  apValue :: int

record DERControlBase =
  OpModConnect :: "bool option"
  OpModEnergize :: "bool option"
  OpModVoltVar :: "string option"
  OpModFreqDroop :: "int option"
  OpModMaxLimW :: "int option"
  OpModFixedW :: "int option"
  OpModTargetW :: "ActivePower option"
  OpModFixedVar :: "FixedVar option"
  OpModFixedPFAbsorbW :: "int option"
  OpModFixedPFInjectW :: "int option"

definition emptyBase :: DERControlBase where
  "emptyBase = \<lparr>OpModConnect = None, OpModEnergize = None, OpModVoltVar = None,
     OpModFreqDroop = None, OpModMaxLimW = None, OpModFixedW = None, OpModTargetW = None,
     OpModFixedVar = None, OpModFixedPFAbsorbW = None, OpModFixedPFInjectW = None\<rparr>"

text \<open>
  \<open>RandomizableEvent\<close> is embedded in \<open>DERControl\<close> and in \<open>RejectedDERControl\<close>. The optional
  \<open>EventStatus\<close> holds its \<open>CurrentStatus\<close>; \<open>RandomizeStart\<close> and \<open>RandomizeDuration\<close> are the
  signed 16-bit \<open>OneHourRange\<close>, read with \<open>sint\<close>.
\<close>

record RandomizableEvent =
  MRID :: string
  ReplyTo :: string
  ResponseRequired :: "8 word option"
  EventStatus :: "status option"
  Interval :: "DateTimeInterval option"
  RandomizeStart :: "16 word option"
  RandomizeDuration :: "16 word option"

record DERControl = RandomizableEvent +
  ControlBase :: "DERControlBase option"

text \<open>Why a control is refused: its base could not be decoded, or the device cannot honor it.\<close>

datatype ctlError = ErrDecode string | ErrFixedVarRefused int

record RejectedDERControl = RandomizableEvent +
  rejErr :: ctlError

text \<open>\<open>DERControl\<close> built from a rejected item's event fields, with no base.\<close>

definition eventOf :: "RejectedDERControl \<Rightarrow> DERControl" where
  "eventOf r = \<lparr>MRID = MRID r, ReplyTo = ReplyTo r, ResponseRequired = ResponseRequired r,
     EventStatus = EventStatus r, Interval = Interval r, RandomizeStart = RandomizeStart r,
     RandomizeDuration = RandomizeDuration r, ControlBase = None\<rparr>"

lemma eventOf_simps [simp]:
  "MRID (eventOf r) = MRID r" "EventStatus (eventOf r) = EventStatus r"
  "ControlBase (eventOf r) = None" "ReplyTo (eventOf r) = ReplyTo r"
  by (simp_all add: eventOf_def)

record DERControlListResult =
  listControls :: "DERControl list"
  listRejected :: "RejectedDERControl list"

text \<open>A control with the given mRID and nothing else, the starting point of examples.\<close>

definition blankControl :: "string \<Rightarrow> DERControl" where
  "blankControl m = \<lparr>MRID = m, ReplyTo = [], ResponseRequired = None, EventStatus = None,
     Interval = None, RandomizeStart = None, RandomizeDuration = None, ControlBase = None\<rparr>"

lemma MRID_blankControl [simp]: "MRID (blankControl m) = m"
  by (simp add: blankControl_def)

record DERProgram =
  dpMRID :: string
  Primacy :: "8 word"
  DefaultDERControlLink :: "string option"
  DERControlListLink :: "string option"
  DERCurveListLink :: "string option"

record DefaultDERControl =
  ddcBase :: "DERControlBase option"

end
