(* ===== verification/Scheduler.thy ===== *)
theory Scheduler
  imports Sep2
begin

text \<open>
  \<open>internal/inverter/scheduler.go\<close>: the queue of pending DERControl events, sorted by fire
  time and keyed by mRID, with the randomization of start and duration. The random source
  \<open>*rand.Rand\<close> is a stream of draws and a position in it; \<open>Int64N n\<close> consumes one draw and
  returns it modulo \<open>n\<close>, so every outcome of the library's function is the outcome for some
  stream. \<open>sort.Slice\<close> is the stable insertion sort, which is what the Go library runs on
  queues of up to twelve entries; on longer queues the order of equal fire times is not
  specified by Go. The mutex serialises the operations, so each is one step of the state.
\<close>

section \<open>State\<close>

record scheduledEvent =
  seMRID :: string
  FireAt :: time
  ExpireAt :: time
  Source :: DERControl

record rng =
  draws :: "nat \<Rightarrow> nat"
  drawn :: nat

record Scheduler =
  queue :: "scheduledEvent list"
  srng :: rng

definition NewScheduler :: "rng \<Rightarrow> Scheduler" where
  "NewScheduler r = \<lparr>queue = [], srng = r\<rparr>"

section \<open>Randomization\<close>

definition Int64N :: "rng \<Rightarrow> int \<Rightarrow> int \<times> rng" where
  "Int64N r n = (int (draws r (drawn r)) mod n, r\<lparr>drawn := Suc (drawn r)\<rparr>)"

definition applyRandomizeStart :: "time \<Rightarrow> 16 word option \<Rightarrow> rng \<Rightarrow> time \<times> rng" where
  "applyRandomizeStart start randomizeStart r =
     (case randomizeStart of
        None \<Rightarrow> (start, r)
      | Some v \<Rightarrow>
          if v = 0 then (start, r)
          else
            let rs = sint v in
            if rs > 0 then
              let (offset, r') = Int64N r (rs + 1) in (start + seconds offset, r')
            else
              let abs' = - rs; (offset, r') = Int64N r (abs' + 1) in (start + seconds (- offset), r'))"

definition applyRandomizeDuration :: "duration \<Rightarrow> 16 word option \<Rightarrow> rng \<Rightarrow> duration \<times> rng" where
  "applyRandomizeDuration dur randomizeDuration r =
     (case randomizeDuration of
        None \<Rightarrow> (dur, r)
      | Some v \<Rightarrow>
          if v = 0 then (dur, r)
          else
            let rd = sint v;
                rd = (if rd < 0 then - rd else rd);
                (jitterSec, r') = Int64N r (rd + 1);
                shift = seconds (jitterSec - rd div 2)
            in (wrap64 (dur + shift), r'))"

text \<open>\<open>computeWindow\<close> is called on an event with an interval only.\<close>

definition computeWindow :: "DateTimeInterval \<Rightarrow> DERControl \<Rightarrow> rng \<Rightarrow> (time \<times> time) \<times> rng" where
  "computeWindow iv ev r =
     (let start = unixTime (Start iv);
          dur = seconds (uint (Duration iv));
          (fireAt, r) = applyRandomizeStart start (RandomizeStart ev) r;
          (jittered, r) = applyRandomizeDuration dur (RandomizeDuration ev) r;
          jittered = (if jittered < 0 then 0 else jittered)
      in ((fireAt, fireAt + jittered), r))"

section \<open>Queue operations\<close>

definition removeByMRID :: "scheduledEvent list \<Rightarrow> string \<Rightarrow> scheduledEvent list" where
  "removeByMRID q m = removeFirst (\<lambda>e. seMRID e = m) q"

definition sortQueue :: "scheduledEvent list \<Rightarrow> scheduledEvent list" where
  "sortQueue q = sort_key FireAt q"

definition addEvent :: "Scheduler \<Rightarrow> DERControl \<Rightarrow> Scheduler" where
  "addEvent s ev =
     (case Interval ev of
        None \<Rightarrow> s
      | Some iv \<Rightarrow>
          let ((fireAt, expireAt), r') = computeWindow iv ev (srng s) in
          s\<lparr>queue := removeByMRID (queue s) (MRID ev) @
                [\<lparr>seMRID = MRID ev, FireAt = fireAt, ExpireAt = expireAt, Source = ev\<rparr>],
            srng := r'\<rparr>)"

definition OnEventsAdded :: "Scheduler \<Rightarrow> DERControl list \<Rightarrow> Scheduler" where
  "OnEventsAdded s events =
     (if events = [] then s
      else let s' = foldl addEvent s events in s'\<lparr>queue := sortQueue (queue s')\<rparr>)"

definition OnEventsCancelled :: "Scheduler \<Rightarrow> string list \<Rightarrow> Scheduler" where
  "OnEventsCancelled s mRIDs = s\<lparr>queue := foldl removeByMRID (queue s) mRIDs\<rparr>"

definition OnEventsUpdated :: "Scheduler \<Rightarrow> DERControl list \<Rightarrow> Scheduler" where
  "OnEventsUpdated s events = s"

definition NextEvent :: "Scheduler \<Rightarrow> scheduledEvent option" where
  "NextEvent s = (case queue s of [] \<Rightarrow> None | e # _ \<Rightarrow> Some e)"

text \<open>The \<open>cut\<close> loop of \<open>PopExpired\<close>: the length of the prefix whose fire time has come.\<close>

fun cutAt :: "scheduledEvent list \<Rightarrow> time \<Rightarrow> nat" where
  "cutAt [] now = 0"
| "cutAt (e # q) now = (if \<not> FireAt e > now then Suc (cutAt q now) else 0)"

definition PopExpired :: "Scheduler \<Rightarrow> time \<Rightarrow> scheduledEvent list \<times> Scheduler" where
  "PopExpired s now =
     (let cut = cutAt (queue s) now in
      if cut = 0 then ([], s)
      else (take cut (queue s), s\<lparr>queue := drop cut (queue s)\<rparr>))"

section \<open>Randomization bounds\<close>

lemma Int64N_range: "0 < n \<Longrightarrow> 0 \<le> fst (Int64N r n) \<and> fst (Int64N r n) < n"
  by (simp add: Int64N_def)

lemma sint16_range: "-32768 \<le> sint (v :: 16 word) \<and> sint v \<le> 32767"
  using sint_ge [of v] sint_lt [of v] by simp

lemma applyRandomizeStart_bounds:
  assumes "applyRandomizeStart start rs r = (t, r')"
  shows "start - (case rs of None \<Rightarrow> 0 | Some v \<Rightarrow> max 0 (- sint v)) * 1000000000 \<le> t"
    and "t \<le> start + (case rs of None \<Rightarrow> 0 | Some v \<Rightarrow> max 0 (sint v)) * 1000000000"
proof -
  consider (none) "rs = None" | (zero) v where "rs = Some v" "v = 0"
    | (pos) v where "rs = Some v" "0 < sint v" | (neg) v where "rs = Some v" "sint v < 0"
    by (metis (no_types) linorder_neqE option.exhaust signed_0 signed_eq_0_iff)
  note cases = this
  have *: "start - (case rs of None \<Rightarrow> 0 | Some v \<Rightarrow> max 0 (- sint v)) * 1000000000 \<le> t \<and>
    t \<le> start + (case rs of None \<Rightarrow> 0 | Some v \<Rightarrow> max 0 (sint v)) * 1000000000"
    using cases
  proof cases
    case (pos v)
    then have "v \<noteq> 0" by auto
    define d where "d = fst (Int64N r (sint v + 1))"
    have d: "0 \<le> d" "d \<le> sint v" using Int64N_range [of "sint v + 1" r] pos by (auto simp: d_def)
    moreover have "t = start + seconds d"
      using assms pos \<open>v \<noteq> 0\<close> by (auto simp: applyRandomizeStart_def d_def Let_def split: prod.splits)
    moreover have "seconds d = d * 1000000000" using d sint16_range [of v] by (intro seconds_id) auto
    ultimately show ?thesis using pos by simp
  next
    case (neg v)
    then have "v \<noteq> 0" by auto
    define d where "d = fst (Int64N r (- sint v + 1))"
    have d: "0 \<le> d" "d \<le> - sint v" using Int64N_range [of "- sint v + 1" r] neg by (auto simp: d_def)
    moreover have "t = start + seconds (- d)"
      using assms neg \<open>v \<noteq> 0\<close> by (auto simp: applyRandomizeStart_def d_def Let_def split: prod.splits)
    moreover have "seconds (- d) = - d * 1000000000" using d sint16_range [of v] by (intro seconds_id) auto
    ultimately show ?thesis using neg by simp
  qed (use assms in \<open>auto simp: applyRandomizeStart_def\<close>)
  then show "start - (case rs of None \<Rightarrow> 0 | Some v \<Rightarrow> max 0 (- sint v)) * 1000000000 \<le> t"
    and "t \<le> start + (case rs of None \<Rightarrow> 0 | Some v \<Rightarrow> max 0 (sint v)) * 1000000000" by auto
qed

lemma applyRandomizeDuration_bounds:
  assumes "applyRandomizeDuration dur rd r = (d, r')" and dur: "0 \<le> dur" "dur \<le> 4294967295 * 1000000000"
  shows "dur - (case rd of None \<Rightarrow> 0 | Some v \<Rightarrow> \<bar>sint v\<bar> div 2) * 1000000000 \<le> d \<and>
    d \<le> dur + (case rd of None \<Rightarrow> 0 | Some v \<Rightarrow> \<bar>sint v\<bar> - \<bar>sint v\<bar> div 2) * 1000000000"
proof (cases "rd = None \<or> rd = Some 0")
  case True
  then show ?thesis using assms by (auto simp: applyRandomizeDuration_def)
next
  case False
  then obtain v where v: "rd = Some v" "v \<noteq> 0" by auto
  define a where "a = \<bar>sint v\<bar>"
  define j where "j = fst (Int64N r (a + 1))"
  have a: "0 \<le> a" "a \<le> 32768" using sint16_range [of v] by (auto simp: a_def)
  then have j: "0 \<le> j" "j \<le> a" using Int64N_range [of "a + 1" r] by (auto simp: j_def)
  have "seconds (j - a div 2) = (j - a div 2) * 1000000000" using a j by (intro seconds_id) auto
  moreover have "d = wrap64 (dur + seconds (j - a div 2))"
    using assms(1) v by (auto simp: applyRandomizeDuration_def j_def a_def abs_if Let_def split: prod.splits if_splits)
  moreover have "wrap64 (dur + (j - a div 2) * 1000000000) = dur + (j - a div 2) * 1000000000"
    using a j dur by (intro wrap64_id) (auto simp: minInt64_def maxInt64_def)
  ultimately have "d = dur + (j - a div 2) * 1000000000" by simp
  then show ?thesis using v j by (simp flip: a_def)
qed

definition nominal :: "DateTimeInterval \<Rightarrow> duration" where
  "nominal iv = uint (Duration iv) * 1000000000"

lemma nominal_range: "0 \<le> nominal iv \<and> nominal iv \<le> 4294967295 * 1000000000"
  using uint_lt2p [of "Duration iv"] by (simp add: nominal_def)

lemma computeWindow_eq:
  "computeWindow iv ev r =
    (let (f, r1) = applyRandomizeStart (unixTime (Start iv)) (RandomizeStart ev) r;
         (d, r2) = applyRandomizeDuration (nominal iv) (RandomizeDuration ev) r1
     in ((f, f + max 0 d), r2))"
  by (simp add: computeWindow_def nominal_def seconds_uint32 Let_def max_def split: prod.splits)

lemma computeWindow_fire_le: "computeWindow iv ev r = ((f, e), r') \<Longrightarrow> f \<le> e"
  by (auto simp: computeWindow_eq Let_def split: prod.splits)

section \<open>The invariant\<close>

text \<open>Sorted by fire time, one entry per mRID, no window of negative length.\<close>

definition sched_inv :: "Scheduler \<Rightarrow> bool" where
  "sched_inv s \<longleftrightarrow> sorted (map FireAt (queue s)) \<and> distinct (map seMRID (queue s)) \<and>
     (\<forall>e\<in>set (queue s). FireAt e \<le> ExpireAt e \<and> MRID (Source e) = seMRID e)"

text \<open>The part of it that holds inside the loop of \<open>OnEventsAdded\<close>, before the sort.\<close>

definition queue_ok :: "Scheduler \<Rightarrow> bool" where
  "queue_ok s \<longleftrightarrow> distinct (map seMRID (queue s)) \<and>
     (\<forall>e\<in>set (queue s). FireAt e \<le> ExpireAt e \<and> MRID (Source e) = seMRID e)"

lemma sched_inv_queue_ok: "sched_inv s \<Longrightarrow> queue_ok s"
  by (simp add: sched_inv_def queue_ok_def)

lemma removeByMRID_eq: "distinct (map seMRID q) \<Longrightarrow> removeByMRID q m = filter (\<lambda>e. seMRID e \<noteq> m) q"
  by (simp add: removeByMRID_def removeFirst_eq_filter)

lemma queue_ok_addEvent: "queue_ok s \<Longrightarrow> queue_ok (addEvent s ev)"
  by (auto simp: queue_ok_def addEvent_def removeByMRID_eq distinct_map_filter_key
      dest: computeWindow_fire_le split: option.splits prod.splits)

lemma queue_ok_addEvents: "queue_ok s \<Longrightarrow> queue_ok (foldl addEvent s evs)"
  by (rule foldl_preserves) (auto intro: queue_ok_addEvent)

lemma set_sortQueue [simp]: "set (sortQueue q) = set q"
  by (simp add: sortQueue_def)

lemma sortQueue_sorted: "sorted (map FireAt (sortQueue q))"
  by (simp add: sortQueue_def)

lemma sortQueue_distinct: "distinct (map seMRID (sortQueue q)) \<longleftrightarrow> distinct (map seMRID q)"
proof -
  have "mset (map seMRID (sortQueue q)) = mset (map seMRID q)" by (simp add: sortQueue_def)
  then show ?thesis by (metis distinct_count_atmost_1 set_mset_mset)
qed

lemma sched_inv_New [inv_intros]: "sched_inv (NewScheduler r)"
  by (simp add: sched_inv_def NewScheduler_def)

lemma sched_inv_added [inv_intros]: "sched_inv s \<Longrightarrow> sched_inv (OnEventsAdded s evs)"
  using queue_ok_addEvents [of s evs]
  by (auto simp: OnEventsAdded_def Let_def sched_inv_def queue_ok_def sortQueue_sorted sortQueue_distinct)

lemma cancel_queue:
  "distinct (map seMRID q) \<Longrightarrow> foldl removeByMRID q ms = filter (\<lambda>e. seMRID e \<notin> set ms) q"
proof (induction ms arbitrary: q)
  case Nil
  then show ?case by simp
next
  case (Cons m ms)
  have "foldl removeByMRID q (m # ms) = foldl removeByMRID (filter (\<lambda>e. seMRID e \<noteq> m) q) ms"
    using Cons.prems by (simp add: removeByMRID_eq)
  also have "\<dots> = filter (\<lambda>e. seMRID e \<notin> set ms) (filter (\<lambda>e. seMRID e \<noteq> m) q)"
    using Cons.prems by (intro Cons.IH distinct_map_filter_key)
  finally show ?case by (auto intro: filter_cong)
qed

lemma cancelled_eq:
  "sched_inv s \<Longrightarrow> OnEventsCancelled s ms = s\<lparr>queue := filter (\<lambda>e. seMRID e \<notin> set ms) (queue s)\<rparr>"
  by (simp add: OnEventsCancelled_def sched_inv_def cancel_queue)

lemma sched_inv_cancelled [inv_intros]: "sched_inv s \<Longrightarrow> sched_inv (OnEventsCancelled s ms)"
  by (simp add: cancelled_eq) (auto simp: sched_inv_def sorted_map_filter distinct_map_filter_key)

lemma cutAt_takeWhile: "take (cutAt q now) q = takeWhile (\<lambda>e. FireAt e \<le> now) q"
  "drop (cutAt q now) q = dropWhile (\<lambda>e. FireAt e \<le> now) q"
  by (induction q) auto

lemma popped_eq:
  assumes "sched_inv s"
  shows "PopExpired s now = (filter (\<lambda>e. FireAt e \<le> now) (queue s),
      s\<lparr>queue := filter (\<lambda>e. \<not> FireAt e \<le> now) (queue s)\<rparr>)"
proof -
  have *: "takeWhile (\<lambda>e. FireAt e \<le> now) (queue s) = filter (\<lambda>e. FireAt e \<le> now) (queue s)"
    "dropWhile (\<lambda>e. FireAt e \<le> now) (queue s) = filter (\<lambda>e. \<not> FireAt e \<le> now) (queue s)"
    using assms by (auto simp: sched_inv_def takeWhile_sorted_filter dropWhile_sorted_filter)
  have "cutAt (queue s) now = 0 \<Longrightarrow> take 0 (queue s) = takeWhile (\<lambda>e. FireAt e \<le> now) (queue s)"
    "cutAt (queue s) now = 0 \<Longrightarrow> drop 0 (queue s) = dropWhile (\<lambda>e. FireAt e \<le> now) (queue s)"
    using cutAt_takeWhile [of "queue s" now] by simp_all
  then show ?thesis by (auto simp: PopExpired_def Let_def cutAt_takeWhile *)
qed

lemma sched_inv_popped [inv_intros]: "sched_inv s \<Longrightarrow> sched_inv (snd (PopExpired s now))"
  by (simp add: popped_eq) (auto simp: sched_inv_def sorted_map_filter distinct_map_filter_key)

section \<open>The queue as a map from mRID to control\<close>

text \<open>
  The abstract queue: which control waits under which mRID. The operations refine updates,
  restrictions and a split of this map; the order and the windows are the implementation's.
\<close>

definition absQueue :: "Scheduler \<Rightarrow> string \<rightharpoonup> DERControl" where
  "absQueue s = map_of (map (\<lambda>e. (seMRID e, Source e)) (queue s))"

definition addSpec :: "(string \<rightharpoonup> DERControl) \<Rightarrow> DERControl \<Rightarrow> (string \<rightharpoonup> DERControl)" where
  "addSpec m ev = (if Interval ev = None then m else m(MRID ev \<mapsto> ev))"

lemma absQueue_Some:
  "queue_ok s \<Longrightarrow> absQueue s m = Some c \<longleftrightarrow> (\<exists>e\<in>set (queue s). seMRID e = m \<and> Source e = c)"
  by (auto simp: absQueue_def queue_ok_def comp_def image_iff)

lemma absQueue_cong:
  assumes "queue_ok s" "queue_ok s'" "set (queue s) = set (queue s')"
  shows "absQueue s = absQueue s'"
proof
  fix m
  have "absQueue s m = Some c \<longleftrightarrow> absQueue s' m = Some c" for c
    using assms by (simp add: absQueue_Some)
  then show "absQueue s m = absQueue s' m" by (metis not_Some_eq)
qed

lemma absQueue_addEvent:
  assumes "queue_ok s"
  shows "absQueue (addEvent s ev) = addSpec (absQueue s) ev"
proof
  fix m
  have ok: "queue_ok (addEvent s ev)" using assms by (rule queue_ok_addEvent)
  have "absQueue (addEvent s ev) m = Some c \<longleftrightarrow> addSpec (absQueue s) ev m = Some c" for c
    using assms unfolding absQueue_Some [OF ok]
    by (auto simp: addSpec_def absQueue_Some addEvent_def removeByMRID_eq queue_ok_def
        split: option.splits prod.splits)
  then show "absQueue (addEvent s ev) m = addSpec (absQueue s) ev m" by (metis not_Some_eq)
qed

lemma absQueue_foldl:
  "queue_ok s \<Longrightarrow> absQueue (foldl addEvent s evs) = foldl addSpec (absQueue s) evs"
  by (induction evs arbitrary: s) (auto simp: absQueue_addEvent queue_ok_addEvent)

lemma absQueue_added:
  assumes "sched_inv s"
  shows "absQueue (OnEventsAdded s evs) = foldl addSpec (absQueue s) evs"
proof (cases "evs = []")
  case True
  then show ?thesis by (simp add: OnEventsAdded_def)
next
  case False
  let ?t = "foldl addEvent s evs"
  have t: "queue_ok ?t" using assms by (intro queue_ok_addEvents sched_inv_queue_ok)
  have "queue_ok (OnEventsAdded s evs)" by (intro sched_inv_queue_ok sched_inv_added assms)
  moreover have "set (queue (OnEventsAdded s evs)) = set (queue ?t)"
    using False by (simp add: OnEventsAdded_def Let_def)
  ultimately have "absQueue (OnEventsAdded s evs) = absQueue ?t"
    using t by (intro absQueue_cong)
  then show ?thesis using assms by (simp add: absQueue_foldl sched_inv_queue_ok)
qed

lemma absQueue_cancelled:
  assumes "sched_inv s"
  shows "absQueue (OnEventsCancelled s ms) = absQueue s |` (- set ms)"
proof
  fix m
  have ok: "queue_ok s" "queue_ok (OnEventsCancelled s ms)"
    using assms by (auto intro: sched_inv_queue_ok sched_inv_cancelled)
  have "absQueue (OnEventsCancelled s ms) m = Some c \<longleftrightarrow> (absQueue s |` (- set ms)) m = Some c" for c
    using ok assms by (auto simp: absQueue_Some restrict_map_def cancelled_eq)
  then show "absQueue (OnEventsCancelled s ms) m = (absQueue s |` (- set ms)) m"
    by (metis not_Some_eq)
qed

lemma foldl_addSpec_dom:
  "dom (foldl addSpec mp evs) = dom mp \<union> {MRID ev |ev. ev \<in> set evs \<and> Interval ev \<noteq> None}"
  by (induction evs arbitrary: mp) (auto simp: addSpec_def)

lemma dom_absQueue: "dom (absQueue s) = seMRID ` set (queue s)"
  by (auto simp: absQueue_def dom_map_of_conv_image_fst image_image)

lemma keys_added:
  "sched_inv s \<Longrightarrow> seMRID ` set (queue (OnEventsAdded s evs)) =
     seMRID ` set (queue s) \<union> {MRID ev |ev. ev \<in> set evs \<and> Interval ev \<noteq> None}"
  unfolding dom_absQueue [symmetric] by (simp add: absQueue_added foldl_addSpec_dom)

section \<open>The contract the state machine relies on\<close>

locale event_queue =
  fixes qinv :: "'s \<Rightarrow> bool"
    and pending :: "'s \<Rightarrow> scheduledEvent list"
    and added :: "'s \<Rightarrow> DERControl list \<Rightarrow> 's"
    and cancelled :: "'s \<Rightarrow> string list \<Rightarrow> 's"
    and popExpired :: "'s \<Rightarrow> time \<Rightarrow> scheduledEvent list \<times> 's"
    and nextEvent :: "'s \<Rightarrow> scheduledEvent option"
  assumes qinv_added: "qinv s \<Longrightarrow> qinv (added s evs)"
    and qinv_cancelled: "qinv s \<Longrightarrow> qinv (cancelled s ms)"
    and qinv_popped: "qinv s \<Longrightarrow> qinv (snd (popExpired s now))"
    and added_keys: "qinv s \<Longrightarrow> seMRID ` set (pending (added s evs)) \<subseteq> seMRID ` set (pending s) \<union> MRID ` set evs"
    and cancelled_set: "qinv s \<Longrightarrow> set (pending (cancelled s ms)) = {e \<in> set (pending s). seMRID e \<notin> set ms}"
    and popped_due: "qinv s \<Longrightarrow> set (fst (popExpired s now)) = {e \<in> set (pending s). FireAt e \<le> now}"
    and popped_rest: "qinv s \<Longrightarrow> set (pending (snd (popExpired s now))) = {e \<in> set (pending s). now < FireAt e}"
    and popped_sorted: "qinv s \<Longrightarrow> sorted (map FireAt (fst (popExpired s now)))"
    and next_none: "nextEvent s = None \<longleftrightarrow> pending s = []"
    and next_min: "qinv s \<Longrightarrow> nextEvent s = Some e \<Longrightarrow> e \<in> set (pending s) \<and> (\<forall>e'\<in>set (pending s). FireAt e \<le> FireAt e')"
    and pending_ok: "qinv s \<Longrightarrow> e \<in> set (pending s) \<Longrightarrow> MRID (Source e) = seMRID e \<and> FireAt e \<le> ExpireAt e"
begin

text \<open>The head of the queue after a pop has not come due.\<close>

lemma next_after_pop: "qinv s \<Longrightarrow> nextEvent (snd (popExpired s now)) = Some e \<Longrightarrow> now < FireAt e"
  using next_min [OF qinv_popped] popped_rest by blast

text \<open>The first popped event is the earliest of all that were pending.\<close>

lemma popped_head:
  assumes "qinv s" "fst (popExpired s now) = h # t"
  shows "h \<in> set (pending s) \<and> FireAt h \<le> now \<and> (\<forall>e\<in>set (pending s). FireAt h \<le> FireAt e)"
proof -
  have "h \<in> set (fst (popExpired s now))" using assms(2) by simp
  then have h: "h \<in> set (pending s)" "FireAt h \<le> now" using popped_due [OF assms(1)] by auto
  moreover have "FireAt h \<le> FireAt e" if e: "e \<in> set (pending s)" for e
  proof (cases "FireAt e \<le> now")
    case True
    then have "e \<in> set (h # t)" using popped_due [OF assms(1), of now] assms(2) e by auto
    moreover have "sorted (map FireAt (h # t))" using popped_sorted [OF assms(1), of now] assms(2) by simp
    ultimately show ?thesis by auto
  next
    case False
    with h show ?thesis by simp
  qed
  ultimately show ?thesis by blast
qed

text \<open>A cancelled mRID is neither next nor popped.\<close>

lemma cancelled_not_next:
  "qinv s \<Longrightarrow> nextEvent (cancelled s ms) = Some e \<Longrightarrow> seMRID e \<notin> set ms"
  using next_min [OF qinv_cancelled] cancelled_set by blast

lemma cancelled_not_popped:
  "qinv s \<Longrightarrow> e \<in> set (fst (popExpired (cancelled s ms) now)) \<Longrightarrow> seMRID e \<notin> set ms"
  using popped_due [OF qinv_cancelled] cancelled_set by blast

end

interpretation sq: event_queue sched_inv queue OnEventsAdded OnEventsCancelled PopExpired NextEvent
proof
  fix s :: Scheduler and evs ms and now :: time and e
  show "sched_inv s \<Longrightarrow> sched_inv (OnEventsAdded s evs)" by (rule sched_inv_added)
  show "sched_inv s \<Longrightarrow> sched_inv (OnEventsCancelled s ms)" by (rule sched_inv_cancelled)
  show "sched_inv s \<Longrightarrow> sched_inv (snd (PopExpired s now))" by (rule sched_inv_popped)
  show "sched_inv s \<Longrightarrow> seMRID ` set (queue (OnEventsAdded s evs)) \<subseteq> seMRID ` set (queue s) \<union> MRID ` set evs"
    by (auto simp: keys_added)
  show "sched_inv s \<Longrightarrow> set (queue (OnEventsCancelled s ms)) = {e \<in> set (queue s). seMRID e \<notin> set ms}"
    by (simp add: cancelled_eq)
  show "sched_inv s \<Longrightarrow> set (fst (PopExpired s now)) = {e \<in> set (queue s). FireAt e \<le> now}"
    by (simp add: popped_eq)
  show "sched_inv s \<Longrightarrow> set (queue (snd (PopExpired s now))) = {e \<in> set (queue s). now < FireAt e}"
    by (auto simp: popped_eq)
  show "sched_inv s \<Longrightarrow> sorted (map FireAt (fst (PopExpired s now)))"
    by (simp add: popped_eq sched_inv_def sorted_map_filter)
  show "NextEvent s = None \<longleftrightarrow> queue s = []" by (simp add: NextEvent_def split: list.split)
  show "sched_inv s \<Longrightarrow> NextEvent s = Some e \<Longrightarrow> e \<in> set (queue s) \<and> (\<forall>e'\<in>set (queue s). FireAt e \<le> FireAt e')"
    by (auto simp: NextEvent_def sched_inv_def split: list.splits)
  show "sched_inv s \<Longrightarrow> e \<in> set (queue s) \<Longrightarrow> MRID (Source e) = seMRID e \<and> FireAt e \<le> ExpireAt e"
    by (simp add: sched_inv_def)
qed

section \<open>Reachable queues\<close>

inductive sched_reachable :: "Scheduler \<Rightarrow> bool" where
  new: "sched_reachable (NewScheduler r)"
| add: "sched_reachable s \<Longrightarrow> sched_reachable (OnEventsAdded s evs)"
| cancel: "sched_reachable s \<Longrightarrow> sched_reachable (OnEventsCancelled s ms)"
| update: "sched_reachable s \<Longrightarrow> sched_reachable (OnEventsUpdated s evs)"
| pop: "sched_reachable s \<Longrightarrow> sched_reachable (snd (PopExpired s now))"

lemma sched_reachable_inv: "sched_reachable s \<Longrightarrow> sched_inv s"
  by (induction rule: sched_reachable.induct) (auto intro: inv_intros simp: OnEventsUpdated_def)

section \<open>Properties\<close>

text \<open>The event of the examples: ten seconds from second 100, on a random source of zeros.\<close>

definition demoEvent :: DERControl where
  "demoEvent = (blankControl ''A'')\<lparr>Interval := Some \<lparr>Start = 100, Duration = 10\<rparr>\<rparr>"

definition demoRng :: rng where
  "demoRng = \<lparr>draws = (\<lambda>_. 0), drawn = 0\<rparr>"

lemma demoEvent_fields [simp]: "Interval demoEvent = Some \<lparr>Start = 100, Duration = 10\<rparr>"
  "MRID demoEvent = ''A''" "RandomizeStart demoEvent = None" "RandomizeDuration demoEvent = None"
  "ControlBase demoEvent = None"
  by (simp_all add: demoEvent_def blankControl_def)

definition demoSched :: Scheduler where
  "demoSched = OnEventsAdded (NewScheduler demoRng) [demoEvent]"

lemma demoSched_reachable: "sched_reachable demoSched"
  by (simp add: demoSched_def sched_reachable.intros)

lemma demoSched_queue: "queue demoSched =
    [\<lparr>seMRID = ''A'', FireAt = unixTime 100, ExpireAt = unixTime 110, Source = demoEvent\<rparr>]"
  by (simp add: demoSched_def OnEventsAdded_def addEvent_def NewScheduler_def computeWindow_eq nominal_def
      applyRandomizeStart_def applyRandomizeDuration_def removeByMRID_def sortQueue_def go_time)

text \<open>Randomization only ever moves a window as far as the resource allows: the start by at most
  \<open>randomizeStart\<close> seconds in the direction of its sign, the length by at most half of
  \<open>randomizeDuration\<close> (rounded up on the long side), never below zero, and no 64-bit product wraps.\<close>

theorem window_bounds:
  assumes "computeWindow iv ev r = ((f, e), r')"
  shows "unixTime (Start iv) - (case RandomizeStart ev of None \<Rightarrow> 0 | Some v \<Rightarrow> max 0 (- sint v)) * 1000000000 \<le> f \<and>
    f \<le> unixTime (Start iv) + (case RandomizeStart ev of None \<Rightarrow> 0 | Some v \<Rightarrow> max 0 (sint v)) * 1000000000 \<and>
    f \<le> e \<and>
    f + nominal iv - (case RandomizeDuration ev of None \<Rightarrow> 0 | Some v \<Rightarrow> \<bar>sint v\<bar> div 2) * 1000000000 \<le> e \<and>
    e \<le> f + nominal iv + (case RandomizeDuration ev of None \<Rightarrow> 0 | Some v \<Rightarrow> \<bar>sint v\<bar> - \<bar>sint v\<bar> div 2) * 1000000000"
proof -
  obtain r1 d where s: "applyRandomizeStart (unixTime (Start iv)) (RandomizeStart ev) r = (f, r1)"
    and d: "applyRandomizeDuration (nominal iv) (RandomizeDuration ev) r1 = (d, r')" and e: "e = f + max 0 d"
    using assms by (auto simp: computeWindow_eq Let_def split: prod.splits)
  have "0 \<le> (case RandomizeDuration ev of None \<Rightarrow> 0 | Some v \<Rightarrow> \<bar>sint v\<bar> - \<bar>sint v\<bar> div 2)"
    by (auto split: option.split)
  then show ?thesis
    using applyRandomizeStart_bounds [OF s] applyRandomizeDuration_bounds [OF d] nominal_range [of iv] e by auto
qed

theorem window_bounds_witness:
  "fst (computeWindow \<lparr>Start = 100, Duration = 10\<rparr> (demoEvent\<lparr>RandomizeStart := Some (- 5)\<rparr>) demoRng)
     = (unixTime 100, unixTime 110) \<and> unixTime 95 \<le> unixTime 100"
proof -
  let ?ev = "demoEvent\<lparr>RandomizeStart := Some (- 5)\<rparr>"
  have "computeWindow \<lparr>Start = 100, Duration = 10\<rparr> ?ev demoRng =
      ((unixTime 100, unixTime 110), demoRng\<lparr>drawn := 1\<rparr>)"
    by (simp add: computeWindow_eq nominal_def applyRandomizeStart_def applyRandomizeDuration_def Int64N_def
        demoRng_def go_time)
  from window_bounds [OF this] this show ?thesis by (simp add: go_time)
qed

text \<open>In every queue the operations can build, the entries are sorted by fire time, no mRID has two
  entries, and every entry has a window of non-negative length and the control of its own mRID.\<close>

theorem queue_invariant:
  assumes "sched_reachable s"
  shows "sorted (map FireAt (queue s)) \<and> distinct (map seMRID (queue s)) \<and>
    (\<forall>e\<in>set (queue s). FireAt e \<le> ExpireAt e \<and> MRID (Source e) = seMRID e)"
  using sched_reachable_inv [OF assms] by (simp add: sched_inv_def)

theorem queue_invariant_witness:
  "queue demoSched \<noteq> [] \<and> distinct (map seMRID (queue demoSched))"
  using queue_invariant [OF demoSched_reachable] by (simp add: demoSched_queue)

text \<open>\<open>PopExpired\<close> returns exactly the events that have come due, in order of fire time, and
  keeps exactly the others; a second pop at the same instant returns nothing.\<close>

theorem pop_exact:
  assumes "sched_reachable s" "PopExpired s now = (due, s')"
  shows "due = filter (\<lambda>e. FireAt e \<le> now) (queue s) \<and>
    queue s' = filter (\<lambda>e. now < FireAt e) (queue s) \<and> sorted (map FireAt due) \<and>
    mset (queue s) = mset due + mset (queue s') \<and> PopExpired s' now = ([], s')"
proof -
  have i: "sched_inv s" by (rule sched_reachable_inv [OF assms(1)])
  have d: "due = filter (\<lambda>e. FireAt e \<le> now) (queue s)" "s' = s\<lparr>queue := filter (\<lambda>e. \<not> FireAt e \<le> now) (queue s)\<rparr>"
    using popped_eq [OF i, of now] assms(2) by auto
  have "sched_inv s'" using sched_inv_popped [OF i, of now] assms(2) by simp
  then have "PopExpired s' now = ([], s')" using d(2) by (simp add: popped_eq)
  moreover have "mset (queue s) = mset due + mset (queue s')"
    using multiset_partition [of "mset (queue s)" "\<lambda>e. FireAt e \<le> now"] d by simp
  ultimately show ?thesis using d i by (simp add: not_le sched_inv_def sorted_map_filter)
qed

theorem pop_exact_witness:
  "map seMRID (fst (PopExpired demoSched (unixTime 100))) = [''A''] \<and>
   PopExpired (snd (PopExpired demoSched (unixTime 100))) (unixTime 100) =
     ([], snd (PopExpired demoSched (unixTime 100)))"
  using pop_exact [OF demoSched_reachable, of "unixTime 100" "fst (PopExpired demoSched (unixTime 100))"
      "snd (PopExpired demoSched (unixTime 100))"]
  by (simp add: demoSched_queue)

text \<open>C5: The queue refines a map from mRID to control: adding a list is a sequence of map updates (a
  resent mRID replaces its entry, an event without an interval is ignored), cancelling deletes the keys,
  popping keeps the entries that are not due.\<close>

theorem queue_refines_map:
  assumes "sched_reachable s"
  shows "absQueue (OnEventsAdded s evs) = foldl addSpec (absQueue s) evs \<and>
    absQueue (OnEventsCancelled s ms) = absQueue s |` (- set ms) \<and>
    absQueue (OnEventsUpdated s evs) = absQueue s \<and>
    dom (absQueue (snd (PopExpired s now))) = {m. \<exists>e\<in>set (queue s). seMRID e = m \<and> now < FireAt e}"
proof -
  have i: "sched_inv s" by (rule sched_reachable_inv [OF assms])
  have "dom (absQueue (snd (PopExpired s now))) = {m. \<exists>e\<in>set (queue s). seMRID e = m \<and> now < FireAt e}"
    by (auto simp: dom_absQueue sq.popped_rest [OF i])
  then show ?thesis by (simp add: absQueue_added [OF i] absQueue_cancelled [OF i] OnEventsUpdated_def)
qed

theorem queue_refines_map_witness:
  "absQueue (OnEventsCancelled demoSched [''A'']) = Map.empty \<and> absQueue demoSched ''A'' = Some demoEvent"
proof -
  have a: "absQueue demoSched = [''A'' \<mapsto> demoEvent]" by (simp add: absQueue_def demoSched_queue)
  have "absQueue (OnEventsCancelled demoSched [''A'']) = absQueue demoSched |` (- set [''A''])"
    using queue_refines_map [OF demoSched_reachable, of "[]" "[''A'']" 0] by blast
  with a show ?thesis by (simp add: restrict_map_def fun_eq_iff)
qed

end
