(* ===== verification/StateMachine.thy ===== *)
theory StateMachine
  imports Scheduler
begin

text \<open>
  \<open>internal/inverter/statemachine.go\<close>: the DERControl event lifecycle. The machine's state is
  a record; \<open>Tick\<close> and \<open>Reject\<close> return the new machine, the new scheduler and the transitions
  recorded under the mutex, in order. \<open>fireTransitions\<close> turns transitions into the sequence
  of hook calls made after the mutex is released; a hook is a value of the type \<open>'h\<close>, so a
  trail of calls says which hook ran on which transition. The validator is the optional
  function \<open>validate\<close>; the map \<open>rejected\<close> holds only \<open>true\<close> entries and is a set. The five
  steps of \<open>computeTransitionsLocked\<close> are five definitions, composed in its order.
\<close>

section \<open>State\<close>

datatype EventState =
    StateDefault
  | StateEventReceived
  | StateEventStarted
  | StateEventCompleted
  | StateEventCancelled
  | StateEventRejected

fun stateName :: "EventState \<Rightarrow> string" where
  "stateName StateDefault = ''DEFAULT''"
| "stateName StateEventReceived = ''EVENT_RECEIVED''"
| "stateName StateEventStarted = ''EVENT_STARTED''"
| "stateName StateEventCompleted = ''EVENT_COMPLETED''"
| "stateName StateEventCancelled = ''EVENT_CANCELLED''"
| "stateName StateEventRejected = ''EVENT_REJECTED''"

record EventStateSnapshot =
  snapState :: EventState
  ActiveMRID :: string
  ActiveDERControl :: "DERControl option"

record 'h StateMachine =
  state :: EventState
  activeMRID :: string
  activeDERCtrl :: "DERControl option"
  activeExpireAt :: time
  hook :: "'h option"
  hooks :: "'h list"
  validate :: "(DERControl \<Rightarrow> ctlError option) option"
  rejected :: "string set"

record 'h transition =
  tprev :: EventState
  tnext :: EventState
  tmRID :: string
  tevt :: "DERControl option"
  thook :: "'h option"
  thooks :: "'h list"

definition NewStateMachine :: "'h StateMachine" where
  "NewStateMachine = \<lparr>state = StateDefault, activeMRID = [], activeDERCtrl = None,
     activeExpireAt = zeroTime, hook = None, hooks = [], validate = None, rejected = {}\<rparr>"

definition OnTransition :: "'h StateMachine \<Rightarrow> 'h option \<Rightarrow> 'h StateMachine" where
  "OnTransition sm h = sm\<lparr>hook := h\<rparr>"

definition SetValidator :: "'h StateMachine \<Rightarrow> (DERControl \<Rightarrow> ctlError option) option \<Rightarrow> 'h StateMachine" where
  "SetValidator sm v = sm\<lparr>validate := v\<rparr>"

definition AddTransitionHook :: "'h StateMachine \<Rightarrow> 'h option \<Rightarrow> 'h StateMachine" where
  "AddTransitionHook sm h = (case h of None \<Rightarrow> sm | Some f \<Rightarrow> sm\<lparr>hooks := hooks sm @ [f]\<rparr>)"

definition Current :: "'h StateMachine \<Rightarrow> EventStateSnapshot" where
  "Current sm = \<lparr>snapState = state sm, ActiveMRID = activeMRID sm, ActiveDERControl = activeDERCtrl sm\<rparr>"

section \<open>Recording transitions\<close>

definition mkTransition :: "'h StateMachine \<Rightarrow> EventState \<Rightarrow> EventState \<Rightarrow> string \<Rightarrow> DERControl option \<Rightarrow> 'h transition" where
  "mkTransition sm prev next m evt =
     \<lparr>tprev = prev, tnext = next, tmRID = m, tevt = evt, thook = hook sm, thooks = hooks sm\<rparr>"

definition transitionLocked ::
    "'h StateMachine \<Rightarrow> EventState \<Rightarrow> string \<Rightarrow> DERControl option \<Rightarrow> 'h StateMachine \<times> 'h transition" where
  "transitionLocked sm next m evt =
     (let t = mkTransition sm (state sm) next m evt;
          sm = sm\<lparr>state := next\<rparr>;
          sm = (if next = StateDefault
                then sm\<lparr>activeMRID := [], activeDERCtrl := None, activeExpireAt := zeroTime\<rparr> else sm)
      in (sm, t))"

definition recordTransitionLocked ::
    "'h StateMachine \<Rightarrow> EventState \<Rightarrow> EventState \<Rightarrow> string \<Rightarrow> DERControl option \<Rightarrow> 'h StateMachine \<times> 'h transition" where
  "recordTransitionLocked sm prev next m evt =
     (sm\<lparr>state := next\<rparr>, mkTransition sm prev next m evt)"

definition rejectLocked :: "'h StateMachine \<Rightarrow> DERControl \<Rightarrow> 'h StateMachine \<times> 'h transition" where
  "rejectLocked sm evt =
     (sm\<lparr>rejected := insert (MRID evt) (rejected sm)\<rparr>,
      mkTransition sm (state sm) StateEventRejected (MRID evt) (Some evt))"

text \<open>The hook calls of a list of transitions: the single slot first, then the list, in order.\<close>

definition fireTransitions ::
    "'h transition list \<Rightarrow> ('h \<times> EventState \<times> EventState \<times> DERControl option) list" where
  "fireTransitions pending =
     concat (map (\<lambda>t. map (\<lambda>h. (h, tprev t, tnext t, tevt t))
        ((case thook t of None \<Rightarrow> [] | Some h \<Rightarrow> [h]) @ thooks t)) pending)"

section \<open>The five steps of a tick\<close>

type_synonym 'h step = "'h StateMachine \<times> Scheduler \<times> 'h transition list"

text \<open>Step 1: the loop over \<open>added\<close> that drops refused events.\<close>

fun receiveAdded ::
    "'h StateMachine \<Rightarrow> DERControl list \<Rightarrow> 'h StateMachine \<times> 'h transition list \<times> DERControl list" where
  "receiveAdded sm [] = (sm, [], [])"
| "receiveAdded sm (a # as) =
     (if MRID a \<in> rejected sm then receiveAdded sm as
      else
        case (case validate sm of None \<Rightarrow> None | Some v \<Rightarrow> v a) of
          Some err \<Rightarrow>
            (let (sm, t) = rejectLocked sm a; (sm, ts, acc) = receiveAdded sm as in (sm, t # ts, acc))
        | None \<Rightarrow>
            (let (sm, ts, acc) = receiveAdded sm as in (sm, ts, a # acc)))"

definition stepAdded :: "'h StateMachine \<Rightarrow> Scheduler \<Rightarrow> DERControl list \<Rightarrow> 'h step" where
  "stepAdded sm sched added =
     (let (sm, out, accepted) =
          (if (validate sm \<noteq> None \<or> rejected sm \<noteq> {}) \<and> added \<noteq> [] then receiveAdded sm added
           else (sm, [], added))
      in (sm, if accepted \<noteq> [] then OnEventsAdded sched accepted else sched, out))"

text \<open>Step 2: cancellations. Of two cancelled controls with one mRID the later wins the map.\<close>

definition cancelledMap :: "DERControl list \<Rightarrow> string \<rightharpoonup> DERControl" where
  "cancelledMap cs = map_of (rev (map (\<lambda>c. (MRID c, c)) (filter (\<lambda>c. MRID c \<noteq> []) cs)))"

definition stepCancelled :: "'h StateMachine \<Rightarrow> Scheduler \<Rightarrow> DERControl list \<Rightarrow> 'h step" where
  "stepCancelled sm sched cancelled =
     (if cancelled = [] then (sm, sched, [])
      else
        let mRIDs = filter (\<lambda>m. m \<noteq> []) (map MRID cancelled);
            sched = OnEventsCancelled sched mRIDs
        in
          case (if activeMRID sm \<noteq> [] then cancelledMap cancelled (activeMRID sm) else None) of
            Some evt \<Rightarrow>
              if state sm = StateEventReceived \<or> state sm = StateEventStarted then
                let (sm, t1) = transitionLocked sm StateEventCancelled (activeMRID sm) (Some evt);
                    (sm, t2) = transitionLocked sm StateDefault [] None
                in (sm, sched, [t1, t2])
              else (sm, sched, [])
          | None \<Rightarrow> (sm, sched, []))"

text \<open>Completion, in step 3 and again at the end of step 4.\<close>

definition overdue :: "'h StateMachine \<Rightarrow> time \<Rightarrow> bool" where
  "overdue sm now \<longleftrightarrow> activeExpireAt sm \<noteq> zeroTime \<and> \<not> now < activeExpireAt sm"

definition complete :: "'h StateMachine \<Rightarrow> 'h StateMachine \<times> 'h transition list" where
  "complete sm =
     (let (sm1, t1) = transitionLocked sm StateEventCompleted (activeMRID sm) (activeDERCtrl sm);
          (sm2, t2) = transitionLocked sm1 StateDefault [] None
      in (sm2, [t1, t2]))"

definition stepComplete :: "'h StateMachine \<Rightarrow> time \<Rightarrow> 'h StateMachine \<times> 'h transition list" where
  "stepComplete sm now =
     (if state sm = StateEventStarted \<and> overdue sm now then complete sm else (sm, []))"

text \<open>Step 4: the popped events, of which only the first can become active.\<close>

definition activate :: "'h StateMachine \<Rightarrow> scheduledEvent \<Rightarrow> 'h StateMachine" where
  "activate sm e = sm\<lparr>activeMRID := seMRID e, activeDERCtrl := Some (Source e), activeExpireAt := ExpireAt e\<rparr>"

definition stepHead :: "'h StateMachine \<Rightarrow> scheduledEvent \<Rightarrow> time \<Rightarrow> 'h StateMachine \<times> 'h transition list" where
  "stepHead sm head now =
     (let (sm, out) =
          (if state sm = StateDefault then
             let sm = activate sm head;
                 (sm, t) = recordTransitionLocked sm StateDefault StateEventReceived (seMRID head) (Some (Source head))
             in (sm, [t])
           else (sm, []))
      in
        if state sm = StateEventReceived \<and> activeMRID sm = seMRID head then
          let sm = sm\<lparr>activeDERCtrl := Some (Source head), activeExpireAt := ExpireAt head\<rparr>;
              (sm, t) = transitionLocked sm StateEventStarted (seMRID head) (Some (Source head));
              (sm, ts) = (if overdue sm now then complete sm else (sm, []))
          in (sm, out @ t # ts)
        else (sm, out))"

definition stepPop :: "'h StateMachine \<Rightarrow> Scheduler \<Rightarrow> time \<Rightarrow> 'h step" where
  "stepPop sm sched now =
     (let (expired, sched) = PopExpired sched now in
      case expired of
        [] \<Rightarrow> (sm, sched, [])
      | head # _ \<Rightarrow> (let (sm, out) = stepHead sm head now in (sm, sched, out)))"

text \<open>Step 5: the pending head becomes the observed event.\<close>

definition stepObserve :: "'h StateMachine \<Rightarrow> Scheduler \<Rightarrow> 'h StateMachine \<times> 'h transition list" where
  "stepObserve sm sched =
     (if state sm = StateDefault then
        case NextEvent sched of
          None \<Rightarrow> (sm, [])
        | Some e \<Rightarrow>
            (let (sm, t) = transitionLocked (activate sm e) StateEventReceived (seMRID e) (Some (Source e))
             in (sm, [t]))
      else (sm, []))"

definition Tick :: "'h StateMachine \<Rightarrow> time \<Rightarrow> DERControl list \<Rightarrow> DERControl list \<Rightarrow> Scheduler \<Rightarrow> 'h step" where
  "Tick sm now added cancelled sched =
     (let (sm1, sched1, out1) = stepAdded sm sched added;
          (sm2, sched2, out2) = stepCancelled sm1 sched1 cancelled;
          (sm3, out3) = stepComplete sm2 now;
          (sm4, sched4, out4) = stepPop sm3 sched2 now;
          (sm5, out5) = stepObserve sm4 sched4
      in (sm5, sched4, out1 @ out2 @ out3 @ out4 @ out5))"

section \<open>Reject\<close>

definition rejectItem :: "'h step \<Rightarrow> RejectedDERControl \<Rightarrow> 'h step" where
  "rejectItem st item =
     (let (sm, sched, out) = st; m = MRID item in
      if m = [] then st
      else if m \<in> rejected sm then st
      else if EventStatus item = Some EventStatusCancelled then st
      else
        let (sm, t) = rejectLocked sm (eventOf item);
            sched = OnEventsCancelled sched [m]
        in
          if activeMRID sm = m \<and> (state sm = StateEventReceived \<or> state sm = StateEventStarted) then
            let (sm, t2) = transitionLocked sm StateDefault [] None in (sm, sched, out @ [t, t2])
          else (sm, sched, out @ [t]))"

definition Reject :: "'h StateMachine \<Rightarrow> RejectedDERControl list \<Rightarrow> Scheduler \<Rightarrow> 'h step" where
  "Reject sm items sched = foldl rejectItem (sm, sched, []) items"

section \<open>What the simulation loop applies\<close>

definition ActiveControlBase :: "EventStateSnapshot \<Rightarrow> DefaultDERControl option \<Rightarrow> DERControlBase option" where
  "ActiveControlBase snap defaultCtl =
     (case (if snapState snap = StateEventStarted
            then (case ActiveDERControl snap of None \<Rightarrow> None | Some c \<Rightarrow> ControlBase c) else None) of
        Some b \<Rightarrow> Some b
      | None \<Rightarrow> (case defaultCtl of None \<Rightarrow> None | Some d \<Rightarrow> ddcBase d))"

section \<open>The lifecycle\<close>

text \<open>The edges of the diagram in the file's header.\<close>

inductive lifecycle :: "EventState \<Rightarrow> EventState \<Rightarrow> bool" where
  receive: "lifecycle StateDefault StateEventReceived"
| start: "lifecycle StateEventReceived StateEventStarted"
| finish: "lifecycle StateEventStarted StateEventCompleted"
| cancelReceived: "lifecycle StateEventReceived StateEventCancelled"
| cancelStarted: "lifecycle StateEventStarted StateEventCancelled"
| revertCompleted: "lifecycle StateEventCompleted StateDefault"
| revertCancelled: "lifecycle StateEventCancelled StateDefault"

inductive_simps lifecycle_simps [simp]:
  "lifecycle StateDefault n" "lifecycle StateEventReceived n" "lifecycle StateEventStarted n"
  "lifecycle StateEventCompleted n" "lifecycle StateEventCancelled n" "lifecycle StateEventRejected n"

text \<open>The edges \<open>Reject\<close> adds: an accepted event withdrawn without a cancellation.\<close>

definition withdrawal :: "EventState \<Rightarrow> EventState \<Rightarrow> bool" where
  "withdrawal p n \<longleftrightarrow> p \<in> {StateEventReceived, StateEventStarted} \<and> n = StateDefault"

text \<open>
  A trail leads from one state to another along the edges \<open>E\<close>: every transition starts where
  the last one ended, and a rejection record leaves the state where it was.
\<close>

fun trail :: "(EventState \<Rightarrow> EventState \<Rightarrow> bool) \<Rightarrow> EventState \<Rightarrow> 'h transition list \<Rightarrow> EventState \<Rightarrow> bool" where
  "trail E s [] s' \<longleftrightarrow> s = s'"
| "trail E s (t # ts) s' \<longleftrightarrow> tprev t = s \<and>
     (if tnext t = StateEventRejected then trail E s ts s' else E s (tnext t) \<and> trail E (tnext t) ts s')"

lemma trail_append: "trail E s xs s' \<Longrightarrow> trail E s' ys s'' \<Longrightarrow> trail E s (xs @ ys) s''"
  by (induction xs arbitrary: s) (auto split: if_splits)

definition sm_inv :: "'h StateMachine \<Rightarrow> bool" where
  "sm_inv sm \<longleftrightarrow>
     (state sm = StateDefault \<and> activeMRID sm = [] \<and> activeDERCtrl sm = None \<and> activeExpireAt sm = zeroTime) \<or>
     ((state sm = StateEventReceived \<or> state sm = StateEventStarted) \<and>
      (\<exists>c. activeDERCtrl sm = Some c \<and> MRID c = activeMRID sm))"

lemma sm_inv_New: "sm_inv NewStateMachine"
  by (simp add: sm_inv_def NewStateMachine_def)

lemma sm_inv_cases:
  assumes "sm_inv sm"
  obtains "state sm = StateDefault" "activeMRID sm = []" "activeDERCtrl sm = None" "activeExpireAt sm = zeroTime"
  | c where "state sm = StateEventReceived" "activeDERCtrl sm = Some c" "MRID c = activeMRID sm"
  | c where "state sm = StateEventStarted" "activeDERCtrl sm = Some c" "MRID c = activeMRID sm"
  using assms by (auto simp: sm_inv_def)

lemmas transition_defs = transitionLocked_def recordTransitionLocked_def rejectLocked_def
  mkTransition_def activate_def Let_def

subsection \<open>Each step keeps the invariant and leaves a trail\<close>

lemma receiveAdded_frame:
  "receiveAdded sm as = (sm', out, acc) \<Longrightarrow>
     sm' = sm\<lparr>rejected := rejected sm'\<rparr> \<and> trail E (state sm) out (state sm) \<and>
     rejected sm \<subseteq> rejected sm' \<and> set acc \<subseteq> set as \<and> MRID ` set acc \<inter> rejected sm = {}"
proof (induction sm as arbitrary: sm' out acc rule: receiveAdded.induct)
  case (1 sm)
  then show ?case by simp
next
  case (2 sm a as)
  show ?case
  proof (cases "MRID a \<in> rejected sm")
    case True
    with "2.IH"(1) "2.prems" show ?thesis by fastforce
  next
    case False
    note new = False
    show ?thesis
    proof (cases "case validate sm of None \<Rightarrow> None | Some v \<Rightarrow> v a")
      case None
      then obtain acc' where acc': "receiveAdded sm as = (sm', out, acc')" "acc = a # acc'"
        using "2.prems" new by (auto split: prod.splits)
      from "2.IH"(2) [OF new None acc'(1)] acc'(2) new show ?thesis by auto
    next
      case (Some err)
      define sm1 where "sm1 = sm\<lparr>rejected := insert (MRID a) (rejected sm)\<rparr>"
      obtain ts where ts: "receiveAdded sm1 as = (sm', ts, acc)"
        "out = mkTransition sm (state sm) StateEventRejected (MRID a) (Some a) # ts"
        using "2.prems" new Some by (auto simp: rejectLocked_def sm1_def split: prod.splits)
      have "rejectLocked sm a = (sm1, mkTransition sm (state sm) StateEventRejected (MRID a) (Some a))"
        by (simp add: rejectLocked_def sm1_def)
      from "2.IH"(3) [OF new Some this [symmetric] refl ts(1)]
      show ?thesis using ts(2) by (auto simp: sm1_def mkTransition_def)
    qed
  qed
qed

lemma stepAdded_ok:
  assumes "stepAdded sm sched as = (sm', sched', out)" "sched_inv sched"
  shows "sm' = sm\<lparr>rejected := rejected sm'\<rparr>" and "trail E (state sm) out (state sm)"
    and "sched_inv sched'" and "rejected sm \<subseteq> rejected sm'"
  using assms receiveAdded_frame [of sm as _ _ _ E]
  by (auto simp: stepAdded_def Let_def inv_intros split: prod.splits if_splits)

lemma sm_inv_rejected: "sm' = sm\<lparr>rejected := r\<rparr> \<Longrightarrow> sm_inv sm' \<longleftrightarrow> sm_inv sm"
  by (simp add: sm_inv_def)

lemma cancelledMap_MRID: "cancelledMap cs m = Some c \<Longrightarrow> MRID c = m \<and> c \<in> set cs"
  by (auto simp: cancelledMap_def dest!: map_of_SomeD)

lemma stepCancelled_ok:
  assumes "stepCancelled sm sched cs = (sm', sched', out)" "sched_inv sched" "sm_inv sm"
  shows "sm_inv sm'" and "trail lifecycle (state sm) out (state sm')" and "sched_inv sched'"
  using assms by (auto simp: stepCancelled_def transition_defs sm_inv_def inv_intros
      split: if_splits option.splits)

lemma stepComplete_ok:
  assumes "stepComplete sm now = (sm', out)" "sm_inv sm"
  shows "sm_inv sm'" and "trail lifecycle (state sm) out (state sm')"
    and "state sm' = StateEventStarted \<Longrightarrow> \<not> overdue sm' now"
  using assms by (auto simp: stepComplete_def complete_def transition_defs sm_inv_def split: if_splits)

lemma stepHead_ok:
  assumes "stepHead sm h now = (sm', out)" "sm_inv sm" "MRID (Source h) = seMRID h"
    and "state sm = StateEventStarted \<Longrightarrow> \<not> overdue sm now"
  shows "sm_inv sm'" and "trail lifecycle (state sm) out (state sm')"
    and "state sm' = StateEventStarted \<Longrightarrow> \<not> overdue sm' now"
  using assms
  by (auto simp: stepHead_def complete_def transition_defs sm_inv_def overdue_def split: if_splits)

lemma stepPop_ok:
  assumes "stepPop sm sched now = (sm', sched', out)" "sched_inv sched" "sm_inv sm"
    and "state sm = StateEventStarted \<Longrightarrow> \<not> overdue sm now"
  shows "sm_inv sm'" and "trail lifecycle (state sm) out (state sm')" and "sched_inv sched'"
    and "state sm' = StateEventStarted \<Longrightarrow> \<not> overdue sm' now"
    and "sched' = snd (PopExpired sched now)"
proof -
  obtain ex where pop: "PopExpired sched now = (ex, sched')"
    using assms(1) by (auto simp: stepPop_def Let_def split: prod.splits list.splits)
  have inv: "sched_inv sched'" using sched_inv_popped [OF assms(2), of now] pop by simp
  show "sched_inv sched'" by (rule inv)
  show "sched' = snd (PopExpired sched now)" by (simp add: pop)
  have main: "sm_inv sm' \<and> trail lifecycle (state sm) out (state sm') \<and>
    (state sm' = StateEventStarted \<longrightarrow> \<not> overdue sm' now)"
  proof (cases ex)
    case Nil
    with assms pop show ?thesis by (auto simp: stepPop_def)
  next
    case (Cons h t)
    have "h \<in> set (queue sched)" using sq.popped_head [OF assms(2), of now h t] pop Cons by simp
    then have "MRID (Source h) = seMRID h" using sq.pending_ok [OF assms(2)] by simp
    moreover have "stepHead sm h now = (sm', out)"
      using assms(1) pop Cons by (auto simp: stepPop_def split: prod.splits)
    ultimately show ?thesis using stepHead_ok [OF _ assms(3) _ assms(4)] by blast
  qed
  then show "sm_inv sm'" "trail lifecycle (state sm) out (state sm')"
    "state sm' = StateEventStarted \<Longrightarrow> \<not> overdue sm' now" by auto
qed

lemma stepObserve_ok:
  assumes "stepObserve sm sched = (sm', out)" "sched_inv sched" "sm_inv sm"
    and "state sm = StateEventStarted \<Longrightarrow> \<not> overdue sm now"
  shows "sm_inv sm'" and "trail lifecycle (state sm) out (state sm')"
    and "state sm' = StateEventStarted \<Longrightarrow> \<not> overdue sm' now"
proof -
  have *: "NextEvent sched = Some e \<Longrightarrow> MRID (Source e) = seMRID e" for e
    using sq.next_min [OF assms(2)] sq.pending_ok [OF assms(2)] by blast
  then show "sm_inv sm'" "trail lifecycle (state sm) out (state sm')"
    using assms(1,3) by (auto simp: stepObserve_def transition_defs sm_inv_def split: if_splits option.splits)
  show "state sm' = StateEventStarted \<Longrightarrow> \<not> overdue sm' now"
    using assms(1,4) by (auto simp: stepObserve_def transition_defs split: if_splits option.splits)
qed

text \<open>A tick, taken apart.\<close>

lemma Tick_steps:
  assumes "Tick sm now as cs sched = (sm', sched', out)"
  obtains sm1 sched1 o1 sm2 sched2 o2 sm3 o3 sm4 o4 o5 where
    "stepAdded sm sched as = (sm1, sched1, o1)" "stepCancelled sm1 sched1 cs = (sm2, sched2, o2)"
    "stepComplete sm2 now = (sm3, o3)" "stepPop sm3 sched2 now = (sm4, sched', o4)"
    "stepObserve sm4 sched' = (sm', o5)" "out = o1 @ o2 @ o3 @ o4 @ o5"
  using assms by (auto simp: Tick_def Let_def split: prod.splits)

lemma Tick_ok:
  assumes "Tick sm now as cs sched = (sm', sched', out)" "sched_inv sched" "sm_inv sm"
  shows "sm_inv sm'" and "sched_inv sched'" and "trail lifecycle (state sm) out (state sm')"
    and "state sm' = StateEventStarted \<Longrightarrow> \<not> overdue sm' now"
proof -
  from assms(1) obtain sm1 sched1 o1 sm2 sched2 o2 sm3 o3 sm4 o4 o5 where
    t: "stepAdded sm sched as = (sm1, sched1, o1)" "stepCancelled sm1 sched1 cs = (sm2, sched2, o2)"
      "stepComplete sm2 now = (sm3, o3)" "stepPop sm3 sched2 now = (sm4, sched', o4)"
      "stepObserve sm4 sched' = (sm', o5)" "out = o1 @ o2 @ o3 @ o4 @ o5"
    by (rule Tick_steps)
  note s1 = stepAdded_ok [OF t(1) assms(2)]
  have i1: "sm_inv sm1" using s1(1) assms(3) sm_inv_rejected by metis
  have st1: "state sm1 = state sm" by (subst s1(1)) simp
  note s2 = stepCancelled_ok [OF t(2) s1(3) i1]
  note s3 = stepComplete_ok [OF t(3) s2(1)]
  note s4 = stepPop_ok [OF t(4) s2(3) s3(1) s3(3)]
  note s5 = stepObserve_ok [OF t(5) s4(3) s4(1) s4(4)]
  show "sm_inv sm'" by (rule s5(1))
  show "sched_inv sched'" by (rule s4(3))
  show "state sm' = StateEventStarted \<Longrightarrow> \<not> overdue sm' now" by (rule s5(3))
  show "trail lifecycle (state sm) out (state sm')"
    unfolding t(6) using s1(2) [of lifecycle] s2(2) s3(2) s4(2) s5(2) st1 by (metis trail_append)
qed

subsection \<open>Reject\<close>

text \<open>
  No mRID in \<open>rejected\<close> is queued or active. \<open>Reject\<close> keeps this unconditionally; a tick keeps
  it when the validator refuses no event whose mRID is already queued or active.
\<close>

definition excluded :: "'h StateMachine \<Rightarrow> Scheduler \<Rightarrow> bool" where
  "excluded sm sched \<longleftrightarrow> rejected sm \<inter> seMRID ` set (queue sched) = {} \<and>
     (state sm \<noteq> StateDefault \<longrightarrow> activeMRID sm \<notin> rejected sm)"

definition rejectable :: "'h StateMachine \<Rightarrow> RejectedDERControl \<Rightarrow> bool" where
  "rejectable sm item \<longleftrightarrow> MRID item \<noteq> [] \<and> MRID item \<notin> rejected sm \<and>
     EventStatus item \<noteq> Some EventStatusCancelled"

definition lifecycleOrWithdrawal :: "EventState \<Rightarrow> EventState \<Rightarrow> bool" where
  "lifecycleOrWithdrawal p n \<longleftrightarrow> lifecycle p n \<or> withdrawal p n"

lemma rejectItem_ok:
  assumes "rejectItem (sm, sched, out) item = (sm', sched', out')"
    and "sm_inv sm" "sched_inv sched"
  shows "sm_inv sm'" and "sched_inv sched'"
    and "excluded sm sched \<Longrightarrow> excluded sm' sched'"
    and "\<exists>ts. out' = out @ ts \<and> trail withdrawal (state sm) ts (state sm') \<and>
          (\<forall>t\<in>set ts. tnext t \<noteq> StateEventCancelled)"
    and "rejected sm' = (if rejectable sm item then insert (MRID item) (rejected sm) else rejected sm)"
proof -
  have keys: "seMRID ` set (queue (OnEventsCancelled sched [m])) = seMRID ` set (queue sched) - {m}" for m
    using sq.cancelled_set [OF assms(3)] by auto
  note d = rejectItem_def transition_defs rejectable_def
  show "sm_inv sm'" using assms(1,2) by (auto simp: d sm_inv_def split: if_splits)
  show "sched_inv sched'" using assms(1,3) by (auto simp: d inv_intros split: if_splits)
  have k: "seMRID ` set (queue sched') =
      (if rejectable sm item then seMRID ` set (queue sched) - {MRID item} else seMRID ` set (queue sched))"
  proof -
    have "sched' = (if rejectable sm item then OnEventsCancelled sched [MRID item] else sched)"
      using assms(1) by (auto simp: d split: if_splits)
    then show ?thesis by (simp add: keys)
  qed
  have r: "rejected sm' = (if rejectable sm item then insert (MRID item) (rejected sm) else rejected sm)"
    using assms(1) by (auto simp: d split: if_splits)
  then show "rejected sm' = (if rejectable sm item then insert (MRID item) (rejected sm) else rejected sm)" .
  have st: "state sm' \<noteq> StateDefault \<Longrightarrow> state sm' = state sm \<and> activeMRID sm' = activeMRID sm \<and>
      (rejectable sm item \<longrightarrow> activeMRID sm \<noteq> MRID item)"
    using assms(1,2) by (elim sm_inv_cases) (auto simp: d split: if_splits)
  show "excluded sm sched \<Longrightarrow> excluded sm' sched'"
    unfolding excluded_def k r using st by (cases "rejectable sm item") auto
  show "\<exists>ts. out' = out @ ts \<and> trail withdrawal (state sm) ts (state sm') \<and>
          (\<forall>t\<in>set ts. tnext t \<noteq> StateEventCancelled)"
    using assms(1,2) by (auto simp: d withdrawal_def sm_inv_def split: if_splits)
qed

lemma rejectItems_ok:
  assumes "foldl rejectItem (sm, sched, out) items = (sm', sched', out')"
    and "sm_inv sm" "sched_inv sched"
  shows "sm_inv sm' \<and> sched_inv sched' \<and> (excluded sm sched \<longrightarrow> excluded sm' sched') \<and>
    (\<exists>ts. out' = out @ ts \<and> trail withdrawal (state sm) ts (state sm') \<and>
       (\<forall>t\<in>set ts. tnext t \<noteq> StateEventCancelled)) \<and>
    rejected sm' = rejected sm \<union>
      {MRID i |i. i \<in> set items \<and> MRID i \<noteq> [] \<and> EventStatus i \<noteq> Some EventStatusCancelled}"
  using assms
proof (induction items arbitrary: sm sched out)
  case Nil
  then show ?case by simp
next
  case (Cons i items)
  obtain sm1 sched1 out1 where one: "rejectItem (sm, sched, out) i = (sm1, sched1, out1)"
    by (cases "rejectItem (sm, sched, out) i") auto
  note ok = rejectItem_ok [OF one Cons.prems(2,3)]
  have rest: "foldl rejectItem (sm1, sched1, out1) items = (sm', sched', out')"
    using Cons.prems(1) one by simp
  obtain ts1 where ts1: "out1 = out @ ts1" "trail withdrawal (state sm) ts1 (state sm1)"
    "\<forall>t\<in>set ts1. tnext t \<noteq> StateEventCancelled" using ok(4) by blast
  from Cons.IH [OF rest ok(1,2)] obtain ts2 where ts2: "sm_inv sm'" "sched_inv sched'"
    "excluded sm1 sched1 \<longrightarrow> excluded sm' sched'" "out' = out1 @ ts2"
    "trail withdrawal (state sm1) ts2 (state sm')" "\<forall>t\<in>set ts2. tnext t \<noteq> StateEventCancelled"
    "rejected sm' = rejected sm1 \<union>
      {MRID i |i. i \<in> set items \<and> MRID i \<noteq> [] \<and> EventStatus i \<noteq> Some EventStatusCancelled}"
    by blast
  have "trail withdrawal (state sm) (ts1 @ ts2) (state sm')" using ts1(2) ts2(5) by (rule trail_append)
  moreover have "rejected sm' = rejected sm \<union>
      {MRID j |j. j \<in> set (i # items) \<and> MRID j \<noteq> [] \<and> EventStatus j \<noteq> Some EventStatusCancelled}"
    using ts2(7) ok(5) by (auto simp: rejectable_def)
  ultimately show ?case using ts1 ts2 ok(3) by auto
qed

subsection \<open>Frames of the steps\<close>

lemma stepAdded_keys:
  assumes "stepAdded sm sched as = (sm', sched', out)" "sched_inv sched"
  shows "seMRID ` set (queue sched') \<subseteq> seMRID ` set (queue sched) \<union> (MRID ` set as - rejected sm)"
proof -
  obtain acc where acc: "set acc \<subseteq> set as" "MRID ` set acc \<inter> rejected sm = {}"
    "sched' = (if acc \<noteq> [] then OnEventsAdded sched acc else sched)"
  proof (cases "(validate sm \<noteq> None \<or> rejected sm \<noteq> {}) \<and> as \<noteq> []")
    case True
    then obtain acc where "receiveAdded sm as = (sm', out, acc)"
      "sched' = (if acc \<noteq> [] then OnEventsAdded sched acc else sched)"
      using assms(1) by (auto simp: stepAdded_def split: prod.splits)
    with receiveAdded_frame show ?thesis by (metis that)
  next
    case False
    then have "sched' = (if as \<noteq> [] then OnEventsAdded sched as else sched)" "rejected sm = {} \<or> as = []"
      using assms(1) by (auto simp: stepAdded_def split: if_splits)
    then show ?thesis by (intro that [of as]) auto
  qed
  have "seMRID ` set (queue sched') \<subseteq> seMRID ` set (queue sched) \<union> MRID ` set acc"
    using sq.added_keys [OF assms(2), of acc] acc(3) by (cases "acc = []") simp_all
  then show ?thesis using acc(2) image_mono [OF acc(1), of MRID] by blast
qed

lemma stepAdded_frame:
  assumes "stepAdded sm sched as = (sm', sched', out)"
  shows "state sm' = state sm" "activeMRID sm' = activeMRID sm" "activeExpireAt sm' = activeExpireAt sm"
    "activeDERCtrl sm' = activeDERCtrl sm" "\<And>t. t \<in> set out \<Longrightarrow> tnext t = StateEventRejected"
proof -
  have r: "receiveAdded s bs = (s', ts, acc) \<Longrightarrow> state s' = state s \<and> activeMRID s' = activeMRID s \<and>
     activeExpireAt s' = activeExpireAt s \<and> activeDERCtrl s' = activeDERCtrl s \<and>
     (\<forall>t\<in>set ts. tnext t = StateEventRejected)" for s s' :: "'a StateMachine" and bs ts acc
    by (induction s bs arbitrary: s' ts acc rule: receiveAdded.induct)
      (fastforce simp: transition_defs split: if_splits prod.splits option.splits)+
  show "state sm' = state sm" "activeMRID sm' = activeMRID sm" "activeExpireAt sm' = activeExpireAt sm"
    "activeDERCtrl sm' = activeDERCtrl sm" "\<And>t. t \<in> set out \<Longrightarrow> tnext t = StateEventRejected"
    using assms r [of sm as] by (auto simp: stepAdded_def split: prod.splits if_splits)
qed

lemma stepCancelled_sched:
  "stepCancelled sm sched cs = (sm', sched', out) \<Longrightarrow>
     sched' = (if cs = [] then sched else OnEventsCancelled sched (filter (\<lambda>m. m \<noteq> []) (map MRID cs))) \<and>
     rejected sm' = rejected sm"
  by (auto simp: stepCancelled_def transition_defs split: if_splits option.splits)

lemma stepCancelled_keys:
  assumes "stepCancelled sm sched cs = (sm', sched', out)" "sched_inv sched"
  shows "seMRID ` set (queue sched') \<subseteq> seMRID ` set (queue sched)"
  using stepCancelled_sched [OF assms(1)] sq.cancelled_set [OF assms(2)] by auto

lemma stepCancelled_miss:
  assumes "stepCancelled sm sched cs = (sm', sched', out)" "activeMRID sm \<notin> MRID ` set cs"
  shows "sm' = sm \<and> out = []"
proof -
  have "cancelledMap cs (activeMRID sm) = None"
    using assms(2) cancelledMap_MRID by (metis image_eqI not_Some_eq)
  then show ?thesis using assms(1) by (auto simp: stepCancelled_def Let_def split: if_splits)
qed

subsection \<open>A received event that leaves the queue\<close>

text \<open>
  The machine observes event \<open>A\<close> but no entry of the queue carries it any more: nothing but a
  cancellation of \<open>A\<close> (or a fresh copy of it) moves the machine again.
\<close>

definition stranded :: "'h StateMachine \<Rightarrow> Scheduler \<Rightarrow> string \<Rightarrow> bool" where
  "stranded sm sched A \<longleftrightarrow> state sm = StateEventReceived \<and> activeMRID sm = A \<and>
     A \<notin> seMRID ` set (queue sched)"

lemma stepPop_stranded:
  assumes "stepPop sm sched now = (sm', sched', out)" "stranded sm sched A" "sched_inv sched"
  shows "sm' = sm" "out = []" "stranded sm' sched' A"
proof -
  obtain ex where pop: "PopExpired sched now = (ex, sched')"
    using assms(1) by (auto simp: stepPop_def Let_def split: prod.splits list.splits)
  have keys: "seMRID ` set (queue sched') \<subseteq> seMRID ` set (queue sched)"
    using sq.popped_rest [OF assms(3), of now] pop by auto
  have "sm' = sm \<and> out = []"
  proof (cases ex)
    case Nil
    with assms(1) pop show ?thesis by (simp add: stepPop_def)
  next
    case (Cons h t)
    then have "h \<in> set (queue sched)" using sq.popped_head [OF assms(3), of now h t] pop by simp
    then have "seMRID h \<in> seMRID ` set (queue sched)" by simp
    then have "seMRID h \<noteq> A" using assms(2) by (auto simp only: stranded_def)
    then show ?thesis using assms(1,2) pop Cons
      by (auto simp: stepPop_def stepHead_def stranded_def)
  qed
  then show "sm' = sm" "out = []" "stranded sm' sched' A"
    using keys assms(2) by (auto simp: stranded_def)
qed

lemma Tick_stranded:
  assumes "Tick sm now as cs sched = (sm', sched', out)" "sched_inv sched" "stranded sm sched A"
    and "A \<notin> MRID ` set as" "A \<notin> MRID ` set cs"
  shows "stranded sm' sched' A" and "\<forall>t\<in>set out. tnext t = StateEventRejected"
proof -
  from assms(1) obtain sm1 sched1 o1 sm2 sched2 o2 sm3 o3 sm4 o4 o5 where
    t: "stepAdded sm sched as = (sm1, sched1, o1)" "stepCancelled sm1 sched1 cs = (sm2, sched2, o2)"
      "stepComplete sm2 now = (sm3, o3)" "stepPop sm3 sched2 now = (sm4, sched', o4)"
      "stepObserve sm4 sched' = (sm', o5)" "out = o1 @ o2 @ o3 @ o4 @ o5"
    by (rule Tick_steps)
  note f1 = stepAdded_frame [OF t(1)]
  have i1: "sched_inv sched1" by (rule stepAdded_ok(3) [OF t(1) assms(2)])
  have st1: "stranded sm1 sched1 A"
    using stepAdded_keys [OF t(1) assms(2)] assms(3,4) f1 by (auto simp: stranded_def)
  have m2: "sm2 = sm1" "o2 = []"
    using stepCancelled_miss [OF t(2)] st1 assms(5) by (auto simp: stranded_def)
  have i2: "sched_inv sched2"
    using stepCancelled_sched [OF t(2)] i1 by (auto intro: inv_intros)
  have st2: "stranded sm2 sched2 A"
    using st1 m2 stepCancelled_keys [OF t(2) i1] by (auto simp: stranded_def)
  have m3: "sm3 = sm2" "o3 = []" using t(3) st2 by (auto simp: stepComplete_def stranded_def)
  note p = stepPop_stranded [OF t(4) _ i2, of A]
  have m4: "sm4 = sm3" "o4 = []" "stranded sm4 sched' A" using p st2 m3 by auto
  have m5: "sm' = sm4" "o5 = []" using t(5) m4(3) by (auto simp: stepObserve_def stranded_def)
  show "stranded sm' sched' A" using m4 m5 by simp
  show "\<forall>t\<in>set out. tnext t = StateEventRejected" using t(6) m2 m3 m4 m5 f1(5) by auto
qed

end
