(* ===== verification/Lifecycle.thy ===== *)
theory Lifecycle
  imports StateMachine
begin

text \<open>
  What the state machine and the scheduler do together: the run of one event from receipt to
  completion, the single-event scope of a tick, and the event that is received but lost.
\<close>

section \<open>At most one start per tick\<close>

definition starts :: "'h transition list \<Rightarrow> nat" where
  "starts ts = length (filter (\<lambda>t. tnext t = StateEventStarted) ts)"

lemma starts_simps [simp]: "starts [] = 0" "starts (xs @ ys) = starts xs + starts ys"
  "starts (t # ts) = (if tnext t = StateEventStarted then Suc (starts ts) else starts ts)"
  by (simp_all add: starts_def)

lemma starts_added: "stepAdded sm sched as = (sm', sched', out) \<Longrightarrow> starts out = 0"
  using stepAdded_frame(5) by (fastforce simp: starts_def filter_empty_conv)

lemma starts_cancelled: "stepCancelled sm sched cs = (sm', sched', out) \<Longrightarrow> starts out = 0"
  by (auto simp: stepCancelled_def transition_defs split: if_splits option.splits)

lemma starts_complete: "stepComplete sm now = (sm', out) \<Longrightarrow> starts out = 0"
  by (auto simp: stepComplete_def complete_def transition_defs split: if_splits)

lemma starts_head: "stepHead sm h now = (sm', out) \<Longrightarrow> starts out \<le> 1"
  by (auto simp: stepHead_def complete_def transition_defs split: if_splits)

lemma starts_pop: "stepPop sm sched now = (sm', sched', out) \<Longrightarrow> starts out \<le> 1"
  by (auto simp: stepPop_def Let_def dest: starts_head split: prod.splits list.splits)

lemma starts_observe: "stepObserve sm sched = (sm', out) \<Longrightarrow> starts out = 0"
  by (auto simp: stepObserve_def transition_defs split: if_splits option.splits)

lemma Tick_starts:
  assumes "Tick sm now as cs sched = (sm', sched', out)"
  shows "starts out \<le> 1"
  using assms
  by (rule Tick_steps) (auto dest!: starts_added starts_cancelled starts_complete starts_pop starts_observe)

lemma Tick_future:
  assumes "Tick sm now as cs sched = (sm', sched', out)" "sched_inv sched" "sm_inv sm"
  shows "\<forall>e\<in>set (queue sched'). now < FireAt e"
proof -
  from assms(1) obtain sm1 sched1 o1 sm2 sched2 o2 sm3 o3 sm4 o4 o5 where
    t: "stepAdded sm sched as = (sm1, sched1, o1)" "stepCancelled sm1 sched1 cs = (sm2, sched2, o2)"
      "stepComplete sm2 now = (sm3, o3)" "stepPop sm3 sched2 now = (sm4, sched', o4)"
      "stepObserve sm4 sched' = (sm', o5)" "out = o1 @ o2 @ o3 @ o4 @ o5"
    by (rule Tick_steps)
  have "sched_inv sched2"
    using stepAdded_ok(3) [OF t(1) assms(2)] stepCancelled_sched [OF t(2)] by (auto intro: inv_intros)
  moreover have "sched' = snd (PopExpired sched2 now)"
    using t(4) by (auto simp: stepPop_def Let_def split: prod.splits list.splits)
  ultimately show ?thesis using sq.popped_rest by auto
qed

section \<open>One event from receipt to completion\<close>

definition accepts :: "'h StateMachine \<Rightarrow> DERControl \<Rightarrow> bool" where
  "accepts sm ev \<longleftrightarrow> MRID ev \<notin> rejected sm \<and> (case validate sm of None \<Rightarrow> True | Some v \<Rightarrow> v ev = None)"

lemma stepAdded_one:
  "accepts sm ev \<Longrightarrow> stepAdded sm sched [ev] = (sm, OnEventsAdded sched [ev], [])"
  by (auto simp: stepAdded_def accepts_def split: option.splits)

lemma stepAdded_nil [simp]: "stepAdded sm sched [] = (sm, sched, [])"
  by (simp add: stepAdded_def)

lemma stepCancelled_nil [simp]: "stepCancelled sm sched [] = (sm, sched, [])"
  by (simp add: stepCancelled_def)

text \<open>The queue entry of an event without randomization.\<close>

definition entryOf :: "DERControl \<Rightarrow> DateTimeInterval \<Rightarrow> scheduledEvent" where
  "entryOf ev iv = \<lparr>seMRID = MRID ev, FireAt = unixTime (Start iv),
     ExpireAt = unixTime (Start iv) + nominal iv, Source = ev\<rparr>"

definition plainEvent :: "DERControl \<Rightarrow> DateTimeInterval \<Rightarrow> bool" where
  "plainEvent ev iv \<longleftrightarrow> Interval ev = Some iv \<and> RandomizeStart ev = None \<and> RandomizeDuration ev = None"

lemma added_plain:
  "queue sched = [] \<Longrightarrow> plainEvent ev iv \<Longrightarrow> queue (OnEventsAdded sched [ev]) = [entryOf ev iv]"
  using nominal_range [of iv]
  by (simp add: OnEventsAdded_def addEvent_def plainEvent_def computeWindow_eq applyRandomizeStart_def
      applyRandomizeDuration_def removeByMRID_def sortQueue_def entryOf_def)

lemma pop_one:
  "queue sched = [e] \<Longrightarrow> PopExpired sched now =
     (if FireAt e \<le> now then ([e], sched\<lparr>queue := []\<rparr>) else ([], sched))"
  by (simp add: PopExpired_def)

lemma pop_nil: "queue sched = [] \<Longrightarrow> PopExpired sched now = ([], sched)"
  by (simp add: PopExpired_def)

text \<open>Any number of ticks, each with its own clock and lists; the ticks of \<open>idleTicks\<close> report nothing new.\<close>

fun runTicks :: "'h StateMachine \<Rightarrow> Scheduler \<Rightarrow> (time \<times> DERControl list \<times> DERControl list) list \<Rightarrow> 'h step" where
  "runTicks sm sched [] = (sm, sched, [])"
| "runTicks sm sched ((now, as, cs) # rest) =
     (let (sm, sched, o1) = Tick sm now as cs sched; (sm, sched, o2) = runTicks sm sched rest
      in (sm, sched, o1 @ o2))"

definition idleTicks :: "time list \<Rightarrow> (time \<times> DERControl list \<times> DERControl list) list" where
  "idleTicks ts = map (\<lambda>t. (t, [], [])) ts"

lemma idleTicks_simps [simp]: "idleTicks [] = []" "idleTicks (t # ts) = (t, [], []) # idleTicks ts"
  by (simp_all add: idleTicks_def)

lemma run_idle:
  "(\<And>t. t \<in> set ts \<Longrightarrow> Tick sm t [] [] sched = (sm, sched, [])) \<Longrightarrow> runTicks sm sched (idleTicks ts) = (sm, sched, [])"
  by (induction ts) simp_all

lemma run_step_idle:
  assumes "Tick sm t0 as cs sched = (sm1, q1, o1)" "\<And>t. t \<in> set ts \<Longrightarrow> Tick sm1 t [] [] q1 = (sm1, q1, [])"
  shows "runTicks sm sched ((t0, as, cs) # idleTicks ts) = (sm1, q1, o1)"
  using assms(1) run_idle [of ts sm1 q1] assms(2) by simp

lemma idle_received:
  "state sm = StateEventReceived \<Longrightarrow> queue sched = [e] \<Longrightarrow> now < FireAt e \<Longrightarrow>
     Tick sm now [] [] sched = (sm, sched, [])"
  by (simp add: Tick_def stepComplete_def stepPop_def pop_one stepObserve_def)

lemma idle_started:
  "state sm = StateEventStarted \<Longrightarrow> queue sched = [] \<Longrightarrow> now < activeExpireAt sm \<Longrightarrow>
     Tick sm now [] [] sched = (sm, sched, [])"
  by (simp add: Tick_def stepComplete_def stepPop_def pop_nil stepObserve_def overdue_def)

lemma idle_default:
  "state sm = StateDefault \<Longrightarrow> queue sched = [] \<Longrightarrow> Tick sm now [] [] sched = (sm, sched, [])"
  by (simp add: Tick_def stepComplete_def stepPop_def pop_nil stepObserve_def NextEvent_def)

lemmas idle_ticks = idle_received idle_started idle_default

lemma Tick_receive:
  assumes "state sm = StateDefault" "queue sched = []" "accepts sm ev" "plainEvent ev iv"
    and "now < unixTime (Start iv)"
  shows "\<exists>sched' t. Tick sm now [ev] [] sched =
      ((activate sm (entryOf ev iv))\<lparr>state := StateEventReceived\<rparr>, sched', [t]) \<and>
      queue sched' = [entryOf ev iv] \<and> tprev t = StateDefault \<and> tnext t = StateEventReceived \<and> tevt t = Some ev"
proof -
  let ?e = "entryOf ev iv"
  let ?s = "OnEventsAdded sched [ev]"
  have q: "queue ?s = [?e]" using assms by (simp add: added_plain)
  have "PopExpired ?s now = ([], ?s)" using q assms(5) by (simp add: pop_one) (simp add: entryOf_def)
  moreover have "NextEvent ?s = Some ?e" using q by (simp add: NextEvent_def)
  ultimately show ?thesis using assms(1) q
    by (simp add: Tick_def stepAdded_one [OF assms(3)] stepComplete_def stepPop_def stepObserve_def
        transition_defs entryOf_def)
qed

lemma Tick_start:
  assumes "state sm = StateEventReceived" "activeMRID sm = seMRID e" "queue sched = [e]"
    and "FireAt e \<le> now" "now < ExpireAt e"
  shows "\<exists>sched' t. Tick sm now [] [] sched = ((activate sm e)\<lparr>state := StateEventStarted\<rparr>, sched', [t]) \<and>
      queue sched' = [] \<and> tprev t = StateEventReceived \<and> tnext t = StateEventStarted \<and> tevt t = Some (Source e)"
  using assms
  by (simp add: Tick_def stepComplete_def stepPop_def pop_one stepHead_def stepObserve_def overdue_def
      transition_defs)

lemma Tick_finish:
  assumes "state sm = StateEventStarted" "activeExpireAt sm \<noteq> zeroTime" "activeExpireAt sm \<le> now" "queue sched = []"
  shows "\<exists>t1 t2. Tick sm now [] [] sched =
      (sm\<lparr>state := StateDefault, activeMRID := [], activeDERCtrl := None, activeExpireAt := zeroTime\<rparr>, sched, [t1, t2]) \<and>
      tprev t1 = StateEventStarted \<and> tnext t1 = StateEventCompleted \<and> tprev t2 = StateEventCompleted \<and>
      tnext t2 = StateDefault \<and> tevt t1 = activeDERCtrl sm \<and> tevt t2 = None"
  using assms
  by (simp add: Tick_def stepComplete_def complete_def stepPop_def pop_nil stepObserve_def overdue_def
      NextEvent_def transition_defs)

text \<open>The same three steps over the ticks of a whole phase: before the start, inside the window, and
  from its end on. Only the first tick of a phase does anything.\<close>

definition steps :: "'h transition list \<Rightarrow> (EventState \<times> EventState \<times> DERControl option) list" where
  "steps ts = map (\<lambda>t. (tprev t, tnext t, tevt t)) ts"

lemma run_receive:
  assumes "state sm = StateDefault" "queue sched = []" "accepts sm ev" "plainEvent ev iv"
    and "\<forall>t\<in>set (t0 # ts). t < unixTime (Start iv)"
    and "runTicks sm sched ((t0, [ev], []) # idleTicks ts) = (sm1, q1, o1)"
  shows "sm1 = (activate sm (entryOf ev iv))\<lparr>state := StateEventReceived\<rparr> \<and> queue q1 = [entryOf ev iv] \<and>
    steps o1 = [(StateDefault, StateEventReceived, Some ev)]"
proof -
  obtain q t where r: "Tick sm t0 [ev] [] sched =
      ((activate sm (entryOf ev iv))\<lparr>state := StateEventReceived\<rparr>, q, [t])" "queue q = [entryOf ev iv]"
      "tprev t = StateDefault" "tnext t = StateEventReceived" "tevt t = Some ev"
    using Tick_receive [OF assms(1-4), of t0] assms(5) by auto
  show ?thesis using run_step_idle [OF r(1), of ts] r(2-) assms(5,6)
    by (auto simp: steps_def intro!: idle_received) (simp_all add: entryOf_def idle_ticks)
qed

lemma run_start:
  assumes "state sm = StateEventReceived" "activeMRID sm = seMRID e" "queue sched = [e]"
    and "ts \<noteq> []" "\<forall>t\<in>set ts. FireAt e \<le> t \<and> t < ExpireAt e"
    and "runTicks sm sched (idleTicks ts) = (sm1, q1, o1)"
  shows "sm1 = (activate sm e)\<lparr>state := StateEventStarted\<rparr> \<and> queue q1 = [] \<and>
    steps o1 = [(StateEventReceived, StateEventStarted, Some (Source e))]"
proof -
  obtain t0 rest where ts: "ts = t0 # rest" using assms(4) by (cases ts) auto
  obtain q t where r: "Tick sm t0 [] [] sched = ((activate sm e)\<lparr>state := StateEventStarted\<rparr>, q, [t])"
      "queue q = []" "tprev t = StateEventReceived" "tnext t = StateEventStarted" "tevt t = Some (Source e)"
    using Tick_start [OF assms(1-3), of t0] assms(5) ts by auto
  have "Tick ((activate sm e)\<lparr>state := StateEventStarted\<rparr>) u [] [] q =
      ((activate sm e)\<lparr>state := StateEventStarted\<rparr>, q, [])" if "u \<in> set rest" for u
    using that assms(5) ts r(2) by (intro idle_started) (auto simp: activate_def)
  from run_step_idle [OF r(1) this] r(2-) assms(6) ts show ?thesis by (auto simp: steps_def)
qed

lemma run_finish:
  assumes "state sm = StateEventStarted" "activeExpireAt sm \<noteq> zeroTime" "queue sched = []"
    and "ts \<noteq> []" "\<forall>t\<in>set ts. activeExpireAt sm \<le> t"
    and "runTicks sm sched (idleTicks ts) = (sm1, q1, o1)"
  shows "sm1 = sm\<lparr>state := StateDefault, activeMRID := [], activeDERCtrl := None, activeExpireAt := zeroTime\<rparr> \<and>
    queue q1 = [] \<and> steps o1 = [(StateEventStarted, StateEventCompleted, activeDERCtrl sm),
      (StateEventCompleted, StateDefault, None)]"
proof -
  let ?sm = "sm\<lparr>state := StateDefault, activeMRID := [], activeDERCtrl := None, activeExpireAt := zeroTime\<rparr>"
  obtain t0 rest where ts: "ts = t0 # rest" using assms(4) by (cases ts) auto
  obtain x y where r: "Tick sm t0 [] [] sched = (?sm, sched, [x, y])"
      "tprev x = StateEventStarted" "tnext x = StateEventCompleted" "tprev y = StateEventCompleted"
      "tnext y = StateDefault" "tevt x = activeDERCtrl sm" "tevt y = None"
    using Tick_finish [OF assms(1,2) _ assms(3), of t0] assms(5) ts by auto
  have "Tick ?sm u [] [] sched = (?sm, sched, [])" if "u \<in> set rest" for u
    using assms(3) by (intro idle_default) auto
  from run_step_idle [OF r(1) this] r(2-) assms(3,6) ts show ?thesis by (auto simp: steps_def)
qed

definition defaultBase :: "DefaultDERControl option \<Rightarrow> DERControlBase option" where
  "defaultBase d = (case d of None \<Rightarrow> None | Some x \<Rightarrow> ddcBase x)"

text \<open>C1: One accepted, unrandomized event over any ticks, however many and at whatever times: it is
  observed by the first tick that lists it and drives nothing before its start; it starts on the first
  tick inside its window and drives the device on every tick up to its end; the first tick at or after
  the end completes it, and from then on the default control applies again. Each step is taken exactly
  once and names the event, and no tick in between takes another.\<close>

theorem event_lifecycle:
  assumes "sm_inv sm" "state sm = StateDefault" "queue sched = []" "accepts sm ev" "plainEvent ev iv"
    and "from = unixTime (Start iv)" "until = from + nominal iv" "until \<noteq> zeroTime"
    and "\<forall>t\<in>set (t0 # before). t < from"
    and "during \<noteq> []" "\<forall>t\<in>set during. from \<le> t \<and> t < until"
    and "after \<noteq> []" "\<forall>t\<in>set after. until \<le> t"
    and "runTicks sm sched ((t0, [ev], []) # idleTicks before) = (sm1, q1, o1)"
    and "runTicks sm1 q1 (idleTicks during) = (sm2, q2, o2)" "runTicks sm2 q2 (idleTicks after) = (sm3, q3, o3)"
  shows "steps o1 = [(StateDefault, StateEventReceived, Some ev)] \<and>
    ActiveControlBase (Current sm1) d = defaultBase d \<and>
    steps o2 = [(StateEventReceived, StateEventStarted, Some ev)] \<and>
    ActiveControlBase (Current sm2) d = (case ControlBase ev of None \<Rightarrow> defaultBase d | Some b \<Rightarrow> Some b) \<and>
    steps o3 = [(StateEventStarted, StateEventCompleted, Some ev), (StateEventCompleted, StateDefault, None)] \<and>
    ActiveControlBase (Current sm3) d = defaultBase d \<and> state sm3 = StateDefault \<and> queue q3 = [] \<and> sm_inv sm3"
proof -
  let ?e = "entryOf ev iv"
  have e: "FireAt ?e = from" "ExpireAt ?e = until" "Source ?e = ev" using assms(6,7) by (simp_all add: entryOf_def)
  have a: "sm1 = (activate sm ?e)\<lparr>state := StateEventReceived\<rparr>" "queue q1 = [?e]"
      "steps o1 = [(StateDefault, StateEventReceived, Some ev)]"
    using run_receive [OF assms(2-5) _ assms(14)] assms(6,9) by auto
  have b: "sm2 = (activate sm1 ?e)\<lparr>state := StateEventStarted\<rparr>" "queue q2 = []"
      "steps o2 = [(StateEventReceived, StateEventStarted, Some ev)]"
    using run_start [OF _ _ a(2) assms(10) _ assms(15)] assms(11) e a(1) by (auto simp: activate_def)
  have "state sm2 = StateEventStarted" "activeExpireAt sm2 = until" "activeDERCtrl sm2 = Some ev"
    using b(1) e by (simp_all add: activate_def)
  with run_finish [OF _ _ b(2) assms(12) _ assms(16)] assms(8,13)
  have c: "sm3 = sm2\<lparr>state := StateDefault, activeMRID := [], activeDERCtrl := None, activeExpireAt := zeroTime\<rparr>"
      "queue q3 = []" "steps o3 = [(StateEventStarted, StateEventCompleted, Some ev), (StateEventCompleted, StateDefault, None)]"
    by auto
  have "ActiveControlBase (Current sm1) d = defaultBase d"
    "ActiveControlBase (Current sm2) d = (case ControlBase ev of None \<Rightarrow> defaultBase d | Some b \<Rightarrow> Some b)"
    "ActiveControlBase (Current sm3) d = defaultBase d"
    by (simp_all add: ActiveControlBase_def Current_def defaultBase_def a(1) b(1) c(1) activate_def e(3)
        split: option.splits)
  moreover have "state sm3 = StateDefault" "sm_inv sm3" using c(1) by (simp_all add: sm_inv_def)
  ultimately show ?thesis using a(3) b(3) c(2,3) by blast
qed

definition demoMachine :: "nat StateMachine" where
  "demoMachine = NewStateMachine"

theorem event_lifecycle_witness:
  "\<exists>sm1 q1 o1 sm2 q2 o2 sm3 q3 o3.
     runTicks demoMachine (NewScheduler demoRng) ((0, [demoEvent], []) # idleTicks [unixTime 50, unixTime 99]) = (sm1, q1, o1) \<and>
     runTicks sm1 q1 (idleTicks [unixTime 103, unixTime 105, unixTime 109]) = (sm2, q2, o2) \<and>
     runTicks sm2 q2 (idleTicks [unixTime 110, unixTime 120]) = (sm3, q3, o3) \<and>
     length (steps (o1 @ o2 @ o3)) = 4 \<and> queue q3 = []"
proof -
  obtain sm1 q1 o1 where 1: "runTicks demoMachine (NewScheduler demoRng)
      ((0, [demoEvent], []) # idleTicks [unixTime 50, unixTime 99]) = (sm1, q1, o1)" by (metis prod_cases3)
  obtain sm2 q2 o2 where 2: "runTicks sm1 q1 (idleTicks [unixTime 103, unixTime 105, unixTime 109]) = (sm2, q2, o2)"
    by (metis prod_cases3)
  obtain sm3 q3 o3 where 3: "runTicks sm2 q2 (idleTicks [unixTime 110, unixTime 120]) = (sm3, q3, o3)"
    by (metis prod_cases3)
  have "sm_inv demoMachine" by (simp add: demoMachine_def sm_inv_New)
  moreover have "state demoMachine = StateDefault" "accepts demoMachine demoEvent"
    by (simp_all add: demoMachine_def NewStateMachine_def accepts_def)
  moreover have "queue (NewScheduler demoRng) = []" by (simp add: NewScheduler_def)
  moreover have "plainEvent demoEvent \<lparr>Start = 100, Duration = 10\<rparr>"
    by (simp add: plainEvent_def demoEvent_def blankControl_def)
  ultimately have "steps o1 = [(StateDefault, StateEventReceived, Some demoEvent)] \<and>
      steps o2 = [(StateEventReceived, StateEventStarted, Some demoEvent)] \<and>
      steps o3 = [(StateEventStarted, StateEventCompleted, Some demoEvent), (StateEventCompleted, StateDefault, None)] \<and>
      queue q3 = []"
    using event_lifecycle [OF _ _ _ _ _ refl refl _ _ _ _ _ _ 1 2 3, of "\<lparr>Start = 100, Duration = 10\<rparr>"]
    by (simp add: go_time nominal_def zeroTime_def)
  then have "length (steps (o1 @ o2 @ o3)) = 4 \<and> queue q3 = []" by (simp add: steps_def)
  with 1 2 3 show ?thesis by blast
qed

section \<open>A due event that is not the head is lost\<close>

text \<open>
  When the observed event \<open>A\<close> and an earlier event come due in the same tick, the pop takes both
  out of the queue, the earlier one does not match the active mRID, and \<open>A\<close> is stranded.
\<close>

lemma Tick_strands:
  assumes "sched_inv sched" "state sm = StateEventReceived" "activeMRID sm = A"
    and "h \<in> set (queue sched)" "seMRID h \<noteq> A" "FireAt h \<le> now"
    and "\<And>e. e \<in> set (queue sched) \<Longrightarrow> seMRID e = A \<Longrightarrow> FireAt h < FireAt e \<and> FireAt e \<le> now"
    and "Tick sm now [] [] sched = (sm', sched', out)"
  shows "stranded sm' sched' A \<and> out = []"
proof -
  obtain ex q where pop: "PopExpired sched now = (ex, q)" by fastforce
  have due: "set ex = {e \<in> set (queue sched). FireAt e \<le> now}" using sq.popped_due [OF assms(1)] pop by (metis fst_conv)
  obtain g t where ex: "ex = g # t" using due assms(4,6) by (cases ex) auto
  have g: "g \<in> set (queue sched)" "\<forall>e\<in>set (queue sched). FireAt g \<le> FireAt e"
    using sq.popped_head [OF assms(1), of now g t] pop ex by auto
  have "seMRID g \<noteq> A"
  proof
    assume "seMRID g = A"
    then have "FireAt h < FireAt g" using assms(7) g(1) by blast
    with g(2) assms(4) show False by fastforce
  qed
  then have "stepPop sm sched now = (sm, q, [])"
    using pop ex assms(2,3) by (simp add: stepPop_def stepHead_def)
  then have t: "sm' = sm" "sched' = q" "out = []"
    using assms(2,8) by (simp_all add: Tick_def stepComplete_def stepObserve_def)
  have "set (queue q) = {e \<in> set (queue sched). now < FireAt e}"
    using sq.popped_rest [OF assms(1), of now] pop by simp
  then have "A \<notin> seMRID ` set (queue q)" using assms(7) by fastforce
  then show ?thesis using t assms(2,3) by (simp add: stranded_def)
qed

lemma sched_inv_Tick:
  assumes "Tick sm now as cs sched = (sm', sched', out)" "sched_inv sched"
  shows "sched_inv sched'"
proof -
  from assms(1) obtain sm1 sched1 o1 sm2 sched2 o2 sm3 o3 sm4 o4 o5 where
    t: "stepAdded sm sched as = (sm1, sched1, o1)" "stepCancelled sm1 sched1 cs = (sm2, sched2, o2)"
      "stepComplete sm2 now = (sm3, o3)" "stepPop sm3 sched2 now = (sm4, sched', o4)"
      "stepObserve sm4 sched' = (sm', o5)" "out = o1 @ o2 @ o3 @ o4 @ o5"
    by (rule Tick_steps)
  have "sched_inv sched2"
    using stepAdded_ok(3) [OF t(1) assms(2)] stepCancelled_sched [OF t(2)] by (auto intro: inv_intros)
  moreover have "sched' = snd (PopExpired sched2 now)"
    using t(4) by (auto simp: stepPop_def Let_def split: prod.splits list.splits)
  ultimately show ?thesis by (simp add: sched_inv_popped)
qed

lemma runTicks_stranded:
  "runTicks sm sched ins = (sm', sched', out) \<Longrightarrow> sched_inv sched \<Longrightarrow> stranded sm sched A \<Longrightarrow>
   (\<forall>(now, as, cs)\<in>set ins. A \<notin> MRID ` set as \<and> A \<notin> MRID ` set cs) \<Longrightarrow>
     stranded sm' sched' A \<and> (\<forall>t\<in>set out. tnext t = StateEventRejected)"
proof (induction ins arbitrary: sm sched out)
  case Nil
  then show ?case by simp
next
  case (Cons i ins)
  obtain now as cs where i: "i = (now, as, cs)" by (metis prod_cases3)
  obtain sm1 sched1 o1 where t: "Tick sm now as cs sched = (sm1, sched1, o1)" by (metis prod_cases3)
  obtain sm2 sched2 o2 where r: "runTicks sm1 sched1 ins = (sm2, sched2, o2)" by (metis prod_cases3)
  have e: "sm' = sm2" "sched' = sched2" "out = o1 @ o2" using Cons.prems(1) i t r by simp_all
  have "A \<notin> MRID ` set as" "A \<notin> MRID ` set cs" using Cons.prems(4) i by auto
  note one = Tick_stranded [OF t Cons.prems(2,3) this]
  have "stranded sm' sched' A \<and> (\<forall>t\<in>set o2. tnext t = StateEventRejected)"
    using Cons.IH [OF r [folded e] sched_inv_Tick [OF t Cons.prems(2)] one(1)] Cons.prems(4) by simp
  with one(2) e show ?case by auto
qed

text \<open>When the observed event and an earlier-firing one come due in one tick, the pop drops both:
  nothing starts, and from then on the machine stays at EVENT_RECEIVED with no transition but
  rejection records, on every sequence of ticks, until the server sends or cancels that very mRID
  again. Every other event that comes due meanwhile is dropped unexecuted.\<close>

theorem late_tick_strands_event:
  assumes "sched_inv sched" "state sm = StateEventReceived" "activeMRID sm = A"
    and "h \<in> set (queue sched)" "seMRID h \<noteq> A" "FireAt h \<le> now"
    and "\<And>e. e \<in> set (queue sched) \<Longrightarrow> seMRID e = A \<Longrightarrow> FireAt h < FireAt e \<and> FireAt e \<le> now"
    and "\<forall>(t, as, cs)\<in>set later. A \<notin> MRID ` set as \<and> A \<notin> MRID ` set cs"
    and "runTicks sm sched ((now, [], []) # later) = (sm', sched', out)"
  shows "state sm' = StateEventReceived \<and> activeMRID sm' = A \<and> A \<notin> seMRID ` set (queue sched') \<and>
    (\<forall>t\<in>set out. tnext t = StateEventRejected)"
proof -
  obtain sm1 sched1 o1 where t: "Tick sm now [] [] sched = (sm1, sched1, o1)" by (metis prod_cases3)
  obtain sm2 sched2 o2 where r: "runTicks sm1 sched1 later = (sm2, sched2, o2)" by (metis prod_cases3)
  have one: "stranded sm1 sched1 A \<and> o1 = []" by (rule Tick_strands [OF assms(1-7) t])
  have "sched_inv sched1" by (rule sched_inv_Tick [OF t assms(1)])
  from runTicks_stranded [OF r this _ assms(8)] one assms(9) t r show ?thesis
    by (auto simp: stranded_def)
qed

definition strandQueue :: Scheduler where
  "strandQueue = \<lparr>queue =
     [\<lparr>seMRID = ''B'', FireAt = unixTime 50, ExpireAt = unixTime 60, Source = blankControl ''B''\<rparr>,
      \<lparr>seMRID = ''A'', FireAt = unixTime 100, ExpireAt = unixTime 110, Source = demoEvent\<rparr>], srng = demoRng\<rparr>"

theorem late_tick_strands_event_witness:
  "\<exists>sm' sched' out. runTicks (demoMachine\<lparr>state := StateEventReceived, activeMRID := ''A''\<rparr>) strandQueue
     [(unixTime 105, [], []), (unixTime 500, [], [])] = (sm', sched', out) \<and> state sm' = StateEventReceived"
proof -
  let ?sm = "demoMachine\<lparr>state := StateEventReceived, activeMRID := ''A''\<rparr>"
  obtain sm' sched' out where r: "runTicks ?sm strandQueue ((unixTime 105, [], []) # [(unixTime 500, [], [])]) =
      (sm', sched', out)" by (metis prod_cases3)
  have "sched_inv strandQueue" by (simp add: sched_inv_def strandQueue_def)
  moreover have "\<lparr>seMRID = ''B'', FireAt = unixTime 50, ExpireAt = unixTime 60, Source = blankControl ''B''\<rparr>
      \<in> set (queue strandQueue)" by (simp add: strandQueue_def)
  moreover have "unixTime 50 < FireAt e \<and> FireAt e \<le> unixTime 105"
    if "e \<in> set (queue strandQueue)" "seMRID e = ''A''" for e using that by (auto simp: strandQueue_def)
  ultimately have "state sm' = StateEventReceived"
    using late_tick_strands_event [OF _ _ _ _ _ _ _ _ r, of "''A''"
        "\<lparr>seMRID = ''B'', FireAt = unixTime 50, ExpireAt = unixTime 60, Source = blankControl ''B''\<rparr>"]
    by simp
  with r show ?thesis by blast
qed

end
