(* ===== verification/ControlCache.thy ===== *)
theory ControlCache
  imports Lifecycle "HOL-Library.AList"
begin

text \<open>
  \<open>internal/inverter/dercontrol_poll.go\<close>, the polled DERControl cache, and the driver that feeds
  the state machine from it: \<open>diffSnapshots\<close> and \<open>stepEvents\<close> of \<open>cmd/inverterclient/main.go\<close>
  and the session loop of \<open>managed_controls.go\<close>. A Go map is an association list with distinct
  keys; a \<open>range\<close> loop visits it in the order of the list. Go leaves that order open, and the
  statements quantify over every list. The GET is a function of the poll number and the href,
  returning an error or the list and the href a 301 moved it to.
\<close>

section \<open>The cache\<close>

type_synonym snapshot = "(string \<times> DERControl) list"

record DERControlCache =
  controls :: snapshot
  cacheRejected :: "RejectedDERControl list"

definition NewDERControlCache :: DERControlCache where
  "NewDERControlCache = \<lparr>controls = [], cacheRejected = []\<rparr>"

definition Snapshot :: "DERControlCache \<Rightarrow> snapshot" where
  "Snapshot c = controls c"

definition Rejected :: "DERControlCache \<Rightarrow> RejectedDERControl list" where
  "Rejected c = cacheRejected c"

definition cacheLen :: "DERControlCache \<Rightarrow> nat" where
  "cacheLen c = length (controls c)"

definition acceptedControls :: "DERControlListResult \<Rightarrow> DERControl list" where
  "acceptedControls l =
     (if listRejected l = [] then listControls l
      else
        let rej = set (filter (\<lambda>m. m \<noteq> []) (map MRID (listRejected l)))
        in filter (\<lambda>c. MRID c \<notin> rej) (listControls l))"

definition derControlCurrentStatus :: "DERControl \<Rightarrow> status" where
  "derControlCurrentStatus c = (case EventStatus c of None \<Rightarrow> EventStatusScheduled | Some s \<Rightarrow> s)"

fun diffLoop ::
    "snapshot \<Rightarrow> DERControl list \<Rightarrow> DERControl list \<times> DERControl list \<times> DERControl list" where
  "diffLoop cs [] = ([], [], [])"
| "diffLoop cs (nc # ncs) =
     (let (added, updated, cancelled) = diffLoop cs ncs in
      if MRID nc = [] then (added, updated, cancelled)
      else
        let nextStatus = derControlCurrentStatus nc in
        if nextStatus = EventStatusCancelled then (added, updated, nc # cancelled)
        else
          case map_of cs (MRID nc) of
            None \<Rightarrow> (nc # added, updated, cancelled)
          | Some prev \<Rightarrow>
              if derControlCurrentStatus prev \<noteq> nextStatus then (added, nc # updated, cancelled)
              else (added, updated, cancelled))"

definition Diff ::
    "DERControlCache \<Rightarrow> DERControlListResult \<Rightarrow> DERControl list \<times> DERControl list \<times> DERControl list" where
  "Diff c next = diffLoop (controls c) (acceptedControls next)"

definition freshControls :: "DERControl list \<Rightarrow> snapshot" where
  "freshControls ncs =
     foldl (\<lambda>m nc. if MRID nc = [] then m else AList.update (MRID nc) nc m) [] ncs"

definition Refresh :: "DERControlCache \<Rightarrow> DERControlListResult \<Rightarrow> DERControlCache \<times> nat" where
  "Refresh c next =
     (let fresh = freshControls (acceptedControls next)
      in (c\<lparr>controls := fresh, cacheRejected := listRejected next\<rparr>, length fresh))"

definition Update :: "DERControlCache \<Rightarrow> DERControlListResult \<Rightarrow> DERControlCache" where
  "Update c next = fst (Refresh c next)"

section \<open>Polling\<close>

text \<open>A \<open>uint32\<close> number of seconds with the 60s floor and the 30 minute default on zero.\<close>

definition defaultDERControlPollDuration :: "32 word \<Rightarrow> duration" where
  "defaultDERControlPollDuration rate =
     (let d = seconds (uint rate);
          d = (if d \<le> 0 then seconds 1800 else d)
      in if d < seconds 60 then seconds 60 else d)"

datatype pollErr = ErrHrefRequired | ErrCtx | ErrFetch

type_synonym fetch = "nat \<Rightarrow> string \<Rightarrow> pollErr + (DERControlListResult \<times> string)"

definition pollDERControlListOnce ::
    "fetch \<Rightarrow> nat \<Rightarrow> string \<Rightarrow> DERControlCache \<Rightarrow> pollErr + (string \<times> DERControlCache)" where
  "pollDERControlListOnce get n href cache =
     (case get n href of
        Inl e \<Rightarrow> Inl e
      | Inr (l, newHref) \<Rightarrow> Inr (newHref, Update cache l))"

text \<open>
  The loop for the first \<open>k\<close> polls, the context being done after them: it returns the href and
  the cache it ends with, and the error it returns. An error of the context ends it at once; any
  other is logged and the loop goes on.
\<close>

fun pollLoop :: "fetch \<Rightarrow> nat \<Rightarrow> nat \<Rightarrow> string \<Rightarrow> DERControlCache \<Rightarrow> string \<times> DERControlCache \<times> pollErr" where
  "pollLoop get n 0 href cache = (href, cache, ErrCtx)"
| "pollLoop get n (Suc k) href cache =
     (case pollDERControlListOnce get n href cache of
        Inl ErrCtx \<Rightarrow> (href, cache, ErrCtx)
      | Inl _ \<Rightarrow> pollLoop get (Suc n) k href cache
      | Inr (newHref, cache') \<Rightarrow>
          pollLoop get (Suc n) k (if newHref \<noteq> [] then newHref else href) cache')"

definition PollDERControlList ::
    "fetch \<Rightarrow> nat \<Rightarrow> string \<Rightarrow> DERControlCache \<Rightarrow> string \<times> DERControlCache \<times> pollErr" where
  "PollDERControlList get k href cache =
     (if href = [] then (href, cache, ErrHrefRequired) else pollLoop get 0 k href cache)"

section \<open>The driver\<close>

fun diffSnapshots :: "snapshot \<Rightarrow> snapshot \<Rightarrow> DERControl list \<times> DERControl list" where
  "diffSnapshots prev cur =
     (filter (\<lambda>c. EventStatus c \<noteq> Some EventStatusCancelled)
        (map snd (filter (\<lambda>(m, c). map_of prev m = None) cur)),
      filter (\<lambda>c. EventStatus c = Some EventStatusCancelled) (map snd cur) @
      map snd (filter (\<lambda>(m, p). map_of cur m = None) prev))"

declare diffSnapshots.simps [simp del]

definition stepEvents ::
    "'h StateMachine \<Rightarrow> Scheduler \<Rightarrow> time \<Rightarrow> DERControlCache \<Rightarrow> snapshot \<Rightarrow> 'h step \<times> snapshot" where
  "stepEvents sm sched now cache prev =
     (let (sm, sched, o1) = Reject sm (Rejected cache) sched;
          cur = Snapshot cache;
          (added, cancelled) = diffSnapshots prev cur;
          (sm, sched, o2) = Tick sm now added cancelled sched
      in ((sm, sched, o1 @ o2), cur))"

section \<open>Facts about the cache\<close>

definition snap_ok :: "snapshot \<Rightarrow> bool" where
  "snap_ok s \<longleftrightarrow> distinct (map fst s) \<and> (\<forall>(m, c) \<in> set s. MRID c = m \<and> m \<noteq> [])"

lemma snap_ok_Nil [simp]: "snap_ok []"
  by (simp add: snap_ok_def)

lemma set_AList_update:
  "distinct (map fst s) \<Longrightarrow> set (AList.update k v s) = insert (k, v) {p \<in> set s. fst p \<noteq> k}"
  by (induction s) (force simp: image_iff)+

lemma snap_ok_update: "snap_ok s \<Longrightarrow> MRID c \<noteq> [] \<Longrightarrow> snap_ok (AList.update (MRID c) c s)"
  by (auto simp: snap_ok_def distinct_update set_AList_update)

lemma freshControls_foldl:
  "snap_ok s \<Longrightarrow> snap_ok (foldl (\<lambda>m nc. if MRID nc = [] then m else AList.update (MRID nc) nc m) s ncs)"
  by (rule foldl_preserves) (auto intro: snap_ok_update)

lemma snap_ok_fresh: "snap_ok (freshControls ncs)"
  unfolding freshControls_def by (rule freshControls_foldl) simp

lemma map_of_foldl_update:
  "map_of (foldl (\<lambda>m nc. if MRID nc = [] then m else AList.update (MRID nc) nc m) s ncs) =
     foldl (\<lambda>mp nc. if MRID nc = [] then mp else mp(MRID nc \<mapsto> nc)) (map_of s) ncs"
  by (induction ncs arbitrary: s) (auto simp: update_conv')

lemma foldl_upd_notin:
  "m \<notin> MRID ` set ncs \<Longrightarrow> foldl (\<lambda>mp nc. if MRID nc = [] then mp else mp(MRID nc \<mapsto> nc)) mp ncs m = mp m"
  by (induction ncs arbitrary: mp) auto

text \<open>The committed cache holds, under each mRID, the last control of the list that has it.\<close>

lemma map_of_fresh: "map_of (freshControls (xs @ nc # ys)) (MRID nc) = Some nc"
  if "MRID nc \<noteq> []" "MRID nc \<notin> MRID ` set ys"
  using that unfolding freshControls_def map_of_foldl_update by (simp add: foldl_upd_notin)

lemma map_of_fresh_distinct:
  assumes "distinct (map MRID ncs)" "nc \<in> set ncs" "MRID nc \<noteq> []"
  shows "map_of (freshControls ncs) (MRID nc) = Some nc"
proof -
  from assms(2) obtain xs ys where s: "ncs = xs @ nc # ys" by (meson split_list)
  then have "MRID nc \<notin> MRID ` set ys" using assms(1) by auto
  with s assms(3) show ?thesis by (simp add: map_of_fresh)
qed

lemma fresh_subset: "(m, c) \<in> set (freshControls ncs) \<Longrightarrow> c \<in> set ncs \<and> MRID c = m \<and> m \<noteq> []"
proof -
  have "\<forall>p\<in>set (foldl (\<lambda>m nc. if MRID nc = [] then m else AList.update (MRID nc) nc m) [] xs).
      snd p \<in> set xs" if "set xs \<subseteq> set ncs" for xs
    using that
  proof (induction xs rule: rev_induct)
    case (snoc x xs)
    have d: "distinct (map fst (foldl (\<lambda>m nc. if MRID nc = [] then m else AList.update (MRID nc) nc m) [] xs))"
      using freshControls_foldl [of "[]" xs] by (simp add: snap_ok_def)
    show ?case using snoc by (auto simp: set_AList_update [OF d])
  qed simp
  from this [of ncs] show "(m, c) \<in> set (freshControls ncs) \<Longrightarrow> c \<in> set ncs \<and> MRID c = m \<and> m \<noteq> []"
    using snap_ok_fresh [of ncs] by (fastforce simp: freshControls_def snap_ok_def)
qed

subsection \<open>What Diff reports\<close>

definition isCancelled :: "DERControl \<Rightarrow> bool" where
  "isCancelled c \<longleftrightarrow> MRID c \<noteq> [] \<and> derControlCurrentStatus c = EventStatusCancelled"

definition isAdded :: "snapshot \<Rightarrow> DERControl \<Rightarrow> bool" where
  "isAdded s c \<longleftrightarrow> MRID c \<noteq> [] \<and> derControlCurrentStatus c \<noteq> EventStatusCancelled \<and> map_of s (MRID c) = None"

definition isUpdated :: "snapshot \<Rightarrow> DERControl \<Rightarrow> bool" where
  "isUpdated s c \<longleftrightarrow> MRID c \<noteq> [] \<and> derControlCurrentStatus c \<noteq> EventStatusCancelled \<and>
     (\<exists>p. map_of s (MRID c) = Some p \<and> derControlCurrentStatus p \<noteq> derControlCurrentStatus c)"

lemma diffLoop_spec: "diffLoop s ncs = (filter (isAdded s) ncs, filter (isUpdated s) ncs, filter isCancelled ncs)"
  by (induction ncs) (auto simp: isAdded_def isUpdated_def isCancelled_def Let_def split: option.splits)

lemma Diff_spec:
  "Diff c next = (filter (isAdded (controls c)) (acceptedControls next),
     filter (isUpdated (controls c)) (acceptedControls next), filter isCancelled (acceptedControls next))"
  by (simp add: Diff_def diffLoop_spec)

lemma Diff_after_Refresh:
  assumes "distinct (map MRID (acceptedControls next))"
  shows "Diff (fst (Refresh c next)) next = ([], [], filter isCancelled (acceptedControls next))"
proof -
  have m: "map_of (freshControls (acceptedControls next)) (MRID nc) = Some nc"
    if "nc \<in> set (acceptedControls next)" "MRID nc \<noteq> []" for nc
    using assms that by (rule map_of_fresh_distinct)
  show ?thesis
    by (auto simp: Diff_spec Refresh_def Let_def filter_empty_conv isAdded_def isUpdated_def m)
qed

lemma acceptedControls_sub: "set (acceptedControls l) \<subseteq> set (listControls l)"
  by (auto simp: acceptedControls_def Let_def)

lemma accepted_not_rejected:
  "c \<in> set (acceptedControls l) \<Longrightarrow> r \<in> set (listRejected l) \<Longrightarrow> MRID r \<noteq> [] \<Longrightarrow> MRID c \<noteq> MRID r"
  by (auto simp: acceptedControls_def Let_def split: if_splits)

section \<open>Properties\<close>

text \<open>\<open>Diff\<close> partitions what the list delivers: its three results are the accepted controls that
  are new, that changed status, and that carry a cancellation; nothing is in two of them; and once the
  same list (one control per mRID) is committed, a second \<open>Diff\<close> reports no addition and no change.\<close>

theorem diff_settles:
  assumes "Diff c next = (added, updated, cancelled)"
  shows "added = filter (isAdded (controls c)) (acceptedControls next) \<and>
    updated = filter (isUpdated (controls c)) (acceptedControls next) \<and>
    cancelled = filter isCancelled (acceptedControls next) \<and>
    set added \<inter> set updated = {} \<and> set added \<inter> set cancelled = {} \<and> set updated \<inter> set cancelled = {} \<and>
    (distinct (map MRID (acceptedControls next)) \<longrightarrow> Diff (Update c next) next = ([], [], cancelled))"
  using assms Diff_after_Refresh [of "next" c]
  by (auto simp: Diff_spec isAdded_def isUpdated_def isCancelled_def Update_def)

theorem diff_settles_witness:
  "Diff NewDERControlCache \<lparr>listControls = [demoEvent], listRejected = []\<rparr> = ([demoEvent], [], []) \<and>
   Diff (Update NewDERControlCache \<lparr>listControls = [demoEvent], listRejected = []\<rparr>)
     \<lparr>listControls = [demoEvent], listRejected = []\<rparr> = ([], [], [])"
proof -
  let ?l = "\<lparr>listControls = [demoEvent], listRejected = []\<rparr>"
  have s: "derControlCurrentStatus demoEvent = EventStatusScheduled"
    by (simp add: derControlCurrentStatus_def demoEvent_def blankControl_def)
  have a: "acceptedControls ?l = [demoEvent]" by (simp add: acceptedControls_def)
  have one: "Diff NewDERControlCache ?l = ([demoEvent], [], [])"
    by (simp add: Diff_def NewDERControlCache_def a s Let_def)
  have "distinct (map MRID (acceptedControls ?l))" by (simp add: a)
  with diff_settles [OF one] one show ?thesis by blast
qed

text \<open>A committed list leaves exactly its last accepted control under each non-empty mRID in the
  cache, replacing everything that was there, and no mRID that the same list refused.\<close>

theorem refresh_commits:
  "(map_of (Snapshot (Update c l)) m =
     (if m = [] then None else find (\<lambda>nc. MRID nc = m) (rev (acceptedControls l)))) \<and>
   Rejected (Update c l) = listRejected l \<and> snap_ok (Snapshot (Update c l)) \<and>
   cacheLen (Update c l) = snd (Refresh c l) \<and>
   MRID ` set (listRejected l) \<inter> fst ` set (Snapshot (Update c l)) = {}"
proof -
  have find: "map_of (freshControls ncs) m = (if m = [] then None else find (\<lambda>nc. MRID nc = m) (rev ncs))" for ncs m
    unfolding freshControls_def map_of_foldl_update by (induction ncs rule: rev_induct) auto
  have u: "Update c l = c\<lparr>controls := freshControls (acceptedControls l), cacheRejected := listRejected l\<rparr>"
    "snd (Refresh c l) = length (freshControls (acceptedControls l))"
    by (simp_all add: Update_def Refresh_def Let_def)
  have "m \<notin> fst ` set (freshControls (acceptedControls l))" if "m \<in> MRID ` set (listRejected l)" for m
  proof
    assume "m \<in> fst ` set (freshControls (acceptedControls l))"
    then obtain c where "(m, c) \<in> set (freshControls (acceptedControls l))" by force
    then have "c \<in> set (acceptedControls l)" "MRID c = m" "m \<noteq> []" using fresh_subset by blast+
    with that show False using accepted_not_rejected by fastforce
  qed
  then have "MRID ` set (listRejected l) \<inter> fst ` set (freshControls (acceptedControls l)) = {}" by blast
  then show ?thesis
    by (simp add: u Snapshot_def find snap_ok_fresh Rejected_def cacheLen_def)
qed

text \<open>The poll wait is never zero or negative and never below a minute; it is the list's
  \<open>pollRate\<close> from a minute upwards, and half an hour when the rate is missing.\<close>

theorem poll_wait_bounds:
  "defaultDERControlPollDuration rate =
     (if uint rate = 0 then 1800 else max 60 (uint rate)) * 1000000000 \<and>
   60 * 1000000000 \<le> defaultDERControlPollDuration rate \<and>
   defaultDERControlPollDuration rate \<le> 4294967295 * 1000000000"
proof -
  have s: "seconds 1800 = 1800 * 1000000000" "seconds 60 = 60 * 1000000000"
    by (rule seconds_id, simp)+
  have u: "0 \<le> uint rate" "uint rate \<le> 4294967295" using uint_lt2p [of rate] by simp_all
  have e: "defaultDERControlPollDuration rate =
      (if uint rate = 0 then 1800 else max 60 (uint rate)) * 1000000000"
    unfolding defaultDERControlPollDuration_def seconds_uint32 s Let_def using u
    by (cases "uint rate = 0"; cases "uint rate < 60"; simp add: max_def)
  have "60 \<le> (if uint rate = 0 then 1800 else max 60 (uint rate))"
    "(if uint rate = 0 then 1800 else max 60 (uint rate)) \<le> 4294967295" using u by auto
  then show ?thesis unfolding e by linarith
qed

end
