(* ===== verification/EventLoop.thy ===== *)
theory EventLoop
  imports ControlCache
begin

text \<open>
  The driver loop as a whole: what reaches the state machine from the polled lists, and the
  invariants of every run of \<open>stepEvents\<close>, of ticks without a list (a failed read) and of
  program switches. A program switch cancels everything its program delivered and starts with
  an empty queue, as \<open>followProgram\<close> does.
\<close>

abbreviation keys :: "Scheduler \<Rightarrow> string set" where
  "keys sched \<equiv> seMRID ` set (queue sched)"

definition activeSet :: "'h StateMachine \<Rightarrow> string set" where
  "activeSet sm = (if state sm = StateDefault then {} else {activeMRID sm})"

lemma excluded_iff: "excluded sm sched \<longleftrightarrow> rejected sm \<inter> (keys sched \<union> activeSet sm) = {}"
  by (cases "state sm = StateDefault") (simp_all add: excluded_def activeSet_def Int_Un_distrib conj_ac)

lemma excl_sets:
  "R' \<subseteq> R \<union> A \<Longrightarrow> R' \<inter> C = {} \<Longrightarrow> K' \<subseteq> K \<union> C \<Longrightarrow> A \<inter> (K \<union> S) = {} \<Longrightarrow> R \<inter> (K \<union> S) = {} \<Longrightarrow>
     R' \<inter> (K' \<union> S) = {}"
  by blast

lemma active_sets:
  "A5 \<subseteq> A4 \<union> K' \<Longrightarrow> A4 \<subseteq> A3 \<union> K2 \<Longrightarrow> K' \<subseteq> K2 \<Longrightarrow> A3 \<subseteq> A2 \<Longrightarrow> A2 \<subseteq> A1 \<Longrightarrow> A2 \<inter> C = {} \<Longrightarrow>
     K2 = K1 - C \<Longrightarrow> K1 \<subseteq> K \<union> B \<Longrightarrow> A5 \<subseteq> (A1 \<union> K \<union> B) - C \<and> A5 \<subseteq> A1 \<union> K1"
  by blast

section \<open>Where the active event and the queue come from\<close>

lemma receiveAdded_excl:
  "receiveAdded sm as = (sm', out, acc) \<Longrightarrow> rejected sm' \<subseteq> rejected sm \<union> MRID ` set as \<and> set acc \<subseteq> set as \<and>
     (distinct (map MRID as) \<longrightarrow> rejected sm' \<inter> MRID ` set acc = {})"
proof (induction sm as arbitrary: sm' out acc rule: receiveAdded.induct)
  case (1 sm)
  then show ?case by simp
next
  case (2 sm a as)
  consider "MRID a \<in> rejected sm"
    | acc' where "MRID a \<notin> rejected sm" "(case validate sm of None \<Rightarrow> None | Some v \<Rightarrow> v a) = None"
        "receiveAdded sm as = (sm', out, acc')" "acc = a # acc'"
    | err ts where "MRID a \<notin> rejected sm" "(case validate sm of None \<Rightarrow> None | Some v \<Rightarrow> v a) = Some err"
        "receiveAdded (fst (rejectLocked sm a)) as = (sm', ts, acc)"
    using "2.prems" by (force simp: Let_def split: if_splits prod.splits option.splits)
  then show ?case
  proof cases
    case 1
    with "2.IH"(1) [of sm' out acc] "2.prems" show ?thesis by auto
  next
    case 2
    with "2.IH"(2) [of sm' out acc'] show ?thesis by auto
  next
    case 3
    have "rejected (fst (rejectLocked sm a)) = insert (MRID a) (rejected sm)" by (simp add: rejectLocked_def)
    with 3 "2.IH"(3) [OF 3(1,2) refl _ 3(3), of "snd (rejectLocked sm a)"] show ?thesis by auto
  qed
qed

lemma stepAdded_excluded:
  assumes "stepAdded sm sched as = (sm', sched', out)" "sched_inv sched"
    and "distinct (map MRID as)" "MRID ` set as \<inter> (keys sched \<union> activeSet sm) = {}" "excluded sm sched"
  shows "excluded sm' sched'"
proof -
  obtain acc where acc: "rejected sm' \<subseteq> rejected sm \<union> MRID ` set as" "rejected sm' \<inter> MRID ` set acc = {}"
    "sched' = (if acc \<noteq> [] then OnEventsAdded sched acc else sched)"
  proof (cases "(validate sm \<noteq> None \<or> rejected sm \<noteq> {}) \<and> as \<noteq> []")
    case True
    then obtain acc where "receiveAdded sm as = (sm', out, acc)"
      "sched' = (if acc \<noteq> [] then OnEventsAdded sched acc else sched)"
      using assms(1) by (auto simp: stepAdded_def split: prod.splits)
    with receiveAdded_excl [of sm as sm' out acc] assms(3) show ?thesis by (intro that [of acc]) auto
  next
    case False
    then have "sm' = sm" "sched' = (if as \<noteq> [] then OnEventsAdded sched as else sched)" "rejected sm = {} \<or> as = []"
      using assms(1) by (auto simp: stepAdded_def split: if_splits)
    then show ?thesis by (intro that [of as]) auto
  qed
  have k: "keys sched' \<subseteq> keys sched \<union> MRID ` set acc"
    using sq.added_keys [OF assms(2), of acc] acc(3) by (cases "acc = []") simp_all
  have "activeSet sm' = activeSet sm"
    using stepAdded_frame [OF assms(1)] by (simp add: activeSet_def)
  with excl_sets [OF acc(1,2) k assms(4)] assms(5) show ?thesis by (simp only: excluded_iff)
qed

lemma stepCancelled_active:
  assumes "stepCancelled sm sched cs = (sm', sched', out)"
  shows "activeSet sm' \<subseteq> activeSet sm" and "rejected sm' = rejected sm"
    and "sm_inv sm \<Longrightarrow> [] \<notin> MRID ` set cs \<Longrightarrow> activeSet sm' \<inter> MRID ` set cs = {}"
proof -
  show "activeSet sm' \<subseteq> activeSet sm" "rejected sm' = rejected sm"
    using assms by (auto simp: stepCancelled_def transition_defs activeSet_def split: if_splits option.splits)
  have hit: "\<exists>c. cancelledMap cs m = Some c" if "m \<in> MRID ` set cs" "m \<noteq> []" for m
  proof -
    have "m \<in> dom (cancelledMap cs)"
      using that by (auto simp: cancelledMap_def dom_map_of_conv_image_fst image_image)
    then show ?thesis by auto
  qed
  show "activeSet sm' \<inter> MRID ` set cs = {}" if "sm_inv sm" "[] \<notin> MRID ` set cs"
  proof (cases "activeMRID sm \<in> MRID ` set cs \<and> state sm \<noteq> StateDefault")
    case True
    then have "activeMRID sm \<noteq> []" "cs \<noteq> []" using that by auto
    moreover obtain c where "cancelledMap cs (activeMRID sm) = Some c" using hit True calculation by blast
    moreover have "state sm = StateEventReceived \<or> state sm = StateEventStarted"
      using that(1) True by (auto elim: sm_inv_cases)
    ultimately show ?thesis using assms
      by (auto simp: stepCancelled_def transition_defs activeSet_def split: if_splits)
  next
    case False
    then show ?thesis using \<open>activeSet sm' \<subseteq> activeSet sm\<close> by (auto simp: activeSet_def split: if_splits)
  qed
qed

lemma stepComplete_active:
  "stepComplete sm now = (sm', out) \<Longrightarrow> activeSet sm' \<subseteq> activeSet sm \<and> rejected sm' = rejected sm"
  by (auto simp: stepComplete_def complete_def transition_defs activeSet_def split: if_splits)

lemma stepPop_active:
  assumes "stepPop sm sched now = (sm', sched', out)" "sched_inv sched"
  shows "activeSet sm' \<subseteq> activeSet sm \<union> keys sched" and "rejected sm' = rejected sm"
    and "keys sched' \<subseteq> keys sched"
    and "\<forall>t\<in>set out. tnext t = StateEventStarted \<longrightarrow> tmRID t \<in> keys sched"
proof -
  obtain ex where pop: "PopExpired sched now = (ex, sched')"
    using assms(1) by (auto simp: stepPop_def Let_def split: prod.splits list.splits)
  show "keys sched' \<subseteq> keys sched" using sq.popped_rest [OF assms(2), of now] pop by auto
  have "activeSet sm' \<subseteq> activeSet sm \<union> keys sched \<and> rejected sm' = rejected sm \<and>
    (\<forall>t\<in>set out. tnext t = StateEventStarted \<longrightarrow> tmRID t \<in> keys sched)"
  proof (cases ex)
    case Nil
    with assms(1) pop show ?thesis by (auto simp: stepPop_def)
  next
    case (Cons h t)
    then have "h \<in> set (queue sched)" using sq.popped_head [OF assms(2), of now h t] pop by simp
    then have "seMRID h \<in> keys sched" by simp
    moreover have "stepHead sm h now = (sm', out)"
      using assms(1) pop Cons by (auto simp: stepPop_def split: prod.splits)
    ultimately show ?thesis
      by (auto simp: stepHead_def complete_def transition_defs activeSet_def split: if_splits)
  qed
  then show "activeSet sm' \<subseteq> activeSet sm \<union> keys sched" "rejected sm' = rejected sm"
    "\<forall>t\<in>set out. tnext t = StateEventStarted \<longrightarrow> tmRID t \<in> keys sched" by auto
qed

lemma stepObserve_active:
  assumes "stepObserve sm sched = (sm', out)" "sched_inv sched"
  shows "activeSet sm' \<subseteq> activeSet sm \<union> keys sched \<and> rejected sm' = rejected sm"
  using assms(1) sq.next_min [OF assms(2)]
  by (fastforce simp: stepObserve_def transition_defs activeSet_def split: if_splits option.splits)

lemma Tick_origin:
  assumes "Tick sm now as cs sched = (sm', sched', out)" "sched_inv sched" "sm_inv sm"
    and "[] \<notin> MRID ` set cs"
  shows "keys sched' \<subseteq> (keys sched \<union> (MRID ` set as - rejected sm)) - MRID ` set cs"
    and "activeSet sm' \<subseteq> (activeSet sm \<union> keys sched \<union> (MRID ` set as - rejected sm)) - MRID ` set cs"
    and "\<forall>t\<in>set out. tnext t = StateEventStarted \<longrightarrow> tmRID t \<in> keys sched \<union> (MRID ` set as - rejected sm)"
    and "distinct (map MRID as) \<Longrightarrow> MRID ` set as \<inter> (keys sched \<union> activeSet sm) = {} \<Longrightarrow>
      excluded sm sched \<Longrightarrow> excluded sm' sched'"
proof -
  from assms(1) obtain sm1 sched1 o1 sm2 sched2 o2 sm3 o3 sm4 o4 o5 where
    t: "stepAdded sm sched as = (sm1, sched1, o1)" "stepCancelled sm1 sched1 cs = (sm2, sched2, o2)"
      "stepComplete sm2 now = (sm3, o3)" "stepPop sm3 sched2 now = (sm4, sched', o4)"
      "stepObserve sm4 sched' = (sm', o5)" "out = o1 @ o2 @ o3 @ o4 @ o5"
    by (rule Tick_steps)
  note f1 = stepAdded_frame [OF t(1)]
  have i1: "sched_inv sched1" by (rule stepAdded_ok(3) [OF t(1) assms(2)])
  have m1: "sm_inv sm1" using stepAdded_ok(1) [OF t(1) assms(2)] assms(3) sm_inv_rejected by metis
  have a1: "activeSet sm1 = activeSet sm" using f1 by (simp add: activeSet_def)
  have k1: "keys sched1 \<subseteq> keys sched \<union> (MRID ` set as - rejected sm)" by (rule stepAdded_keys [OF t(1) assms(2)])
  have i2: "sched_inv sched2" using stepCancelled_sched [OF t(2)] i1 by (auto intro: inv_intros)
  have "filter (\<lambda>m. m \<noteq> []) (map MRID cs) = map MRID cs"
    using assms(4) by (intro filter_True) (metis set_map)
  then have k2: "keys sched2 = keys sched1 - MRID ` set cs"
    using stepCancelled_sched [OF t(2)] sq.cancelled_set [OF i1, of "filter (\<lambda>m. m \<noteq> []) (map MRID cs)"]
    by (cases "cs = []") auto
  note a2 = stepCancelled_active [OF t(2)]
  note a3 = stepComplete_active [OF t(3)]
  note a4 = stepPop_active [OF t(4) i2]
  have "sched' = snd (PopExpired sched2 now)"
    using t(4) by (auto simp: stepPop_def Let_def split: prod.splits list.splits)
  then have i4: "sched_inv sched'" using sched_inv_popped [OF i2] by simp
  note a5 = stepObserve_active [OF t(5) i4]
  show "keys sched' \<subseteq> (keys sched \<union> (MRID ` set as - rejected sm)) - MRID ` set cs"
    using a4(3) k2 k1 by blast
  have act: "activeSet sm' \<subseteq> (activeSet sm1 \<union> keys sched \<union> (MRID ` set as - rejected sm)) - MRID ` set cs \<and>
      activeSet sm' \<subseteq> activeSet sm1 \<union> keys sched1"
    by (rule active_sets [OF conjunct1 [OF a5] a4(1,3) conjunct1 [OF a3] a2(1) a2(3) [OF m1 assms(4)] k2 k1])
  then show "activeSet sm' \<subseteq> (activeSet sm \<union> keys sched \<union> (MRID ` set as - rejected sm)) - MRID ` set cs"
    by (simp only: a1)
  have "starts (o1 @ o2 @ o3 @ o5) = 0"
    using starts_added [OF t(1)] starts_cancelled [OF t(2)] starts_complete [OF t(3)] starts_observe [OF t(5)] by simp
  then have "\<forall>x\<in>set (o1 @ o2 @ o3 @ o5). tnext x \<noteq> StateEventStarted" by (auto simp: starts_def filter_empty_conv)
  moreover have k12: "keys sched2 \<subseteq> keys sched \<union> (MRID ` set as - rejected sm)"
    unfolding k2 by (rule subset_trans [OF Diff_subset k1])
  ultimately show "\<forall>t\<in>set out. tnext t = StateEventStarted \<longrightarrow> tmRID t \<in> keys sched \<union> (MRID ` set as - rejected sm)"
    using a4(4) subsetD [OF k12] unfolding t(6) set_append by (metis UnE UnI1 UnI2)
  assume fresh: "distinct (map MRID as)" "MRID ` set as \<inter> (keys sched \<union> activeSet sm) = {}" "excluded sm sched"
  have "excluded sm1 sched1" by (rule stepAdded_excluded [OF t(1) assms(2) fresh])
  then have "rejected sm1 \<inter> (keys sched1 \<union> activeSet sm1) = {}" by (simp only: excluded_iff)
  moreover have "rejected sm' = rejected sm1" using a2(2) a3 a4(2) a5 by simp
  moreover have "activeSet sm' \<subseteq> activeSet sm1 \<union> keys sched1" using act by simp
  moreover have "keys sched' \<subseteq> keys sched1" using a4(3) k2 by blast
  ultimately show "excluded sm' sched'" unfolding excluded_iff by blast
qed

section \<open>What a step of the driver feeds the machine\<close>

definition names :: "snapshot \<Rightarrow> string set" where
  "names s = fst ` set s"

lemma names_map_of: "map_of s m = None \<longleftrightarrow> m \<notin> names s"
  by (simp add: names_def map_of_eq_None_iff)

lemma snap_ok_MRID: "snap_ok s \<Longrightarrow> map (\<lambda>p. MRID (snd p)) s = map fst s"
  by (auto simp: snap_ok_def)

lemma diff_added:
  assumes "snap_ok prev" "snap_ok cur" "diffSnapshots prev cur = (as, cs)"
  shows "distinct (map MRID as)" "MRID ` set as \<inter> names prev = {}" "MRID ` set as \<subseteq> names cur"
proof -
  let ?new = "filter (\<lambda>(m, c). map_of prev m = None) cur"
  have as: "as = filter (\<lambda>c. EventStatus c \<noteq> Some EventStatusCancelled) (map snd ?new)"
    using assms(3) by (auto simp: diffSnapshots.simps)
  have "map MRID (map snd ?new) = map fst ?new" using assms(2) by (auto simp: snap_ok_def)
  moreover have "distinct (map fst ?new)" using assms(2) by (simp add: snap_ok_def distinct_map_filter_key)
  ultimately show "distinct (map MRID as)" unfolding as by (metis distinct_map_filter_key)
  have "\<exists>m. (m, c) \<in> set cur \<and> m \<notin> names prev \<and> MRID c = m" if "c \<in> set as" for c
    using that assms(2) unfolding as by (fastforce simp: snap_ok_def names_map_of)
  note * = this
  then show "MRID ` set as \<inter> names prev = {}" by (fastforce simp: names_def)
  show "MRID ` set as \<subseteq> names cur"
    by (rule image_subsetI) (use * in \<open>force simp: names_def\<close>)
qed

lemma diff_cancelled:
  assumes "snap_ok prev" "snap_ok cur" "diffSnapshots prev cur = (as, cs)"
  shows "[] \<notin> MRID ` set cs" "names prev - names cur \<subseteq> MRID ` set cs"
    and "map_of cur m = Some c \<Longrightarrow> m \<in> MRID ` set cs \<longleftrightarrow> EventStatus c = Some EventStatusCancelled"
proof -
  have cs: "cs = filter (\<lambda>c. EventStatus c = Some EventStatusCancelled) (map snd cur) @
      map snd (filter (\<lambda>(m, p). map_of cur m = None) prev)"
    using assms(3) by (auto simp: diffSnapshots.simps)
  show "[] \<notin> MRID ` set cs"
    using assms(1,2) unfolding cs snap_ok_def by (auto simp: image_iff)
  show "names prev - names cur \<subseteq> MRID ` set cs"
  proof
    fix m assume "m \<in> names prev - names cur"
    then obtain c where c: "(m, c) \<in> set prev" "map_of cur m = None" by (auto simp: names_def map_of_eq_None_iff)
    then have "MRID c = m" using assms(1) by (auto simp: snap_ok_def)
    moreover have "c \<in> set cs" using c unfolding cs by force
    ultimately show "m \<in> MRID ` set cs" by blast
  qed
  assume c: "map_of cur m = Some c"
  then have in_cur: "(m, c) \<in> set cur" by (rule map_of_SomeD)
  have key: "x = c" if "(k, x) \<in> set cur" "MRID x = m" for k x
  proof -
    have "k = m" using that assms(2) by (auto simp: snap_ok_def)
    then show ?thesis using that(1) c assms(2) by (simp add: snap_ok_def)
  qed
  have gone: "MRID x \<noteq> m" if "(k, x) \<in> set prev" "map_of cur k = None" for k x
    using that c assms(1) by (auto simp: snap_ok_def)
  show "m \<in> MRID ` set cs \<longleftrightarrow> EventStatus c = Some EventStatusCancelled"
  proof
    assume "m \<in> MRID ` set cs"
    then obtain k x where "MRID x = m" "(k, x) \<in> set cur \<and> EventStatus x = Some EventStatusCancelled \<or>
        (k, x) \<in> set prev \<and> map_of cur k = None" unfolding cs by (auto simp: image_iff) blast+
    then show "EventStatus c = Some EventStatusCancelled" using key gone by blast
  next
    assume "EventStatus c = Some EventStatusCancelled"
    then have "c \<in> set cs" using in_cur unfolding cs by force
    moreover have "MRID c = m" using in_cur assms(2) by (auto simp: snap_ok_def)
    ultimately show "m \<in> MRID ` set cs" by blast
  qed
qed

lemma rejectItem_shrinks:
  assumes "rejectItem (sm, sched, out) item = (sm', sched', out')" "sched_inv sched"
  shows "activeSet sm' \<subseteq> activeSet sm \<and> keys sched' \<subseteq> keys sched"
proof -
  have "keys (OnEventsCancelled sched [m]) \<subseteq> keys sched" for m
    using sq.cancelled_set [OF assms(2)] by auto
  moreover have "sched' = sched \<or> sched' = OnEventsCancelled sched [MRID item]" "activeSet sm' \<subseteq> activeSet sm"
    using assms(1) by (auto simp: rejectItem_def transition_defs activeSet_def split: if_splits)
  ultimately show ?thesis by auto
qed

lemma rejectItems_shrink:
  "foldl rejectItem (sm, sched, out) items = (sm', sched', out') \<Longrightarrow> sm_inv sm \<Longrightarrow> sched_inv sched \<Longrightarrow>
     activeSet sm' \<subseteq> activeSet sm \<and> keys sched' \<subseteq> keys sched"
proof (induction items arbitrary: sm sched out)
  case Nil
  then show ?case by simp
next
  case (Cons i items)
  obtain sm1 sched1 out1 where one: "rejectItem (sm, sched, out) i = (sm1, sched1, out1)"
    by (cases "rejectItem (sm, sched, out) i") auto
  note ok = rejectItem_ok(1,2) [OF one Cons.prems(2,3)]
  have "foldl rejectItem (sm1, sched1, out1) items = (sm', sched', out')" using Cons.prems(1) one by simp
  from Cons.IH [OF this ok] rejectItem_shrinks [OF one Cons.prems(3)] show ?case
    by (meson subset_trans)
qed

lemma Reject_ok:
  assumes "Reject sm items sched = (sm', sched', out)" "sm_inv sm" "sched_inv sched"
  shows "sm_inv sm'" "sched_inv sched'" "excluded sm sched \<Longrightarrow> excluded sm' sched'"
    "activeSet sm' \<subseteq> activeSet sm" "keys sched' \<subseteq> keys sched"
    "trail withdrawal (state sm) out (state sm')" "\<forall>t\<in>set out. tnext t \<noteq> StateEventCancelled"
    "rejected sm' = rejected sm \<union>
      {MRID i |i. i \<in> set items \<and> MRID i \<noteq> [] \<and> EventStatus i \<noteq> Some EventStatusCancelled}"
  using rejectItems_ok [OF assms(1) [unfolded Reject_def] assms(2,3)]
    rejectItems_shrink [OF assms(1) [unfolded Reject_def] assms(2,3)] by auto

lemma trail_withdrawal_no_start:
  "trail withdrawal s ts s' \<Longrightarrow> \<forall>t\<in>set ts. tnext t \<noteq> StateEventStarted"
  by (induction ts arbitrary: s) (auto simp: withdrawal_def split: if_splits)

section \<open>The invariant of the driver\<close>

definition loop_inv :: "'h StateMachine \<Rightarrow> Scheduler \<Rightarrow> DERControlCache \<Rightarrow> snapshot \<Rightarrow> bool" where
  "loop_inv sm sched cache prev \<longleftrightarrow> sm_inv sm \<and> sched_inv sched \<and> excluded sm sched \<and>
     snap_ok prev \<and> snap_ok (controls cache) \<and> keys sched \<subseteq> names prev \<and> activeSet sm \<subseteq> names prev"

lemma loop_sets:
  "K \<subseteq> P \<Longrightarrow> A \<inter> P = {} \<Longrightarrow> A \<subseteq> C \<Longrightarrow> P - C \<subseteq> X \<Longrightarrow> K' \<subseteq> (K \<union> (A - R)) - X \<Longrightarrow> K' \<subseteq> C"
  by blast

lemma reject_sets: "R1 \<inter> K = {} \<Longrightarrow> R \<subseteq> R1 \<Longrightarrow> R \<inter> (K \<union> (A - R1)) = {}"
  by blast

lemma gone_sets: "K \<subseteq> A - X \<Longrightarrow> S \<subseteq> B - X \<Longrightarrow> (K \<union> S) \<inter> X = {}"
  by blast

lemma loop_inv_stepEvents:
  assumes "loop_inv sm sched cache prev" "stepEvents sm sched now cache prev = ((sm', sched', out), cur)"
  shows "loop_inv sm' sched' cache cur"
    and "\<forall>t\<in>set out. tnext t = StateEventStarted \<longrightarrow> tmRID t \<notin> rejected sm"
    and "(keys sched' \<union> activeSet sm') \<inter> MRID ` set (snd (diffSnapshots prev cur)) = {}"
proof -
  obtain sm1 sched1 o1 where r: "Reject sm (Rejected cache) sched = (sm1, sched1, o1)" by (metis prod_cases3)
  obtain as cs where d: "diffSnapshots prev (Snapshot cache) = (as, cs)" by fastforce
  obtain sm2 sched2 o2 where t': "Tick sm1 now as cs sched1 = (sm2, sched2, o2)" by (metis prod_cases3)
  have e: "sm2 = sm'" "sched2 = sched'" "out = o1 @ o2" "cur = Snapshot cache"
    using assms(2) unfolding stepEvents_def by (simp_all add: r d t' Let_def)
  note t = t' [unfolded e] and out = e(3) and cur = e(4)
  have inv: "sm_inv sm" "sched_inv sched" "excluded sm sched" "snap_ok prev" "snap_ok (Snapshot cache)"
    "keys sched \<subseteq> names prev" "activeSet sm \<subseteq> names prev"
    using assms(1) by (auto simp: loop_inv_def Snapshot_def)
  note R = Reject_ok [OF r inv(1,2)]
  note A = diff_added [OF inv(4,5) d]
  note C = diff_cancelled [OF inv(4,5) d]
  have k1: "keys sched1 \<union> activeSet sm1 \<subseteq> names prev" using R(4,5) inv(6,7) by (meson Un_least subset_trans)
  have fresh: "MRID ` set as \<inter> (keys sched1 \<union> activeSet sm1) = {}"
    using A(2) k1 by (metis (no_types, opaque_lifting) Int_mono bot.extremum_uniqueI subset_refl)
  note T = Tick_origin [OF t R(2,1) C(1)]
  have "keys sched' \<subseteq> names (Snapshot cache)"
    by (rule loop_sets [OF _ A(2,3) C(2) T(1)]) (use k1 in simp)
  moreover have "activeSet sm' \<subseteq> names (Snapshot cache)"
    by (rule loop_sets [OF _ A(2,3) C(2), of "activeSet sm1 \<union> keys sched1" _ "rejected sm1"])
      (use k1 T(2) in simp_all)
  ultimately show "loop_inv sm' sched' cache cur"
    using Tick_ok [OF t R(2,1)] T(4) [OF A(1) fresh R(3) [OF inv(3)]] inv(5)
    by (simp add: loop_inv_def cur Snapshot_def)
  have "snd (diffSnapshots prev cur) = cs" by (simp add: d cur)
  then show "(keys sched' \<union> activeSet sm') \<inter> MRID ` set (snd (diffSnapshots prev cur)) = {}"
    using gone_sets [OF T(1,2)] by simp
  have "rejected sm1 \<inter> keys sched1 = {}" using R(3) [OF inv(3)] by (simp add: excluded_def)
  moreover have "rejected sm \<subseteq> rejected sm1" using R(8) by simp
  ultimately have "rejected sm \<inter> (keys sched1 \<union> (MRID ` set as - rejected sm1)) = {}"
    by (rule reject_sets)
  moreover have "\<forall>t\<in>set o1. tnext t \<noteq> StateEventStarted"
    using R(6) by (rule trail_withdrawal_no_start)
  ultimately show "\<forall>t\<in>set out. tnext t = StateEventStarted \<longrightarrow> tmRID t \<notin> rejected sm"
    using T(3) unfolding out by (metis IntI UnE empty_iff set_append)
qed

section \<open>Runs of the driver\<close>

text \<open>
  \<open>driver\<close> relates the machine, the queue, the cache and the snapshot last fed to the machine
  in any run: the cache may be refreshed any number of times between two steps (the poll runs
  on its own goroutine), a step may run at any time, a read may fail, and the program may be
  switched.
\<close>

definition initialMachine :: "'h option \<Rightarrow> 'h list \<Rightarrow> (DERControl \<Rightarrow> ctlError option) option \<Rightarrow> 'h StateMachine" where
  "initialMachine h hs v = foldl AddTransitionHook (SetValidator (OnTransition NewStateMachine h) v) (map Some hs)"

inductive driver :: "'h StateMachine \<Rightarrow> Scheduler \<Rightarrow> DERControlCache \<Rightarrow> snapshot \<Rightarrow> bool" where
  begin_: "driver (initialMachine h hs v) (NewScheduler r) NewDERControlCache []"
| refresh: "driver sm sched cache prev \<Longrightarrow> driver sm sched (fst (Refresh cache l)) prev"
| step: "driver sm sched cache prev \<Longrightarrow> stepEvents sm sched now cache prev = ((sm', sched', out), cur) \<Longrightarrow>
    driver sm' sched' cache cur"
| readFailed: "driver sm sched cache prev \<Longrightarrow> Tick sm now [] [] sched = (sm', sched', out) \<Longrightarrow>
    driver sm' sched' cache prev"
| switch: "driver sm sched cache prev \<Longrightarrow>
    Tick sm now [] (snd (diffSnapshots prev [])) sched = (sm', sched', out) \<Longrightarrow>
    driver sm' (NewScheduler r) NewDERControlCache []"

lemma initialMachine_fields:
  "state (initialMachine h hs v) = StateDefault" "activeMRID (initialMachine h hs v) = []"
  "activeDERCtrl (initialMachine h hs v) = None" "activeExpireAt (initialMachine h hs v) = zeroTime"
  "rejected (initialMachine h hs v) = {}" "validate (initialMachine h hs v) = v"
proof -
  have "foldl AddTransitionHook sm (map Some hs) = sm\<lparr>hooks := hooks sm @ hs\<rparr>" for sm :: "'a StateMachine"
    by (induction hs arbitrary: sm) (simp_all add: AddTransitionHook_def)
  then show "state (initialMachine h hs v) = StateDefault" "activeMRID (initialMachine h hs v) = []"
    "activeDERCtrl (initialMachine h hs v) = None" "activeExpireAt (initialMachine h hs v) = zeroTime"
    "rejected (initialMachine h hs v) = {}" "validate (initialMachine h hs v) = v"
    by (simp_all add: initialMachine_def SetValidator_def OnTransition_def NewStateMachine_def)
qed

lemma loop_inv_begin: "loop_inv (initialMachine h hs v) (NewScheduler r) NewDERControlCache []"
  using sched_inv_New [of r]
  by (simp add: loop_inv_def sm_inv_def initialMachine_fields excluded_iff activeSet_def names_def
      NewScheduler_def NewDERControlCache_def)

lemma loop_inv_refresh: "loop_inv sm sched cache prev \<Longrightarrow> loop_inv sm sched (fst (Refresh cache l)) prev"
  by (simp add: loop_inv_def Refresh_def Let_def snap_ok_fresh)

lemma quiet_sets:
  "K' \<subseteq> (K \<union> (A - R)) - X \<Longrightarrow> S' \<subseteq> (S \<union> K) - X \<Longrightarrow> K \<subseteq> P \<Longrightarrow> S \<subseteq> P \<Longrightarrow> A = {} \<Longrightarrow> K' \<union> S' \<subseteq> P - X"
  by blast

lemma loop_inv_quiet:
  assumes "loop_inv sm sched cache prev" "Tick sm now [] cs sched = (sm', sched', out)" "[] \<notin> MRID ` set cs"
  shows "loop_inv sm' sched' cache prev"
    and "keys sched' \<union> activeSet sm' \<subseteq> names prev - MRID ` set cs"
proof -
  have inv: "sm_inv sm" "sched_inv sched" "excluded sm sched" "keys sched \<subseteq> names prev" "activeSet sm \<subseteq> names prev"
    using assms(1) by (auto simp: loop_inv_def)
  note T = Tick_origin [OF assms(2) inv(2,1) assms(3)]
  show *: "keys sched' \<union> activeSet sm' \<subseteq> names prev - MRID ` set cs"
    by (rule quiet_sets [OF T(1) _ inv(4,5)]) (use T(2) in simp_all)
  have "excluded sm' sched'" using T(4) inv(3) by simp
  moreover have "keys sched' \<subseteq> names prev" "activeSet sm' \<subseteq> names prev"
    using subset_trans [OF * Diff_subset] by (simp_all only: Un_subset_iff)
  ultimately show "loop_inv sm' sched' cache prev"
    using assms(1) Tick_ok [OF assms(2) inv(2,1)] by (simp add: loop_inv_def)
qed

lemma loop_inv_switch:
  assumes "loop_inv sm sched cache prev"
    and "Tick sm now [] (snd (diffSnapshots prev [])) sched = (sm', sched', out)"
  shows "loop_inv sm' (NewScheduler r) NewDERControlCache []" and "state sm' = StateDefault"
proof -
  obtain as cs where d: "diffSnapshots prev [] = (as, cs)" by fastforce
  have ok: "snap_ok prev" using assms(1) by (simp add: loop_inv_def)
  note C = diff_cancelled [OF ok snap_ok_Nil d]
  have t: "Tick sm now [] cs sched = (sm', sched', out)" using assms(2) d by simp
  note Q = loop_inv_quiet [OF assms(1) t C(1)]
  have "names prev - MRID ` set cs = {}" using C(2) by (simp add: names_def)
  then have empty: "activeSet sm' = {}" using Q(2) by (metis Un_subset_iff subset_empty)
  then show "state sm' = StateDefault" by (simp add: activeSet_def split: if_splits)
  show "loop_inv sm' (NewScheduler r) NewDERControlCache []"
    using Q(1) empty sched_inv_New [of r]
    by (simp add: loop_inv_def excluded_iff NewScheduler_def NewDERControlCache_def)
qed

lemma driver_loop_inv: "driver sm sched cache prev \<Longrightarrow> loop_inv sm sched cache prev"
proof (induction rule: driver.induct)
  case (begin_ h hs v r)
  show ?case by (rule loop_inv_begin)
next
  case (refresh sm sched cache prev l)
  show ?case by (rule loop_inv_refresh [OF refresh.IH])
next
  case (step sm sched cache prev now sm' sched' out cur)
  show ?case by (rule loop_inv_stepEvents(1) [OF step.IH step.hyps(2)])
next
  case (readFailed sm sched cache prev now sm' sched' out)
  from loop_inv_quiet(1) [OF readFailed.IH readFailed.hyps(2)] show ?case by simp
next
  case (switch sm sched cache prev now sm' sched' out r)
  from loop_inv_switch(1) [OF switch.IH switch.hyps(2)] show ?case .
qed

section \<open>Properties of every run\<close>

lemma trail_mono: "trail E s ts s' \<Longrightarrow> (\<And>p n. E p n \<Longrightarrow> F p n) \<Longrightarrow> trail F s ts s'"
  by (induction ts arbitrary: s) (auto split: if_splits)

lemma receiveAdded_mono: "receiveAdded sm as = (sm', out, acc) \<Longrightarrow> rejected sm \<subseteq> rejected sm'"
proof (induction sm as arbitrary: sm' out acc rule: receiveAdded.induct)
  case (2 sm a as)
  then show ?case
    by (force simp: Let_def rejectLocked_def split: if_splits prod.splits option.splits)
qed simp

lemma Tick_rejected_mono:
  assumes "Tick sm now as cs sched = (sm', sched', out)" "sched_inv sched"
  shows "rejected sm \<subseteq> rejected sm'"
proof -
  from assms(1) obtain sm1 sched1 o1 sm2 sched2 o2 sm3 o3 sm4 o4 o5 where
    t: "stepAdded sm sched as = (sm1, sched1, o1)" "stepCancelled sm1 sched1 cs = (sm2, sched2, o2)"
      "stepComplete sm2 now = (sm3, o3)" "stepPop sm3 sched2 now = (sm4, sched', o4)"
      "stepObserve sm4 sched' = (sm', o5)" "out = o1 @ o2 @ o3 @ o4 @ o5"
    by (rule Tick_steps)
  have i2: "sched_inv sched2"
    using stepAdded_ok(3) [OF t(1) assms(2)] stepCancelled_sched [OF t(2)] by (auto intro: inv_intros)
  have i4: "sched_inv sched'" by (rule sched_inv_Tick [OF assms])
  have "rejected sm \<subseteq> rejected sm1"
    using t(1) by (auto simp: stepAdded_def dest: receiveAdded_mono split: prod.splits if_splits)
  then show ?thesis
    using stepCancelled_active(2) [OF t(2)] stepComplete_active [OF t(3)] stepPop_active(2) [OF t(4) i2]
      stepObserve_active [OF t(5) i4] by simp
qed

lemma stepEvents_parts:
  assumes "stepEvents sm sched now cache prev = ((sm', sched', out), cur)"
  obtains sm1 sched1 o1 as cs o2 where "Reject sm (Rejected cache) sched = (sm1, sched1, o1)"
    "diffSnapshots prev (Snapshot cache) = (as, cs)" "Tick sm1 now as cs sched1 = (sm', sched', o2)"
    "out = o1 @ o2" "cur = Snapshot cache"
proof -
  obtain sm1 sched1 o1 where r: "Reject sm (Rejected cache) sched = (sm1, sched1, o1)" by (metis prod_cases3)
  obtain as cs where d: "diffSnapshots prev (Snapshot cache) = (as, cs)" by fastforce
  obtain sm2 sched2 o2 where t: "Tick sm1 now as cs sched1 = (sm2, sched2, o2)" by (metis prod_cases3)
  have "sm2 = sm'" "sched2 = sched'" "out = o1 @ o2" "cur = Snapshot cache"
    using assms unfolding stepEvents_def by (simp_all add: r d t Let_def)
  with r d t that show ?thesis by blast
qed

subsection \<open>A new control of the list is queued\<close>

definition earliestStart :: "DERControl \<Rightarrow> DateTimeInterval \<Rightarrow> time" where
  "earliestStart c iv = unixTime (Start iv) -
     (case RandomizeStart c of None \<Rightarrow> 0 | Some v \<Rightarrow> max 0 (- sint v)) * 1000000000"

definition queuedFrom :: "DERControl \<Rightarrow> scheduledEvent \<Rightarrow> bool" where
  "queuedFrom c e \<longleftrightarrow> seMRID e = MRID c \<and> (\<exists>iv. Interval c = Some iv \<and> earliestStart c iv \<le> FireAt e)"

lemma addEvent_entry: "e \<in> set (queue (addEvent s c)) \<Longrightarrow> e \<in> set (queue s) \<or> queuedFrom c e"
  by (auto simp: addEvent_def queuedFrom_def earliestStart_def computeWindow_eq Let_def removeByMRID_def
      dest!: applyRandomizeStart_bounds(1) removeFirst_subset [THEN subsetD] split: option.splits prod.splits)

lemma addEvents_entry:
  "e \<in> set (queue (foldl addEvent s cs)) \<Longrightarrow> e \<in> set (queue s) \<or> (\<exists>c\<in>set cs. queuedFrom c e)"
proof (induction cs arbitrary: s)
  case (Cons c cs)
  then have "e \<in> set (queue (addEvent s c)) \<or> (\<exists>c\<in>set cs. queuedFrom c e)" by simp
  then show ?case using addEvent_entry [of e s c] by auto
qed simp

lemma added_entry:
  "e \<in> set (queue (OnEventsAdded s cs)) \<Longrightarrow> e \<in> set (queue s) \<or> (\<exists>c\<in>set cs. queuedFrom c e)"
  using addEvents_entry [of e s cs] by (auto simp: OnEventsAdded_def sortQueue_def Let_def split: if_splits)

lemma receiveAdded_accepts:
  "receiveAdded sm as = (sm', out, acc) \<Longrightarrow> a \<in> set as \<Longrightarrow> MRID a \<notin> rejected sm' \<Longrightarrow> a \<in> set acc"
proof (induction sm as arbitrary: sm' out acc rule: receiveAdded.induct)
  case (1 sm)
  then show ?case by simp
next
  case (2 sm b as)
  consider "MRID b \<in> rejected sm" "receiveAdded sm as = (sm', out, acc)"
    | acc' where "MRID b \<notin> rejected sm" "(case validate sm of None \<Rightarrow> None | Some v \<Rightarrow> v b) = None"
        "receiveAdded sm as = (sm', out, acc')" "acc = b # acc'"
    | err ts where "MRID b \<notin> rejected sm" "(case validate sm of None \<Rightarrow> None | Some v \<Rightarrow> v b) = Some err"
        "receiveAdded (fst (rejectLocked sm b)) as = (sm', ts, acc)"
    using "2.prems"(1) by (force simp: Let_def split: if_splits prod.splits option.splits)
  then show ?case
  proof cases
    case 1
    then have "MRID b \<in> rejected sm'" using receiveAdded_mono by blast
    with "2.IH"(1) [OF 1] "2.prems"(2,3) show ?thesis by auto
  next
    case 2
    with "2.IH"(2) [OF 2(1,2,3)] "2.prems"(2,3) show ?thesis by auto
  next
    case 3
    have "MRID b \<in> rejected (fst (rejectLocked sm b))" by (simp add: rejectLocked_def)
    then have "MRID b \<in> rejected sm'" using receiveAdded_mono [OF 3(3)] by blast
    with "2.IH"(3) [OF 3(1,2) refl _ 3(3), of "snd (rejectLocked sm b)"] "2.prems"(2,3) show ?thesis by auto
  qed
qed

lemma stepAdded_queues:
  assumes "stepAdded sm sched as = (sm', sched', out)" "sched_inv sched" "a \<in> set as"
    and "MRID a \<notin> rejected sm'" "Interval a \<noteq> None"
  shows "MRID a \<in> keys sched' \<and> (\<forall>e\<in>set (queue sched'). e \<in> set (queue sched) \<or> (\<exists>c\<in>set as. queuedFrom c e))"
proof -
  obtain acc where acc: "a \<in> set acc" "set acc \<subseteq> set as" "sched' = OnEventsAdded sched acc"
  proof (cases "(validate sm \<noteq> None \<or> rejected sm \<noteq> {}) \<and> as \<noteq> []")
    case True
    then obtain acc where r: "receiveAdded sm as = (sm', out, acc)"
      "sched' = (if acc \<noteq> [] then OnEventsAdded sched acc else sched)"
      using assms(1) by (auto simp: stepAdded_def split: prod.splits)
    moreover have "a \<in> set acc" by (rule receiveAdded_accepts [OF r(1) assms(3,4)])
    ultimately show ?thesis using receiveAdded_excl [OF r(1)] by (intro that [of acc]) auto
  next
    case False
    with assms(1,3) show ?thesis by (intro that [of as]) (auto simp: stepAdded_def split: if_splits)
  qed
  then show ?thesis using keys_added [OF assms(2), of acc] assms(5) added_entry [of _ sched acc] by blast
qed

lemma Tick_queues:
  assumes "Tick sm now as cs sched = (sm', sched', out)" "sched_inv sched" "distinct (map MRID as)"
    and "a \<in> set as" "MRID a \<notin> rejected sm'" "Interval a = Some iv" "now < earliestStart a iv"
    and "MRID a \<notin> keys sched" "MRID a \<notin> MRID ` set cs"
  shows "MRID a \<in> keys sched'"
proof -
  from assms(1) obtain sm1 sched1 o1 sm2 sched2 o2 sm3 o3 sm4 o4 o5 where
    t: "stepAdded sm sched as = (sm1, sched1, o1)" "stepCancelled sm1 sched1 cs = (sm2, sched2, o2)"
      "stepComplete sm2 now = (sm3, o3)" "stepPop sm3 sched2 now = (sm4, sched', o4)"
      "stepObserve sm4 sched' = (sm', o5)" "out = o1 @ o2 @ o3 @ o4 @ o5"
    by (rule Tick_steps)
  have i1: "sched_inv sched1" by (rule stepAdded_ok(3) [OF t(1) assms(2)])
  have i2: "sched_inv sched2" using stepCancelled_sched [OF t(2)] i1 by (auto intro: inv_intros)
  have s': "sched' = snd (PopExpired sched2 now)"
    using t(4) by (auto simp: stepPop_def Let_def split: prod.splits list.splits)
  have "sched_inv sched'" unfolding s' by (rule sched_inv_popped [OF i2])
  then have "rejected sm' = rejected sm1"
    using stepCancelled_active(2) [OF t(2)] stepComplete_active [OF t(3)] stepPop_active(2) [OF t(4) i2]
      stepObserve_active [OF t(5)] by simp
  then obtain e where e: "e \<in> set (queue sched1)" "seMRID e = MRID a" "e \<in> set (queue sched) \<or> (\<exists>c\<in>set as. queuedFrom c e)"
    using stepAdded_queues [OF t(1) assms(2,4)] assms(5,6) by auto
  then obtain c where c: "c \<in> set as" "queuedFrom c e" using assms(8) by force
  then have "MRID c = MRID a" using e(2) by (simp add: queuedFrom_def)
  then have "c = a" using c(1) assms(3,4) by (auto simp: distinct_map dest: inj_onD)
  then have due: "now < FireAt e" using c(2) assms(6,7) by (auto simp: queuedFrom_def)
  have "sched2 = sched1 \<or> (\<exists>ms. set ms \<subseteq> MRID ` set cs \<and> sched2 = OnEventsCancelled sched1 ms)"
    using stepCancelled_sched [OF t(2)] by (auto intro!: exI [of _ "filter (\<lambda>m. m \<noteq> []) (map MRID cs)"])
  then have "e \<in> set (queue sched2)" using e(1,2) assms(9) sq.cancelled_set [OF i1] by auto
  then have "e \<in> set (queue sched')" using due sq.popped_rest [OF i2, of now] s' by simp
  then show ?thesis using e(2) by (metis imageI)
qed

lemma stepEvents_queues:
  assumes "loop_inv sm sched cache prev" "stepEvents sm sched now cache prev = ((sm', sched', out), cur)"
    and "map_of cur (MRID c) = Some c" "EventStatus c \<noteq> Some EventStatusCancelled" "MRID c \<notin> names prev"
    and "MRID c \<notin> rejected sm'" "Interval c = Some iv" "now < earliestStart c iv"
  shows "MRID c \<in> keys sched'"
proof -
  obtain sm1 sched1 o1 as cs o2 where p: "Reject sm (Rejected cache) sched = (sm1, sched1, o1)"
    "diffSnapshots prev (Snapshot cache) = (as, cs)" "Tick sm1 now as cs sched1 = (sm', sched', o2)"
    "cur = Snapshot cache" by (rule stepEvents_parts [OF assms(2)])
  have inv: "sm_inv sm" "sched_inv sched" "snap_ok prev" "snap_ok (Snapshot cache)" "keys sched \<subseteq> names prev"
    using assms(1) by (auto simp: loop_inv_def Snapshot_def)
  note R = Reject_ok [OF p(1) inv(1,2)]
  have "c \<in> set as"
  proof -
    have "(MRID c, c) \<in> set cur" using assms(3) by (rule map_of_SomeD)
    moreover have "map_of prev (MRID c) = None" using assms(5) by (simp add: names_map_of)
    ultimately show ?thesis using p(2,4) assms(4) by (force simp: diffSnapshots.simps)
  qed
  moreover have "MRID c \<notin> keys sched1" using R(5) inv(5) assms(5) by blast
  moreover have "MRID c \<notin> MRID ` set cs"
    using diff_cancelled(3) [OF inv(3,4) p(2)] assms(3,4) p(4) by blast
  ultimately show ?thesis
    using Tick_queues [OF p(3) R(2) diff_added(1) [OF inv(3,4) p(2)] _ assms(6-8)] by blast
qed

text \<open>A run of the examples: the list delivers \<open>demoEvent\<close> to a fresh machine.\<close>

definition demoList :: DERControlListResult where
  "demoList = \<lparr>listControls = [demoEvent], listRejected = []\<rparr>"

definition demoCache :: DERControlCache where
  "demoCache = fst (Refresh NewDERControlCache demoList)"

lemma demo_driver: "driver demoMachine (NewScheduler demoRng) demoCache []"
proof -
  have "demoMachine = initialMachine None [] None"
    by (simp add: demoMachine_def initialMachine_def NewStateMachine_def OnTransition_def SetValidator_def)
  then show ?thesis unfolding demoCache_def by (metis driver.begin_ driver.refresh)
qed

text \<open>C2: In every run of the driver, whatever lists arrive in whatever order, the transitions of one
  step form an unbroken trail along the edges of the documented lifecycle (plus the withdrawal of an
  event its server made undecodable); at most one event starts; no event is still running at or after
  its end; nothing that has come due is left in the queue; and the machine rests only in DEFAULT,
  EVENT_RECEIVED or EVENT_STARTED, with an active control exactly outside DEFAULT.\<close>

theorem step_follows_lifecycle:
  assumes "driver sm sched cache prev" "stepEvents sm sched now cache prev = ((sm', sched', out), cur)"
  shows "trail lifecycleOrWithdrawal (state sm) out (state sm') \<and> starts out \<le> 1 \<and>
    \<not> (state sm' = StateEventStarted \<and> overdue sm' now) \<and>
    (\<forall>e\<in>set (queue sched'). now < FireAt e) \<and>
    state sm' \<in> {StateDefault, StateEventReceived, StateEventStarted} \<and>
    (activeDERCtrl sm' = None \<longleftrightarrow> state sm' = StateDefault)"
proof -
  obtain sm1 sched1 o1 as cs o2 where p: "Reject sm (Rejected cache) sched = (sm1, sched1, o1)"
    "diffSnapshots prev (Snapshot cache) = (as, cs)" "Tick sm1 now as cs sched1 = (sm', sched', o2)"
    "out = o1 @ o2" by (rule stepEvents_parts [OF assms(2)])
  have inv: "sm_inv sm" "sched_inv sched" using driver_loop_inv [OF assms(1)] by (auto simp: loop_inv_def)
  note R = Reject_ok [OF p(1) inv]
  note T = Tick_ok [OF p(3) R(2,1)]
  have "trail lifecycleOrWithdrawal (state sm) o1 (state sm1)" "trail lifecycleOrWithdrawal (state sm1) o2 (state sm')"
    using R(6) T(3) by (auto elim: trail_mono simp: lifecycleOrWithdrawal_def)
  then have "trail lifecycleOrWithdrawal (state sm) out (state sm')" unfolding p(4) by (rule trail_append)
  moreover have "starts o1 = 0" using trail_withdrawal_no_start [OF R(6)] by (auto simp: starts_def filter_empty_conv)
  then have "starts out \<le> 1" using Tick_starts [OF p(3)] p(4) by simp
  moreover note Tick_future [OF p(3) R(2,1)]
  moreover have "state sm' \<in> {StateDefault, StateEventReceived, StateEventStarted} \<and>
    (activeDERCtrl sm' = None \<longleftrightarrow> state sm' = StateDefault)"
    using T(1) by (elim sm_inv_cases) auto
  ultimately show ?thesis using T(4) by blast
qed

theorem step_follows_lifecycle_witness:
  "\<exists>sm' sched' out cur. stepEvents demoMachine (NewScheduler demoRng) 0 demoCache [] = ((sm', sched', out), cur) \<and>
     trail lifecycleOrWithdrawal StateDefault out (state sm')"
proof -
  obtain sm' sched' out cur where s: "stepEvents demoMachine (NewScheduler demoRng) 0 demoCache [] =
    ((sm', sched', out), cur)" by (metis prod.exhaust)
  have "state demoMachine = StateDefault" by (simp add: demoMachine_def NewStateMachine_def)
  with step_follows_lifecycle [OF demo_driver s] s show ?thesis by auto
qed

text \<open>C3: In every run, an mRID that was ever refused stays refused: it is never queued, never active,
  and no later step starts it; and a step takes in every refusal the list carries that is not itself a
  cancellation.\<close>

theorem rejected_never_runs:
  assumes "driver sm sched cache prev" "stepEvents sm sched now cache prev = ((sm', sched', out), cur)"
  shows "rejected sm \<union> {MRID i |i. i \<in> set (Rejected cache) \<and> MRID i \<noteq> [] \<and>
      EventStatus i \<noteq> Some EventStatusCancelled} \<subseteq> rejected sm' \<and>
    rejected sm' \<inter> (seMRID ` set (queue sched') \<union> activeSet sm') = {} \<and>
    rejected sm \<inter> {tmRID t |t. t \<in> set out \<and> tnext t = StateEventStarted} = {}"
proof -
  obtain sm1 sched1 o1 as cs o2 where p: "Reject sm (Rejected cache) sched = (sm1, sched1, o1)"
    "diffSnapshots prev (Snapshot cache) = (as, cs)" "Tick sm1 now as cs sched1 = (sm', sched', o2)"
    "out = o1 @ o2" by (rule stepEvents_parts [OF assms(2)])
  have inv: "loop_inv sm sched cache prev" by (rule driver_loop_inv [OF assms(1)])
  then have i: "sm_inv sm" "sched_inv sched" by (auto simp: loop_inv_def)
  note R = Reject_ok [OF p(1) i]
  have "rejected sm1 \<subseteq> rejected sm'" by (rule Tick_rejected_mono [OF p(3) R(2)])
  moreover have "excluded sm' sched'" using loop_inv_stepEvents(1) [OF inv assms(2)] by (simp add: loop_inv_def)
  ultimately show ?thesis
    using R(8) loop_inv_stepEvents(2) [OF inv assms(2)] by (auto simp: excluded_iff)
qed

theorem rejected_never_runs_witness:
  "\<exists>sm' sched' out cur. stepEvents demoMachine (NewScheduler demoRng) 0 demoCache [] = ((sm', sched', out), cur) \<and>
     rejected sm' \<inter> activeSet sm' = {}"
proof -
  obtain sm' sched' out cur where s: "stepEvents demoMachine (NewScheduler demoRng) 0 demoCache [] =
    ((sm', sched', out), cur)" by (metis prod.exhaust)
  from rejected_never_runs [OF demo_driver s] s show ?thesis by (metis Int_Un_distrib Un_empty)
qed



text \<open>A program switch leaves nothing of the old program running: the tick that cancels every
  control of the last snapshot brings the machine back to DEFAULT, and every later step of the fresh queue and cache is again a run of the driver.\<close>

theorem switch_reverts:
  assumes "driver sm sched cache prev"
    and "Tick sm now [] (snd (diffSnapshots prev [])) sched = (sm', sched', out)"
  shows "state sm' = StateDefault \<and> activeDERCtrl sm' = None \<and> trail lifecycle (state sm) out StateDefault \<and>
    driver sm' (NewScheduler r) NewDERControlCache []"
proof -
  have inv: "loop_inv sm sched cache prev" by (rule driver_loop_inv [OF assms(1)])
  then have i: "sm_inv sm" "sched_inv sched" by (auto simp: loop_inv_def)
  note S = loop_inv_switch [OF inv assms(2)]
  have "sm_inv sm'" using S(1) by (simp add: loop_inv_def)
  then have "activeDERCtrl sm' = None" using S(2) by (simp add: sm_inv_def)
  with S(2) Tick_ok(3) [OF assms(2) i(2,1)] driver.switch [OF assms] show ?thesis by simp
qed

theorem switch_reverts_witness:
  "\<exists>sm' sched' out. Tick demoMachine 0 [] (snd (diffSnapshots [] [])) (NewScheduler demoRng) = (sm', sched', out) \<and>
     state sm' = StateDefault"
proof -
  obtain sm' sched' out where t: "Tick demoMachine 0 [] (snd (diffSnapshots [] [])) (NewScheduler demoRng) =
    (sm', sched', out)" by (metis prod_cases3)
  from switch_reverts [OF demo_driver t] t show ?thesis by blast
qed

end
