(* ===== verification/Types.thy ===== *)
theory Types
  imports Sep2
begin

text \<open>
  \<open>internal/inverter/types.go\<close>: the nameplate of the simulated inverter, the grid state, the
  control modes and the outputs the control functions exchange.
\<close>

record Nameplate =
  RatedW :: f64
  RatedVA :: f64
  RatedVAr :: f64
  NominalV :: f64
  NominalHz :: f64

text \<open>
  The package variable \<open>Rating\<close> is a parameter \<open>rt\<close> of the functions that read it, since
  \<open>applyNameplate\<close> of \<open>cmd/inverterclient/simmode.go\<close> overwrites it from the sim config.
\<close>

definition defaultRating :: Nameplate where
  "defaultRating = \<lparr>RatedW = 10000, RatedVA = 11100, RatedVAr = 4400, NominalV = 240, NominalHz = 60\<rparr>"

definition applyNameplate :: "f64 \<Rightarrow> Nameplate \<Rightarrow> Nameplate" where
  "applyNameplate ratedW rt =
     rt\<lparr>RatedW := ratedW, RatedVA := ratedW * 111 div 100, RatedVAr := ratedW * 44 div 100\<rparr>"

text \<open>A nameplate of finite, non-negative powers, as the built-in one and every configured one is.\<close>

definition rating_ok :: "Nameplate \<Rightarrow> real \<Rightarrow> real \<Rightarrow> real \<Rightarrow> bool" where
  "rating_ok rt w va var \<longleftrightarrow> RatedW rt = Fin w \<and> RatedVA rt = Fin va \<and> RatedVAr rt = Fin var \<and>
     0 \<le> w \<and> 0 \<le> va \<and> 0 \<le> var"

lemma rating_ok_default: "rating_ok defaultRating 10000 11100 4400"
  by (simp add: rating_ok_def defaultRating_def)

lemma rating_ok_applyNameplate:
  "0 \<le> w \<Longrightarrow> rating_ok (applyNameplate (Fin w) rt) w (w * 111 / 100) (w * 44 / 100)"
  by (simp add: rating_ok_def applyNameplate_def)

record GridState =
  VoltsPU :: f64
  FreqHz :: f64
  Time :: time

datatype ControlMode =
    ModeConstantPF
  | ModeVoltVar
  | ModeWattVar
  | ModeConstantQ
  | ModeVoltWatt
  | ModeFreqDroop
  | ModeDisconnected
  | ModeTripped
  | ModeEnterService

fun modeName :: "ControlMode \<Rightarrow> string" where
  "modeName ModeConstantPF = ''ConstantPF''"
| "modeName ModeVoltVar = ''VoltVar''"
| "modeName ModeWattVar = ''WattVar''"
| "modeName ModeConstantQ = ''ConstantQ''"
| "modeName ModeVoltWatt = ''VoltWatt''"
| "modeName ModeFreqDroop = ''FreqDroop''"
| "modeName ModeDisconnected = ''Disconnected''"
| "modeName ModeTripped = ''Tripped''"
| "modeName ModeEnterService = ''EnterService''"

record InverterState =
  isActivePowerW :: f64
  isReactivePowerVAr :: f64
  PowerFactor :: f64
  isVoltsPU :: f64
  isFreqHz :: f64
  isConnected :: bool
  isEnergized :: bool
  isMode :: ControlMode
  isTime :: time

record ControlOutputs =
  ActivePowerW :: f64
  ReactivePowerVAr :: f64
  Connected :: bool
  Energized :: bool
  Mode :: ControlMode
  Refused :: "ctlError option"

text \<open>The zero value of the struct, which a composite literal with few fields starts from.\<close>

definition zeroOutputs :: ControlOutputs where
  "zeroOutputs = \<lparr>ActivePowerW = 0, ReactivePowerVAr = 0, Connected = False, Energized = False,
     Mode = ModeConstantPF, Refused = None\<rparr>"

record CurvePoint =
  X :: f64
  Y :: f64

abbreviation curvePt :: "real \<Rightarrow> real \<Rightarrow> CurvePoint" where
  "curvePt x y \<equiv> \<lparr>X = Fin x, Y = Fin y\<rparr>"

end
