(* ===== verification/RideThrough.thy ===== *)
theory RideThrough
  imports Types
begin

text \<open>
  \<open>internal/inverter/ridethrough.go\<close>: the IEEE 1547 trip tables, the enter-service criteria and
  the ride-through evaluator. Durations are nanoseconds.
\<close>

section \<open>Definitions\<close>

datatype RideThroughState = RTNormal | RTRidingThrough | RTTripped | RTWaitReconnect

record RideThroughResult =
  rtState :: RideThroughState
  ShouldTrip :: bool
  CanReconnect :: bool

definition EnterServiceVMin :: f64 where "EnterServiceVMin = Fin 0.917"
definition EnterServiceVMax :: f64 where "EnterServiceVMax = Fin 1.05"
definition EnterServiceFMin :: f64 where "EnterServiceFMin = Fin 59.5"
definition EnterServiceFMax :: f64 where "EnterServiceFMax = Fin 60.1"

definition ReconnectDelay :: duration where
  "ReconnectDelay = 300000000000"

definition CheckEnterService :: "GridState \<Rightarrow> bool" where
  "CheckEnterService grid \<longleftrightarrow> EnterServiceVMin \<le> VoltsPU grid \<and> VoltsPU grid \<le> EnterServiceVMax \<and>
     EnterServiceFMin \<le> FreqHz grid \<and> FreqHz grid \<le> EnterServiceFMax"

definition CheckVoltageTrip :: "f64 \<Rightarrow> duration \<Rightarrow> bool" where
  "CheckVoltageTrip voltsPU d =
     (if voltsPU < Fin 0.50 then 160000000 \<le> d
      else if voltsPU < Fin 0.70 then 10000000000 \<le> d
      else if voltsPU < Fin 0.88 then 20000000000 \<le> d
      else if Fin 1.20 < voltsPU then 160000000 \<le> d
      else if Fin 1.10 < voltsPU then 12000000000 \<le> d
      else False)"

definition CheckFrequencyTrip :: "f64 \<Rightarrow> duration \<Rightarrow> bool" where
  "CheckFrequencyTrip freqHz d =
     (if freqHz < Fin 57.0 then 160000000 \<le> d
      else if freqHz < Fin 59.0 then 300000000000 \<le> d
      else if Fin 62.0 < freqHz then 160000000 \<le> d
      else if Fin 60.5 < freqHz then 300000000000 \<le> d
      else False)"

definition isNormal :: "GridState \<Rightarrow> bool" where
  "isNormal grid \<longleftrightarrow> Fin 0.88 \<le> VoltsPU grid \<and> VoltsPU grid \<le> Fin 1.10 \<and>
     Fin 59.0 \<le> FreqHz grid \<and> FreqHz grid \<le> Fin 60.5"

definition rtResult :: "RideThroughState \<Rightarrow> bool \<Rightarrow> bool \<Rightarrow> RideThroughResult" where
  "rtResult s trip can = \<lparr>rtState = s, ShouldTrip = trip, CanReconnect = can\<rparr>"

definition EvaluateRideThrough :: "GridState \<Rightarrow> duration \<Rightarrow> RideThroughState \<Rightarrow> RideThroughResult" where
  "EvaluateRideThrough grid abnormal currentState =
     (let riding =
        (if isNormal grid then rtResult RTNormal False False
         else if CheckVoltageTrip (VoltsPU grid) abnormal \<or> CheckFrequencyTrip (FreqHz grid) abnormal
           then rtResult RTTripped True False
         else rtResult RTRidingThrough False False)
      in case currentState of
           RTNormal \<Rightarrow> riding
         | RTRidingThrough \<Rightarrow> riding
         | RTTripped \<Rightarrow>
             if isNormal grid \<and> ReconnectDelay \<le> abnormal then rtResult RTWaitReconnect False True
             else rtResult RTTripped False False
         | RTWaitReconnect \<Rightarrow>
             if CheckEnterService grid then rtResult RTNormal False True
             else rtResult RTWaitReconnect False False)"

section \<open>Runs of the evaluator\<close>

fun runRT :: "RideThroughState \<Rightarrow> (GridState \<times> duration) list \<Rightarrow> RideThroughState" where
  "runRT s [] = s"
| "runRT s ((g, d) # ins) = runRT (rtState (EvaluateRideThrough g d s)) ins"

lemmas rt_defs = EvaluateRideThrough_def rtResult_def Let_def

lemma isNormal_no_trip:
  "isNormal g \<Longrightarrow> \<not> CheckVoltageTrip (VoltsPU g) d \<and> \<not> CheckFrequencyTrip (FreqHz g) d"
  by (cases "VoltsPU g"; cases "FreqHz g") (auto simp: isNormal_def CheckVoltageTrip_def CheckFrequencyTrip_def)

lemma enter_service_normal: "CheckEnterService g \<Longrightarrow> isNormal g"
  by (cases "VoltsPU g"; cases "FreqHz g")
    (auto simp: isNormal_def CheckEnterService_def EnterServiceVMin_def EnterServiceVMax_def
      EnterServiceFMin_def EnterServiceFMax_def)

text \<open>Leaving the tripped state takes one input for each of the two steps back.\<close>

lemma from_tripped:
  "runRT RTTripped ins \<notin> {RTTripped, RTWaitReconnect} \<Longrightarrow>
     \<exists>pre g d mid g' d' post. ins = pre @ (g, d) # mid @ (g', d') # post \<and>
       isNormal g \<and> ReconnectDelay \<le> d \<and> CheckEnterService g'"
  and from_wait:
  "runRT RTWaitReconnect ins \<noteq> RTWaitReconnect \<Longrightarrow>
     \<exists>mid g' d' post. ins = mid @ (g', d') # post \<and> CheckEnterService g'"
proof -
  have wait: "runRT RTWaitReconnect ins \<noteq> RTWaitReconnect \<Longrightarrow>
     \<exists>mid g' d' post. ins = mid @ (g', d') # post \<and> CheckEnterService g'" for ins
  proof (induction ins)
    case Nil
    then show ?case by simp
  next
    case (Cons i ins)
    obtain g d where i: "i = (g, d)" by fastforce
    show ?case
    proof (cases "CheckEnterService g")
      case True
      then show ?thesis using i by (intro exI [of _ "[]"]) auto
    next
      case False
      then have "runRT RTWaitReconnect ins \<noteq> RTWaitReconnect" using Cons.prems i by (simp add: rt_defs)
      from Cons.IH [OF this] show ?thesis by (metis append_Cons)
    qed
  qed
  then show "runRT RTWaitReconnect ins \<noteq> RTWaitReconnect \<Longrightarrow>
     \<exists>mid g' d' post. ins = mid @ (g', d') # post \<and> CheckEnterService g'" .
  show "runRT RTTripped ins \<notin> {RTTripped, RTWaitReconnect} \<Longrightarrow>
     \<exists>pre g d mid g' d' post. ins = pre @ (g, d) # mid @ (g', d') # post \<and>
       isNormal g \<and> ReconnectDelay \<le> d \<and> CheckEnterService g'"
  proof (induction ins)
    case Nil
    then show ?case by simp
  next
    case (Cons i ins)
    obtain g d where i: "i = (g, d)" by fastforce
    show ?case
    proof (cases "isNormal g \<and> ReconnectDelay \<le> d")
      case True
      then have "runRT RTWaitReconnect ins \<noteq> RTWaitReconnect" using Cons.prems i by (simp add: rt_defs)
      from wait [OF this] show ?thesis using True i by (metis append_Nil append_Cons)
    next
      case False
      then have "rtState (EvaluateRideThrough g d RTTripped) = RTTripped" by (auto simp: rt_defs)
      then have "runRT RTTripped ins \<notin> {RTTripped, RTWaitReconnect}" using Cons.prems i by simp
      from Cons.IH [OF this] show ?thesis by (metis append_Cons)
    qed
  qed
qed

section \<open>Properties\<close>

text \<open>The trip tables: inside the normal range nothing ever trips, and the enter-service range lies
  inside it; a longer disturbance or a voltage further out trips whenever the milder one does; and a
  reading that is not a number never trips, however long it lasts.\<close>

theorem trip_tables:
  "(isNormal g \<longrightarrow> \<not> CheckVoltageTrip (VoltsPU g) d \<and> \<not> CheckFrequencyTrip (FreqHz g) d) \<and>
   (CheckEnterService g \<longrightarrow> isNormal g) \<and>
   (CheckVoltageTrip (Fin v) d \<and> d \<le> d' \<and> (v' \<le> v \<and> v < 0.88 \<or> v \<le> v' \<and> 1.10 < v) \<longrightarrow> CheckVoltageTrip (Fin v') d') \<and>
   (CheckFrequencyTrip (Fin f) d \<and> d \<le> d' \<and> (f' \<le> f \<and> f < 59 \<or> f \<le> f' \<and> 60.5 < f) \<longrightarrow> CheckFrequencyTrip (Fin f') d') \<and>
   \<not> CheckVoltageTrip NaN d \<and> \<not> CheckFrequencyTrip NaN d"
proof (intro conjI impI)
  show "isNormal g \<Longrightarrow> \<not> CheckVoltageTrip (VoltsPU g) d" "isNormal g \<Longrightarrow> \<not> CheckFrequencyTrip (FreqHz g) d"
    using isNormal_no_trip by blast+
  show "CheckEnterService g \<Longrightarrow> isNormal g" by (rule enter_service_normal)
  show "CheckVoltageTrip (Fin v) d \<and> d \<le> d' \<and> (v' \<le> v \<and> v < 0.88 \<or> v \<le> v' \<and> 1.10 < v) \<Longrightarrow> CheckVoltageTrip (Fin v') d'"
    by (auto simp: CheckVoltageTrip_def split: if_splits)
  show "CheckFrequencyTrip (Fin f) d \<and> d \<le> d' \<and> (f' \<le> f \<and> f < 59 \<or> f \<le> f' \<and> 60.5 < f) \<Longrightarrow> CheckFrequencyTrip (Fin f') d'"
    by (auto simp: CheckFrequencyTrip_def split: if_splits)
qed (simp_all add: CheckVoltageTrip_def CheckFrequencyTrip_def)

theorem trip_tables_witness:
  "\<not> CheckVoltageTrip (Fin 1) 1000000000000 \<and> CheckVoltageTrip (Fin 0.3) 200000000"
proof -
  let ?g = "\<lparr>VoltsPU = Fin 1, FreqHz = Fin 60, Time = 0\<rparr>"
  have "isNormal ?g" by (simp add: isNormal_def)
  then have "\<not> CheckVoltageTrip (Fin 1) 1000000000000" using trip_tables [of ?g 1000000000000] by simp
  moreover have "CheckVoltageTrip (Fin 0.45) 160000000" by (simp add: CheckVoltageTrip_def)
  then have "CheckVoltageTrip (Fin 0.3) 200000000" using trip_tables [of ?g 160000000 "0.45" 200000000 "0.3"] by simp
  ultimately show ?thesis by blast
qed

text \<open>Once tripped, the inverter is back in service only after a normal reading at least 300 seconds
  into the wait and, at a later reading, the enter-service criteria; on every run of readings and
  durations there is no shorter way out of the tripped state.\<close>

theorem reconnect_needs_delay:
  assumes "runRT RTTripped ins = s" "s = RTNormal \<or> s = RTRidingThrough"
  shows "\<exists>pre g d mid g' d' post. ins = pre @ (g, d) # mid @ (g', d') # post \<and>
    isNormal g \<and> 300000000000 \<le> d \<and> CheckEnterService g' \<and> isNormal g'"
proof -
  have "runRT RTTripped ins \<notin> {RTTripped, RTWaitReconnect}" using assms by auto
  from from_tripped [OF this] enter_service_normal show ?thesis unfolding ReconnectDelay_def by metis
qed

theorem reconnect_needs_delay_witness:
  "\<exists>ins g. runRT RTTripped ins = RTNormal \<and> length ins = 2 \<and> isNormal g"
proof -
  let ?g = "\<lparr>VoltsPU = Fin 1, FreqHz = Fin 60, Time = 0\<rparr>"
  let ?ins = "[(?g, 300000000000), (?g, 0)]"
  have n: "isNormal ?g" "CheckEnterService ?g"
    by (simp_all add: isNormal_def CheckEnterService_def EnterServiceVMin_def EnterServiceVMax_def
        EnterServiceFMin_def EnterServiceFMax_def)
  then have r: "runRT RTTripped ?ins = RTNormal" by (simp add: rt_defs ReconnectDelay_def)
  from reconnect_needs_delay [OF r] obtain g where "isNormal g" by blast
  with r show ?thesis by (intro exI [of _ ?ins]) auto
qed

end
