(* ===== verification/Limiter.thy ===== *)
theory Limiter
  imports Prelude
begin

text \<open>
  The interface of a limiter that lets each key pass at most once per window, with what a client
  may rely on over any run of calls, and the LogEvent limiter of
  \<open>internal/inverter/log_event_ratelimiter.go\<close> that implements it. The guard's refusal log is the
  second implementation (theory \<open>Guard\<close>).
\<close>

section \<open>The interface\<close>

locale rate_limiter =
  fixes allow :: "'s \<Rightarrow> time \<Rightarrow> 'k \<Rightarrow> bool \<times> 's"
    and lastOf :: "'s \<Rightarrow> 'k \<Rightarrow> time option"
    and windowOf :: "'s \<Rightarrow> duration"
    and ok :: "'s \<Rightarrow> bool"
  assumes allow_old: "ok s \<Longrightarrow> fst (allow s t k) \<Longrightarrow> lastOf s k = Some l \<Longrightarrow> windowOf s \<le> t - l"
    and allow_records: "ok s \<Longrightarrow> fst (allow s t k) \<Longrightarrow> lastOf (snd (allow s t k)) k = Some t"
    and allow_keeps: "ok s \<Longrightarrow> lastOf s k' = Some l \<Longrightarrow> l \<le> t \<Longrightarrow>
      (\<exists>l'. lastOf (snd (allow s t k)) k' = Some l' \<and> l \<le> l') \<or>
      (lastOf (snd (allow s t k)) k' = None \<and> windowOf s \<le> t - l)"
    and allow_le: "lastOf (snd (allow s t k)) k' = Some l \<Longrightarrow> lastOf s k' = Some l \<or> l = t"
    and allow_window: "windowOf (snd (allow s t k)) = windowOf s"
    and ok_step: "ok s \<Longrightarrow> ok (snd (allow s t k))"
    and window_nonneg: "ok s \<Longrightarrow> 0 \<le> windowOf s"
begin

text \<open>The times at which a key passed, over a run of calls.\<close>

fun run :: "'s \<Rightarrow> (time \<times> 'k) list \<Rightarrow> (time \<times> 'k) list" where
  "run s [] = []"
| "run s ((t, k) # calls) = (let (pass, s') = allow s t k in (if pass then [(t, k)] else []) @ run s' calls)"

lemma run_step:
  "run s ((t, k) # calls) =
     (if fst (allow s t k) then [(t, k)] else []) @ run (snd (allow s t k)) calls"
  by (cases "allow s t k") simp

text \<open>What is left of a pass at \<open>t0\<close>: the entry is still there, or the window is over.\<close>

definition remembers :: "'s \<Rightarrow> 'k \<Rightarrow> time \<Rightarrow> time \<Rightarrow> bool" where
  "remembers s k t0 now \<longleftrightarrow>
     (\<exists>l. lastOf s k = Some l \<and> t0 \<le> l \<and> l \<le> now) \<or> (lastOf s k = None \<and> windowOf s \<le> now - t0)"

lemma remembers_step:
  assumes "remembers s k t0 now" "now \<le> t" "ok s"
  shows "remembers (snd (allow s t k')) k t0 t"
proof (cases "lastOf s k")
  case None
  then have w: "windowOf s \<le> now - t0" using assms(1) by (simp add: remembers_def)
  show ?thesis
  proof (cases "lastOf (snd (allow s t k')) k")
    case None
    with w assms(2) show ?thesis by (simp add: remembers_def allow_window)
  next
    case (Some l)
    have "l = t" using allow_le [OF Some] \<open>lastOf s k = None\<close> by simp
    moreover have "t0 \<le> t" using w assms(2) window_nonneg [OF assms(3)] by linarith
    ultimately show ?thesis using Some by (simp add: remembers_def)
  qed
next
  case (Some l)
  then have l: "t0 \<le> l" "l \<le> now" using assms(1) by (auto simp: remembers_def)
  then have "l \<le> t" using assms(2) by simp
  from allow_keeps [OF assms(3) Some this, of k'] show ?thesis
  proof (elim disjE exE conjE)
    fix l' assume l': "lastOf (snd (allow s t k')) k = Some l'" "l \<le> l'"
    then have "l' = l \<or> l' = t" using allow_le [OF l'(1)] Some by auto
    with l' l \<open>l \<le> t\<close> show ?thesis by (auto simp: remembers_def)
  next
    assume "lastOf (snd (allow s t k')) k = None" "windowOf s \<le> t - l"
    then show ?thesis using l by (auto simp: remembers_def allow_window)
  qed
qed

lemma run_spaced:
  assumes "remembers s k t0 now" "sorted (now # map fst calls)" "(t, k) \<in> set (run s calls)" "ok s"
  shows "windowOf s \<le> t - t0"
  using assms
proof (induction calls arbitrary: s now)
  case Nil
  then show ?case by simp
next
  case (Cons c calls)
  obtain t1 k1 where c: "c = (t1, k1)" by fastforce
  have le: "now \<le> t1" "sorted (t1 # map fst calls)" using Cons.prems(2) c by auto
  show ?case
  proof (cases "(t, k) = (t1, k1) \<and> fst (allow s t1 k1)")
    case True
    show ?thesis
    proof (cases "lastOf s k")
      case None
      then show ?thesis using Cons.prems(1) True le by (auto simp: remembers_def)
    next
      case (Some l)
      then have "windowOf s \<le> t1 - l" using allow_old Cons.prems(4) True by blast
      moreover have "t0 \<le> l" using Cons.prems(1) Some by (auto simp: remembers_def)
      ultimately show ?thesis using True by simp
    qed
  next
    case False
    then have "(t, k) \<in> set (run (snd (allow s t1 k1)) calls)"
      using Cons.prems(3) c unfolding c run_step by (auto split: if_splits)
    from Cons.IH [OF remembers_step [OF Cons.prems(1) le(1) Cons.prems(4)] le(2) this ok_step [OF Cons.prems(4)]] show ?thesis
      by (simp add: allow_window)
  qed
qed

text \<open>Two passes of one key are at least a window apart.\<close>

lemma passes_spaced:
  assumes "sorted (map fst calls)" "i < j" "j < length (run s calls)"
    and "run s calls ! i = (t1, k)" "run s calls ! j = (t2, k)" "ok s"
  shows "windowOf s \<le> t2 - t1"
  using assms
proof (induction calls arbitrary: s i j)
  case Nil
  then show ?case by simp
next
  case (Cons c calls)
  obtain t k' where c: "c = (t, k')" by fastforce
  let ?s = "snd (allow s t k')"
  have sorted: "sorted (map fst calls)" using Cons.prems(1) by simp
  have ok: "ok ?s" by (rule ok_step [OF Cons.prems(6)])
  show ?case
  proof (cases "fst (allow s t k')")
    case False
    then have "run s (c # calls) = run ?s calls" using c by (simp add: run_step del: run.simps)
    with Cons.IH [OF sorted, of i j ?s] Cons.prems ok show ?thesis by (simp add: allow_window)
  next
    case True
    then have r: "run s (c # calls) = (t, k') # run ?s calls" using c by (simp add: run_step del: run.simps)
    obtain j' where j: "j = Suc j'" using Cons.prems(2) by (cases j) auto
    show ?thesis
    proof (cases i)
      case 0
      then have e: "t1 = t" "k' = k" using Cons.prems(4) r by auto
      have "lastOf ?s k = Some t" using allow_records [OF Cons.prems(6) True] e by simp
      then have "remembers ?s k t1 t" using e by (simp add: remembers_def)
      moreover have "(t2, k) \<in> set (run ?s calls)"
        using Cons.prems(3,5) r j by (auto simp: in_set_conv_nth)
      moreover have "sorted (t # map fst calls)" using Cons.prems(1) c by simp
      ultimately show ?thesis using run_spaced [of ?s k t1 t calls t2] ok by (simp add: allow_window)
    next
      case (Suc i')
      with Cons.IH [OF sorted, of i' j' ?s] Cons.prems r j ok show ?thesis by (simp add: allow_window)
    qed
  qed
qed

end

section \<open>The LogEvent limiter\<close>

record PerCodeLogEventLimiter =
  window :: duration
  lastEmit :: "8 word \<rightharpoonup> time"

definition DefaultLogEventWindow :: duration where
  "DefaultLogEventWindow = 60000000000"

definition NewPerCodeLogEventLimiter :: "duration \<Rightarrow> PerCodeLogEventLimiter" where
  "NewPerCodeLogEventLimiter w = \<lparr>window = (if w \<le> 0 then DefaultLogEventWindow else w), lastEmit = Map.empty\<rparr>"

text \<open>\<open>now\<close> is the reading of the limiter's clock.\<close>

definition Allow :: "PerCodeLogEventLimiter \<Rightarrow> time \<Rightarrow> 8 word \<Rightarrow> bool \<times> PerCodeLogEventLimiter" where
  "Allow l now code =
     (case lastEmit l code of
        Some prev \<Rightarrow>
          if timeSub now prev < window l then (False, l)
          else (True, l\<lparr>lastEmit := (lastEmit l)(code \<mapsto> now)\<rparr>)
      | None \<Rightarrow> (True, l\<lparr>lastEmit := (lastEmit l)(code \<mapsto> now)\<rparr>))"

text \<open>The window as an \<open>int64\<close>, so that the saturation of the clock difference does not matter.\<close>

definition limWindow :: "PerCodeLogEventLimiter \<Rightarrow> duration" where
  "limWindow l = min (window l) maxInt64"

definition limiter_ok :: "PerCodeLogEventLimiter \<Rightarrow> bool" where
  "limiter_ok l \<longleftrightarrow> 0 < window l"

lemma New_ok: "limiter_ok (NewPerCodeLogEventLimiter w)"
  by (simp add: limiter_ok_def NewPerCodeLogEventLimiter_def DefaultLogEventWindow_def)

interpretation pc: rate_limiter Allow lastEmit limWindow limiter_ok
proof
  fix s :: PerCodeLogEventLimiter and t k k' l
  have sub: "limiter_ok s \<Longrightarrow> \<not> timeSub t l' < window s \<Longrightarrow> limWindow s \<le> t - l'" for l'
    using maxInt64_def minInt64_def by (auto simp: timeSub_def limWindow_def limiter_ok_def min_def max_def split: if_splits)
  show "limiter_ok s \<Longrightarrow> fst (Allow s t k) \<Longrightarrow> lastEmit s k = Some l \<Longrightarrow> limWindow s \<le> t - l"
    by (auto simp: Allow_def intro: sub split: if_splits)
  show "fst (Allow s t k) \<Longrightarrow> lastEmit (snd (Allow s t k)) k = Some t"
    by (auto simp: Allow_def split: option.splits if_splits)
  show "lastEmit s k' = Some l \<Longrightarrow> l \<le> t \<Longrightarrow>
      (\<exists>l'. lastEmit (snd (Allow s t k)) k' = Some l' \<and> l \<le> l') \<or>
      (lastEmit (snd (Allow s t k)) k' = None \<and> limWindow s \<le> t - l)"
    by (auto simp: Allow_def split: option.split)
  show "lastEmit (snd (Allow s t k)) k' = Some l \<Longrightarrow> lastEmit s k' = Some l \<or> l = t"
    by (auto simp: Allow_def split: option.splits if_splits)
  show "limWindow (snd (Allow s t k)) = limWindow s"
    by (auto simp: Allow_def limWindow_def split: option.split)
  show "limiter_ok s \<Longrightarrow> limiter_ok (snd (Allow s t k))"
    by (auto simp: Allow_def limiter_ok_def split: option.split)
  show "limiter_ok s \<Longrightarrow> 0 \<le> limWindow s"
    by (simp add: limWindow_def limiter_ok_def maxInt64_def)
qed

text \<open>The LogEvents that pass the limiter, over the calls of \<open>PostLogEvent\<close>.\<close>

fun allowRun :: "PerCodeLogEventLimiter \<Rightarrow> (time \<times> 8 word) list \<Rightarrow> (time \<times> 8 word) list" where
  "allowRun l [] = []"
| "allowRun l ((now, code) # calls) =
     (if fst (Allow l now code) then [(now, code)] else []) @ allowRun (snd (Allow l now code)) calls"

lemma allowRun_run: "allowRun l calls = pc.run l calls"
  by (induction l calls rule: allowRun.induct) (simp_all add: pc.run_step del: pc.run.simps(2))

lemma Allow_denied: "\<not> fst (Allow l now code) \<Longrightarrow> snd (Allow l now code) = l"
  by (auto simp: Allow_def split: option.splits if_splits)

lemma limWindow_New: "0 < w \<Longrightarrow> w \<le> maxInt64 \<Longrightarrow> limWindow (NewPerCodeLogEventLimiter w) = w"
  by (simp add: limWindow_def NewPerCodeLogEventLimiter_def)

text \<open>On a clock that does not go back, two LogEvents of one code that the limiter lets pass are
  at least a window apart, whatever other calls come between; the first call of a code passes; and a
  refused call changes nothing, so a flood of refusals does not push the next pass away.\<close>

theorem log_events_spaced:
  assumes "0 < w" "w \<le> maxInt64" "sorted (map fst calls)"
    and "i < j" "j < length (allowRun (NewPerCodeLogEventLimiter w) calls)"
    and "allowRun (NewPerCodeLogEventLimiter w) calls ! i = (t1, code)"
    and "allowRun (NewPerCodeLogEventLimiter w) calls ! j = (t2, code)"
  shows "w \<le> t2 - t1 \<and> fst (Allow (NewPerCodeLogEventLimiter w) t0 c) \<and>
    (\<not> fst (Allow l now c) \<longrightarrow> snd (Allow l now c) = l)"
proof (intro conjI impI)
  show "w \<le> t2 - t1"
    using pc.passes_spaced [OF assms(3,4) assms(5-7) [unfolded allowRun_run] New_ok]
    by (simp add: limWindow_New [OF assms(1,2)])
  show "fst (Allow (NewPerCodeLogEventLimiter w) t0 c)"
    by (simp add: Allow_def NewPerCodeLogEventLimiter_def)
qed (rule Allow_denied)

theorem log_events_spaced_witness:
  "allowRun (NewPerCodeLogEventLimiter 10) [(0, 1), (4, 1), (5, 2), (12, 1)] = [(0, 1), (5, 2), (12, 1)] \<and>
   (10::int) \<le> 12 - 0"
proof -
  let ?calls = "[(0, 1), (4, 1), (5, 2), (12, 1)] :: (time \<times> 8 word) list"
  have r: "allowRun (NewPerCodeLogEventLimiter 10) ?calls = [(0, 1), (5, 2), (12, 1)]"
    by (simp add: Allow_def NewPerCodeLogEventLimiter_def timeSub_def minInt64_def maxInt64_def)
  have "(10::int) \<le> 12 - 0"
    using log_events_spaced [of 10 ?calls 0 2 0 1 12, THEN conjunct1]
    unfolding r by (simp add: maxInt64_def)
  with r show ?thesis by blast
qed

end
