(* ===== verification/Guard.thy ===== *)
theory Guard
  imports Limiter
begin

text \<open>
  The action guard of \<open>internal/inverter/guard\<close>: the closed list of what a client role may send for
  which EndDevice (\<open>guard.go\<close>), its bounded refusal log, and the transport it wraps
  (\<open>guarded.go\<close>). The set of managed devices is an interface of the guard (locale
  \<open>managed_set\<close>), interpreted on \<open>StaticManagedSet\<close>; the refusal log is the second
  implementation of \<open>rate_limiter\<close>.
\<close>

section \<open>Roles, kinds and the closed lists\<close>

type_synonym Role = string

definition RoleDER :: Role where "RoleDER = ''der''"
definition RoleAggregator :: Role where "RoleAggregator = ''aggregator''"

text \<open>\<open>None\<close> is the error that names the unknown role.\<close>

definition ParseRole :: "string \<Rightarrow> Role option" where
  "ParseRole s = (if s = RoleDER \<or> s = RoleAggregator then Some s else None)"

text \<open>\<open>KindOther n\<close> is an integer that names no action.\<close>

datatype Kind =
    KindUnclassified
  | KindEndDeviceRead
  | KindDERResourceWrite
  | KindLogEventPost
  | KindSubscriptionPost
  | KindResponsePost
  | KindMirrorPost
  | KindEndDeviceDelete
  | KindEndDeviceCreate
  | KindRegistrationRead
  | KindEndDeviceWrite
  | KindDefaultControlWrite
  | KindFlowReservationPost
  | KindFlowReservationResponsePost
  | KindFlowReservationWithdraw
  | KindOther int

fun kindName :: "Kind \<Rightarrow> string" where
  "kindName KindUnclassified = ''Unclassified''"
| "kindName KindEndDeviceRead = ''EndDeviceRead''"
| "kindName KindDERResourceWrite = ''DERResourceWrite''"
| "kindName KindLogEventPost = ''LogEventPost''"
| "kindName KindSubscriptionPost = ''SubscriptionPost''"
| "kindName KindResponsePost = ''ResponsePost''"
| "kindName KindMirrorPost = ''MirrorPost''"
| "kindName KindEndDeviceDelete = ''EndDeviceDelete''"
| "kindName KindEndDeviceCreate = ''EndDeviceCreate''"
| "kindName KindRegistrationRead = ''RegistrationRead''"
| "kindName KindEndDeviceWrite = ''EndDeviceWrite''"
| "kindName KindDefaultControlWrite = ''DefaultControlWrite''"
| "kindName KindFlowReservationPost = ''FlowReservationPost''"
| "kindName KindFlowReservationResponsePost = ''FlowReservationResponsePost''"
| "kindName KindFlowReservationWithdraw = ''FlowReservationWithdraw''"
| "kindName (KindOther n) = ''Kind('' @ itoa n @ '')''"

definition MethodGet :: string where "MethodGet = ''GET''"
definition MethodPost :: string where "MethodPost = ''POST''"
definition MethodPut :: string where "MethodPut = ''PUT''"
definition MethodDelete :: string where "MethodDelete = ''DELETE''"

text \<open>The table from a kind to its one method; a missing entry reads as the empty string.\<close>

fun kindMethod :: "Kind \<Rightarrow> string" where
  "kindMethod KindEndDeviceRead = MethodGet"
| "kindMethod KindRegistrationRead = MethodGet"
| "kindMethod KindDERResourceWrite = MethodPut"
| "kindMethod KindLogEventPost = MethodPost"
| "kindMethod KindSubscriptionPost = MethodPost"
| "kindMethod KindResponsePost = MethodPost"
| "kindMethod KindMirrorPost = MethodPost"
| "kindMethod KindEndDeviceCreate = MethodPost"
| "kindMethod KindFlowReservationPost = MethodPost"
| "kindMethod KindFlowReservationResponsePost = MethodPost"
| "kindMethod KindFlowReservationWithdraw = MethodPut"
| "kindMethod KindEndDeviceDelete = MethodDelete"
| "kindMethod KindEndDeviceWrite = MethodPut"
| "kindMethod KindDefaultControlWrite = MethodPut"
| "kindMethod _ = []"

definition derSelfKinds :: "Kind set" where
  "derSelfKinds = {KindEndDeviceRead, KindRegistrationRead, KindDERResourceWrite, KindLogEventPost,
     KindSubscriptionPost, KindResponsePost, KindMirrorPost, KindEndDeviceCreate}"

definition aggregatorSelfKinds :: "Kind set" where
  "aggregatorSelfKinds = {KindEndDeviceRead, KindRegistrationRead, KindLogEventPost,
     KindSubscriptionPost, KindFlowReservationPost, KindFlowReservationResponsePost,
     KindFlowReservationWithdraw}"

definition selfAllowed :: "Role \<Rightarrow> Kind \<Rightarrow> bool" where
  "selfAllowed role kind =
     (if role = RoleAggregator then kind \<in> aggregatorSelfKinds else kind \<in> derSelfKinds)"

definition managerKinds :: "Kind set" where
  "managerKinds = {KindEndDeviceRead, KindDERResourceWrite, KindLogEventPost, KindSubscriptionPost,
     KindResponsePost, KindMirrorPost}"

record Action =
  aKind :: Kind
  TargetLFDI :: string

section \<open>The managed set\<close>

text \<open>What the guard relies on of the set of managed devices.\<close>

locale managed_set =
  fixes isManaged :: "string \<Rightarrow> bool"
  assumes unnamed: "\<not> isManaged []"
    and fold: "equalFold a b \<Longrightarrow> isManaged a = isManaged b"

text \<open>The set fixed at construction, with the nil set as \<open>None\<close>.\<close>

type_synonym StaticManagedSet = "string set"

definition NewStaticManagedSet :: "string list \<Rightarrow> StaticManagedSet" where
  "NewStaticManagedSet lfdis = toUpper ` set (filter (\<lambda>l. l \<noteq> []) lfdis)"

definition IsManaged :: "StaticManagedSet option \<Rightarrow> string \<Rightarrow> bool" where
  "IsManaged m lfdi =
     (case m of
        None \<Rightarrow> False
      | Some lfdis \<Rightarrow> if lfdi = [] then False else toUpper lfdi \<in> lfdis)"

lemma IsManaged_New:
  "IsManaged (Some (NewStaticManagedSet ls)) l \<longleftrightarrow> l \<noteq> [] \<and> (\<exists>l'\<in>set ls. equalFold l l')"
proof -
  have "toUpper l \<in> toUpper ` {x \<in> set ls. x \<noteq> []}" if "l \<noteq> []" "l' \<in> set ls" "toUpper l = toUpper l'" for l'
    using that toUpper_Nil_iff by (metis (mono_tags, lifting) image_eqI mem_Collect_eq)
  then show ?thesis by (auto simp: IsManaged_def NewStaticManagedSet_def equalFold_def)
qed

section \<open>The guard\<close>

record RefusalError =
  reRole :: Role
  reMethod :: string
  reKind :: Kind
  reTarget :: string

text \<open>
  \<open>refusalLog\<close> tells whether \<open>WithRefusalLogger\<close> installed a logger; the lines go to the output
  of \<open>guardAllow\<close> as the errors whose text is logged. The clock's reading is an argument.
\<close>

record Guard =
  gRole :: Role
  selfLFDI :: string
  managed :: "(string \<Rightarrow> bool) option"
  allowInBandDelete :: bool
  allowInBandCreate :: bool
  refusalLog :: bool
  refusalWindow :: duration
  refusalLast :: "string \<rightharpoonup> time"

definition NewGuard :: "Role \<Rightarrow> string \<Rightarrow> (string \<Rightarrow> bool) option \<Rightarrow> (Guard \<Rightarrow> Guard) list \<Rightarrow> Guard" where
  "NewGuard role self m opts = foldl (\<lambda>g opt. opt g)
     \<lparr>gRole = role, selfLFDI = self, managed = m, allowInBandDelete = False,
      allowInBandCreate = False, refusalLog = False, refusalWindow = 0, refusalLast = Map.empty\<rparr> opts"

definition WithInBandDelete :: "Guard \<Rightarrow> Guard" where
  "WithInBandDelete g = g\<lparr>allowInBandDelete := True\<rparr>"

definition WithInBandCreate :: "Guard \<Rightarrow> Guard" where
  "WithInBandCreate g = g\<lparr>allowInBandCreate := True\<rparr>"

definition DefaultRefusalLogWindow :: duration where
  "DefaultRefusalLogWindow = 60000000000"

definition WithRefusalLogger :: "bool \<Rightarrow> duration \<Rightarrow> Guard \<Rightarrow> Guard" where
  "WithRefusalLogger haveLog w g =
     (if \<not> haveLog then g
      else g\<lparr>refusalLog := True, refusalWindow := (if w \<le> 0 then DefaultRefusalLogWindow else w),
             refusalLast := Map.empty\<rparr>)"

definition SetManagedSet :: "(string \<Rightarrow> bool) option \<Rightarrow> Guard option \<Rightarrow> Guard option" where
  "SetManagedSet m g = map_option (\<lambda>g. g\<lparr>managed := m\<rparr>) g"

definition refusalPruneFactor :: int where
  "refusalPruneFactor = 4"

definition refusalKey :: "RefusalError \<Rightarrow> string" where
  "refusalKey re = reRole re @ ''|'' @ reMethod re @ ''|'' @ kindName (reKind re) @ ''|'' @ reTarget re"

text \<open>The keys that have been quiet for \<open>refusalPruneFactor\<close> windows are dropped; the product is an \<open>int64\<close>.\<close>

definition pruneRefusals :: "duration \<Rightarrow> time \<Rightarrow> (string \<rightharpoonup> time) \<Rightarrow> (string \<rightharpoonup> time)" where
  "pruneRefusals w now m = (\<lambda>k. case m k of
      None \<Rightarrow> None
    | Some t \<Rightarrow> if wrap64 (refusalPruneFactor * w) \<le> timeSub now t then None else Some t)"

text \<open>Whether the line is due at the log's clock reading, and the guard with the map updated.\<close>

definition refusalDue :: "Guard \<Rightarrow> time \<Rightarrow> string \<Rightarrow> bool \<times> Guard" where
  "refusalDue g now key =
     (if (case refusalLast g key of Some prev \<Rightarrow> timeSub now prev < refusalWindow g | None \<Rightarrow> False)
      then (False, g)
      else (True, g\<lparr>refusalLast := pruneRefusals (refusalWindow g) now ((refusalLast g)(key \<mapsto> now))\<rparr>))"

definition logRefusal :: "Guard \<Rightarrow> time \<Rightarrow> RefusalError \<Rightarrow> Guard \<times> RefusalError list" where
  "logRefusal g now re =
     (if \<not> refusalLog g then (g, [])
      else let (due, g') = refusalDue g now (refusalKey re)
           in (g', if due then [re] else []))"

text \<open>The result is \<open>None\<close> when the action may be sent. A nil guard refuses everything.\<close>

definition guardAllow :: "Guard option \<Rightarrow> time \<Rightarrow> string \<Rightarrow> Action \<Rightarrow>
    RefusalError option \<times> Guard option \<times> RefusalError list" where
  "guardAllow gopt now meth a =
     (case gopt of
        None \<Rightarrow> (Some \<lparr>reRole = [], reMethod = meth, reKind = aKind a, reTarget = TargetLFDI a\<rparr>, None, [])
      | Some g \<Rightarrow>
          let re = \<lparr>reRole = gRole g, reMethod = meth, reKind = aKind a, reTarget = TargetLFDI a\<rparr>;
              refuse = (case logRefusal g now re of (g', out) \<Rightarrow> (Some re, Some g', out));
              allow = (None, Some g, [])
          in
            if kindMethod (aKind a) \<noteq> meth then refuse
            else if TargetLFDI a = [] \<or> equalFold (TargetLFDI a) (selfLFDI g) then
              (if selfAllowed (gRole g) (aKind a) then allow else refuse)
            else if gRole g \<noteq> RoleAggregator then refuse
            else if aKind a = KindEndDeviceCreate then
              (if allowInBandCreate g then allow else refuse)
            else if (case managed g of None \<Rightarrow> True | Some m \<Rightarrow> \<not> m (TargetLFDI a)) then refuse
            else if aKind a \<in> managerKinds then allow
            else if aKind a = KindEndDeviceDelete \<and> allowInBandDelete g then allow
            else refuse)"

section \<open>The guarded transport\<close>

text \<open>
  A request body is its \<open>ActingForLFDI\<close>, when it implements \<open>LFDIBearing\<close>, beside the rest.
  The transport is a parameter: a state transformer per verb. \<open>None\<close> in place of a body's result
  marks the error; \<open>GuardRefused\<close> and \<open>BodyMismatch\<close> are the guard's own, \<open>TransportErr\<close>
  is what the transport returned.
\<close>

record 'b Body =
  ActingForLFDI :: "string option"
  payload :: 'b

datatype 'e sendError = GuardRefused RefusalError | BodyMismatch string | TransportErr 'e

definition bodyLFDIMismatch :: "'b Body \<Rightarrow> Action \<Rightarrow> bool" where
  "bodyLFDIMismatch body a =
     (case ActingForLFDI body of None \<Rightarrow> False | Some l \<Rightarrow> l \<noteq> [] \<and> l \<noteq> TargetLFDI a)"

definition GuardedGet :: "(string \<Rightarrow> 't \<Rightarrow> ('e + 'r) \<times> 't) \<Rightarrow> Guard option \<Rightarrow> time \<Rightarrow> Action \<Rightarrow> string \<Rightarrow> 't \<Rightarrow>
    ('e sendError + 'r) \<times> 't" where
  "GuardedGet tGet g now a path t =
     (case fst (guardAllow g now MethodGet a) of
        Some re \<Rightarrow> (Inl (GuardRefused re), t)
      | None \<Rightarrow> (case tGet path t of (Inl e, t') \<Rightarrow> (Inl (TransportErr e), t') | (Inr r, t') \<Rightarrow> (Inr r, t')))"

definition GuardedPost :: "(string \<Rightarrow> 'b Body \<Rightarrow> 't \<Rightarrow> ('e + 'r) \<times> 't) \<Rightarrow> Guard option \<Rightarrow> time \<Rightarrow> Action \<Rightarrow> string \<Rightarrow>
    'b Body \<Rightarrow> 't \<Rightarrow> ('e sendError + 'r) \<times> 't" where
  "GuardedPost tPost g now a path body t =
     (case fst (guardAllow g now MethodPost a) of
        Some re \<Rightarrow> (Inl (GuardRefused re), t)
      | None \<Rightarrow>
          if bodyLFDIMismatch body a then (Inl (BodyMismatch (TargetLFDI a)), t)
          else (case tPost path body t of (Inl e, t') \<Rightarrow> (Inl (TransportErr e), t') | (Inr r, t') \<Rightarrow> (Inr r, t')))"

definition GuardedPut :: "(string \<Rightarrow> 'b Body \<Rightarrow> 't \<Rightarrow> ('e + 'r) \<times> 't) \<Rightarrow> Guard option \<Rightarrow> time \<Rightarrow> Action \<Rightarrow> string \<Rightarrow>
    'b Body \<Rightarrow> 't \<Rightarrow> ('e sendError + 'r) \<times> 't" where
  "GuardedPut tPut g now a path body t =
     (case fst (guardAllow g now MethodPut a) of
        Some re \<Rightarrow> (Inl (GuardRefused re), t)
      | None \<Rightarrow>
          if bodyLFDIMismatch body a then (Inl (BodyMismatch (TargetLFDI a)), t)
          else (case tPut path body t of (Inl e, t') \<Rightarrow> (Inl (TransportErr e), t') | (Inr r, t') \<Rightarrow> (Inr r, t')))"

section \<open>Facts about the decision\<close>

definition ownTarget :: "Guard \<Rightarrow> Action \<Rightarrow> bool" where
  "ownTarget g a \<longleftrightarrow> TargetLFDI a = [] \<or> equalFold (TargetLFDI a) (selfLFDI g)"

definition isMember :: "Guard \<Rightarrow> Action \<Rightarrow> bool" where
  "isMember g a \<longleftrightarrow> (\<exists>m. managed g = Some m \<and> m (TargetLFDI a))"

definition permits :: "Guard \<Rightarrow> string \<Rightarrow> Action \<Rightarrow> bool" where
  "permits g meth a \<longleftrightarrow> kindMethod (aKind a) = meth \<and>
     (if ownTarget g a then selfAllowed (gRole g) (aKind a)
      else gRole g = RoleAggregator \<and>
        (if aKind a = KindEndDeviceCreate then allowInBandCreate g
         else isMember g a \<and> (aKind a \<in> managerKinds \<or> aKind a = KindEndDeviceDelete \<and> allowInBandDelete g)))"

definition refusal :: "Guard \<Rightarrow> string \<Rightarrow> Action \<Rightarrow> RefusalError" where
  "refusal g meth a = \<lparr>reRole = gRole g, reMethod = meth, reKind = aKind a, reTarget = TargetLFDI a\<rparr>"

lemma guardAllow_eq:
  "guardAllow (Some g) now meth a =
     (if permits g meth a then (None, Some g, [])
      else (Some (refusal g meth a), Some (fst (logRefusal g now (refusal g meth a))),
            snd (logRefusal g now (refusal g meth a))))"
proof -
  have m: "(case managed g of None \<Rightarrow> True | Some m \<Rightarrow> \<not> m (TargetLFDI a)) \<longleftrightarrow> \<not> isMember g a"
    by (auto simp: isMember_def split: option.splits)
  note defs = guardAllow_def Let_def permits_def refusal_def ownTarget_def [symmetric] m split_def
  show ?thesis
  proof (cases "kindMethod (aKind a) = meth")
    case False
    then show ?thesis by (simp add: defs)
  next
    case k: True
    show ?thesis
    proof (cases "ownTarget g a")
      case True
      then show ?thesis using k by (simp add: defs)
    next
      case False
      then show ?thesis using k
        by (cases "gRole g = RoleAggregator"; cases "aKind a = KindEndDeviceCreate"; cases "isMember g a")
          (simp_all add: defs)
    qed
  qed
qed

lemma guardAllow_nil: "fst (guardAllow None now meth a) \<noteq> None"
  by (simp add: guardAllow_def)

lemma decide_None_iff: "fst (guardAllow (Some g) now meth a) = None \<longleftrightarrow> permits g meth a"
  by (simp add: guardAllow_eq)

text \<open>What a process may never send for another device, whatever it is configured with.\<close>

definition neverForOthers :: "Kind set" where
  "neverForOthers = {KindRegistrationRead, KindFlowReservationPost, KindFlowReservationResponsePost,
     KindFlowReservationWithdraw}"

definition neverSent :: "Kind \<Rightarrow> bool" where
  "neverSent k \<longleftrightarrow> k \<in> {KindUnclassified, KindEndDeviceWrite, KindDefaultControlWrite} \<or> (\<exists>n. k = KindOther n)"

lemmas guard_tables = selfAllowed_def aggregatorSelfKinds_def derSelfKinds_def managerKinds_def
  MethodGet_def MethodPut_def MethodPost_def MethodDelete_def

lemma selfAllowed_kinds:
  "selfAllowed r k \<Longrightarrow> \<not> neverSent k \<and> k \<noteq> KindEndDeviceDelete \<and> kindMethod k \<noteq> MethodDelete"
  by (auto simp: guard_tables neverSent_def split: if_splits)

lemma managerKinds_kinds:
  "k \<in> managerKinds \<Longrightarrow> \<not> neverSent k \<and> k \<notin> neverForOthers \<and> kindMethod k \<noteq> MethodDelete"
  by (auto simp: guard_tables neverSent_def neverForOthers_def)

text \<open>C9: The guard fails closed. Whatever it lets through goes out under the verb of its kind, is
  never an unclassified kind, a write of an EndDevice record or of a default control, and never a delete of
  the process's own record; and whatever it lets through for another device is sent by an aggregator, is
  not a registration read or a flow reservation of that device, and names a device in the managed set, the
  only exceptions being a POST that proposes a device when that is switched on; a DELETE needs the other
  switch too. A nil guard lets nothing through.\<close>

theorem guard_fails_closed:
  assumes "fst (guardAllow gopt now meth a) = None"
  shows "\<exists>g. gopt = Some g \<and> meth = kindMethod (aKind a) \<and> \<not> neverSent (aKind a) \<and>
    (ownTarget g a \<longrightarrow> meth \<noteq> MethodDelete) \<and>
    (\<not> ownTarget g a \<longrightarrow> gRole g = RoleAggregator \<and> aKind a \<notin> neverForOthers \<and>
       (isMember g a \<or> aKind a = KindEndDeviceCreate \<and> meth = MethodPost \<and> allowInBandCreate g) \<and>
       (meth = MethodDelete \<longrightarrow> allowInBandDelete g \<and> isMember g a))"
proof (cases gopt)
  case None
  then show ?thesis using assms by (simp add: guardAllow_def)
next
  case (Some g)
  note d = assms [unfolded Some decide_None_iff permits_def]
  show ?thesis
  proof (cases "ownTarget g a")
    case True
    then show ?thesis using d Some selfAllowed_kinds by auto
  next
    case False
    show ?thesis
    proof (cases "aKind a = KindEndDeviceCreate")
      case True
      then show ?thesis using d Some False by (auto simp: guard_tables neverSent_def neverForOthers_def)
    next
      case nc: False
      then have "isMember g a" "aKind a \<in> managerKinds \<or> aKind a = KindEndDeviceDelete \<and> allowInBandDelete g"
        "gRole g = RoleAggregator" "kindMethod (aKind a) = meth" using d False by auto
      then show ?thesis using Some False nc managerKinds_kinds [of "aKind a"]
        by (auto simp: neverSent_def neverForOthers_def)
    qed
  qed
qed

definition demoGuard :: Guard where
  "demoGuard = NewGuard RoleAggregator ''AA'' (Some (IsManaged (Some (NewStaticManagedSet [''b1'']))))
     [WithInBandDelete, WithRefusalLogger True 0]"

lemma demoGuard_simps:
  "gRole demoGuard = RoleAggregator" "selfLFDI demoGuard = ''AA''" "allowInBandDelete demoGuard"
  "\<not> allowInBandCreate demoGuard" "refusalLog demoGuard" "refusalWindow demoGuard = 60000000000"
  "refusalLast demoGuard = Map.empty"
  "managed demoGuard = Some (IsManaged (Some (NewStaticManagedSet [''b1''])))"
  by (simp_all add: demoGuard_def NewGuard_def WithInBandDelete_def WithRefusalLogger_def DefaultRefusalLogWindow_def)

lemma demo_member:
  "isMember demoGuard \<lparr>aKind = k, TargetLFDI = ''B1''\<rparr>" "\<not> ownTarget demoGuard \<lparr>aKind = k, TargetLFDI = ''B1''\<rparr>"
  by (simp_all add: isMember_def demoGuard_simps IsManaged_New ownTarget_def equalFold_def toUpper_def upperChar_def char_of_def bit_0)

theorem guard_fails_closed_witness:
  "fst (guardAllow (Some demoGuard) 0 MethodDelete \<lparr>aKind = KindEndDeviceDelete, TargetLFDI = ''B1''\<rparr>) = None \<and>
   allowInBandDelete demoGuard \<and> isMember demoGuard \<lparr>aKind = KindEndDeviceDelete, TargetLFDI = ''B1''\<rparr>"
proof -
  have a: "fst (guardAllow (Some demoGuard) 0 MethodDelete \<lparr>aKind = KindEndDeviceDelete, TargetLFDI = ''B1''\<rparr>) = None"
    unfolding decide_None_iff permits_def by (simp add: demo_member demoGuard_simps)
  with guard_fails_closed [OF a] show ?thesis by (simp add: demo_member)
qed

section \<open>Case of the identifiers\<close>

context managed_set
begin

text \<open>The decision does not depend on how the target's LFDI is written.\<close>

lemma permits_fold:
  assumes "managed g = Some isManaged" "equalFold (TargetLFDI a) l"
  shows "permits g meth (a\<lparr>TargetLFDI := l\<rparr>) = permits g meth a"
proof -
  have "ownTarget g (a\<lparr>TargetLFDI := l\<rparr>) = ownTarget g a"
    using assms(2) toUpper_Nil_iff [of l] toUpper_Nil_iff [of "TargetLFDI a"]
    by (auto simp: ownTarget_def equalFold_def)
  moreover have "isMember g (a\<lparr>TargetLFDI := l\<rparr>) = isMember g a"
    using fold [OF assms(2)] assms(1) by (simp add: isMember_def)
  ultimately show ?thesis by (simp add: permits_def)
qed

lemma member_named:
  assumes "managed g = Some isManaged" "isMember g a"
  shows "TargetLFDI a \<noteq> []"
  using assms unnamed by (auto simp: isMember_def)

end

interpretation sm: managed_set "IsManaged m" for m
proof
  show "\<not> IsManaged m []" by (simp add: IsManaged_def split: option.split)
  show "IsManaged m a = IsManaged m b" if "equalFold a b" for a b
    using that toUpper_Nil_iff [of a] toUpper_Nil_iff [of b]
    by (auto simp: IsManaged_def equalFold_def split: option.splits)
qed

text \<open>With the set built from the configured LFDIs, a managed device is recognised by exactly the
  configured, non-empty LFDIs, in any case of the letters; the guard's answer does not depend on the case of
  the target's LFDI, nor on the clock or on what the refusal log holds.\<close>

theorem guard_ignores_case:
  assumes "managed g = Some (IsManaged (Some (NewStaticManagedSet ls)))" "equalFold (TargetLFDI a) l"
  shows "(isMember g a \<longleftrightarrow> TargetLFDI a \<noteq> [] \<and> (\<exists>l'\<in>set ls. equalFold (TargetLFDI a) l')) \<and>
    (fst (guardAllow (Some g) now meth (a\<lparr>TargetLFDI := l\<rparr>)) = None \<longleftrightarrow>
     fst (guardAllow (Some (g\<lparr>refusalLast := m\<rparr>)) now' meth a) = None)"
proof -
  have "permits (g\<lparr>refusalLast := m\<rparr>) meth a = permits g meth a"
    by (simp add: permits_def ownTarget_def isMember_def)
  then show ?thesis
    using sm.permits_fold [OF assms] assms(1) by (auto simp: decide_None_iff IsManaged_New isMember_def)
qed

theorem guard_ignores_case_witness:
  "(fst (guardAllow (Some demoGuard) 5 MethodPut \<lparr>aKind = KindDERResourceWrite, TargetLFDI = ''b1''\<rparr>) = None) =
   (fst (guardAllow (Some (demoGuard\<lparr>refusalLast := Map.empty\<rparr>)) 7 MethodPut
      \<lparr>aKind = KindDERResourceWrite, TargetLFDI = ''B1''\<rparr>) = None)"
proof -
  have "equalFold ''B1'' ''b1''" by (simp add: equalFold_def toUpper_def upperChar_def char_of_def bit_0)
  then show ?thesis
    using guard_ignores_case [of demoGuard "[''b1'']" "\<lparr>aKind = KindDERResourceWrite, TargetLFDI = ''B1''\<rparr>" "''b1''" 5 MethodPut]
    by (simp add: demoGuard_simps)
qed

section \<open>The refusal log\<close>

definition refusalOk :: "Guard \<Rightarrow> bool" where
  "refusalOk g \<longleftrightarrow> 0 < refusalWindow g \<and> refusalWindow g \<le> maxInt64 div 4"

lemma prune_some:
  "pruneRefusals w now m k = Some l \<longleftrightarrow> m k = Some l \<and> timeSub now l < wrap64 (4 * w)"
  by (auto simp: pruneRefusals_def refusalPruneFactor_def split: option.split)

lemma refusalOk_wrap: "refusalOk g \<Longrightarrow> wrap64 (4 * refusalWindow g) = 4 * refusalWindow g"
  by (rule wrap64_id) (auto simp: refusalOk_def minInt64_def maxInt64_def)

lemma refusal_sub:
  assumes "refusalOk g"
  shows "timeSub now l < refusalWindow g \<longleftrightarrow> now - l < refusalWindow g"
    "timeSub now l < 4 * refusalWindow g \<longleftrightarrow> now - l < 4 * refusalWindow g"
  using assms by (auto simp: refusalOk_def maxInt64_def minInt64_def intro!: timeSub_less_iff)

lemma refusalDue_cases:
  assumes "refusalOk g"
  shows "refusalDue g now key =
    (if \<exists>l. refusalLast g key = Some l \<and> now - l < refusalWindow g then (False, g)
     else (True, g\<lparr>refusalLast := pruneRefusals (refusalWindow g) now ((refusalLast g)(key \<mapsto> now))\<rparr>))"
  using refusal_sub(1) [OF assms] by (auto simp: refusalDue_def split: option.splits)

lemma refusal_keeps:
  assumes ok: "refusalOk g" and l: "refusalLast g k' = Some l" "l \<le> t"
  shows "(\<exists>l'. refusalLast (snd (refusalDue g t k)) k' = Some l' \<and> l \<le> l') \<or>
      (refusalLast (snd (refusalDue g t k)) k' = None \<and> refusalWindow g \<le> t - l)"
proof (cases "fst (refusalDue g t k)")
  case False
  then have "snd (refusalDue g t k) = g" by (auto simp: refusalDue_def split: if_splits)
  then show ?thesis using l by simp
next
  case True
  let ?m = "(refusalLast g)(k \<mapsto> t)"
  have r: "refusalLast (snd (refusalDue g t k)) = pruneRefusals (refusalWindow g) t ?m"
    using True by (auto simp: refusalDue_def split: if_splits)
  obtain l' where l': "?m k' = Some l'" "l \<le> l'" "l' = l \<or> l' = t" using l by (cases "k' = k") auto
  have w: "0 < refusalWindow g" using ok by (simp add: refusalOk_def)
  show ?thesis
  proof (cases "t - l' < 4 * refusalWindow g")
    case True
    then have "pruneRefusals (refusalWindow g) t ?m k' = Some l'"
      using l'(1) by (simp add: prune_some refusalOk_wrap [OF ok] refusal_sub(2) [OF ok])
    then show ?thesis using r l'(2) by auto
  next
    case False
    then have "pruneRefusals (refusalWindow g) t ?m k' = None"
      using l'(1) refusal_sub(2) [OF ok, of t l']
      by (simp add: pruneRefusals_def refusalPruneFactor_def refusalOk_wrap [OF ok])
    moreover have "refusalWindow g \<le> t - l" using False l'(2,3) w by auto
    ultimately show ?thesis using r by simp
  qed
qed

interpretation rl: rate_limiter refusalDue refusalLast refusalWindow refusalOk
proof
  fix g :: Guard and t k k' l
  show "refusalOk g \<Longrightarrow> fst (refusalDue g t k) \<Longrightarrow> refusalLast g k = Some l \<Longrightarrow> refusalWindow g \<le> t - l"
    by (force simp: refusalDue_cases split: if_splits)
  show "refusalOk g \<Longrightarrow> fst (refusalDue g t k) \<Longrightarrow> refusalLast (snd (refusalDue g t k)) k = Some t"
    using refusal_sub(2) [of g t t] by (auto simp: refusalDue_cases prune_some refusalOk_wrap refusalOk_def split: if_splits)
  show "refusalOk g \<Longrightarrow> refusalLast g k' = Some l \<Longrightarrow> l \<le> t \<Longrightarrow>
      (\<exists>l'. refusalLast (snd (refusalDue g t k)) k' = Some l' \<and> l \<le> l') \<or>
      (refusalLast (snd (refusalDue g t k)) k' = None \<and> refusalWindow g \<le> t - l)"
    using refusal_keeps .
  show "refusalLast (snd (refusalDue g t k)) k' = Some l \<Longrightarrow> refusalLast g k' = Some l \<or> l = t"
    by (auto simp: refusalDue_def prune_some split: if_splits)
  show "refusalWindow (snd (refusalDue g t k)) = refusalWindow g"
    by (simp add: refusalDue_def)
  show "refusalOk g \<Longrightarrow> refusalOk (snd (refusalDue g t k))"
    by (simp add: refusalDue_def refusalOk_def)
  show "refusalOk g \<Longrightarrow> 0 \<le> refusalWindow g"
    by (simp add: refusalOk_def)
qed

text \<open>The lines logged for a sequence of actions, each with the clock's reading.\<close>

fun guardRun :: "Guard \<Rightarrow> (time \<times> string \<times> Action) list \<Rightarrow> (time \<times> RefusalError) list" where
  "guardRun g [] = []"
| "guardRun g ((now, meth, a) # calls) =
     (case guardAllow (Some g) now meth a of
        (_, Some g', out) \<Rightarrow> map (Pair now) out @ guardRun g' calls
      | (_, None, _) \<Rightarrow> [])"

definition refusalCalls :: "Guard \<Rightarrow> (time \<times> string \<times> Action) list \<Rightarrow> (time \<times> string) list" where
  "refusalCalls g calls = map (\<lambda>(now, meth, a). (now, refusalKey (refusal g meth a)))
     (filter (\<lambda>(now, meth, a). \<not> permits g meth a) calls)"

lemma permits_last: "permits (g\<lparr>refusalLast := m\<rparr>) = permits g"
  by (intro ext) (simp add: permits_def ownTarget_def isMember_def)

lemma refusal_last: "refusal (g\<lparr>refusalLast := m\<rparr>) = refusal g"
  by (intro ext) (simp add: refusal_def)

lemma refusalDue_last: "\<exists>m. snd (refusalDue g now k) = g\<lparr>refusalLast := m\<rparr>"
proof (cases "fst (refusalDue g now k)")
  case True
  then show ?thesis by (auto simp: refusalDue_def split: if_splits)
next
  case False
  then have "snd (refusalDue g now k) = g\<lparr>refusalLast := refusalLast g\<rparr>"
    by (auto simp: refusalDue_def split: if_splits)
  then show ?thesis by blast
qed

lemma refusalCalls_due: "refusalCalls (snd (refusalDue g now k)) calls = refusalCalls g calls"
proof -
  obtain m where "snd (refusalDue g now k) = g\<lparr>refusalLast := m\<rparr>" using refusalDue_last by blast
  then show ?thesis by (simp add: refusalCalls_def permits_last refusal_last)
qed

lemma guardRun_rl:
  assumes "refusalLog g"
  shows "map (\<lambda>(t, re). (t, refusalKey re)) (guardRun g calls) = rl.run g (refusalCalls g calls)"
  using assms
proof (induction calls arbitrary: g)
  case Nil
  then show ?case by (simp add: refusalCalls_def)
next
  case (Cons c calls)
  obtain now meth a where c: "c = (now, meth, a)" by (cases c) auto
  show ?case
  proof (cases "permits g meth a")
    case True
    then show ?thesis using Cons c by (simp add: guardAllow_eq refusalCalls_def)
  next
    case False
    let ?g = "snd (refusalDue g now (refusalKey (refusal g meth a)))"
    have log: "refusalLog ?g" using Cons.prems by (simp add: refusalDue_def)
    have "guardRun g (c # calls) = (if fst (refusalDue g now (refusalKey (refusal g meth a)))
        then [(now, refusal g meth a)] else []) @ guardRun ?g calls"
      using False Cons.prems c by (simp add: guardAllow_eq logRefusal_def split_def)
    moreover have "refusalCalls g (c # calls) = (now, refusalKey (refusal g meth a)) # refusalCalls g calls"
      using False c by (simp add: refusalCalls_def)
    ultimately show ?thesis
      using Cons.IH [OF log] by (simp add: rl.run_step refusalCalls_due del: rl.run.simps(2))
  qed
qed

lemma refusalCalls_sorted: "sorted (map fst calls) \<Longrightarrow> sorted (map fst (refusalCalls g calls))"
  by (induction calls) (auto simp: refusalCalls_def)

text \<open>The refusal log is bounded: over any sequence of actions on a clock that does not go back, two
  lines for the same role, verb, kind and target are at least a window apart; and after a line is logged the
  log holds no key that has been quiet for four windows.\<close>

theorem refusal_log_bounded:
  assumes "refusalLog g" "refusalOk g" "sorted (map fst calls)"
    and "i < j" "j < length (guardRun g calls)"
    and "guardRun g calls ! i = (t1, re)" "guardRun g calls ! j = (t2, re)"
  shows "refusalWindow g \<le> t2 - t1 \<and>
    (snd (logRefusal g now re) \<noteq> [] \<longrightarrow>
       (\<forall>k t. refusalLast (fst (logRefusal g now re)) k = Some t \<longrightarrow> now - t < 4 * refusalWindow g))"
proof (intro conjI impI allI)
  let ?f = "\<lambda>(t :: time, re). (t, refusalKey re)"
  have run: "rl.run g (refusalCalls g calls) = map ?f (guardRun g calls)" by (simp add: guardRun_rl [OF assms(1)])
  have "rl.run g (refusalCalls g calls) ! i = (t1, refusalKey re)"
    "rl.run g (refusalCalls g calls) ! j = (t2, refusalKey re)"
    "j < length (rl.run g (refusalCalls g calls))"
    unfolding run using assms(4-7) by simp_all
  then show "refusalWindow g \<le> t2 - t1"
    using rl.passes_spaced [OF refusalCalls_sorted [OF assms(3)] assms(4) _ _ _ assms(2)] by blast
next
  fix k t
  assume h: "snd (logRefusal g now re) \<noteq> []" "refusalLast (fst (logRefusal g now re)) k = Some t"
  then have "refusalLast (snd (refusalDue g now (refusalKey re))) k = Some t" "fst (refusalDue g now (refusalKey re))"
    using assms(1) by (auto simp: logRefusal_def split_def Let_def split: if_splits)
  then have "pruneRefusals (refusalWindow g) now ((refusalLast g)(refusalKey re \<mapsto> now)) k = Some t"
    by (auto simp: refusalDue_def split: if_splits)
  then show "now - t < 4 * refusalWindow g"
    by (simp add: prune_some refusalOk_wrap [OF assms(2)] refusal_sub(2) [OF assms(2)])
qed

definition demoRefused :: Action where
  "demoRefused = \<lparr>aKind = KindEndDeviceWrite, TargetLFDI = []\<rparr>"

lemma demo_run:
  "guardRun demoGuard [(0, MethodPut, demoRefused), (5, MethodPut, demoRefused), (60000000000, MethodPut, demoRefused)] =
     [(0, refusal demoGuard MethodPut demoRefused), (60000000000, refusal demoGuard MethodPut demoRefused)]"
proof -
  have "\<not> permits g MethodPut demoRefused" for g
    using selfAllowed_kinds [of "gRole g" KindEndDeviceWrite] by (auto simp: permits_def demoRefused_def ownTarget_def neverSent_def)
  then show ?thesis
    by (simp add: guardAllow_eq logRefusal_def refusalDue_def demoGuard_simps pruneRefusals_def refusalPruneFactor_def
        refusal_last timeSub_def wrap64_def minInt64_def maxInt64_def)
qed

theorem refusal_log_bounded_witness:
  "length (guardRun demoGuard [(0, MethodPut, demoRefused), (5, MethodPut, demoRefused),
      (60000000000, MethodPut, demoRefused)]) = 2 \<and> refusalWindow demoGuard \<le> 60000000000 - 0"
proof -
  let ?calls = "[(0, MethodPut, demoRefused), (5, MethodPut, demoRefused), (60000000000, MethodPut, demoRefused)]"
  let ?re = "refusal demoGuard MethodPut demoRefused"
  have ok: "refusalOk demoGuard" "refusalLog demoGuard" by (simp_all add: refusalOk_def demoGuard_simps maxInt64_def)
  have "refusalWindow demoGuard \<le> 60000000000 - 0"
    using refusal_log_bounded [OF ok(2,1), of ?calls 0 1 0 ?re 60000000000] unfolding demo_run by simp
  then show ?thesis unfolding demo_run by simp
qed

section \<open>What reaches the transport\<close>

text \<open>A guarded client sends nothing the guard refuses: on a refusal, or on a body that names another
  device than the declared target, the transport is not called and its state is unchanged; when the transport
  is called, the guard had allowed the action under the very verb that is sent, so a POST or PUT naming another
  device is a manager's action for a managed device or a proposal that is switched on, and the body names no
  device other than the target.\<close>

theorem guarded_sends_only_allowed:
  assumes "GuardedPost tPost gopt now a path body t \<noteq> (r, t) \<or> GuardedPut tPut gopt now a path body t \<noteq> (r', t)"
    and "r = fst (GuardedPost tPost gopt now a path body t)" "r' = fst (GuardedPut tPut gopt now a path body t)"
  shows "\<exists>g. gopt = Some g \<and> \<not> neverSent (aKind a) \<and>
    (\<not> ownTarget g a \<longrightarrow> gRole g = RoleAggregator \<and> aKind a \<notin> neverForOthers \<and>
       (isMember g a \<or> aKind a = KindEndDeviceCreate \<and> allowInBandCreate g)) \<and>
    (\<forall>l. ActingForLFDI body = Some l \<longrightarrow> l = [] \<or> l = TargetLFDI a)"
proof -
  have "\<exists>meth. fst (guardAllow gopt now meth a) = None \<and> \<not> bodyLFDIMismatch body a"
    using assms by (auto simp: GuardedPost_def GuardedPut_def split: option.splits if_splits)
  then obtain meth where m: "fst (guardAllow gopt now meth a) = None" "\<not> bodyLFDIMismatch body a" by blast
  then obtain g where g: "gopt = Some g" "permits g meth a"
    by (cases gopt) (simp_all add: decide_None_iff guardAllow_nil)
  have "\<not> neverSent (aKind a)" "\<not> ownTarget g a \<Longrightarrow> gRole g = RoleAggregator" 
    "\<not> ownTarget g a \<Longrightarrow> aKind a \<notin> neverForOthers"
    "\<not> ownTarget g a \<Longrightarrow> isMember g a \<or> aKind a = KindEndDeviceCreate \<and> allowInBandCreate g"
    using g(2) selfAllowed_kinds [of "gRole g" "aKind a"] managerKinds_kinds [of "aKind a"]
    by (auto simp: permits_def neverSent_def neverForOthers_def split: if_splits)
  moreover have "\<forall>l. ActingForLFDI body = Some l \<longrightarrow> l = [] \<or> l = TargetLFDI a"
    using m(2) by (auto simp: bodyLFDIMismatch_def)
  ultimately show ?thesis using g(1) by blast
qed

theorem guarded_sends_only_allowed_witness:
  "snd (GuardedPut (\<lambda>path body (n :: nat). (Inr () :: string + unit, Suc n)) (Some demoGuard) 0
      \<lparr>aKind = KindDERResourceWrite, TargetLFDI = ''B1''\<rparr> ''/edev/3/der'' \<lparr>ActingForLFDI = Some ''B1'', payload = ()\<rparr> 0) = 1 \<and>
   gRole demoGuard = RoleAggregator"
proof -
  let ?send = "\<lambda>path body (n :: nat). (Inr () :: string + unit, Suc n)"
  let ?a = "\<lparr>aKind = KindDERResourceWrite, TargetLFDI = ''B1''\<rparr>"
  let ?b = "\<lparr>ActingForLFDI = Some ''B1'', payload = ()\<rparr>"
  have "permits demoGuard MethodPut ?a"
    by (simp add: permits_def demo_member demoGuard_simps managerKinds_def)
  then have r: "GuardedPut ?send (Some demoGuard) 0 ?a ''/edev/3/der'' ?b 0 = (Inr (), 1)"
    by (simp add: GuardedPut_def guardAllow_eq bodyLFDIMismatch_def)
  have "\<exists>g. Some demoGuard = Some g \<and> \<not> neverSent (aKind ?a) \<and> (\<not> ownTarget g ?a \<longrightarrow> gRole g = RoleAggregator \<and>
      aKind ?a \<notin> neverForOthers \<and> (isMember g ?a \<or> aKind ?a = KindEndDeviceCreate \<and> allowInBandCreate g)) \<and>
      (\<forall>l. ActingForLFDI ?b = Some l \<longrightarrow> l = [] \<or> l = TargetLFDI ?a)"
    by (rule guarded_sends_only_allowed [where tPost = ?send and tPut = ?send and now = 0 and path = "''/edev/3/der''" and t = 0])
      (simp_all add: r)
  then have "gRole demoGuard = RoleAggregator" using demo_member(2) [of KindDERResourceWrite] by blast
  with r show ?thesis by simp
qed

end
