(* ===== verification/Http.thy ===== *)
theory Http
  imports Guard
begin

text \<open>
  The request layer of \<open>internal/inverter/client.go\<close>, with the typed errors of \<open>errors.go\<close> and the
  request target of \<open>target.go\<close>: what one GET, POST or PUT sends, in which order, and what it returns.

  The network and the server are a parameter (\<open>http\<close>, a state transformer from a request to a reply),
  and so are the parser, the printer and the reference resolution of \<open>net/url\<close>; the theorems hold for any
  of them. XML is a parameter too: a body to send is its marshalled text (\<open>None\<close> when marshalling fails),
  and a decoder turns a received body into a value. Everything sent is recorded in order.
\<close>

section \<open>Errors\<close>

text \<open>\<open>Wrap\<close> is \<open>fmt.Errorf\<close> with one \<open>%w\<close>: the text before the error it wraps.\<close>

datatype httpErr =
    ErrBadRequest
  | ErrNotFound
  | ErrMethodNotAllowed
  | ErrNotImplemented
  | ErrLogEventLinkAbsent
  | ErrRateLimited
  | ErrHrefOffServer
  | ErrResponseTransient
  | ErrEndDeviceNotFound
  | ErrMoved string int
  | ErrRefusal RefusalError
  | CtxCanceled
  | DeadlineExceeded
  | ErrMsg string
  | Wrap string httpErr

fun rootErr :: "httpErr \<Rightarrow> httpErr" where
  "rootErr (Wrap s e) = rootErr e"
| "rootErr e = e"

definition errorsIs :: "httpErr \<Rightarrow> httpErr \<Rightarrow> bool" where
  "errorsIs e t \<longleftrightarrow> rootErr e = t"

definition isCtxErr :: "httpErr \<Rightarrow> bool" where
  "isCtxErr e \<longleftrightarrow> errorsIs e CtxCanceled \<or> errorsIs e DeadlineExceeded"

text \<open>\<open>errors.As\<close> to a \<open>MovedError\<close> that carries a Location.\<close>

definition movedTo :: "httpErr \<Rightarrow> string option" where
  "movedTo e = (case rootErr e of ErrMoved loc st \<Rightarrow> if loc \<noteq> [] then Some loc else None | _ \<Rightarrow> None)"

lemma errorsIs_Wrap [simp]: "errorsIs (Wrap s e) t = errorsIs e t"
  by (simp add: errorsIs_def)

lemma isCtxErr_Wrap [simp]: "isCtxErr (Wrap s e) = isCtxErr e"
  by (simp add: isCtxErr_def)

lemma movedTo_Wrap [simp]: "movedTo (Wrap s e) = movedTo e"
  by (simp add: movedTo_def)

text \<open>The status code and the Location header of a response.\<close>

definition classifyResponse :: "int \<Rightarrow> string \<Rightarrow> httpErr option" where
  "classifyResponse code loc =
     (if code = 200 \<or> code = 201 \<or> code = 204 then None
      else if code = 301 \<or> code = 302 \<or> code = 307 \<or> code = 308 then Some (ErrMoved loc code)
      else if code = 400 then Some ErrBadRequest
      else if code = 404 then Some ErrNotFound
      else if code = 405 then Some ErrMethodNotAllowed
      else if code = 501 then Some ErrNotImplemented
      else if 500 \<le> code \<and> code \<le> 599 then Some (Wrap (''status '' @ itoa code @ '': '') ErrResponseTransient)
      else if 400 \<le> code \<and> code \<le> 499 then Some (ErrMsg (''unexpected client error '' @ itoa code))
      else Some (ErrMsg (''unexpected status '' @ itoa code)))"

definition MirrorLost :: "httpErr \<Rightarrow> bool" where
  "MirrorLost e = errorsIs e ErrNotFound"

section \<open>URLs\<close>

record URL =
  Scheme :: string
  Host :: string
  urlRest :: string

definition IsAbs :: "URL \<Rightarrow> bool" where
  "IsAbs u \<longleftrightarrow> Scheme u \<noteq> []"

definition isDigit :: "char \<Rightarrow> bool" where
  "isDigit c \<longleftrightarrow> 48 \<le> (of_char c :: nat) \<and> (of_char c :: nat) \<le> 57"

text \<open>\<open>URL.Hostname\<close> and \<open>URL.Port\<close>: a port is the digits, if any, after the last colon.\<close>

definition splitColon :: "string \<Rightarrow> (string \<times> string) option" where
  "splitColon s =
     (if CHR '':'' \<in> set s
      then Some (rev (tl (dropWhile (\<lambda>c. c \<noteq> CHR '':'') (rev s))), rev (takeWhile (\<lambda>c. c \<noteq> CHR '':'') (rev s)))
      else None)"

definition splitHostPort :: "string \<Rightarrow> string \<times> string" where
  "splitHostPort s =
     (let (h, p) = (case splitColon s of
                      Some (h, p) \<Rightarrow> if list_all isDigit p then (h, p) else (s, [])
                    | None \<Rightarrow> (s, []))
      in (if h \<noteq> [] \<and> hd h = CHR ''['' \<and> last h = CHR '']'' then butlast (tl h) else h, p))"

definition Hostname :: "URL \<Rightarrow> string" where "Hostname u = fst (splitHostPort (Host u))"
definition Port :: "URL \<Rightarrow> string" where "Port u = snd (splitHostPort (Host u))"

text \<open>\<open>strings.ToLower(scheme) == name\<close>, for a lower-case name.\<close>

definition effectivePort :: "URL \<Rightarrow> string" where
  "effectivePort u =
     (if Port u \<noteq> [] then Port u
      else if equalFold (Scheme u) ''https'' then ''443''
      else if equalFold (Scheme u) ''http'' then ''80''
      else [])"

definition sameServer :: "URL \<Rightarrow> URL \<Rightarrow> bool" where
  "sameServer a b \<longleftrightarrow> equalFold (Scheme a) (Scheme b) \<and> equalFold (Hostname a) (Hostname b) \<and>
     effectivePort a = effectivePort b"

section \<open>The client and the network\<close>

record request =
  rqMethod :: string
  rqURL :: string
  rqBody :: string

text \<open>A transport failure, or a status with its Location header and the body, \<open>None\<close> if it cannot be read.\<close>

datatype transportErr = NetCanceled | NetDeadline | NetOther string

datatype reply = TransportFail transportErr | Reply int string "string option"

fun netErr :: "transportErr \<Rightarrow> httpErr" where
  "netErr NetCanceled = CtxCanceled"
| "netErr NetDeadline = DeadlineExceeded"
| "netErr (NetOther s) = ErrMsg s"

record 'w Client =
  baseURL :: string
  sfdi :: string
  lfdi :: string
  pen :: "32 word"
  urlParse :: "string \<Rightarrow> URL option"
  urlString :: "URL \<Rightarrow> string"
  resolveReference :: "URL \<Rightarrow> URL \<Rightarrow> URL"
  http :: "request \<Rightarrow> 'w \<Rightarrow> reply \<times> 'w"

text \<open>
  What a call changes: the outside, the requests that went out, the client's guard with its refusal log, the
  lines that log has written, and the offset of the server's clock.
\<close>

record 'w World =
  srv :: 'w
  sent :: "request list"
  cGuard :: Guard
  refusalLines :: "RefusalError list"
  serverTimeOffset :: duration

type_synonym ('w, 'a) result = "(httpErr + 'a) \<times> 'w World"

definition send :: "'w Client \<Rightarrow> request \<Rightarrow> 'w World \<Rightarrow> reply \<times> 'w World" where
  "send c rq w = (case http c rq (srv w) of (r, s) \<Rightarrow> (r, w\<lparr>srv := s, sent := sent w @ [rq]\<rparr>))"

text \<open>
  The context of a call: the target that \<open>WithTarget\<close> put into it (\<open>[]\<close> for none), and the reading of the
  clock of the guard's log.
\<close>

record Ctx =
  targetFrom :: string
  ctxNow :: time

definition WithTarget :: "Ctx \<Rightarrow> string \<Rightarrow> Ctx" where
  "WithTarget ctx l = ctx\<lparr>targetFrom := l\<rparr>"

definition guarded :: "Ctx \<Rightarrow> string \<Rightarrow> Kind \<Rightarrow> 'w World \<Rightarrow> httpErr option \<times> 'w World" where
  "guarded ctx meth kind w =
     (case guardAllow (Some (cGuard w)) (ctxNow ctx) meth \<lparr>aKind = kind, TargetLFDI = targetFrom ctx\<rparr> of
        (err, g, lines) \<Rightarrow>
          (map_option ErrRefusal err,
           w\<lparr>cGuard := (case g of None \<Rightarrow> cGuard w | Some g \<Rightarrow> g), refusalLines := refusalLines w @ lines\<rparr>))"

definition resolveServerURL :: "'w Client \<Rightarrow> string \<Rightarrow> httpErr + string" where
  "resolveServerURL c href =
     (case urlParse c href of
        None \<Rightarrow> Inl (ErrMsg (''parse href '' @ href))
      | Some u \<Rightarrow>
          if IsAbs u then Inr (urlString c u)
          else (case urlParse c (baseURL c) of
                  None \<Rightarrow> Inl (ErrMsg (''parse base URL '' @ baseURL c))
                | Some base \<Rightarrow> Inr (urlString c (resolveReference c base u))))"

definition trimSlashEnd :: "string \<Rightarrow> string" where
  "trimSlashEnd s = (if s \<noteq> [] \<and> last s = CHR ''/'' then butlast s else s)"

definition trimSlashStart :: "string \<Rightarrow> string" where
  "trimSlashStart s = (case s of CHR ''/'' # r \<Rightarrow> r | _ \<Rightarrow> s)"

definition putTarget :: "'w Client \<Rightarrow> string \<Rightarrow> httpErr + string" where
  "putTarget c path =
     (case urlParse c (baseURL c) of
        None \<Rightarrow> Inl (ErrMsg (''parse base URL '' @ baseURL c))
      | Some base \<Rightarrow>
          (case urlParse c path of
             None \<Rightarrow> Inl (ErrMsg (''parse href '' @ path))
           | Some ref \<Rightarrow>
               let target = (if IsAbs ref \<or> Host ref \<noteq> [] then urlString c ref
                             else trimSlashEnd (baseURL c) @ ''/'' @ trimSlashStart path)
               in (case urlParse c target of
                     None \<Rightarrow> Inl (ErrMsg (''parse href '' @ target))
                   | Some t \<Rightarrow>
                       if sameServer base t then Inr target
                       else Inl (Wrap (''href '' @ path @ '': '') ErrHrefOffServer))))"

section \<open>One attempt\<close>

text \<open>\<open>http.NewRequest\<close> fails when the URL does not parse; nothing is sent then.\<close>

definition attempt :: "'w Client \<Rightarrow> string \<Rightarrow> string \<Rightarrow> string \<Rightarrow> string \<Rightarrow> 'w World \<Rightarrow> ('w, string \<times> string option) result" where
  "attempt c meth rawURL logPath data w =
     (if urlParse c rawURL = None then (Inl (ErrMsg (''parse '' @ rawURL)), w)
      else case send c \<lparr>rqMethod = meth, rqURL = rawURL, rqBody = data\<rparr> w of
             (TransportFail e, w) \<Rightarrow> (Inl (Wrap (meth @ '' '' @ logPath @ '': '') (netErr e)), w)
           | (Reply code loc body, w) \<Rightarrow>
               (case classifyResponse code loc of
                  Some e \<Rightarrow> (Inl (Wrap (meth @ '' '' @ logPath @ '': '') e), w)
                | None \<Rightarrow> (Inr (loc, body), w)))"

definition getOnce :: "'w Client \<Rightarrow> string \<Rightarrow> string \<Rightarrow> (string \<Rightarrow> 'a option) \<Rightarrow> 'w World \<Rightarrow> ('w, 'a) result" where
  "getOnce c rawURL logPath dec w =
     (case attempt c MethodGet rawURL logPath [] w of
        (Inl e, w) \<Rightarrow> (Inl e, w)
      | (Inr (_, body), w) \<Rightarrow>
          (case body of
             None \<Rightarrow> (Inl (Wrap (''GET '' @ logPath @ '': read response: '') (ErrMsg [])), w)
           | Some b \<Rightarrow>
               (case dec b of
                  None \<Rightarrow> (Inl (Wrap (''GET '' @ logPath @ '': unmarshal: '') (ErrMsg [])), w)
                | Some v \<Rightarrow> (Inr v, w))))"

definition postOnce :: "'w Client \<Rightarrow> string \<Rightarrow> string \<Rightarrow> string \<Rightarrow> 'w World \<Rightarrow> ('w, string) result" where
  "postOnce c rawURL logPath data w =
     (case attempt c MethodPost rawURL logPath data w of
        (Inl e, w) \<Rightarrow> (Inl e, w)
      | (Inr (loc, _), w) \<Rightarrow> (Inr loc, w))"

definition putOnce :: "'w Client \<Rightarrow> string \<Rightarrow> string \<Rightarrow> string \<Rightarrow> 'w World \<Rightarrow> ('w, unit) result" where
  "putOnce c rawURL logPath data w =
     (case attempt c MethodPut rawURL logPath data w of
        (Inl e, w) \<Rightarrow> (Inl e, w)
      | (Inr _, w) \<Rightarrow> (Inr (), w))"

section \<open>GET, POST and PUT\<close>

text \<open>The value read and the new href, \<open>[]\<close> when no redirect was followed.\<close>

definition Get :: "'w Client \<Rightarrow> Ctx \<Rightarrow> Kind \<Rightarrow> string \<Rightarrow> (string \<Rightarrow> 'a option) \<Rightarrow> 'w World \<Rightarrow> ('w, 'a \<times> string) result" where
  "Get c ctx kind path dec w =
     (case guarded ctx MethodGet kind w of
        (Some e, w) \<Rightarrow> (Inl (Wrap (''GET '' @ path @ '': '') e), w)
      | (None, w) \<Rightarrow>
          (case getOnce c (baseURL c @ path) path dec w of
             (Inr v, w) \<Rightarrow> (Inr (v, []), w)
           | (Inl e, w) \<Rightarrow>
               (case movedTo e of
                  None \<Rightarrow> (Inl e, w)
                | Some loc \<Rightarrow>
                    (case resolveServerURL c loc of
                       Inl re \<Rightarrow> (Inl (Wrap (''GET '' @ path @ '': resolve 301 Location: '') re), w)
                     | Inr target \<Rightarrow>
                         (case getOnce c target loc dec w of
                            (Inl e, w) \<Rightarrow> (Inl e, w)
                          | (Inr v, w) \<Rightarrow> (Inr (v, loc), w))))))"

definition Post :: "'w Client \<Rightarrow> Ctx \<Rightarrow> Kind \<Rightarrow> string \<Rightarrow> string option \<Rightarrow> 'w World \<Rightarrow> ('w, string \<times> string) result" where
  "Post c ctx kind path body w =
     (case guarded ctx MethodPost kind w of
        (Some e, w) \<Rightarrow> (Inl (Wrap (''POST '' @ path @ '': '') e), w)
      | (None, w) \<Rightarrow>
          (case body of
             None \<Rightarrow> (Inl (Wrap ''marshal: '' (ErrMsg [])), w)
           | Some data \<Rightarrow>
               (case postOnce c (baseURL c @ path) path data w of
                  (Inr loc, w) \<Rightarrow> (Inr (loc, []), w)
                | (Inl e, w) \<Rightarrow>
                    (case movedTo e of
                       None \<Rightarrow> (Inl e, w)
                     | Some loc \<Rightarrow>
                         (case resolveServerURL c loc of
                            Inl re \<Rightarrow> (Inl (Wrap (''POST '' @ path @ '': resolve 301 Location: '') re), w)
                          | Inr target \<Rightarrow>
                              (case postOnce c target loc data w of
                                 (Inl e, w) \<Rightarrow> (Inl e, w)
                               | (Inr l, w) \<Rightarrow> (Inr (l, loc), w)))))))"

definition Put :: "'w Client \<Rightarrow> Ctx \<Rightarrow> Kind \<Rightarrow> string \<Rightarrow> string option \<Rightarrow> 'w World \<Rightarrow> ('w, string) result" where
  "Put c ctx kind path body w =
     (case guarded ctx MethodPut kind w of
        (Some e, w) \<Rightarrow> (Inl (Wrap (''PUT '' @ path @ '': '') e), w)
      | (None, w) \<Rightarrow>
          (case body of
             None \<Rightarrow> (Inl (Wrap ''marshal: '' (ErrMsg [])), w)
           | Some data \<Rightarrow>
               (case putTarget c path of
                  Inl e \<Rightarrow> (Inl (Wrap (''PUT '' @ path @ '': '') e), w)
                | Inr target \<Rightarrow>
                    (case putOnce c target path data w of
                       (Inr _, w) \<Rightarrow> (Inr [], w)
                     | (Inl e, w) \<Rightarrow>
                         (case movedTo e of
                            None \<Rightarrow> (Inl e, w)
                          | Some loc \<Rightarrow>
                              (case putTarget c loc of
                                 Inl re \<Rightarrow> (Inl (Wrap (''PUT '' @ path @ '': resolve 301 Location: '') re), w)
                               | Inr target \<Rightarrow>
                                   (case putOnce c target loc data w of
                                      (Inl e, w) \<Rightarrow> (Inl e, w)
                                    | (Inr _, w) \<Rightarrow> (Inr loc, w))))))))"

section \<open>What goes out\<close>

lemma classifyResponse_moved:
  "classifyResponse code loc = Some e \<Longrightarrow> movedTo e = Some l \<Longrightarrow>
     code \<in> {301, 302, 307, 308} \<and> loc = l \<and> l \<noteq> []"
  by (auto simp: classifyResponse_def movedTo_def split: if_splits)

lemma movedTo_net [simp]: "movedTo (netErr e) = None"
  by (cases e) (simp_all add: movedTo_def)

lemma movedTo_ErrMsg [simp]: "movedTo (ErrMsg s) = None"
  by (simp add: movedTo_def)

definition redirected :: "'w Client \<Rightarrow> request \<Rightarrow> 'w \<Rightarrow> string \<Rightarrow> bool" where
  "redirected c rq s loc \<longleftrightarrow> (\<exists>code body. fst (http c rq s) = Reply code loc body \<and> code \<in> {301, 302, 307, 308}) \<and> loc \<noteq> []"

lemma send_simps:
  "snd (send c rq w) = w\<lparr>srv := snd (http c rq (srv w)), sent := sent w @ [rq]\<rparr>"
  "fst (send c rq w) = fst (http c rq (srv w))"
  by (simp_all add: send_def split_def)

text \<open>One attempt leaves the world alone or sends exactly its request.\<close>

lemma attempt_spec:
  assumes "attempt c meth url lp data w = (r, w')"
  shows "(w' = w \<and> (\<exists>e. r = Inl e \<and> movedTo e = None)) \<or>
    (urlParse c url \<noteq> None \<and> w' = snd (send c \<lparr>rqMethod = meth, rqURL = url, rqBody = data\<rparr> w) \<and>
      (\<forall>e l. r = Inl e \<longrightarrow> movedTo e = Some l \<longrightarrow>
         redirected c \<lparr>rqMethod = meth, rqURL = url, rqBody = data\<rparr> (srv w) l))"
proof (cases "urlParse c url = None")
  case True
  then show ?thesis using assms by (auto simp: attempt_def)
next
  case False
  let ?rq = "\<lparr>rqMethod = meth, rqURL = url, rqBody = data\<rparr>"
  obtain rep w1 where s: "send c ?rq w = (rep, w1)" by fastforce
  have rep: "fst (http c ?rq (srv w)) = rep" using s send_simps(2) by (metis fst_conv)
  show ?thesis
  proof (cases rep)
    case (TransportFail e)
    then show ?thesis using assms False s by (auto simp: attempt_def)
  next
    case (Reply code loc body)
    have "redirected c ?rq (srv w) l" if re: "r = Inl e" "movedTo e = Some l" for e l
    proof -
      have "(r, w') = (case classifyResponse code loc of
          Some e \<Rightarrow> (Inl (Wrap (meth @ '' '' @ lp @ '': '') e), w1) | None \<Rightarrow> (Inr (loc, body), w1))"
        using assms False s Reply by (simp add: attempt_def)
      then obtain e' where "classifyResponse code loc = Some e'" "movedTo e' = Some l"
        using re by (cases "classifyResponse code loc") auto
      from classifyResponse_moved [OF this] rep Reply show ?thesis unfolding redirected_def by blast
    qed
    moreover have "w' = w1" using assms False s Reply by (auto simp: attempt_def split: option.splits)
    ultimately show ?thesis using False s by auto
  qed
qed

text \<open>The three attempts alike: what they send and when they report a redirect.\<close>

definition onceOk :: "'w Client \<Rightarrow> request \<Rightarrow> 'w World \<Rightarrow> httpErr + 'a \<Rightarrow> 'w World \<Rightarrow> bool" where
  "onceOk c rq w r w' \<longleftrightarrow>
     (w' = w \<and> (\<exists>e. r = Inl e \<and> movedTo e = None)) \<or>
     (urlParse c (rqURL rq) \<noteq> None \<and> w' = snd (send c rq w) \<and>
       (\<forall>e l. r = Inl e \<longrightarrow> movedTo e = Some l \<longrightarrow> redirected c rq (srv w) l))"

lemma getOnce_ok: "getOnce c url lp dec w = (r, w') \<Longrightarrow> onceOk c \<lparr>rqMethod = MethodGet, rqURL = url, rqBody = []\<rparr> w r w'"
  using attempt_spec [of c MethodGet url lp "[]" w]
  by (fastforce simp: getOnce_def onceOk_def split: prod.splits sum.splits option.splits)

lemma postOnce_ok: "postOnce c url lp data w = (r, w') \<Longrightarrow> onceOk c \<lparr>rqMethod = MethodPost, rqURL = url, rqBody = data\<rparr> w r w'"
  using attempt_spec [of c MethodPost url lp data w]
  by (fastforce simp: postOnce_def onceOk_def split: prod.splits sum.splits)

lemma putOnce_ok: "putOnce c url lp data w = (r, w') \<Longrightarrow> onceOk c \<lparr>rqMethod = MethodPut, rqURL = url, rqBody = data\<rparr> w r w'"
  using attempt_spec [of c MethodPut url lp data w]
  by (fastforce simp: putOnce_def onceOk_def split: prod.splits sum.splits)

text \<open>
  What a whole call may do: nothing beyond the guard's log, one request, or a second one that follows the
  Location of a redirect; the offset of the clock does not move, and a request means that the guard let the
  action through.
\<close>

definition serverURL :: "'w Client \<Rightarrow> string \<Rightarrow> bool" where
  "serverURL c u \<longleftrightarrow> (\<exists>base t. urlParse c (baseURL c) = Some base \<and> urlParse c u = Some t \<and> sameServer base t)"

definition exchange :: "'w Client \<Rightarrow> Ctx \<Rightarrow> string \<Rightarrow> Kind \<Rightarrow> string \<Rightarrow> 'w World \<Rightarrow> 'w World \<Rightarrow> request list \<Rightarrow> bool" where
  "exchange c ctx meth kind data w w' rqs \<longleftrightarrow>
     sent w' = sent w @ rqs \<and> serverTimeOffset w' = serverTimeOffset w \<and>
     (\<forall>r\<in>set rqs. rqMethod r = meth \<and> rqBody r = data \<and> urlParse c (rqURL r) \<noteq> None) \<and>
     (rqs = [] \<or> permits (cGuard w) meth \<lparr>aKind = kind, TargetLFDI = targetFrom ctx\<rparr>) \<and>
     (length rqs \<le> 1 \<or> (\<exists>r1 r2 loc. rqs = [r1, r2] \<and> redirected c r1 (srv w) loc))"

lemma guarded_cases:
  "guarded ctx meth kind w =
     (if permits (cGuard w) meth \<lparr>aKind = kind, TargetLFDI = targetFrom ctx\<rparr> then (None, w)
      else let re = refusal (cGuard w) meth \<lparr>aKind = kind, TargetLFDI = targetFrom ctx\<rparr>;
               lg = logRefusal (cGuard w) (ctxNow ctx) re
           in (Some (ErrRefusal re), w\<lparr>cGuard := fst lg, refusalLines := refusalLines w @ snd lg\<rparr>))"
  by (simp add: guarded_def guardAllow_eq Let_def split_def)

lemma onceOk_sent:
  assumes "onceOk c rq w r w'"
  shows "\<exists>rqs. sent w' = sent w @ rqs \<and> (rqs = [] \<or> rqs = [rq] \<and> urlParse c (rqURL rq) \<noteq> None) \<and>
    serverTimeOffset w' = serverTimeOffset w \<and>
    (\<forall>e l. r = Inl e \<longrightarrow> movedTo e = Some l \<longrightarrow> rqs = [rq] \<and> redirected c rq (srv w) l)"
  using assms by (auto simp: onceOk_def send_simps)

definition onceSent :: "'w Client \<Rightarrow> request \<Rightarrow> 'w World \<Rightarrow> 'w World \<Rightarrow> bool" where
  "onceSent c rq w w' \<longleftrightarrow> w' = w \<or> (urlParse c (rqURL rq) \<noteq> None \<and> w' = snd (send c rq w))"

lemma onceOk_onceSent: "onceOk c rq w r w' \<Longrightarrow> onceSent c rq w w'"
  by (auto simp: onceOk_def onceSent_def)

text \<open>The step from the first attempt to the end of the call, with \<open>Q\<close> of the second one's URL.\<close>

definition follows :: "'w Client \<Rightarrow> string \<Rightarrow> string \<Rightarrow> (string \<Rightarrow> bool) \<Rightarrow> (httpErr + 'a) \<Rightarrow> 'w World \<Rightarrow> 'w World \<Rightarrow> bool" where
  "follows c meth data Q r1 w1 w2 \<longleftrightarrow> w2 = w1 \<or>
     (\<exists>e l u2. r1 = Inl e \<and> movedTo e = Some l \<and> Q u2 \<and>
        onceSent c \<lparr>rqMethod = meth, rqURL = u2, rqBody = data\<rparr> w1 w2)"

lemma followsI:
  "r1 = Inl e \<Longrightarrow> movedTo e = Some l \<Longrightarrow> Q u2 \<Longrightarrow>
     onceOk c \<lparr>rqMethod = meth, rqURL = u2, rqBody = data\<rparr> w1 r2 w2 \<Longrightarrow> follows c meth data Q r1 w1 w2"
  using onceOk_onceSent unfolding follows_def by blast

text \<open>One attempt, and a second one to a place that the redirect names.\<close>

lemma exchange_two:
  assumes p: "permits (cGuard w) meth \<lparr>aKind = kind, TargetLFDI = targetFrom ctx\<rparr>"
    and one: "onceOk c \<lparr>rqMethod = meth, rqURL = u1, rqBody = data\<rparr> w r1 w1"
    and two: "follows c meth data Q r1 w1 w2"
    and q: "Q u1"
  shows "\<exists>rqs. exchange c ctx meth kind data w w2 rqs \<and> (\<forall>r\<in>set rqs. Q (rqURL r))"
proof -
  obtain a where a: "sent w1 = sent w @ a"
      "a = [] \<or> a = [\<lparr>rqMethod = meth, rqURL = u1, rqBody = data\<rparr>] \<and> urlParse c u1 \<noteq> None"
      "serverTimeOffset w1 = serverTimeOffset w"
      "\<And>e l. r1 = Inl e \<Longrightarrow> movedTo e = Some l \<Longrightarrow>
         a = [\<lparr>rqMethod = meth, rqURL = u1, rqBody = data\<rparr>] \<and> redirected c \<lparr>rqMethod = meth, rqURL = u1, rqBody = data\<rparr> (srv w) l"
    using onceOk_sent [OF one] by auto
  from two [unfolded follows_def] show ?thesis
  proof (elim disjE exE conjE)
    assume "w2 = w1"
    with a(1-3) p q show ?thesis by (intro exI [of _ a]) (auto simp: exchange_def)
  next
    fix e l u2
    assume h: "r1 = Inl e" "movedTo e = Some l" "onceSent c \<lparr>rqMethod = meth, rqURL = u2, rqBody = data\<rparr> w1 w2" "Q u2"
    obtain b where b: "sent w2 = sent w1 @ b" "serverTimeOffset w2 = serverTimeOffset w1"
        "b = [] \<or> b = [\<lparr>rqMethod = meth, rqURL = u2, rqBody = data\<rparr>] \<and> urlParse c u2 \<noteq> None"
      using h(3) by (auto simp: onceSent_def send_simps)
    have two: "length (a @ b) \<le> 1 \<or> (\<exists>r1 r2 loc. a @ b = [r1, r2] \<and> redirected c r1 (srv w) loc)"
      using a(4) [OF h(1,2)] b(3) by auto
    show ?thesis
      using a(1-3) b p q h(4) two by (intro exI [of _ "a @ b"]) (auto simp: exchange_def)
  qed
qed

lemma exchange_refused:
  assumes "sent w' = sent w" "serverTimeOffset w' = serverTimeOffset w"
  shows "\<exists>rqs. exchange c ctx meth kind data w w' rqs \<and> (\<forall>r\<in>set rqs. Q (rqURL r))"
  using assms by (intro exI [of _ "[]"]) (simp add: exchange_def)

lemma guarded_refused:
  assumes "\<not> permits (cGuard w) meth \<lparr>aKind = kind, TargetLFDI = targetFrom ctx\<rparr>"
  obtains e w1 where "guarded ctx meth kind w = (Some e, w1)" "sent w1 = sent w" "serverTimeOffset w1 = serverTimeOffset w"
  using assms by (simp add: guarded_cases Let_def)

lemma guarded_permitted:
  "permits (cGuard w) meth \<lparr>aKind = kind, TargetLFDI = targetFrom ctx\<rparr> \<Longrightarrow> guarded ctx meth kind w = (None, w)"
  by (simp add: guarded_cases)

lemma putTarget_server: "putTarget c path = Inr t \<Longrightarrow> serverURL c t"
  by (auto simp: putTarget_def serverURL_def Let_def split: option.splits if_splits)

lemma Get_exchange: "\<exists>rqs. exchange c ctx MethodGet kind [] w (snd (Get c ctx kind path dec w)) rqs"
proof (cases "permits (cGuard w) MethodGet \<lparr>aKind = kind, TargetLFDI = targetFrom ctx\<rparr>")
  case False
  then obtain e w1 where g: "guarded ctx MethodGet kind w = (Some e, w1)" "sent w1 = sent w"
      "serverTimeOffset w1 = serverTimeOffset w" by (rule guarded_refused)
  then show ?thesis using exchange_refused [OF g(2,3), of c ctx MethodGet kind "[]" "\<lambda>_. True"] by (simp add: Get_def)
next
  case True
  obtain r1 w1 where o: "getOnce c (baseURL c @ path) path dec w = (r1, w1)" by fastforce
  let ?w2 = "snd (Get c ctx kind path dec w)"
  have "follows c MethodGet [] (\<lambda>_. True) r1 w1 ?w2"
  proof (cases "\<exists>e l t. r1 = Inl e \<and> movedTo e = Some l \<and> resolveServerURL c l = Inr t")
    case True
    then obtain e l t where h: "r1 = Inl e" "movedTo e = Some l" "resolveServerURL c l = Inr t" by blast
    obtain r2 w2 where o2: "getOnce c t l dec w1 = (r2, w2)" by fastforce
    have "?w2 = w2" using o o2 h \<open>permits _ _ _\<close>
      by (simp add: Get_def guarded_permitted split: sum.split)
    with followsI [where Q = "\<lambda>_. True", OF h(1,2) TrueI getOnce_ok [OF o2]] show ?thesis by simp
  next
    case False
    then have "?w2 = w1" using o \<open>permits _ _ _\<close>
      by (auto simp: Get_def guarded_permitted split: sum.splits option.splits)
    then show ?thesis by (simp add: follows_def)
  qed
  from exchange_two [OF True getOnce_ok [OF o] this] show ?thesis by blast
qed

lemma Post_exchange: "\<exists>rqs. exchange c ctx MethodPost kind data w (snd (Post c ctx kind path (Some data) w)) rqs"
proof (cases "permits (cGuard w) MethodPost \<lparr>aKind = kind, TargetLFDI = targetFrom ctx\<rparr>")
  case False
  then obtain e w1 where g: "guarded ctx MethodPost kind w = (Some e, w1)" "sent w1 = sent w"
      "serverTimeOffset w1 = serverTimeOffset w" by (rule guarded_refused)
  then show ?thesis using exchange_refused [OF g(2,3), of c ctx MethodPost kind data "\<lambda>_. True"] by (simp add: Post_def)
next
  case True
  obtain r1 w1 where o: "postOnce c (baseURL c @ path) path data w = (r1, w1)" by fastforce
  let ?w2 = "snd (Post c ctx kind path (Some data) w)"
  have "follows c MethodPost data (\<lambda>_. True) r1 w1 ?w2"
  proof (cases "\<exists>e l t. r1 = Inl e \<and> movedTo e = Some l \<and> resolveServerURL c l = Inr t")
    case True
    then obtain e l t where h: "r1 = Inl e" "movedTo e = Some l" "resolveServerURL c l = Inr t" by blast
    obtain r2 w2 where o2: "postOnce c t l data w1 = (r2, w2)" by fastforce
    have "?w2 = w2" using o o2 h \<open>permits _ _ _\<close>
      by (simp add: Post_def guarded_permitted split: sum.split)
    with followsI [where Q = "\<lambda>_. True", OF h(1,2) TrueI postOnce_ok [OF o2]] show ?thesis by simp
  next
    case False
    then have "?w2 = w1" using o \<open>permits _ _ _\<close>
      by (auto simp: Post_def guarded_permitted split: sum.splits option.splits)
    then show ?thesis by (simp add: follows_def)
  qed
  from exchange_two [OF True postOnce_ok [OF o] this] show ?thesis by blast
qed

lemma Put_exchange:
  "\<exists>rqs. exchange c ctx MethodPut kind data w (snd (Put c ctx kind path (Some data) w)) rqs \<and>
     (\<forall>r\<in>set rqs. serverURL c (rqURL r))"
proof (cases "permits (cGuard w) MethodPut \<lparr>aKind = kind, TargetLFDI = targetFrom ctx\<rparr>")
  case False
  then obtain e w1 where g: "guarded ctx MethodPut kind w = (Some e, w1)" "sent w1 = sent w"
      "serverTimeOffset w1 = serverTimeOffset w" by (rule guarded_refused)
  then show ?thesis using exchange_refused [OF g(2,3), of c ctx MethodPut kind data "serverURL c"] by (simp add: Put_def)
next
  case True
  show ?thesis
  proof (cases "putTarget c path")
    case (Inl e)
    then have "snd (Put c ctx kind path (Some data) w) = w" using True by (simp add: Put_def guarded_permitted)
    then show ?thesis using exchange_refused [of w w c ctx MethodPut kind data "serverURL c"] by simp
  next
    case (Inr u1)
    obtain r1 w1 where o: "putOnce c u1 path data w = (r1, w1)" by fastforce
    let ?w2 = "snd (Put c ctx kind path (Some data) w)"
    have "follows c MethodPut data (serverURL c) r1 w1 ?w2"
    proof (cases "\<exists>e l t. r1 = Inl e \<and> movedTo e = Some l \<and> putTarget c l = Inr t")
      case moved: True
      then obtain e l t where h: "r1 = Inl e" "movedTo e = Some l" "putTarget c l = Inr t" by blast
      obtain r2 w2 where o2: "putOnce c t l data w1 = (r2, w2)" by fastforce
      have "?w2 = w2" using o o2 h True Inr
        by (simp add: Put_def guarded_permitted split: sum.split)
      with followsI [where Q = "serverURL c", OF h(1,2) putTarget_server [OF h(3)] putOnce_ok [OF o2]] show ?thesis by simp
    next
      case False
      then have "?w2 = w1" using o True Inr
        by (auto simp: Put_def guarded_permitted split: sum.splits option.splits)
      then show ?thesis by (simp add: follows_def)
    qed
    from exchange_two [OF True putOnce_ok [OF o] this putTarget_server [OF Inr]] show ?thesis .
  qed
qed

text \<open>C10: Whatever the server answers, a GET, POST or PUT sends at most two requests, all of them under its
  own verb and with its own body; it sends none unless the guard permits the action under that verb; and it
  sends a second one only after the first was answered with a redirect that names a place to go. Every PUT
  goes to the configured scheme, host and port, the one that follows a redirect included.\<close>

theorem client_requests:
  "(\<exists>rqs. exchange c ctx MethodGet kind [] w (snd (Get c ctx kind path dec w)) rqs) \<and>
   (\<exists>rqs. exchange c ctx MethodPost kind data w (snd (Post c ctx kind path (Some data) w)) rqs) \<and>
   (\<exists>rqs. exchange c ctx MethodPut kind data w (snd (Put c ctx kind path (Some data) w)) rqs \<and>
      list_all (\<lambda>r. serverURL c (rqURL r)) rqs)"
  using Get_exchange Post_exchange Put_exchange by (auto simp: list_all_iff)

end
