(* ===== verification/ClientApi.thy ===== *)
theory ClientApi
  imports Http ControlCache
begin

text \<open>
  The typed operations of \<open>internal/inverter/client.go\<close> over GET, POST and PUT: discovery and
  registration, the paged lists, the writes of the DER resources, mirrors, the wait for a provisioned
  entry point and the synchronisation of the clock. The resources are those of the core library; only
  the fields that the client reads are modelled, and their XML is a parameter (an encoder, which may fail,
  and a decoder).
\<close>

section \<open>Resources\<close>

record EndDevice =
  edHref :: string
  SFDI :: string
  LFDI :: string
  Enabled :: "bool option"
  RegistrationLink :: "string option"
  FunctionSetAssignmentsListLink :: "string option"
  DERListLink :: "string option"
  SubscriptionListLink :: "string option"
  LogEventListLink :: "string option"

record EndDeviceList =
  edEndDevice :: "EndDevice list"

record DeviceCapability =
  PollRate :: "32 word"
  EndDeviceListLink :: "string option"
  TimeLink :: "string option"
  SelfDeviceLink :: "string option"
  MirrorUsagePointListLink :: "string option"
  ResponseSetListLink :: "string option"

record MirrorUsagePoint =
  mupMRID :: string
  DeviceLFDI :: string

section \<open>Discovery and registration\<close>

definition Discover :: "'w Client \<Rightarrow> Ctx \<Rightarrow> (string \<Rightarrow> DeviceCapability option) \<Rightarrow> 'w World \<Rightarrow> ('w, DeviceCapability) result" where
  "Discover c ctx dec w =
     (case Get c ctx KindEndDeviceRead ''/dcap'' dec w of
        (Inl e, w) \<Rightarrow> (Inl e, w)
      | (Inr (d, _), w) \<Rightarrow> (Inr d, w))"

definition blankEndDevice :: EndDevice where
  "blankEndDevice = \<lparr>edHref = [], SFDI = [], LFDI = [], Enabled = None, RegistrationLink = None,
     FunctionSetAssignmentsListLink = None, DERListLink = None, SubscriptionListLink = None, LogEventListLink = None\<rparr>"

text \<open>The new list href is a result of its own: a failing read-back still returns it.\<close>

definition Register :: "'w Client \<Rightarrow> Ctx \<Rightarrow> (EndDevice \<Rightarrow> string option) \<Rightarrow> (string \<Rightarrow> EndDevice option) \<Rightarrow> string \<Rightarrow> 'w World \<Rightarrow>
    (httpErr + EndDevice) \<times> string \<times> 'w World" where
  "Register c ctx enc dec edevListHref w =
     (if edevListHref = [] then (Inl (ErrMsg ''edev list href required''), [], w)
      else
        (let edev = blankEndDevice\<lparr>SFDI := sfdi c, LFDI := lfdi c, Enabled := Some True\<rparr>
         in (case Post c ctx KindEndDeviceCreate edevListHref (enc edev) w of
               (Inl e, w) \<Rightarrow> (Inl e, [], w)
             | (Inr (loc, newHref), w) \<Rightarrow>
                 if loc \<noteq> [] then
                   (case Get c ctx KindEndDeviceRead loc dec w of
                      (Inl e, w) \<Rightarrow> (Inl e, newHref, w)
                    | (Inr (d, _), w) \<Rightarrow> (Inr d, newHref, w))
                 else (Inr blankEndDevice, newHref, w))))"

section \<open>Paged lists\<close>

definition pageSep :: "string \<Rightarrow> string" where
  "pageSep href = (if CHR ''?'' \<in> set href then ''&'' else ''?'')"

definition trimSuffix :: "string \<Rightarrow> string \<Rightarrow> string" where
  "trimSuffix s suf =
     (if length suf \<le> length s \<and> drop (length s - length suf) s = suf then take (length s - length suf) s else s)"

definition stripPagingQuery :: "string \<Rightarrow> string \<Rightarrow> string" where
  "stripPagingQuery followed sep = (if followed = [] then [] else trimSuffix followed (sep @ ''l=255''))"

text \<open>What every list operation does: the empty href refused, the first page read, the new base href.\<close>

definition getPaged :: "'w Client \<Rightarrow> Ctx \<Rightarrow> string \<Rightarrow> string \<Rightarrow> (string \<Rightarrow> 'a option) \<Rightarrow> string \<Rightarrow> 'w World \<Rightarrow> ('w, 'a \<times> string) result" where
  "getPaged c ctx what wrap dec href w =
     (if href = [] then (Inl (ErrMsg (what @ '' href required'')), w)
      else
        (case Get c ctx KindEndDeviceRead (href @ pageSep href @ ''l=255'') dec w of
           (Inl e, w) \<Rightarrow> (Inl (Wrap wrap e), w)
         | (Inr (v, followed), w) \<Rightarrow> (Inr (v, stripPagingQuery followed (pageSep href)), w)))"

definition GetEndDeviceList :: "'w Client \<Rightarrow> Ctx \<Rightarrow> (string \<Rightarrow> EndDeviceList option) \<Rightarrow> string \<Rightarrow> 'w World \<Rightarrow> ('w, EndDeviceList \<times> string) result" where
  "GetEndDeviceList c ctx dec href w = getPaged c ctx ''edev list'' ''get edev list: '' dec href w"

definition GetFSAList :: "'w Client \<Rightarrow> Ctx \<Rightarrow> (string \<Rightarrow> 'a option) \<Rightarrow> string \<Rightarrow> 'w World \<Rightarrow> ('w, 'a \<times> string) result" where
  "GetFSAList c ctx dec href w = getPaged c ctx ''FSAList'' ''GET FSAList: '' dec href w"

definition GetDERProgramList :: "'w Client \<Rightarrow> Ctx \<Rightarrow> (string \<Rightarrow> 'a option) \<Rightarrow> string \<Rightarrow> 'w World \<Rightarrow> ('w, 'a \<times> string) result" where
  "GetDERProgramList c ctx dec href w = getPaged c ctx ''DERProgramList'' ''GET DERProgramList: '' dec href w"

definition GetDERControlList :: "'w Client \<Rightarrow> Ctx \<Rightarrow> (string \<Rightarrow> DERControlListResult option) \<Rightarrow> string \<Rightarrow> 'w World \<Rightarrow>
    ('w, DERControlListResult \<times> string) result" where
  "GetDERControlList c ctx dec href w = getPaged c ctx ''DERControlList'' ''GET DERControlList: '' dec href w"

definition GetDERCurveList :: "'w Client \<Rightarrow> Ctx \<Rightarrow> (string \<Rightarrow> 'a option) \<Rightarrow> string \<Rightarrow> 'w World \<Rightarrow> ('w, 'a) result" where
  "GetDERCurveList c ctx dec href w =
     (case getPaged c ctx ''DERCurveList'' ''GET DERCurveList: '' dec href w of
        (Inl e, w) \<Rightarrow> (Inl e, w)
      | (Inr (v, _), w) \<Rightarrow> (Inr v, w))"

text \<open>The new href is returned with the error too.\<close>

definition LookupOwnEndDevice :: "'w Client \<Rightarrow> Ctx \<Rightarrow> (string \<Rightarrow> EndDeviceList option) \<Rightarrow> string \<Rightarrow> 'w World \<Rightarrow>
    (httpErr + EndDevice) \<times> string \<times> 'w World" where
  "LookupOwnEndDevice c ctx dec href w =
     (case getPaged c ctx ''edev list'' ''get edev list: '' dec href w of
        (Inl e, w) \<Rightarrow> (Inl e, [], w)
      | (Inr (list, newHref), w) \<Rightarrow>
          (case find (\<lambda>ed. equalFold (LFDI ed) (lfdi c)) (edEndDevice list) of
             Some ed \<Rightarrow> (Inr ed, newHref, w)
           | None \<Rightarrow> (Inl ErrEndDeviceNotFound, newHref, w)))"

definition GetRegistration :: "'w Client \<Rightarrow> Ctx \<Rightarrow> (string \<Rightarrow> 'a option) \<Rightarrow> string \<Rightarrow> 'w World \<Rightarrow> ('w, 'a) result" where
  "GetRegistration c ctx dec href w =
     (if href = [] then (Inl (ErrMsg ''registration href required''), w)
      else
        (case Get c ctx KindRegistrationRead href dec w of
           (Inl e, w) \<Rightarrow> (Inl (Wrap ''GET registration: '' e), w)
         | (Inr (v, _), w) \<Rightarrow> (Inr v, w)))"

definition GetDefaultDERControl :: "'w Client \<Rightarrow> Ctx \<Rightarrow> (string \<Rightarrow> DefaultDERControl option) \<Rightarrow> string \<Rightarrow> 'w World \<Rightarrow>
    ('w, DefaultDERControl \<times> string) result" where
  "GetDefaultDERControl c ctx dec href w =
     (if href = [] then (Inl (ErrMsg ''DefaultDERControl href required''), w)
      else
        (case Get c ctx KindEndDeviceRead href dec w of
           (Inl e, w) \<Rightarrow> (Inl (Wrap ''GET DefaultDERControl: '' e), w)
         | (Inr (v, newHref), w) \<Rightarrow> (Inr (v, newHref), w)))"

section \<open>Writes\<close>

text \<open>The four writes of a DER resource; the body is the marshalled resource.\<close>

definition putDER :: "'w Client \<Rightarrow> Ctx \<Rightarrow> string \<Rightarrow> string \<Rightarrow> string option \<Rightarrow> 'w World \<Rightarrow> ('w, unit) result" where
  "putDER c ctx what href body w =
     (if href = [] then (Inl (ErrMsg (what @ '' href required'')), w)
      else
        (case Put c ctx KindDERResourceWrite href body w of
           (Inl e, w) \<Rightarrow> (Inl e, w)
         | (Inr _, w) \<Rightarrow> (Inr (), w)))"

definition PutDERCapability :: "'w Client \<Rightarrow> Ctx \<Rightarrow> string \<Rightarrow> string option \<Rightarrow> 'w World \<Rightarrow> ('w, unit) result" where
  "PutDERCapability c ctx href body w = putDER c ctx ''dercap'' href body w"

definition PutDERSettings :: "'w Client \<Rightarrow> Ctx \<Rightarrow> string \<Rightarrow> string option \<Rightarrow> 'w World \<Rightarrow> ('w, unit) result" where
  "PutDERSettings c ctx href body w = putDER c ctx ''dersettings'' href body w"

definition PutDERStatus :: "'w Client \<Rightarrow> Ctx \<Rightarrow> string \<Rightarrow> string option \<Rightarrow> 'w World \<Rightarrow> ('w, unit) result" where
  "PutDERStatus c ctx href body w = putDER c ctx ''derstatus'' href body w"

definition PutDERAvailability :: "'w Client \<Rightarrow> Ctx \<Rightarrow> string \<Rightarrow> string option \<Rightarrow> 'w World \<Rightarrow> ('w, unit) result" where
  "PutDERAvailability c ctx href body w = putDER c ctx ''deravailability'' href body w"

definition CreateMirrorUsagePoint :: "'w Client \<Rightarrow> Ctx \<Rightarrow> (MirrorUsagePoint \<Rightarrow> string option) \<Rightarrow> string \<Rightarrow> string \<Rightarrow>
    MirrorUsagePoint \<Rightarrow> 'w World \<Rightarrow> ('w, string) result" where
  "CreateMirrorUsagePoint c ctx enc mupListHref deviceLFDI mup w =
     (if mupListHref = [] then (Inl (ErrMsg ''mup list href required''), w)
      else if deviceLFDI = [] then (Inl (ErrMsg ''device LFDI required''), w)
      else if targetFrom ctx \<noteq> [] \<and> \<not> equalFold (targetFrom ctx) deviceLFDI then
        (Inl (ErrMsg (''mirror device LFDI '' @ deviceLFDI @ '' does not match the request target '' @ targetFrom ctx)), w)
      else if targetFrom ctx = [] \<and> \<not> equalFold (lfdi c) deviceLFDI then
        (Inl (ErrMsg (''mirror device LFDI '' @ deviceLFDI @ '' is not this client's LFDI and the request names no target'')), w)
      else
        (case Post c ctx KindMirrorPost mupListHref (enc (mup\<lparr>DeviceLFDI := deviceLFDI\<rparr>)) w of
           (Inl e, w) \<Rightarrow> (Inl e, w)
         | (Inr (loc, _), w) \<Rightarrow> (Inr loc, w)))"

definition PostMeterReading :: "'w Client \<Rightarrow> Ctx \<Rightarrow> string \<Rightarrow> string option \<Rightarrow> 'w World \<Rightarrow> ('w, unit) result" where
  "PostMeterReading c ctx href body w =
     (if href = [] then (Inl (ErrMsg ''mmr list href required''), w)
      else
        (case Post c ctx KindMirrorPost href body w of
           (Inl e, w) \<Rightarrow> (Inl e, w)
         | (Inr _, w) \<Rightarrow> (Inr (), w)))"

section \<open>Waiting for the entry point\<close>

definition defaultPollDuration :: "32 word \<Rightarrow> duration" where
  "defaultPollDuration r = (if r = 0 then 30000000000 else seconds (uint r))"

definition dcapHasAnyLink :: "DeviceCapability \<Rightarrow> bool" where
  "dcapHasAnyLink d \<longleftrightarrow> EndDeviceListLink d \<noteq> None \<or> TimeLink d \<noteq> None \<or> SelfDeviceLink d \<noteq> None \<or>
     MirrorUsagePointListLink d \<noteq> None \<or> ResponseSetListLink d \<noteq> None"

text \<open>
  Each wait of the loop is ended by the timer or by the context, with the context's error: \<open>cancel\<close> has
  that error for each of the waits to come. \<open>None\<close> is a loop still waiting when the list is used up. The waits taken
  are returned too.
\<close>

fun WaitForAdvertisedLinks :: "'w Client \<Rightarrow> Ctx \<Rightarrow> (string \<Rightarrow> DeviceCapability option) \<Rightarrow> transportErr option list \<Rightarrow> DeviceCapability \<Rightarrow> 'w World \<Rightarrow>
    ((DeviceCapability \<times> httpErr option) \<times> duration list \<times> 'w World) option" where
  "WaitForAdvertisedLinks c ctx dec cancel d w =
     (if dcapHasAnyLink d then Some ((d, None), [], w)
      else case cancel of
             [] \<Rightarrow> None
           | Some e # _ \<Rightarrow> Some ((d, Some (netErr e)), [defaultPollDuration (PollRate d)], w)
           | None # rest \<Rightarrow>
               (case Discover c ctx dec w of
                  (Inl e, w) \<Rightarrow> Some ((d, Some (Wrap ''re-discover after idle wait: '' e)), [defaultPollDuration (PollRate d)], w)
                | (Inr d', w) \<Rightarrow>
                    (case WaitForAdvertisedLinks c ctx dec rest d' w of
                       None \<Rightarrow> None
                     | Some (r, ws, w) \<Rightarrow> Some (r, defaultPollDuration (PollRate d) # ws, w))))"

declare WaitForAdvertisedLinks.simps [simp del]

section \<open>The server's clock\<close>

text \<open>\<open>Now\<close> at the local clock reading \<open>t\<close>.\<close>

definition Now :: "'w World \<Rightarrow> time \<Rightarrow> time" where
  "Now w t = t + serverTimeOffset w"

definition GetServerTime :: "'w Client \<Rightarrow> Ctx \<Rightarrow> (string \<Rightarrow> int option) \<Rightarrow> string \<Rightarrow> 'w World \<Rightarrow> ('w, int) result" where
  "GetServerTime c ctx dec href w =
     (if href = [] then (Inl (ErrMsg ''time href required''), w)
      else
        (case Get c ctx KindEndDeviceRead href dec w of
           (Inl e, w) \<Rightarrow> (Inl (Wrap ''get server time: '' e), w)
         | (Inr (t, _), w) \<Rightarrow> (Inr t, w)))"

text \<open>The server's \<open>CurrentTime\<close> in seconds; \<open>local\<close> is the clock's reading once the answer is parsed.\<close>

definition SyncServerTime :: "'w Client \<Rightarrow> Ctx \<Rightarrow> (string \<Rightarrow> int option) \<Rightarrow> string \<Rightarrow> time \<Rightarrow> 'w World \<Rightarrow> ('w, int) result" where
  "SyncServerTime c ctx dec href localNow w =
     (case GetServerTime c ctx dec href w of
        (Inl e, w) \<Rightarrow> (Inl e, w)
      | (Inr t, w) \<Rightarrow> (Inr t, w\<lparr>serverTimeOffset := timeSub (unixTime t) localNow\<rparr>))"

definition DefaultTimeSyncPollRate :: duration where "DefaultTimeSyncPollRate = 1800000000000"
definition minTimeSyncPollRate :: duration where "minTimeSyncPollRate = 60000000000"

definition timeSyncRate :: "duration \<Rightarrow> duration" where
  "timeSyncRate pollRate =
     (let r = (if pollRate \<le> 0 then DefaultTimeSyncPollRate else pollRate)
      in if r < minTimeSyncPollRate then minTimeSyncPollRate else r)"

text \<open>
  The loop over the ticks before the context ends, each with the local clock after its answer; the waits
  it takes and the failures it logs are its output.
\<close>

fun timeSyncTicks :: "'w Client \<Rightarrow> Ctx \<Rightarrow> (string \<Rightarrow> int option) \<Rightarrow> string \<Rightarrow> time list \<Rightarrow> 'w World \<Rightarrow> httpErr list \<times> 'w World" where
  "timeSyncTicks c ctx dec href [] w = ([], w)"
| "timeSyncTicks c ctx dec href (t # ts) w =
     (case SyncServerTime c ctx dec href t w of
        (Inl e, w) \<Rightarrow> (case timeSyncTicks c ctx dec href ts w of (es, w) \<Rightarrow> ((if isCtxErr e then [] else [e]) @ es, w))
      | (Inr _, w) \<Rightarrow> timeSyncTicks c ctx dec href ts w)"

definition RunTimeSync :: "'w Client \<Rightarrow> Ctx \<Rightarrow> (string \<Rightarrow> int option) \<Rightarrow> string \<Rightarrow> duration \<Rightarrow> time list \<Rightarrow> 'w World \<Rightarrow>
    duration list \<times> httpErr list \<times> 'w World" where
  "RunTimeSync c ctx dec href pollRate ticks w =
     (if href = [] then ([], [], w)
      else (replicate (length ticks + 1) (timeSyncRate pollRate), timeSyncTicks c ctx dec href ticks w))"

section \<open>Posting a Response\<close>

text \<open>One attempt of \<open>PostResponse\<close>, which classifies the answers by a rule of its own.\<close>

definition postResponseOnce :: "'w Client \<Rightarrow> string \<Rightarrow> string \<Rightarrow> 'w World \<Rightarrow> httpErr option \<times> 'w World" where
  "postResponseOnce c target body w =
     (if urlParse c target = None then (Some (Wrap (''build POST Response request for '' @ target @ '': '') (ErrMsg [])), w)
      else case send c \<lparr>rqMethod = MethodPost, rqURL = target, rqBody = body\<rparr> w of
             (TransportFail e, w) \<Rightarrow>
               (if isCtxErr (netErr e) then (Some (netErr e), w)
                else (Some (Wrap (''POST Response '' @ target @ '': '') ErrResponseTransient), w))
           | (Reply code loc _, w) \<Rightarrow>
               if code = 201 \<or> code = 204 then (None, w)
               else if 500 \<le> code \<and> code \<le> 599 then
                 (Some (Wrap (''POST Response '' @ target @ '': status '' @ itoa code @ '': '') ErrResponseTransient), w)
               else if 400 \<le> code \<and> code < 500 then
                 (Some (ErrMsg (''POST Response '' @ target @ '': client error status '' @ itoa code)), w)
               else (Some (ErrMsg (''POST Response '' @ target @ '': unexpected status '' @ itoa code)), w))"

text \<open>The two attempts of \<open>sendResponse\<close>.\<close>

fun sendAttempts :: "'w Client \<Rightarrow> string \<Rightarrow> string \<Rightarrow> nat \<Rightarrow> httpErr option \<Rightarrow> 'w World \<Rightarrow> httpErr option \<times> 'w World" where
  "sendAttempts c target body 0 lastErr w = (lastErr, w)"
| "sendAttempts c target body (Suc n) lastErr w =
     (case postResponseOnce c target body w of
        (None, w) \<Rightarrow> (None, w)
      | (Some e, w) \<Rightarrow>
          if isCtxErr e then (Some (Wrap (''POST Response '' @ target @ '': '') e), w)
          else if \<not> errorsIs e ErrResponseTransient then (Some e, w)
          else sendAttempts c target body n (Some e) w)"

definition sendResponse :: "'w Client \<Rightarrow> string \<Rightarrow> string option \<Rightarrow> 'w World \<Rightarrow> httpErr option \<times> 'w World" where
  "sendResponse c replyTo body w =
     (case resolveServerURL c replyTo of
        Inl e \<Rightarrow> (Some (Wrap ''resolve replyTo: '' e), w)
      | Inr target \<Rightarrow>
          (case body of
             None \<Rightarrow> (Some (Wrap ''marshal: '' (ErrMsg [])), w)
           | Some b \<Rightarrow> sendAttempts c target b 2 None w))"

text \<open>The fields of a response that the client reads; its XML is a parameter.\<close>

record DERControlResponse =
  EndDeviceLFDI :: string
  Subject :: string
  rStatus :: "8 word option"
  CreatedDateTime :: "int option"
  rHref :: string

definition PostResponse :: "'w Client \<Rightarrow> Ctx \<Rightarrow> (DERControlResponse \<Rightarrow> string option) \<Rightarrow> string \<Rightarrow> DERControlResponse \<Rightarrow> 'w World \<Rightarrow>
    httpErr option \<times> 'w World" where
  "PostResponse c ctx enc replyTo resp w =
     (if replyTo = [] then (Some (ErrMsg ''replyTo href required''), w)
      else
        (case guarded ctx MethodPost KindResponsePost w of
           (Some e, w) \<Rightarrow> (Some (Wrap (''POST Response '' @ replyTo @ '': '') e), w)
         | (None, w) \<Rightarrow>
             if targetFrom ctx \<noteq> [] \<and> \<not> equalFold (targetFrom ctx) (EndDeviceLFDI resp) then
               (Some (ErrMsg (''Response device LFDI '' @ EndDeviceLFDI resp @ '' does not match the request target '' @ targetFrom ctx)), w)
             else sendResponse c replyTo (enc resp) w))"

section \<open>What the operations guarantee\<close>

lemma trimSuffix_append [simp]: "trimSuffix (a @ suf) suf = a"
  by (simp add: trimSuffix_def)

lemma trimSuffix_keep: "\<not> (\<exists>a. s = a @ suf) \<Longrightarrow> trimSuffix s suf = s"
proof -
  assume h: "\<not> (\<exists>a. s = a @ suf)"
  have "drop (length s - length suf) s \<noteq> suf"
  proof
    assume "drop (length s - length suf) s = suf"
    then have "s = take (length s - length suf) s @ suf" by (metis append_take_drop_id)
    then show False using h by blast
  qed
  then show ?thesis by (simp add: trimSuffix_def)
qed

text \<open>The paging query of a list is undone: a redirect to the same page of another list gives that
  list's own href back, so that the next poll of the new href asks for its first page, once; a redirect that
  already carries a query of its own when the old href had none is kept with its paging query.\<close>

theorem paging_roundtrip:
  assumes "href \<noteq> []"
  shows "stripPagingQuery (href @ pageSep href @ ''l=255'') (pageSep href) = href \<and>
    stripPagingQuery [] (pageSep href) = [] \<and>
    (CHR ''?'' \<notin> set href \<longrightarrow> (\<exists>q. moved = q @ ''&l=255'') \<longrightarrow> stripPagingQuery moved (pageSep href) = moved)"
proof -
  have "stripPagingQuery moved ''?'' = moved" if m: "moved = q @ ''&l=255''" for q
  proof -
    have "\<not> (\<exists>a. q @ ''&l=255'' = a @ ''?l=255'')"
    proof
      assume "\<exists>a. q @ ''&l=255'' = a @ ''?l=255''"
      then obtain a where "(q @ ''&'') @ ''l=255'' = (a @ ''?'') @ ''l=255''" by auto
      then have "q @ ''&'' = a @ ''?''" by (simp only: append_same_eq)
      then show False by simp
    qed
    then show ?thesis using trimSuffix_keep [of moved "''?l=255''"] m by (simp add: stripPagingQuery_def)
  qed
  then show ?thesis using assms by (auto simp: stripPagingQuery_def pageSep_def)
qed

theorem paging_roundtrip_witness:
  "stripPagingQuery (''/edev'' @ pageSep ''/edev'' @ ''l=255'') (pageSep ''/edev'') = ''/edev'' \<and>
   stripPagingQuery ''/e?s=1&l=255'' (pageSep ''/edev'') = ''/e?s=1&l=255''"
  using paging_roundtrip [of "''/edev''" "''/e?s=1&l=255''"] by (auto simp: pageSep_def)

lemma Get_offset: "serverTimeOffset (snd (Get c ctx kind path dec w)) = serverTimeOffset w"
  using Get_exchange [of c ctx kind w path dec] by (auto simp: exchange_def)

lemma GetServerTime_offset: "GetServerTime c ctx dec href w = (r, w') \<Longrightarrow> serverTimeOffset w' = serverTimeOffset w"
  using Get_offset [of c ctx KindEndDeviceRead href dec w]
  by (auto simp: GetServerTime_def split: prod.splits sum.splits if_splits)

text \<open>After a synchronisation that succeeds at the local reading \<open>t0\<close>, the client's clock shows the
  server's time then and runs with the local clock from there on, so the time it gives never depends on the
  local clock being set right; a synchronisation that fails leaves the clock as it was. The periodic loop
  never asks more often than once a minute, and asks every half hour when it is given no rate.\<close>

theorem clock_follows_server:
  assumes "SyncServerTime c ctx dec href t0 w = (r, w')" "\<bar>unixTime t - t0\<bar> \<le> maxInt64"
  shows "(r = Inr t \<longrightarrow> Now w' (t0 + d) = unixTime t + d) \<and> ((\<exists>e. r = Inl e) \<longrightarrow> Now w' now = Now w now) \<and>
    60000000000 \<le> timeSyncRate p \<and> timeSyncRate 0 = 1800000000000 \<and> (60000000000 \<le> p \<longrightarrow> timeSyncRate p = p)"
proof -
  have "Now w' (t0 + d) = unixTime t + d" if "r = Inr t"
    using assms that timeSub_id [OF assms(2)] by (auto simp: SyncServerTime_def Now_def split: prod.splits sum.splits)
  moreover have "Now w' now = Now w now" if "\<exists>e. r = Inl e"
  proof -
    obtain r1 w1 where g: "GetServerTime c ctx dec href w = (r1, w1)" by fastforce
    then have "w' = w1" using assms(1) that by (auto simp: SyncServerTime_def split: sum.splits)
    then show ?thesis using GetServerTime_offset [OF g] by (simp add: Now_def)
  qed
  ultimately show ?thesis
    by (auto simp: timeSyncRate_def minTimeSyncPollRate_def DefaultTimeSyncPollRate_def)
qed

section \<open>A concrete client for the witnesses\<close>

text \<open>A server that answers every request with one reply and counts them; the state is the count.\<close>

definition demoClient :: "reply \<Rightarrow> nat Client" where
  "demoClient rep = \<lparr>baseURL = ''https://s'', sfdi = ''1'', lfdi = ''AA'', pen = 0,
     urlParse = (\<lambda>s. Some \<lparr>Scheme = ''https'', Host = ''s'', urlRest = s\<rparr>), urlString = urlRest,
     resolveReference = (\<lambda>b u. u), http = (\<lambda>rq n. (rep, Suc n))\<rparr>"

definition demoWorld :: "nat World" where
  "demoWorld = \<lparr>srv = 0, sent = [], cGuard = NewGuard RoleDER ''AA'' None [], refusalLines = [], serverTimeOffset = 0\<rparr>"

abbreviation demoCtx :: Ctx where
  "demoCtx \<equiv> \<lparr>targetFrom = [], ctxNow = 0\<rparr>"

lemma demo_permits:
  "kind \<in> derSelfKinds \<Longrightarrow> guarded demoCtx (kindMethod kind) kind demoWorld = (None, demoWorld)"
  by (simp add: guarded_cases permits_def ownTarget_def selfAllowed_def demoWorld_def NewGuard_def RoleDER_def RoleAggregator_def)

lemma demo_reads: "guarded demoCtx MethodGet KindEndDeviceRead demoWorld = (None, demoWorld)"
  using demo_permits [of KindEndDeviceRead] by (simp add: derSelfKinds_def)

lemma demo_Get:
  "dec b = Some v \<Longrightarrow>
   Get (demoClient (Reply 200 [] (Some b))) demoCtx KindEndDeviceRead path dec demoWorld =
     (Inr (v, []), demoWorld\<lparr>srv := 1, sent := [\<lparr>rqMethod = MethodGet, rqURL = ''https://s'' @ path, rqBody = []\<rparr>]\<rparr>)"
  by (simp add: Get_def demo_reads getOnce_def attempt_def send_def demoClient_def classifyResponse_def)
    (simp add: demoWorld_def)

theorem clock_follows_server_witness:
  "\<exists>w'. SyncServerTime (demoClient (Reply 200 [] (Some ''5''))) demoCtx (\<lambda>_. Some 5) ''/tm'' (unixTime 2) demoWorld = (Inr 5, w') \<and>
     Now w' (unixTime 2 + 7) = unixTime 5 + 7"
proof -
  obtain w' where s: "SyncServerTime (demoClient (Reply 200 [] (Some ''5''))) demoCtx (\<lambda>_. Some 5) ''/tm'' (unixTime 2) demoWorld = (Inr 5, w')"
    by (simp add: SyncServerTime_def GetServerTime_def demo_Get)
  have "Now w' (unixTime 2 + 7) = unixTime 5 + 7"
    using clock_follows_server [OF s, of 5 7] by (simp add: unixTime_def maxInt64_def)
  with s show ?thesis by blast
qed

section \<open>Mirrors and responses\<close>

lemma Post_None: "sent (snd (Post c ctx kind path None w)) = sent w"
  by (auto simp: Post_def guarded_cases Let_def)

lemma Post_sent:
  "\<exists>rqs. sent (snd (Post c ctx kind path body w)) = sent w @ rqs \<and>
     (\<forall>r\<in>set rqs. rqMethod r = MethodPost \<and> body = Some (rqBody r)) \<and>
     (rqs = [] \<or> permits (cGuard w) MethodPost \<lparr>aKind = kind, TargetLFDI = targetFrom ctx\<rparr>)"
proof (cases body)
  case None
  then show ?thesis using Post_None [of c ctx kind path w] by (intro exI [of _ "[]"]) simp
next
  case (Some d)
  then show ?thesis using Post_exchange [of c ctx kind d w path] by (auto simp: exchange_def)
qed

text \<open>A mirror is only ever posted for the device it describes: every request that
  \<open>CreateMirrorUsagePoint\<close> sends carries the mirror with the given device's LFDI filled in, that LFDI is the
  request's target or, without a target, the client's own, and the guard permitted a mirror for that target.\<close>

theorem mirror_names_its_device:
  assumes "CreateMirrorUsagePoint c ctx enc href dev mup w = (r, w')"
  shows "\<exists>rqs. sent w' = sent w @ rqs \<and>
    list_all (\<lambda>rq. rqMethod rq = MethodPost \<and> enc (mup\<lparr>DeviceLFDI := dev\<rparr>) = Some (rqBody rq)) rqs \<and>
    (rqs = [] \<or> dev \<noteq> [] \<and> equalFold (if targetFrom ctx = [] then lfdi c else targetFrom ctx) dev \<and>
       permits (cGuard w) MethodPost \<lparr>aKind = KindMirrorPost, TargetLFDI = targetFrom ctx\<rparr>)"
proof (cases "href = [] \<or> dev = [] \<or> (targetFrom ctx \<noteq> [] \<and> \<not> equalFold (targetFrom ctx) dev) \<or>
    (targetFrom ctx = [] \<and> \<not> equalFold (lfdi c) dev)")
  case True
  then have "w' = w" using assms by (auto simp: CreateMirrorUsagePoint_def split: if_splits)
  then show ?thesis by (intro exI [of _ "[]"]) simp
next
  case False
  then have "w' = snd (Post c ctx KindMirrorPost href (enc (mup\<lparr>DeviceLFDI := dev\<rparr>)) w)"
    using assms by (auto simp: CreateMirrorUsagePoint_def split: prod.splits sum.splits if_splits)
  with False Post_sent [of c ctx KindMirrorPost href "enc (mup\<lparr>DeviceLFDI := dev\<rparr>)" w]
  show ?thesis by (auto simp: list_all_iff)
qed

theorem mirror_names_its_device_witness:
  "length (sent (snd (CreateMirrorUsagePoint (demoClient (Reply 201 ''/mup/1'' None)) demoCtx (\<lambda>m. Some (DeviceLFDI m)) ''/mup'' ''aa''
      \<lparr>mupMRID = ''M'', DeviceLFDI = []\<rparr> demoWorld))) = 1 \<and>
   equalFold (lfdi (demoClient (Reply 201 ''/mup/1'' None))) ''aa''"
proof -
  let ?c = "demoClient (Reply 201 ''/mup/1'' None)"
  let ?r = "CreateMirrorUsagePoint ?c demoCtx (\<lambda>m. Some (DeviceLFDI m)) ''/mup'' ''aa'' \<lparr>mupMRID = ''M'', DeviceLFDI = []\<rparr> demoWorld"
  have eq: "equalFold ''AA'' ''aa''" by (simp add: equalFold_def toUpper_def upperChar_def char_of_def bit_0)
  have p: "guarded demoCtx MethodPost KindMirrorPost demoWorld = (None, demoWorld)"
    using demo_permits [of KindMirrorPost] by (simp add: derSelfKinds_def)
  have l: "lfdi ?c = ''AA''" by (simp add: demoClient_def)
  have sent: "length (sent (snd ?r)) = 1"
    by (simp add: CreateMirrorUsagePoint_def l eq Post_def p postOnce_def attempt_def send_def classifyResponse_def)
      (simp add: demoClient_def classifyResponse_def demoWorld_def)
  obtain r w' where "?r = (r, w')" by fastforce
  from mirror_names_its_device [OF this] this sent show ?thesis
    by (auto simp: demoWorld_def)
qed

end
