(* ===== verification/Alarms.thy ===== *)
theory Alarms
  imports ClientApi RideThrough
begin

text \<open>
  Alarm reporting: the codes of \<open>log_event_codes.go\<close>, the edge-triggered detector of
  \<open>alarm_detector.go\<close> and the emitter of \<open>log_event_emitter.go\<close> over the client's POST and the
  per-code limiter. The emitter is a parameter of the detector.
\<close>

section \<open>Codes and events\<close>

definition LogEventCodeVoltageLow :: "8 word" where "LogEventCodeVoltageLow = 1"
definition LogEventCodeVoltageHigh :: "8 word" where "LogEventCodeVoltageHigh = 2"
definition LogEventCodeFrequencyLow :: "8 word" where "LogEventCodeFrequencyLow = 3"
definition LogEventCodeFrequencyHigh :: "8 word" where "LogEventCodeFrequencyHigh = 4"
definition LogEventCodeReactiveLimit :: "8 word" where "LogEventCodeReactiveLimit = 5"
definition LogEventCodeActiveLimit :: "8 word" where "LogEventCodeActiveLimit = 6"
definition LogEventCodeGenDisable :: "8 word" where "LogEventCodeGenDisable = 7"

lemmas code_defs = LogEventCodeVoltageLow_def LogEventCodeVoltageHigh_def LogEventCodeFrequencyLow_def
  LogEventCodeFrequencyHigh_def LogEventCodeReactiveLimit_def LogEventCodeActiveLimit_def LogEventCodeGenDisable_def

record LogEvent =
  FunctionSet :: "8 word"
  LogEventCode :: "8 word"
  LogEventPEN :: "32 word"
  ProfileID :: "8 word"
  Details :: string
  leCreatedDateTime :: int

text \<open>\<open>%.2f\<close>: two decimals, rounded half to even.\<close>

definition roundHalfEven :: "real \<Rightarrow> int" where
  "roundHalfEven a = (let n = \<lfloor>a\<rfloor>; r = a - of_int n in
     if r < 1/2 then n else if r > 1/2 then n + 1 else if even n then n else n + 1)"

fun fmtF2 :: "f64 \<Rightarrow> string" where
  "fmtF2 (Fin a) =
     (let q = nat (roundHalfEven (\<bar>a\<bar> * 100))
      in (if a < 0 then ''-'' else []) @ digits (q div 100) @ ''.'' @ digits (q div 10 mod 10) @ digits (q mod 10))"
| "fmtF2 PInf = ''+Inf''"
| "fmtF2 NInf = ''-Inf''"
| "fmtF2 NaN = ''NaN''"

definition shortDetailF :: "f64 \<Rightarrow> string \<Rightarrow> string" where
  "shortDetailF v unit = fmtF2 v @ unit"

section \<open>The detector\<close>

record AlarmInputs =
  aiGrid :: GridState
  aiConnected :: bool
  aiEnergized :: bool
  aiActivePowerW :: f64
  aiReactivePowerVAr :: f64
  PreDisturbancePW :: f64
  aiRatedVAr :: f64
  AbnormalDuration :: duration

record AlarmState =
  VoltageLow :: bool
  VoltageHigh :: bool
  FrequencyLow :: bool
  FrequencyHigh :: bool
  ReactiveLimit :: bool
  ActiveLimit :: bool
  GenDisable :: bool

definition noAlarms :: AlarmState where
  "noAlarms = \<lparr>VoltageLow = False, VoltageHigh = False, FrequencyLow = False, FrequencyHigh = False,
     ReactiveLimit = False, ActiveLimit = False, GenDisable = False\<rparr>"

text \<open>\<open>hasEmitter\<close> tells whether the emitter is non-nil.\<close>

record AlarmDetector =
  hasEmitter :: bool
  logEventListHref :: string
  prevAlarms :: AlarmState
  suppressed :: "8 word set"
  reactiveLimitThreshold :: f64
  activeLimitMargin :: f64

definition NewAlarmDetector :: "bool \<Rightarrow> string \<Rightarrow> AlarmDetector" where
  "NewAlarmDetector emitter href =
     \<lparr>hasEmitter = emitter, logEventListHref = href, prevAlarms = noAlarms, suppressed = {},
      reactiveLimitThreshold = Fin (1/10), activeLimitMargin = Fin (1/20)\<rparr>"

definition enabled :: "AlarmDetector \<Rightarrow> bool" where
  "enabled d \<longleftrightarrow> hasEmitter d \<and> logEventListHref d \<noteq> []"

definition classify :: "AlarmDetector \<Rightarrow> AlarmInputs \<Rightarrow> AlarmState" where
  "classify d i =
     (let vTrip = CheckVoltageTrip (VoltsPU (aiGrid i)) (AbnormalDuration i);
          fTrip = CheckFrequencyTrip (FreqHz (aiGrid i)) (AbnormalDuration i);
          ratio = aiReactivePowerVAr i / aiRatedVAr i;
          absRatio = (if ratio < 0 then - ratio else ratio);
          fall = (PreDisturbancePW i - aiActivePowerW i) / PreDisturbancePW i
      in \<lparr>VoltageLow = vTrip \<and> VoltsPU (aiGrid i) < 1,
          VoltageHigh = vTrip \<and> \<not> VoltsPU (aiGrid i) < 1,
          FrequencyLow = fTrip \<and> FreqHz (aiGrid i) < 60,
          FrequencyHigh = fTrip \<and> \<not> FreqHz (aiGrid i) < 60,
          ReactiveLimit = 0 < aiRatedVAr i \<and> reactiveLimitThreshold d \<le> absRatio,
          ActiveLimit = 0 < PreDisturbancePW i \<and> activeLimitMargin d \<le> fall,
          GenDisable = \<not> aiConnected i \<or> \<not> aiEnergized i\<rparr>)"

definition logEventDetailFor :: "8 word \<Rightarrow> AlarmInputs \<Rightarrow> string" where
  "logEventDetailFor code i =
     (if code = LogEventCodeVoltageLow \<or> code = LogEventCodeVoltageHigh then shortDetailF (VoltsPU (aiGrid i)) ''pu''
      else if code = LogEventCodeFrequencyLow \<or> code = LogEventCodeFrequencyHigh then shortDetailF (FreqHz (aiGrid i)) ''Hz''
      else if code = LogEventCodeReactiveLimit then shortDetailF (aiReactivePowerVAr i) ''VAr''
      else if code = LogEventCodeActiveLimit then shortDetailF (aiActivePowerW i) ''W''
      else if code = LogEventCodeGenDisable then ''offline''
      else [])"

text \<open>
  The emitter takes the list's href and the event; the function set of DER is the core library's
  constant, a parameter. The events that were handed to the emitter are the last result.
\<close>

type_synonym 'w emitter = "string \<Rightarrow> LogEvent \<Rightarrow> 'w \<Rightarrow> (httpErr + string) \<times> 'w"

definition fireIfRising :: "8 word \<Rightarrow> 'w emitter \<Rightarrow> AlarmDetector \<Rightarrow> bool \<Rightarrow> bool \<Rightarrow> 8 word \<Rightarrow> AlarmInputs \<Rightarrow> 'w \<Rightarrow>
    AlarmDetector \<times> LogEvent list \<times> 'w" where
  "fireIfRising fsDER post d prev next code i w =
     (if \<not> next \<or> prev then (d, [], w)
      else if code \<in> suppressed d then (d, [], w)
      else if \<not> enabled d then (d, [], w)
      else
        (let evt = \<lparr>FunctionSet = fsDER, LogEventCode = code, LogEventPEN = 0, ProfileID = 2,
                    Details = logEventDetailFor code i, leCreatedDateTime = 0\<rparr>
         in (case post (logEventListHref d) evt w of
               (Inr _, w) \<Rightarrow> (d, [evt], w)
             | (Inl e, w) \<Rightarrow>
                 if errorsIs e ErrLogEventLinkAbsent then (d, [evt], w)
                 else if errorsIs e ErrRateLimited then (d, [evt], w)
                 else if errorsIs e ErrMethodNotAllowed then (d\<lparr>suppressed := insert code (suppressed d)\<rparr>, [evt], w)
                 else (d, [evt], w))))"

text \<open>The seven classes in the order of their codes.\<close>

definition alarmClasses :: "(8 word \<times> (AlarmState \<Rightarrow> bool)) list" where
  "alarmClasses =
     [(LogEventCodeVoltageLow, VoltageLow), (LogEventCodeVoltageHigh, VoltageHigh),
      (LogEventCodeFrequencyLow, FrequencyLow), (LogEventCodeFrequencyHigh, FrequencyHigh),
      (LogEventCodeReactiveLimit, ReactiveLimit), (LogEventCodeActiveLimit, ActiveLimit),
      (LogEventCodeGenDisable, GenDisable)]"

fun fireAll :: "8 word \<Rightarrow> 'w emitter \<Rightarrow> AlarmState \<Rightarrow> AlarmState \<Rightarrow> AlarmInputs \<Rightarrow> (8 word \<times> (AlarmState \<Rightarrow> bool)) list \<Rightarrow>
    AlarmDetector \<Rightarrow> 'w \<Rightarrow> AlarmDetector \<times> LogEvent list \<times> 'w" where
  "fireAll fsDER post p n i [] d w = (d, [], w)"
| "fireAll fsDER post p n i ((code, alarm) # cs) d w =
     (case fireIfRising fsDER post d (alarm p) (alarm n) code i w of
        (d, es, w) \<Rightarrow> (case fireAll fsDER post p n i cs d w of (d, es', w) \<Rightarrow> (d, es @ es', w)))"

definition Evaluate :: "8 word \<Rightarrow> 'w emitter \<Rightarrow> AlarmDetector \<Rightarrow> AlarmInputs \<Rightarrow> 'w \<Rightarrow>
    AlarmState \<times> AlarmDetector \<times> LogEvent list \<times> 'w" where
  "Evaluate fsDER post d i w =
     (let n = classify d i
      in (case fireAll fsDER post (prevAlarms d) n i alarmClasses d w of
            (d, es, w) \<Rightarrow> (n, d\<lparr>prevAlarms := n\<rparr>, es, w)))"

section \<open>The emitter\<close>

text \<open>
  \<open>PostLogEvent\<close> on the client, whose limiter is \<open>None\<close> for the nil limiter; \<open>limNow\<close> and \<open>localNow\<close>
  are the readings of the limiter's and of the local clock.
\<close>

definition PostLogEvent :: "'w Client \<Rightarrow> Ctx \<Rightarrow> (LogEvent \<Rightarrow> string option) \<Rightarrow> time \<Rightarrow> time \<Rightarrow> string \<Rightarrow> LogEvent \<Rightarrow>
    PerCodeLogEventLimiter option \<times> 'w World \<Rightarrow> (httpErr + string) \<times> PerCodeLogEventLimiter option \<times> 'w World" where
  "PostLogEvent c ctx enc limNow localNow href evt s =
     (case s of (lm, w) \<Rightarrow>
       if href = [] then (Inl ErrLogEventLinkAbsent, lm, w)
       else
         (case (case lm of None \<Rightarrow> (True, None)
                | Some l \<Rightarrow> (case Allow l limNow (LogEventCode evt) of (ok, l') \<Rightarrow> (ok, Some l'))) of
            (False, lm) \<Rightarrow>
              (Inl (Wrap (''PostLogEvent code='' @ itoa (uint (LogEventCode evt)) @ '': '') ErrRateLimited), lm, w)
          | (True, lm) \<Rightarrow>
              (let evt = (if leCreatedDateTime evt = 0 then evt\<lparr>leCreatedDateTime := toUnix (Now w localNow)\<rparr> else evt);
                   evt = (if LogEventPEN evt = 0 then evt\<lparr>LogEventPEN := pen c\<rparr> else evt)
               in (case Post c ctx KindLogEventPost href (enc evt) w of
                     (Inl e, w) \<Rightarrow>
                       (Inl (Wrap (''POST '' @ href @ '' logEvent code='' @ itoa (uint (LogEventCode evt)) @ '': '') e), lm, w)
                   | (Inr (loc, _), w) \<Rightarrow> (Inr loc, lm, w)))))"

section \<open>Edges\<close>

definition rises :: "AlarmState \<Rightarrow> AlarmState \<Rightarrow> 8 word \<times> (AlarmState \<Rightarrow> bool) \<Rightarrow> bool" where
  "rises p n cl \<longleftrightarrow> snd cl n \<and> \<not> snd cl p"

lemma fireIfRising_spec:
  assumes "fireIfRising fsDER post d p n code i w = (d', es, w')"
  shows "map LogEventCode es = (if n \<and> \<not> p \<and> code \<notin> suppressed d \<and> enabled d then [code] else []) \<and>
    (d' = d \<or> d' = d\<lparr>suppressed := insert code (suppressed d)\<rparr> \<and>
       (\<exists>evt w1 e. fst (post (logEventListHref d) evt w1) = Inl e \<and> errorsIs e ErrMethodNotAllowed))"
proof (cases "\<not> n \<or> p \<or> code \<in> suppressed d \<or> \<not> enabled d")
  case True
  then show ?thesis using assms by (auto simp: fireIfRising_def split: if_splits)
next
  case False
  let ?e = "\<lparr>FunctionSet = fsDER, LogEventCode = code, LogEventPEN = 0, ProfileID = 2,
      Details = logEventDetailFor code i, leCreatedDateTime = 0\<rparr>"
  obtain r w1 where p: "post (logEventListHref d) ?e w = (r, w1)" by fastforce
  then have f: "fst (post (logEventListHref d) ?e w) = r" by simp
  show ?thesis
  proof (cases r)
    case (Inl e)
    show ?thesis
    proof (cases "d' = d")
      case True
      then show ?thesis using assms False p Inl by (auto simp: fireIfRising_def Let_def split: if_splits)
    next
      case ne: False
      then have "errorsIs e ErrMethodNotAllowed" "es = [?e]" "d' = d\<lparr>suppressed := insert code (suppressed d)\<rparr>"
        using assms False p Inl by (auto simp: fireIfRising_def Let_def split: if_splits)
      then show ?thesis using False f Inl by auto
    qed
  next
    case (Inr v)
    then show ?thesis using assms False p by (auto simp: fireIfRising_def Let_def)
  qed
qed

lemma fireAll_spec:
  assumes "fireAll fsDER post p n i cs d w = (d', es, w')" "distinct (map fst cs)"
  shows "map LogEventCode es = map fst (filter (\<lambda>cl. rises p n cl \<and> fst cl \<notin> suppressed d \<and> enabled d) cs) \<and>
    prevAlarms d' = prevAlarms d \<and> hasEmitter d' = hasEmitter d \<and> logEventListHref d' = logEventListHref d \<and>
    reactiveLimitThreshold d' = reactiveLimitThreshold d \<and> activeLimitMargin d' = activeLimitMargin d \<and>
    suppressed d \<subseteq> suppressed d' \<and> suppressed d' \<subseteq> suppressed d \<union> LogEventCode ` set es"
  using assms
proof (induction cs arbitrary: d es w d' w')
  case Nil
  then show ?case by simp
next
  case (Cons cl cs)
  obtain code alarm where cl: "cl = (code, alarm)" by fastforce
  obtain d1 e1 w1 where f: "fireIfRising fsDER post d (alarm p) (alarm n) code i w = (d1, e1, w1)" by (metis prod_cases3)
  obtain d2 e2 w2 where g: "fireAll fsDER post p n i cs d1 w1 = (d2, e2, w2)" by (metis prod_cases3)
  have es: "d' = d2" "es = e1 @ e2" using Cons.prems(1) cl f g by simp_all
  note sp = fireIfRising_spec [OF f]
  have ih: "map LogEventCode e2 = map fst (filter (\<lambda>cl. rises p n cl \<and> fst cl \<notin> suppressed d1 \<and> enabled d1) cs)"
    using Cons.IH [OF g] Cons.prems(2) cl by simp
  have d1: "d1 = d \<or> d1 = d\<lparr>suppressed := insert code (suppressed d)\<rparr> \<and> code \<in> LogEventCode ` set e1"
  proof (cases "d1 = d")
    case False
    then have "d1 = d\<lparr>suppressed := insert code (suppressed d)\<rparr>" using sp by blast
    moreover have "map LogEventCode e1 = [code]"
      using f False by (auto simp: fireIfRising_def Let_def split: if_splits prod.splits sum.splits)
    ultimately show ?thesis using list.set_map [of LogEventCode e1] by auto
  qed simp
  have same: "filter (\<lambda>cl. rises p n cl \<and> fst cl \<notin> suppressed d1 \<and> enabled d1) cs =
      filter (\<lambda>cl. rises p n cl \<and> fst cl \<notin> suppressed d \<and> enabled d) cs"
  proof (rule filter_cong)
    fix x assume "x \<in> set cs"
    then have "fst x \<noteq> code" using Cons.prems(2) cl by auto
    then show "(rises p n x \<and> fst x \<notin> suppressed d1 \<and> enabled d1) = (rises p n x \<and> fst x \<notin> suppressed d \<and> enabled d)"
      using d1 by (auto simp: enabled_def)
  qed simp
  have codes: "map LogEventCode es = map fst (filter (\<lambda>cl. rises p n cl \<and> fst cl \<notin> suppressed d \<and> enabled d) (cl # cs))"
    using sp ih es(2) unfolding same cl by (simp add: rises_def)
  have rest: "prevAlarms d' = prevAlarms d1 \<and> hasEmitter d' = hasEmitter d1 \<and> logEventListHref d' = logEventListHref d1 \<and>
      reactiveLimitThreshold d' = reactiveLimitThreshold d1 \<and> activeLimitMargin d' = activeLimitMargin d1 \<and>
      suppressed d1 \<subseteq> suppressed d' \<and> suppressed d' \<subseteq> suppressed d1 \<union> LogEventCode ` set e2"
    using Cons.IH [OF g] Cons.prems(2) cl es(1) by simp
  have "suppressed d' \<subseteq> suppressed d \<union> LogEventCode ` set es" "suppressed d \<subseteq> suppressed d'"
  proof -
    have "suppressed d1 \<subseteq> suppressed d \<union> LogEventCode ` set e1" "suppressed d \<subseteq> suppressed d1" using d1 by auto
    then show "suppressed d' \<subseteq> suppressed d \<union> LogEventCode ` set es" "suppressed d \<subseteq> suppressed d'"
      using rest unfolding es(2) set_append image_Un by blast+
  qed
  then show ?case using codes rest d1 by (elim disjE) simp_all
qed

lemma distinct_alarmClasses: "distinct (map fst alarmClasses)"
  by (simp add: alarmClasses_def code_defs)

lemma Evaluate_spec:
  assumes "Evaluate fsDER post d i w = (n, d', es, w')"
  shows "n = classify d i" "prevAlarms d' = n"
    "map LogEventCode es = map fst (filter (\<lambda>cl. rises (prevAlarms d) n cl \<and> fst cl \<notin> suppressed d \<and> enabled d) alarmClasses)"
    "classify d' = classify d" "enabled d' = enabled d" "suppressed d \<subseteq> suppressed d'"
proof -
  obtain d1 where f: "fireAll fsDER post (prevAlarms d) (classify d i) i alarmClasses d w = (d1, es, w')"
      and d: "n = classify d i" "d' = d1\<lparr>prevAlarms := n\<rparr>"
    using assms by (auto simp: Evaluate_def Let_def split: prod.splits)
  note sp = fireAll_spec [OF f distinct_alarmClasses]
  show "n = classify d i" "prevAlarms d' = n"
    "map LogEventCode es = map fst (filter (\<lambda>cl. rises (prevAlarms d) n cl \<and> fst cl \<notin> suppressed d \<and> enabled d) alarmClasses)"
    "classify d' = classify d" "enabled d' = enabled d" "suppressed d \<subseteq> suppressed d'"
    using sp d by (auto simp: enabled_def classify_def)
qed

text \<open>The ticks of a run: the alarms and the codes handed to the emitter at each.\<close>

fun evalRun :: "8 word \<Rightarrow> 'w emitter \<Rightarrow> AlarmDetector \<Rightarrow> AlarmInputs list \<Rightarrow> 'w \<Rightarrow> (AlarmState \<times> 8 word list) list" where
  "evalRun fsDER post d [] w = []"
| "evalRun fsDER post d (i # is) w =
     (case Evaluate fsDER post d i w of
        (n, d, es, w) \<Rightarrow> (n, map LogEventCode es) # evalRun fsDER post d is w)"

lemma evalRun_nth:
  assumes "k < length ins"
  shows "fst (evalRun fsDER post d ins w ! k) = classify d (ins ! k) \<and>
    set (snd (evalRun fsDER post d ins w ! k)) \<subseteq>
      fst ` {cl \<in> set alarmClasses. rises (if k = 0 then prevAlarms d else classify d (ins ! (k - 1))) (classify d (ins ! k)) cl} - suppressed d"
  using assms
proof (induction ins arbitrary: d w k)
  case Nil
  then show ?case by simp
next
  case (Cons i ins)
  obtain n d' es w' where e: "Evaluate fsDER post d i w = (n, d', es, w')" by (metis prod_cases4)
  note sp = Evaluate_spec [OF e]
  show ?case
  proof (cases k)
    case 0
    have "set (map LogEventCode es) \<subseteq> fst ` {cl \<in> set alarmClasses. rises (prevAlarms d) n cl} - suppressed d"
      unfolding sp(3) by auto
    then show ?thesis using e sp(1) 0 by simp
  next
    case (Suc m)
    then have m: "m < length ins" using Cons.prems by simp
    have "(if m = 0 then prevAlarms d' else classify d' (ins ! (m - 1))) = classify d ((i # ins) ! m)"
      using sp(1,2,4) by (cases m) simp_all
    then show ?thesis using Cons.IH [OF m, of d' w'] e Suc sp(4,6) by auto
  qed
qed

text \<open>Alarms are reported on their edges only. At each tick the codes handed to the emitter are those of
  the classes that are on and were off at the tick before, in the order of the codes, less those that the
  server has answered with 405; and over any run, between two reports of one code there is a tick at which
  its alarm was off, so an alarm that stays on is reported once; a code that the server has answered with 405
  is not reported again.\<close>

theorem alarms_on_edges:
  assumes "Evaluate fsDER post d i w = (n, d', es, w')"
    and "a < b" "b < length ins" "(code, alarm) \<in> set alarmClasses"
    and "code \<in> set (snd (evalRun fsDER post d ins w ! b))"
  shows "map LogEventCode es =
      map fst (filter (\<lambda>cl. rises (prevAlarms d) (classify d i) cl \<and> fst cl \<notin> suppressed d \<and> enabled d) alarmClasses) \<and>
    (\<exists>k. a \<le> k \<and> k < b \<and> \<not> alarm (classify d (ins ! k))) \<and> alarm (classify d (ins ! b)) \<and> code \<notin> suppressed d"
proof -
  have "code \<in> fst ` {cl \<in> set alarmClasses. rises (classify d (ins ! (b - 1))) (classify d (ins ! b)) cl} - suppressed d"
    using evalRun_nth [OF assms(3), of fsDER post d w] assms(2,5) by auto
  then obtain al where al: "(code, al) \<in> set alarmClasses" "rises (classify d (ins ! (b - 1))) (classify d (ins ! b)) (code, al)"
      "code \<notin> suppressed d" by auto
  have "al = alarm" using al(1) assms(4) distinct_alarmClasses by (metis eq_key_imp_eq_value)
  then have "\<not> alarm (classify d (ins ! (b - 1))) \<and> alarm (classify d (ins ! b))" using al(2) by (simp add: rises_def)
  moreover have "a \<le> b - 1 \<and> b - 1 < b" using assms(2) by auto
  ultimately show ?thesis using Evaluate_spec(3) [OF assms(1)] Evaluate_spec(1) [OF assms(1)] al(3) by blast
qed

definition demoAlarm :: "bool \<Rightarrow> AlarmInputs" where
  "demoAlarm on = \<lparr>aiGrid = \<lparr>VoltsPU = Fin 1, FreqHz = Fin 60, Time = 0\<rparr>, aiConnected = \<not> on, aiEnergized = True,
     aiActivePowerW = Fin 0, aiReactivePowerVAr = Fin 0, PreDisturbancePW = Fin 0, aiRatedVAr = Fin 0, AbnormalDuration = 0\<rparr>"

definition onlyGen :: "bool \<Rightarrow> AlarmState" where
  "onlyGen on = noAlarms\<lparr>GenDisable := on\<rparr>"

definition demoDet :: "bool \<Rightarrow> AlarmDetector" where
  "demoDet on = (NewAlarmDetector True ''/lel'')\<lparr>prevAlarms := onlyGen on\<rparr>"

definition demoEvt :: LogEvent where
  "demoEvt = \<lparr>FunctionSet = 11, LogEventCode = 7, LogEventPEN = 0, ProfileID = 2, Details = ''offline'', leCreatedDateTime = 0\<rparr>"

lemma onlyGen_simps [simp]: "GenDisable (onlyGen on) = on" "\<not> VoltageLow (onlyGen on)" "\<not> VoltageHigh (onlyGen on)"
  "\<not> FrequencyLow (onlyGen on)" "\<not> FrequencyHigh (onlyGen on)" "\<not> ReactiveLimit (onlyGen on)" "\<not> ActiveLimit (onlyGen on)"
  by (simp_all add: onlyGen_def noAlarms_def)

lemma demoDet_simps [simp]: "prevAlarms (demoDet on) = onlyGen on" "suppressed (demoDet on) = {}" "enabled (demoDet on)"
  "logEventListHref (demoDet on) = ''/lel''" "(demoDet on)\<lparr>prevAlarms := onlyGen b\<rparr> = demoDet b"
  by (simp_all add: demoDet_def NewAlarmDetector_def enabled_def)

lemma demoDet_New: "NewAlarmDetector True ''/lel'' = demoDet False"
  by (simp add: demoDet_def NewAlarmDetector_def onlyGen_def noAlarms_def)

lemma classify_demo: "classify d (demoAlarm on) = onlyGen on"
  by (simp add: classify_def demoAlarm_def onlyGen_def noAlarms_def CheckVoltageTrip_def CheckFrequencyTrip_def zero_f64_def)

abbreviation demoEmitter :: "nat emitter" where
  "demoEmitter \<equiv> \<lambda>h e n. (Inr [], Suc n)"

lemma fire_demo: "fireIfRising 11 demoEmitter (demoDet p) a n code i w =
    (demoDet p, if n \<and> \<not> a then [\<lparr>FunctionSet = 11, LogEventCode = code, LogEventPEN = 0, ProfileID = 2,
        Details = logEventDetailFor code i, leCreatedDateTime = 0\<rparr>] else [], if n \<and> \<not> a then Suc w else w)"
  by (simp add: fireIfRising_def)

lemma Evaluate_demo:
  "Evaluate 11 demoEmitter (demoDet p) (demoAlarm on) w =
     (onlyGen on, demoDet on, if on \<and> \<not> p then [demoEvt] else [], if on \<and> \<not> p then Suc w else w)"
  by (simp add: Evaluate_def Let_def classify_demo alarmClasses_def fire_demo)
    (simp add: demoEvt_def logEventDetailFor_def code_defs)

theorem alarms_on_edges_witness:
  "\<exists>(es :: LogEvent list) k. map LogEventCode es = [7] \<and> k < 2 \<and>
     \<not> GenDisable (classify (demoDet False) ([demoAlarm True, demoAlarm False, demoAlarm True] ! k))"
proof -
  let ?ins = "[demoAlarm True, demoAlarm False, demoAlarm True]"
  have in2: "7 \<in> set (snd (evalRun 11 demoEmitter (demoDet False) ?ins 0 ! 2))"
    by (simp add: Evaluate_demo demoEvt_def)
  have cl: "(7, GenDisable) \<in> set alarmClasses" by (simp add: alarmClasses_def code_defs)
  have e: "Evaluate 11 demoEmitter (demoDet False) (demoAlarm True) 0 = (onlyGen True, demoDet True, [demoEvt], 1)"
    by (simp add: Evaluate_demo)
  obtain k where "k < 2" "\<not> GenDisable (classify (demoDet False) (?ins ! k))"
    using alarms_on_edges [OF e _ _ cl in2, of 0] by auto
  moreover have "map LogEventCode [demoEvt] = [7]" by (simp add: demoEvt_def)
  ultimately show ?thesis by (intro exI conjI)
qed

end
