(* ===== verification/Sidecar.thy ===== *)
theory Sidecar
  imports F64
begin

text \<open>
  The client side of the sidecar protocol: \<open>internal/sim/gridlabd/protocol.go\<close> and \<open>client.go\<close>. A line on the
  wire is a JSON value, or \<open>None\<close> when it does not parse; the text syntax of JSON and the layouts of
  instants are not modelled. The lock is held over a whole round trip, the drain of an abandoned reply
  included, so the calls on a connection happen one after the other: \<open>call\<close> is one of them, with what its
  context does while it waits as an argument. The sidecar is a parameter: the lines it sends when it
  receives a request. They queue up in \<open>inbox\<close>, and a read takes the oldest.
\<close>

section \<open>JSON\<close>

datatype json = JNull | JBool bool | JNum real | JStr string | JArr "json list" | JObj "(string \<times> json) list"

text \<open>The field of an object; of two equal keys the last counts.\<close>

definition jget :: "(string \<times> json) list \<Rightarrow> string \<Rightarrow> json option" where
  "jget fs k = map_of (rev fs) k"

text \<open>Decoding into a Go field: a missing key and \<open>null\<close> leave the zero value, another type is an error.\<close>

fun decStr :: "json option \<Rightarrow> string option" where
  "decStr None = Some []"
| "decStr (Some JNull) = Some []"
| "decStr (Some (JStr s)) = Some s"
| "decStr (Some _) = None"

fun decInt :: "json option \<Rightarrow> int option" where
  "decInt None = Some 0"
| "decInt (Some JNull) = Some 0"
| "decInt (Some (JNum r)) = (if r = of_int \<lfloor>r\<rfloor> \<and> minInt64 \<le> \<lfloor>r\<rfloor> \<and> \<lfloor>r\<rfloor> \<le> maxInt64 then Some \<lfloor>r\<rfloor> else None)"
| "decInt (Some _) = None"

fun decBool :: "json option \<Rightarrow> bool option" where
  "decBool None = Some False"
| "decBool (Some JNull) = Some False"
| "decBool (Some (JBool b)) = Some b"
| "decBool (Some _) = None"

section \<open>The protocol\<close>

definition ProtocolVersion :: int where "ProtocolVersion = 1"

record wireRequest =
  rqID :: int
  rqOp :: string
  rqArgs :: json

record wireReply =
  rpID :: int
  rpOK :: bool
  rpResult :: "json option"
  rpError :: "(string \<times> string) option"

definition decErrorBody :: "json option \<Rightarrow> (string \<times> string) option option" where
  "decErrorBody e =
     (case e of
        None \<Rightarrow> Some None
      | Some JNull \<Rightarrow> Some None
      | Some (JObj fs) \<Rightarrow>
          (case (decStr (jget fs ''code''), decStr (jget fs ''message'')) of
             (Some c, Some m) \<Rightarrow> Some (Some (c, m)) | _ \<Rightarrow> None)
      | _ \<Rightarrow> None)"

definition decReply :: "json \<Rightarrow> wireReply option" where
  "decReply j =
     (case j of
        JNull \<Rightarrow> Some \<lparr>rpID = 0, rpOK = False, rpResult = None, rpError = None\<rparr>
      | JObj fs \<Rightarrow>
          (case (decInt (jget fs ''id''), decBool (jget fs ''ok''), decErrorBody (jget fs ''error'')) of
             (Some i, Some b, Some e) \<Rightarrow> Some \<lparr>rpID = i, rpOK = b, rpResult = jget fs ''result'', rpError = e\<rparr>
           | _ \<Rightarrow> None)
      | _ \<Rightarrow> None)"

text \<open>A property value is the raw JSON, \<open>None\<close> for the zero \<open>Value\<close>.\<close>

type_synonym wireValue = "json option"

datatype ctxErr = CtxDoneCanceled | CtxDoneDeadline

datatype wireErr =
    WBroken string
  | WWorkerDead string
  | WRemote string string string
  | WCtx ctxErr
  | WDecode string
  | WMismatch string
  | WValue string
  | WDown string

definition isBroken :: "wireErr \<Rightarrow> bool" where
  "isBroken e = (case e of WBroken _ \<Rightarrow> True | WWorkerDead _ \<Rightarrow> True | _ \<Rightarrow> False)"

definition FloatValue :: "f64 \<Rightarrow> wireErr + wireValue" where
  "FloatValue f = (case f of Fin r \<Rightarrow> Inr (Some (JNum r)) | _ \<Rightarrow> Inl (WValue ''not representable''))"

definition components :: "wireValue \<Rightarrow> wireErr + (real \<times> real)" where
  "components v =
     (case v of
        None \<Rightarrow> Inl (WValue ''not valid JSON'')
      | Some (JNum r) \<Rightarrow> Inr (r, 0)
      | Some (JObj fs) \<Rightarrow>
          (case (jget fs ''re'', jget fs ''im'') of
             (Some re, Some im) \<Rightarrow>
               (case (re, im) of (JNum a, JNum b) \<Rightarrow> Inr (a, b) | _ \<Rightarrow> Inl (WValue ''non-numeric re/im''))
           | _ \<Rightarrow> Inl (WValue ''not the complex {re,im} shape''))
      | Some _ \<Rightarrow> Inl (WValue ''neither a real number nor a complex object''))"

definition valueFloat64 :: "wireValue \<Rightarrow> wireErr + f64" where
  "valueFloat64 v =
     (case components v of
        Inl e \<Rightarrow> Inl e
      | Inr (re, im) \<Rightarrow> if im \<noteq> 0 then Inl (WValue ''complex, not real'') else Inr (Fin re))"

definition valueMagnitude :: "wireValue \<Rightarrow> wireErr + f64" where
  "valueMagnitude v =
     (case components v of Inl e \<Rightarrow> Inl e | Inr (re, im) \<Rightarrow> Inr (Fin (sqrt (re * re + im * im))))"

section \<open>The connection\<close>

record 'p Conn =
  nextID :: int
  brokenCause :: "wireErr option"
  connTimeout :: duration
  inbox :: "json option list"
  peer :: 'p

text \<open>What comes of a request: the lines the sidecar sends, or a failure to set the deadline or to write.\<close>

type_synonym 'p sidecar = "wireRequest \<Rightarrow> 'p \<Rightarrow> json option list option \<times> 'p"

text \<open>\<open>net.Dialer\<close> gives a connection to the sidecar or an error.\<close>

definition Dial :: "duration \<Rightarrow> 'p option \<Rightarrow> wireErr + 'p Conn" where
  "Dial timeout conn =
     (if timeout \<le> 0 then Inl (WValue ''timeout must be positive'')
      else case conn of
        None \<Rightarrow> Inl (WValue ''dial'')
      | Some p \<Rightarrow> Inr \<lparr>nextID = 0, brokenCause = None, connTimeout = timeout, inbox = [], peer = p\<rparr>)"

definition markBroken :: "wireErr \<Rightarrow> 'p Conn \<Rightarrow> 'p Conn" where
  "markBroken cause c = (if brokenCause c = None then c\<lparr>brokenCause := Some cause\<rparr> else c)"

definition decodeReply :: "string \<Rightarrow> int \<Rightarrow> json option \<Rightarrow> 'p Conn \<Rightarrow> (wireErr + json option) \<times> 'p Conn" where
  "decodeReply op i line c =
     (case (case line of None \<Rightarrow> None | Some j \<Rightarrow> decReply j) of
        None \<Rightarrow> (let cause = WBroken (''decode '' @ op @ '' reply'') in (Inl cause, markBroken cause c))
      | Some reply \<Rightarrow>
          if rpID reply \<noteq> i then
            (let cause = WBroken (op @ '' reply id does not match'') in (Inl cause, markBroken cause c))
          else if \<not> rpOK reply then
            (let (code, msg) = (case rpError reply of None \<Rightarrow> ([], []) | Some e \<Rightarrow> e)
             in if code = ''worker_dead'' then
                  (let cause = WWorkerDead (op @ '': '' @ msg) in (Inl cause, markBroken cause c))
                else (Inl (WRemote op code msg), c))
          else (Inr (rpResult reply), c))"

text \<open>The write and the read of one line; without a line the read runs into the deadline.\<close>

definition roundTrip :: "'p sidecar \<Rightarrow> wireRequest \<Rightarrow> 'p Conn \<Rightarrow> (wireErr + json option) \<times> 'p Conn" where
  "roundTrip sc rq c =
     (case sc rq (peer c) of
        (None, p) \<Rightarrow> (Inl (WValue (''write '' @ rqOp rq @ '' request'')), c\<lparr>peer := p\<rparr>)
      | (Some lines, p) \<Rightarrow>
          let c = c\<lparr>peer := p, inbox := inbox c @ lines\<rparr> in
          case inbox c of
            [] \<Rightarrow> (Inl (WValue (''read '' @ rqOp rq @ '' reply'')), c)
          | l # ls \<Rightarrow> (Inr l, c\<lparr>inbox := ls\<rparr>))"

definition drain :: "string \<Rightarrow> int \<Rightarrow> (wireErr + json option) \<Rightarrow> 'p Conn \<Rightarrow> 'p Conn" where
  "drain op i res c =
     (case res of
        Inl e \<Rightarrow> markBroken (WBroken op) c
      | Inr line \<Rightarrow> snd (decodeReply op i line c))"

text \<open>The caller's context: done before the request is written, or done before the reply is there.\<close>

record callCtx =
  ctxBefore :: "ctxErr option"
  ctxDuring :: "ctxErr option"

definition call :: "'p sidecar \<Rightarrow> callCtx \<Rightarrow> string \<Rightarrow> json \<Rightarrow> 'p Conn \<Rightarrow> (wireErr + json option) \<times> 'p Conn" where
  "call sc ctx op args c =
     (if brokenCause c \<noteq> None then (Inl (WBroken op), c)
      else
        (case ctxBefore ctx of
           Some e \<Rightarrow> (Inl (WCtx e), c)
         | None \<Rightarrow>
             let i = nextID c;
                 c = c\<lparr>nextID := wrap64 (nextID c + 1)\<rparr>
             in (case roundTrip sc \<lparr>rqID = i, rqOp = op, rqArgs = args\<rparr> c of
                   (res, c) \<Rightarrow>
                     (case ctxDuring ctx of
                        Some e \<Rightarrow> (Inl (WCtx e), drain op i res c)
                      | None \<Rightarrow>
                          (case res of
                             Inl e \<Rightarrow> (Inl (WBroken op), markBroken (WBroken op) c)
                           | Inr line \<Rightarrow> decodeReply op i line c)))))"

section \<open>The operations\<close>

type_synonym objProp = "string \<times> string"

definition validateReplyMatchesRequest :: "string \<Rightarrow> objProp list \<Rightarrow> objProp list \<Rightarrow> wireErr option" where
  "validateReplyMatchesRequest op want got =
     (if length got \<noteq> length want then Some (WMismatch (op @ '': number of results''))
      else if \<exists>i\<in>set [0..<length want]. got ! i \<noteq> want ! i then Some (WMismatch (op @ '': reordered or mismatched reply''))
      else None)"

record HelloResult =
  Protocol :: int
  GridlabdVersion :: string
  PythonVersion :: string
  hrFleet :: string
  Objects :: "(string \<times> string list) list"

fun decStrList :: "json \<Rightarrow> string list option" where
  "decStrList JNull = Some []"
| "decStrList (JArr js) = those (map (\<lambda>j. decStr (Some j)) js)"
| "decStrList _ = None"

definition decObjects :: "json option \<Rightarrow> (string \<times> string list) list option" where
  "decObjects j =
     (case j of
        None \<Rightarrow> Some []
      | Some JNull \<Rightarrow> Some []
      | Some (JObj fs) \<Rightarrow> those (map (\<lambda>(k, v). map_option (Pair k) (decStrList v)) fs)
      | _ \<Rightarrow> None)"

definition Hello :: "'p sidecar \<Rightarrow> callCtx \<Rightarrow> 'p Conn \<Rightarrow> (wireErr + HelloResult) \<times> 'p Conn" where
  "Hello sc ctx c =
     (case call sc ctx ''hello'' (JObj [(''protocol'', JNum (of_int ProtocolVersion))]) c of
        (Inl e, c) \<Rightarrow> (Inl e, c)
      | (Inr raw, c) \<Rightarrow>
          (case raw of
             Some JNull \<Rightarrow> (Inr \<lparr>Protocol = 0, GridlabdVersion = [], PythonVersion = [], hrFleet = [], Objects = []\<rparr>, c)
           | Some (JObj fs) \<Rightarrow>
               (case (decInt (jget fs ''protocol''), decStr (jget fs ''gridlabd_version''),
                      decStr (jget fs ''python_version''), decStr (jget fs ''fleet''), decObjects (jget fs ''objects'')) of
                  (Some p, Some g, Some y, Some f, Some ob) \<Rightarrow>
                    (Inr \<lparr>Protocol = p, GridlabdVersion = g, PythonVersion = y, hrFleet = f, Objects = ob\<rparr>, c)
                | _ \<Rightarrow> (Inl (WDecode ''hello''), c))
           | _ \<Rightarrow> (Inl (WDecode ''hello''), c)))"

text \<open>One item of a result list: the object, the property, the value and, in a read, the model time.\<close>

record wireItem =
  wiObject :: string
  wiProperty :: string
  wiValue :: wireValue
  wiTime :: string

fun decItem :: "bool \<Rightarrow> json \<Rightarrow> wireItem option" where
  "decItem timed JNull = Some \<lparr>wiObject = [], wiProperty = [], wiValue = None, wiTime = []\<rparr>"
| "decItem timed (JObj fs) =
     (case (decStr (jget fs ''object''), decStr (jget fs ''property''), decStr (if timed then jget fs ''time'' else None)) of
        (Some ob, Some pr, Some t) \<Rightarrow> Some \<lparr>wiObject = ob, wiProperty = pr, wiValue = jget fs ''value'', wiTime = t\<rparr>
      | _ \<Rightarrow> None)"
| "decItem timed _ = None"

definition decItems :: "string \<Rightarrow> bool \<Rightarrow> json option \<Rightarrow> wireErr + wireItem list" where
  "decItems op timed raw =
     (case raw of
        Some JNull \<Rightarrow> Inr []
      | Some (JArr js) \<Rightarrow> (case those (map (decItem timed) js) of None \<Rightarrow> Inl (WDecode op) | Some its \<Rightarrow> Inr its)
      | _ \<Rightarrow> Inl (WDecode op))"

record SetItem =
  siObject :: string
  siProperty :: string
  siValue :: wireValue

definition jvalue :: "wireValue \<Rightarrow> json" where
  "jvalue v = (case v of None \<Rightarrow> JNull | Some j \<Rightarrow> j)"

definition setArgs :: "SetItem list \<Rightarrow> json" where
  "setArgs items = JObj [(''items'', JArr (map (\<lambda>it. JObj [(''object'', JStr (siObject it)),
     (''property'', JStr (siProperty it)), (''value'', jvalue (siValue it))]) items))]"

definition getArgs :: "objProp list \<Rightarrow> json" where
  "getArgs items = JObj [(''items'', JArr (map (\<lambda>it. JObj [(''object'', JStr (fst it)),
     (''property'', JStr (snd it))]) items))]"

text \<open>What \<open>Set\<close> and \<open>Get\<close> do with the raw result: decode it and check it against the request.\<close>

definition checkItems :: "string \<Rightarrow> bool \<Rightarrow> objProp list \<Rightarrow> json option \<Rightarrow> wireErr + wireItem list" where
  "checkItems op timed want raw =
     (case decItems op timed raw of
        Inl e \<Rightarrow> Inl e
      | Inr results \<Rightarrow>
          (case validateReplyMatchesRequest op want (map (\<lambda>r. (wiObject r, wiProperty r)) results) of
             Some e \<Rightarrow> Inl e
           | None \<Rightarrow> Inr results))"

definition clientSet :: "'p sidecar \<Rightarrow> callCtx \<Rightarrow> SetItem list \<Rightarrow> 'p Conn \<Rightarrow> (wireErr + wireItem list) \<times> 'p Conn" where
  "clientSet sc ctx items c =
     (case call sc ctx ''set'' (setArgs items) c of
        (Inl e, c) \<Rightarrow> (Inl e, c)
      | (Inr raw, c) \<Rightarrow> (checkItems ''set'' False (map (\<lambda>it. (siObject it, siProperty it)) items) raw, c))"

definition clientGet :: "'p sidecar \<Rightarrow> callCtx \<Rightarrow> objProp list \<Rightarrow> 'p Conn \<Rightarrow> (wireErr + wireItem list) \<times> 'p Conn" where
  "clientGet sc ctx items c =
     (case call sc ctx ''get'' (getArgs items) c of
        (Inl e, c) \<Rightarrow> (Inl e, c)
      | (Inr raw, c) \<Rightarrow> (checkItems ''get'' True items raw, c))"

text \<open>The layouts of the instants on the wire are parameters: how a target is written and a clock is read.\<close>

definition StepTo :: "'p sidecar \<Rightarrow> (time \<Rightarrow> string) \<Rightarrow> (string \<Rightarrow> time option) \<Rightarrow> callCtx \<Rightarrow> time \<Rightarrow> 'p Conn \<Rightarrow>
    (wireErr + time) \<times> 'p Conn" where
  "StepTo sc fmtT parseT ctx target c =
     (case call sc ctx ''step_to'' (JObj [(''time'', JStr (fmtT target))]) c of
        (Inl e, c) \<Rightarrow> (Inl e, c)
      | (Inr raw, c) \<Rightarrow>
          (case (case raw of None \<Rightarrow> None | Some j \<Rightarrow> decStr (Some j)) of
             None \<Rightarrow> (Inl (WDecode ''step_to''), c)
           | Some reached \<Rightarrow>
               (case parseT reached of None \<Rightarrow> (Inl (WDecode ''step_to''), c) | Some t \<Rightarrow> (Inr t, c))))"

definition Shutdown :: "'p sidecar \<Rightarrow> callCtx \<Rightarrow> 'p Conn \<Rightarrow> wireErr option \<times> 'p Conn" where
  "Shutdown sc ctx c =
     (case call sc ctx ''shutdown'' JNull c of (Inl e, c) \<Rightarrow> (Some e, c) | (Inr _, c) \<Rightarrow> (None, c))"

section \<open>A call on the wire\<close>

lemma markBroken_simps [simp]:
  "inbox (markBroken e c) = inbox c" "peer (markBroken e c) = peer c" "nextID (markBroken e c) = nextID c"
  "brokenCause (markBroken e c) \<noteq> None"
  by (auto simp: markBroken_def)

lemma decodeReply_keeps:
  "decodeReply op i line c = (r, c') \<Longrightarrow> inbox c' = inbox c \<and> peer c' = peer c \<and> nextID c' = nextID c"
  by (auto simp: decodeReply_def Let_def split: option.splits if_splits prod.splits)

text \<open>The line that answers a request, read as a reply: what \<open>decodeReply\<close> gives on an intact connection.\<close>

definition answer :: "string \<Rightarrow> int \<Rightarrow> json option \<Rightarrow> wireErr + json option" where
  "answer op i line = fst (decodeReply op i line \<lparr>nextID = 0, brokenCause = None, connTimeout = 0, inbox = [], peer = ()\<rparr>)"

definition fatal :: "'a + 'b \<Rightarrow> ('a \<Rightarrow> bool) \<Rightarrow> bool" where
  "fatal r P = (case r of Inl e \<Rightarrow> P e | Inr x \<Rightarrow> False)"

lemma decodeReply_answer:
  assumes "decodeReply op i line c = (r, c')"
  shows "r = answer op i line"
    and "brokenCause c = None \<Longrightarrow> brokenCause c' = (if fatal r isBroken then (case r of Inl e \<Rightarrow> Some e | Inr x \<Rightarrow> None) else None)"
  using assms unfolding answer_def
  by (auto simp: decodeReply_def markBroken_def fatal_def isBroken_def Let_def split: option.splits if_splits prod.splits)

lemma answer_id:
  "answer op i line = Inr x \<Longrightarrow> \<exists>j reply. line = Some j \<and> decReply j = Some reply \<and> rpID reply = i \<and> rpOK reply \<and> rpResult reply = x"
  by (auto simp: answer_def decodeReply_def Let_def split: option.splits if_splits prod.splits)

text \<open>A sidecar that keeps the protocol: one line for one request, with its identifier.\<close>

definition keepsProtocol :: "'p sidecar \<Rightarrow> bool" where
  "keepsProtocol sc \<longleftrightarrow> (\<forall>rq p. minInt64 \<le> rqID rq \<and> rqID rq \<le> maxInt64 \<longrightarrow> (\<exists>j reply p'. sc rq p = (Some [Some j], p') \<and> decReply j = Some reply \<and> rpID reply = rqID rq))"

definition idle :: "'p Conn \<Rightarrow> bool" where
  "idle c \<longleftrightarrow> inbox c = [] \<and> minInt64 \<le> nextID c \<and> nextID c \<le> maxInt64"

definition repliesTo :: "'p sidecar \<Rightarrow> wireRequest \<Rightarrow> 'p \<Rightarrow> json option" where
  "repliesTo sc rq p = hd (the (fst (sc rq p)))"

lemma call_idle:
  assumes "keepsProtocol sc" "idle c" "call sc ctx op args c = (r, c')"
  shows "idle c'"
    and "brokenCause c = None \<Longrightarrow> ctxBefore ctx = None \<Longrightarrow>
      (r = (case ctxDuring ctx of Some e \<Rightarrow> Inl (WCtx e)
            | None \<Rightarrow> answer op (nextID c) (repliesTo sc \<lparr>rqID = nextID c, rqOp = op, rqArgs = args\<rparr> (peer c)))) \<and>
      peer c' = snd (sc \<lparr>rqID = nextID c, rqOp = op, rqArgs = args\<rparr> (peer c)) \<and>
      (brokenCause c' = None \<longleftrightarrow>
         \<not> fatal (answer op (nextID c) (repliesTo sc \<lparr>rqID = nextID c, rqOp = op, rqArgs = args\<rparr> (peer c))) isBroken)"
proof -
  let ?rq = "\<lparr>rqID = nextID c, rqOp = op, rqArgs = args\<rparr>"
  let ?c = "c\<lparr>nextID := wrap64 (nextID c + 1)\<rparr>"
  obtain j reply p' where s: "sc ?rq (peer c) = (Some [Some j], p')" "decReply j = Some reply" "rpID reply = nextID c"
    using assms(1,2) unfolding keepsProtocol_def idle_def by (metis wireRequest.select_convs(1))
  have rt: "roundTrip sc ?rq ?c = (Inr (Some j), ?c\<lparr>peer := p', inbox := []\<rparr>)"
    using s(1) assms(2) by (simp add: roundTrip_def idle_def)
  obtain r1 c1 where d: "decodeReply op (nextID c) (Some j) (?c\<lparr>peer := p', inbox := []\<rparr>) = (r1, c1)" by fastforce
  have k: "inbox c1 = []" "peer c1 = p'" "nextID c1 = wrap64 (nextID c + 1)" using decodeReply_keeps [OF d] by simp_all
  note an = decodeReply_answer [OF d]
  have open_call: "call sc ctx op args c = (case ctxDuring ctx of Some e \<Rightarrow> Inl (WCtx e) | None \<Rightarrow> r1, c1)"
    if "brokenCause c = None" "ctxBefore ctx = None"
    using that rt d by (simp add: call_def drain_def split: option.splits)
  show "idle c'"
  proof (cases "brokenCause c = None \<and> ctxBefore ctx = None")
    case True
    then show ?thesis using open_call assms(3) k wrap64_range by (simp add: idle_def)
  next
    case False
    then have "c' = c" using assms(3) by (auto simp: call_def split: if_splits)
    then show ?thesis using assms(2) by simp
  qed
  assume h: "brokenCause c = None" "ctxBefore ctx = None"
  have "repliesTo sc ?rq (peer c) = Some j" using s(1) by (simp add: repliesTo_def)
  then show "(r = (case ctxDuring ctx of Some e \<Rightarrow> Inl (WCtx e)
            | None \<Rightarrow> answer op (nextID c) (repliesTo sc ?rq (peer c)))) \<and>
      peer c' = snd (sc ?rq (peer c)) \<and>
      (brokenCause c' = None \<longleftrightarrow> \<not> fatal (answer op (nextID c) (repliesTo sc ?rq (peer c))) isBroken)"
    using open_call [OF h] assms(3) an(1) an(2) h k s(1) by (auto simp: fatal_def split: sum.splits option.splits)
qed

section \<open>Runs of calls\<close>

type_synonym callArgs = "callCtx \<times> string \<times> json"

fun callRun :: "'p sidecar \<Rightarrow> callArgs list \<Rightarrow> 'p Conn \<Rightarrow> 'p Conn" where
  "callRun sc [] c = c"
| "callRun sc ((ctx, op, args) # ops) c = callRun sc ops (snd (call sc ctx op args c))"

text \<open>The answers that the sidecar gave to the requests that were written.\<close>

fun answers :: "'p sidecar \<Rightarrow> callArgs list \<Rightarrow> 'p Conn \<Rightarrow> (wireErr + json option) list" where
  "answers sc [] c = []"
| "answers sc ((ctx, op, args) # ops) c =
     (if brokenCause c = None \<and> ctxBefore ctx = None
      then [answer op (nextID c) (repliesTo sc \<lparr>rqID = nextID c, rqOp = op, rqArgs = args\<rparr> (peer c))] else []) @
     answers sc ops (snd (call sc ctx op args c))"

lemma call_broken: "brokenCause c \<noteq> None \<Longrightarrow> call sc ctx op args c = (Inl (WBroken op), c)"
  by (simp add: call_def)

lemma call_before: "brokenCause c = None \<Longrightarrow> ctxBefore ctx = Some e \<Longrightarrow> call sc ctx op args c = (Inl (WCtx e), c)"
  by (simp add: call_def)

lemma callRun_broken: "brokenCause c \<noteq> None \<Longrightarrow> callRun sc ops c = c \<and> answers sc ops c = []"
  by (induction ops) (auto simp: call_broken)

lemma callRun_idle:
  assumes "keepsProtocol sc"
  shows "idle c \<Longrightarrow> idle (callRun sc ops c) \<and>
    (brokenCause c = None \<longrightarrow> (brokenCause (callRun sc ops c) = None \<longleftrightarrow> (\<forall>a\<in>set (answers sc ops c). \<not> fatal a isBroken)))"
proof (induction ops arbitrary: c)
  case Nil
  then show ?case by simp
next
  case (Cons x ops)
  obtain ctx op args where x: "x = (ctx, op, args)" by (metis prod_cases3)
  obtain r c' where k: "call sc ctx op args c = (r, c')" by fastforce
  note ci = call_idle [OF assms Cons.prems k]
  show ?case
  proof (cases "brokenCause c")
    case None
    note IH = Cons.IH [OF ci(1)]
    show ?thesis
    proof (cases "ctxBefore ctx")
      case (Some e)
      then have "c' = c" using k call_before [OF None Some] by simp
      then show ?thesis using x k Some IH by simp
    next
      case none: None
      let ?a = "answer op (nextID c) (repliesTo sc \<lparr>rqID = nextID c, rqOp = op, rqArgs = args\<rparr> (peer c))"
      have b: "brokenCause c' = None \<longleftrightarrow> \<not> fatal ?a isBroken" using ci(2) [OF None none] by simp
      have an: "answers sc (x # ops) c = ?a # answers sc ops c'" using x k None none by simp
      have run: "callRun sc (x # ops) c = callRun sc ops c'" using x k by simp
      show ?thesis
      proof (cases "brokenCause c'")
        case None
        then show ?thesis using IH b an run by simp
      next
        case (Some z)
        then have "callRun sc ops c' = c'" using callRun_broken [of c'] by simp
        then show ?thesis using ci(1) b an run Some by simp
      qed
    qed
  next
    case (Some z)
    then show ?thesis using callRun_broken [of c sc "x # ops"] Cons.prems by simp
  qed
qed

text \<open>C14: One connection serves many callers, each of which may give up at any time, before its request is
  written or while it waits. With a sidecar that answers each request by one line with its identifier, every
  caller that stays gets the answer to its own request and never one that another abandoned, nothing unread
  is left on the wire, and the connection is refused exactly when the sidecar has reported a dead worker: no
  caller's own context ever breaks it.\<close>

theorem callers_stay_in_sync:
  assumes "keepsProtocol sc" "Dial timeout (Some p) = Inr c0" "callRun sc ops c0 = c" "call sc ctx op args c = (r, c')"
  shows "inbox c = [] \<and> inbox c' = [] \<and>
    (brokenCause c \<noteq> None \<longleftrightarrow> (\<exists>m. Inl (WWorkerDead m) \<in> set (answers sc ops c0))) \<and>
    r = (if brokenCause c \<noteq> None then Inl (WBroken op)
         else case ctxBefore ctx of Some e \<Rightarrow> Inl (WCtx e)
         | None \<Rightarrow> (case ctxDuring ctx of Some e \<Rightarrow> Inl (WCtx e)
           | None \<Rightarrow> answer op (nextID c) (repliesTo sc \<lparr>rqID = nextID c, rqOp = op, rqArgs = args\<rparr> (peer c))))"
proof -
  have c0: "idle c0" "brokenCause c0 = None" using assms(2) by (auto simp: Dial_def idle_def minInt64_def maxInt64_def split: if_splits)
  note run = callRun_idle [OF assms(1) c0(1), of ops, unfolded assms(3)]
  have ic: "idle c" using run by simp
  have worker: "fatal a isBroken \<longleftrightarrow> (\<exists>m. a = Inl (WWorkerDead m))" if "a \<in> set (answers sc ops c0)" for a
  proof -
    have "a \<in> set (answers sc ops d) \<Longrightarrow> idle d \<Longrightarrow> fatal a isBroken \<Longrightarrow> \<exists>m. a = Inl (WWorkerDead m)" for d
    proof (induction ops arbitrary: d)
      case (Cons x ops)
      obtain ctx op args where x: "x = (ctx, op, args)" by (metis prod_cases3)
      let ?rq = "\<lparr>rqID = nextID d, rqOp = op, rqArgs = args\<rparr>"
      obtain j reply p' where s: "sc ?rq (peer d) = (Some [Some j], p')" "decReply j = Some reply" "rpID reply = nextID d"
        using assms(1) Cons.prems(2) unfolding keepsProtocol_def idle_def by (metis wireRequest.select_convs(1))
      have "fatal (answer op (nextID d) (repliesTo sc ?rq (peer d))) isBroken \<Longrightarrow>
          \<exists>m. answer op (nextID d) (repliesTo sc ?rq (peer d)) = Inl (WWorkerDead m)"
        using s by (auto simp: answer_def repliesTo_def decodeReply_def fatal_def isBroken_def Let_def
            split: option.splits if_splits prod.splits)
      moreover have "idle (snd (call sc ctx op args d))"
        using call_idle(1) [OF assms(1) Cons.prems(2)] by (metis prod.collapse)
      ultimately show ?case using Cons.IH Cons.prems x by (auto split: if_splits)
    qed simp
    then show ?thesis using that c0(1) by (auto simp: fatal_def isBroken_def)
  qed
  have "brokenCause c \<noteq> None \<longleftrightarrow> (\<exists>m. Inl (WWorkerDead m) \<in> set (answers sc ops c0))"
    using run c0(2) worker by metis
  moreover have "inbox c' = []" using call_idle(1) [OF assms(1) ic assms(4)] by (simp add: idle_def)
  moreover have "r = (if brokenCause c \<noteq> None then Inl (WBroken op)
         else case ctxBefore ctx of Some e \<Rightarrow> Inl (WCtx e)
         | None \<Rightarrow> (case ctxDuring ctx of Some e \<Rightarrow> Inl (WCtx e)
           | None \<Rightarrow> answer op (nextID c) (repliesTo sc \<lparr>rqID = nextID c, rqOp = op, rqArgs = args\<rparr> (peer c))))"
    using call_idle(2) [OF assms(1) ic assms(4)] assms(4) call_broken [of c sc ctx op args] call_before [of c ctx _ sc op args]
    by (auto split: option.splits)
  ultimately show ?thesis using ic by (simp add: idle_def)
qed

text \<open>A sidecar that answers every request with its own identifier, as a number and as the result.\<close>

definition echoSidecar :: "nat sidecar" where
  "echoSidecar rq p = (Some [Some (JObj [(''id'', JNum (of_int (rqID rq))), (''ok'', JBool True), (''result'', JStr (rqOp rq))])], Suc p)"

lemma echo_reply:
  assumes "minInt64 \<le> i" "i \<le> maxInt64"
  shows "decReply (JObj [(''id'', JNum (of_int i)), (''ok'', JBool True), (''result'', JStr x)]) =
      Some \<lparr>rpID = i, rpOK = True, rpResult = Some (JStr x), rpError = None\<rparr>"
  using assms by (simp add: decReply_def jget_def decErrorBody_def)

lemma echo_answer:
  "minInt64 \<le> rqID rq \<Longrightarrow> rqID rq \<le> maxInt64 \<Longrightarrow> answer op (rqID rq) (repliesTo echoSidecar rq p) = Inr (Some (JStr (rqOp rq)))"
  by (simp add: answer_def repliesTo_def echoSidecar_def decodeReply_def echo_reply)

lemma echo_keepsProtocol: "keepsProtocol echoSidecar"
  unfolding keepsProtocol_def
proof (intro allI impI)
  fix rq :: wireRequest and p
  assume h: "minInt64 \<le> rqID rq \<and> rqID rq \<le> maxInt64"
  then show "\<exists>j reply p'. echoSidecar rq p = (Some [Some j], p') \<and> decReply j = Some reply \<and> rpID reply = rqID rq"
    using echo_reply [of "rqID rq" "rqOp rq"] by (simp add: echoSidecar_def)
qed

text \<open>A caller that gave up while it waited does not disturb the next one.\<close>

theorem callers_stay_in_sync_witness:
  "\<exists>c0 c'. Dial 5 (Some 0) = Inr c0 \<and>
     call echoSidecar \<lparr>ctxBefore = None, ctxDuring = None\<rparr> ''get'' JNull
       (callRun echoSidecar [(\<lparr>ctxBefore = None, ctxDuring = Some CtxDoneCanceled\<rparr>, ''set'', JNull)] c0) = (Inr (Some (JStr ''get'')), c')"
proof -
  let ?ops = "[(\<lparr>ctxBefore = None, ctxDuring = Some CtxDoneCanceled\<rparr>, ''set'', JNull)]"
  obtain c0 :: "nat Conn" where d: "Dial 5 (Some 0) = Inr c0" by (simp add: Dial_def)
  obtain r c' where k: "call echoSidecar \<lparr>ctxBefore = None, ctxDuring = None\<rparr> ''get'' JNull (callRun echoSidecar ?ops c0) = (r, c')"
    by fastforce
  note sync = callers_stay_in_sync [OF echo_keepsProtocol d refl k]
  have c0: "nextID c0 = 0" "brokenCause c0 = None" "inbox c0 = []" using d by (auto simp: Dial_def)
  let ?rq = "\<lparr>rqID = 0, rqOp = ''set'', rqArgs = JNull\<rparr>"
  have a: "answers echoSidecar ?ops c0 = [Inr (Some (JStr ''set''))]"
    using echo_answer [of ?rq "''set''" "peer c0"] by (simp add: c0 minInt64_def maxInt64_def)
  have n: "nextID (callRun echoSidecar ?ops c0) = 1"
    by (simp add: c0 call_def roundTrip_def echoSidecar_def drain_def decodeReply_def Let_def wrap64_def
        split: option.splits if_splits prod.splits)
  let ?c = "callRun echoSidecar ?ops c0"
  have "brokenCause ?c = None" using sync unfolding a by auto
  moreover have "answer ''get'' 1 (repliesTo echoSidecar \<lparr>rqID = 1, rqOp = ''get'', rqArgs = JNull\<rparr> (peer ?c)) = Inr (Some (JStr ''get''))"
    using echo_answer [of "\<lparr>rqID = 1, rqOp = ''get'', rqArgs = JNull\<rparr>" "''get''" "peer ?c"]
    by (simp add: minInt64_def maxInt64_def)
  ultimately have "r = Inr (Some (JStr ''get''))" using sync unfolding n by simp
  with d k show ?thesis by blast
qed

end
