(* ===== verification/Supervisor.thy ===== *)
theory Supervisor
  imports Sidecar
begin

text \<open>
  \<open>internal/sim/gridlabd/supervisor.go\<close>: one fleet's sidecar, started, watched, restarted within a budget and
  stopped. \<open>Run\<close> is a machine: \<open>supStep\<close> is what it does with one thing that happens to it (an answer of the
  operating system, a reading of the clock, a signal, a call of a device over the connection), and the runs
  are the sequences of those. A process is its identifier, and \<open>live\<close> is the set of the processes that were
  started and are not known to have ended.
\<close>

section \<open>Configuration\<close>

record SupervisorConfig =
  scFleet :: string
  SocketPath :: string
  FleetFilePath :: string
  Command :: "string list option"
  scEnv :: "string list option"
  StartTimeout :: duration
  CallTimeout :: duration
  StopGrace :: duration
  BackoffMin :: duration
  BackoffMax :: duration
  MaxRestarts :: int
  RestartWindow :: duration

definition defaultStartTimeout :: duration where "defaultStartTimeout = 30000000000"
definition defaultCallTimeout :: duration where "defaultCallTimeout = 10000000000"
definition defaultStopGrace :: duration where "defaultStopGrace = 5000000000"
definition defaultBackoffMin :: duration where "defaultBackoffMin = 2000000000"
definition defaultBackoffMax :: duration where "defaultBackoffMax = 60000000000"
definition defaultMaxRestarts :: int where "defaultMaxRestarts = 5"
definition defaultRestartWindow :: duration where "defaultRestartWindow = 600000000000"

lemmas supervisor_defaults = defaultStartTimeout_def defaultCallTimeout_def defaultStopGrace_def defaultBackoffMin_def
  defaultBackoffMax_def defaultMaxRestarts_def defaultRestartWindow_def

text \<open>The environment \<open>DefaultEnv\<close> picks from the process's own: \<open>PATH\<close> and \<open>HOME\<close>, when they are set.\<close>

definition DefaultEnv :: "(string \<Rightarrow> string option) \<Rightarrow> string list" where
  "DefaultEnv lookupEnv =
     (case lookupEnv ''PATH'' of Some v \<Rightarrow> [''PATH='' @ v] | None \<Rightarrow> []) @
     (case lookupEnv ''HOME'' of Some v \<Rightarrow> [''HOME='' @ v] | None \<Rightarrow> [])"

definition orDefault :: "int \<Rightarrow> int \<Rightarrow> int" where
  "orDefault x d = (if x \<le> 0 then d else x)"

definition supWithDefaults :: "(string \<Rightarrow> string option) \<Rightarrow> SupervisorConfig \<Rightarrow> SupervisorConfig" where
  "supWithDefaults lookupEnv cfg = cfg\<lparr>
     Command := Some (case Command cfg of None \<Rightarrow> [''python3'', ''-P'', ''-m'', ''gldsidecar''] | Some c \<Rightarrow> c),
     scEnv := Some (case scEnv cfg of None \<Rightarrow> DefaultEnv lookupEnv | Some e \<Rightarrow> e),
     StartTimeout := orDefault (StartTimeout cfg) defaultStartTimeout,
     CallTimeout := orDefault (CallTimeout cfg) defaultCallTimeout,
     StopGrace := orDefault (StopGrace cfg) defaultStopGrace,
     BackoffMin := orDefault (BackoffMin cfg) defaultBackoffMin,
     BackoffMax := orDefault (BackoffMax cfg) defaultBackoffMax,
     MaxRestarts := orDefault (MaxRestarts cfg) defaultMaxRestarts,
     RestartWindow := orDefault (RestartWindow cfg) defaultRestartWindow\<rparr>"

section \<open>State\<close>

datatype SupervisorState = StateStarting | StateUp | StateRestarting | StateDown | StateStopped

fun supStateName :: "SupervisorState \<Rightarrow> string" where
  "supStateName StateStarting = ''Starting''"
| "supStateName StateUp = ''Up''"
| "supStateName StateRestarting = ''Restarting''"
| "supStateName StateDown = ''Down''"
| "supStateName StateStopped = ''Stopped''"

text \<open>The result of the first start: what \<open>WaitStarted\<close> returns, once there is one.\<close>

datatype startErr = StartRefused string | StartCancelled

record 'p Supervisor =
  clientConn :: "'p Conn option"
  sproc :: "int option"
  healthy :: bool
  gen :: "64 word"
  started :: bool
  stopped :: bool
  supState :: SupervisorState
  stateReason :: "string option"
  stopCh :: bool
  startedCh :: "startErr option option"

definition newSupervisor :: "'p Supervisor" where
  "newSupervisor = \<lparr>clientConn = None, sproc = None, healthy = False, gen = 0, started = False, stopped = False,
     supState = StateStarting, stateReason = None, stopCh = False, startedCh = None\<rparr>"

definition Healthy :: "'p Supervisor \<Rightarrow> bool" where "Healthy s = healthy s"
definition generation :: "'p Supervisor \<Rightarrow> 64 word" where "generation s = gen s"

text \<open>The wait for the first start: it is over, or the caller's context is; \<open>taken\<close> is the case the select takes when both are.\<close>

datatype waitResult = Waiting | FirstStart "startErr option" | WaitCancelled

definition WaitStarted :: "bool \<Rightarrow> bool \<Rightarrow> 'p Supervisor \<Rightarrow> waitResult" where
  "WaitStarted ctxDone taken s =
     (case startedCh s of
        Some e \<Rightarrow> if ctxDone \<and> \<not> taken then WaitCancelled else FirstStart e
      | None \<Rightarrow> if ctxDone then WaitCancelled else Waiting)"

definition client :: "'p Supervisor \<Rightarrow> 'p Conn option" where
  "client s = (if \<not> healthy s then None else clientConn s)"

definition sidecarProc :: "'p Supervisor \<Rightarrow> int option" where
  "sidecarProc s = (if \<not> healthy s then None else sproc s)"

definition State :: "'p Supervisor \<Rightarrow> SupervisorState \<times> string option" where
  "State s = (supState s, stateReason s)"

definition markStarted :: "startErr option \<Rightarrow> 'p Supervisor \<Rightarrow> 'p Supervisor" where
  "markStarted e s = (if startedCh s = None then s\<lparr>startedCh := Some e\<rparr> else s)"

definition setUp :: "'p Conn \<Rightarrow> int \<Rightarrow> 'p Supervisor \<Rightarrow> 'p Supervisor" where
  "setUp c pid s = s\<lparr>clientConn := Some c, sproc := Some pid, healthy := True, gen := gen s + 1,
     supState := StateUp, stateReason := None\<rparr>"

definition setRestarting :: "'p Supervisor \<Rightarrow> 'p Supervisor" where
  "setRestarting s = s\<lparr>clientConn := None, sproc := None, healthy := False, supState := StateRestarting\<rparr>"

definition setDown :: "string \<Rightarrow> 'p Supervisor \<Rightarrow> 'p Supervisor" where
  "setDown reason s = s\<lparr>clientConn := None, sproc := None, healthy := False, supState := StateDown, stateReason := Some reason\<rparr>"

definition setStopped :: "'p Supervisor \<Rightarrow> 'p Supervisor" where
  "setStopped s = s\<lparr>clientConn := None, sproc := None, healthy := False, supState := StateStopped\<rparr>"

definition Stop :: "'p Supervisor \<Rightarrow> 'p Supervisor" where
  "Stop s = (if \<not> started s then s\<lparr>stopped := True\<rparr> else s\<lparr>stopCh := True\<rparr>)"

definition pruneRestarts :: "time list \<Rightarrow> duration \<Rightarrow> time \<Rightarrow> time list" where
  "pruneRestarts restarts window now = filter (\<lambda>t. t > now - window) restarts"

fun backoffLoop :: "nat \<Rightarrow> duration \<Rightarrow> duration \<Rightarrow> duration" where
  "backoffLoop 0 d mx = d"
| "backoffLoop (Suc n) d mx = (let d = wrap64 (d * 2) in if d \<ge> mx then mx else backoffLoop n d mx)"

definition backoffDelay :: "nat \<Rightarrow> duration \<Rightarrow> duration \<Rightarrow> duration" where
  "backoffDelay attempt mn mx = backoffLoop attempt mn mx"

section \<open>One start\<close>

text \<open>
  One round of the wait for the socket: whether the path is there, the connection a dial gives, the process
  the kernel names at its other end, and what ends the round.
\<close>

datatype pollEnd = PollCtx | PollExited | PollTick

record 'p poll =
  plStat :: bool
  plDial :: "'p option"
  plPeer :: int
  plEnd :: pollEnd

datatype 'p waitOut = WaitOk "'p Conn" | WaitErr string | WaitExited

definition verifyPeerPID :: "int \<Rightarrow> int \<Rightarrow> bool" where
  "verifyPeerPID peerPid pid \<longleftrightarrow> peerPid = pid"

fun waitForSocket :: "duration \<Rightarrow> int \<Rightarrow> 'p poll list \<Rightarrow> 'p waitOut" where
  "waitForSocket dialTimeout pid [] = WaitErr ''waiting for socket''"
| "waitForSocket dialTimeout pid (p # ps) =
     (case (if plStat p then Dial dialTimeout (plDial p) else Inl (WValue [])) of
        Inr c \<Rightarrow> if verifyPeerPID (plPeer p) pid then WaitOk c else WaitErr ''dial: peer credential check''
      | Inl _ \<Rightarrow>
          (case plEnd p of
             PollCtx \<Rightarrow> WaitErr ''waiting for socket''
           | PollExited \<Rightarrow> WaitExited
           | PollTick \<Rightarrow> waitForSocket dialTimeout pid ps))"

record 'p StartEnv =
  launched :: "int option"
  polls :: "'p poll list"
  helloCtx :: callCtx

definition killAndReap :: "int \<Rightarrow> int set \<Rightarrow> int set" where
  "killAndReap pid alive = alive - {pid}"

definition startOnce :: "SupervisorConfig \<Rightarrow> 'p sidecar \<Rightarrow> 'p StartEnv \<Rightarrow> int set \<Rightarrow> (string + int \<times> 'p Conn) \<times> int set" where
  "startOnce cfg sc env alive =
     (case launched env of
        None \<Rightarrow> (Inl ''start sidecar'', alive)
      | Some pid \<Rightarrow>
          let alive = insert pid alive in
          (case waitForSocket (CallTimeout cfg) pid (polls env) of
             WaitExited \<Rightarrow> (Inl (''connect to fleet '' @ scFleet cfg @ '' sidecar: exited''), alive - {pid})
           | WaitErr e \<Rightarrow> (Inl (''connect to fleet '' @ scFleet cfg @ '' sidecar: '' @ e), killAndReap pid alive)
           | WaitOk c \<Rightarrow>
               (case Hello sc (helloCtx env) c of
                  (Inl e, c) \<Rightarrow> (Inl (''fleet '' @ scFleet cfg @ '' hello''), killAndReap pid alive)
                | (Inr h, c) \<Rightarrow>
                    if Protocol h \<noteq> ProtocolVersion then (Inl (''fleet '' @ scFleet cfg @ '': protocol''), killAndReap pid alive)
                    else if hrFleet h \<noteq> scFleet cfg then
                      (Inl (''fleet '' @ scFleet cfg @ '': sidecar answered hello as fleet '' @ hrFleet h), killAndReap pid alive)
                    else (Inr (pid, c), alive))))"

text \<open>The end of an orderly stop: the request, the two waits, and the signals it came to.\<close>

datatype signal = SIGTERM | SIGKILL

record shutEnv =
  shutCtx :: callCtx
  endsAfterRequest :: bool
  endsAfterTerm :: bool

definition shutdownSup :: "'p sidecar \<Rightarrow> shutEnv \<Rightarrow> 'p Conn option \<Rightarrow> int option \<Rightarrow> int set \<Rightarrow>
    signal list \<times> 'p Conn option \<times> int set" where
  "shutdownSup sc env conn pid alive =
     (let conn = map_option (\<lambda>c. snd (Shutdown sc (shutCtx env) c)) conn
      in case pid of
           None \<Rightarrow> ([], conn, alive)
         | Some p \<Rightarrow>
             if endsAfterRequest env then ([], conn, alive - {p})
             else if endsAfterTerm env then ([SIGTERM], conn, alive - {p})
             else ([SIGTERM, SIGKILL], conn, killAndReap p alive))"

section \<open>Run\<close>

datatype runEnd = RunNil | RunErr string | RunCtx ctxErr

datatype phase = PhIdle | PhUp | PhCheck | PhBackoff duration | PhDone runEnd

datatype logLine =
    LogExited
  | LogWorkerDead wireErr
  | LogConnBroken wireErr
  | LogRestarting duration nat int
  | LogAttemptFailed string
  | LogDown string

text \<open>\<open>attempts\<close> keeps the instants of all the attempts and \<open>clock\<close> the last reading of the clock; the code
  has neither.\<close>

record 'p run =
  sv :: "'p Supervisor"
  phase :: phase
  restarts :: "time list"
  live :: "int set"
  supLog :: "logLine list"
  attempts :: "time list"
  clock :: time

text \<open>
  \<open>EvRun\<close>: the call of \<open>Run\<close>, with what its context says after the first start; \<open>EvCalls\<close>: calls of the devices
  over the current connection; \<open>EvCheck\<close>: the top of the restart loop, with the context, which of two ready
  branches \<open>select\<close> takes and the two clock readings; \<open>EvElapsed\<close>: the backoff is over and a start is tried.
\<close>

datatype 'p event =
    EvRun "ctxErr option" "'p StartEnv"
  | EvStopCall
  | EvCalls "callArgs list"
  | EvCtxDone ctxErr shutEnv
  | EvStopSeen shutEnv
  | EvExited
  | EvBroken
  | EvCheck "ctxErr option" bool time time
  | EvElapsed "'p StartEnv"

definition initialRun :: "time \<Rightarrow> 'p run" where
  "initialRun now = \<lparr>sv = newSupervisor, phase = PhIdle, restarts = [], live = {}, supLog = [], attempts = [], clock = now\<rparr>"

definition stepRun :: "SupervisorConfig \<Rightarrow> 'p sidecar \<Rightarrow> 'p run \<Rightarrow> ctxErr option \<Rightarrow> 'p StartEnv \<Rightarrow> 'p run" where
  "stepRun cfg sc r ctxErr env =
     (if stopped (sv r) then
        r\<lparr>sv := markStarted (Some StartCancelled) ((sv r)\<lparr>supState := StateStopped\<rparr>), phase := PhDone RunNil\<rparr>
      else
        let s = (sv r)\<lparr>started := True\<rparr> in
        case startOnce cfg sc env (live r) of
          (Inl e, alive) \<Rightarrow>
            (case ctxErr of
               Some ce \<Rightarrow> r\<lparr>sv := markStarted (Some StartCancelled) (setStopped s), live := alive, phase := PhDone (RunCtx ce)\<rparr>
             | None \<Rightarrow>
                 let reason = ''fleet '' @ scFleet cfg @ '': initial start refused: '' @ e
                 in r\<lparr>sv := markStarted (Some (StartRefused reason)) (setDown reason s), live := alive,
                      supLog := supLog r @ [LogDown reason], phase := PhDone (RunErr reason)\<rparr>)
        | (Inr (pid, c), alive) \<Rightarrow>
            r\<lparr>sv := markStarted None (setUp c pid s), live := alive, phase := PhUp\<rparr>)"

definition stepShutdown :: "'p sidecar \<Rightarrow> 'p run \<Rightarrow> shutEnv \<Rightarrow> runEnd \<Rightarrow> 'p run" where
  "stepShutdown sc r env e =
     (case shutdownSup sc env (clientConn (sv r)) (sproc (sv r)) (live r) of
        (sigs, conn, alive) \<Rightarrow> r\<lparr>sv := setStopped (sv r), live := alive, phase := PhDone e\<rparr>)"

definition exitDuringRestart :: "'p run \<Rightarrow> runEnd \<Rightarrow> 'p run" where
  "exitDuringRestart r e = r\<lparr>sv := setStopped (sv r), phase := PhDone e\<rparr>"

definition stepCheck :: "SupervisorConfig \<Rightarrow> 'p run \<Rightarrow> ctxErr option \<Rightarrow> bool \<Rightarrow> time \<Rightarrow> time \<Rightarrow> 'p run" where
  "stepCheck cfg r ctx stopFirst now1 now2 =
     (let r = r\<lparr>clock := now2\<rparr> in
      if stopCh (sv r) \<and> (ctx = None \<or> stopFirst) then exitDuringRestart r RunNil
      else case ctx of
        Some ce \<Rightarrow> exitDuringRestart r (RunCtx ce)
      | None \<Rightarrow>
          let rs = pruneRestarts (restarts r) (RestartWindow cfg) now1 in
          if int (length rs) \<ge> MaxRestarts cfg then
            (let reason = ''fleet '' @ scFleet cfg @ '': restart budget exhausted, staying down''
             in r\<lparr>restarts := rs, sv := setDown reason (sv r), supLog := supLog r @ [LogDown reason],
                  phase := PhDone (RunErr reason)\<rparr>)
          else
            (let delay = backoffDelay (length rs) (BackoffMin cfg) (BackoffMax cfg)
             in r\<lparr>restarts := rs @ [now2], attempts := attempts r @ [now2],
                  supLog := supLog r @ [LogRestarting delay (length rs + 1) (MaxRestarts cfg)], phase := PhBackoff delay\<rparr>))"

definition stepElapsed :: "SupervisorConfig \<Rightarrow> 'p sidecar \<Rightarrow> 'p run \<Rightarrow> 'p StartEnv \<Rightarrow> 'p run" where
  "stepElapsed cfg sc r env =
     (case startOnce cfg sc env (live r) of
        (Inl e, alive) \<Rightarrow> r\<lparr>live := alive, supLog := supLog r @ [LogAttemptFailed e], phase := PhCheck\<rparr>
      | (Inr (pid, c), alive) \<Rightarrow> r\<lparr>sv := setUp c pid (sv r), live := alive, phase := PhUp\<rparr>)"

definition stepBroken :: "'p run \<Rightarrow> wireErr \<Rightarrow> 'p run" where
  "stepBroken r reason =
     r\<lparr>sv := setRestarting (sv r),
       supLog := supLog r @ [if (case reason of WWorkerDead _ \<Rightarrow> True | _ \<Rightarrow> False) then LogWorkerDead reason else LogConnBroken reason],
       live := (case sproc (sv r) of None \<Rightarrow> live r | Some pid \<Rightarrow> killAndReap pid (live r)), phase := PhCheck\<rparr>"

definition stepExited :: "'p run \<Rightarrow> 'p run" where
  "stepExited r =
     r\<lparr>sv := setRestarting (sv r), supLog := supLog r @ [LogExited],
       live := (case sproc (sv r) of None \<Rightarrow> live r | Some pid \<Rightarrow> live r - {pid}), phase := PhCheck\<rparr>"

text \<open>One event; \<open>None\<close> when it cannot happen in this phase.\<close>

fun supStep :: "SupervisorConfig \<Rightarrow> 'p sidecar \<Rightarrow> 'p run \<Rightarrow> 'p event \<Rightarrow> 'p run option" where
  "supStep cfg sc r (EvRun ctxErr env) = (if phase r = PhIdle then Some (stepRun cfg sc r ctxErr env) else None)"
| "supStep cfg sc r EvStopCall = Some (r\<lparr>sv := Stop (sv r)\<rparr>)"
| "supStep cfg sc r (EvCalls ops) =
     (case client (sv r) of
        None \<Rightarrow> None
      | Some c \<Rightarrow> Some (r\<lparr>sv := (sv r)\<lparr>clientConn := Some (callRun sc ops c)\<rparr>\<rparr>))"
| "supStep cfg sc r (EvCtxDone ce env) =
     (case phase r of
        PhUp \<Rightarrow> Some (stepShutdown sc r env (RunCtx ce))
      | PhBackoff d \<Rightarrow> Some (exitDuringRestart r (RunCtx ce))
      | _ \<Rightarrow> None)"
| "supStep cfg sc r (EvStopSeen env) =
     (if \<not> stopCh (sv r) then None
      else case phase r of
        PhUp \<Rightarrow> Some (stepShutdown sc r env RunNil)
      | PhBackoff d \<Rightarrow> Some (exitDuringRestart r RunNil)
      | _ \<Rightarrow> None)"
| "supStep cfg sc r EvExited = (if phase r = PhUp then Some (stepExited r) else None)"
| "supStep cfg sc r EvBroken =
     (if phase r \<noteq> PhUp then None
      else case clientConn (sv r) of
        None \<Rightarrow> None
      | Some c \<Rightarrow> (case brokenCause c of None \<Rightarrow> None | Some reason \<Rightarrow> Some (stepBroken r reason)))"
| "supStep cfg sc r (EvCheck ctx stopFirst now1 now2) =
     (if phase r = PhCheck \<and> clock r \<le> now1 \<and> now1 \<le> now2 then Some (stepCheck cfg r ctx stopFirst now1 now2) else None)"
| "supStep cfg sc r (EvElapsed env) =
     (case phase r of PhBackoff d \<Rightarrow> Some (stepElapsed cfg sc r env) | _ \<Rightarrow> None)"

text \<open>The runs of a supervisor.\<close>

inductive supRun :: "SupervisorConfig \<Rightarrow> 'p sidecar \<Rightarrow> 'p run \<Rightarrow> bool" for cfg sc where
  start: "supRun cfg sc (initialRun now)"
| step: "supRun cfg sc r \<Longrightarrow> supStep cfg sc r e = Some r' \<Longrightarrow> supRun cfg sc r'"

section \<open>One start leaves nothing behind\<close>

lemma startOnce_live:
  assumes "startOnce cfg sc env alive = (res, alive')" "\<And>p. launched env = Some p \<Longrightarrow> p \<notin> alive"
  shows "alive' = (case res of Inl e \<Rightarrow> alive | Inr (pid, c) \<Rightarrow> insert pid alive)"
  using assms by (auto simp: startOnce_def killAndReap_def Let_def split: option.splits waitOut.splits prod.splits sum.splits if_splits)

lemma startOnce_checked:
  assumes "startOnce cfg sc env alive = (Inr (pid, c), alive')"
  shows "launched env = Some pid \<and> (\<exists>c0 h. waitForSocket (CallTimeout cfg) pid (polls env) = WaitOk c0 \<and>
    Hello sc (helloCtx env) c0 = (Inr h, c) \<and> Protocol h = ProtocolVersion \<and> hrFleet h = scFleet cfg)"
  using assms by (auto simp: startOnce_def Let_def split: option.splits waitOut.splits prod.splits sum.splits if_splits)

lemma waitForSocket_peer:
  "waitForSocket t pid ps = WaitOk c \<Longrightarrow> \<exists>p\<in>set ps. plStat p \<and> plPeer p = pid \<and> plDial p \<noteq> None"
  by (induction t pid ps rule: waitForSocket.induct)
     (auto simp: verifyPeerPID_def Dial_def split: if_splits sum.splits pollEnd.splits option.splits)

section \<open>The lifecycle\<close>

text \<open>What the fields of a supervisor say in each phase of its run.\<close>

definition sup_inv :: "'p run \<Rightarrow> bool" where
  "sup_inv r \<longleftrightarrow>
     (case phase r of
        PhUp \<Rightarrow> \<exists>pid c. sproc (sv r) = Some pid \<and> clientConn (sv r) = Some c \<and> live r = {pid}
      | _ \<Rightarrow> sproc (sv r) = None \<and> clientConn (sv r) = None \<and> live r = {}) \<and>
     (healthy (sv r) \<longleftrightarrow> phase r = PhUp) \<and>
     supState (sv r) \<in> (case phase r of PhIdle \<Rightarrow> {StateStarting} | PhUp \<Rightarrow> {StateUp} | PhDone e \<Rightarrow> {StateDown, StateStopped}
       | _ \<Rightarrow> {StateRestarting}) \<and>
     (stateReason (sv r) \<noteq> None \<longleftrightarrow> supState (sv r) = StateDown) \<and>
     (started (sv r) \<longleftrightarrow> (phase r \<noteq> PhIdle \<and> \<not> stopped (sv r))) \<and>
     (stopped (sv r) \<longrightarrow> phase r = PhIdle \<or> (\<exists>e. phase r = PhDone e)) \<and>
     (startedCh (sv r) \<noteq> None \<longleftrightarrow> phase r \<noteq> PhIdle)"

lemmas sup_updates = setUp_def setRestarting_def setDown_def setStopped_def markStarted_def Stop_def

lemma sup_inv_stepRun:
  assumes "sup_inv r" "phase r = PhIdle"
  shows "sup_inv (stepRun cfg sc r ce env)"
proof -
  obtain res alive where s: "startOnce cfg sc env (live r) = (res, alive)" by fastforce
  have live: "live r = {}" using assms by (simp add: sup_inv_def)
  then have "alive = (case res of Inl e \<Rightarrow> {} | Inr (pid, c) \<Rightarrow> {pid})"
    using startOnce_live [OF s] by (auto split: sum.splits)
  with assms s live show ?thesis
    by (auto simp: stepRun_def sup_inv_def sup_updates Let_def split: sum.splits option.splits)
qed

lemma sup_inv_stepElapsed:
  assumes "sup_inv r" "phase r = PhBackoff d"
  shows "sup_inv (stepElapsed cfg sc r env)"
proof -
  obtain res alive where s: "startOnce cfg sc env (live r) = (res, alive)" by fastforce
  have live: "live r = {}" using assms by (simp add: sup_inv_def)
  then have "alive = (case res of Inl e \<Rightarrow> {} | Inr (pid, c) \<Rightarrow> {pid})"
    using startOnce_live [OF s] by (auto split: sum.splits)
  with assms s show ?thesis by (auto simp: stepElapsed_def sup_inv_def sup_updates split: sum.splits)
qed

lemma sup_inv_stop_up: "sup_inv r \<Longrightarrow> phase r = PhUp \<Longrightarrow> sup_inv (stepShutdown sc r env e)"
  by (auto simp: stepShutdown_def shutdownSup_def sup_inv_def sup_updates killAndReap_def Let_def split: prod.splits if_splits)

lemma sup_inv_exit: "sup_inv r \<Longrightarrow> phase r = PhCheck \<or> phase r = PhBackoff d \<Longrightarrow> sup_inv (exitDuringRestart r e)"
  by (auto simp: exitDuringRestart_def sup_inv_def sup_updates)

lemma sup_inv_stepCheck: "sup_inv r \<Longrightarrow> phase r = PhCheck \<Longrightarrow> sup_inv (stepCheck cfg r ctx st n1 n2)"
  by (auto simp: stepCheck_def exitDuringRestart_def sup_inv_def sup_updates Let_def split: option.splits)

lemma sup_inv_lost: "sup_inv r \<Longrightarrow> phase r = PhUp \<Longrightarrow> sup_inv (stepBroken r e) \<and> sup_inv (stepExited r)"
  by (auto simp: stepBroken_def stepExited_def sup_inv_def sup_updates killAndReap_def)

lemma sup_inv_initial: "sup_inv (initialRun now)"
  by (simp add: initialRun_def newSupervisor_def sup_inv_def)

lemma sup_inv_stopCall: "sup_inv r \<Longrightarrow> sup_inv (r\<lparr>sv := Stop (sv r)\<rparr>)"
  by (auto simp: sup_inv_def Stop_def split: phase.splits)

lemma sup_inv_calls: "sup_inv r \<Longrightarrow> client (sv r) \<noteq> None \<Longrightarrow> sup_inv (r\<lparr>sv := (sv r)\<lparr>clientConn := Some c\<rparr>\<rparr>)"
  by (auto simp: sup_inv_def client_def split: phase.splits if_splits)

lemma sup_inv_step: "sup_inv r \<Longrightarrow> supStep cfg sc r e = Some r' \<Longrightarrow> sup_inv r'"
proof (cases e)
  case (EvRun ce env)
  then show "sup_inv r \<Longrightarrow> supStep cfg sc r e = Some r' \<Longrightarrow> ?thesis" by (auto intro: sup_inv_stepRun split: if_splits)
next
  case EvStopCall
  then show "sup_inv r \<Longrightarrow> supStep cfg sc r e = Some r' \<Longrightarrow> ?thesis" by (auto intro: sup_inv_stopCall)
next
  case (EvCalls ops)
  then show "sup_inv r \<Longrightarrow> supStep cfg sc r e = Some r' \<Longrightarrow> ?thesis" by (auto intro: sup_inv_calls split: option.splits)
next
  case (EvCtxDone ce env)
  then show "sup_inv r \<Longrightarrow> supStep cfg sc r e = Some r' \<Longrightarrow> ?thesis"
    by (auto intro: sup_inv_stop_up sup_inv_exit split: phase.splits)
next
  case (EvStopSeen env)
  then show "sup_inv r \<Longrightarrow> supStep cfg sc r e = Some r' \<Longrightarrow> ?thesis"
    by (auto intro: sup_inv_stop_up sup_inv_exit split: phase.splits if_splits)
next
  case EvExited
  then show "sup_inv r \<Longrightarrow> supStep cfg sc r e = Some r' \<Longrightarrow> ?thesis" by (auto simp: sup_inv_lost split: if_splits)
next
  case EvBroken
  then show "sup_inv r \<Longrightarrow> supStep cfg sc r e = Some r' \<Longrightarrow> ?thesis"
    by (auto simp: sup_inv_lost split: if_splits option.splits)
next
  case (EvCheck ctx st n1 n2)
  then show "sup_inv r \<Longrightarrow> supStep cfg sc r e = Some r' \<Longrightarrow> ?thesis" by (auto intro: sup_inv_stepCheck split: if_splits)
next
  case (EvElapsed env)
  then show "sup_inv r \<Longrightarrow> supStep cfg sc r e = Some r' \<Longrightarrow> ?thesis"
    by (auto intro: sup_inv_stepElapsed split: phase.splits)
qed

lemma supRun_inv: "supRun cfg sc r \<Longrightarrow> sup_inv r"
  by (induction rule: supRun.induct) (auto intro: sup_inv_initial sup_inv_step)

lemma sup_inv_up:
  "sup_inv r \<Longrightarrow> phase r = PhUp \<Longrightarrow> \<exists>pid c. sproc (sv r) = Some pid \<and> clientConn (sv r) = Some c \<and> live r = {pid}"
  by (simp add: sup_inv_def)


section \<open>The budget\<close>

lemma backoffLoop_eq:
  "0 < d \<Longrightarrow> d \<le> mx \<Longrightarrow> mx < 4611686018427387904 \<Longrightarrow> backoffLoop n d mx = min (d * 2 ^ n) mx"
proof (induction n arbitrary: d)
  case (Suc n)
  have w: "wrap64 (d * 2) = d * 2" using Suc.prems by (intro wrap64_id) (simp_all add: minInt64_def maxInt64_def)
  show ?case
  proof (cases "d * 2 \<ge> mx")
    case True
    have "d * 2 * 1 \<le> d * 2 * 2 ^ n" using Suc.prems by (intro mult_left_mono) simp_all
    with True w show ?thesis by (simp add: mult.assoc)
  next
    case False
    then show ?thesis using Suc.IH [of "d * 2"] Suc.prems w by (simp add: mult.assoc)
  qed
qed simp

definition spaced :: "nat \<Rightarrow> int \<Rightarrow> time list \<Rightarrow> bool" where
  "spaced m w ts \<longleftrightarrow> (\<forall>i. i + m < length ts \<longrightarrow> ts ! i + w \<le> ts ! (i + m))"

definition budget_inv :: "SupervisorConfig \<Rightarrow> 'p run \<Rightarrow> bool" where
  "budget_inv cfg r \<longleftrightarrow> sorted (attempts r) \<and> (\<forall>t\<in>set (attempts r). t \<le> clock r) \<and>
     (\<exists>old. attempts r = old @ restarts r \<and> (\<forall>t\<in>set old. t + RestartWindow cfg \<le> clock r)) \<and>
     spaced (nat (MaxRestarts cfg)) (RestartWindow cfg) (attempts r) \<and>
     (\<forall>d n m. LogRestarting d n m \<in> set (supLog r) \<longrightarrow>
        d = backoffDelay (n - 1) (BackoffMin cfg) (BackoffMax cfg) \<and> 1 \<le> n \<and> int n \<le> MaxRestarts cfg)"

lemma prune_old:
  assumes "sorted rs"
  shows "\<exists>old. rs = old @ pruneRestarts rs w now \<and> (\<forall>t\<in>set old. t + w \<le> now)"
proof -
  have "pruneRestarts rs w now = dropWhile (\<lambda>t. t \<le> now - w) rs"
    using dropWhile_sorted_filter [of "\<lambda>t. t" rs "now - w"] assms by (simp add: pruneRestarts_def not_le)
  moreover have "\<forall>t\<in>set (takeWhile (\<lambda>t. t \<le> now - w) rs). t + w \<le> now" by (auto dest: set_takeWhileD)
  ultimately show ?thesis by (metis takeWhile_dropWhile_id)
qed

lemma spaced_snoc:
  assumes "spaced m w (old @ new)" "length new < m" "\<forall>t\<in>set old. t + w \<le> x"
  shows "spaced m w (old @ new @ [x])"
  unfolding spaced_def
proof (intro allI impI)
  fix i
  assume i: "i + m < length (old @ new @ [x])"
  show "(old @ new @ [x]) ! i + w \<le> (old @ new @ [x]) ! (i + m)"
  proof (cases "i + m < length (old @ new)")
    case True
    have same: "(old @ new @ [x]) ! k = (old @ new) ! k" if "k < length (old @ new)" for k
      using that by (metis append_assoc nth_append)
    have "(old @ new) ! i + w \<le> (old @ new) ! (i + m)" using assms(1) True unfolding spaced_def by blast
    then show ?thesis using same [of i] same [of "i + m"] True by simp
  next
    case False
    then have e: "i + m = length old + length new" using i by simp
    then have "i < length old" using assms(2) by simp
    then have "(old @ new @ [x]) ! i \<in> set old" by (simp add: nth_append)
    moreover have "(old @ new @ [x]) ! (i + m) = x" using e by (simp add: nth_append)
    ultimately show ?thesis using assms(3) by simp
  qed
qed

lemma budget_stepCheck:
  assumes "budget_inv cfg r" "clock r \<le> n1" "n1 \<le> n2" "0 < MaxRestarts cfg"
  shows "budget_inv cfg (stepCheck cfg r ctx st n1 n2)"
proof -
  obtain old where o: "attempts r = old @ restarts r" "\<forall>t\<in>set old. t + RestartWindow cfg \<le> clock r"
    using assms(1) by (auto simp: budget_inv_def)
  have sr: "sorted (restarts r)" using assms(1) o(1) by (simp add: budget_inv_def sorted_append)
  obtain gone where g: "restarts r = gone @ pruneRestarts (restarts r) (RestartWindow cfg) n1"
    "\<forall>t\<in>set gone. t + RestartWindow cfg \<le> n1" using prune_old [OF sr] by blast
  let ?rs = "pruneRestarts (restarts r) (RestartWindow cfg) n1" and ?old = "old @ gone"
  have a: "attempts r = ?old @ ?rs" "\<forall>t\<in>set ?old. t + RestartWindow cfg \<le> n2"
    using o g assms(2,3) by (simp, fastforce)
  have later: "\<forall>t\<in>set (attempts r). t \<le> n2" using assms(1-3) by (fastforce simp: budget_inv_def)
  have keep: "budget_inv cfg (r\<lparr>clock := n2\<rparr>)"
    using assms(1-3) o later by (fastforce simp: budget_inv_def)
  have sp: "spaced (nat (MaxRestarts cfg)) (RestartWindow cfg) (?old @ ?rs)" using assms(1) a(1) by (simp add: budget_inv_def)
  have grow: "sorted (attempts r @ [n2])" "spaced (nat (MaxRestarts cfg)) (RestartWindow cfg) (attempts r @ [n2])"
    if "\<not> MaxRestarts cfg \<le> int (length ?rs)"
    using assms(1) later spaced_snoc [OF sp _ a(2)] that a(1) by (simp_all add: budget_inv_def sorted_append)
  show ?thesis
  proof (cases "stopCh (sv r) \<and> (ctx = None \<or> st)")
    case True
    then have "stepCheck cfg r ctx st n1 n2 = exitDuringRestart (r\<lparr>clock := n2\<rparr>) RunNil" by (simp add: stepCheck_def Let_def)
    then show ?thesis using keep by (simp add: exitDuringRestart_def budget_inv_def)
  next
    case run: False
    show ?thesis
    proof (cases ctx)
      case (Some ce)
      then have "stepCheck cfg r ctx st n1 n2 = exitDuringRestart (r\<lparr>clock := n2\<rparr>) (RunCtx ce)"
        using run by (auto simp: stepCheck_def Let_def)
      then show ?thesis using keep by (simp add: exitDuringRestart_def budget_inv_def)
    next
      case None
      show ?thesis
      proof (cases "MaxRestarts cfg \<le> int (length ?rs)")
        case True
        have "\<exists>x. attempts r = x @ ?rs \<and> (\<forall>t\<in>set x. t + RestartWindow cfg \<le> n2)" using a by metis
        then show ?thesis using run None True keep by (simp add: stepCheck_def budget_inv_def Let_def)
      next
        case False
        have "\<exists>x. attempts r @ [n2] = x @ ?rs @ [n2] \<and> (\<forall>t\<in>set x. t + RestartWindow cfg \<le> n2)"
          using a by (metis append_assoc)
        then show ?thesis using run None False grow [OF False] keep later
          by (auto simp: stepCheck_def budget_inv_def Let_def)
      qed
    qed
  qed
qed

lemma budget_inv_cong:
  "attempts r' = attempts r \<Longrightarrow> restarts r' = restarts r \<Longrightarrow> clock r' = clock r \<Longrightarrow>
     (\<And>d n m. LogRestarting d n m \<in> set (supLog r') \<Longrightarrow> LogRestarting d n m \<in> set (supLog r)) \<Longrightarrow>
     budget_inv cfg r \<Longrightarrow> budget_inv cfg r'"
  unfolding budget_inv_def by (simp only:) blast

lemma other_steps_keep_budget:
  assumes "supStep cfg sc r e = Some r'" "\<nexists>ctx st n1 n2. e = EvCheck ctx st n1 n2"
  shows "attempts r' = attempts r \<and> restarts r' = restarts r \<and> clock r' = clock r \<and>
    (\<forall>d n m. LogRestarting d n m \<in> set (supLog r') \<longrightarrow> LogRestarting d n m \<in> set (supLog r))"
proof (cases e)
  case (EvRun ce env)
  then show ?thesis using assms(1)
    by (auto simp: stepRun_def Let_def split: if_splits sum.splits prod.splits option.splits)
next
  case (EvElapsed env)
  then show ?thesis using assms(1)
    by (auto simp: stepElapsed_def split: phase.splits sum.splits prod.splits)
qed (use assms in \<open>auto simp: stepShutdown_def exitDuringRestart_def stepBroken_def stepExited_def
    split: phase.splits if_splits option.splits prod.splits\<close>)

lemma supRun_budget:
  assumes "supRun cfg sc r" "0 < MaxRestarts cfg"
  shows "budget_inv cfg r"
  using assms(1)
proof (induction rule: supRun.induct)
  case (start now)
  then show ?case by (simp add: budget_inv_def initialRun_def spaced_def)
next
  case (step r e r')
  show ?case
  proof (cases "\<exists>ctx st n1 n2. e = EvCheck ctx st n1 n2")
    case True
    then show ?thesis using step.hyps(2) step.IH budget_stepCheck [OF step.IH] assms(2) by (auto split: if_splits)
  next
    case False
    note same = other_steps_keep_budget [OF step.hyps(2) False]
    show ?thesis by (rule budget_inv_cong [OF _ _ _ _ step.IH]) (use same in auto)
  qed
qed

text \<open>C16: A sidecar that keeps dying is restarted within its budget. In every run, two restart attempts that
  have \<open>MaxRestarts\<close> - 1 others between them are at least a window apart, so no shorter span holds more than
  \<open>MaxRestarts\<close>; the wait before the n-th attempt of a window is the shortest one doubled n - 1 times, never
  more than the longest; and when the next attempt would exceed the budget, and only then, the fleet goes
  down instead of trying again.\<close>

theorem restart_budget:
  assumes "supRun cfg sc r" "0 < MaxRestarts cfg" "0 < BackoffMin cfg" "BackoffMin cfg \<le> BackoffMax cfg"
    and "BackoffMax cfg < 4611686018427387904"
  shows "spaced (nat (MaxRestarts cfg)) (RestartWindow cfg) (attempts r) \<and>
    (\<forall>d n m. LogRestarting d n m \<in> set (supLog r) \<longrightarrow>
       d = min (BackoffMin cfg * 2 ^ (n - 1)) (BackoffMax cfg) \<and> 1 \<le> n \<and> int n \<le> MaxRestarts cfg) \<and>
    (phase r = PhCheck \<and> \<not> stopCh (sv r) \<and> clock r \<le> now \<longrightarrow>
       (supState (sv (stepCheck cfg r None st now now')) = StateDown \<longleftrightarrow>
          MaxRestarts cfg \<le> int (length (filter (\<lambda>t. now - RestartWindow cfg < t) (attempts r)))))"
proof (intro conjI impI)
  note b = supRun_budget [OF assms(1,2)]
  show "spaced (nat (MaxRestarts cfg)) (RestartWindow cfg) (attempts r)" using b by (simp add: budget_inv_def)
  show "\<forall>d n m. LogRestarting d n m \<in> set (supLog r) \<longrightarrow>
       d = min (BackoffMin cfg * 2 ^ (n - 1)) (BackoffMax cfg) \<and> 1 \<le> n \<and> int n \<le> MaxRestarts cfg"
    using b backoffLoop_eq [OF assms(3-5)] by (simp add: budget_inv_def backoffDelay_def)
  assume h: "phase r = PhCheck \<and> \<not> stopCh (sv r) \<and> clock r \<le> now"
  have st: "supState (sv r) = StateRestarting" using supRun_inv [OF assms(1)] h by (simp add: sup_inv_def)
  obtain old where o: "attempts r = old @ restarts r" "\<forall>t\<in>set old. t + RestartWindow cfg \<le> clock r"
    using b by (auto simp: budget_inv_def)
  have "\<not> now - RestartWindow cfg < t" if "t \<in> set old" for t using o(2) h that by fastforce
  then have "filter (\<lambda>t. now - RestartWindow cfg < t) (attempts r) = pruneRestarts (restarts r) (RestartWindow cfg) now"
    by (simp add: o(1) pruneRestarts_def)
  then show "supState (sv (stepCheck cfg r None st now now')) = StateDown \<longleftrightarrow>
      MaxRestarts cfg \<le> int (length (filter (\<lambda>t. now - RestartWindow cfg < t) (attempts r)))"
    using h st by (simp add: stepCheck_def setDown_def Let_def)
qed

text \<open>A connection is used only after it was proved to be the fleet's own sidecar: every start that
  succeeds talks to the process it has just started (the kernel names it at the other end of the socket), and
  that process speaks this protocol version and names this fleet; a start that fails leaves no process
  running.\<close>

theorem start_only_own_sidecar:
  assumes "startOnce cfg sc env {} = (res, alive)"
  shows "case res of
      Inl e \<Rightarrow> alive = {}
    | Inr (pid, c) \<Rightarrow> alive = {pid} \<and> launched env = Some pid \<and>
        list_ex (\<lambda>p. plStat p \<and> plPeer p = pid) (polls env) \<and>
        (\<exists>c0 h. waitForSocket (CallTimeout cfg) pid (polls env) = WaitOk c0 \<and> Hello sc (helloCtx env) c0 = (Inr h, c) \<and>
           Protocol h = ProtocolVersion \<and> hrFleet h = scFleet cfg)"
proof (cases res)
  case (Inl e)
  then show ?thesis using startOnce_live [OF assms] by simp
next
  case (Inr x)
  obtain pid c where x: "x = (pid, c)" by fastforce
  have s: "startOnce cfg sc env {} = (Inr (pid, c), alive)" using assms Inr x by simp
  obtain c0 h where ck: "launched env = Some pid" "waitForSocket (CallTimeout cfg) pid (polls env) = WaitOk c0"
    "Hello sc (helloCtx env) c0 = (Inr h, c)" "Protocol h = ProtocolVersion" "hrFleet h = scFleet cfg"
    using startOnce_checked [OF s] by blast
  have "list_ex (\<lambda>p. plStat p \<and> plPeer p = pid) (polls env)"
    using waitForSocket_peer [OF ck(2)] by (auto simp: list_ex_iff)
  then show ?thesis using Inr x startOnce_live [OF assms] ck by auto
qed

section \<open>An example\<close>

text \<open>A sidecar of fleet \<open>f\<close>, and a start that finds its socket in the second round.\<close>

definition helloReply :: "wireRequest \<Rightarrow> json" where
  "helloReply rq = JObj [(''id'', JNum (of_int (rqID rq))), (''ok'', JBool True),
     (''result'', JObj [(''protocol'', JNum 1), (''fleet'', JStr ''f'')])]"

definition helloSidecar :: "nat sidecar" where
  "helloSidecar rq p = (Some [Some (helloReply rq)], Suc p)"

definition demoCfg :: SupervisorConfig where
  "demoCfg = supWithDefaults (\<lambda>x. None) \<lparr>scFleet = ''f'', SocketPath = ''f.sock'', FleetFilePath = ''f.json'', Command = None,
     scEnv = None, StartTimeout = 0, CallTimeout = 0, StopGrace = 0, BackoffMin = 0, BackoffMax = 0, MaxRestarts = 0,
     RestartWindow = 0\<rparr>"

definition demoStart :: "nat StartEnv" where
  "demoStart = \<lparr>launched = Some 7,
     polls = [\<lparr>plStat = False, plDial = None, plPeer = 0, plEnd = PollTick\<rparr>,
              \<lparr>plStat = True, plDial = Some 0, plPeer = 7, plEnd = PollTick\<rparr>],
     helloCtx = \<lparr>ctxBefore = None, ctxDuring = None\<rparr>\<rparr>"

lemma demo_hello:
  "Hello helloSidecar \<lparr>ctxBefore = None, ctxDuring = None\<rparr> \<lparr>nextID = 0, brokenCause = None, connTimeout = 10000000000, inbox = [], peer = 0\<rparr> =
     (Inr \<lparr>Protocol = 1, GridlabdVersion = [], PythonVersion = [], hrFleet = ''f'', Objects = []\<rparr>,
      \<lparr>nextID = 1, brokenCause = None, connTimeout = 10000000000, inbox = [], peer = 1\<rparr>)"
proof -
  have d: "decReply (helloReply \<lparr>rqID = 0, rqOp = ''hello'', rqArgs = a\<rparr>) =
      Some \<lparr>rpID = 0, rpOK = True, rpResult = Some (JObj [(''protocol'', JNum 1), (''fleet'', JStr ''f'')]), rpError = None\<rparr>" for a
    by (simp add: helloReply_def decReply_def jget_def decErrorBody_def minInt64_def maxInt64_def)
  show ?thesis
    by (simp add: Hello_def call_def roundTrip_def helloSidecar_def decodeReply_def d wrap64_def jget_def decObjects_def
        minInt64_def maxInt64_def)
qed

lemma demo_start:
  "startOnce demoCfg helloSidecar demoStart {} =
     (Inr (7, \<lparr>nextID = 1, brokenCause = None, connTimeout = 10000000000, inbox = [], peer = 1\<rparr>), {7})"
  by (simp add: startOnce_def demoStart_def demoCfg_def supWithDefaults_def orDefault_def supervisor_defaults Dial_def
      verifyPeerPID_def demo_hello ProtocolVersion_def Let_def)

lemma sup_demo_run:
  "supStep demoCfg helloSidecar (initialRun 0) (EvRun None demoStart) = Some (stepRun demoCfg helloSidecar (initialRun 0) None demoStart)"
  "phase (stepRun demoCfg helloSidecar (initialRun 0) None demoStart) = PhUp"
  by (simp_all add: initialRun_def stepRun_def newSupervisor_def demo_start)


theorem restart_budget_witness:
  "\<exists>r. supRun demoCfg helloSidecar r \<and> attempts r = [4] \<and> spaced 5 600000000000 (attempts r) \<and>
     LogRestarting 2000000000 1 5 \<in> set (supLog r)"
proof -
  let ?r1 = "stepRun demoCfg helloSidecar (initialRun 0) None demoStart"
  let ?r2 = "stepExited ?r1" and ?r3 = "stepCheck demoCfg (stepExited ?r1) None False 3 4"
  have 1: "supRun demoCfg helloSidecar ?r1" by (rule supRun.step [OF supRun.start sup_demo_run(1)])
  have 2: "supRun demoCfg helloSidecar ?r2" by (rule supRun.step [OF 1, of EvExited]) (simp add: sup_demo_run(2))
  have c: "clock ?r1 = 0" "restarts ?r1 = []" "attempts ?r1 = []" "\<not> stopCh (sv ?r1)" "supLog ?r1 = []"
    by (simp_all add: initialRun_def stepRun_def newSupervisor_def demo_start sup_updates)
  have 3: "supRun demoCfg helloSidecar ?r3"
    by (rule supRun.step [OF 2, of "EvCheck None False 3 4"]) (simp add: stepExited_def c)
  have v: "MaxRestarts demoCfg = 5" "BackoffMin demoCfg = 2000000000" "BackoffMax demoCfg = 60000000000" "RestartWindow demoCfg = 600000000000"
    by (simp_all add: demoCfg_def supWithDefaults_def orDefault_def supervisor_defaults)
  have a: "attempts ?r3 = [4]" "LogRestarting 2000000000 1 5 \<in> set (supLog ?r3)"
    using c by (simp_all add: stepCheck_def stepExited_def setRestarting_def pruneRestarts_def v backoffDelay_def Let_def)
  have "spaced (nat (MaxRestarts demoCfg)) (RestartWindow demoCfg) (attempts ?r3)"
    by (rule restart_budget [OF 3, THEN conjunct1]) (simp_all add: v)
  with 3 a show ?thesis unfolding v by auto
qed

theorem start_only_own_sidecar_witness:
  "launched demoStart = Some 7 \<and> list_ex (\<lambda>p. plStat p \<and> plPeer p = 7) (polls demoStart)"
  using start_only_own_sidecar [OF demo_start] by simp

end
