(* ===== verification/Curves.thy ===== *)
theory Curves
  imports Types
begin

text \<open>
  \<open>internal/inverter/voltvar.go\<close>, \<open>freqdroop.go\<close> and the curve cache of
  \<open>dercurve_fetch.go\<close>: piecewise linear curves with the binary search of \<open>sort.Search\<close>, the
  IEEE 1547 default curves and the frequency droop. An index out of range, which panics in Go,
  is the value None.
\<close>

section \<open>Evaluating a curve\<close>

text \<open>\<open>sort.Search\<close>: the loop on the half-open range from \<open>i\<close> to \<open>j\<close>.\<close>

function searchLoop :: "(nat \<Rightarrow> bool) \<Rightarrow> nat \<Rightarrow> nat \<Rightarrow> nat" where
  "searchLoop f i j =
     (if i < j then
        let h = (i + j) div 2 in
        if \<not> f h then searchLoop f (h + 1) j else searchLoop f i h
      else i)"
  by pat_completeness auto
termination by (relation "measure (\<lambda>(f, i, j). j - i)") auto

declare searchLoop.simps [simp del]

definition sortSearch :: "nat \<Rightarrow> (nat \<Rightarrow> bool) \<Rightarrow> nat" where
  "sortSearch n f = searchLoop f 0 n"

definition EvaluateCurve :: "CurvePoint list \<Rightarrow> f64 \<Rightarrow> f64 option" where
  "EvaluateCurve points x =
     (if points = [] then Some 0
      else if x \<le> X (hd points) then Some (Y (hd points))
      else if X (last points) \<le> x then Some (Y (last points))
      else
        let idx = sortSearch (length points) (\<lambda>i. x < X (points ! i)) in
        if idx = 0 \<or> length points \<le> idx then None
        else
          let p0 = points ! (idx - 1); p1 = points ! idx in
          if feq (X p1) (X p0) then Some (Y p0)
          else
            let t = (x - X p0) div (X p1 - X p0)
            in Some (Y p0 + t * (Y p1 - Y p0)))"

definition VoltVarDefaultCurve :: "CurvePoint list" where
  "VoltVarDefaultCurve = [curvePt 0.92 1, curvePt 0.98 0, curvePt 1.02 0, curvePt 1.08 (- 1)]"

definition VoltWattDefaultCurve :: "CurvePoint list" where
  "VoltWattDefaultCurve = [curvePt 1.06 1, curvePt 1.10 0.2]"

definition WattVarDefaultCurve :: "CurvePoint list" where
  "WattVarDefaultCurve = [curvePt 0.2 0, curvePt 0.5 0, curvePt 1 (- 0.44)]"

lemma searchLoop_done: "\<not> i < j \<Longrightarrow> searchLoop f i j = i"
  by (subst searchLoop.simps) simp

lemma searchLoop_right: "i < j \<Longrightarrow> \<not> f ((i + j) div 2) \<Longrightarrow> searchLoop f i j = searchLoop f ((i + j) div 2 + 1) j"
  by (subst searchLoop.simps) simp

lemma searchLoop_left: "i < j \<Longrightarrow> f ((i + j) div 2) \<Longrightarrow> searchLoop f i j = searchLoop f i ((i + j) div 2)"
  by (subst searchLoop.simps) simp

text \<open>The search ends between a point that fails the test and one that passes it.\<close>

lemma searchLoop_inv:
  "i \<le> j \<Longrightarrow> j \<le> n \<Longrightarrow> (i = 0 \<or> \<not> f (i - 1)) \<Longrightarrow> (j = n \<or> f j) \<Longrightarrow>
     let r = searchLoop f i j in i \<le> r \<and> r \<le> j \<and> (r = 0 \<or> \<not> f (r - 1)) \<and> (r = n \<or> f r)"
proof (induction f i j rule: searchLoop.induct)
  case (1 f i j)
  show ?case
  proof (cases "i < j")
    case False
    with "1.prems" show ?thesis by (simp add: searchLoop_done Let_def)
  next
    case True
    define h where "h = (i + j) div 2"
    have h: "i \<le> h" "h < j" using True by (auto simp: h_def)
    show ?thesis
    proof (cases "f h")
      case True
      then have "searchLoop f i j = searchLoop f i h"
        using \<open>i < j\<close> by (simp add: searchLoop_left h_def)
      with "1.IH"(2) [OF \<open>i < j\<close> h_def] True h "1.prems" show ?thesis by (fastforce simp: Let_def)
    next
      case False
      then have "searchLoop f i j = searchLoop f (h + 1) j"
        using \<open>i < j\<close> by (simp add: searchLoop_right h_def)
      with "1.IH"(1) [OF \<open>i < j\<close> h_def] False h "1.prems" show ?thesis by (fastforce simp: Let_def)
    qed
  qed
qed

lemma sortSearch_spec:
  "sortSearch n f \<le> n" "sortSearch n f = 0 \<or> \<not> f (sortSearch n f - 1)"
  "sortSearch n f = n \<or> f (sortSearch n f)"
  using searchLoop_inv [of 0 n n f] by (auto simp: sortSearch_def Let_def)

definition finite_curve :: "CurvePoint list \<Rightarrow> bool" where
  "finite_curve ps \<longleftrightarrow> list_all (\<lambda>p. isFin (X p) \<and> isFin (Y p)) ps"

fun realOf :: "f64 \<Rightarrow> real" where
  "realOf (Fin a) = a"
| "realOf _ = 0"

lemma finite_curve_nth:
  assumes "finite_curve ps" "i < length ps"
  obtains x y where "X (ps ! i) = Fin x" "Y (ps ! i) = Fin y"
  using assms by (metis finite_curve_def isFinE list_all_length)

lemma lerp_bounds:
  fixes a b t :: real
  assumes "0 \<le> t" "t \<le> 1"
  shows "min a b \<le> a + t * (b - a)" "a + t * (b - a) \<le> max a b"
proof -
  have e: "a + t * (b - a) = (1 - t) * a + t * b" by (simp add: algebra_simps)
  have "(1 - t) * min a b + t * min a b \<le> (1 - t) * a + t * b"
    using assms by (intro add_mono mult_left_mono) auto
  then show "min a b \<le> a + t * (b - a)" by (simp add: e algebra_simps)
  have "(1 - t) * a + t * b \<le> (1 - t) * max a b + t * max a b"
    using assms by (intro add_mono mult_left_mono) auto
  then show "a + t * (b - a) \<le> max a b" by (simp add: e algebra_simps)
qed

text \<open>On finite points and a finite argument the evaluation never leaves the range of the Y values,
  whatever the order of the points.\<close>

lemma EvaluateCurve_finite:
  assumes "finite_curve ps" "ps \<noteq> []"
  shows "\<exists>y. EvaluateCurve ps (Fin x) = Some (Fin y) \<and>
    (\<exists>i<length ps. \<exists>j<length ps. realOf (Y (ps ! i)) \<le> y \<and> y \<le> realOf (Y (ps ! j)))"
proof -
  let ?n = "length ps"
  define idx where "idx = sortSearch ?n (\<lambda>i. Fin x < X (ps ! i))"
  obtain x0 y0 where h: "X (ps ! 0) = Fin x0" "Y (ps ! 0) = Fin y0" using finite_curve_nth assms by (metis length_greater_0_conv)
  obtain x1 y1 where l: "X (ps ! (?n - 1)) = Fin x1" "Y (ps ! (?n - 1)) = Fin y1"
    using finite_curve_nth assms by (metis diff_less length_greater_0_conv zero_less_one)
  have n: "0 < ?n" using assms(2) by simp
  have hd: "hd ps = ps ! 0" "last ps = ps ! (?n - 1)" using assms(2) by (simp_all add: hd_conv_nth last_conv_nth)
  consider "x \<le> x0" | "x0 < x" "x1 \<le> x" | "x0 < x" "x < x1" by linarith
  then show ?thesis
  proof cases
    case 1
    then show ?thesis using h n assms(2) by (auto simp: EvaluateCurve_def hd intro!: exI [of _ 0])
  next
    case 2
    then show ?thesis using h l n assms(2)
      by (auto simp: EvaluateCurve_def hd intro!: exI [of _ "?n - 1"])
  next
    case 3
    note s = sortSearch_spec [of ?n "\<lambda>i. Fin x < X (ps ! i)", folded idx_def]
    have "idx \<noteq> 0" using s(3) 3 h n by (metis less_irrefl less_f64.simps(1) not_less_iff_gr_or_eq)
    have "idx \<noteq> ?n" using s(2) \<open>idx \<noteq> 0\<close> 3 l by auto
    then have lt: "idx < ?n" using s(1) by simp
    obtain a ya where a: "X (ps ! (idx - 1)) = Fin a" "Y (ps ! (idx - 1)) = Fin ya"
      by (rule finite_curve_nth [OF assms(1), of "idx - 1"]) (use lt in simp)
    obtain b yb where b: "X (ps ! idx) = Fin b" "Y (ps ! idx) = Fin yb"
      by (rule finite_curve_nth [OF assms(1) lt])
    have ab: "a \<le> x" "x < b" using s(2,3) \<open>idx \<noteq> 0\<close> lt a b by auto
    define t where "t = (x - a) / (b - a)"
    have t: "0 \<le> t" "t \<le> 1" using ab by (auto simp: t_def)
    have "EvaluateCurve ps (Fin x) = Some (Fin (ya + t * (yb - ya)))"
      using assms(2) 3 ab a b lt \<open>idx \<noteq> 0\<close> unfolding EvaluateCurve_def hd h l idx_def [symmetric]
      by (simp add: Let_def t_def)
    moreover have "\<exists>i<?n. \<exists>j<?n. realOf (Y (ps ! i)) \<le> ya + t * (yb - ya) \<and> ya + t * (yb - ya) \<le> realOf (Y (ps ! j))"
    proof (cases "ya \<le> yb")
      case True
      then show ?thesis using lerp_bounds [OF t, of ya yb] a b lt
        by (intro exI [of _ "idx - 1"] conjI exI [of _ idx]) auto
    next
      case False
      then show ?thesis using lerp_bounds [OF t, of ya yb] a b lt
        by (intro exI [of _ idx] conjI exI [of _ "idx - 1"]) auto
    qed
    ultimately show ?thesis by blast
  qed
qed

lemma EvaluateCurve_range:
  assumes "finite_curve ps" "ps \<noteq> []" "\<And>p. p \<in> set ps \<Longrightarrow> lo \<le> realOf (Y p) \<and> realOf (Y p) \<le> hi"
  obtains y where "EvaluateCurve ps (Fin x) = Some (Fin y)" "lo \<le> y" "y \<le> hi"
proof -
  from EvaluateCurve_finite [OF assms(1,2), of x] obtain y i j where
    y: "EvaluateCurve ps (Fin x) = Some (Fin y)" "i < length ps" "j < length ps"
      "realOf (Y (ps ! i)) \<le> y" "y \<le> realOf (Y (ps ! j))" by blast
  have "lo \<le> realOf (Y (ps ! i))" "realOf (Y (ps ! j)) \<le> hi" using assms(3) y(2,3) by auto
  with y show ?thesis by (intro that [of y]) auto
qed

text \<open>Not a number: the clamps and the search all fail their tests and the index is out of range.\<close>

lemma searchLoop_false: "i \<le> j \<Longrightarrow> (\<And>h. \<not> f h) \<Longrightarrow> searchLoop f i j = j"
proof (induction f i j rule: searchLoop.induct)
  case (1 f i j)
  show ?case
  proof (cases "i < j")
    case True
    then show ?thesis using "1.IH"(1) [OF True refl] "1.prems" by (simp add: searchLoop_right)
  qed (use "1.prems" in \<open>simp add: searchLoop_done\<close>)
qed

lemma EvaluateCurve_NaN: "ps \<noteq> [] \<Longrightarrow> EvaluateCurve ps NaN = None"
  by (simp add: EvaluateCurve_def sortSearch_def searchLoop_false)

section \<open>Frequency droop\<close>

definition DefaultDroopPct :: f64 where
  "DefaultDroopPct = 5"

definition FreqDroop :: "f64 \<Rightarrow> f64 \<Rightarrow> f64 \<Rightarrow> f64 \<Rightarrow> f64 \<Rightarrow> f64" where
  "FreqDroop freqHz nominalHz droopPct preDisturbancePW ratedW =
     (if droopPct \<le> 0 then preDisturbancePW
      else
        let deltaF = freqHz - nominalHz in
        if fabs deltaF < Fin 0.017 * nominalHz then preDisturbancePW
        else
          let droopFraction = droopPct div 100;
              deltaP = - (deltaF div (droopFraction * nominalHz)) * ratedW;
              adjustedP = preDisturbancePW + deltaP;
              adjustedP = (if adjustedP < 0 then 0 else adjustedP)
          in if ratedW < adjustedP then ratedW else adjustedP)"

section \<open>The curve cache\<close>

type_synonym DERCurveCache = "8 word \<rightharpoonup> CurvePoint list"

definition NewDERCurveCache :: DERCurveCache where
  "NewDERCurveCache = Map.empty"

definition curveSet :: "DERCurveCache \<Rightarrow> 8 word \<Rightarrow> CurvePoint list \<Rightarrow> DERCurveCache" where
  "curveSet c curveType points = c(curveType \<mapsto> points)"

definition curveLookup :: "DERCurveCache \<Rightarrow> 8 word \<Rightarrow> CurvePoint list option" where
  "curveLookup c curveType = c curveType"

text \<open>The points of a \<open>DERCurve\<close> on the wire are pairs of signed 32-bit integers.\<close>

record DERCurve =
  CurveType :: "8 word"
  CurveData :: "(32 word \<times> 32 word) list"

definition MapCurveData :: "(32 word \<times> 32 word) list \<Rightarrow> CurvePoint list" where
  "MapCurveData ps = map (\<lambda>(x, y). \<lparr>X = ofInt (sint x), Y = ofInt (sint y)\<rparr>) ps"

datatype 'e curveFetchErr = ErrListHrefRequired | ErrCacheRequired | ErrGet 'e

definition fetchProgramCurves ::
    "(string \<Rightarrow> 'e + DERCurve list) \<Rightarrow> string \<Rightarrow> DERCurveCache option \<Rightarrow> 'e curveFetchErr + DERCurveCache" where
  "fetchProgramCurves get listHref cache =
     (if listHref = [] then Inl ErrListHrefRequired
      else
        case cache of
          None \<Rightarrow> Inl ErrCacheRequired
        | Some c \<Rightarrow>
            (case get listHref of
               Inl e \<Rightarrow> Inl (ErrGet e)
             | Inr curves \<Rightarrow> Inr (foldl (\<lambda>c cv. curveSet c (CurveType cv) (MapCurveData (CurveData cv))) c curves)))"

lemma finite_curve_MapCurveData: "finite_curve (MapCurveData ps)"
  by (auto simp: finite_curve_def MapCurveData_def list_all_iff)

text \<open>The cache after a fetch: the last curve of each type in the list, or what was there before.\<close>

lemma fetched_lookup:
  "foldl (\<lambda>c cv. curveSet c (CurveType cv) (MapCurveData (CurveData cv))) c curves t =
     (case find (\<lambda>cv. CurveType cv = t) (rev curves) of
        None \<Rightarrow> c t | Some cv \<Rightarrow> Some (MapCurveData (CurveData cv)))"
  by (induction curves rule: rev_induct) (auto simp: curveSet_def)

section \<open>Properties\<close>

text \<open>On a non-empty curve of finite points a finite argument always has a value, between the least
  and the greatest Y of the curve, in whatever order the points come; an argument that is not a number
  indexes past the end of the curve, which panics.\<close>

theorem curve_bounds:
  assumes "finite_curve ps" "ps \<noteq> []" "\<forall>p\<in>set ps. lo \<le> realOf (Y p) \<and> realOf (Y p) \<le> hi"
  shows "(\<exists>y. EvaluateCurve ps (Fin x) = Some (Fin y) \<and> lo \<le> y \<and> y \<le> hi) \<and> EvaluateCurve ps NaN = None"
  using EvaluateCurve_range [OF assms(1,2), of lo hi x] assms(3) EvaluateCurve_NaN [OF assms(2)] by blast

theorem curve_bounds_witness:
  "(\<exists>y. EvaluateCurve VoltVarDefaultCurve (Fin 1.05) = Some (Fin y) \<and> - 1 \<le> y \<and> y \<le> 1)"
proof -
  have "\<forall>p\<in>set VoltVarDefaultCurve. - 1 \<le> realOf (Y p) \<and> realOf (Y p) \<le> 1"
    by (simp add: VoltVarDefaultCurve_def)
  moreover have "finite_curve VoltVarDefaultCurve" "VoltVarDefaultCurve \<noteq> []"
    by (simp_all add: finite_curve_def VoltVarDefaultCurve_def)
  ultimately show ?thesis using curve_bounds [of VoltVarDefaultCurve "- 1" 1 "1.05"] by blast
qed

text \<open>A curve passes through its points: where the X values increase strictly, as the function asks,
  the value at the X of a point is the Y of that point.\<close>

theorem curve_through_points:
  assumes "finite_curve ps" "\<forall>i j. i < j \<and> j < length ps \<longrightarrow> X (ps ! i) < X (ps ! j)" "i < length ps"
  shows "EvaluateCurve ps (X (ps ! i)) = Some (Y (ps ! i))"
proof -
  let ?n = "length ps"
  define idx where "idx = sortSearch ?n (\<lambda>k. X (ps ! i) < X (ps ! k))"
  have ne: "ps \<noteq> []" "0 < ?n" using assms(3) by auto
  have hd: "hd ps = ps ! 0" "last ps = ps ! (?n - 1)" using ne by (simp_all add: hd_conv_nth last_conv_nth)
  obtain xi yi where i: "X (ps ! i) = Fin xi" "Y (ps ! i) = Fin yi" by (rule finite_curve_nth [OF assms(1,3)])
  have fin: "\<exists>a. X (ps ! k) = Fin a" if "k < ?n" for k using finite_curve_nth [OF assms(1) that] by metis
  have lt: "X (ps ! a) < X (ps ! b) \<longleftrightarrow> a < b" if ab: "a < ?n" "b < ?n" for a b
  proof -
    obtain u v where "X (ps ! a) = Fin u" "X (ps ! b) = Fin v" using fin ab by blast
    moreover have "a < b \<Longrightarrow> X (ps ! a) < X (ps ! b)" "b < a \<Longrightarrow> X (ps ! b) < X (ps ! a)" using assms(2) ab by auto
    ultimately show ?thesis by (cases a b rule: linorder_cases) auto
  qed
  consider "i = 0" | "0 < i" "i = ?n - 1" | "0 < i" "i < ?n - 1" using assms(3) by linarith
  then show ?thesis
  proof cases
    case 1
    then show ?thesis using ne i by (simp add: EvaluateCurve_def hd)
  next
    case 2
    then have "X (ps ! 0) < X (ps ! i)" using lt assms(3) ne by simp
    then show ?thesis using ne i 2 fin [of 0] by (auto simp: EvaluateCurve_def hd)
  next
    case 3
    note s = sortSearch_spec [of ?n "\<lambda>k. X (ps ! i) < X (ps ! k)", folded idx_def]
    have "idx \<noteq> 0"
    proof
      assume "idx = 0"
      then have "X (ps ! i) < X (ps ! 0)" using s(3) ne by simp
      then show False using lt [OF assms(3) ne(2)] by simp
    qed
    have "idx \<noteq> ?n" using s(2) \<open>idx \<noteq> 0\<close> lt [OF assms(3), of "?n - 1"] 3 by auto
    then have l: "idx < ?n" using s(1) by simp
    have "i < idx" using s(3) l lt [OF assms(3) l] by auto
    moreover have "\<not> i < idx - 1" using s(2) \<open>idx \<noteq> 0\<close> lt [of i "idx - 1"] assms(3) l by auto
    ultimately have e: "idx = Suc i" by simp
    obtain a b where ends: "X (ps ! 0) = Fin a" "X (ps ! (?n - 1)) = Fin b" using fin ne by (metis diff_less zero_less_one)
    have "a < xi" "xi < b" using lt [of 0 i] lt [of i "?n - 1"] 3 ne ends i by auto
    moreover obtain u v where n: "X (ps ! idx) = Fin u" "Y (ps ! idx) = Fin v" by (rule finite_curve_nth [OF assms(1) l])
    moreover have "xi < u" using lt [of i idx] e l i n by simp
    ultimately show ?thesis
      using ne ends i l e unfolding EvaluateCurve_def hd idx_def [symmetric] by (simp add: Let_def)
  qed
qed

theorem curve_through_points_witness:
  "EvaluateCurve VoltVarDefaultCurve (Fin 1.08) = Some (Fin (- 1))"
proof -
  have "\<forall>i j. i < j \<and> j < length VoltVarDefaultCurve \<longrightarrow> X (VoltVarDefaultCurve ! i) < X (VoltVarDefaultCurve ! j)"
    by (auto simp: VoltVarDefaultCurve_def less_Suc_eq nth_Cons split: nat.splits)
  moreover have "finite_curve VoltVarDefaultCurve" by (simp add: finite_curve_def VoltVarDefaultCurve_def)
  ultimately show ?thesis
    using curve_through_points [of VoltVarDefaultCurve 3] by (simp add: VoltVarDefaultCurve_def)
qed

text \<open>The droop response leaves the power alone inside its dead band and for a droop that is not
  positive, and otherwise clamps it to the range from zero to the rated power. It is not clamped to the
  power before the disturbance: at 58.5 Hz an inverter that produced 1 kW is asked for 6 kW.\<close>

theorem droop_range:
  "(\<bar>f - n\<bar> < 0.017 * n \<or> d \<le> 0 \<longrightarrow> FreqDroop (Fin f) (Fin n) (Fin d) (Fin p) (Fin w) = Fin p) \<and>
   (0 < d \<and> 0 < n \<and> 0 \<le> w \<and> 0.017 * n \<le> \<bar>f - n\<bar> \<longrightarrow>
      FreqDroop (Fin f) (Fin n) (Fin d) (Fin p) (Fin w) =
        Fin (max 0 (min w (p - (f - n) / (d / 100 * n) * w)))) \<and>
   FreqDroop (Fin 58.5) 60 DefaultDroopPct 1000 10000 = 6000"
  by (auto simp: FreqDroop_def DefaultDroopPct_def Let_def)

theorem droop_range_witness:
  "FreqDroop (Fin 60.1) (Fin 60) (Fin 5) (Fin 700) (Fin 10000) = Fin 700 \<and>
   FreqDroop (Fin 62) (Fin 60) (Fin 5) (Fin 700) (Fin 10000) = Fin 0"
  using droop_range [of "60.1" 60 5 700 10000] droop_range [of 62 60 5 700 10000] by simp

end
