(* ===== verification/Simulator.thy ===== *)
theory Simulator
  imports Curves
begin

text \<open>
  \<open>internal/inverter/simulator.go\<close>: the irradiance model, the apparent-power limit and the state
  the inverter reports. Instants are UTC, as they are in the only caller.
\<close>

section \<open>Irradiance\<close>

definition hourOf :: "time \<Rightarrow> int" where
  "hourOf t = t div 3600000000000 mod 24"

definition minuteOf :: "time \<Rightarrow> int" where
  "minuteOf t = t div 60000000000 mod 60"

lemma hourOf_range: "0 \<le> hourOf t \<and> hourOf t < 24"
  by (simp add: hourOf_def)

lemma minuteOf_range: "0 \<le> minuteOf t \<and> minuteOf t < 60"
  by (simp add: minuteOf_def)

definition Irradiance :: "time \<Rightarrow> f64" where
  "Irradiance t =
     (let hour = real_of_int (hourOf t) + real_of_int (minuteOf t) / 60 in
      if hour < 6 \<or> hour > 18 then 0 else 1000 * Fin (sin (pi * (hour - 6) / 12)))"

definition MaxPowerW :: "Nameplate \<Rightarrow> f64 \<Rightarrow> f64" where
  "MaxPowerW rt irradiance = (if irradiance \<le> 0 then 0 else (irradiance div 1000) * RatedW rt)"

section \<open>The output\<close>

definition EnforceVALimit :: "Nameplate \<Rightarrow> f64 \<Rightarrow> f64 \<Rightarrow> f64 \<times> f64" where
  "EnforceVALimit rt pW qVAr =
     (let s = fsqrt (pW * pW + qVAr * qVAr) in
      if s \<le> RatedVA rt then (pW, qVAr)
      else
        let maxQ = fsqrt (RatedVA rt * RatedVA rt - pW * pW) in
        if 0 \<le> maxQ then
          (if 0 < qVAr then (pW, fmin qVAr maxQ) else (pW, fmax qVAr (- maxQ)))
        else (RatedVA rt, 0))"

definition ComputePowerFactor :: "f64 \<Rightarrow> f64 \<Rightarrow> f64" where
  "ComputePowerFactor pW qVAr =
     (let s = fsqrt (pW * pW + qVAr * qVAr) in if feq s 0 then 1 else fabs pW div s)"

definition ComputeOutput :: "Nameplate \<Rightarrow> ControlOutputs \<Rightarrow> GridState \<Rightarrow> InverterState" where
  "ComputeOutput rt controls grid =
     (let (p, q) = (if \<not> Connected controls \<or> \<not> Energized controls then (0, 0)
                    else (ActivePowerW controls, ReactivePowerVAr controls));
          (p, q) = EnforceVALimit rt p q
      in \<lparr>isActivePowerW = p, isReactivePowerVAr = q, PowerFactor = ComputePowerFactor p q,
          isVoltsPU = VoltsPU grid, isFreqHz = FreqHz grid, isConnected = Connected controls,
          isEnergized = Energized controls, isMode = Mode controls, isTime = Time grid\<rparr>)"

section \<open>Facts about the limit\<close>

lemma square_le_iff: "0 \<le> (a::real) \<Longrightarrow> x\<^sup>2 \<le> a\<^sup>2 \<longleftrightarrow> \<bar>x\<bar> \<le> a"
  by (metis abs_le_square_iff abs_of_nonneg)

lemma EnforceVALimit_cases:
  assumes "RatedVA rt = Fin va" "0 \<le> va"
  shows "EnforceVALimit rt (Fin p) (Fin q) =
     (if p\<^sup>2 + q\<^sup>2 \<le> va\<^sup>2 then (Fin p, Fin q)
      else if \<bar>p\<bar> \<le> va
        then (Fin p, Fin (if 0 < q then min q (sqrt (va\<^sup>2 - p\<^sup>2)) else max q (- sqrt (va\<^sup>2 - p\<^sup>2))))
      else (Fin va, Fin 0))"
proof -
  have s: "sqrt (p\<^sup>2 + q\<^sup>2) \<le> va \<longleftrightarrow> p\<^sup>2 + q\<^sup>2 \<le> va\<^sup>2"
    using assms(2) by (metis abs_of_nonneg real_sqrt_abs real_sqrt_le_iff)
  have p: "\<bar>p\<bar> \<le> va \<longleftrightarrow> 0 \<le> va\<^sup>2 - p\<^sup>2" using square_le_iff [OF assms(2), of p] by simp
  have sq: "Fin p * Fin p + Fin q * Fin q = Fin (p\<^sup>2 + q\<^sup>2)" "0 \<le> p\<^sup>2 + q\<^sup>2"
    "Fin va * Fin va - Fin p * Fin p = Fin (va\<^sup>2 - p\<^sup>2)"
    by (simp_all add: power2_eq_square)
  show ?thesis
    unfolding EnforceVALimit_def assms(1) sq(1,3) Let_def using s p leD [OF sq(2)] by auto
qed

lemma EnforceVALimit_bounded:
  assumes "RatedVA rt = Fin va" "0 \<le> va" "EnforceVALimit rt (Fin p) (Fin q) = (Fin p', Fin q')"
  shows "p'\<^sup>2 + q'\<^sup>2 \<le> va\<^sup>2"
    and "\<bar>p\<bar> \<le> va \<Longrightarrow> p' = p \<and> \<bar>q'\<bar> \<le> \<bar>q\<bar> \<and> 0 \<le> q * q'"
    and "va < \<bar>p\<bar> \<Longrightarrow> p' = va \<and> q' = 0"
    and "p\<^sup>2 + q\<^sup>2 \<le> va\<^sup>2 \<Longrightarrow> p' = p \<and> q' = q"
proof -
  define m where "m = sqrt (va\<^sup>2 - p\<^sup>2)"
  note e = assms(3) [unfolded EnforceVALimit_cases [OF assms(1,2)], folded m_def]
  have big: "va < \<bar>p\<bar> \<Longrightarrow> \<not> p\<^sup>2 + q\<^sup>2 \<le> va\<^sup>2"
  proof
    assume "va < \<bar>p\<bar>" "p\<^sup>2 + q\<^sup>2 \<le> va\<^sup>2"
    moreover from this have "p\<^sup>2 \<le> va\<^sup>2" using zero_le_power2 [of q] by linarith
    ultimately show False using square_le_iff [OF assms(2), of p] by simp
  qed
  consider "p\<^sup>2 + q\<^sup>2 \<le> va\<^sup>2" | "\<not> p\<^sup>2 + q\<^sup>2 \<le> va\<^sup>2" "\<bar>p\<bar> \<le> va" | "\<not> p\<^sup>2 + q\<^sup>2 \<le> va\<^sup>2" "va < \<bar>p\<bar>" by linarith
  then have "p'\<^sup>2 + q'\<^sup>2 \<le> va\<^sup>2 \<and> (\<bar>p\<bar> \<le> va \<longrightarrow> p' = p \<and> \<bar>q'\<bar> \<le> \<bar>q\<bar> \<and> 0 \<le> q * q')"
  proof cases
    case 1
    then show ?thesis using e by simp
  next
    case 2
    have "p\<^sup>2 \<le> va\<^sup>2" using 2(2) square_le_iff [OF assms(2)] by blast
    then have m: "0 \<le> m" "m\<^sup>2 = va\<^sup>2 - p\<^sup>2" by (simp_all add: m_def)
    have q': "p' = p" "q' = (if 0 < q then min q m else max q (- m))" using e 2 by simp_all
    then have "\<bar>q'\<bar> \<le> m" "\<bar>q'\<bar> \<le> \<bar>q\<bar>" "0 \<le> q * q'" using m by (auto simp: mult_le_0_iff zero_le_mult_iff)
    moreover have "q'\<^sup>2 \<le> m\<^sup>2" using \<open>\<bar>q'\<bar> \<le> m\<close> square_le_iff [OF m(1)] by blast
    ultimately show ?thesis using m q' by simp
  next
    case 3
    then show ?thesis using e assms(2) by simp
  qed
  then show "p'\<^sup>2 + q'\<^sup>2 \<le> va\<^sup>2"
    and "\<bar>p\<bar> \<le> va \<Longrightarrow> p' = p \<and> \<bar>q'\<bar> \<le> \<bar>q\<bar> \<and> 0 \<le> q * q'" by auto
  show "va < \<bar>p\<bar> \<Longrightarrow> p' = va \<and> q' = 0" using e big by simp
  show "p\<^sup>2 + q\<^sup>2 \<le> va\<^sup>2 \<Longrightarrow> p' = p \<and> q' = q" using e by simp
qed

lemma EnforceVALimit_Fin: "RatedVA rt = Fin va \<Longrightarrow> 0 \<le> va \<Longrightarrow> \<exists>p' q'. EnforceVALimit rt (Fin p) (Fin q) = (Fin p', Fin q')"
  by (simp add: EnforceVALimit_cases)

lemma EnforceVALimit_NaN: "RatedVA rt = Fin va \<Longrightarrow> EnforceVALimit rt NaN q = (Fin va, 0)"
  by (simp add: EnforceVALimit_def Let_def)

lemma power_factor_range: "\<exists>f. ComputePowerFactor (Fin p) (Fin q) = Fin f \<and> 0 \<le> f \<and> f \<le> 1"
proof (cases "p\<^sup>2 + q\<^sup>2 = 0")
  case True
  then show ?thesis by (simp add: ComputePowerFactor_def power2_eq_square)
next
  case False
  then have pos: "0 < p\<^sup>2 + q\<^sup>2" by (metis not_sum_power2_lt_zero linorder_neqE_linordered_idom)
  have "\<bar>p\<bar> \<le> sqrt (p\<^sup>2 + q\<^sup>2)" by (rule real_le_rsqrt) simp
  then have "\<bar>p\<bar> / sqrt (p\<^sup>2 + q\<^sup>2) \<le> 1" using pos by simp
  moreover have "ComputePowerFactor (Fin p) (Fin q) = Fin (\<bar>p\<bar> / sqrt (p\<^sup>2 + q\<^sup>2))"
    using pos by (auto simp: ComputePowerFactor_def Let_def power2_eq_square)
  ultimately show ?thesis using pos by auto
qed

lemma Irradiance_range: "\<exists>r. Irradiance t = Fin r \<and> 0 \<le> r \<and> r \<le> 1000"
proof -
  define h where "h = real_of_int (hourOf t) + real_of_int (minuteOf t) / 60"
  show ?thesis
  proof (cases "h < 6 \<or> h > 18")
    case True
    then show ?thesis by (auto simp: Irradiance_def h_def Let_def)
  next
    case False
    then have "0 \<le> pi * (h - 6) / 12" "pi * (h - 6) / 12 \<le> pi" by (auto simp: field_simps)
    then have "0 \<le> sin (pi * (h - 6) / 12)" by (rule sin_ge_zero)
    moreover have "Irradiance t = Fin (1000 * sin (pi * (h - 6) / 12))"
      using False by (simp add: Irradiance_def h_def Let_def)
    ultimately show ?thesis by simp
  qed
qed

section \<open>Properties\<close>

text \<open>The apparent-power limit: for finite inputs the result never exceeds the VA rating; an input
  inside the rating passes unchanged; reactive power is what gives way while the active power alone
  fits, keeping its sign; and an active power beyond the rating becomes plus the rating, whatever its
  sign was, so a charging inverter asked for more than its rating is reported as discharging at full
  power. A power that is not a number becomes full power too.\<close>

theorem va_limit:
  assumes "rating_ok rt w va var"
  shows "\<exists>p' q'. EnforceVALimit rt (Fin p) (Fin q) = (Fin p', Fin q') \<and> p'\<^sup>2 + q'\<^sup>2 \<le> va\<^sup>2 \<and>
    (p\<^sup>2 + q\<^sup>2 \<le> va\<^sup>2 \<longrightarrow> p' = p \<and> q' = q) \<and>
    (\<bar>p\<bar> \<le> va \<longrightarrow> p' = p \<and> \<bar>q'\<bar> \<le> \<bar>q\<bar> \<and> 0 \<le> q * q') \<and>
    (va < \<bar>p\<bar> \<longrightarrow> p' = va \<and> q' = 0) \<and>
    EnforceVALimit rt NaN (Fin q) = (Fin va, 0)"
proof -
  have rt: "RatedVA rt = Fin va" "0 \<le> va" using assms by (simp_all add: rating_ok_def)
  obtain p' q' where e: "EnforceVALimit rt (Fin p) (Fin q) = (Fin p', Fin q')"
    using EnforceVALimit_Fin [OF rt] by blast
  show ?thesis
    using e EnforceVALimit_bounded [OF rt e] EnforceVALimit_NaN [OF rt(1)]
    by (intro exI [of _ p'] exI [of _ q'] conjI impI) metis+
qed

theorem va_limit_witness:
  "EnforceVALimit defaultRating (Fin (- 12000)) (Fin 0) = (Fin 11100, Fin 0)"
  using va_limit [OF rating_ok_default, of "- 12000" 0] by auto

text \<open>What the inverter reports from finite controls is within its VA rating with a power factor
  between zero and one, carries the grid it was computed against, and is zero power whenever the
  controls disconnect or de-energize it, however large the power they ask for.\<close>

theorem output_within_rating:
  assumes "ActivePowerW c = Fin p" "ReactivePowerVAr c = Fin q" "rating_ok rt w va var"
  shows "\<exists>p' q' f. isActivePowerW (ComputeOutput rt c g) = Fin p' \<and> isReactivePowerVAr (ComputeOutput rt c g) = Fin q' \<and>
    PowerFactor (ComputeOutput rt c g) = Fin f \<and> p'\<^sup>2 + q'\<^sup>2 \<le> va\<^sup>2 \<and> 0 \<le> f \<and> f \<le> 1 \<and>
    (\<not> (Connected c \<and> Energized c) \<longrightarrow> p' = 0 \<and> q' = 0 \<and> f = 1) \<and>
    isVoltsPU (ComputeOutput rt c g) = VoltsPU g \<and> isFreqHz (ComputeOutput rt c g) = FreqHz g \<and>
    isTime (ComputeOutput rt c g) = Time g"
proof -
  have rt: "RatedVA rt = Fin va" "0 \<le> va" using assms(3) by (simp_all add: rating_ok_def)
  define p0 where "p0 = (if Connected c \<and> Energized c then p else 0)"
  define q0 where "q0 = (if Connected c \<and> Energized c then q else 0)"
  obtain p' q' where e: "EnforceVALimit rt (Fin p0) (Fin q0) = (Fin p', Fin q')"
    using EnforceVALimit_Fin [OF rt] by blast
  note lim = EnforceVALimit_bounded [OF rt e]
  obtain f where f: "ComputePowerFactor (Fin p') (Fin q') = Fin f" "0 \<le> f" "f \<le> 1"
    using power_factor_range by blast
  have out: "ComputeOutput rt c g = \<lparr>isActivePowerW = Fin p', isReactivePowerVAr = Fin q', PowerFactor = Fin f,
      isVoltsPU = VoltsPU g, isFreqHz = FreqHz g, isConnected = Connected c, isEnergized = Energized c,
      isMode = Mode c, isTime = Time g\<rparr>"
    using e f(1) assms by (auto simp: ComputeOutput_def p0_def q0_def split: if_splits)
  have "p' = 0 \<and> q' = 0 \<and> f = 1" if "\<not> (Connected c \<and> Energized c)"
  proof -
    have "p0 = 0" "q0 = 0" using that by (auto simp: p0_def q0_def)
    then have "p' = 0" "q' = 0" using lim(4) rt by auto
    then show ?thesis using f(1) by (simp add: ComputePowerFactor_def Let_def)
  qed
  with lim(1) f show ?thesis unfolding out by simp
qed

theorem output_within_rating_witness:
  "\<exists>p' q'. isActivePowerW (ComputeOutput defaultRating
      (zeroOutputs\<lparr>ActivePowerW := 20000, Connected := True, Energized := True\<rparr>)
      \<lparr>VoltsPU = 1, FreqHz = 60, Time = 0\<rparr>) = Fin p' \<and> p'\<^sup>2 + q'\<^sup>2 \<le> 11100\<^sup>2"
  using output_within_rating [OF _ _ rating_ok_default, of "zeroOutputs\<lparr>ActivePowerW := 20000, Connected := True, Energized := True\<rparr>" 20000 0
      "\<lparr>VoltsPU = 1, FreqHz = 60, Time = 0\<rparr>"]
  by (auto simp: zeroOutputs_def)

end
