(* ===== verification/SafetyGuards.thy ===== *)
theory SafetyGuards
  imports Simulator
begin

text \<open>
  \<open>internal/inverter/device/guards.go\<close>: the five guards and the fail-safe around a hardware backend. The
  interface \<open>write_budget\<close> is what a limiter of writes promises (a full bucket at the start of each window);
  the token bucket implements it, and so does the whole guarded device. The inner device is a parameter:
  what it answers to a read and to a write, over a state of its own; an instant is an argument.
\<close>

section \<open>State\<close>

record devNameplate =
  npRatedW :: f64
  npRatedVAr :: f64

record GuardConfig =
  MaxStateAge :: duration

record StateReading =
  srGrid :: GridState
  srMaxPowerW :: f64
  srIrradiance :: f64

text \<open>The four sentinels, and an error of the device wrapped by the fail-safe.\<close>

datatype guardErr =
    ErrRateLimitExceeded
  | ErrMalformedControl f64
  | ErrScaleMismatch string
  | ErrStaleState string
  | ErrDeviceWrite string

definition defaultScaleMultiplier :: f64 where "defaultScaleMultiplier = 100"
definition defaultWriteBurst :: int where "defaultWriteBurst = 10"
definition defaultWriteWindow :: duration where "defaultWriteWindow = 1000000000"

record tokenBucket =
  tokens :: int
  tbBurst :: int
  tbWindow :: duration
  lastFill :: time

definition newTokenBucket :: "int \<Rightarrow> duration \<Rightarrow> time \<Rightarrow> tokenBucket" where
  "newTokenBucket burst win now = \<lparr>tokens = burst, tbBurst = burst, tbWindow = win, lastFill = now\<rparr>"

definition tbAllow :: "tokenBucket \<Rightarrow> time \<Rightarrow> bool \<times> tokenBucket" where
  "tbAllow tb now =
     (let tb = (if timeSub now (lastFill tb) \<ge> tbWindow tb then tb\<lparr>tokens := tbBurst tb, lastFill := now\<rparr> else tb)
      in if tokens tb \<le> 0 then (False, tb) else (True, tb\<lparr>tokens := tokens tb - 1\<rparr>))"

text \<open>The backend: what a read and a write answer, and how they change it.\<close>

record 'w DERDevice =
  devRead :: "'w \<Rightarrow> (string + StateReading) \<times> 'w"
  devApply :: "ControlOutputs \<Rightarrow> 'w \<Rightarrow> (string + InverterState) \<times> 'w"

record guardedDevice =
  nameplate :: devNameplate
  scaleMaxW :: f64
  scaleMaxVAr :: f64
  maxStateAge :: duration
  gdLimiter :: tokenBucket
  lastGood :: InverterState
  hasGood :: bool
  lastReadTime :: time

definition zeroState :: InverterState where
  "zeroState = \<lparr>isActivePowerW = 0, isReactivePowerVAr = 0, PowerFactor = 0, isVoltsPU = 0, isFreqHz = 0,
     isConnected = False, isEnergized = False, isMode = ModeConstantPF, isTime = zeroTime\<rparr>"

definition WithSafetyGuards :: "devNameplate \<Rightarrow> GuardConfig \<Rightarrow> time \<Rightarrow> guardedDevice" where
  "WithSafetyGuards np gc now =
     \<lparr>nameplate = np, scaleMaxW = npRatedW np * defaultScaleMultiplier,
      scaleMaxVAr = npRatedVAr np * defaultScaleMultiplier, maxStateAge = MaxStateAge gc,
      gdLimiter = newTokenBucket defaultWriteBurst defaultWriteWindow now,
      lastGood = zeroState, hasGood = False, lastReadTime = zeroTime\<rparr>"

section \<open>The guards\<close>

definition rejectMalformed :: "ControlOutputs \<Rightarrow> guardErr option" where
  "rejectMalformed c =
     (if isNaN (ActivePowerW c) \<or> isInf (ActivePowerW c) then Some (ErrMalformedControl (ActivePowerW c))
      else if isNaN (ReactivePowerVAr c) \<or> isInf (ReactivePowerVAr c) then Some (ErrMalformedControl (ReactivePowerVAr c))
      else None)"

definition validateUnitsAndScale :: "guardedDevice \<Rightarrow> ControlOutputs \<Rightarrow> guardErr option" where
  "validateUnitsAndScale g c =
     (if scaleMaxW g \<le> 0 \<or> scaleMaxVAr g \<le> 0 then Some (ErrScaleMismatch ''scale bounds indeterminate'')
      else if ActivePowerW c > scaleMaxW g \<or> ActivePowerW c < - scaleMaxW g then Some (ErrScaleMismatch ''ActivePowerW'')
      else if ReactivePowerVAr c > scaleMaxVAr g \<or> ReactivePowerVAr c < - scaleMaxVAr g
        then Some (ErrScaleMismatch ''ReactivePowerVAr'')
      else None)"

definition clampToNameplate :: "ControlOutputs \<Rightarrow> devNameplate \<Rightarrow> ControlOutputs" where
  "clampToNameplate c np =
     (let c = (if ActivePowerW c > npRatedW np then c\<lparr>ActivePowerW := npRatedW np\<rparr> else c);
          c = (if ActivePowerW c < 0 then c\<lparr>ActivePowerW := 0\<rparr> else c);
          c = (if ReactivePowerVAr c > npRatedVAr np then c\<lparr>ReactivePowerVAr := npRatedVAr np\<rparr> else c)
      in if ReactivePowerVAr c < - npRatedVAr np then c\<lparr>ReactivePowerVAr := - npRatedVAr np\<rparr> else c)"

definition checkStaleness :: "guardedDevice \<Rightarrow> time \<Rightarrow> guardErr option" where
  "checkStaleness g now =
     (if maxStateAge g \<le> 0 then None
      else if lastReadTime g = zeroTime then Some (ErrStaleState ''ReadState has not been called since construction'')
      else if timeSub now (lastReadTime g) > maxStateAge g then Some (ErrStaleState ''last ReadState was too long ago'')
      else None)"

definition failSafe :: "guardedDevice \<Rightarrow> InverterState" where
  "failSafe g =
     (if hasGood g then lastGood g
      else zeroState\<lparr>isConnected := False, isEnergized := False, isMode := ModeDisconnected\<rparr>)"

definition guardedRead :: "'w DERDevice \<Rightarrow> time \<Rightarrow> guardedDevice \<Rightarrow> 'w \<Rightarrow> (string + StateReading) \<times> guardedDevice \<times> 'w" where
  "guardedRead dev now g w =
     (case devRead dev w of
        (Inl e, w) \<Rightarrow> (Inl e, g, w)
      | (Inr r, w) \<Rightarrow> (Inr r, g\<lparr>lastReadTime := now\<rparr>, w))"

text \<open>
  A write returns the state and the error side by side, as Go does. The third component is the control
  that reached the backend, if one did.
\<close>

definition guardedApply :: "'w DERDevice \<Rightarrow> time \<Rightarrow> ControlOutputs \<Rightarrow> guardedDevice \<Rightarrow> 'w \<Rightarrow>
    (InverterState \<times> guardErr option) \<times> ControlOutputs option \<times> guardedDevice \<times> 'w" where
  "guardedApply dev now c g w =
     (case rejectMalformed c of
        Some e \<Rightarrow> ((zeroState, Some e), None, g, w)
      | None \<Rightarrow>
     (case validateUnitsAndScale g c of
        Some e \<Rightarrow> ((zeroState, Some e), None, g, w)
      | None \<Rightarrow>
        (let c = clampToNameplate c (nameplate g) in
         case checkStaleness g now of
           Some e \<Rightarrow> ((zeroState, Some e), None, g, w)
         | None \<Rightarrow>
             (case tbAllow (gdLimiter g) now of
                (False, tb) \<Rightarrow> ((zeroState, Some ErrRateLimitExceeded), None, g\<lparr>gdLimiter := tb\<rparr>, w)
              | (True, tb) \<Rightarrow>
                  let g = g\<lparr>gdLimiter := tb\<rparr> in
                  (case devApply dev c w of
                     (Inl e, w) \<Rightarrow> ((failSafe g, Some (ErrDeviceWrite e)), Some c, g, w)
                   | (Inr s, w) \<Rightarrow> ((s, None), Some c, g\<lparr>lastGood := s, hasGood := True\<rparr>, w))))))"

section \<open>The interface of a write budget\<close>

locale write_budget =
  fixes use :: "'s \<Rightarrow> time \<Rightarrow> 'i \<Rightarrow> bool \<times> 's"
    and level :: "'s \<Rightarrow> int"
    and filled :: "'s \<Rightarrow> time"
    and burst :: int
    and win :: int
    and ok :: "'s \<Rightarrow> bool"
  assumes use_step: "ok s \<Longrightarrow> use s t i = (pass, s') \<Longrightarrow>
      (filled s' = filled s \<and> level s' = level s - (if pass then 1 else 0) \<and> (pass \<longrightarrow> t - filled s < win)) \<or>
      (filled s' = t \<and> win \<le> t - filled s \<and> level s' = burst - (if pass then 1 else 0))"
    and level_bounds: "ok s \<Longrightarrow> 0 \<le> level s \<and> level s \<le> burst"
    and ok_use: "ok s \<Longrightarrow> ok (snd (use s t i))"
begin

text \<open>How many of a list of calls pass.\<close>

fun passes :: "'s \<Rightarrow> (time \<times> 'i) list \<Rightarrow> int" where
  "passes s [] = 0"
| "passes s ((t, i) # calls) = (let (pass, s') = use s t i in (if pass then 1 else 0) + passes s' calls)"

fun after :: "'s \<Rightarrow> (time \<times> 'i) list \<Rightarrow> 's" where
  "after s [] = s"
| "after s ((t, i) # calls) = after (snd (use s t i)) calls"

lemma ok_after: "ok s \<Longrightarrow> ok (after s calls)"
  by (induction s calls rule: after.induct) (simp_all add: ok_use)

text \<open>Within a window of the last fill only the tokens that are left can pass.\<close>

lemma passes_same_window:
  "ok s \<Longrightarrow> \<forall>(t, i)\<in>set calls. t - filled s < win \<Longrightarrow> passes s calls \<le> level s"
proof (induction s calls rule: passes.induct)
  case (1 s)
  then show ?case using level_bounds by simp
next
  case (2 s t i calls)
  obtain pass s' where u: "use s t i = (pass, s')" by fastforce
  have ok': "ok s'" using ok_use [OF 2(2), of t i] u by simp
  have "filled s' = filled s \<and> level s' = level s - (if pass then 1 else 0)"
    using use_step [OF 2(2) u] 2(3) by auto
  with 2(1) [of _ pass s'] u ok' 2(3) show ?case by (auto split: if_splits)
qed

text \<open>Over less than a window the bucket is filled at most once.\<close>

lemma passes_bounded:
  "ok s \<Longrightarrow> sorted (map fst calls) \<Longrightarrow> \<forall>(t, i)\<in>set calls. a \<le> t \<and> t < a + win \<Longrightarrow> passes s calls \<le> level s + burst"
proof (induction s calls rule: passes.induct)
  case (1 s)
  then show ?case using level_bounds [of s] by simp
next
  case (2 s t i calls)
  obtain pass s' where u: "use s t i = (pass, s')" by fastforce
  have ok': "ok s'" using ok_use [OF 2(2), of t i] u by simp
  from use_step [OF 2(2) u] show ?case
  proof
    assume h: "filled s' = filled s \<and> level s' = level s - (if pass then 1 else 0) \<and> (pass \<longrightarrow> t - filled s < win)"
    have "passes s' calls \<le> level s' + burst" using 2(1) [of _ pass s'] u ok' 2(3,4) by auto
    with h u show ?thesis by (auto split: if_splits)
  next
    assume h: "filled s' = t \<and> win \<le> t - filled s \<and> level s' = burst - (if pass then 1 else 0)"
    have "\<forall>(x, j)\<in>set calls. x - filled s' < win" using h 2(4) by auto
    then have "passes s' calls \<le> level s'" by (rule passes_same_window [OF ok'])
    with h u level_bounds [OF 2(2)] show ?thesis by (auto split: if_splits)
  qed
qed

theorem window_bound:
  assumes "ok s" "sorted (map fst calls)" "\<forall>(t, i)\<in>set calls. a \<le> t \<and> t < a + win"
  shows "passes (after s before) calls \<le> 2 * burst"
proof -
  have "passes (after s before) calls \<le> level (after s before) + burst"
    by (rule passes_bounded [OF ok_after [OF assms(1)] assms(2,3)])
  also have "\<dots> \<le> 2 * burst" using level_bounds [OF ok_after [OF assms(1), of before]] by simp
  finally show ?thesis .
qed

end

section \<open>The bucket and the guarded device keep it\<close>

definition bucket_ok :: "int \<Rightarrow> int \<Rightarrow> tokenBucket \<Rightarrow> bool" where
  "bucket_ok b win tb \<longleftrightarrow> tbBurst tb = b \<and> tbWindow tb = win \<and> 0 \<le> tokens tb \<and> tokens tb \<le> b"

definition useBucket :: "tokenBucket \<Rightarrow> time \<Rightarrow> unit \<Rightarrow> bool \<times> tokenBucket" where
  "useBucket tb t i = tbAllow tb t"

lemma tbAllow_step:
  assumes "bucket_ok b win tb" "tbAllow tb t = (pass, tb')" "0 \<le> b" "minInt64 < win" "win \<le> maxInt64"
  shows "((lastFill tb' = lastFill tb \<and> tokens tb' = tokens tb - (if pass then 1 else 0) \<and> (pass \<longrightarrow> t - lastFill tb < win)) \<or>
      (lastFill tb' = t \<and> win \<le> t - lastFill tb \<and> tokens tb' = b - (if pass then 1 else 0))) \<and> bucket_ok b win tb'"
  using assms timeSub_ge_iff [of win t "lastFill tb"]
  by (auto simp: tbAllow_def bucket_ok_def Let_def split: if_splits)

interpretation tb: write_budget useBucket tokens lastFill defaultWriteBurst defaultWriteWindow
  "bucket_ok defaultWriteBurst defaultWriteWindow"
proof
  fix s t i pass s'
  assume h: "bucket_ok defaultWriteBurst defaultWriteWindow s" "useBucket s t i = (pass, s')"
  show "(lastFill s' = lastFill s \<and> tokens s' = tokens s - (if pass then 1 else 0) \<and> (pass \<longrightarrow> t - lastFill s < defaultWriteWindow)) \<or>
      (lastFill s' = t \<and> defaultWriteWindow \<le> t - lastFill s \<and> tokens s' = defaultWriteBurst - (if pass then 1 else 0))"
    using tbAllow_step [OF h(1) h(2) [unfolded useBucket_def]]
    by (simp add: defaultWriteWindow_def defaultWriteBurst_def minInt64_def maxInt64_def)
next
  fix s t and i :: unit
  assume h: "bucket_ok defaultWriteBurst defaultWriteWindow s"
  obtain pass s' where u: "tbAllow s t = (pass, s')" by fastforce
  show "bucket_ok defaultWriteBurst defaultWriteWindow (snd (useBucket s t i))"
    using tbAllow_step [OF h u] u
    by (simp add: useBucket_def defaultWriteWindow_def defaultWriteBurst_def minInt64_def maxInt64_def)
qed (simp add: bucket_ok_def)

text \<open>The guarded device with its backend, stepped by reads (\<open>None\<close>) and writes: a write that reaches the
  backend passes.\<close>

definition devStep :: "'w DERDevice \<Rightarrow> guardedDevice \<times> 'w \<Rightarrow> time \<Rightarrow> ControlOutputs option \<Rightarrow>
    ControlOutputs option \<times> guardedDevice \<times> 'w" where
  "devStep dev s t i =
     (case i of
        None \<Rightarrow> (None, snd (guardedRead dev t (fst s) (snd s)))
      | Some c \<Rightarrow> (case guardedApply dev t c (fst s) (snd s) of (r, wr, g, w) \<Rightarrow> (wr, g, w)))"

definition useDevice :: "guardedDevice \<times> 'w \<Rightarrow> time \<Rightarrow> 'w DERDevice \<times> ControlOutputs option \<Rightarrow> bool \<times> guardedDevice \<times> 'w" where
  "useDevice s t i = (case devStep (fst i) s t (snd i) of (wr, s) \<Rightarrow> (wr \<noteq> None, s))"

lemma guardedRead_limiter: "gdLimiter (fst (snd (guardedRead dev t g w))) = gdLimiter g"
  by (auto simp: guardedRead_def split: prod.splits sum.splits)

lemma guardedApply_limiter:
  assumes "guardedApply dev t c g w = (r, wr, g', w')"
  shows "(wr = None \<and> gdLimiter g' = gdLimiter g) \<or> (tbAllow (gdLimiter g) t = (wr \<noteq> None, gdLimiter g'))"
  using assms by (auto simp: guardedApply_def Let_def split: option.splits prod.splits bool.splits sum.splits)

lemma useDevice_cases:
  assumes "useDevice s t i = (pass, s')"
  shows "(\<not> pass \<and> gdLimiter (fst s') = gdLimiter (fst s)) \<or> tbAllow (gdLimiter (fst s)) t = (pass, gdLimiter (fst s'))"
proof (cases "snd i")
  case None
  then show ?thesis using assms guardedRead_limiter [of "fst i" t "fst s" "snd s"]
    by (auto simp: useDevice_def devStep_def)
next
  case (Some c)
  obtain r wr g' w' where a: "guardedApply (fst i) t c (fst s) (snd s) = (r, wr, g', w')" by (metis prod_cases4)
  then show ?thesis using assms Some guardedApply_limiter [OF a] by (auto simp: useDevice_def devStep_def)
qed

abbreviation dev_ok :: "guardedDevice \<times> 'w \<Rightarrow> bool" where
  "dev_ok s \<equiv> bucket_ok defaultWriteBurst defaultWriteWindow (gdLimiter (fst s))"

interpretation gd: write_budget useDevice "\<lambda>s. tokens (gdLimiter (fst s))" "\<lambda>s. lastFill (gdLimiter (fst s))"
  defaultWriteBurst defaultWriteWindow dev_ok
proof
  fix s :: "guardedDevice \<times> 'a" and t i pass s'
  assume h: "dev_ok s" "useDevice s t i = (pass, s')"
  show "(lastFill (gdLimiter (fst s')) = lastFill (gdLimiter (fst s)) \<and>
       tokens (gdLimiter (fst s')) = tokens (gdLimiter (fst s)) - (if pass then 1 else 0) \<and>
       (pass \<longrightarrow> t - lastFill (gdLimiter (fst s)) < defaultWriteWindow)) \<or>
      (lastFill (gdLimiter (fst s')) = t \<and> defaultWriteWindow \<le> t - lastFill (gdLimiter (fst s)) \<and>
       tokens (gdLimiter (fst s')) = defaultWriteBurst - (if pass then 1 else 0))"
    using useDevice_cases [OF h(2)] tb.use_step [OF h(1), of t "()" pass "gdLimiter (fst s')"]
    by (auto simp: useBucket_def)
next
  fix s :: "guardedDevice \<times> 'a" and t i
  assume h: "dev_ok s"
  obtain pass s' where u: "useDevice s t i = (pass, s')" by (rule prod.exhaust)
  show "dev_ok (snd (useDevice s t i))"
    using useDevice_cases [OF u] tb.ok_use [OF h, of t "()"] h u by (auto simp: useBucket_def)
qed (simp add: bucket_ok_def)

section \<open>Runs\<close>

text \<open>What can be seen of a run at the backend: the reads that succeeded, and every write with the control
  that was asked for, the control that was written and the state the backend reported, if it did.\<close>

datatype devEvent = ReadOk time | Wrote time ControlOutputs ControlOutputs "InverterState option"

definition traceStep :: "'w DERDevice \<Rightarrow> guardedDevice \<times> 'w \<Rightarrow> time \<Rightarrow> ControlOutputs option \<Rightarrow> devEvent list" where
  "traceStep dev s t i =
     (case i of
        None \<Rightarrow> (case guardedRead dev t (fst s) (snd s) of (Inr r, s') \<Rightarrow> [ReadOk t] | (Inl e, s') \<Rightarrow> [])
      | Some c \<Rightarrow>
          (case guardedApply dev t c (fst s) (snd s) of
             ((st, e), Some c', s') \<Rightarrow> [Wrote t c c' (if e = None then Some st else None)]
           | (r, None, s') \<Rightarrow> []))"

fun devTrace :: "'w DERDevice \<Rightarrow> guardedDevice \<times> 'w \<Rightarrow> (time \<times> ControlOutputs option) list \<Rightarrow> devEvent list" where
  "devTrace dev s [] = []"
| "devTrace dev s ((t, i) # ops) = traceStep dev s t i @ devTrace dev (snd (devStep dev s t i)) ops"

fun devAfter :: "'w DERDevice \<Rightarrow> guardedDevice \<times> 'w \<Rightarrow> (time \<times> ControlOutputs option) list \<Rightarrow> guardedDevice \<times> 'w" where
  "devAfter dev s [] = s"
| "devAfter dev s ((t, i) # ops) = devAfter dev (snd (devStep dev s t i)) ops"

definition goods :: "devEvent list \<Rightarrow> InverterState list" where
  "goods tr = List.map_filter (\<lambda>e. case e of Wrote t c c' r \<Rightarrow> r | ReadOk t \<Rightarrow> None) tr"

lemma goods_simps [simp]: "goods [] = []" "goods (a @ b) = goods a @ goods b"
  "goods (ReadOk t # tr) = goods tr" "goods [Wrote t c c' (Some s)] = [s]" "goods [Wrote t c c' None] = []"
  by (simp_all add: goods_def map_filter_def)

text \<open>A write either reaches the backend or changes nothing but the budget.\<close>

lemma guardedApply_elim:
  assumes "guardedApply dev t c g w = ((st, e), wr, g', w')"
  obtains (refused) "wr = None" "st = zeroState" "e \<noteq> None" "\<And>x. e \<noteq> Some (ErrDeviceWrite x)" "w' = w"
      "g' = g\<lparr>gdLimiter := gdLimiter g'\<rparr>" "e \<noteq> Some ErrRateLimitExceeded \<Longrightarrow> g' = g"
  | (wrote) tb where "wr = Some (clampToNameplate c (nameplate g))" "rejectMalformed c = None" "validateUnitsAndScale g c = None"
      "checkStaleness g t = None" "tbAllow (gdLimiter g) t = (True, tb)" "w' = snd (devApply dev (clampToNameplate c (nameplate g)) w)"
      "(case fst (devApply dev (clampToNameplate c (nameplate g)) w) of
          Inl x \<Rightarrow> e = Some (ErrDeviceWrite x) \<and> st = failSafe g \<and> g' = g\<lparr>gdLimiter := tb\<rparr>
        | Inr s \<Rightarrow> e = None \<and> st = s \<and> g' = g\<lparr>gdLimiter := tb, lastGood := s, hasGood := True\<rparr>)"
proof -
  have fs: "failSafe (g\<lparr>gdLimiter := tb\<rparr>) = failSafe g" for tb by (simp add: failSafe_def)
  consider x where "rejectMalformed c = Some x" | x where "rejectMalformed c = None" "validateUnitsAndScale g c = Some x"
    | x where "rejectMalformed c = None" "validateUnitsAndScale g c = None" "checkStaleness g t = Some x"
    | tb where "rejectMalformed c = None" "validateUnitsAndScale g c = None" "checkStaleness g t = None" "tbAllow (gdLimiter g) t = (False, tb)"
    | tb where "rejectMalformed c = None" "validateUnitsAndScale g c = None" "checkStaleness g t = None" "tbAllow (gdLimiter g) t = (True, tb)"
    by (metis (full_types) option.exhaust prod.exhaust)
  then show thesis
  proof cases
    case 1
    with assms show ?thesis by (intro refused) (auto simp: guardedApply_def rejectMalformed_def split: if_splits)
  next
    case 2
    with assms show ?thesis by (intro refused) (auto simp: guardedApply_def validateUnitsAndScale_def split: if_splits)
  next
    case 3
    with assms show ?thesis by (intro refused) (auto simp: guardedApply_def checkStaleness_def split: if_splits)
  next
    case (4 tb)
    with assms show ?thesis by (intro refused) (auto simp: guardedApply_def Let_def)
  next
    case (5 tb)
    obtain r w2 where d: "devApply dev (clampToNameplate c (nameplate g)) w = (r, w2)" by fastforce
    with assms 5 show ?thesis by (intro wrote [OF _ 5]) (cases r; simp add: guardedApply_def fs)+
  qed
qed

definition sameConfig :: "guardedDevice \<Rightarrow> guardedDevice \<Rightarrow> bool" where
  "sameConfig g g' \<longleftrightarrow> nameplate g' = nameplate g \<and> scaleMaxW g' = scaleMaxW g \<and> scaleMaxVAr g' = scaleMaxVAr g \<and>
     maxStateAge g' = maxStateAge g"

lemma devStep_config: "sameConfig g (fst s) \<Longrightarrow> sameConfig g (fst (snd (devStep dev s t i)))"
proof (cases i)
  case None
  then show "sameConfig g (fst s) \<Longrightarrow> ?thesis"
    by (auto simp: devStep_def guardedRead_def sameConfig_def split: prod.splits sum.splits)
next
  case (Some c)
  assume h: "sameConfig g (fst s)"
  obtain st e wr g' w' where a: "guardedApply dev t c (fst s) (snd s) = ((st, e), wr, g', w')" by (metis prod.exhaust)
  have "sameConfig g g'" using a
  proof (cases rule: guardedApply_elim)
    case refused
    then have "sameConfig (fst s) g'" unfolding sameConfig_def
      by (metis guardedDevice.select_convs(1-4) guardedDevice.surjective guardedDevice.update_convs(5))
    with h show ?thesis by (simp add: sameConfig_def)
  next
    case (wrote tb)
    then show ?thesis using h by (auto simp: sameConfig_def split: sum.splits)
  qed
  then show ?thesis using Some a by (simp add: devStep_def)
qed

text \<open>What a run leaves in the device: its configuration, the last read and the last good state.\<close>

definition run_inv :: "guardedDevice \<Rightarrow> devEvent list \<Rightarrow> guardedDevice \<Rightarrow> bool" where
  "run_inv g0 tr g \<longleftrightarrow> sameConfig g0 g \<and> (lastReadTime g = zeroTime \<or> ReadOk (lastReadTime g) \<in> set tr) \<and>
     hasGood g = (goods tr \<noteq> []) \<and> (goods tr \<noteq> [] \<longrightarrow> lastGood g = last (goods tr))"

lemma run_inv_step:
  assumes "run_inv g0 tr (fst s)"
  shows "run_inv g0 (tr @ traceStep dev s t i) (fst (snd (devStep dev s t i)))"
proof (cases i)
  case None
  obtain r s' where "guardedRead dev t (fst s) (snd s) = (r, s')" by (rule prod.exhaust)
  then show ?thesis using assms None
    by (cases r) (auto simp: run_inv_def sameConfig_def devStep_def traceStep_def guardedRead_def split: prod.splits sum.splits)
next
  case (Some c)
  have conf: "sameConfig g0 (fst (snd (devStep dev s t i)))"
    using assms by (intro devStep_config) (simp add: run_inv_def)
  obtain st e wr g' w' where a: "guardedApply dev t c (fst s) (snd s) = ((st, e), wr, g', w')" by (metis prod.exhaust)
  from a show ?thesis
  proof (cases rule: guardedApply_elim)
    case refused
    then have "lastReadTime g' = lastReadTime (fst s)" "hasGood g' = hasGood (fst s)" "lastGood g' = lastGood (fst s)"
      by (metis guardedDevice.select_convs(6-8) guardedDevice.surjective guardedDevice.update_convs(5))+
    then show ?thesis using assms conf Some a refused(1) by (simp add: run_inv_def devStep_def traceStep_def)
  next
    case (wrote tb)
    then show ?thesis using assms conf Some a
      by (auto simp: run_inv_def devStep_def traceStep_def split: sum.splits)
  qed
qed

lemma run_inv_run: "run_inv g0 tr (fst s) \<Longrightarrow> run_inv g0 (tr @ devTrace dev s ops) (fst (devAfter dev s ops))"
proof (induction ops arbitrary: tr s)
  case (Cons op ops)
  obtain t i where [simp]: "op = (t, i)" by fastforce
  show ?case using Cons.IH [OF run_inv_step [OF Cons.prems, of dev t i]] by simp
qed simp

lemma run_inv_start: "run_inv (WithSafetyGuards np gc now) [] (WithSafetyGuards np gc now)"
  by (simp add: run_inv_def sameConfig_def WithSafetyGuards_def)

section \<open>What reaches the backend\<close>

definition safeWrite :: "devNameplate \<Rightarrow> ControlOutputs \<Rightarrow> ControlOutputs \<Rightarrow> bool" where
  "safeWrite np req c \<longleftrightarrow> isFin (ActivePowerW c) \<and> isFin (ReactivePowerVAr c) \<and>
     0 \<le> ActivePowerW c \<and> ActivePowerW c \<le> npRatedW np \<and>
     - npRatedVAr np \<le> ReactivePowerVAr c \<and> ReactivePowerVAr c \<le> npRatedVAr np \<and>
     Connected c = Connected req \<and> Energized c = Energized req \<and> Mode c = Mode req \<and>
     (0 \<le> ActivePowerW req \<and> ActivePowerW req \<le> npRatedW np \<longrightarrow> ActivePowerW c = ActivePowerW req) \<and>
     (- npRatedVAr np \<le> ReactivePowerVAr req \<and> ReactivePowerVAr req \<le> npRatedVAr np \<longrightarrow>
        ReactivePowerVAr c = ReactivePowerVAr req)"

text \<open>A nameplate whose scale bounds are positive is positive itself.\<close>

lemma scale_pos: "\<not> x * defaultScaleMultiplier \<le> 0 \<Longrightarrow> x \<noteq> NaN \<Longrightarrow> x = PInf \<or> (\<exists>r > 0. x = Fin r)"
  by (cases x) (auto simp: defaultScaleMultiplier_def)

lemma clamp_safe:
  assumes "rejectMalformed req = None" "npRatedW np = PInf \<or> (\<exists>r > 0. npRatedW np = Fin r)"
    "npRatedVAr np = PInf \<or> (\<exists>r > 0. npRatedVAr np = Fin r)"
  shows "safeWrite np req (clampToNameplate req np)"
proof -
  obtain p q where "ActivePowerW req = Fin p" "ReactivePowerVAr req = Fin q"
    using assms(1) by (cases "ActivePowerW req"; cases "ReactivePowerVAr req") (simp_all add: rejectMalformed_def)
  with assms(2,3) show ?thesis
    by (elim disjE exE conjE) (auto simp: safeWrite_def clampToNameplate_def Let_def)
qed

lemma write_safe:
  assumes "run_inv (WithSafetyGuards np gc t0) tr (fst s)" "Wrote t' req c r \<in> set (traceStep dev s t i)"
    "npRatedW np \<noteq> NaN" "npRatedVAr np \<noteq> NaN" "MaxStateAge gc < maxInt64"
  shows "t' = t \<and> i = Some req \<and> safeWrite np req c \<and>
    (0 < MaxStateAge gc \<longrightarrow> (\<exists>x. ReadOk x \<in> set tr \<and> t - x \<le> MaxStateAge gc))"
proof -
  obtain c0 where i: "i = Some c0"
    using assms(2) by (cases i) (auto simp: traceStep_def split: prod.splits sum.splits)
  obtain st e wr g' w' where a: "guardedApply dev t c0 (fst s) (snd s) = ((st, e), wr, g', w')" by (metis prod.exhaust)
  have w: "wr = Some c" "c0 = req" "t' = t" using assms(2) a i by (auto simp: traceStep_def split: option.splits)
  have np: "nameplate (fst s) = np" "scaleMaxW (fst s) = npRatedW np * defaultScaleMultiplier"
    "scaleMaxVAr (fst s) = npRatedVAr np * defaultScaleMultiplier" "maxStateAge (fst s) = MaxStateAge gc"
    using assms(1) by (auto simp: run_inv_def sameConfig_def WithSafetyGuards_def)
  from a show ?thesis
  proof (cases rule: guardedApply_elim)
    case refused
    with w show ?thesis by simp
  next
    case (wrote tb)
    have "\<not> npRatedW np * defaultScaleMultiplier \<le> 0" "\<not> npRatedVAr np * defaultScaleMultiplier \<le> 0"
      using wrote(3) np by (auto simp: validateUnitsAndScale_def split: if_splits)
    then have "safeWrite np req c" using clamp_safe [of c0 np] scale_pos assms(3,4) wrote(1,2) w np(1) by auto
    moreover have "\<exists>x. ReadOk x \<in> set tr \<and> t - x \<le> MaxStateAge gc" if "0 < MaxStateAge gc"
    proof -
      have l: "lastReadTime (fst s) \<noteq> zeroTime" "\<not> MaxStateAge gc < timeSub t (lastReadTime (fst s))"
        using wrote(4) np(4) that by (auto simp: checkStaleness_def split: if_splits)
      then have "t - lastReadTime (fst s) \<le> MaxStateAge gc"
        using assms(5) that by (auto simp: timeSub_def minInt64_def maxInt64_def max_def min_def split: if_splits)
      then show ?thesis using l(1) assms(1) by (auto simp: run_inv_def)
    qed
    ultimately show ?thesis using w i by simp
  qed
qed

lemma traceStep_length: "traceStep dev s t i = [] \<or> (\<exists>x. traceStep dev s t i = [x])"
  by (auto simp: traceStep_def split: option.splits prod.splits sum.splits)

lemma run_writes_safe:
  assumes "run_inv (WithSafetyGuards np gc t0) tr (fst s)" "devTrace dev s ops = pre @ Wrote t req c r # post"
    "npRatedW np \<noteq> NaN" "npRatedVAr np \<noteq> NaN" "MaxStateAge gc < maxInt64"
  shows "(t, Some req) \<in> set ops \<and> safeWrite np req c \<and>
    (0 < MaxStateAge gc \<longrightarrow> (\<exists>x. ReadOk x \<in> set (tr @ pre) \<and> t - x \<le> MaxStateAge gc))"
  using assms(1,2)
proof (induction ops arbitrary: tr s pre)
  case (Cons op ops)
  obtain t1 i where op: "op = (t1, i)" by fastforce
  let ?x = "traceStep dev s t1 i" and ?s = "snd (devStep dev s t1 i)"
  have e: "?x @ devTrace dev ?s ops = pre @ Wrote t req c r # post" using Cons.prems(2) op by simp
  show ?case
  proof (cases "\<exists>pre'. pre = ?x @ pre'")
    case True
    then obtain pre' where p: "pre = ?x @ pre'" by blast
    have d: "devTrace dev ?s ops = pre' @ Wrote t req c r # post" using e p by simp
    show ?thesis using Cons.IH [OF run_inv_step [OF Cons.prems(1)] d] op p by auto
  next
    case False
    then obtain y where "?x = [y]" using traceStep_length [of dev s t1 i] by auto
    then have "pre = []" "Wrote t req c r \<in> set ?x" using e False by (cases pre; auto)+
    then show ?thesis using write_safe [OF Cons.prems(1) _ assms(3-5)] op by fastforce
  qed
qed simp

text \<open>C12: Whatever controls arrive, whatever the backend answers, every control that reaches the hardware is
  finite and inside the nameplate, with the connection, energization and mode that were asked for and with
  the powers that were asked for where those are inside the nameplate; and when a maximum age is set, the
  device was read successfully at most that long before.\<close>

theorem writes_are_safe:
  assumes "npRatedW np \<noteq> NaN" "npRatedVAr np \<noteq> NaN" "MaxStateAge gc < maxInt64"
    and "devTrace dev (WithSafetyGuards np gc t0, w) ops = pre @ Wrote t req c r # post"
  shows "(t, Some req) \<in> set ops \<and> safeWrite np req c \<and>
    (0 < MaxStateAge gc \<longrightarrow> (\<exists>x. ReadOk x \<in> set pre \<and> t - x \<le> MaxStateAge gc))"
  using run_writes_safe [OF _ assms(4,1-3)] run_inv_start by fastforce

definition demoNp :: devNameplate where
  "demoNp = \<lparr>npRatedW = Fin 100, npRatedVAr = Fin 50\<rparr>"

definition demoDev :: "bool DERDevice" where
  "demoDev = \<lparr>devRead = (\<lambda>w. (Inr \<lparr>srGrid = \<lparr>VoltsPU = Fin 1, FreqHz = Fin 60, Time = 0\<rparr>, srMaxPowerW = Fin 100, srIrradiance = 0\<rparr>, w)),
     devApply = (\<lambda>c w. (if w then Inl ''timeout'' else Inr (zeroState\<lparr>isActivePowerW := ActivePowerW c\<rparr>), True))\<rparr>"

definition demoCtl :: ControlOutputs where
  "demoCtl = zeroOutputs\<lparr>ActivePowerW := Fin 150, Connected := True, Energized := True\<rparr>"

lemmas demo_guards = demoNp_def demoDev_def demoCtl_def WithSafetyGuards_def newTokenBucket_def defaultWriteBurst_def
  defaultWriteWindow_def defaultScaleMultiplier_def traceStep_def devStep_def guardedRead_def guardedApply_def
  rejectMalformed_def validateUnitsAndScale_def clampToNameplate_def checkStaleness_def tbAllow_def timeSub_def
  minInt64_def maxInt64_def zeroTime_def zeroOutputs_def failSafe_def

lemma demo_trace:
  "devTrace demoDev (WithSafetyGuards demoNp \<lparr>MaxStateAge = 5\<rparr> 0, False) [(7, None), (9, Some demoCtl)] =
     [ReadOk 7] @ Wrote 9 demoCtl (demoCtl\<lparr>ActivePowerW := Fin 100\<rparr>) (Some (zeroState\<lparr>isActivePowerW := Fin 100\<rparr>)) # []"
  by (simp add: demo_guards Let_def)

theorem writes_are_safe_witness:
  "safeWrite demoNp demoCtl (demoCtl\<lparr>ActivePowerW := Fin 100\<rparr>) \<and>
   (\<exists>x. ReadOk x \<in> set [ReadOk 7] \<and> 9 - x \<le> 5)"
  using writes_are_safe [OF _ _ _ demo_trace] by (simp add: demoNp_def maxInt64_def)

section \<open>The rate of writes\<close>

lemma useDevice_eq: "useDevice s t (dev, i) = (fst (devStep dev s t i) \<noteq> None, snd (devStep dev s t i))"
  by (simp add: useDevice_def split: prod.splits)

lemma passes_trace:
  "gd.passes s (map (\<lambda>(t, i). (t, dev, i)) ops) = int (length (filter (\<lambda>e. case e of Wrote t c c' r \<Rightarrow> True | ReadOk t \<Rightarrow> False) (devTrace dev s ops)))"
proof (induction dev s ops rule: devTrace.induct)
  case (2 dev s t i ops)
  obtain wr s' where d: "devStep dev s t i = (wr, s')" by (rule prod.exhaust)
  have "length (filter (\<lambda>e. case e of Wrote t c c' r \<Rightarrow> True | ReadOk t \<Rightarrow> False) (traceStep dev s t i)) =
      (if wr = None then 0 else 1)"
    using d by (auto simp: traceStep_def devStep_def split: option.splits prod.splits sum.splits)
  then show ?case using 2 d by (simp add: useDevice_eq)
qed simp

lemma after_run: "gd.after s (map (\<lambda>(t, i). (t, dev, i)) ops) = devAfter dev s ops"
  by (induction dev s ops rule: devAfter.induct) (simp_all add: useDevice_eq)

fun bucketRun :: "tokenBucket \<Rightarrow> time list \<Rightarrow> bool list" where
  "bucketRun tb [] = []"
| "bucketRun tb (t # ts) = (let (pass, tb) = tbAllow tb t in pass # bucketRun tb ts)"

lemma bucketRun_same:
  "0 < tbWindow tb \<Longrightarrow> int n \<le> tokens tb \<Longrightarrow> timeSub t (lastFill tb) < tbWindow tb \<Longrightarrow>
     bucketRun tb (replicate n t @ ts) = replicate n True @ bucketRun (tb\<lparr>tokens := tokens tb - int n\<rparr>) ts"
  by (induction n arbitrary: tb) (simp_all add: tbAllow_def Let_def algebra_simps)

lemma bucketRun_fill:
  assumes "tbWindow tb \<le> timeSub t (lastFill tb)" "0 < tbWindow tb" "int n \<le> tbBurst tb"
  shows "bucketRun tb (replicate n t) = replicate n True"
proof (cases n)
  case (Suc k)
  then have "bucketRun tb (replicate n t) = True # bucketRun (tb\<lparr>lastFill := t, tokens := tbBurst tb - 1\<rparr>) (replicate k t)"
    using assms by (simp add: tbAllow_def Let_def)
  with bucketRun_same [of "tb\<lparr>lastFill := t, tokens := tbBurst tb - 1\<rparr>" k t "[]"] Suc assms show ?thesis by simp
qed simp

definition isWrite :: "devEvent \<Rightarrow> bool" where
  "isWrite e = (case e of Wrote t c c' r \<Rightarrow> True | ReadOk t \<Rightarrow> False)"

text \<open>After any history, the calls of less than one second write at most 20 times to the hardware, twice
  the configured burst; and 20 writes within a thousandth of a second are reached, ten at the end of one
  window of the bucket and ten at the start of the next.\<close>

theorem write_rate:
  assumes "sorted (map fst ops)" "\<forall>(t, i)\<in>set ops. a \<le> t \<and> t < a + 1000000000"
  shows "length (filter isWrite (devTrace dev (devAfter dev (WithSafetyGuards np gc t0, w) before) ops)) \<le> 20 \<and>
    bucketRun (newTokenBucket defaultWriteBurst defaultWriteWindow 0)
      (replicate 10 999500000 @ replicate 10 1000000000) = replicate 20 True"
proof
  let ?s = "(WithSafetyGuards np gc t0, w)" and ?m = "map (\<lambda>(t, i). (t, dev, i))"
  have ok: "dev_ok ?s"
    by (simp add: WithSafetyGuards_def newTokenBucket_def bucket_ok_def defaultWriteBurst_def)
  have "map fst (?m ops) = map fst ops" by (induction ops) auto
  then have "sorted (map fst (?m ops))" using assms(1) by (simp only:)
  moreover have "\<forall>(t, i)\<in>set (?m ops). a \<le> t \<and> t < a + defaultWriteWindow"
    using assms(2) by (auto simp: defaultWriteWindow_def)
  ultimately have "gd.passes (gd.after ?s (?m before)) (?m ops) \<le> 2 * defaultWriteBurst"
    by (rule gd.window_bound [OF ok])
  then show "length (filter isWrite (devTrace dev (devAfter dev ?s before) ops)) \<le> 20"
    unfolding after_run passes_trace by (simp add: defaultWriteBurst_def isWrite_def [abs_def])
  show "bucketRun (newTokenBucket defaultWriteBurst defaultWriteWindow 0)
      (replicate 10 999500000 @ replicate 10 1000000000) = replicate 20 True"
    by (simp add: newTokenBucket_def defaultWriteBurst_def defaultWriteWindow_def timeSub_def minInt64_def maxInt64_def
        bucketRun_same bucketRun_fill flip: replicate_add)
qed

theorem write_rate_witness:
  "length (filter isWrite (devTrace demoDev (devAfter demoDev (WithSafetyGuards demoNp \<lparr>MaxStateAge = 0\<rparr> 0, False) [])
     (replicate 30 (0, Some demoCtl)))) \<le> 20"
proof -
  have s: "sorted (map fst (replicate n (0 :: int, Some demoCtl)))" for n by (induction n) auto
  have b: "\<forall>(t, i)\<in>set (replicate n (0 :: int, Some demoCtl)). 0 \<le> t \<and> t < 0 + 1000000000" for n :: nat by auto
  show ?thesis by (rule write_rate [OF s b, THEN conjunct1])
qed

section \<open>The fail-safe\<close>

text \<open>The guards let a write through when none of them objects: a finite control, scale bounds that can be
  honoured, a fresh enough read, and a token of the limiter.\<close>

definition letsThrough :: "guardedDevice \<Rightarrow> time \<Rightarrow> ControlOutputs \<Rightarrow> bool" where
  "letsThrough g t c \<longleftrightarrow> rejectMalformed c = None \<and> validateUnitsAndScale g c = None \<and> checkStaleness g t = None \<and>
     fst (tbAllow (gdLimiter g) t)"

text \<open>What the guards have to fall back on: the last state a successful write reported.\<close>

definition lastReported :: "devEvent list \<Rightarrow> InverterState" where
  "lastReported tr = (if goods tr = [] then zeroState\<lparr>isMode := ModeDisconnected\<rparr> else last (goods tr))"

lemma failSafe_run: "run_inv g0 tr g \<Longrightarrow> failSafe g = lastReported tr"
  by (auto simp: run_inv_def failSafe_def lastReported_def zeroState_def)

lemma guardedApply_lets_through:
  assumes "guardedApply dev t c g w = (r, wr, g', w')"
  shows "wr \<noteq> None \<longleftrightarrow> letsThrough g t c"
  using assms by (auto simp: guardedApply_def letsThrough_def Let_def
      split: option.splits prod.splits bool.splits sum.splits)

text \<open>C13: After any history of reads and writes, a write is refused exactly when one of the guards objects
  to it. A refused write reports nothing with an error, does not reach the backend, and leaves the whole
  guarded state as it was; only the limiter's own count moves, and that only when it was the limiter that
  refused. A write that is let through hands the clamped control to the backend. If the backend fails, the
  caller gets the device error and the state of the last write that succeeded since the start, or the
  disconnected state when there was none, and the device keeps what it remembered; if it succeeds, the
  caller gets what the backend reported, and that is what the device remembers from then on.\<close>

theorem fail_safe_reports_last_good:
  assumes "devAfter dev (WithSafetyGuards np gc t0, w0) ops = (g, w)"
    and "guardedApply dev t c g w = ((st, e), wr, g', w')"
  shows "(wr \<noteq> None \<longleftrightarrow> letsThrough g t c) \<and>
    (case wr of
      None \<Rightarrow> st = zeroState \<and> e \<noteq> None \<and> w' = w \<and> g' = g\<lparr>gdLimiter := gdLimiter g'\<rparr> \<and>
        (e \<noteq> Some ErrRateLimitExceeded \<longrightarrow> g' = g)
    | Some c' \<Rightarrow> c' = clampToNameplate c np \<and> w' = snd (devApply dev c' w) \<and>
        (case fst (devApply dev c' w) of
           Inr s \<Rightarrow> st = s \<and> e = None \<and> g' = g\<lparr>gdLimiter := gdLimiter g', lastGood := s, hasGood := True\<rparr>
         | Inl x \<Rightarrow> st = lastReported (devTrace dev (WithSafetyGuards np gc t0, w0) ops) \<and>
             e = Some (ErrDeviceWrite x) \<and> g' = g\<lparr>gdLimiter := gdLimiter g'\<rparr>))"
proof -
  have inv: "run_inv (WithSafetyGuards np gc t0) (devTrace dev (WithSafetyGuards np gc t0, w0) ops) g"
    using run_inv_run [of "WithSafetyGuards np gc t0" "[]" "(WithSafetyGuards np gc t0, w0)" dev ops]
      run_inv_start assms(1) by simp
  have np: "nameplate g = np" using inv by (simp add: run_inv_def sameConfig_def WithSafetyGuards_def)
  note L = guardedApply_lets_through [OF assms(2)]
  from assms(2) show ?thesis
  proof (cases rule: guardedApply_elim)
    case refused
    then show ?thesis using L by simp
  next
    case (wrote tb)
    then show ?thesis using L np failSafe_run [OF inv] by (auto split: sum.splits)
  qed
qed

theorem fail_safe_reports_last_good_witness:
  "\<exists>g w wr g' w'. devAfter demoDev (WithSafetyGuards demoNp \<lparr>MaxStateAge = 0\<rparr> 0, False) [(9, Some demoCtl)] = (g, w) \<and>
     guardedApply demoDev 10 demoCtl g w =
       ((zeroState\<lparr>isActivePowerW := Fin 100\<rparr>, Some (ErrDeviceWrite ''timeout'')), wr, g', w') \<and>
     lastGood g' = zeroState\<lparr>isActivePowerW := Fin 100\<rparr>"
proof -
  obtain g w where d: "devAfter demoDev (WithSafetyGuards demoNp \<lparr>MaxStateAge = 0\<rparr> 0, False) [(9, Some demoCtl)] = (g, w)"
    by (rule prod.exhaust)
  have g: "w = True" "lastGood g = zeroState\<lparr>isActivePowerW := Fin 100\<rparr>" using d by (auto simp: demo_guards Let_def)
  obtain st e wr g' w' where a: "guardedApply demoDev 10 demoCtl g w = ((st, e), wr, g', w')" by (metis prod.exhaust)
  have "letsThrough (fst (devAfter demoDev (WithSafetyGuards demoNp \<lparr>MaxStateAge = 0\<rparr> 0, False) [(9, Some demoCtl)])) 10 demoCtl"
    by (simp add: demo_guards letsThrough_def Let_def)
  then have "letsThrough g 10 demoCtl" using d by simp
  moreover note R = fail_safe_reports_last_good [OF d a]
  ultimately obtain c' where wr: "wr = Some c'" by auto
  have "lastReported (devTrace demoDev (WithSafetyGuards demoNp \<lparr>MaxStateAge = 0\<rparr> 0, False) [(9, Some demoCtl)]) =
      zeroState\<lparr>isActivePowerW := Fin 100\<rparr>" by (simp add: demo_guards lastReported_def Let_def)
  moreover have "fst (devApply demoDev c' w) = Inl ''timeout''" using g(1) by (simp add: demoDev_def)
  ultimately have "st = zeroState\<lparr>isActivePowerW := Fin 100\<rparr>" "e = Some (ErrDeviceWrite ''timeout'')"
      "g' = g\<lparr>gdLimiter := gdLimiter g'\<rparr>"
    using R wr by simp_all
  moreover have "lastGood g' = lastGood (g\<lparr>gdLimiter := gdLimiter g'\<rparr>)"
    using calculation(3) by (rule arg_cong)
  then have "lastGood g' = zeroState\<lparr>isActivePowerW := Fin 100\<rparr>" using g(2) by simp
  ultimately show ?thesis using d a by blast
qed

end
