(* ===== verification/Fleet.thy ===== *)
theory Fleet
  imports Supervisor SafetyGuards
begin

text \<open>
  A fleet device and the transport it drives: the interface \<open>FleetTransport\<close> and the device of
  \<open>internal/inverter/device/fleet.go\<close>, and the transport over a supervisor's current connection
  (\<open>internal/sim/gridlabd/transport.go\<close>), which implements it. An operation of a device holds its lock from
  start to end, so it is one step; whatever happens to the transport in between (a restart of the sidecar, the
  requests of other devices) is a change of the transport's state.
\<close>

section \<open>The interface\<close>

record FleetSetItem =
  fsObject :: string
  fsProperty :: string
  fsValue :: f64

type_synonym FleetGetItem = "string \<times> string"

record FleetValue =
  fvRe :: f64
  fvIm :: f64

definition fvFloat64 :: "FleetValue \<Rightarrow> string + f64" where
  "fvFloat64 v = (if \<not> feq (fvIm v) 0 then Inl ''complex, not real'' else Inr (fvRe v))"

text \<open>\<open>math.Hypot\<close>: an infinite argument wins over NaN.\<close>

definition fvMagnitude :: "FleetValue \<Rightarrow> f64" where
  "fvMagnitude v = (if isInf (fvRe v) \<or> isInf (fvIm v) then PInf else fsqrt (fvRe v * fvRe v + fvIm v * fvIm v))"

record 'w FleetTransport =
  tHealthy :: "'w \<Rightarrow> bool"
  tGeneration :: "'w \<Rightarrow> 64 word"
  tSet :: "callCtx \<Rightarrow> FleetSetItem list \<Rightarrow> 'w \<Rightarrow> (wireErr + f64 list) \<times> 'w"
  tStepTo :: "callCtx \<Rightarrow> time \<Rightarrow> 'w \<Rightarrow> (wireErr + time) \<times> 'w"
  tGet :: "callCtx \<Rightarrow> FleetGetItem list \<Rightarrow> 'w \<Rightarrow> (wireErr + FleetValue list) \<times> 'w"

section \<open>The transport over a supervisor\<close>

text \<open>Apply a function that may fail to each element, up to the first failure.\<close>

fun mapErr :: "('a \<Rightarrow> 'e + 'b) \<Rightarrow> 'a list \<Rightarrow> 'e + 'b list" where
  "mapErr f [] = Inr []"
| "mapErr f (x # xs) =
     (case f x of
        Inl e \<Rightarrow> Inl e
      | Inr y \<Rightarrow> (case mapErr f xs of Inl e \<Rightarrow> Inl e | Inr ys \<Rightarrow> Inr (y # ys)))"

lemma mapErr_length: "mapErr f xs = Inr ys \<Longrightarrow> length ys = length xs"
  by (induction xs arbitrary: ys) (auto split: sum.splits)

definition withConn :: "string \<Rightarrow> ('p Conn \<Rightarrow> (wireErr + 'a) \<times> 'p Conn) \<Rightarrow> 'p Supervisor \<Rightarrow> (wireErr + 'a) \<times> 'p Supervisor" where
  "withConn fleet f s =
     (case client s of
        None \<Rightarrow> (Inl (WDown fleet), s)
      | Some c \<Rightarrow> (case f c of (r, c) \<Rightarrow> (r, s\<lparr>clientConn := Some c\<rparr>)))"

definition toWireItem :: "FleetSetItem \<Rightarrow> wireErr + SetItem" where
  "toWireItem it =
     (case FloatValue (fsValue it) of
        Inl e \<Rightarrow> Inl e
      | Inr v \<Rightarrow> Inr \<lparr>siObject = fsObject it, siProperty = fsProperty it, siValue = v\<rparr>)"

definition transportSet :: "string \<Rightarrow> 'p sidecar \<Rightarrow> callCtx \<Rightarrow> FleetSetItem list \<Rightarrow> 'p Supervisor \<Rightarrow> (wireErr + f64 list) \<times> 'p Supervisor" where
  "transportSet fleet sc ctx items =
     withConn fleet (\<lambda>c.
       case mapErr toWireItem items of
         Inl e \<Rightarrow> (Inl e, c)
       | Inr wire \<Rightarrow>
           (case clientSet sc ctx wire c of
              (Inl e, c) \<Rightarrow> (Inl e, c)
            | (Inr results, c) \<Rightarrow> (mapErr (\<lambda>r. valueFloat64 (wiValue r)) results, c)))"

definition transportStepTo :: "string \<Rightarrow> 'p sidecar \<Rightarrow> (time \<Rightarrow> string) \<Rightarrow> (string \<Rightarrow> time option) \<Rightarrow> callCtx \<Rightarrow> time \<Rightarrow> 'p Supervisor \<Rightarrow>
    (wireErr + time) \<times> 'p Supervisor" where
  "transportStepTo fleet sc fmtT parseT ctx target = withConn fleet (StepTo sc fmtT parseT ctx target)"

definition toFleetValue :: "wireItem \<Rightarrow> wireErr + FleetValue" where
  "toFleetValue r =
     (case components (wiValue r) of
        Inl e \<Rightarrow> Inl e
      | Inr (re, im) \<Rightarrow> Inr \<lparr>fvRe = Fin re, fvIm = Fin im\<rparr>)"

definition transportGet :: "string \<Rightarrow> 'p sidecar \<Rightarrow> callCtx \<Rightarrow> FleetGetItem list \<Rightarrow> 'p Supervisor \<Rightarrow> (wireErr + FleetValue list) \<times> 'p Supervisor" where
  "transportGet fleet sc ctx items =
     withConn fleet (\<lambda>c.
       case clientGet sc ctx items c of
         (Inl e, c) \<Rightarrow> (Inl e, c)
       | (Inr results, c) \<Rightarrow>
           (mapErr toFleetValue results, c))"

definition supervisorTransport :: "string \<Rightarrow> 'p sidecar \<Rightarrow> (time \<Rightarrow> string) \<Rightarrow> (string \<Rightarrow> time option) \<Rightarrow> 'p Supervisor FleetTransport" where
  "supervisorTransport fleet sc fmtT parseT =
     \<lparr>tHealthy = Healthy, tGeneration = generation, tSet = transportSet fleet sc,
      tStepTo = transportStepTo fleet sc fmtT parseT, tGet = transportGet fleet sc\<rparr>"

section \<open>The device\<close>

datatype fleetErr = FleetDown | FleetIO string wireErr | FleetCount nat | FleetValueErr string

text \<open>The requests an operation makes, each with the generation it was made in and whether it succeeded.\<close>

datatype fleetReq = RqSet "64 word" "FleetSetItem list" bool | RqStep "64 word" time bool | RqGet "64 word" "FleetGetItem list" bool

record FleetDevice =
  fdLFDI :: string
  inverterObj :: string
  meterObj :: string
  lastControls :: "ControlOutputs option"
  lastGeneration :: "64 word"

definition NewFleetDevice :: "string \<Rightarrow> string \<Rightarrow> string \<Rightarrow> string + FleetDevice" where
  "NewFleetDevice l invObj meter =
     (if invObj = [] then Inl ''inverter object name is required''
      else if meter = [] then Inl ''meter object name is required''
      else Inr \<lparr>fdLFDI = l, inverterObj = invObj, meterObj = meter, lastControls = None, lastGeneration = 0\<rparr>)"

definition setpointItems :: "FleetDevice \<Rightarrow> ControlOutputs \<Rightarrow> FleetSetItem list" where
  "setpointItems d c =
     [\<lparr>fsObject = inverterObj d, fsProperty = ''P_Out'', fsValue = ActivePowerW c\<rparr>,
      \<lparr>fsObject = inverterObj d, fsProperty = ''Q_Out'', fsValue = ReactivePowerVAr c\<rparr>]"

definition okRes :: "'a + 'b \<Rightarrow> bool" where
  "okRes r = (case r of Inl _ \<Rightarrow> False | Inr _ \<Rightarrow> True)"

definition resyncAfterRestart :: "'w FleetTransport \<Rightarrow> callCtx \<Rightarrow> time \<Rightarrow> FleetDevice \<Rightarrow> 'w \<Rightarrow>
    fleetErr option \<times> fleetReq list \<times> FleetDevice \<times> 'w" where
  "resyncAfterRestart T ctx now d w =
     (let g = tGeneration T w in
      case (if g \<noteq> lastGeneration d then lastControls d else None) of
        None \<Rightarrow> (None, [], d\<lparr>lastGeneration := g\<rparr>, w)
      | Some c \<Rightarrow>
          (case tSet T ctx (setpointItems d c) w of
             (r, w1) \<Rightarrow>
               let tr = [RqSet g (setpointItems d c) (okRes r)] in
               (case r of
                  Inl e \<Rightarrow> (Some (FleetIO ''re-apply setpoint after restart'' e), tr, d, w1)
                | Inr _ \<Rightarrow>
                    (case tStepTo T ctx now w1 of
                       (Inl e, w2) \<Rightarrow> (Some (FleetIO ''re-apply setpoint after restart: step_to'' e), tr @ [RqStep (tGeneration T w1) now False], d, w2)
                     | (Inr _, w2) \<Rightarrow> (None, tr @ [RqStep (tGeneration T w1) now True], d\<lparr>lastGeneration := g\<rparr>, w2)))))"

definition readItems :: "FleetDevice \<Rightarrow> FleetGetItem list" where
  "readItems d = [(inverterObj d, ''rated_power''), (meterObj d, ''measured_voltage_A''),
     (meterObj d, ''nominal_voltage''), (meterObj d, ''measured_frequency'')]"

text \<open>The reading of four values.\<close>

definition readingOf :: "FleetValue list \<Rightarrow> time \<Rightarrow> fleetErr + StateReading" where
  "readingOf vals now =
     (if length vals \<noteq> 4 then Inl (FleetCount (length vals))
      else case fvFloat64 (vals ! 0) of Inl e \<Rightarrow> Inl (FleetValueErr (''rated_power: '' @ e)) | Inr ratedPower \<Rightarrow>
        (case fvFloat64 (vals ! 2) of Inl e \<Rightarrow> Inl (FleetValueErr (''nominal_voltage: '' @ e)) | Inr nominal \<Rightarrow>
          (if feq nominal 0 then Inl (FleetValueErr ''nominal_voltage 0'')
           else case fvFloat64 (vals ! 3) of Inl e \<Rightarrow> Inl (FleetValueErr (''measured_frequency: '' @ e)) | Inr freq \<Rightarrow>
             Inr \<lparr>srGrid = \<lparr>VoltsPU = fvMagnitude (vals ! 1) div nominal, FreqHz = freq, Time = now\<rparr>,
                  srMaxPowerW = ratedPower, srIrradiance = 0\<rparr>)))"

definition fleetReadState :: "'w FleetTransport \<Rightarrow> callCtx \<Rightarrow> time \<Rightarrow> time \<Rightarrow> FleetDevice \<Rightarrow> 'w \<Rightarrow>
    (fleetErr + StateReading) \<times> fleetReq list \<times> FleetDevice \<times> 'w" where
  "fleetReadState T ctx now1 now2 d w =
     (if \<not> tHealthy T w then (Inl FleetDown, [], d, w)
      else
        (case resyncAfterRestart T ctx now1 d w of
           (Some e, tr, d, w) \<Rightarrow> (Inl e, tr, d, w)
         | (None, tr, d, w) \<Rightarrow>
             (case tGet T ctx (readItems d) w of
                (r, w1) \<Rightarrow>
                  let tr = tr @ [RqGet (tGeneration T w) (readItems d) (okRes r)] in
                  (case r of
                     Inl e \<Rightarrow> (Inl (FleetIO ''read state'' e), tr, d, w1)
                   | Inr vals \<Rightarrow> (readingOf vals now2, tr, d, w1)))))"

definition achievedOf :: "FleetValue list \<Rightarrow> ControlOutputs \<Rightarrow> time \<Rightarrow> fleetErr + InverterState" where
  "achievedOf got controls modelTime =
     (if length got \<noteq> 2 then Inl (FleetCount (length got))
      else case fvFloat64 (got ! 0) of Inl e \<Rightarrow> Inl (FleetValueErr (''P_Out: '' @ e)) | Inr activeW \<Rightarrow>
        (case fvFloat64 (got ! 1) of Inl e \<Rightarrow> Inl (FleetValueErr (''Q_Out: '' @ e)) | Inr reactiveVAr \<Rightarrow>
          Inr (zeroState\<lparr>isActivePowerW := activeW, isReactivePowerVAr := reactiveVAr, isConnected := Connected controls,
            isEnergized := Energized controls, isMode := Mode controls, isTime := modelTime\<rparr>)))"

definition setpointGets :: "FleetDevice \<Rightarrow> FleetGetItem list" where
  "setpointGets d = [(inverterObj d, ''P_Out''), (inverterObj d, ''Q_Out'')]"

definition fleetApplySetpoint :: "'w FleetTransport \<Rightarrow> callCtx \<Rightarrow> time \<Rightarrow> time \<Rightarrow> ControlOutputs \<Rightarrow> FleetDevice \<Rightarrow> 'w \<Rightarrow>
    (fleetErr + InverterState) \<times> fleetReq list \<times> FleetDevice \<times> 'w" where
  "fleetApplySetpoint T ctx now1 now2 controls d w =
     (if \<not> tHealthy T w then (Inl FleetDown, [], d, w)
      else
        (case resyncAfterRestart T ctx now1 d w of
           (Some e, tr, d, w) \<Rightarrow> (Inl e, tr, d, w)
         | (None, tr, d, w) \<Rightarrow>
             (case tSet T ctx (setpointItems d controls) w of
                (r, w1) \<Rightarrow>
                  let tr = tr @ [RqSet (tGeneration T w) (setpointItems d controls) (okRes r)] in
                  (case r of
                     Inl e \<Rightarrow> (Inl (FleetIO ''apply setpoint'' e), tr, d, w1)
                   | Inr _ \<Rightarrow>
                       (case tStepTo T ctx now2 w1 of
                          (Inl e, w2) \<Rightarrow> (Inl (FleetIO ''step_to'' e), tr @ [RqStep (tGeneration T w1) now2 False], d, w2)
                        | (Inr modelTime, w2) \<Rightarrow>
                            let tr = tr @ [RqStep (tGeneration T w1) now2 True] in
                            (case tGet T ctx (setpointGets d) w2 of
                               (rg, w3) \<Rightarrow>
                                 let tr = tr @ [RqGet (tGeneration T w2) (setpointGets d) (okRes rg)] in
                                 (case rg of
                                    Inl e \<Rightarrow> (Inl (FleetIO ''read back setpoint'' e), tr, d, w3)
                                  | Inr got \<Rightarrow>
                                      (case achievedOf got controls modelTime of
                                         Inl e \<Rightarrow> (Inl e, tr, d, w3)
                                       | Inr s \<Rightarrow> (Inr s, tr, d\<lparr>lastControls := Some controls\<rparr>, w3)))))))))"

section \<open>Runs of a device\<close>

text \<open>Any sequence of reads and writes, whatever happens to the transport in between, with all the requests
  the device made and the controls it applied successfully.\<close>

inductive fleetRun :: "'w FleetTransport \<Rightarrow> FleetDevice \<Rightarrow> 'w \<Rightarrow> fleetReq list \<Rightarrow> ControlOutputs list \<Rightarrow> bool" for T where
  start: "NewFleetDevice l i m = Inr d \<Longrightarrow> fleetRun T d w [] []"
| env: "fleetRun T d w lg ap \<Longrightarrow> fleetRun T d w' lg ap"
| reads: "fleetRun T d w lg ap \<Longrightarrow> fleetReadState T ctx n1 n2 d w = (r, tr, d', w') \<Longrightarrow> fleetRun T d' w' (lg @ tr) ap"
| writes: "fleetRun T d w lg ap \<Longrightarrow> fleetApplySetpoint T ctx n1 n2 c d w = (r, tr, d', w') \<Longrightarrow>
    fleetRun T d' w' (lg @ tr) (ap @ (if okRes r then [c] else []))"

definition held :: "FleetDevice \<Rightarrow> fleetReq list \<Rightarrow> bool" where
  "held d lg \<longleftrightarrow> (\<forall>c. lastControls d = Some c \<longrightarrow> RqSet (lastGeneration d) (setpointItems d c) True \<in> set lg)"

definition sameObjects :: "FleetDevice \<Rightarrow> FleetDevice \<Rightarrow> bool" where
  "sameObjects d d' \<longleftrightarrow> inverterObj d' = inverterObj d \<and> meterObj d' = meterObj d \<and> fdLFDI d' = fdLFDI d"

lemma held_append: "held d lg \<Longrightarrow> held d (lg @ tr)"
  by (auto simp: held_def)

lemma sameObjects_items: "sameObjects d d' \<Longrightarrow> setpointItems d' = setpointItems d \<and> readItems d' = readItems d \<and> setpointGets d' = setpointGets d"
  by (simp add: sameObjects_def setpointItems_def [abs_def] readItems_def setpointGets_def)

locale fleet_transport =
  fixes T :: "'w FleetTransport"
  assumes set_count: "tSet T ctx items w = (Inr vs, w') \<Longrightarrow> length vs = length items"
    and get_count: "tGet T ctx gets w = (Inr gs, w') \<Longrightarrow> length gs = length gets"
    and gen_set: "tGeneration T (snd (tSet T ctx items w)) = tGeneration T w"
    and gen_step: "tGeneration T (snd (tStepTo T ctx t w)) = tGeneration T w"
begin

lemma resync:
  assumes "resyncAfterRestart T ctx now d w = (e, tr, d', w')" "held d lg"
  shows "held d' (lg @ tr) \<and> sameObjects d d' \<and> lastControls d' = lastControls d \<and> tGeneration T w' = tGeneration T w \<and>
    (e = None \<longrightarrow> lastGeneration d' = tGeneration T w)"
proof (cases "if tGeneration T w \<noteq> lastGeneration d then lastControls d else None")
  case None
  then have r: "e = None" "tr = []" "w' = w" "d' = d\<lparr>lastGeneration := tGeneration T w\<rparr>"
    using assms(1) by (auto simp: resyncAfterRestart_def)
  have "lastControls d = None \<or> lastGeneration d = tGeneration T w" using None by (auto split: if_splits)
  then have "held d' (lg @ tr)" using assms(2) r by (auto simp: held_def setpointItems_def)
  then show ?thesis using r by (simp add: sameObjects_def)
next
  case (Some c)
  then have c: "lastControls d = Some c" by (auto split: if_splits)
  obtain r1 w1 where s: "tSet T ctx (setpointItems d c) w = (r1, w1)" by (rule prod.exhaust)
  have g1: "tGeneration T w1 = tGeneration T w" using gen_set [of ctx "setpointItems d c" w] s by simp
  obtain r2 w2 where st: "tStepTo T ctx now w1 = (r2, w2)" by (rule prod.exhaust)
  have g2: "tGeneration T w2 = tGeneration T w" using gen_step [of ctx now w1] st g1 by simp
  show ?thesis
  proof (cases r1)
    case (Inl x)
    then have "d' = d" "w' = w1" "e \<noteq> None" using assms(1) Some s by (auto simp: resyncAfterRestart_def)
    then show ?thesis using held_append [OF assms(2)] g1 by (auto simp: sameObjects_def)
  next
    case r1: (Inr v)
    show ?thesis
    proof (cases r2)
      case (Inl x)
      then have "d' = d" "w' = w2" "e \<noteq> None" using assms(1) Some s st r1 by (auto simp: resyncAfterRestart_def)
      then show ?thesis using held_append [OF assms(2)] g2 by (auto simp: sameObjects_def)
    next
      case (Inr y)
      then have e: "d' = d\<lparr>lastGeneration := tGeneration T w\<rparr>" "w' = w2" "e = None"
        "RqSet (tGeneration T w) (setpointItems d c) True \<in> set tr"
        using assms(1) Some s st r1 by (auto simp: resyncAfterRestart_def okRes_def Let_def)
      have "held d' (lg @ tr)" using c e by (auto simp: held_def setpointItems_def)
      then show ?thesis using e g2 by (simp add: sameObjects_def)
    qed
  qed
qed

lemma read_op:
  assumes "fleetReadState T ctx n1 n2 d w = (r, tr, d', w')" "held d lg"
  shows "held d' (lg @ tr) \<and> sameObjects d d' \<and> lastControls d' = lastControls d \<and> (\<forall>n. r \<noteq> Inl (FleetCount n)) \<and>
    (okRes r \<longrightarrow> (\<exists>tr0. tr = tr0 @ [RqGet (tGeneration T w) (readItems d) True] \<and>
       (\<forall>c. lastControls d = Some c \<longrightarrow> RqSet (tGeneration T w) (setpointItems d c) True \<in> set (lg @ tr0))))"
proof (cases "tHealthy T w")
  case False
  then show ?thesis using assms by (auto simp: fleetReadState_def okRes_def sameObjects_def)
next
  case True
  obtain e tr1 d1 w1 where rs: "resyncAfterRestart T ctx n1 d w = (e, tr1, d1, w1)" by (metis prod_cases4)
  note R = resync [OF rs assms(2)]
  have items: "readItems d1 = readItems d" "\<And>c. setpointItems d1 c = setpointItems d c"
    using sameObjects_items R by metis+
  show ?thesis
  proof (cases e)
    case (Some x)
    then have "\<forall>n. x \<noteq> FleetCount n" using rs by (auto simp: resyncAfterRestart_def Let_def split: option.splits if_splits prod.splits sum.splits)
    then show ?thesis using True Some rs assms(1) R by (auto simp: fleetReadState_def okRes_def)
  next
    case None
    obtain rg w2 where g: "tGet T ctx (readItems d1) w1 = (rg, w2)" by (rule prod.exhaust)
    have o: "tr = tr1 @ [RqGet (tGeneration T w) (readItems d) (okRes rg)]" "d' = d1" "w' = w2"
      "r = (case rg of Inl x \<Rightarrow> Inl (FleetIO ''read state'' x) | Inr vals \<Rightarrow> readingOf vals n2)"
      using True None rs assms(1) g R items by (auto simp: fleetReadState_def Let_def split: sum.splits)
    have n4: "length vals = 4" if "rg = Inr vals" for vals using get_count g that by (fastforce simp: readItems_def)
    have noc: "\<forall>n. r \<noteq> Inl (FleetCount n)" using o(4) n4 by (auto simp: readingOf_def split: sum.splits if_splits)
    have "okRes r \<Longrightarrow> okRes rg" using o(4) by (auto simp: okRes_def split: sum.splits)
    moreover have "\<forall>c. lastControls d = Some c \<longrightarrow> RqSet (tGeneration T w) (setpointItems d c) True \<in> set (lg @ tr1)"
      using R None items by (auto simp: held_def)
    ultimately show ?thesis using o R held_append [of d1 "lg @ tr1"] noc by auto
  qed
qed

lemma write_op:
  assumes "fleetApplySetpoint T ctx n1 n2 c d w = (r, tr, d', w')" "held d lg"
  shows "held d' (lg @ tr) \<and> sameObjects d d' \<and> (\<forall>n. r \<noteq> Inl (FleetCount n)) \<and>
    lastControls d' = (if okRes r then Some c else lastControls d) \<and>
    (okRes r \<longrightarrow> RqSet (tGeneration T w) (setpointItems d c) True \<in> set tr)"
proof (cases "tHealthy T w")
  case False
  then show ?thesis using assms by (auto simp: fleetApplySetpoint_def okRes_def sameObjects_def)
next
  case True
  obtain e tr1 d1 w1 where rs: "resyncAfterRestart T ctx n1 d w = (e, tr1, d1, w1)" by (metis prod_cases4)
  note R = resync [OF rs assms(2)]
  have items: "\<And>c. setpointItems d1 c = setpointItems d c" using sameObjects_items R by metis
  show ?thesis
  proof (cases e)
    case (Some x)
    then have "\<forall>n. x \<noteq> FleetCount n" using rs by (auto simp: resyncAfterRestart_def Let_def split: option.splits if_splits prod.splits sum.splits)
    then show ?thesis using True Some rs assms(1) R by (auto simp: fleetApplySetpoint_def okRes_def)
  next
    case None
    obtain r1 w2 where s: "tSet T ctx (setpointItems d1 c) w1 = (r1, w2)" by (rule prod.exhaust)
    obtain r2 w3 where st: "tStepTo T ctx n2 w2 = (r2, w3)" by (rule prod.exhaust)
    obtain r3 w4 where g: "tGet T ctx (setpointGets d1) w3 = (r3, w4)" by (rule prod.exhaust)
    have n2: "length vals = 2" if "r3 = Inr vals" for vals using get_count g that by (fastforce simp: setpointGets_def)
    let ?set = "RqSet (tGeneration T w) (setpointItems d c)"
    have ap: "fleetApplySetpoint T ctx n1 n2 c d w = (r, tr, d', w')" by (rule assms(1))
    have keep: "held d1 (lg @ tr1 @ x)" for x using held_append [of d1 "lg @ tr1" x] R by simp
    show ?thesis
    proof (cases "\<exists>v m vals st. r1 = Inr v \<and> r2 = Inr m \<and> r3 = Inr vals \<and> achievedOf vals c m = Inr st")
      case True2: True
      then obtain v m vals st where k: "r1 = Inr v" "r2 = Inr m" "r3 = Inr vals" "achievedOf vals c m = Inr st" by blast
      have o: "r = Inr st" "d' = d1\<lparr>lastControls := Some c\<rparr>" "?set True \<in> set tr" "\<exists>x. tr = tr1 @ x"
        using True None rs ap s st g k R items by (auto simp: fleetApplySetpoint_def okRes_def Let_def)
      have "held d' (lg @ tr)" using o R None items by (auto simp: held_def setpointItems_def)
      then show ?thesis using o R by (auto simp: okRes_def sameObjects_def)
    next
      case False
      have o: "d' = d1" "\<exists>x. tr = tr1 @ x" "\<not> okRes r" "\<forall>n. r \<noteq> Inl (FleetCount n)"
        using True None rs ap s st g R items False n2
        by (auto simp: fleetApplySetpoint_def okRes_def Let_def achievedOf_def split: sum.splits if_splits)
      then show ?thesis using R keep by auto
    qed
  qed
qed

lemma run_held:
  "fleetRun T d w lg ap \<Longrightarrow> held d lg \<and> lastControls d = (if ap = [] then None else Some (last ap))"
proof (induction rule: fleetRun.induct)
  case (start l i m d w)
  then show ?case by (auto simp: NewFleetDevice_def held_def split: if_splits)
next
  case (reads d w lg ap ctx n1 n2 r tr d' w')
  then show ?case using read_op [OF reads.hyps(2)] by metis
next
  case (writes d w lg ap ctx n1 n2 c r tr d' w')
  then show ?case using write_op [OF writes.hyps(2)] by auto
qed simp

end

section \<open>The transport of the code keeps the interface\<close>

lemma validate_length:
  "validateReplyMatchesRequest op want got = None \<Longrightarrow> got = want"
  unfolding validateReplyMatchesRequest_def by (rule nth_equalityI) (auto split: if_splits)

lemma checkItems_match:
  "checkItems op timed want raw = Inr results \<Longrightarrow> map (\<lambda>r. (wiObject r, wiProperty r)) results = want"
  by (auto simp: checkItems_def split: sum.splits option.splits dest: validate_length)

lemma clientSet_match:
  "clientSet sc ctx items c = (Inr results, c') \<Longrightarrow>
     map (\<lambda>r. (wiObject r, wiProperty r)) results = map (\<lambda>it. (siObject it, siProperty it)) items"
  by (auto simp: clientSet_def split: prod.splits sum.splits dest: checkItems_match)

lemma clientGet_match:
  "clientGet sc ctx gets c = (Inr results, c') \<Longrightarrow> map (\<lambda>r. (wiObject r, wiProperty r)) results = gets"
  by (auto simp: clientGet_def split: prod.splits sum.splits dest: checkItems_match)

lemma withConn_generation: "generation (snd (withConn fleet f s)) = generation s"
  by (simp add: withConn_def generation_def split: option.splits prod.splits)

lemma transportSet_count:
  assumes "transportSet fleet sc ctx items s = (Inr vs, s')"
  shows "length vs = length items"
proof -
  obtain wire results c c' where w: "mapErr toWireItem items = Inr wire" "clientSet sc ctx wire c = (Inr results, c')"
    "mapErr (\<lambda>r. valueFloat64 (wiValue r)) results = Inr vs"
    using assms by (auto simp: transportSet_def withConn_def split: option.splits prod.splits sum.splits)
  have "length results = length wire" using clientSet_match [OF w(2)] by (metis length_map)
  then show ?thesis using mapErr_length [OF w(1)] mapErr_length [OF w(3)] by simp
qed

lemma transportGet_count:
  assumes "transportGet fleet sc ctx gets s = (Inr vs, s')"
  shows "length vs = length gets"
proof -
  obtain results c c' where w: "clientGet sc ctx gets c = (Inr results, c')" "mapErr toFleetValue results = Inr vs"
    using assms by (auto simp: transportGet_def withConn_def split: option.splits prod.splits sum.splits)
  have "length results = length gets" using clientGet_match [OF w(1)] by (metis length_map)
  then show ?thesis using mapErr_length [OF w(2)] by simp
qed

lemma transport_generation:
  "generation (snd (transportSet fleet sc ctx items s)) = generation s"
  "generation (snd (transportStepTo fleet sc fmtT parseT ctx t s)) = generation s"
  by (simp_all add: transportSet_def transportStepTo_def withConn_generation)

interpretation st: fleet_transport "supervisorTransport fleet sc fmtT parseT"
  by unfold_locales
    (auto simp: supervisorTransport_def transport_generation intro: transportSet_count transportGet_count)

text \<open>C17: A restart of the sidecar never goes unnoticed. In every run of a fleet device over the transport of the
  code, with anything happening to the fleet between its operations: a reading that succeeds comes from a
  model that has been sent, in the same generation and before the reading, the last setpoint that was applied
  successfully; a write that succeeds has sent its setpoint in the current generation and becomes the one to
  restore. A reply with too few or too many values never gets as far as the device.\<close>

theorem restart_keeps_setpoint:
  fixes T :: "'p Supervisor FleetTransport"
  assumes "T = supervisorTransport fleet sc fmtT parseT" "fleetRun T d w lg ap"
    and "fleetReadState T ctx n1 n2 d w = (r, tr, d1, w1)" "fleetApplySetpoint T ctx n1 n2 c d w = (r', tr', d2, w2)"
  shows "(\<forall>n. r \<noteq> Inl (FleetCount n) \<and> r' \<noteq> Inl (FleetCount n)) \<and>
    (okRes r \<longrightarrow> ap \<noteq> [] \<longrightarrow> (\<exists>tr0. tr = tr0 @ [RqGet (generation w) (readItems d) True] \<and>
       RqSet (generation w) (setpointItems d (last ap)) True \<in> set (lg @ tr0))) \<and>
    (okRes r' \<longrightarrow> RqSet (generation w) (setpointItems d c) True \<in> set tr' \<and> lastControls d2 = Some c) \<and>
    (\<not> okRes r' \<longrightarrow> lastControls d2 = lastControls d)"
proof -
  have g: "tGeneration T w = generation w" by (simp add: assms(1) supervisorTransport_def)
  have h: "held d lg" "lastControls d = (if ap = [] then None else Some (last ap))"
    using st.run_held assms(1,2) by blast+
  note R = st.read_op [OF assms(3) [unfolded assms(1)] h(1), folded assms(1), unfolded g]
  note W = st.write_op [OF assms(4) [unfolded assms(1)] h(1), folded assms(1), unfolded g]
  show ?thesis using R W h(2) by auto
qed

section \<open>An example\<close>

text \<open>A sidecar whose model holds 1 in every property.\<close>

fun echoItem :: "json \<Rightarrow> json" where
  "echoItem (JObj fs) = JObj [(''object'', the (jget fs ''object'')), (''property'', the (jget fs ''property'')), (''value'', JNum 1)]"
| "echoItem j = j"

fun modelResult :: "json \<Rightarrow> json" where
  "modelResult (JObj [(k, JArr items)]) = JArr (map echoItem items)"
| "modelResult j = JStr ''t''"

definition okReply :: "int \<Rightarrow> json \<Rightarrow> json" where
  "okReply i r = JObj [(''id'', JNum (of_int i)), (''ok'', JBool True), (''result'', r)]"

definition modelSidecar :: "nat sidecar" where
  "modelSidecar rq p = (Some [Some (okReply (rqID rq) (modelResult (rqArgs rq)))], Suc p)"

definition goodConn :: "'p Conn \<Rightarrow> bool" where
  "goodConn c \<longleftrightarrow> brokenCause c = None \<and> inbox c = [] \<and> minInt64 \<le> nextID c \<and> nextID c \<le> maxInt64"

abbreviation calm :: callCtx where
  "calm \<equiv> \<lparr>ctxBefore = None, ctxDuring = None\<rparr>"

lemma decReply_okReply:
  "minInt64 \<le> i \<Longrightarrow> i \<le> maxInt64 \<Longrightarrow>
     decReply (okReply i r) = Some \<lparr>rpID = i, rpOK = True, rpResult = Some r, rpError = None\<rparr>"
  by (simp add: decReply_def okReply_def jget_def decErrorBody_def)

lemma model_call:
  assumes "goodConn c"
  shows "\<exists>c'. call modelSidecar calm op args c = (Inr (Some (modelResult args)), c') \<and> goodConn c'"
  using assms wrap64_range [of "nextID c + 1"]
  by (auto simp: goodConn_def call_def roundTrip_def modelSidecar_def decodeReply_def decReply_okReply)

lemma those_Some: "those (map (\<lambda>x. Some (f x)) xs) = Some (map f xs)"
  by (induction xs) simp_all

lemma checkItems_self:
  "checkItems op timed (map k xs) (Some (JArr (map (\<lambda>x. JObj [(''object'', JStr (fst (k x))), (''property'', JStr (snd (k x))), (''value'', JNum 1)]) xs))) =
     Inr (map (\<lambda>x. \<lparr>wiObject = fst (k x), wiProperty = snd (k x), wiValue = Some (JNum 1), wiTime = []\<rparr>) xs)"
  by (simp add: checkItems_def decItems_def jget_def comp_def those_Some validateReplyMatchesRequest_def cong: if_cong)

lemma model_set:
  assumes "goodConn c"
  shows "\<exists>c' rs. clientSet modelSidecar calm items c = (Inr rs, c') \<and> goodConn c' \<and> (\<forall>r\<in>set rs. wiValue r = Some (JNum 1))"
proof -
  obtain c' where c: "call modelSidecar calm ''set'' (setArgs items) c = (Inr (Some (modelResult (setArgs items))), c')" "goodConn c'"
    using model_call [OF assms] by blast
  have "modelResult (setArgs items) = JArr (map (\<lambda>x. JObj [(''object'', JStr (fst ((\<lambda>it. (siObject it, siProperty it)) x))),
      (''property'', JStr (snd ((\<lambda>it. (siObject it, siProperty it)) x))), (''value'', JNum 1)]) items)"
    by (simp add: setArgs_def comp_def jget_def)
  then show ?thesis using c checkItems_self [of "''set''" False "\<lambda>it. (siObject it, siProperty it)" items]
    by (auto simp: clientSet_def)
qed

lemma model_get:
  assumes "goodConn c"
  shows "\<exists>c' rs. clientGet modelSidecar calm gets c = (Inr rs, c') \<and> goodConn c' \<and> (\<forall>r\<in>set rs. wiValue r = Some (JNum 1)) \<and>
    length rs = length gets"
proof -
  obtain c' where c: "call modelSidecar calm ''get'' (getArgs gets) c = (Inr (Some (modelResult (getArgs gets))), c')" "goodConn c'"
    using model_call [OF assms] by blast
  have "modelResult (getArgs gets) = JArr (map (\<lambda>x. JObj [(''object'', JStr (fst (id x))), (''property'', JStr (snd (id x))), (''value'', JNum 1)]) gets)"
    by (simp add: getArgs_def comp_def jget_def)
  then show ?thesis using c checkItems_self [of "''get''" True id gets] by (auto simp: clientGet_def)
qed

lemma model_step:
  assumes "goodConn c"
  shows "\<exists>c'. StepTo modelSidecar (\<lambda>t. ''t'') (\<lambda>x. Some 5) calm t c = (Inr 5, c') \<and> goodConn c'"
  using model_call [OF assms, of "''step_to''" "JObj [(''time'', JStr ''t'')]"] by (auto simp: StepTo_def)

definition upSup :: "64 word \<Rightarrow> nat Supervisor" where
  "upSup g = newSupervisor\<lparr>healthy := True, gen := g,
     clientConn := Some \<lparr>nextID = 0, brokenCause = None, connTimeout = 5, inbox = [], peer = 0\<rparr>\<rparr>"

abbreviation demoT :: "nat Supervisor FleetTransport" where
  "demoT \<equiv> supervisorTransport ''f'' modelSidecar (\<lambda>t. ''t'') (\<lambda>x. Some 5)"

definition goodSup :: "64 word \<Rightarrow> nat Supervisor \<Rightarrow> bool" where
  "goodSup g s \<longleftrightarrow> healthy s \<and> gen s = g \<and> (\<exists>c. clientConn s = Some c \<and> goodConn c)"

lemma goodSup_up: "goodSup g (upSup g)"
  by (simp add: goodSup_def upSup_def goodConn_def minInt64_def maxInt64_def)

lemma goodSup_withConn:
  assumes "goodSup g s" "\<And>c. goodConn c \<Longrightarrow> \<exists>c' x. f c = (Inr x, c') \<and> goodConn c' \<and> P x"
  shows "\<exists>s' x. withConn fl f s = (Inr x, s') \<and> goodSup g s' \<and> P x"
proof -
  obtain c where c: "clientConn s = Some c" "goodConn c" "healthy s" "gen s = g" using assms(1) by (auto simp: goodSup_def)
  obtain c' x where "f c = (Inr x, c')" "goodConn c'" "P x" using assms(2) [OF c(2)] by blast
  then show ?thesis using c by (auto simp: withConn_def client_def goodSup_def)
qed

lemma mapErr_all: "(\<And>x. x \<in> set xs \<Longrightarrow> f x = Inr (g x)) \<Longrightarrow> mapErr f xs = Inr (map g xs)"
  by (induction xs) simp_all

lemma demo_set:
  assumes "goodSup g s" "\<forall>it\<in>set items. isFin (fsValue it)"
  shows "\<exists>s' vs. tSet demoT calm items s = (Inr vs, s') \<and> goodSup g s'"
proof -
  have m: "mapErr toWireItem items = Inr (map (\<lambda>it. \<lparr>siObject = fsObject it, siProperty = fsProperty it,
      siValue = Some (JNum (case fsValue it of Fin r \<Rightarrow> r))\<rparr>) items)"
    using assms(2) by (intro mapErr_all) (auto simp: toWireItem_def FloatValue_def isFin_def split: f64.splits)
  have "\<exists>s' x. withConn ''f'' (\<lambda>c. case mapErr toWireItem items of Inl e \<Rightarrow> (Inl e, c) | Inr wire \<Rightarrow>
      (case clientSet modelSidecar calm wire c of (Inl e, c) \<Rightarrow> (Inl e, c)
       | (Inr results, c) \<Rightarrow> (mapErr (\<lambda>r. valueFloat64 (wiValue r)) results, c))) s = (Inr x, s') \<and> goodSup g s' \<and> True"
  proof (rule goodSup_withConn [OF assms(1)])
    fix c :: "nat Conn"
    assume "goodConn c"
    from model_set [OF this] obtain c' rs where k: "clientSet modelSidecar calm (map (\<lambda>it. \<lparr>siObject = fsObject it, siProperty = fsProperty it,
      siValue = Some (JNum (case fsValue it of Fin r \<Rightarrow> r))\<rparr>) items) c = (Inr rs, c')" "goodConn c'" "\<forall>r\<in>set rs. wiValue r = Some (JNum 1)"
      by blast
    have "mapErr (\<lambda>r. valueFloat64 (wiValue r)) rs = Inr (map (\<lambda>r. Fin 1) rs)"
      using k(3) by (intro mapErr_all) (simp add: valueFloat64_def components_def)
    with k m show "\<exists>c' x. (case mapErr toWireItem items of Inl e \<Rightarrow> (Inl e, c) | Inr wire \<Rightarrow>
      (case clientSet modelSidecar calm wire c of (Inl e, c) \<Rightarrow> (Inl e, c)
       | (Inr results, c) \<Rightarrow> (mapErr (\<lambda>r. valueFloat64 (wiValue r)) results, c))) = (Inr x, c') \<and> goodConn c' \<and> True" by simp
  qed
  then show ?thesis by (simp add: supervisorTransport_def transportSet_def)
qed

lemma demo_step: "goodSup g s \<Longrightarrow> \<exists>s'. tStepTo demoT calm t s = (Inr 5, s') \<and> goodSup g s'"
  using goodSup_withConn [of g s "StepTo modelSidecar (\<lambda>t. ''t'') (\<lambda>x. Some 5) calm t" "\<lambda>x. x = 5" "''f''"] model_step
  by (simp add: supervisorTransport_def transportStepTo_def)

lemma demo_get:
  assumes "goodSup g s"
  shows "\<exists>s'. tGet demoT calm gets s = (Inr (replicate (length gets) \<lparr>fvRe = Fin 1, fvIm = Fin 0\<rparr>), s') \<and> goodSup g s'"
proof -
  have "\<exists>s' x. withConn ''f'' (\<lambda>c. case clientGet modelSidecar calm gets c of (Inl e, c) \<Rightarrow> (Inl e, c)
       | (Inr results, c) \<Rightarrow> (mapErr toFleetValue results, c)) s = (Inr x, s') \<and> goodSup g s' \<and>
       x = replicate (length gets) \<lparr>fvRe = Fin 1, fvIm = Fin 0\<rparr>"
  proof (rule goodSup_withConn [OF assms(1)])
    fix c :: "nat Conn"
    assume "goodConn c"
    from model_get [OF this] obtain c' rs where k: "clientGet modelSidecar calm gets c = (Inr rs, c')" "goodConn c'"
      "\<forall>r\<in>set rs. wiValue r = Some (JNum 1)" "length rs = length gets" by metis
    have "mapErr toFleetValue rs = Inr (map (\<lambda>r. \<lparr>fvRe = Fin 1, fvIm = Fin 0\<rparr>) rs)"
      using k(3) by (intro mapErr_all) (simp add: toFleetValue_def components_def)
    with k show "\<exists>c' x. (case clientGet modelSidecar calm gets c of (Inl e, c) \<Rightarrow> (Inl e, c)
       | (Inr results, c) \<Rightarrow> (mapErr toFleetValue results, c)) = (Inr x, c') \<and> goodConn c' \<and>
       x = replicate (length gets) \<lparr>fvRe = Fin 1, fvIm = Fin 0\<rparr>" by (simp add: map_replicate_const)
  qed
  then show ?thesis by (simp add: supervisorTransport_def transportGet_def)
qed

lemma demo_ok: "goodSup g s \<Longrightarrow> tHealthy demoT s \<and> tGeneration demoT s = g"
  by (simp add: supervisorTransport_def goodSup_def Healthy_def generation_def)

definition demoFleetDev :: FleetDevice where
  "demoFleetDev = \<lparr>fdLFDI = ''L'', inverterObj = ''i'', meterObj = ''m'', lastControls = None, lastGeneration = 0\<rparr>"

lemma setpointItems_fin: "isFin (ActivePowerW c) \<Longrightarrow> isFin (ReactivePowerVAr c) \<Longrightarrow> \<forall>it\<in>set (setpointItems d c). isFin (fsValue it)"
  by (simp add: setpointItems_def)

lemma demo_apply:
  assumes "goodSup g s" "isFin (ActivePowerW c)" "isFin (ReactivePowerVAr c)" "lastControls d = None"
  shows "\<exists>st tr s'. fleetApplySetpoint demoT calm n1 n2 c d s = (Inr st, tr, d\<lparr>lastGeneration := g, lastControls := Some c\<rparr>, s') \<and> goodSup g s'"
proof -
  let ?d = "d\<lparr>lastGeneration := g\<rparr>"
  have rs: "resyncAfterRestart demoT calm n1 d s = (None, [], ?d, s)"
    using assms(4) demo_ok [OF assms(1)] by (simp add: resyncAfterRestart_def)
  obtain s1 vs where s1: "tSet demoT calm (setpointItems ?d c) s = (Inr vs, s1)" "goodSup g s1"
    using demo_set [OF assms(1) setpointItems_fin [OF assms(2,3)]] by blast
  obtain s2 where s2: "tStepTo demoT calm n2 s1 = (Inr 5, s2)" "goodSup g s2" using demo_step [OF s1(2)] by blast
  obtain s3 where s3: "tGet demoT calm (setpointGets ?d) s2 = (Inr (replicate 2 \<lparr>fvRe = Fin 1, fvIm = Fin 0\<rparr>), s3)" "goodSup g s3"
    using demo_get [OF s2(2), of "setpointGets ?d"] by (auto simp: setpointGets_def numeral_eq_Suc)
  show ?thesis using demo_ok [OF assms(1)] rs s1 s2 s3
    by (auto simp: fleetApplySetpoint_def achievedOf_def fvFloat64_def numeral_2_eq_2 Let_def)
qed

text \<open>A device is commanded, its sidecar restarts, and the next reading finds the setpoint restored.\<close>

theorem restart_keeps_setpoint_witness:
  "\<exists>d s1 lg r tr d' s2 tr0. fleetRun demoT d s1 lg [demoCtl] \<and>
     fleetReadState demoT calm 1 2 d (upSup 2) = (r, tr, d', s2) \<and>
     tr = tr0 @ [RqGet 2 (readItems d) True] \<and> RqSet 2 (setpointItems d demoCtl) True \<in> set (lg @ tr0)"
proof -
  have fin: "isFin (ActivePowerW demoCtl)" "isFin (ReactivePowerVAr demoCtl)" by (simp_all add: demoCtl_def zeroOutputs_def)
  have "NewFleetDevice ''L'' ''i'' ''m'' = Inr demoFleetDev" by (simp add: NewFleetDevice_def demoFleetDev_def)
  then have run0: "fleetRun demoT demoFleetDev (upSup 1) [] []" by (rule fleetRun.start)
  obtain st tr1 s1 where a: "fleetApplySetpoint demoT calm 0 0 demoCtl demoFleetDev (upSup 1) =
      (Inr st, tr1, demoFleetDev\<lparr>lastGeneration := 1, lastControls := Some demoCtl\<rparr>, s1)" "goodSup 1 s1"
    using demo_apply [OF goodSup_up fin, of demoFleetDev 0 0 1] by (auto simp: demoFleetDev_def)
  let ?d = "demoFleetDev\<lparr>lastGeneration := 1, lastControls := Some demoCtl\<rparr>"
  have run1: "fleetRun demoT ?d s1 ([] @ tr1) ([] @ [demoCtl])"
    using fleetRun.writes [OF run0 a(1)] by (simp add: okRes_def)
  then have run2: "fleetRun demoT ?d (upSup 2) ([] @ tr1) ([] @ [demoCtl])" by (rule fleetRun.env)
  obtain s2 vs where s2: "tSet demoT calm (setpointItems ?d demoCtl) (upSup 2) = (Inr vs, s2)" "goodSup 2 s2"
    using demo_set [OF goodSup_up setpointItems_fin [OF fin]] by blast
  obtain s3 where s3: "tStepTo demoT calm 1 s2 = (Inr 5, s3)" "goodSup 2 s3" using demo_step [OF s2(2)] by blast
  let ?d2 = "?d\<lparr>lastGeneration := 2\<rparr>"
  have rs: "\<exists>tr. resyncAfterRestart demoT calm 1 ?d (upSup 2) = (None, tr, ?d2, s3)"
    using demo_ok [OF goodSup_up [of 2]] s2 s3 by (simp add: resyncAfterRestart_def)
  obtain s4 where s4: "tGet demoT calm (readItems ?d2) s3 = (Inr (replicate 4 \<lparr>fvRe = Fin 1, fvIm = Fin 0\<rparr>), s4)"
    using demo_get [OF s3(2), of "readItems ?d2"] by (auto simp: readItems_def numeral_eq_Suc)
  obtain r tr d' w' where r: "fleetReadState demoT calm 1 2 ?d (upSup 2) = (r, tr, d', w')" by (metis prod.exhaust)
  have ok: "okRes r"
    using r rs s4 demo_ok [OF goodSup_up [of 2]]
    by (auto simp: fleetReadState_def readingOf_def fvFloat64_def okRes_def numeral_eq_Suc Let_def)
  obtain r' tr' d2 w2 where w: "fleetApplySetpoint demoT calm 1 2 demoCtl ?d (upSup 2) = (r', tr', d2, w2)" by (metis prod.exhaust)
  have "generation (upSup 2) = 2" by (simp add: generation_def upSup_def)
  then obtain tr0 where t: "tr = tr0 @ [RqGet 2 (readItems ?d) True] \<and> RqSet 2 (setpointItems ?d demoCtl) True \<in> set (([] @ tr1) @ tr0)"
    using restart_keeps_setpoint [OF refl run2 r w] ok by auto
  have "fleetRun demoT ?d (upSup 2) ([] @ tr1) [demoCtl]" using run2 by simp
  then show ?thesis using r t by blast
qed

end
