(* ===== verification/Manager.thy ===== *)
theory Manager
  imports Fleet
begin

text \<open>
  Fleet files and the manager that builds a supervisor and the devices of each
  (\<open>internal/sim/gridlabd/fleetfile.go\<close>, \<open>manager.go\<close>, \<open>cmd/inverterclient/fleet_env.go\<close>). The file system
  is a parameter: what a path resolves to, the decoded content of a file and the mode of a path.
\<close>

section \<open>Fleet files\<close>

record DeviceEntry =
  deName :: string
  deLFDI :: string
  deObjects :: "(string \<times> string) list"

record FleetFile =
  ffFleet :: string
  ffVersion :: string
  ffPEN :: string
  ffGLM :: string
  ffDevices :: "DeviceEntry list"
  ffMeter :: string
  ffInterpreter :: string
  ffPath :: string

record fileInfo =
  fiDir :: bool
  fiSymlink :: bool
  fiPerm :: nat
  fiOwned :: bool

datatype statResult = NotExist | StatError | Stat fileInfo

record fileSystem =
  fsAbs :: "string \<Rightarrow> string option"
  fsFleetFile :: "string \<Rightarrow> FleetFile option"
  fsStat :: "string \<Rightarrow> fileInfo option"
  fsLstat :: "string \<Rightarrow> statResult"
  fsMkdir :: "string \<Rightarrow> bool"

datatype mgrErr =
    ErrFleetName string
  | ErrNoGLM string
  | ErrNoDevices string
  | ErrDeviceName string
  | ErrLFDI string string
  | ErrLFDITwice string string
  | ErrNoObjects string string
  | ErrObjectName string string
  | ErrObjectTwice string string
  | ErrInterpreter string
  | ErrLoad string
  | ErrNotAggregatorRole nat
  | ErrRunDir string
  | ErrFleetTwice string
  | ErrLFDIAcross string
  | ErrSocketPath string nat
  | ErrNoInverter string string
  | ErrDevice string

definition code :: "char \<Rightarrow> nat" where "code c = of_char c"

definition isHexChar :: "char \<Rightarrow> bool" where
  "isHexChar c \<longleftrightarrow> (48 \<le> code c \<and> code c \<le> 57) \<or> (65 \<le> code c \<and> code c \<le> 70) \<or> (97 \<le> code c \<and> code c \<le> 102)"

definition hex40 :: "string \<Rightarrow> bool" where
  "hex40 s \<longleftrightarrow> length s = 40 \<and> list_all isHexChar s"

definition isNameChar :: "char \<Rightarrow> bool" where
  "isNameChar c \<longleftrightarrow> (48 \<le> code c \<and> code c \<le> 57) \<or> (65 \<le> code c \<and> code c \<le> 90) \<or> (97 \<le> code c \<and> code c \<le> 122) \<or> code c = 95"

definition safeFleetName :: "string \<Rightarrow> bool" where
  "safeFleetName s \<longleftrightarrow> 1 \<le> length s \<and> length s \<le> 32 \<and> list_all isNameChar s"

text \<open>The loop over the objects of a device, and the loop over the devices, with the two maps.\<close>

fun validateObjects :: "string \<Rightarrow> string \<Rightarrow> (string \<times> string) list \<Rightarrow> string list \<Rightarrow> mgrErr + string list" where
  "validateObjects fleet dev [] seen = Inr seen"
| "validateObjects fleet dev ((class, obj) # rest) seen =
     (if obj = [] then Inl (ErrObjectName fleet dev)
      else if obj \<in> set seen then Inl (ErrObjectTwice fleet obj)
      else validateObjects fleet dev rest (obj # seen))"

fun validateDevices :: "string \<Rightarrow> DeviceEntry list \<Rightarrow> string list \<Rightarrow> string list \<Rightarrow> mgrErr option" where
  "validateDevices fleet [] lfdis objs = None"
| "validateDevices fleet (d # ds) lfdis objs =
     (if deName d = [] then Some (ErrDeviceName fleet)
      else if \<not> hex40 (deLFDI d) then Some (ErrLFDI fleet (deLFDI d))
      else if toUpper (deLFDI d) \<in> set lfdis then Some (ErrLFDITwice fleet (toUpper (deLFDI d)))
      else if deObjects d = [] then Some (ErrNoObjects fleet (deName d))
      else (case validateObjects fleet (deName d) (deObjects d) objs of
              Inl e \<Rightarrow> Some e
            | Inr objs' \<Rightarrow> validateDevices fleet ds (toUpper (deLFDI d) # lfdis) objs'))"

definition isAbsPath :: "string \<Rightarrow> bool" where
  "isAbsPath p \<longleftrightarrow> (case p of CHR ''/'' # _ \<Rightarrow> True | _ \<Rightarrow> False)"

definition Validate :: "fileSystem \<Rightarrow> FleetFile \<Rightarrow> mgrErr option" where
  "Validate fs f =
     (if ffFleet f = [] then Some (ErrFleetName [])
      else if \<not> safeFleetName (ffFleet f) then Some (ErrFleetName (ffFleet f))
      else if ffGLM f = [] then Some (ErrNoGLM (ffFleet f))
      else if ffDevices f = [] then Some (ErrNoDevices (ffFleet f))
      else (case validateDevices (ffFleet f) (ffDevices f) [] [] of
              Some e \<Rightarrow> Some e
            | None \<Rightarrow>
                if ffInterpreter f = [] then None
                else if \<not> isAbsPath (ffInterpreter f) then Some (ErrInterpreter (ffFleet f))
                else (case fsStat fs (ffInterpreter f) of
                        None \<Rightarrow> Some (ErrInterpreter (ffFleet f))
                      | Some i \<Rightarrow>
                          if fiDir i then Some (ErrInterpreter (ffFleet f))
                          else if and (fiPerm i) 73 = 0 then Some (ErrInterpreter (ffFleet f))
                          else None)))"

definition LoadFleetFile :: "fileSystem \<Rightarrow> string \<Rightarrow> mgrErr + FleetFile" where
  "LoadFleetFile fs path =
     (case fsAbs fs path of
        None \<Rightarrow> Inl (ErrLoad path)
      | Some a \<Rightarrow>
          (case fsFleetFile fs a of
             None \<Rightarrow> Inl (ErrLoad a)
           | Some f \<Rightarrow>
               let f = f\<lparr>ffPath := a\<rparr> in
               (case Validate fs f of
                  Some e \<Rightarrow> Inl e
                | None \<Rightarrow> Inr (f\<lparr>ffDevices := map (\<lambda>d. d\<lparr>deLFDI := toUpper (deLFDI d)\<rparr>) (ffDevices f)\<rparr>))))"

section \<open>The manager\<close>

definition AggregatorRole :: string where "AggregatorRole = ''aggregator''"
definition defaultFleetMeterObject :: string where "defaultFleetMeterObject = ''fleet_meter''"
definition maxSocketPathLen :: nat where "maxSocketPathLen = 107"

record ManagerConfig =
  mcRole :: string
  mcFleetFiles :: "string list"
  mcRunDir :: string
  mcCommand :: "string list option"
  mcEnv :: "string list option"
  mcTiming :: SupervisorConfig

record Manager =
  mSupervisors :: "SupervisorConfig list"
  mDevices :: "(string \<times> FleetDevice) list"

definition prepareRunDir :: "fileSystem \<Rightarrow> string \<Rightarrow> mgrErr option" where
  "prepareRunDir fs dir =
     (case fsLstat fs dir of
        NotExist \<Rightarrow> if fsMkdir fs dir then None else Some (ErrRunDir dir)
      | StatError \<Rightarrow> Some (ErrRunDir dir)
      | Stat i \<Rightarrow>
          if fiSymlink i then Some (ErrRunDir dir)
          else if \<not> fiDir i then Some (ErrRunDir dir)
          else if and (fiPerm i) 18 \<noteq> 0 then Some (ErrRunDir dir)
          else if \<not> fiOwned i then Some (ErrRunDir dir)
          else None)"

text \<open>\<open>filepath.Join\<close> of a clean absolute directory and a plain name.\<close>

definition joinPath :: "string \<Rightarrow> string \<Rightarrow> string" where
  "joinPath dir name = (if dir = ''/'' then dir @ name else dir @ ''/'' @ name)"

fun seenAcross :: "DeviceEntry list \<Rightarrow> string list \<Rightarrow> mgrErr + string list" where
  "seenAcross [] seen = Inr seen"
| "seenAcross (d # ds) seen =
     (if toUpper (deLFDI d) \<in> set seen then Inl (ErrLFDIAcross (toUpper (deLFDI d)))
      else seenAcross ds (toUpper (deLFDI d) # seen))"

fun buildDevices :: "string \<Rightarrow> string \<Rightarrow> DeviceEntry list \<Rightarrow> mgrErr + (string \<times> FleetDevice) list" where
  "buildDevices fleet meter [] = Inr []"
| "buildDevices fleet meter (d # ds) =
     (case map_of (deObjects d) ''inverter'' of
        None \<Rightarrow> Inl (ErrNoInverter fleet (deName d))
      | Some invObj \<Rightarrow>
          (case NewFleetDevice (deLFDI d) invObj meter of
             Inl e \<Rightarrow> Inl (ErrDevice e)
           | Inr fd \<Rightarrow> (case buildDevices fleet meter ds of Inl e \<Rightarrow> Inl e | Inr fds \<Rightarrow> Inr ((fleet, fd) # fds))))"

definition supervisorFor :: "(string \<Rightarrow> string option) \<Rightarrow> ManagerConfig \<Rightarrow> string \<Rightarrow> FleetFile \<Rightarrow> SupervisorConfig" where
  "supervisorFor lookupEnv cfg sock ff =
     supWithDefaults lookupEnv ((mcTiming cfg)\<lparr>scFleet := ffFleet ff, SocketPath := sock, FleetFilePath := ffPath ff,
       Command := (if ffInterpreter ff \<noteq> [] then Some [ffInterpreter ff, ''-P'', ''-m'', ''gldsidecar''] else mcCommand cfg),
       scEnv := mcEnv cfg\<rparr>)"

text \<open>The loop over the files, with the fleet names and the LFDIs seen so far.\<close>

fun buildFleets :: "fileSystem \<Rightarrow> (string \<Rightarrow> string option) \<Rightarrow> ManagerConfig \<Rightarrow> string list \<Rightarrow> string list \<Rightarrow> string list \<Rightarrow>
    mgrErr + Manager" where
  "buildFleets fs env cfg [] names lfdis = Inr \<lparr>mSupervisors = [], mDevices = []\<rparr>"
| "buildFleets fs env cfg (path # paths) names lfdis =
     (case LoadFleetFile fs path of
        Inl e \<Rightarrow> Inl e
      | Inr ff \<Rightarrow>
          if ffFleet ff \<in> set names then Inl (ErrFleetTwice (ffFleet ff))
          else
            (case seenAcross (ffDevices ff) lfdis of
               Inl e \<Rightarrow> Inl e
             | Inr lfdis' \<Rightarrow>
                 let sock = joinPath (mcRunDir cfg) (ffFleet ff @ ''.sock'') in
                 if length sock > maxSocketPathLen then Inl (ErrSocketPath (ffFleet ff) (length sock))
                 else
                   (case buildDevices (ffFleet ff) (if ffMeter ff = [] then defaultFleetMeterObject else ffMeter ff) (ffDevices ff) of
                      Inl e \<Rightarrow> Inl e
                    | Inr devs \<Rightarrow>
                        (case buildFleets fs env cfg paths (ffFleet ff # names) lfdis' of
                           Inl e \<Rightarrow> Inl e
                         | Inr m \<Rightarrow> Inr \<lparr>mSupervisors = supervisorFor env cfg sock ff # mSupervisors m,
                             mDevices = devs @ mDevices m\<rparr>))))"

text \<open>\<open>None\<close> on success is an ordinary client run, without a manager.\<close>

definition NewManager :: "fileSystem \<Rightarrow> (string \<Rightarrow> string option) \<Rightarrow> ManagerConfig \<Rightarrow> mgrErr + Manager option" where
  "NewManager fs env cfg =
     (if mcRole cfg \<noteq> AggregatorRole then
        (if mcFleetFiles cfg = [] then Inr None else Inl (ErrNotAggregatorRole (length (mcFleetFiles cfg))))
      else if mcFleetFiles cfg = [] then Inr None
      else if mcRunDir cfg = [] then Inl (ErrRunDir [])
      else
        (case fsAbs fs (mcRunDir cfg) of
           None \<Rightarrow> Inl (ErrRunDir (mcRunDir cfg))
         | Some dir \<Rightarrow>
             let cfg = cfg\<lparr>mcRunDir := dir\<rparr> in
             (case prepareRunDir fs dir of
                Some e \<Rightarrow> Inl e
              | None \<Rightarrow>
                  (case buildFleets fs env cfg (mcFleetFiles cfg) [] [] of Inl e \<Rightarrow> Inl e | Inr m \<Rightarrow> Inr (Some m)))))"

section \<open>The environment of the sidecars\<close>

definition fleetSidecarEnv :: "(string \<Rightarrow> string option) \<Rightarrow> string \<Rightarrow> string list" where
  "fleetSidecarEnv lookupEnv dir =
     (if dir = [] then DefaultEnv lookupEnv else DefaultEnv lookupEnv @ [''PYTHONPATH='' @ dir])"

definition resolveSidecarPythonPath :: "fileSystem \<Rightarrow> string \<Rightarrow> mgrErr + string" where
  "resolveSidecarPythonPath fs dir =
     (if dir = [] then Inr []
      else
        (case fsAbs fs dir of
           None \<Rightarrow> Inl (ErrLoad dir)
         | Some a \<Rightarrow>
             (case fsStat fs (joinPath (joinPath a ''gldsidecar'') ''__main__.py'') of
                None \<Rightarrow> Inl (ErrLoad a)
              | Some _ \<Rightarrow> Inr a)))"

definition buildFleetManagerConfig :: "fileSystem \<Rightarrow> (string \<Rightarrow> string option) \<Rightarrow> SupervisorConfig \<Rightarrow> string \<Rightarrow> string list \<Rightarrow> string \<Rightarrow> string \<Rightarrow>
    mgrErr + ManagerConfig" where
  "buildFleetManagerConfig fs env timing role files runDir pythonPath =
     (let cfg = \<lparr>mcRole = role, mcFleetFiles = files, mcRunDir = runDir, mcCommand = None, mcEnv = None, mcTiming = timing\<rparr> in
      if role \<noteq> AggregatorRole \<or> files = [] then Inr cfg
      else
        (case resolveSidecarPythonPath fs pythonPath of
           Inl e \<Rightarrow> Inl e
         | Inr resolved \<Rightarrow> Inr (cfg\<lparr>mcEnv := Some (fleetSidecarEnv env resolved)\<rparr>)))"

section \<open>What a manager guarantees\<close>

lemma validateObjects_ok:
  "validateObjects fleet dev objs seen = Inr seen' \<Longrightarrow>
     seen' = rev (map snd objs) @ seen \<and> distinct (map snd objs) \<and> set (map snd objs) \<inter> set seen = {} \<and> [] \<notin> set (map snd objs)"
  by (induction fleet dev objs seen rule: validateObjects.induct) (auto split: if_splits)

definition objectsOf :: "DeviceEntry list \<Rightarrow> string list" where
  "objectsOf ds = concat (map (\<lambda>d. map snd (deObjects d)) ds)"

lemma objectsOf_simps: "objectsOf [] = []" "objectsOf (d # ds) = map snd (deObjects d) @ objectsOf ds"
  by (simp_all add: objectsOf_def)

definition lfdisOf :: "DeviceEntry list \<Rightarrow> string list" where
  "lfdisOf ds = map (\<lambda>d. toUpper (deLFDI d)) ds"

lemma validateDevices_ok:
  "validateDevices fleet ds lfdis objs = None \<Longrightarrow>
     distinct (lfdisOf ds) \<and> set (lfdisOf ds) \<inter> set lfdis = {} \<and> (\<forall>d\<in>set ds. hex40 (deLFDI d)) \<and>
     distinct (objectsOf ds) \<and> set (objectsOf ds) \<inter> set objs = {} \<and> [] \<notin> set (objectsOf ds)"
proof (induction fleet ds lfdis objs rule: validateDevices.induct)
  case (1 fleet lfdis objs)
  then show ?case by (simp add: objectsOf_simps lfdisOf_def)
next
  case (2 fleet d ds lfdis objs)
  from 2(2) obtain objs' where o: "validateObjects fleet (deName d) (deObjects d) objs = Inr objs'"
    and r: "validateDevices fleet ds (toUpper (deLFDI d) # lfdis) objs' = None"
    and h: "deName d \<noteq> []" "hex40 (deLFDI d)" "toUpper (deLFDI d) \<notin> set lfdis" "deObjects d \<noteq> []"
    by (auto split: if_splits sum.splits)
  define xs where "xs = map snd (deObjects d)"
  have O: "objs' = rev xs @ objs" "distinct xs" "set xs \<inter> set objs = {}" "[] \<notin> set xs"
    using validateObjects_ok [OF o] by (simp_all add: xs_def)
  have IH: "distinct (lfdisOf ds)" "set (lfdisOf ds) \<inter> set (toUpper (deLFDI d) # lfdis) = {}"
     "\<forall>d\<in>set ds. hex40 (deLFDI d)" "distinct (objectsOf ds)" "set (objectsOf ds) \<inter> set objs' = {}" "[] \<notin> set (objectsOf ds)"
    using 2(1) h o r by simp_all
  have "set (objectsOf ds) \<inter> set xs = {}" "set (objectsOf ds) \<inter> set objs = {}" using IH(5) O(1) by auto
  then have "distinct (xs @ objectsOf ds)" "set (xs @ objectsOf ds) \<inter> set objs = {}" "[] \<notin> set (xs @ objectsOf ds)"
    using O IH by auto
  moreover have "lfdisOf (d # ds) = toUpper (deLFDI d) # lfdisOf ds" by (simp add: lfdisOf_def)
  ultimately show ?case using IH h unfolding objectsOf_simps xs_def [symmetric] by auto
qed

lemma code_upper: "code (upperChar c) = (if 97 \<le> code c \<and> code c \<le> 122 then code c - 32 else code c)"
proof (cases "97 \<le> code c \<and> code c \<le> 122")
  case True
  then have b: "97 \<le> code c" "code c \<le> 122" by simp_all
  then have "code (upperChar c) = (code c - 32) mod 256" by (simp add: code_def upperChar_def Let_def of_char_of)
  also have "\<dots> = code c - 32" using b by (intro mod_less) linarith
  finally show ?thesis using True by simp
qed (auto simp: code_def upperChar_def Let_def)

lemma upperChar_idem: "upperChar (upperChar c) = upperChar c"
proof -
  have "\<not> (97 \<le> code (upperChar c) \<and> code (upperChar c) \<le> 122)" using code_upper [of c] by (auto split: if_splits)
  then show ?thesis unfolding upperChar_def [of "upperChar c"] Let_def code_def by (rule if_not_P)
qed

lemma toUpper_idem [simp]: "toUpper (toUpper s) = toUpper s"
  by (simp add: toUpper_def upperChar_idem)

lemma hexChar_upper: "isHexChar c \<Longrightarrow> isHexChar (upperChar c)"
  by (auto simp: isHexChar_def code_upper)

lemma hex40_upper: "hex40 s \<Longrightarrow> hex40 (toUpper s)"
  using hexChar_upper by (auto simp: hex40_def toUpper_def list_all_iff)

lemma LoadFleetFile_ok:
  assumes "LoadFleetFile fs path = Inr ff"
  shows "distinct (map deLFDI (ffDevices ff)) \<and> (\<forall>d\<in>set (ffDevices ff). hex40 (deLFDI d) \<and> toUpper (deLFDI d) = deLFDI d) \<and>
    distinct (objectsOf (ffDevices ff)) \<and> safeFleetName (ffFleet ff)"
proof -
  obtain a f where f: "Validate fs (f\<lparr>ffPath := a\<rparr>) = None"
    "ff = f\<lparr>ffPath := a, ffDevices := map (\<lambda>d. d\<lparr>deLFDI := toUpper (deLFDI d)\<rparr>) (ffDevices f)\<rparr>"
    using assms by (auto simp: LoadFleetFile_def Let_def split: option.splits)
  have v: "validateDevices (ffFleet f) (ffDevices f) [] [] = None" "safeFleetName (ffFleet f)"
    using f(1) by (auto simp: Validate_def split: if_splits option.splits)
  note V = validateDevices_ok [OF v(1)]
  have "map deLFDI (ffDevices ff) = lfdisOf (ffDevices f)" "objectsOf (ffDevices ff) = objectsOf (ffDevices f)"
    by (simp_all add: f(2) lfdisOf_def objectsOf_def comp_def)
  then show ?thesis using V v(2) hex40_upper by (auto simp: f(2))
qed

lemma seenAcross_ok:
  "seenAcross ds seen = Inr seen' \<Longrightarrow> seen' = rev (lfdisOf ds) @ seen \<and> distinct (lfdisOf ds) \<and> set (lfdisOf ds) \<inter> set seen = {}"
  by (induction ds seen rule: seenAcross.induct) (auto simp: lfdisOf_def split: if_splits)

lemma buildDevices_ok:
  "buildDevices fleet meter ds = Inr devs \<Longrightarrow>
     map (fdLFDI \<circ> snd) devs = map deLFDI ds \<and> (\<forall>x\<in>set devs. fst x = fleet) \<and>
     (distinct (objectsOf ds) \<longrightarrow> distinct (map (inverterObj \<circ> snd) devs)) \<and> set (map (inverterObj \<circ> snd) devs) \<subseteq> set (objectsOf ds)"
proof (induction fleet meter ds arbitrary: devs rule: buildDevices.induct)
  case (1 fleet meter)
  then show ?case by simp
next
  case (2 fleet meter d ds)
  then obtain invObj fd fds where o: "map_of (deObjects d) ''inverter'' = Some invObj" "NewFleetDevice (deLFDI d) invObj meter = Inr fd"
    "buildDevices fleet meter ds = Inr fds" "devs = (fleet, fd) # fds"
    by (auto split: option.splits sum.splits)
  have fd: "fdLFDI fd = deLFDI d" "inverterObj fd = invObj" using o(2) by (auto simp: NewFleetDevice_def split: if_splits)
  have i: "invObj \<in> set (map snd (deObjects d))" using map_of_SomeD [OF o(1)] by force
  note IH = 2(1) [OF o(1) o(2) o(3)]
  have "distinct (map (inverterObj \<circ> snd) devs)" if "distinct (map snd (deObjects d) @ objectsOf ds)"
    using that IH i o(4) fd(2) by (simp only: list.map comp_def snd_conv distinct.simps distinct_append) blast
  moreover have "set (map (inverterObj \<circ> snd) devs) \<subseteq> set (map snd (deObjects d) @ objectsOf ds)"
    using IH i o(4) fd(2) by auto
  ultimately show ?case using IH o(4) fd unfolding objectsOf_simps by simp
qed

definition manager_ok :: "string list \<Rightarrow> string list \<Rightarrow> Manager \<Rightarrow> bool" where
  "manager_ok names lfdis m \<longleftrightarrow>
     distinct (map scFleet (mSupervisors m)) \<and> set (map scFleet (mSupervisors m)) \<inter> set names = {} \<and>
     distinct (map (fdLFDI \<circ> snd) (mDevices m)) \<and> set (map (fdLFDI \<circ> snd) (mDevices m)) \<inter> set lfdis = {} \<and>
     (\<forall>x\<in>set (mDevices m). hex40 (fdLFDI (snd x)) \<and> toUpper (fdLFDI (snd x)) = fdLFDI (snd x) \<and>
        fst x \<in> set (map scFleet (mSupervisors m))) \<and>
     distinct (map (\<lambda>x. (fst x, inverterObj (snd x))) (mDevices m))"

lemma supervisorFor_simps:
  "scFleet (supervisorFor env cfg sock ff) = ffFleet ff" "SocketPath (supervisorFor env cfg sock ff) = sock"
  by (simp_all add: supervisorFor_def supWithDefaults_def)

text \<open>What the manager guarantees, beyond the names taken before: one socket for each fleet, none too long to bind.\<close>

lemma joinPath_inj: "joinPath dir a = joinPath dir b \<longleftrightarrow> a = b"
  by (simp add: joinPath_def)

lemma manager_ok_cons:
  assumes m: "manager_ok (fleet # names) (map fdLFDI devs' @ lfdis) m"
    and devs: "devs' = map snd devs" "\<forall>x\<in>set devs. fst x = fleet" "distinct (map fdLFDI devs')" "set (map fdLFDI devs') \<inter> set lfdis = {}"
      "distinct (map (inverterObj \<circ> snd) devs)" "\<forall>x\<in>set devs. hex40 (fdLFDI (snd x)) \<and> toUpper (fdLFDI (snd x)) = fdLFDI (snd x)"
    and s: "scFleet s = fleet" "fleet \<notin> set names"
  shows "manager_ok names lfdis \<lparr>mSupervisors = s # mSupervisors m, mDevices = devs @ mDevices m\<rparr>"
proof -
  let ?o = "\<lambda>x. (fst x, inverterObj (snd x))"
  have fl: "set (map scFleet (mSupervisors m)) \<inter> set (fleet # names) = {}" "distinct (map scFleet (mSupervisors m))"
    using m by (simp_all add: manager_ok_def)
  have ld: "distinct (map (fdLFDI \<circ> snd) (mDevices m))" "set (map (fdLFDI \<circ> snd) (mDevices m)) \<inter> set (map fdLFDI devs' @ lfdis) = {}"
    using m by (simp_all add: manager_ok_def)
  have dv: "\<forall>x\<in>set (mDevices m). hex40 (fdLFDI (snd x)) \<and> toUpper (fdLFDI (snd x)) = fdLFDI (snd x) \<and> fst x \<in> set (map scFleet (mSupervisors m))"
    "distinct (map ?o (mDevices m))" using m by (simp_all add: manager_ok_def)
  have "map ?o devs = map (Pair fleet) (map (inverterObj \<circ> snd) devs)" using devs(2) by simp
  then have d: "distinct (map ?o devs)" using devs(5) by (simp add: distinct_map inj_on_def)
  have "fst x = fleet" if "x \<in> set devs" for x using devs(2) that by blast
  moreover have "fst x \<noteq> fleet" if "x \<in> set (mDevices m)" for x using dv(1) fl(1) that by auto
  ultimately have "set (map ?o devs) \<inter> set (map ?o (mDevices m)) = {}" by fastforce
  then have "distinct (map ?o (devs @ mDevices m))" using d dv(2) by simp
  moreover have "distinct (map (fdLFDI \<circ> snd) (devs @ mDevices m))" "set (map (fdLFDI \<circ> snd) (devs @ mDevices m)) \<inter> set lfdis = {}"
    using ld devs(1,3,4) by (auto simp: comp_def)
  moreover have "set (map scFleet (s # mSupervisors m)) \<inter> set names = {}" "distinct (map scFleet (s # mSupervisors m))" using fl s by simp_all
  moreover have "\<forall>x\<in>set (devs @ mDevices m). hex40 (fdLFDI (snd x)) \<and> toUpper (fdLFDI (snd x)) = fdLFDI (snd x) \<and>
      fst x \<in> set (map scFleet (s # mSupervisors m))" using dv(1) s(1) devs(2,6) by (simp add: ball_Un)
  ultimately show ?thesis by (simp only: manager_ok_def Manager.simps simp_thms)
qed

lemma buildFleets_ok:
  "buildFleets fs env cfg paths names lfdis = Inr m \<Longrightarrow> manager_ok names lfdis m \<and>
     (\<forall>s\<in>set (mSupervisors m). SocketPath s = joinPath (mcRunDir cfg) (scFleet s @ ''.sock'') \<and> length (SocketPath s) \<le> maxSocketPathLen)"
proof (induction fs env cfg paths names lfdis arbitrary: m rule: buildFleets.induct)
  case (1 fs env cfg names lfdis)
  then show ?case by (auto simp: manager_ok_def)
next
  case (2 fs env cfg path paths names lfdis)
  let ?sock = "\<lambda>ff. joinPath (mcRunDir cfg) (ffFleet ff @ ''.sock'')"
  obtain ff lfdis' devs m' where o: "LoadFleetFile fs path = Inr ff" "ffFleet ff \<notin> set names" "seenAcross (ffDevices ff) lfdis = Inr lfdis'"
    "\<not> length (?sock ff) > maxSocketPathLen"
    "buildDevices (ffFleet ff) (if ffMeter ff = [] then defaultFleetMeterObject else ffMeter ff) (ffDevices ff) = Inr devs"
    "buildFleets fs env cfg paths (ffFleet ff # names) lfdis' = Inr m'"
    "m = \<lparr>mSupervisors = supervisorFor env cfg (?sock ff) ff # mSupervisors m', mDevices = devs @ mDevices m'\<rparr>"
    using 2(2) by (auto simp: Let_def split: sum.splits if_splits)
  note IH = 2(1) [OF o(1) o(2) o(3) refl o(4) o(5) o(6)]
  note L = LoadFleetFile_ok [OF o(1)] and S = seenAcross_ok [OF o(3)] and B = buildDevices_ok [OF o(5)]
  have lf: "map fdLFDI (map snd devs) = map deLFDI (ffDevices ff)" using B by (simp add: comp_def)
  have lu: "lfdisOf (ffDevices ff) = map deLFDI (ffDevices ff)" using L by (simp add: lfdisOf_def)
  have "set lfdis' = set (map fdLFDI (map snd devs) @ lfdis)" using S unfolding lf lu by simp
  then have "manager_ok (ffFleet ff # names) (map fdLFDI (map snd devs) @ lfdis) m'"
    using IH unfolding manager_ok_def by simp
  moreover have "fdLFDI (snd x) \<in> set (map deLFDI (ffDevices ff))" if "x \<in> set devs" for x using that unfolding lf [symmetric] by simp
  then have "\<forall>x\<in>set devs. hex40 (fdLFDI (snd x)) \<and> toUpper (fdLFDI (snd x)) = fdLFDI (snd x)" using L by fastforce
  moreover have "\<forall>x\<in>set devs. fst x = ffFleet ff" "distinct (map (inverterObj \<circ> snd) devs)" using B L by simp_all
  moreover have "distinct (map fdLFDI (map snd devs))" "set (map fdLFDI (map snd devs)) \<inter> set lfdis = {}"
    using L S unfolding lf lu by simp_all
  ultimately have "manager_ok names lfdis m" unfolding o(7)
    using manager_ok_cons [OF _ refl _ _ _ _ _ supervisorFor_simps(1) o(2)] by blast
  moreover have "\<forall>s\<in>set (mSupervisors m'). SocketPath s = joinPath (mcRunDir cfg) (scFleet s @ ''.sock'') \<and> length (SocketPath s) \<le> maxSocketPathLen"
    using IH by blast
  moreover have "length (?sock ff) \<le> maxSocketPathLen" using o(4) by simp
  ultimately show ?case by (simp only: o(7) Manager.simps list.set ball_simps supervisorFor_simps simp_thms)
qed

lemma buildFleets_files:
  "buildFleets fs env cfg paths names lfdis = Inr m \<Longrightarrow>
     list_all2 (\<lambda>p s. \<exists>ff. LoadFleetFile fs p = Inr ff \<and> scFleet s = ffFleet ff) paths (mSupervisors m)"
proof (induction paths arbitrary: names lfdis m)
  case (Cons p ps)
  obtain ff sock devs lfdis' m' where o: "LoadFleetFile fs p = Inr ff" "buildFleets fs env cfg ps (ffFleet ff # names) lfdis' = Inr m'"
    "m = \<lparr>mSupervisors = supervisorFor env cfg sock ff # mSupervisors m', mDevices = devs @ mDevices m'\<rparr>"
    using Cons.prems by (auto simp: Let_def split: sum.splits if_splits)
  show ?case using Cons.IH [OF o(2)] o(1,3) by (simp add: supervisorFor_simps)
qed simp

text \<open>C18: A manager exists only in the aggregator role, and what it built keeps its fleets and devices apart: every
  supervisor has its own fleet name and its own socket, whose path fits the 107 bytes an AF\_UNIX address can hold; no two
  devices, of one file or of two, share an LFDI, which is 40 hexadecimal digits in upper case; no two devices drive the same
  simulator object of a fleet; and every device belongs to a supervised fleet.\<close>

theorem manager_keeps_fleets_apart:
  assumes "NewManager fs env cfg = Inr (Some m)"
  shows "mcRole cfg = AggregatorRole \<and> distinct (map scFleet (mSupervisors m)) \<and> distinct (map SocketPath (mSupervisors m)) \<and>
    (\<forall>s\<in>set (mSupervisors m). length (SocketPath s) \<le> 107) \<and>
    distinct (map (fdLFDI \<circ> snd) (mDevices m)) \<and>
    (\<forall>x\<in>set (mDevices m). hex40 (fdLFDI (snd x)) \<and> toUpper (fdLFDI (snd x)) = fdLFDI (snd x)) \<and>
    distinct (map (\<lambda>x. (fst x, inverterObj (snd x))) (mDevices m)) \<and>
    set (map fst (mDevices m)) \<subseteq> set (map scFleet (mSupervisors m))"
proof -
  obtain cfg' where r: "mcRole cfg = AggregatorRole" and b: "buildFleets fs env cfg' (mcFleetFiles cfg) [] [] = Inr m"
    using assms by (auto simp: NewManager_def Let_def split: if_splits option.splits sum.splits)
  note B = buildFleets_ok [OF b]
  have "map SocketPath (mSupervisors m) = map (\<lambda>n. joinPath (mcRunDir cfg') (n @ ''.sock'')) (map scFleet (mSupervisors m))"
    using B by simp
  moreover have "distinct (map scFleet (mSupervisors m))" using B by (simp add: manager_ok_def)
  ultimately have "distinct (map SocketPath (mSupervisors m))"
    by (simp only: distinct_map) (simp add: inj_on_def joinPath_inj)
  then show ?thesis using B r by (auto simp: manager_ok_def maxSocketPathLen_def)
qed

definition demoDevice :: "char \<Rightarrow> DeviceEntry" where
  "demoDevice c = \<lparr>deName = ''d'', deLFDI = replicate 40 c, deObjects = [(''inverter'', ''i'')]\<rparr>"

definition demoFleetFile :: "string \<Rightarrow> char \<Rightarrow> FleetFile" where
  "demoFleetFile n c = \<lparr>ffFleet = n, ffVersion = ''1'', ffPEN = [], ffGLM = ''g'', ffDevices = [demoDevice c], ffMeter = [],
     ffInterpreter = [], ffPath = []\<rparr>"

definition demoFS :: fileSystem where
  "demoFS = \<lparr>fsAbs = Some, fsFleetFile = (\<lambda>p. if p = ''/x'' then Some (demoFleetFile ''X'' (CHR ''a''))
       else Some (demoFleetFile ''Y'' (CHR ''b''))), fsStat = Map.empty, fsLstat = (\<lambda>_. NotExist), fsMkdir = (\<lambda>_. True)\<rparr>"

definition demoManagerConfig :: ManagerConfig where
  "demoManagerConfig = \<lparr>mcRole = AggregatorRole, mcFleetFiles = [''/x'', ''/y''], mcRunDir = ''/r'', mcCommand = None, mcEnv = None,
     mcTiming = \<lparr>scFleet = [], SocketPath = [], FleetFilePath = [], Command = None, scEnv = None, StartTimeout = 0, CallTimeout = 0,
       StopGrace = 0, BackoffMin = 0, BackoffMax = 0, MaxRestarts = 0, RestartWindow = 0\<rparr>\<rparr>"

lemma demo_codes: "code (CHR ''a'') = 97" "code (CHR ''b'') = 98" "code (CHR ''X'') = 88" "code (CHR ''Y'') = 89"
  "upperChar (CHR ''a'') = CHR ''A''" "upperChar (CHR ''b'') = CHR ''B''" "upperChar (CHR ''A'') = CHR ''A''" "upperChar (CHR ''B'') = CHR ''B''"
  by (simp_all add: code_def upperChar_def Let_def char_of_def bit_0)

lemma demo_load:
  assumes "c \<in> {CHR ''a'', CHR ''b''}" "n \<in> {''X'', ''Y''}" "fsFleetFile demoFS p = Some (demoFleetFile n c)"
  shows "LoadFleetFile demoFS p =
    Inr (demoFleetFile n c\<lparr>ffPath := p, ffDevices := [demoDevice c\<lparr>deLFDI := replicate 40 (upperChar c)\<rparr>]\<rparr>)"
proof -
  have "hex40 (replicate 40 c)" using assms(1) demo_codes by (auto simp: hex40_def isHexChar_def list_all_iff)
  moreover have "safeFleetName n" using assms(2) demo_codes by (auto simp: safeFleetName_def isNameChar_def)
  ultimately have "Validate demoFS (demoFleetFile n c\<lparr>ffPath := p\<rparr>) = None"
    using assms(2) by (auto simp: Validate_def demoFleetFile_def demoDevice_def)
  then show ?thesis using assms(3)
    by (simp add: LoadFleetFile_def demoFS_def demoFleetFile_def demoDevice_def toUpper_def Let_def map_replicate_const)
qed

lemma demo_manager:
  "\<exists>m. NewManager demoFS Map.empty (demoManagerConfig\<lparr>mcEnv := e\<rparr>) = Inr (Some m) \<and> length (mDevices m) = 2 \<and>
     map scFleet (mSupervisors m) = [''X'', ''Y'']"
proof -
  have "LoadFleetFile demoFS ''/x'' =
      Inr (demoFleetFile ''X'' (CHR ''a'')\<lparr>ffPath := ''/x'', ffDevices := [demoDevice (CHR ''a'')\<lparr>deLFDI := replicate 40 (CHR ''A'')\<rparr>]\<rparr>)"
    using demo_load [of "CHR ''a''" "''X''" "''/x''"] by (simp add: demo_codes demoFS_def)
  moreover have "LoadFleetFile demoFS ''/y'' =
      Inr (demoFleetFile ''Y'' (CHR ''b'')\<lparr>ffPath := ''/y'', ffDevices := [demoDevice (CHR ''b'')\<lparr>deLFDI := replicate 40 (CHR ''B'')\<rparr>]\<rparr>)"
    using demo_load [of "CHR ''b''" "''Y''" "''/y''"] by (simp add: demo_codes demoFS_def)
  moreover have "replicate 40 (CHR ''A'') \<noteq> replicate 40 (CHR ''B'')" by simp
  ultimately show ?thesis
    by (simp add: NewManager_def demoManagerConfig_def demoFleetFile_def demoDevice_def toUpper_def demo_codes joinPath_def
        maxSocketPathLen_def NewFleetDevice_def defaultFleetMeterObject_def prepareRunDir_def demoFS_def [THEN arg_cong, of fsAbs]
        demoFS_def [THEN arg_cong, of fsLstat] demoFS_def [THEN arg_cong, of fsMkdir] supervisorFor_simps Let_def)
qed

theorem manager_keeps_fleets_apart_witness:
  "\<exists>m. NewManager demoFS Map.empty demoManagerConfig = Inr (Some m) \<and> length (mDevices m) = 2 \<and> distinct (map SocketPath (mSupervisors m))"
proof -
  have "demoManagerConfig\<lparr>mcEnv := None\<rparr> = demoManagerConfig" by (simp add: demoManagerConfig_def)
  then show ?thesis using demo_manager [of None] manager_keeps_fleets_apart by fastforce
qed

end
