(* ===== verification/Controller.thy ===== *)
theory Controller
  imports Curves
begin

text \<open>
  \<open>internal/inverter/controller.go\<close>: what a control base makes of the available power, in the
  priority order of IEEE 1547 section 4.7, and the refusal of a base the device cannot honor;
  \<open>controlApplier\<close> and \<open>controlValidator\<close> of \<open>cmd/inverterclient/control_refusal.go\<close>. The two
  \<open>CurveType\<close> constants belong to the core module and are parameters. A panic of
  \<open>EvaluateCurve\<close> is None.
\<close>

section \<open>Ratings and refusals\<close>

record Ratings =
  SetMaxW :: f64
  SetMaxVar :: f64
  StatVarAvail :: "f64 option"

definition percentFullScale :: f64 where
  "percentFullScale = 10000"

definition fixedVarVAr :: "FixedVar \<Rightarrow> Ratings \<Rightarrow> ctlError + f64" where
  "fixedVarVAr fv r =
     (let scaled = (\<lambda>basis. Inr (ofInt (fvValue fv) div percentFullScale * basis)) in
      if RefType fv = 1 then
        (if SetMaxW r \<le> 0 then Inl (ErrFixedVarRefused 1) else scaled (SetMaxW r))
      else if RefType fv = 2 then
        (if SetMaxVar r \<le> 0 then Inl (ErrFixedVarRefused 2) else scaled (SetMaxVar r))
      else if RefType fv = 3 then
        (case StatVarAvail r of
           None \<Rightarrow> Inl (ErrFixedVarRefused 3)
         | Some v \<Rightarrow> if v < 0 then Inl (ErrFixedVarRefused 3) else scaled v)
      else Inl (ErrFixedVarRefused (RefType fv)))"

definition CheckControl :: "DERControlBase option \<Rightarrow> Ratings \<Rightarrow> ctlError option" where
  "CheckControl base r =
     (case base of
        None \<Rightarrow> None
      | Some b \<Rightarrow>
          (case OpModFixedVar b of
             None \<Rightarrow> None
           | Some fv \<Rightarrow> (case fixedVarVAr fv r of Inl err \<Rightarrow> Some err | Inr _ \<Rightarrow> None)))"

definition lookupCurveOrDefault :: "DERCurveCache option \<Rightarrow> 8 word \<Rightarrow> CurvePoint list \<Rightarrow> CurvePoint list" where
  "lookupCurveOrDefault cache curveType fallback =
     (case cache of
        None \<Rightarrow> fallback
      | Some c \<Rightarrow>
          (case curveLookup c curveType of
             Some points \<Rightarrow> if points \<noteq> [] then points else fallback
           | None \<Rightarrow> fallback))"

definition tanFromPF :: "f64 \<Rightarrow> f64" where
  "tanFromPF pf =
     (if 1 \<le> pf then 0
      else let sinSq = 1 - pf * pf in if sinSq \<le> 0 then 0 else fsqrt sinSq div pf)"

section \<open>Applying a base\<close>

record CurveTypes =
  CurveTypeOpModVoltVar :: "8 word"
  CurveTypeOpModVoltWatt :: "8 word"

text \<open>Priority c: volt-watt under the guard of the volt-var mode.\<close>

definition applyVoltWatt ::
    "Nameplate \<Rightarrow> CurveTypes \<Rightarrow> DERControlBase \<Rightarrow> GridState \<Rightarrow> DERCurveCache option \<Rightarrow> ControlOutputs \<Rightarrow> ControlOutputs option" where
  "applyVoltWatt rt ct base grid curves out =
     (if OpModVoltVar base = None then Some out
      else
        case EvaluateCurve (lookupCurveOrDefault curves (CurveTypeOpModVoltWatt ct) VoltWattDefaultCurve) (VoltsPU grid) of
          None \<Rightarrow> None
        | Some pFraction \<Rightarrow>
            let voltWattLimit = pFraction * RatedW rt in
            Some (if voltWattLimit < ActivePowerW out
                  then out\<lparr>ActivePowerW := voltWattLimit, Mode := ModeVoltWatt\<rparr> else out))"

definition applyFreqDroop :: "Nameplate \<Rightarrow> DERControlBase \<Rightarrow> GridState \<Rightarrow> ControlOutputs \<Rightarrow> ControlOutputs" where
  "applyFreqDroop rt base grid out =
     (case OpModFreqDroop base of
        None \<Rightarrow> out
      | Some kOF \<Rightarrow>
          let droopPct = ofInt kOF div 10;
              droopPct = (if droopPct \<le> 0 then DefaultDroopPct else droopPct);
              adjustedP = FreqDroop (FreqHz grid) (NominalHz rt) droopPct (ActivePowerW out) (RatedW rt)
          in if adjustedP < ActivePowerW out
             then out\<lparr>ActivePowerW := adjustedP, Mode := ModeFreqDroop\<rparr> else out)"

text \<open>Priority d: the limits and the fixed set points on active power.\<close>

definition applyActive :: "DERControlBase \<Rightarrow> Ratings \<Rightarrow> ControlOutputs \<Rightarrow> ControlOutputs" where
  "applyActive base ratings out =
     (let out = (case OpModMaxLimW base of
            None \<Rightarrow> out
          | Some v \<Rightarrow>
              let limitW = ofInt v div percentFullScale * SetMaxW ratings in
              if limitW < ActivePowerW out then out\<lparr>ActivePowerW := limitW\<rparr> else out);
          out = (case OpModFixedW base of
            None \<Rightarrow> out
          | Some v \<Rightarrow> out\<lparr>ActivePowerW := ofInt v div percentFullScale * SetMaxW ratings\<rparr>)
      in case OpModTargetW base of
           None \<Rightarrow> out
         | Some p \<Rightarrow> out\<lparr>ActivePowerW := ofInt (apValue p) * pow10 (apMultiplier p)\<rparr>)"

text \<open>Priority e: the reactive modes, of which the first that is set applies.\<close>

definition applyFixedPF :: "bool \<Rightarrow> int \<Rightarrow> ControlOutputs \<Rightarrow> ControlOutputs" where
  "applyFixedPF absorb displacement out =
     (let pf = ofInt displacement div 1000;
          out = (if 0 < pf \<and> pf \<le> 1 \<and> 0 < ActivePowerW out then
                   out\<lparr>ReactivePowerVAr := (if absorb then - ActivePowerW out * tanFromPF pf
                                             else ActivePowerW out * tanFromPF pf)\<rparr>
                 else out)
      in out\<lparr>Mode := ModeConstantPF\<rparr>)"

definition applyReactive ::
    "Nameplate \<Rightarrow> CurveTypes \<Rightarrow> DERControlBase \<Rightarrow> GridState \<Rightarrow> DERCurveCache option \<Rightarrow> f64 \<Rightarrow> ControlOutputs \<Rightarrow> ControlOutputs option" where
  "applyReactive rt ct base grid curves fixedVAr out =
     (if OpModVoltVar base \<noteq> None then
        (case EvaluateCurve (lookupCurveOrDefault curves (CurveTypeOpModVoltVar ct) VoltVarDefaultCurve) (VoltsPU grid) of
           None \<Rightarrow> None
         | Some qFraction \<Rightarrow> Some (out\<lparr>ReactivePowerVAr := qFraction * RatedVAr rt, Mode := ModeVoltVar\<rparr>))
      else if OpModFixedVar base \<noteq> None then Some (out\<lparr>ReactivePowerVAr := fixedVAr, Mode := ModeConstantQ\<rparr>)
      else
        case OpModFixedPFAbsorbW base of
          Some d \<Rightarrow> Some (applyFixedPF True d out)
        | None \<Rightarrow>
            (case OpModFixedPFInjectW base of
               Some d \<Rightarrow> Some (applyFixedPF False d out)
             | None \<Rightarrow> Some (out\<lparr>ReactivePowerVAr := 0, Mode := ModeConstantPF\<rparr>)))"

definition startOutputs :: "f64 \<Rightarrow> ControlOutputs" where
  "startOutputs maxPW = zeroOutputs\<lparr>ActivePowerW := maxPW, Connected := True, Energized := True, Mode := ModeConstantPF\<rparr>"

definition ApplyControlsWithCurves ::
    "Nameplate \<Rightarrow> CurveTypes \<Rightarrow> DERControlBase option \<Rightarrow> GridState \<Rightarrow> f64 \<Rightarrow> Ratings \<Rightarrow> DERCurveCache option \<Rightarrow> ControlOutputs option" where
  "ApplyControlsWithCurves rt ct base grid maxPW ratings curves =
     (case base of
        None \<Rightarrow> Some (startOutputs maxPW)
      | Some b \<Rightarrow>
          (case (case OpModFixedVar b of None \<Rightarrow> Inr 0 | Some fv \<Rightarrow> fixedVarVAr fv ratings) of
             Inl err \<Rightarrow> Some (zeroOutputs\<lparr>Refused := Some err\<rparr>)
           | Inr fixedVAr \<Rightarrow>
               if OpModConnect b = Some False then Some (zeroOutputs\<lparr>Mode := ModeDisconnected\<rparr>)
               else if OpModEnergize b = Some False then
                 Some (zeroOutputs\<lparr>Connected := True, Mode := ModeDisconnected\<rparr>)
               else
                 case applyVoltWatt rt ct b grid curves (startOutputs maxPW) of
                   None \<Rightarrow> None
                 | Some out \<Rightarrow>
                     applyReactive rt ct b grid curves fixedVAr (applyActive b ratings (applyFreqDroop rt b grid out))))"

definition ApplyControls ::
    "Nameplate \<Rightarrow> CurveTypes \<Rightarrow> DERControlBase option \<Rightarrow> GridState \<Rightarrow> f64 \<Rightarrow> Ratings \<Rightarrow> ControlOutputs option" where
  "ApplyControls rt ct base grid maxPW ratings = ApplyControlsWithCurves rt ct base grid maxPW ratings None"

section \<open>The applier of the simulation loop\<close>

record refusalLog =
  lastMsg :: string

text \<open>\<open>observe\<close> returns the line it logs, if any; \<open>who\<close> and \<open>msg\<close> are formatted as \<open>who: msg\<close>.\<close>

definition observe :: "refusalLog \<Rightarrow> string \<Rightarrow> string \<Rightarrow> refusalLog \<times> string list" where
  "observe l who msg =
     (if msg = lastMsg l then (l, [])
      else (l\<lparr>lastMsg := msg\<rparr>,
        if msg \<noteq> [] then [who @ '': '' @ msg]
        else if lastMsg l \<noteq> [] then [who @ '': control no longer refused''] else []))"

text \<open>The texts of the refusals.\<close>

fun errText :: "ctlError \<Rightarrow> string" where
  "errText (ErrDecode s) = s"
| "errText (ErrFixedVarRefused n) = ''opModFixedVar refused: refType '' @
     (if n = 1 then ''1 (%setMaxW) but the device has no setMaxW''
      else if n = 2 then ''2 (%setMaxVar) but the device has no setMaxVar''
      else if n = 3 then ''3 (%statVarAvail) but the device has no valid statVarAvail''
      else itoa n @ '' is not %setMaxW, %setMaxVar or %statVarAvail'')"

text \<open>
  \<open>isDefault\<close> says that the base is the very object the default control points to, which the
  code tests by comparing pointers.
\<close>

definition applyControl ::
    "Nameplate \<Rightarrow> CurveTypes \<Rightarrow> refusalLog \<Rightarrow> string \<Rightarrow> DERControlBase option \<Rightarrow> bool \<Rightarrow> DefaultDERControl option \<Rightarrow>
     GridState \<Rightarrow> f64 \<Rightarrow> Ratings \<Rightarrow> DERCurveCache option \<Rightarrow> (refusalLog \<times> string list \<times> ControlOutputs) option" where
  "applyControl rt ct l who base isDefault defaultCtl grid maxPW ratings curves =
     (case ApplyControlsWithCurves rt ct base grid maxPW ratings curves of
        None \<Rightarrow> None
      | Some out \<Rightarrow>
          (case Refused out of
             None \<Rightarrow> (let (l, lines) = observe l who [] in Some (l, lines, out))
           | Some err \<Rightarrow>
               let fallback =
                 (\<lambda>_::unit. case ApplyControlsWithCurves rt ct None grid maxPW ratings curves of
                    None \<Rightarrow> None
                  | Some o' \<Rightarrow>
                      (let (l, lines) = observe l who (''control refused: '' @ errText err @ ''; applying no control'')
                       in Some (l, lines, o')))
               in
                 case (case defaultCtl of None \<Rightarrow> None | Some d \<Rightarrow> ddcBase d) of
                   None \<Rightarrow> fallback ()
                 | Some d \<Rightarrow>
                     if isDefault then fallback ()
                     else
                       (case ApplyControlsWithCurves rt ct (Some d) grid maxPW ratings curves of
                          None \<Rightarrow> None
                        | Some def \<Rightarrow>
                            if Refused def = None then
                              (let (l, lines) = observe l who
                                   (''control refused: '' @ errText err @ ''; applying the default control'')
                               in Some (l, lines, def))
                            else fallback ())))"

definition controlValidator :: "Ratings \<Rightarrow> DERControl \<Rightarrow> ctlError option" where
  "controlValidator ratings evt = CheckControl (ControlBase evt) ratings"

section \<open>Facts about the outputs\<close>

lemma applyVoltWatt_frame:
  "applyVoltWatt rt ct b g c out = Some out' \<Longrightarrow> Connected out' = Connected out \<and> Energized out' = Energized out \<and>
     Refused out' = Refused out \<and> ReactivePowerVAr out' = ReactivePowerVAr out \<and>
     (ActivePowerW out' = ActivePowerW out \<or> ActivePowerW out' < ActivePowerW out)"
  by (auto simp: applyVoltWatt_def Let_def split: if_splits option.splits)

lemma applyFreqDroop_frame:
  "Connected (applyFreqDroop rt b g out) = Connected out \<and> Energized (applyFreqDroop rt b g out) = Energized out \<and>
   Refused (applyFreqDroop rt b g out) = Refused out \<and> ReactivePowerVAr (applyFreqDroop rt b g out) = ReactivePowerVAr out \<and>
   (ActivePowerW (applyFreqDroop rt b g out) = ActivePowerW out \<or> ActivePowerW (applyFreqDroop rt b g out) < ActivePowerW out)"
  by (auto simp: applyFreqDroop_def Let_def split: option.splits)

lemma applyActive_frame:
  "Connected (applyActive b r out) = Connected out \<and> Energized (applyActive b r out) = Energized out \<and>
   Refused (applyActive b r out) = Refused out \<and> ReactivePowerVAr (applyActive b r out) = ReactivePowerVAr out \<and>
   Mode (applyActive b r out) = Mode out"
  by (auto simp: applyActive_def Let_def split: option.splits)

lemma applyReactive_frame:
  "applyReactive rt ct b g c q out = Some out' \<Longrightarrow> Connected out' = Connected out \<and> Energized out' = Energized out \<and>
     Refused out' = Refused out \<and> ActivePowerW out' = ActivePowerW out"
  by (auto simp: applyReactive_def applyFixedPF_def Let_def split: if_splits option.splits)

text \<open>The whole run of an admissible base, taken apart.\<close>

lemma Apply_parts:
  assumes "ApplyControlsWithCurves rt ct (Some b) g p r c = Some out" "Refused out = None"
    and "OpModConnect b \<noteq> Some False" "OpModEnergize b \<noteq> Some False"
  obtains q o1 where "(case OpModFixedVar b of None \<Rightarrow> Inr 0 | Some fv \<Rightarrow> fixedVarVAr fv r) = Inr q"
    "applyVoltWatt rt ct b g c (startOutputs p) = Some o1"
    "applyReactive rt ct b g c q (applyActive b r (applyFreqDroop rt b g o1)) = Some out"
  using assms by (auto simp: ApplyControlsWithCurves_def split: sum.splits option.splits)

lemma Apply_refused:
  assumes "ApplyControlsWithCurves rt ct base g p r c = Some out"
  shows "Refused out = CheckControl base r"
proof (cases base)
  case None
  then show ?thesis using assms by (auto simp: ApplyControlsWithCurves_def CheckControl_def startOutputs_def zeroOutputs_def)
next
  case (Some b)
  show ?thesis
  proof (cases "(case OpModFixedVar b of None \<Rightarrow> Inr 0 | Some fv \<Rightarrow> fixedVarVAr fv r)")
    case (Inl err)
    then show ?thesis using assms Some
      by (auto simp: ApplyControlsWithCurves_def CheckControl_def split: option.splits)
  next
    case (Inr q)
    then have c: "CheckControl base r = None" using Some by (auto simp: CheckControl_def split: option.splits)
    have "Refused out = None"
      using assms Some Inr applyReactive_frame applyActive_frame applyFreqDroop_frame applyVoltWatt_frame
      by (fastforce simp: ApplyControlsWithCurves_def startOutputs_def zeroOutputs_def split: option.splits if_splits)
    with c show ?thesis by simp
  qed
qed

lemma f64_less_trans: "a < b \<Longrightarrow> b < c \<Longrightarrow> a < (c::f64)"
  by (cases a; cases b; cases c) auto

lemma Apply_power_le:
  assumes "ApplyControlsWithCurves rt ct (Some b) g p r c = Some out"
    and "OpModFixedW b = None" "OpModTargetW b = None" "Refused out = None"
    and "OpModConnect b \<noteq> Some False" "OpModEnergize b \<noteq> Some False"
  shows "ActivePowerW out = p \<or> ActivePowerW out < p"
    and "OpModMaxLimW b = Some v \<Longrightarrow> \<not> ofInt v div percentFullScale * SetMaxW r < ActivePowerW out"
proof -
  obtain q o1 where a: "applyVoltWatt rt ct b g c (startOutputs p) = Some o1"
    "applyReactive rt ct b g c q (applyActive b r (applyFreqDroop rt b g o1)) = Some out"
    using Apply_parts [OF assms(1,4-6)] by metis
  let ?o2 = "applyFreqDroop rt b g o1"
  have e: "ActivePowerW out = ActivePowerW (applyActive b r ?o2)" using applyReactive_frame [OF a(2)] by simp
  have "ActivePowerW (startOutputs p) = p" by (simp add: startOutputs_def)
  then have "ActivePowerW ?o2 = p \<or> ActivePowerW ?o2 < p"
    using applyVoltWatt_frame [OF a(1)] applyFreqDroop_frame [of rt b g o1] f64_less_trans by metis
  moreover have "ActivePowerW (applyActive b r ?o2) = ActivePowerW ?o2 \<or>
      ActivePowerW (applyActive b r ?o2) < ActivePowerW ?o2"
    using assms(2,3) by (auto simp: applyActive_def Let_def split: option.splits)
  ultimately show "ActivePowerW out = p \<or> ActivePowerW out < p" using e f64_less_trans by metis
  show "\<not> ofInt v div percentFullScale * SetMaxW r < ActivePowerW out" if "OpModMaxLimW b = Some v"
  proof -
    have irr: "\<not> x < x" for x :: f64 by (cases x) auto
    show ?thesis unfolding e using that assms(2,3) irr by (auto simp: applyActive_def Let_def)
  qed
qed

lemma default_curves_finite:
  "finite_curve VoltVarDefaultCurve" "VoltVarDefaultCurve \<noteq> []"
  "finite_curve VoltWattDefaultCurve" "VoltWattDefaultCurve \<noteq> []"
  by (simp_all add: finite_curve_def VoltVarDefaultCurve_def VoltWattDefaultCurve_def)

lemma tanFromPF_Fin:
  assumes "0 < pf" "pf \<le> 1"
  shows "tanFromPF (Fin pf) = Fin (sqrt (1 - pf\<^sup>2) / pf)"
proof (cases "pf = 1")
  case True
  then show ?thesis by (simp add: tanFromPF_def)
next
  case False
  then have "pf\<^sup>2 < 1" using assms by (simp add: power_less_one_iff)
  then show ?thesis using assms False by (simp add: tanFromPF_def Let_def power2_eq_square)
qed

section \<open>Properties\<close>

text \<open>The cache holds finite points only, as every fetched cache does.\<close>

definition curves_ok :: "DERCurveCache option \<Rightarrow> bool" where
  "curves_ok c \<longleftrightarrow> (\<forall>m t ps. c = Some m \<longrightarrow> m t = Some ps \<longrightarrow> finite_curve ps)"

lemma curves_ok_None [simp]: "curves_ok None"
  by (simp add: curves_ok_def)

lemma curves_ok_fetched:
  "curves_ok (Some c) \<Longrightarrow> fetchProgramCurves get href (Some c) = Inr c' \<Longrightarrow> curves_ok (Some c')"
  by (auto simp: curves_ok_def fetchProgramCurves_def fetched_lookup finite_curve_MapCurveData
      split: if_splits sum.splits option.splits)

lemma lookupCurve_finite:
  "curves_ok c \<Longrightarrow> finite_curve d \<Longrightarrow> d \<noteq> [] \<Longrightarrow>
     finite_curve (lookupCurveOrDefault c t d) \<and> lookupCurveOrDefault c t d \<noteq> []"
  by (auto simp: lookupCurveOrDefault_def curveLookup_def curves_ok_def split: option.splits)

lemma curve_value:
  assumes "curves_ok c" "finite_curve d" "d \<noteq> []"
  shows "\<exists>y. EvaluateCurve (lookupCurveOrDefault c t d) (Fin v) = Some (Fin y)"
  using EvaluateCurve_finite lookupCurve_finite [OF assms] by blast

lemma applyVoltWatt_total:
  "VoltsPU g = Fin v \<Longrightarrow> curves_ok c \<Longrightarrow> \<exists>o1. applyVoltWatt rt ct b g c out = Some o1"
  using curve_value [of c VoltWattDefaultCurve "CurveTypeOpModVoltWatt ct" v] default_curves_finite
  by (auto simp: applyVoltWatt_def Let_def)

lemma applyReactive_total:
  "VoltsPU g = Fin v \<Longrightarrow> curves_ok c \<Longrightarrow> \<exists>o1. applyReactive rt ct b g c q out = Some o1"
  using curve_value [of c VoltVarDefaultCurve "CurveTypeOpModVoltVar ct" v] default_curves_finite
  by (auto simp: applyReactive_def split: option.split)

lemma Apply_total:
  assumes "VoltsPU g = Fin v" "curves_ok c"
  shows "\<exists>out. ApplyControlsWithCurves rt ct base g p r c = Some out"
proof (cases base)
  case None
  then show ?thesis by (simp add: ApplyControlsWithCurves_def)
next
  case (Some b)
  obtain o1 where o1: "applyVoltWatt rt ct b g c (startOutputs p) = Some o1"
    using applyVoltWatt_total [OF assms] by blast
  show ?thesis
  proof (cases "(case OpModFixedVar b of None \<Rightarrow> Inr 0 | Some fv \<Rightarrow> fixedVarVAr fv r)")
    case (Inl err)
    then show ?thesis using Some by (simp add: ApplyControlsWithCurves_def)
  next
    case (Inr q)
    obtain o2 where "applyReactive rt ct b g c q (applyActive b r (applyFreqDroop rt b g o1)) = Some o2"
      using applyReactive_total [OF assms] by blast
    then show ?thesis using Some Inr o1 by (simp add: ApplyControlsWithCurves_def)
  qed
qed

text \<open>C6: With a finite voltage reading and fetched curves the control function never panics; it refuses
  a base exactly when the receipt check \<open>CheckControl\<close> does, and with the same reason; and a base that
  is refused, disconnected or de-energized yields no power at all, whatever else it asks for.\<close>

theorem controls_total_and_refused_alike:
  assumes "VoltsPU grid = Fin v" "curves_ok curves"
  shows "\<exists>out. ApplyControlsWithCurves rt ct base grid maxPW r curves = Some out \<and>
    Refused out = CheckControl base r \<and>
    (Refused out \<noteq> None \<or> (\<exists>b. base = Some b \<and> (OpModConnect b = Some False \<or> OpModEnergize b = Some False)) \<longrightarrow>
       ActivePowerW out = 0 \<and> ReactivePowerVAr out = 0 \<and> \<not> Energized out) \<and>
    (Refused out = None \<longrightarrow> (Connected out \<longleftrightarrow> \<not> (\<exists>b. base = Some b \<and> OpModConnect b = Some False)))"
proof -
  obtain out where out: "ApplyControlsWithCurves rt ct base grid maxPW r curves = Some out"
    using Apply_total [OF assms] by blast
  have off: "ActivePowerW out = 0 \<and> ReactivePowerVAr out = 0 \<and> \<not> Energized out"
    if cond: "Refused out \<noteq> None \<or> (\<exists>b. base = Some b \<and> (OpModConnect b = Some False \<or> OpModEnergize b = Some False))"
  proof (cases "Refused out = None")
    case False
    then have "CheckControl base r \<noteq> None" using Apply_refused [OF out] by simp
    then show ?thesis using out
      by (auto simp: ApplyControlsWithCurves_def CheckControl_def zeroOutputs_def split: option.splits sum.splits)
  next
    case True
    then obtain b where "base = Some b" "OpModConnect b = Some False \<or> OpModEnergize b = Some False" using cond by blast
    then show ?thesis using out
      by (auto simp: ApplyControlsWithCurves_def zeroOutputs_def split: option.splits sum.splits if_splits)
  qed
  have "Connected out \<longleftrightarrow> \<not> (\<exists>b. base = Some b \<and> OpModConnect b = Some False)" if "Refused out = None"
  proof (cases "\<exists>b. base = Some b \<and> OpModConnect b \<noteq> Some False \<and> OpModEnergize b \<noteq> Some False")
    case True
    then obtain b where b: "base = Some b" "OpModConnect b \<noteq> Some False" "OpModEnergize b \<noteq> Some False" by blast
    from Apply_parts [OF out [unfolded b(1)] that b(2,3)] obtain q o1 where
      "applyVoltWatt rt ct b grid curves (startOutputs maxPW) = Some o1"
      "applyReactive rt ct b grid curves q (applyActive b r (applyFreqDroop rt b grid o1)) = Some out" by metis
    then have "Connected out = Connected (startOutputs maxPW)"
      using applyVoltWatt_frame applyFreqDroop_frame applyActive_frame applyReactive_frame by metis
    then show ?thesis using b by (simp add: startOutputs_def)
  next
    case False
    then show ?thesis using out that
      by (cases base) (auto simp: ApplyControlsWithCurves_def startOutputs_def zeroOutputs_def split: sum.splits option.splits)
  qed
  with out impI [OF off] Apply_refused [OF out] show ?thesis by (intro exI [of _ out] conjI; blast)
qed

definition demoGrid :: GridState where
  "demoGrid = \<lparr>VoltsPU = Fin 1.05, FreqHz = Fin 60, Time = 0\<rparr>"

definition demoRatings :: Ratings where
  "demoRatings = \<lparr>SetMaxW = Fin 10000, SetMaxVar = Fin 4400, StatVarAvail = None\<rparr>"

definition demoTypes :: CurveTypes where
  "demoTypes = \<lparr>CurveTypeOpModVoltVar = 0, CurveTypeOpModVoltWatt = 3\<rparr>"

theorem controls_total_and_refused_alike_witness:
  "\<exists>out. ApplyControlsWithCurves defaultRating demoTypes
      (Some (emptyBase\<lparr>OpModFixedVar := Some \<lparr>RefType = 3, fvValue = 100\<rparr>\<rparr>)) demoGrid 5000 demoRatings None = Some out \<and>
    Refused out = Some (ErrFixedVarRefused 3) \<and> \<not> Energized out"
proof -
  have "VoltsPU demoGrid = Fin 1.05" by (simp add: demoGrid_def)
  from controls_total_and_refused_alike [OF this curves_ok_None, of defaultRating demoTypes
      "Some (emptyBase\<lparr>OpModFixedVar := Some \<lparr>RefType = 3, fvValue = 100\<rparr>\<rparr>)" 5000 demoRatings]
  show ?thesis by (auto simp: CheckControl_def fixedVarVAr_def demoRatings_def Let_def)
qed

text \<open>C7: No mode but an explicit set point raises the output above the available power, and a maximum
  limit holds whatever curve or droop ran before it.\<close>

theorem power_within_limits:
  assumes "ApplyControlsWithCurves rt ct (Some b) grid maxPW r curves = Some out"
    and "OpModFixedW b = None" "OpModTargetW b = None" "Refused out = None"
    and "OpModConnect b \<noteq> Some False" "OpModEnergize b \<noteq> Some False"
  shows "(ActivePowerW out = maxPW \<or> ActivePowerW out < maxPW) \<and>
    (\<forall>v. OpModMaxLimW b = Some v \<longrightarrow> \<not> ofInt v div percentFullScale * SetMaxW r < ActivePowerW out)"
  using Apply_power_le [OF assms] by blast

theorem power_within_limits_witness:
  "\<exists>out. ApplyControlsWithCurves defaultRating demoTypes (Some (emptyBase\<lparr>OpModMaxLimW := Some 2500\<rparr>)) demoGrid 5000 demoRatings None = Some out \<and>
    ActivePowerW out = Fin 2500 \<and> \<not> Fin 2500 < ActivePowerW out"
proof -
  let ?b = "emptyBase\<lparr>OpModMaxLimW := Some 2500\<rparr>"
  obtain out where out: "ApplyControlsWithCurves defaultRating demoTypes (Some ?b) demoGrid 5000 demoRatings None = Some out"
    "ActivePowerW out = Fin 2500" "Refused out = None"
    by (simp add: ApplyControlsWithCurves_def emptyBase_def applyVoltWatt_def applyFreqDroop_def applyActive_def
        applyReactive_def startOutputs_def zeroOutputs_def demoRatings_def percentFullScale_def Let_def)
  have "OpModFixedW ?b = None" "OpModTargetW ?b = None" "OpModConnect ?b \<noteq> Some False" "OpModEnergize ?b \<noteq> Some False"
    "OpModMaxLimW ?b = Some 2500" by (simp_all add: emptyBase_def)
  with power_within_limits [OF out(1)] out show ?thesis by (auto simp: percentFullScale_def demoRatings_def)
qed

text \<open>A fixed power factor is honored exactly: for a positive active power the reactive power the
  base asks for makes P over S the requested factor, absorbing for one mode and injecting for the other.\<close>

theorem fixed_pf_exact:
  assumes "0 < d" "d \<le> 1000" "ActivePowerW o1 = Fin p" "0 < p"
  shows "\<exists>q. ReactivePowerVAr (applyFixedPF absorb d o1) = Fin q \<and> (if absorb then q \<le> 0 else 0 \<le> q) \<and>
    p = (real_of_int d / 1000) * sqrt (p\<^sup>2 + q\<^sup>2)"
proof -
  define pf where "pf = real_of_int d / 1000"
  have pf: "0 < pf" "pf \<le> 1" using assms(1,2) by (auto simp: pf_def)
  have le: "pf\<^sup>2 \<le> 1" using pf by (simp add: power_le_one)
  define q where "q = p * (sqrt (1 - pf\<^sup>2) / pf)"
  have "q\<^sup>2 = p\<^sup>2 * (1 - pf\<^sup>2) / pf\<^sup>2" using le by (simp add: q_def power_mult_distrib power_divide)
  then have "p\<^sup>2 + q\<^sup>2 = p\<^sup>2 / pf\<^sup>2" using pf by (simp add: field_simps)
  then have s: "sqrt (p\<^sup>2 + q\<^sup>2) = p / pf" using assms(4) pf by (simp add: real_sqrt_divide)
  have "0 \<le> q" using assms(4) pf le by (simp add: q_def)
  moreover have "ReactivePowerVAr (applyFixedPF absorb d o1) = Fin (if absorb then - q else q)"
    using pf assms(3,4) tanFromPF_Fin [OF pf] by (simp add: applyFixedPF_def Let_def q_def pf_def [symmetric])
  ultimately show ?thesis using s pf by (auto simp: pf_def [symmetric])
qed

theorem fixed_pf_exact_witness:
  "\<exists>q. ReactivePowerVAr (applyFixedPF True 900 (startOutputs 5000)) = Fin q \<and> q \<le> 0"
  using fixed_pf_exact [of 900 "startOutputs 5000" 5000 True] by (auto simp: startOutputs_def)

text \<open>Volt-var reactive power stays inside the reactive capability of the nameplate on the built-in
  curve, and inside any symmetric band that holds the Y values of the curve the server supplied.\<close>

theorem voltvar_within_capability:
  assumes "ApplyControlsWithCurves rt ct (Some b) grid maxPW r curves = Some out"
    and "VoltsPU grid = Fin v" "OpModVoltVar b \<noteq> None" "Refused out = None"
    and "OpModConnect b \<noteq> Some False" "OpModEnergize b \<noteq> Some False"
    and "\<forall>p\<in>set (lookupCurveOrDefault curves (CurveTypeOpModVoltVar ct) VoltVarDefaultCurve).
      isFin (X p) \<and> isFin (Y p) \<and> \<bar>realOf (Y p)\<bar> \<le> m"
    and "rating_ok rt w va var"
  shows "\<exists>q. ReactivePowerVAr out = Fin q \<and> \<bar>q\<bar> \<le> m * var \<and> Mode out = ModeVoltVar"
proof -
  let ?c = "lookupCurveOrDefault curves (CurveTypeOpModVoltVar ct) VoltVarDefaultCurve"
  have ne: "?c \<noteq> []" using default_curves_finite(2) by (auto simp: lookupCurveOrDefault_def split: option.split)
  have fin: "finite_curve ?c" using assms(7) by (auto simp: finite_curve_def list_all_iff)
  have "- m \<le> realOf (Y p) \<and> realOf (Y p) \<le> m" if "p \<in> set ?c" for p
    using assms(7) that by (auto simp: abs_le_iff)
  then obtain y where y: "EvaluateCurve ?c (Fin v) = Some (Fin y)" "- m \<le> y" "y \<le> m"
    using EvaluateCurve_range [OF fin ne, of "- m" m v] by blast
  obtain q o1 where "applyReactive rt ct b grid curves q (applyActive b r (applyFreqDroop rt b grid o1)) = Some out"
    using Apply_parts [OF assms(1,4-6)] by metis
  then have "ReactivePowerVAr out = Fin (y * var)" "Mode out = ModeVoltVar"
    using assms(2,3,8) y(1) by (auto simp: applyReactive_def rating_ok_def)
  moreover have "\<bar>y * var\<bar> \<le> m * var"
    using y(2,3) assms(8) by (auto simp: abs_mult rating_ok_def intro: mult_right_mono)
  ultimately show ?thesis by blast
qed

theorem voltvar_within_capability_witness:
  "\<exists>q. ReactivePowerVAr (the (ApplyControlsWithCurves defaultRating demoTypes (Some (emptyBase\<lparr>OpModVoltVar := Some ''/curve''\<rparr>))
      demoGrid 5000 demoRatings None)) = Fin q \<and> \<bar>q\<bar> \<le> 4400"
proof -
  let ?b = "emptyBase\<lparr>OpModVoltVar := Some ''/curve''\<rparr>"
  have g: "VoltsPU demoGrid = Fin 1.05" by (simp add: demoGrid_def)
  obtain out where out: "ApplyControlsWithCurves defaultRating demoTypes (Some ?b) demoGrid 5000 demoRatings None = Some out"
    using Apply_total [OF g curves_ok_None] by blast
  have "Refused out = None" using Apply_refused [OF out] by (simp add: CheckControl_def emptyBase_def)
  moreover have "\<forall>p\<in>set (lookupCurveOrDefault None (CurveTypeOpModVoltVar demoTypes) VoltVarDefaultCurve).
      isFin (X p) \<and> isFin (Y p) \<and> \<bar>realOf (Y p)\<bar> \<le> 1"
    by (simp add: lookupCurveOrDefault_def VoltVarDefaultCurve_def)
  ultimately have "\<exists>q. ReactivePowerVAr out = Fin q \<and> \<bar>q\<bar> \<le> 1 * 4400 \<and> Mode out = ModeVoltVar"
    by (intro voltvar_within_capability [OF out g _ _ _ _ _ rating_ok_default]) (simp_all add: emptyBase_def)
  with out show ?thesis by auto
qed

text \<open>The simulation loop never applies a refused output: a base the device cannot honor is
  replaced by the default control's base, or by no control when that is missing or refused too, and what
  is applied is then exactly what that other base alone would give.\<close>

theorem applier_never_applies_refused:
  assumes "applyControl rt ct l who base isDefault d grid maxPW r curves = Some (l', lines, out)"
  shows "Refused out = None \<and>
    (if CheckControl base r = None then Some out = ApplyControlsWithCurves rt ct base grid maxPW r curves
     else Some out = ApplyControlsWithCurves rt ct None grid maxPW r curves \<or>
       (\<exists>c b. d = Some c \<and> ddcBase c = Some b \<and> CheckControl (Some b) r = None \<and>
          Some out = ApplyControlsWithCurves rt ct (Some b) grid maxPW r curves))"
proof -
  obtain o1 where o1: "ApplyControlsWithCurves rt ct base grid maxPW r curves = Some o1"
    using assms by (auto simp: applyControl_def split: option.splits)
  have none: "ApplyControlsWithCurves rt ct None grid maxPW r curves = Some (startOutputs maxPW)"
    "Refused (startOutputs maxPW) = None"
    by (simp_all add: ApplyControlsWithCurves_def startOutputs_def zeroOutputs_def)
  show ?thesis
  proof (cases "Refused o1")
    case None
    then have "out = o1" using assms o1 by (auto simp: applyControl_def split: prod.splits)
    then show ?thesis using o1 None Apply_refused [OF o1] by simp
  next
    case (Some err)
    then have c: "CheckControl base r \<noteq> None" using Apply_refused [OF o1] by simp
    have "out = startOutputs maxPW \<or> (\<exists>dc b o2. d = Some dc \<and> ddcBase dc = Some b \<and>
        ApplyControlsWithCurves rt ct (Some b) grid maxPW r curves = Some o2 \<and> Refused o2 = None \<and> out = o2)"
      using assms o1 Some none
      by (auto simp: applyControl_def Let_def split: option.splits prod.splits if_splits)
    then show ?thesis
    proof (elim disjE exE conjE)
      assume "out = startOutputs maxPW"
      then show ?thesis using c none by auto
    next
      fix dc b o2
      assume h: "d = Some dc" "ddcBase dc = Some b" "ApplyControlsWithCurves rt ct (Some b) grid maxPW r curves = Some o2"
        "Refused o2 = None" "out = o2"
      then have "CheckControl (Some b) r = None" using Apply_refused [OF h(3)] by simp
      with h c show ?thesis by auto
    qed
  qed
qed

theorem applier_never_applies_refused_witness:
  "\<exists>l' lines out. applyControl defaultRating demoTypes \<lparr>lastMsg = []\<rparr> ''sim''
      (Some (emptyBase\<lparr>OpModFixedVar := Some \<lparr>RefType = 3, fvValue = 100\<rparr>\<rparr>)) False None demoGrid 5000 demoRatings None
    = Some (l', lines, out) \<and> Refused out = None \<and> length lines = 1"
proof -
  obtain l' lines out where a: "applyControl defaultRating demoTypes \<lparr>lastMsg = []\<rparr> ''sim''
      (Some (emptyBase\<lparr>OpModFixedVar := Some \<lparr>RefType = 3, fvValue = 100\<rparr>\<rparr>)) False None demoGrid 5000 demoRatings None
    = Some (l', lines, out)" "length lines = 1"
    by (simp add: applyControl_def ApplyControlsWithCurves_def fixedVarVAr_def demoRatings_def zeroOutputs_def
        Let_def observe_def)
  from applier_never_applies_refused [OF a(1)] a show ?thesis by blast
qed

end
