(* ===== verification/Reservation.thy ===== *)
theory Reservation
  imports Controller "HOL-Library.AList"
begin

text \<open>
  The pure parts of the aggregator's flow reservation (\<open>cmd/inverterclient/reservation_logic.go\<close>) and
  the dispatcher of \<open>reservation.go\<close>: building a request, judging the list of answers, the fleet's target and its
  split. Energies and powers of a reservation are charging positive, setpoints discharge positive. The notes on how a grant
  was clipped are kept as values instead of text.
\<close>

definition chargingToDER :: "f64 \<Rightarrow> f64" where
  "chargingToDER w = 0 - w"

section \<open>Requests\<close>

record frqSettings =
  fsEnergyWh :: f64
  fsPowerW :: f64
  StartInS :: int
  DurationS :: int
  MinLeadS :: int
  GraceS :: int

record frqOverlay =
  foEnergyWh :: "f64 option"
  foPowerW :: "f64 option"
  foStartInS :: "int option"
  foDurationS :: "int option"

definition noOverlay :: frqOverlay where
  "noOverlay = \<lparr>foEnergyWh = None, foPowerW = None, foStartInS = None, foDurationS = None\<rparr>"

definition applyOverlay :: "frqOverlay \<Rightarrow> frqSettings \<Rightarrow> frqSettings" where
  "applyOverlay ov s =
     (let s = (case foEnergyWh ov of None \<Rightarrow> s | Some x \<Rightarrow> s\<lparr>fsEnergyWh := x\<rparr>);
          s = (case foPowerW ov of None \<Rightarrow> s | Some x \<Rightarrow> s\<lparr>fsPowerW := x\<rparr>);
          s = (case foStartInS ov of None \<Rightarrow> s | Some x \<Rightarrow> s\<lparr>StartInS := x\<rparr>)
      in case foDurationS ov of None \<Rightarrow> s | Some x \<Rightarrow> s\<lparr>DurationS := x\<rparr>)"

text \<open>The request file: absent, unreadable, or its bytes; the decoder refuses unknown keys. The second result is the
  file afterwards.\<close>

datatype requestFile = FileAbsent | FileUnreadable | FileData string

datatype frqErr =
    FrqFile string
  | FrqEnergyZero
  | FrqPowerNotPositive
  | FrqDuration
  | FrqGrace
  | FrqStartTooFar
  | FrqStartTooSoon
  | FrqEnergyFit
  | FrqPowerFit

definition consumeOverlay :: "(string \<Rightarrow> frqOverlay option) \<Rightarrow> requestFile \<Rightarrow> bool \<Rightarrow> (frqErr + frqOverlay) \<times> requestFile" where
  "consumeOverlay dec f removable =
     (case f of
        FileAbsent \<Rightarrow> (Inr noOverlay, FileAbsent)
      | FileUnreadable \<Rightarrow> (Inl (FrqFile ''read''), FileUnreadable)
      | FileData d \<Rightarrow>
          if \<not> removable then (Inl (FrqFile ''delete''), f)
          else (case dec d of None \<Rightarrow> (Inl (FrqFile ''parse''), FileAbsent) | Some ov \<Rightarrow> (Inr ov, FileAbsent)))"

definition maxInt48 :: int where "maxInt48 = 140737488355327"
definition maxInt16 :: int where "maxInt16 = 32767"
definition maxUint32 :: int where "maxUint32 = 4294967295"
definition maxStartInS :: int where "maxStartInS = 2147483647"

record SignedRealEnergy =
  seMultiplier :: int
  seValue :: int

definition signedEnergy :: "f64 \<Rightarrow> frqErr + SignedRealEnergy" where
  "signedEnergy wh =
     (let v = fround wh in
      if isNaN v \<or> fabs v > ofInt maxInt48 then Inl FrqEnergyFit
      else Inr \<lparr>seMultiplier = 0, seValue = toInt64 v\<rparr>)"

text \<open>The loop that moves powers of ten into the multiplier, on \<open>int64\<close> values; Go's division truncates towards zero.\<close>

definition goDiv10 :: "int \<Rightarrow> int" where
  "goDiv10 n = (if n < 0 then - (- n div 10) else n div 10)"

function scaleLoop :: "int \<Rightarrow> int \<Rightarrow> (int \<times> int) option" where
  "scaleLoop n m =
     (if n > maxInt16 \<or> n < - maxInt16 then (if n mod 10 \<noteq> 0 then None else scaleLoop (goDiv10 n) (m + 1))
      else Some (n, m))"
  by auto
termination
proof (relation "measure (\<lambda>(n, m). nat \<bar>n\<bar>)")
  fix n m :: int
  assume "maxInt16 < n \<or> n < - maxInt16" "\<not> n mod 10 \<noteq> 0"
  then have "\<bar>goDiv10 n\<bar> < \<bar>n\<bar>" by (auto simp: goDiv10_def maxInt16_def)
  then show "((goDiv10 n, m + 1), n, m) \<in> measure (\<lambda>(n, m). nat \<bar>n\<bar>)" by simp
qed simp

declare scaleLoop.simps [simp del]

definition activePower :: "f64 \<Rightarrow> frqErr + ActivePower" where
  "activePower w =
     (let v = fround w in
      if isNaN v \<or> fabs v > Fin 1000000000000 then Inl FrqPowerFit
      else (case scaleLoop (toInt64 v) 0 of
              None \<Rightarrow> Inl FrqPowerFit
            | Some (n, m) \<Rightarrow> Inr \<lparr>apMultiplier = m, apValue = n\<rparr>))"

datatype RequestStatusValue = RequestStatusRequested | RequestStatusCancelled

record FlowReservationRequest =
  frqMRID :: string
  frqHref :: string
  frqCreationTime :: int
  EnergyRequested :: "SignedRealEnergy option"
  PowerRequested :: "ActivePower option"
  IntervalRequested :: "DateTimeInterval option"
  rsDateTime :: int
  rsStatus :: RequestStatusValue

definition buildFlowRequest :: "frqSettings \<Rightarrow> time \<Rightarrow> string \<Rightarrow> frqErr + FlowReservationRequest" where
  "buildFlowRequest s now mrid =
     (if feq (fsEnergyWh s) 0 \<or> isNaN (fsEnergyWh s) then Inl FrqEnergyZero
      else if fsPowerW s \<le> 0 \<or> isNaN (fsPowerW s) then Inl FrqPowerNotPositive
      else if DurationS s \<le> 0 \<or> DurationS s > maxUint32 then Inl FrqDuration
      else if GraceS s \<le> 0 \<or> GraceS s \<ge> DurationS s then Inl FrqGrace
      else if StartInS s > maxStartInS then Inl FrqStartTooFar
      else if StartInS s \<le> MinLeadS s then Inl FrqStartTooSoon
      else (case signedEnergy (fsEnergyWh s) of
              Inl e \<Rightarrow> Inl e
            | Inr energy \<Rightarrow>
                let dir = (if fsEnergyWh s < 0 then Fin (- 1) else Fin 1) in
                (case activePower (dir * fsPowerW s) of
                   Inl e \<Rightarrow> Inl e
                 | Inr pw \<Rightarrow>
                     Inr \<lparr>frqMRID = mrid, frqHref = [], frqCreationTime = toUnix now, EnergyRequested = Some energy,
                       PowerRequested = Some pw,
                       IntervalRequested = Some \<lparr>Start = toUnix (now + seconds (StartInS s)), Duration = word_of_int (DurationS s)\<rparr>,
                       rsDateTime = toUnix now, rsStatus = RequestStatusRequested\<rparr>)))"

section \<open>Answers\<close>

datatype answerKind =
    answerPending | answerGranted | answerDenied | answerExpired | answerInvalid | answerLate | answerRevoked

fun answerName :: "answerKind \<Rightarrow> string" where
  "answerName answerPending = ''pending''"
| "answerName answerGranted = ''granted''"
| "answerName answerDenied = ''denied''"
| "answerName answerExpired = ''not granted (no answer within the grace after the requested start)''"
| "answerName answerInvalid = ''unusable answer''"
| "answerName answerLate = ''granted late (first answer created after the grace)''"
| "answerName answerRevoked = ''revoked (every answer is cancelled or superseded)''"

definition dispatches :: "answerKind \<Rightarrow> bool" where
  "dispatches k \<longleftrightarrow> k = answerGranted \<or> k = answerLate"

datatype clipNote =
    EnergySign f64 f64
  | PowerSign f64 f64
  | EnergyAbove f64 f64
  | PowerAbove f64 f64
  | IntervalClipped time time

record grantTerms =
  gtResponseMRID :: string
  gtStart :: time
  gtEnd :: time
  gtEnergyWh :: f64
  gtPowerW :: f64
  Clipped :: "clipNote list"

definition noTerms :: grantTerms where
  "noTerms = \<lparr>gtResponseMRID = [], gtStart = zeroTime, gtEnd = zeroTime, gtEnergyWh = 0, gtPowerW = 0, Clipped = []\<rparr>"

record requestFacts =
  rfStart :: time
  rfEnd :: time
  rfEnergyWh :: f64
  rfPowerW :: f64

definition scaled :: "int \<Rightarrow> int \<Rightarrow> f64" where
  "scaled v m = ofInt v * pow10 m"

definition factsOf :: "FlowReservationRequest \<Rightarrow> requestFacts" where
  "factsOf req =
     \<lparr>rfStart = (case IntervalRequested req of None \<Rightarrow> zeroTime | Some iv \<Rightarrow> unixTime (Start iv)),
      rfEnd = (case IntervalRequested req of None \<Rightarrow> zeroTime | Some iv \<Rightarrow> unixTime (Start iv) + seconds (uint (Duration iv))),
      rfEnergyWh = (case EnergyRequested req of None \<Rightarrow> 0 | Some e \<Rightarrow> scaled (seValue e) (seMultiplier e)),
      rfPowerW = (case PowerRequested req of None \<Rightarrow> 0 | Some p \<Rightarrow> fabs (scaled (apValue p) (apMultiplier p)))\<rparr>"

definition direction :: "requestFacts \<Rightarrow> f64" where
  "direction f = (if rfEnergyWh f < 0 then Fin (- 1) else Fin 1)"

record FlowReservationResponse =
  frpMRID :: string
  frpSubject :: string
  frpEventStatus :: "status option"
  frpCreationTime :: int
  frpInterval :: "DateTimeInterval option"
  EnergyAvailable :: "SignedRealEnergy option"
  PowerAvailable :: "ActivePower option"
  frpReplyTo :: string
  frpResponseRequired :: "8 word option"

definition liveStatus :: "FlowReservationResponse \<Rightarrow> bool" where
  "liveStatus r \<longleftrightarrow> (case frpEventStatus r of
     Some st \<Rightarrow> \<not> (st = EventStatusCancelled \<or> st = 3 \<or> st = EventStatusSuperseded) | None \<Rightarrow> True)"

fun effectiveLoop :: "FlowReservationResponse list \<Rightarrow> string \<Rightarrow> FlowReservationResponse option \<Rightarrow> FlowReservationResponse option" where
  "effectiveLoop [] subject best = best"
| "effectiveLoop (r # rs) subject best =
     (if frpSubject r \<noteq> subject then effectiveLoop rs subject best
      else if \<not> liveStatus r then effectiveLoop rs subject best
      else effectiveLoop rs subject
        (case best of
           None \<Rightarrow> Some r
         | Some b \<Rightarrow> if frpCreationTime r \<ge> frpCreationTime b then Some r else best))"

definition effectiveResponse :: "FlowReservationResponse list \<Rightarrow> string \<Rightarrow> FlowReservationResponse option" where
  "effectiveResponse rs subject = effectiveLoop rs subject None"

fun firstLoop :: "FlowReservationResponse list \<Rightarrow> string \<Rightarrow> FlowReservationResponse option \<Rightarrow> FlowReservationResponse option" where
  "firstLoop [] subject best = best"
| "firstLoop (r # rs) subject best =
     firstLoop rs subject
       (if frpSubject r = subject \<and> (case best of None \<Rightarrow> True | Some b \<Rightarrow> frpCreationTime r < frpCreationTime b) then Some r
        else best)"

definition firstAnswer :: "FlowReservationResponse list \<Rightarrow> string \<Rightarrow> FlowReservationResponse option" where
  "firstAnswer rs subject = firstLoop rs subject None"

text \<open>How a response differs from the request: its energy, power and interval.\<close>

definition clipNotes :: "requestFacts \<Rightarrow> f64 \<Rightarrow> f64 \<Rightarrow> time \<Rightarrow> time \<Rightarrow> clipNote list" where
  "clipNotes rq grantedWh grantedW gs ge =
     (if grantedWh * direction rq < 0 then [EnergySign (rfEnergyWh rq) grantedWh] else []) @
     (if grantedW * direction rq < 0 then [PowerSign (rfPowerW rq) grantedW] else []) @
     (if fabs grantedWh > fabs (rfEnergyWh rq) then [EnergyAbove (fabs grantedWh) (fabs (rfEnergyWh rq))] else []) @
     (if fabs grantedW > rfPowerW rq then [PowerAbove (fabs grantedW) (rfPowerW rq)] else []) @
     (if gs < rfStart rq \<or> ge > rfEnd rq then [IntervalClipped gs ge] else [])"

text \<open>A grant read against the request; the arguments are the three parts the caller has checked to be there.\<close>

definition readGrant :: "string \<Rightarrow> DateTimeInterval \<Rightarrow> SignedRealEnergy \<Rightarrow> ActivePower \<Rightarrow> requestFacts \<Rightarrow> grantTerms option" where
  "readGrant mrid iv en pw rq =
     (let gs = unixTime (Start iv);
          ge = gs + seconds (uint (Duration iv));
          st = (if gs < rfStart rq then rfStart rq else gs);
          en' = (if ge > rfEnd rq then rfEnd rq else ge);
          grantedWh = scaled (seValue en) (seMultiplier en);
          grantedW = scaled (apValue pw) (apMultiplier pw);
          wh = fabs grantedWh;
          w = fabs grantedW
      in if feq wh 0 \<or> feq w 0 \<or> \<not> en' > st then None
         else
           (let wh = (if wh > fabs (rfEnergyWh rq) then fabs (rfEnergyWh rq) else wh);
                w = (if w > rfPowerW rq then rfPowerW rq else w)
            in if feq wh 0 \<or> feq w 0 then None
               else Some \<lparr>gtResponseMRID = mrid, gtStart = st, gtEnd = en', gtEnergyWh = direction rq * wh, gtPowerW = w,
                      Clipped = clipNotes rq grantedWh grantedW gs ge\<rparr>))"

definition judge :: "FlowReservationResponse list \<Rightarrow> string \<Rightarrow> requestFacts \<Rightarrow> duration \<Rightarrow> time \<Rightarrow> answerKind \<times> grantTerms" where
  "judge rs subject rq grace now =
     (case firstAnswer rs subject of
        None \<Rightarrow> if now < rfStart rq + grace then (answerPending, noTerms) else (answerExpired, noTerms)
      | Some f \<Rightarrow>
          let late = unixTime (frpCreationTime f) > rfStart rq + grace in
          (case effectiveResponse rs subject of
             None \<Rightarrow> (answerRevoked, noTerms)
           | Some r \<Rightarrow>
               if (case frpInterval r of Some iv \<Rightarrow> Duration iv = 0 | None \<Rightarrow> False) then (answerDenied, noTerms\<lparr>gtResponseMRID := frpMRID r\<rparr>)
               else
                 (case (frpInterval r, EnergyAvailable r, PowerAvailable r) of
                    (Some iv, Some en, Some pw) \<Rightarrow>
                      (case readGrant (frpMRID r) iv en pw rq of
                         None \<Rightarrow> (answerInvalid, noTerms\<lparr>gtResponseMRID := frpMRID r\<rparr>)
                       | Some t \<Rightarrow> (if late then answerLate else answerGranted, t))
                  | _ \<Rightarrow> (answerInvalid, noTerms\<lparr>gtResponseMRID := frpMRID r\<rparr>))))"

section \<open>Dispatch\<close>

definition toSeconds :: "duration \<Rightarrow> f64" where "toSeconds d = Fin (of_int d / 1000000000)"
definition toHours :: "duration \<Rightarrow> f64" where "toHours d = Fin (of_int d / 3600000000000)"

definition fleetTargetW :: "grantTerms \<Rightarrow> f64 \<Rightarrow> time \<Rightarrow> duration \<Rightarrow> f64" where
  "fleetTargetW t delivered now step =
     (if now < gtStart t \<or> \<not> now < gtEnd t \<or> step \<le> 0 then 0
      else
        (let dir = (if gtEnergyWh t < 0 then Fin (- 1) else Fin 1);
             remaining = fabs (gtEnergyWh t) - dir * delivered
         in if remaining \<le> 0 then 0
            else
              (let left = toSeconds (timeSub (gtEnd t) now)
               in dir * fmin (gtPowerW t) (fmin (remaining * Fin 3600 div left) (remaining * Fin 3600 div toSeconds step)))))"

record fleetMember =
  fmKey :: string
  fmRatedW :: f64
  up :: bool
  fmSoc :: f64
  knownSOC :: bool

definition headroomW :: "fleetMember \<Rightarrow> bool \<Rightarrow> f64" where
  "headroomW m charging =
     (if \<not> up m then 0
      else if knownSOC m \<and> ((charging \<and> fmSoc m \<ge> 1) \<or> (\<not> charging \<and> fmSoc m \<le> 0)) then 0
      else fmRatedW m)"

definition splitTarget :: "f64 \<Rightarrow> fleetMember list \<Rightarrow> (string \<times> f64) list" where
  "splitTarget target members =
     (if feq target 0 then []
      else
        (let charging = (target > 0);
             total = foldl (\<lambda>s m. s + headroomW m charging) 0 members
         in if total \<le> 0 then []
            else
              (let mag = fmin (fabs target) total
               in foldl (\<lambda>out m. let h = headroomW m charging in
                    if h > 0 then AList.update (fmKey m) (let share = mag * h div total in if charging then share else - share) out
                    else out) [] members)))"

text \<open>The dispatcher: the plan of a step, given the clock and the batteries; the absence of a plan is \<open>None\<close>.\<close>

record dispatcher =
  minStep :: duration
  terms :: "grantTerms option"
  deliveredWh :: f64
  lastAt :: time
  lastStep :: duration
  prevInside :: bool
  lastAchieved :: f64

definition newDispatcher :: "duration \<Rightarrow> dispatcher" where
  "newDispatcher ms = \<lparr>minStep = ms, terms = None, deliveredWh = 0, lastAt = zeroTime, lastStep = 0, prevInside = False, lastAchieved = 0\<rparr>"

definition dispReset :: "dispatcher \<Rightarrow> dispatcher" where
  "dispReset d = newDispatcher (minStep d)"

definition setGrant :: "grantTerms option \<Rightarrow> dispatcher \<Rightarrow> dispatcher" where
  "setGrant t d = d\<lparr>terms := t\<rparr>"

definition lookupW :: "(string \<times> f64) list \<Rightarrow> string \<Rightarrow> f64" where
  "lookupW xs k = (case map_of xs k of None \<Rightarrow> 0 | Some w \<Rightarrow> w)"

text \<open>The energy the previous step moved, and the setpoints of this one.\<close>

definition accountStep :: "dispatcher \<Rightarrow> time \<Rightarrow> duration \<Rightarrow> dispatcher" where
  "accountStep d now elapsed =
     (case terms d of
        None \<Rightarrow> d
      | Some t \<Rightarrow>
          if prevInside d \<and> elapsed > 0 then
            (let until = (if gtEnd t < now then gtEnd t else now);
                 span = timeSub until (lastAt d)
             in if span > 0 then d\<lparr>deliveredWh := deliveredWh d + lastAchieved d * toHours span\<rparr> else d)
          else d)"

definition dispatchPlan :: "dispatcher \<Rightarrow> time \<Rightarrow> fleetMember list \<Rightarrow> (string \<times> f64) list option \<times> dispatcher" where
  "dispatchPlan d now members =
     (let elapsed = (if lastAt d = zeroTime then 0 else timeSub now (lastAt d));
          d = accountStep d now elapsed;
          step = max (minStep d) (lastStep d);
          d = d\<lparr>lastAt := now, lastStep := elapsed\<rparr>
      in case terms d of
           None \<Rightarrow> (None, d\<lparr>prevInside := False\<rparr>)
         | Some t \<Rightarrow>
             if now < gtStart t \<or> \<not> now < gtEnd t then (None, d\<lparr>prevInside := False\<rparr>)
             else
               (let shares = splitTarget (fleetTargetW t (deliveredWh d) now step) members
                in (Some (foldl (\<lambda>out m. AList.update (fmKey m) (chargingToDER (lookupW shares (fmKey m))) out) [] members),
                    d\<lparr>prevInside := True\<rparr>)))"

definition recordAchieved :: "f64 \<Rightarrow> dispatcher \<Rightarrow> dispatcher" where
  "recordAchieved w d = d\<lparr>lastAchieved := w\<rparr>"

section \<open>A request says what was asked\<close>

lemma goDiv10_times: "n mod 10 = 0 \<Longrightarrow> goDiv10 n * 10 = n"
  by (auto simp: goDiv10_def zmod_zminus1_not_zero)

lemma scaleLoop_exact:
  "scaleLoop n m = Some (n', m') \<Longrightarrow> m \<le> m' \<and> n = n' * 10 ^ nat (m' - m) \<and> - maxInt16 \<le> n' \<and> n' \<le> maxInt16"
proof (induction n m arbitrary: n' m' rule: scaleLoop.induct)
  case (1 n m)
  show ?case
  proof (cases "n > maxInt16 \<or> n < - maxInt16")
    case True
    then have z: "n mod 10 = 0" "scaleLoop (goDiv10 n) (m + 1) = Some (n', m')"
      using 1(2) by (simp_all add: scaleLoop.simps [of n m] split: if_splits)
    have IH: "m + 1 \<le> m'" "goDiv10 n = n' * 10 ^ nat (m' - (m + 1))" "- maxInt16 \<le> n'" "n' \<le> maxInt16"
      using 1(1) [OF True _ z(2)] z(1) by simp_all
    have "nat (m' - m) = Suc (nat (m' - (m + 1)))" using IH(1) by simp
    then show ?thesis using IH goDiv10_times [OF z(1)] by simp
  next
    case False
    then show ?thesis using 1(2) by (simp add: scaleLoop.simps [of n m])
  qed
qed

lemma scaleLoop_multiplier:
  assumes "scaleLoop n 0 = Some (n', m')" "\<bar>n\<bar> \<le> 10 ^ 12"
  shows "0 \<le> m' \<and> m' \<le> 12"
proof -
  have e: "0 \<le> m'" "n = n' * 10 ^ nat m'" using scaleLoop_exact [OF assms(1)] by simp_all
  show ?thesis
  proof (cases "n = 0")
    case True
    then show ?thesis using assms(1) by (simp add: scaleLoop.simps maxInt16_def)
  next
    case False
    then have "(10::int) ^ nat m' \<le> \<bar>n'\<bar> * 10 ^ nat m'" using e(2) by simp
    also have "\<dots> = \<bar>n\<bar>" by (simp add: e(2) abs_mult)
    finally have "(10::int) ^ nat m' \<le> 10 ^ 12" using assms(2) by simp
    then have "nat m' \<le> 12" using power_increasing_iff [of "10::int" "nat m'" 12] by (simp only: one_less_numeral_iff semiring_norm)
    then show ?thesis using e(1) by simp
  qed
qed

lemma toInt64_of_int: "minInt64 \<le> n \<Longrightarrow> n \<le> maxInt64 \<Longrightarrow> toInt64 (Fin (of_int n)) = n"
  by simp

lemma activePower_exact:
  assumes "activePower w = Inr a"
  shows "scaled (apValue a) (apMultiplier a) = fround w \<and> 0 \<le> apMultiplier a \<and> apMultiplier a \<le> 12 \<and> \<bar>apValue a\<bar> \<le> 32767"
proof -
  obtain r where w: "w = Fin r" and b: "\<bar>real_of_int (roundHalfAway r)\<bar> \<le> 1000000000000"
    using assms by (cases w) (auto simp: activePower_def Let_def split: if_splits)
  let ?v = "roundHalfAway r"
  have bi: "\<bar>?v\<bar> \<le> 1000000000000" using b by linarith
  then have "toInt64 (fround w) = ?v" by (auto simp: w minInt64_def maxInt64_def)
  then obtain n m where l: "scaleLoop ?v 0 = Some (n, m)" "a = \<lparr>apMultiplier = m, apValue = n\<rparr>"
    using assms b by (auto simp: activePower_def Let_def w split: if_splits option.splits)
  have "?v = n * 10 ^ nat m" "0 \<le> m" "\<bar>n\<bar> \<le> 32767" using scaleLoop_exact [OF l(1)] by (auto simp: maxInt16_def)
  moreover have "m \<le> 12" using scaleLoop_multiplier [OF l(1)] bi by simp
  ultimately show ?thesis by (simp add: l(2) w scaled_def pow10_def)
qed

lemma signedEnergy_exact:
  assumes "signedEnergy wh = Inr e"
  shows "scaled (seValue e) (seMultiplier e) = fround wh \<and> seMultiplier e = 0 \<and> \<bar>seValue e\<bar> \<le> 140737488355327"
proof -
  obtain r where w: "wh = Fin r" and b: "\<bar>real_of_int (roundHalfAway r)\<bar> \<le> 140737488355327"
    using assms by (cases wh) (auto simp: signedEnergy_def Let_def maxInt48_def split: if_splits)
  have bi: "\<bar>roundHalfAway r\<bar> \<le> 140737488355327" using b by linarith
  then have "toInt64 (fround wh) = roundHalfAway r" by (auto simp: w minInt64_def maxInt64_def)
  then have "e = \<lparr>seMultiplier = 0, seValue = roundHalfAway r\<rparr>"
    using assms b by (auto simp: signedEnergy_def Let_def w maxInt48_def split: if_splits)
  then show ?thesis using bi by (simp add: w scaled_def pow10_def)
qed

lemma roundHalfAway_neg: "roundHalfAway (- r) = - roundHalfAway r"
  by (auto simp: roundHalfAway_def add.commute)

lemma roundHalfAway_zero_iff: "roundHalfAway r = 0 \<longleftrightarrow> \<bar>r\<bar> < 1 / 2"
  by (auto simp: roundHalfAway_def floor_eq_iff abs_if)

lemma roundHalfAway_nonneg: "0 \<le> r \<Longrightarrow> 0 \<le> roundHalfAway r"
  by (simp add: roundHalfAway_def)

lemma buildFlowRequest_facts:
  assumes "buildFlowRequest s now mrid = Inr req"
  shows "factsOf req = \<lparr>rfStart = unixTime (toUnix (now + seconds (StartInS s))),
      rfEnd = unixTime (toUnix (now + seconds (StartInS s))) + DurationS s * 1000000000,
      rfEnergyWh = fround (fsEnergyWh s), rfPowerW = fround (fsPowerW s)\<rparr> \<and>
    (\<forall>p. PowerRequested req = Some p \<longrightarrow> \<bar>apValue p\<bar> \<le> 32767 \<and> 0 \<le> apMultiplier p \<and> apMultiplier p \<le> 12) \<and>
    frqMRID req = mrid \<and> rsStatus req = RequestStatusRequested \<and>
    (feq (rfEnergyWh (factsOf req)) 0 \<longleftrightarrow> fabs (fsEnergyWh s) < Fin (1 / 2))"
proof -
  let ?dir = "if fsEnergyWh s < 0 then Fin (- 1) else Fin 1"
  obtain en pw where e: "signedEnergy (fsEnergyWh s) = Inr en" and p: "activePower (?dir * fsPowerW s) = Inr pw"
    and h: "\<not> fsPowerW s \<le> 0" "\<not> isNaN (fsPowerW s)" "0 < DurationS s" "DurationS s \<le> maxUint32"
    and r: "req = \<lparr>frqMRID = mrid, frqHref = [], frqCreationTime = toUnix now, EnergyRequested = Some en, PowerRequested = Some pw,
       IntervalRequested = Some \<lparr>Start = toUnix (now + seconds (StartInS s)), Duration = word_of_int (DurationS s)\<rparr>,
       rsDateTime = toUnix now, rsStatus = RequestStatusRequested\<rparr>"
    using assms by (auto simp: buildFlowRequest_def Let_def not_le split: if_splits sum.splits)
  note E = signedEnergy_exact [OF e] and P = activePower_exact [OF p]
  obtain w where w: "fsPowerW s = Fin w" "0 < w"
    using h(1,2) P by (cases "fsPowerW s") (use p in \<open>auto simp: activePower_def Let_def split: if_splits\<close>)
  have "fabs (scaled (apValue pw) (apMultiplier pw)) = fround (fsPowerW s)"
    using P w roundHalfAway_nonneg [of w] by (auto simp: roundHalfAway_neg split: if_splits)
  moreover have "uint (word_of_int (DurationS s) :: 32 word) = DurationS s"
    using h(3,4) by (simp add: uint_word_of_int maxUint32_def)
  then have "seconds (uint (word_of_int (DurationS s) :: 32 word)) = DurationS s * 1000000000"
    using seconds_uint32 [of "word_of_int (DurationS s)"] by simp
  ultimately have f: "factsOf req = \<lparr>rfStart = unixTime (toUnix (now + seconds (StartInS s))),
      rfEnd = unixTime (toUnix (now + seconds (StartInS s))) + DurationS s * 1000000000,
      rfEnergyWh = fround (fsEnergyWh s), rfPowerW = fround (fsPowerW s)\<rparr>"
    using conjunct1 [OF E] by (simp add: factsOf_def r)
  obtain x where "fsEnergyWh s = Fin x" using e by (cases "fsEnergyWh s") (auto simp: signedEnergy_def Let_def)
  then show ?thesis using f P by (simp add: r roundHalfAway_zero_iff)
qed

text \<open>A request that passes the validation says exactly what was asked, in whole watt-hours and watts: read back, its
  window starts in the asked number of seconds (rounded down to a whole second) and lasts as long as asked, its energy is the
  asked energy rounded, with its sign, and its power is the asked power rounded; the power's value fits 16 bits and its
  multiplier is a small power of ten. The energy sent is zero exactly when less than half a watt-hour was asked, although the
  validation wants it non-zero.\<close>

theorem request_says_what_was_asked:
  assumes "buildFlowRequest s now mrid = Inr req"
  shows "factsOf req = \<lparr>rfStart = unixTime (toUnix (now + seconds (StartInS s))),
      rfEnd = unixTime (toUnix (now + seconds (StartInS s))) + DurationS s * 1000000000,
      rfEnergyWh = fround (fsEnergyWh s), rfPowerW = fround (fsPowerW s)\<rparr> \<and>
    (\<forall>p. PowerRequested req = Some p \<longrightarrow> \<bar>apValue p\<bar> \<le> 32767 \<and> 0 \<le> apMultiplier p \<and> apMultiplier p \<le> 12) \<and>
    frqMRID req = mrid \<and> rsStatus req = RequestStatusRequested \<and>
    (feq (rfEnergyWh (factsOf req)) 0 \<longleftrightarrow> fabs (fsEnergyWh s) < Fin (1 / 2))"
  using buildFlowRequest_facts [OF assms] .

section \<open>A grant stays within its request\<close>

definition answersTo :: "FlowReservationResponse list \<Rightarrow> string \<Rightarrow> FlowReservationResponse list" where
  "answersTo rs subject = filter (\<lambda>r. frpSubject r = subject) rs"

definition live_answers :: "FlowReservationResponse list \<Rightarrow> string \<Rightarrow> FlowReservationResponse list" where
  "live_answers rs subject = filter (\<lambda>r. frpSubject r = subject \<and> liveStatus r) rs"

text \<open>The newest of a list; of two created in the same second the later in the list.\<close>

fun newest :: "FlowReservationResponse list \<Rightarrow> FlowReservationResponse \<Rightarrow> bool" where
  "newest [] r \<longleftrightarrow> False"
| "newest (b # rs) r \<longleftrightarrow> (r = b \<and> (\<forall>x\<in>set rs. frpCreationTime x < frpCreationTime b)) \<or>
     (frpCreationTime b \<le> frpCreationTime r \<and> newest rs r)"

lemma effectiveLoop_filter: "effectiveLoop rs subject best = effectiveLoop (live_answers rs subject) subject best"
  by (induction rs subject best rule: effectiveLoop.induct) (auto simp: live_answers_def)

lemma effectiveLoop_newest:
  "\<forall>r\<in>set rs. frpSubject r = subject \<and> liveStatus r \<Longrightarrow> \<exists>r. effectiveLoop rs subject (Some b) = Some r \<and> newest (b # rs) r"
proof (induction rs arbitrary: b)
  case Nil
  then show ?case by simp
next
  case (Cons x rs)
  let ?b = "if frpCreationTime b \<le> frpCreationTime x then x else b"
  obtain r where r: "effectiveLoop rs subject (Some ?b) = Some r" "newest (?b # rs) r" using Cons by auto
  have "newest (b # x # rs) r"
    using r(2) by (auto split: if_splits)
  then show ?case using r(1) Cons.prems by (auto split: if_splits)
qed

lemma effectiveResponse_spec:
  "case effectiveResponse rs subject of None \<Rightarrow> live_answers rs subject = [] | Some r \<Rightarrow> newest (live_answers rs subject) r"
proof (cases "live_answers rs subject")
  case Nil
  then show ?thesis by (simp add: effectiveResponse_def effectiveLoop_filter [of rs])
next
  case (Cons x xs)
  have "\<forall>r\<in>set (x # xs). frpSubject r = subject \<and> liveStatus r" unfolding Cons [symmetric] by (simp add: live_answers_def)
  then obtain r where r: "effectiveLoop xs subject (Some x) = Some r" "newest (x # xs) r" "frpSubject x = subject" "liveStatus x"
    using effectiveLoop_newest [of xs subject x] by auto
  have "effectiveResponse rs subject = effectiveLoop (x # xs) subject None"
    by (simp only: effectiveResponse_def effectiveLoop_filter [of rs] Cons)
  then have "effectiveResponse rs subject = Some r" using r by simp
  then show ?thesis using r(2) by (simp only: option.case Cons)
qed

lemma firstLoop_first:
  "case firstLoop rs subject best of
     None \<Rightarrow> best = None \<and> answersTo rs subject = []
   | Some r \<Rightarrow> (best = Some r \<or> r \<in> set (answersTo rs subject)) \<and> (\<forall>b. best = Some b \<longrightarrow> frpCreationTime r \<le> frpCreationTime b) \<and>
       (\<forall>x\<in>set (answersTo rs subject). frpCreationTime r \<le> frpCreationTime x)"
proof (induction rs subject best rule: firstLoop.induct)
  case (1 subject best)
  then show ?case by (simp add: answersTo_def split: option.splits)
next
  case (2 r rs subject best)
  let ?best = "if frpSubject r = subject \<and> (case best of None \<Rightarrow> True | Some b \<Rightarrow> frpCreationTime r < frpCreationTime b) then Some r else best"
  show ?case
  proof (cases "firstLoop rs subject ?best")
    case None
    then show ?thesis using 2 by (auto simp: answersTo_def split: if_splits)
  next
    case (Some x)
    then have x: "?best = Some x \<or> x \<in> set (answersTo rs subject)" "\<And>b. ?best = Some b \<Longrightarrow> frpCreationTime x \<le> frpCreationTime b"
      "\<forall>y\<in>set (answersTo rs subject). frpCreationTime x \<le> frpCreationTime y" using 2 by simp_all
    have "frpCreationTime x \<le> frpCreationTime b" if "best = Some b" for b
      using x(2) [of "if frpSubject r = subject \<and> frpCreationTime r < frpCreationTime b then r else b"] that by (cases "frpSubject r = subject \<and> frpCreationTime r < frpCreationTime b") auto
    moreover have "frpCreationTime x \<le> frpCreationTime r" if "frpSubject r = subject"
    proof (cases "case best of None \<Rightarrow> True | Some b \<Rightarrow> frpCreationTime r < frpCreationTime b")
      case True
      then show ?thesis using x(2) [of r] that by simp
    next
      case False
      then obtain b where "best = Some b" "frpCreationTime b \<le> frpCreationTime r" by (auto split: option.splits)
      then show ?thesis using x(2) [of b] that by auto
    qed
    ultimately show ?thesis using Some x(1,3) by (auto simp: answersTo_def split: if_splits)
  qed
qed

lemma firstAnswer_spec:
  "case firstAnswer rs subject of None \<Rightarrow> answersTo rs subject = []
   | Some r \<Rightarrow> r \<in> set (answersTo rs subject) \<and> (\<forall>x\<in>set (answersTo rs subject). frpCreationTime r \<le> frpCreationTime x)"
  using firstLoop_first [of None rs subject] unfolding firstAnswer_def by (cases "firstLoop rs subject None") simp_all

lemma Fin_scaled: "\<exists>x. scaled v m = Fin x"
  by (simp add: scaled_def pow10_def)

text \<open>The terms of a usable grant.\<close>

definition terms_within :: "requestFacts \<Rightarrow> real \<Rightarrow> real \<Rightarrow> grantTerms \<Rightarrow> bool" where
  "terms_within rq e p t \<longleftrightarrow> rfStart rq \<le> gtStart t \<and> gtStart t < gtEnd t \<and> gtEnd t \<le> rfEnd rq \<and>
     (\<exists>e'. gtEnergyWh t = Fin e' \<and> 0 < \<bar>e'\<bar> \<and> \<bar>e'\<bar> \<le> \<bar>e\<bar> \<and> (e' < 0 \<longleftrightarrow> e < 0)) \<and> (\<exists>p'. gtPowerW t = Fin p' \<and> 0 < p' \<and> p' \<le> p)"

lemma readGrant_within:
  assumes "readGrant mrid iv en pw rq = Some t" "rfEnergyWh rq = Fin e" "rfPowerW rq = Fin p" "0 \<le> p"
  shows "terms_within rq e p t \<and> gtResponseMRID t = mrid"
proof -
  obtain x y where xy: "scaled (seValue en) (seMultiplier en) = Fin x" "scaled (apValue pw) (apMultiplier pw) = Fin y"
    using Fin_scaled by metis
  let ?gs = "unixTime (Start iv)" and ?ge = "unixTime (Start iv) + seconds (uint (Duration iv))"
  define st where "st = (if ?gs < rfStart rq then rfStart rq else ?gs)"
  define en' where "en' = (if ?ge > rfEnd rq then rfEnd rq else ?ge)"
  define wh where "wh = min \<bar>x\<bar> \<bar>e\<bar>"
  define w where "w = min \<bar>y\<bar> p"
  have m: "(if fabs (Fin x) > fabs (Fin e) then fabs (Fin e) else fabs (Fin x)) = Fin wh" "(if fabs (Fin y) > Fin p then Fin p else fabs (Fin y)) = Fin w"
    by (simp_all add: wh_def w_def min_def)
  have "Some t = (if feq (fabs (Fin x)) 0 \<or> feq (fabs (Fin y)) 0 \<or> \<not> en' > st then None
      else if feq (Fin wh) 0 \<or> feq (Fin w) 0 then None
      else Some \<lparr>gtResponseMRID = mrid, gtStart = st, gtEnd = en', gtEnergyWh = direction rq * Fin wh, gtPowerW = Fin w,
             Clipped = clipNotes rq (Fin x) (Fin y) ?gs ?ge\<rparr>)"
    using assms(1) unfolding readGrant_def Let_def xy assms(2,3) m st_def [symmetric] en'_def [symmetric] by simp
  then have t: "st < en'" "wh \<noteq> 0" "w \<noteq> 0" "gtStart t = st" "gtEnd t = en'" "gtEnergyWh t = direction rq * Fin wh" "gtPowerW t = Fin w"
    "gtResponseMRID t = mrid" by (auto split: if_splits)
  have "0 \<le> wh" "0 \<le> w" "wh \<le> \<bar>e\<bar>" "w \<le> p" using assms(4) by (simp_all add: wh_def w_def)
  then have n: "0 < wh" "0 < w" "wh \<le> \<bar>e\<bar>" "w \<le> p" using t(2,3) by simp_all
  then have "gtEnergyWh t = Fin (if e < 0 then - wh else wh)" using t(6) by (simp add: direction_def assms(2))
  moreover have "rfStart rq \<le> st" "en' \<le> rfEnd rq" by (simp_all add: st_def en'_def)
  ultimately show ?thesis using n t by (auto simp: terms_within_def)
qed

lemma judge_within:
  assumes "judge rs subject rq grace now = (k, t)" "dispatches k" "rfEnergyWh rq = Fin e" "rfPowerW rq = Fin p" "0 \<le> p"
  shows "terms_within rq e p t"
  using assms(1,2) readGrant_within [OF _ assms(3-5)]
  by (auto simp: judge_def Let_def dispatches_def split: option.splits if_splits)

text \<open>C21: What a request's answers amount to. With no answer the request is pending until the grace after its start and
  expired from then on; with answers of which none is live it is revoked. A request is dispatched only under the newest live
  answer (of two created in the same second the later in the list), on terms that lie within the requested window, with a
  non-zero energy of the requested sign and at most the requested size and a positive power of at most the requested one,
  whatever signs and sizes the server sent; and it counts as granted in time exactly when its earliest answer, whatever became
  of it, was created by the grace after the start.\<close>

theorem grants_stay_within_request:
  assumes "judge rs subject rq grace now = (k, t)" "rfEnergyWh rq = Fin e" "rfPowerW rq = Fin p" "0 \<le> p"
  shows "(k = answerPending \<longleftrightarrow> answersTo rs subject = [] \<and> now < rfStart rq + grace) \<and>
    (k = answerExpired \<longleftrightarrow> answersTo rs subject = [] \<and> \<not> now < rfStart rq + grace) \<and>
    (k = answerRevoked \<longleftrightarrow> answersTo rs subject \<noteq> [] \<and> live_answers rs subject = []) \<and>
    (dispatches k \<longrightarrow> terms_within rq e p t \<and> (\<exists>r. newest (live_answers rs subject) r \<and> gtResponseMRID t = frpMRID r) \<and>
       (k = answerGranted \<longleftrightarrow> (\<exists>a\<in>set (answersTo rs subject). unixTime (frpCreationTime a) \<le> rfStart rq + grace)))"
proof (cases "firstAnswer rs subject")
  case None
  then have "answersTo rs subject = []" using firstAnswer_spec [of rs subject] by simp
  then show ?thesis using assms(1) None by (auto simp: judge_def dispatches_def split: if_splits)
next
  case (Some f)
  then have f: "f \<in> set (answersTo rs subject)" "\<forall>x\<in>set (answersTo rs subject). frpCreationTime f \<le> frpCreationTime x"
    using firstAnswer_spec [of rs subject] by simp_all
  have late: "unixTime (frpCreationTime f) > rfStart rq + grace \<longleftrightarrow>
      \<not> (\<exists>a\<in>set (answersTo rs subject). unixTime (frpCreationTime a) \<le> rfStart rq + grace)"
    using f by (metis unixTime_le not_le order_trans)
  show ?thesis
  proof (cases "effectiveResponse rs subject")
    case None
    then show ?thesis using assms(1) Some f effectiveResponse_spec [of rs subject] by (auto simp: judge_def dispatches_def Let_def)
  next
    case (Some r)
    then have n: "newest (live_answers rs subject) r" using effectiveResponse_spec [of rs subject] by simp
    then have ne: "live_answers rs subject \<noteq> []" "answersTo rs subject \<noteq> []" using f by auto
    have k: "k \<notin> {answerPending, answerExpired, answerRevoked}"
      using assms(1) \<open>firstAnswer rs subject = Some f\<close> Some by (auto simp: judge_def Let_def split: if_splits option.splits)
    have "terms_within rq e p t \<and> gtResponseMRID t = frpMRID r \<and> (k = answerGranted \<longleftrightarrow> \<not> unixTime (frpCreationTime f) > rfStart rq + grace)"
      if "dispatches k"
      using that assms(1) \<open>firstAnswer rs subject = Some f\<close> Some readGrant_within [OF _ assms(2-4)]
      by (auto simp: judge_def Let_def dispatches_def split: if_splits option.splits)
    then show ?thesis using k n ne late by auto
  qed
qed

section \<open>The split\<close>

lemma foldl_update_lookup:
  assumes "distinct (map k ms)"
  shows "map_of (foldl (\<lambda>out m. if P m then AList.update (k m) (v m) out else out) acc ms) x =
    (case find (\<lambda>m. k m = x \<and> P m) ms of None \<Rightarrow> map_of acc x | Some m \<Rightarrow> Some (v m))"
  using assms
proof (induction ms arbitrary: acc)
  case (Cons m ms)
  have "find (\<lambda>m'. k m' = x \<and> P m') ms = None" if "k m = x"
    using Cons.prems that by (auto simp: find_None_iff) (metis imageI)
  then show ?case using Cons by (auto simp: update_conv' split: option.splits)
qed simp

lemma find_key: "distinct (map k ms) \<Longrightarrow> m \<in> set ms \<Longrightarrow> find (\<lambda>m'. k m' = k m \<and> P m') ms = (if P m then Some m else None)"
  by (induction ms) (auto simp: find_None_iff, (metis imageI)+)

lemma foldl_Fin: "(\<And>m. m \<in> set ms \<Longrightarrow> f m = Fin (h m)) \<Longrightarrow> foldl (\<lambda>s m. s + f m) (Fin a) ms = Fin (a + sum_list (map h ms))"
  by (induction ms arbitrary: a) (auto simp: add.assoc)

text \<open>A fleet whose ratings are finite, with its headroom in a direction.\<close>

definition fleet_ok :: "fleetMember list \<Rightarrow> bool" where
  "fleet_ok ms \<longleftrightarrow> distinct (map fmKey ms) \<and> (\<forall>m\<in>set ms. \<exists>r. fmRatedW m = Fin r \<and> 0 \<le> r)"

definition headroom :: "bool \<Rightarrow> fleetMember \<Rightarrow> real" where
  "headroom charging m = (case headroomW m charging of Fin r \<Rightarrow> r | _ \<Rightarrow> 0)"

lemma headroom_Fin: "fleet_ok ms \<Longrightarrow> m \<in> set ms \<Longrightarrow> headroomW m c = Fin (headroom c m) \<and> 0 \<le> headroom c m"
  by (fastforce simp: fleet_ok_def headroom_def headroomW_def)

definition share :: "real \<Rightarrow> fleetMember list \<Rightarrow> fleetMember \<Rightarrow> real" where
  "share w ms m = (let hs = sum_list (map (headroom (w > 0)) ms) in
     if hs \<le> 0 then 0 else sgn w * (min \<bar>w\<bar> hs * headroom (w > 0) m / hs))"

lemma splitTarget_share:
  assumes "fleet_ok ms" "m \<in> set ms"
  shows "lookupW (splitTarget (Fin w) ms) (fmKey m) = Fin (share w ms m)"
proof -
  let ?h = "headroom (w > 0)" and ?c = "w > 0"
  define H where "H = sum_list (map ?h ms)"
  have h: "headroomW x ?c = Fin (?h x)" "0 \<le> ?h x" if "x \<in> set ms" for x using headroom_Fin [OF assms(1) that] by simp_all
  have tot: "foldl (\<lambda>s m. s + headroomW m ?c) (Fin 0) ms = Fin H" using foldl_Fin [of ms "\<lambda>m. headroomW m ?c" ?h 0] h by (simp add: H_def)
  have d: "distinct (map fmKey ms)" using assms(1) by (simp add: fleet_ok_def)
  show ?thesis
  proof (cases "w = 0 \<or> H \<le> 0")
    case True
    then show ?thesis using tot by (auto simp: splitTarget_def share_def lookupW_def Let_def H_def [symmetric])
  next
    case False
    let ?v = "\<lambda>m. let sh = fmin (Fin \<bar>w\<bar>) (Fin H) * headroomW m ?c div Fin H in if ?c then sh else - sh"
    have "splitTarget (Fin w) ms = foldl (\<lambda>out m. if headroomW m ?c > 0 then AList.update (fmKey m) (?v m) out else out) [] ms"
      using False unfolding splitTarget_def Let_def zero_f64_def less_f64.simps(1) tot fabs.simps by simp
    then have l: "map_of (splitTarget (Fin w) ms) (fmKey m) = (if headroomW m ?c > 0 then Some (?v m) else None)"
      using find_key [OF d assms(2), of "\<lambda>m. headroomW m ?c > 0"] by (simp add: foldl_update_lookup [OF d])
    show ?thesis using False h [OF assms(2)] by (auto simp: lookupW_def l Let_def share_def H_def [symmetric] sgn_if)
  qed
qed

lemma share_sum: "fleet_ok ms \<Longrightarrow> sum_list (map (share w ms) ms) = sgn w * min \<bar>w\<bar> (sum_list (map (headroom (w > 0)) ms))"
proof -
  assume ok: "fleet_ok ms"
  let ?H = "sum_list (map (headroom (w > 0)) ms)"
  have nn: "0 \<le> ?H" using headroom_Fin [OF ok] by (intro sum_list_nonneg) auto
  have "sum_list (map (share w ms) ms) = (\<Sum>m\<leftarrow>ms. (if ?H \<le> 0 then 0 else sgn w * min \<bar>w\<bar> ?H / ?H) * headroom (w > 0) m)"
    by (intro arg_cong [of _ _ sum_list] map_cong) (auto simp: share_def Let_def)
  also have "\<dots> = (if ?H \<le> 0 then 0 else sgn w * min \<bar>w\<bar> ?H / ?H) * ?H" by (simp add: sum_list_const_mult)
  also have "\<dots> = sgn w * min \<bar>w\<bar> ?H" using nn by (auto simp: min_def)
  finally show ?thesis .
qed

lemma share_bounds:
  assumes "fleet_ok ms" "m \<in> set ms"
  shows "\<bar>share w ms m\<bar> \<le> headroom (w > 0) m \<and> 0 \<le> share w ms m * w"
proof -
  let ?H = "sum_list (map (headroom (w > 0)) ms)"
  have h: "0 \<le> headroom (w > 0) m" using headroom_Fin [OF assms] by simp
  show ?thesis
  proof (cases "?H \<le> 0")
    case False
    then have "min \<bar>w\<bar> ?H * headroom (w > 0) m \<le> ?H * headroom (w > 0) m" by (intro mult_right_mono h) simp
    then have "min \<bar>w\<bar> ?H * headroom (w > 0) m / ?H \<le> headroom (w > 0) m" using False by (simp add: field_simps)
    moreover have "0 \<le> min \<bar>w\<bar> ?H * headroom (w > 0) m / ?H" using False h by simp
    moreover define v where "v = min \<bar>w\<bar> ?H * headroom (w > 0) m / ?H"
    ultimately have "0 \<le> v" "v \<le> headroom (w > 0) m" "share w ms m = sgn w * v" using False by (simp_all add: share_def Let_def)
    then show ?thesis using h by (auto simp: sgn_if mult_nonneg_nonpos)
  qed (use h in \<open>simp add: share_def\<close>)
qed

lemma dispatchPlan_elim:
  assumes "dispatchPlan d now ms = (Some plan, d')"
  obtains t where "terms d = Some t" "terms d' = Some t" "gtStart t \<le> now" "now < gtEnd t" "prevInside d'"
    "plan = foldl (\<lambda>out m. AList.update (fmKey m) (chargingToDER (lookupW (splitTarget (fleetTargetW t (deliveredWh d') now (max (minStep d) (lastStep d))) ms) (fmKey m))) out) [] ms"
  using assms by (auto simp: dispatchPlan_def accountStep_def Let_def split: option.splits if_splits)

lemma plan_lookup:
  assumes "dispatchPlan d now ms = (Some plan, d')" "fleet_ok ms" "terms d = Some t"
    "fleetTargetW t (deliveredWh d') now (max (minStep d) (lastStep d)) = Fin w" "m \<in> set ms"
  shows "map_of plan (fmKey m) = Some (Fin (- share w ms m))"
proof -
  have pl: "plan = foldl (\<lambda>out m. if True then AList.update (fmKey m) (chargingToDER (lookupW (splitTarget (Fin w) ms) (fmKey m))) out else out) [] ms"
    using dispatchPlan_elim [OF assms(1)] assms(3,4) by force
  have d: "distinct (map fmKey ms)" using assms(2) by (simp add: fleet_ok_def)
  show ?thesis
    unfolding pl foldl_update_lookup [OF d] find_key [OF d assms(5)] by (simp add: splitTarget_share [OF assms(2,5)] chargingToDER_def)
qed

text \<open>What a step inside a grant commands: every battery gets a setpoint, which never exceeds what it can move in the
  direction of the target (nothing at all when it is down, full while charging or empty while discharging), never opposes the
  target, and the setpoints together are the target, as far as the fleet can follow it.\<close>

theorem plan_shares_the_target:
  assumes "dispatchPlan d now ms = (Some plan, d')" "fleet_ok ms" "terms d = Some t"
    "fleetTargetW t (deliveredWh d') now (max (minStep d) (lastStep d)) = Fin w"
  shows "(\<forall>m\<in>set ms. \<exists>s. map_of plan (fmKey m) = Some (Fin s) \<and> \<bar>s\<bar> \<le> headroom (w > 0) m \<and> s * w \<le> 0) \<and>
    (\<exists>s. (\<forall>m\<in>set ms. map_of plan (fmKey m) = Some (Fin (s m))) \<and>
       - sum_list (map s ms) = sgn w * min \<bar>w\<bar> (sum_list (map (headroom (w > 0)) ms)))"
proof -
  have l: "map_of plan (fmKey m) = Some (Fin (- share w ms m))" if "m \<in> set ms" for m by (rule plan_lookup [OF assms that])
  have "- sum_list (map (\<lambda>m. - share w ms m) ms) = sgn w * min \<bar>w\<bar> (sum_list (map (headroom (w > 0)) ms))"
    using share_sum [OF assms(2), of w] uminus_sum_list_map [of "share w ms" ms] by (simp add: comp_def)
  then show ?thesis using l share_bounds [OF assms(2), of _ w] by (intro conjI ballI exI [of _ "\<lambda>m. - share w ms m"]) auto
qed

section \<open>The energy of a grant\<close>

lemma fleetTarget_spec:
  assumes "gtEnergyWh t = Fin e" "gtPowerW t = Fin p" "0 \<le> p" "sg * e = \<bar>e\<bar>" "e \<noteq> 0" "sg = 1 \<or> sg = - 1"
  shows "\<exists>w. fleetTargetW t (Fin x) now step = Fin (sg * w) \<and> 0 \<le> w \<and> w \<le> p \<and> w * (of_int step / 3600000000000) \<le> max 0 (\<bar>e\<bar> - sg * x)"
proof (cases "now < gtStart t \<or> \<not> now < gtEnd t \<or> step \<le> 0 \<or> \<bar>e\<bar> - sg * x \<le> 0")
  case True
  have dir: "(if Fin e < 0 then Fin (- 1) else Fin 1) = Fin sg" using assms(4-6) by (auto simp: abs_if)
  have "fleetTargetW t (Fin x) now step = Fin 0" using True unfolding fleetTargetW_def assms(1) dir Let_def by auto
  then show ?thesis using assms(3) by (intro exI [of _ 0]) simp
next
  case False
  define rem where "rem = \<bar>e\<bar> - sg * x"
  define left where "left = real_of_int (timeSub (gtEnd t) now) / 1000000000"
  define st where "st = real_of_int step / 1000000000"
  have pos: "0 < rem" "0 < st" "0 < left" using False timeSub_pos_iff [of "gtEnd t" now] by (auto simp: rem_def st_def left_def)
  define w where "w = min p (min (rem * 3600 / left) (rem * 3600 / st))"
  have dir: "(if Fin e < 0 then Fin (- 1) else Fin 1) = Fin sg" using assms(4-6) by (auto simp: abs_if)
  have "fleetTargetW t (Fin x) now step = Fin sg * fmin (Fin p) (fmin (Fin rem * Fin 3600 div Fin left) (Fin rem * Fin 3600 div Fin st))"
    using False pos(1) unfolding fleetTargetW_def assms(1,2) dir Let_def toSeconds_def by (simp add: rem_def left_def st_def)
  also have "\<dots> = Fin (sg * w)" using pos by (simp add: w_def)
  finally have "fleetTargetW t (Fin x) now step = Fin (sg * w)" .
  moreover have "0 \<le> w" using pos assms(3) by (simp add: w_def)
  moreover have "w * (st / 3600) \<le> rem * 3600 / st * (st / 3600)" using pos by (intro mult_right_mono) (simp_all add: w_def)
  then have "w * (of_int step / 3600000000000) \<le> rem" using pos(2) by (simp add: st_def)
  then have "w * (of_int step / 3600000000000) \<le> max 0 (\<bar>e\<bar> - sg * x)" unfolding rem_def by linarith
  moreover have "w \<le> p" by (simp add: w_def)
  ultimately show ?thesis by blast
qed

text \<open>The life of a dispatcher: a grant installed or dropped, a step planned and what it achieved.\<close>

datatype dispEvent = DGrant "grantTerms option" | DStep time "fleetMember list" f64

fun dispRun :: "dispatcher \<Rightarrow> dispEvent list \<Rightarrow> dispatcher" where
  "dispRun d [] = d"
| "dispRun d (DGrant t # es) = dispRun (setGrant t d) es"
| "dispRun d (DStep now ms a # es) = dispRun (recordAchieved a (snd (dispatchPlan d now ms))) es"

definition terms_of :: "real \<Rightarrow> real \<Rightarrow> grantTerms \<Rightarrow> bool" where
  "terms_of sg B t \<longleftrightarrow> (\<exists>e p. gtEnergyWh t = Fin e \<and> gtPowerW t = Fin p \<and> 0 \<le> p \<and> e \<noteq> 0 \<and> sg * e = \<bar>e\<bar> \<and> \<bar>e\<bar> \<le> B)"

text \<open>The power the setpoints of a plan ask the fleet to take; a setpoint is a discharge.\<close>

definition commanded :: "fleetMember list \<Rightarrow> (string \<times> f64) list \<Rightarrow> real" where
  "commanded ms plan = - sum_list (map (\<lambda>m. realOf (lookupW plan (fmKey m))) ms)"

text \<open>What the cap rests on: every grant asks for at most \<open>B\<close> in the direction \<open>sg\<close>; a step comes no later after
  the one before than that one assumed; and inside a grant the fleet, whose ratings are numbers, moves power in the grant's
  direction and no more than its setpoints.\<close>

definition followsPlan :: "real \<Rightarrow> fleetMember list \<Rightarrow> (string \<times> f64) list option \<Rightarrow> f64 \<Rightarrow> bool" where
  "followsPlan sg ms po a \<longleftrightarrow> (\<forall>plan. po = Some plan \<longrightarrow>
     fleet_ok ms \<and> (\<exists>r. a = Fin r \<and> 0 \<le> sg * r \<and> sg * r \<le> sg * commanded ms plan))"

fun obeys :: "real \<Rightarrow> real \<Rightarrow> duration \<Rightarrow> dispatcher \<Rightarrow> dispEvent list \<Rightarrow> bool" where
  "obeys sg B bound d [] \<longleftrightarrow> True"
| "obeys sg B bound d (DGrant t # es) \<longleftrightarrow> (\<forall>x. t = Some x \<longrightarrow> terms_of sg B x) \<and> obeys sg B bound (setGrant t d) es"
| "obeys sg B bound d (DStep now ms a # es) \<longleftrightarrow> now \<noteq> zeroTime \<and> (lastAt d \<noteq> zeroTime \<longrightarrow> now - lastAt d \<le> bound) \<and>
     followsPlan sg ms (fst (dispatchPlan d now ms)) a \<and>
     obeys sg B (max (minStep d) (lastStep d)) (recordAchieved a (snd (dispatchPlan d now ms))) es"

text \<open>The energy really moved inside the grants, as the integral of the power over time: what a step inside a grant moves
  is held until the next step, and belongs to the grant up to the end of the grant then in force.\<close>

definition heldWh :: "grantTerms option \<Rightarrow> (real \<times> time) option \<Rightarrow> time \<Rightarrow> real" where
  "heldWh g h now = (case h of None \<Rightarrow> 0 | Some (r, since) \<Rightarrow>
     r * of_int (max 0 ((case g of None \<Rightarrow> now | Some t \<Rightarrow> min now (gtEnd t)) - since)) / 3600000000000)"

definition inGrant :: "grantTerms option \<Rightarrow> time \<Rightarrow> bool" where
  "inGrant g now \<longleftrightarrow> (\<exists>t. g = Some t \<and> gtStart t \<le> now \<and> now < gtEnd t)"

fun movedWh :: "grantTerms option \<Rightarrow> (real \<times> time) option \<Rightarrow> dispEvent list \<Rightarrow> real" where
  "movedWh g h [] = 0"
| "movedWh g h (DGrant t # es) = movedWh t h es"
| "movedWh g h (DStep now ms a # es) =
     heldWh g h now + movedWh g (if inGrant g now then Some (realOf a, now) else None) es"

definition energy_inv :: "real \<Rightarrow> real \<Rightarrow> duration \<Rightarrow> dispatcher \<Rightarrow> bool" where
  "energy_inv sg B bound d \<longleftrightarrow> (\<forall>t. terms d = Some t \<longrightarrow> terms_of sg B t) \<and>
     (\<exists>x. deliveredWh d = Fin x \<and> 0 \<le> sg * x \<and> sg * x \<le> B \<and>
       (prevInside d \<longrightarrow> (\<exists>r. lastAchieved d = Fin r \<and> 0 \<le> sg * r \<and> sg * x + sg * r * (of_int bound / 3600000000000) \<le> B)))"

lemma accountStep_energy:
  assumes "energy_inv sg B bound d" "lastAt d \<noteq> zeroTime \<longrightarrow> now - lastAt d \<le> bound"
    "elapsed = (if lastAt d = zeroTime then 0 else timeSub now (lastAt d))"
  shows "\<exists>x. accountStep d now elapsed = d\<lparr>deliveredWh := Fin x\<rparr> \<and> 0 \<le> sg * x \<and> sg * x \<le> B"
proof -
  obtain x where x: "deliveredWh d = Fin x" "0 \<le> sg * x" "sg * x \<le> B"
    and r: "prevInside d \<longrightarrow> (\<exists>r. lastAchieved d = Fin r \<and> 0 \<le> sg * r \<and> sg * x + sg * r * (of_int bound / 3600000000000) \<le> B)"
    using assms(1) by (auto simp: energy_inv_def)
  define until where "until t = (if gtEnd t < now then gtEnd t else now)" for t :: grantTerms
  show ?thesis
  proof (cases "\<exists>t. terms d = Some t \<and> prevInside d \<and> elapsed > 0 \<and> timeSub (until t) (lastAt d) > 0")
    case False
    then have "accountStep d now elapsed = d" by (auto simp: accountStep_def until_def Let_def split: option.splits)
    then show ?thesis using x by (intro exI [of _ x]) simp
  next
    case True
    then obtain t where t: "terms d = Some t" "prevInside d" "elapsed > 0" "timeSub (until t) (lastAt d) > 0" by blast
    obtain r where r: "lastAchieved d = Fin r" "0 \<le> sg * r" "sg * x + sg * r * (of_int bound / 3600000000000) \<le> B" using r t(2) by blast
    define span where "span = timeSub (until t) (lastAt d)"
    have "lastAt d \<noteq> zeroTime" using t(3) assms(3) by auto
    then have "now - lastAt d \<le> bound" using assms(2) by blast
    moreover have "span \<le> until t - lastAt d" using t(4) by (auto simp: span_def timeSub_def minInt64_def maxInt64_def)
    moreover have "until t \<le> now" by (simp add: until_def)
    ultimately have sp: "span \<le> bound" "0 < span" using t(4) by (simp_all add: span_def)
    have "sg * r * (of_int span / 3600000000000) \<le> sg * r * (of_int bound / 3600000000000)" using sp(1) r(2) by (intro mult_left_mono) simp_all
    moreover have "accountStep d now elapsed = d\<lparr>deliveredWh := Fin (x + r * (of_int span / 3600000000000))\<rparr>"
      using t r(1) x(1) by (simp add: accountStep_def until_def span_def Let_def toHours_def)
    moreover have "0 \<le> sg * r * (of_int span / 3600000000000)" using r(2) sp(2) by simp
    ultimately show ?thesis using x r(3) by (intro exI [of _ "x + r * (of_int span / 3600000000000)"]) (simp add: algebra_simps)
  qed
qed

lemma dispatchPlan_terms: "terms (snd (dispatchPlan d now ms)) = terms d"
proof -
  have "terms (accountStep d now el) = terms d" for el by (simp add: accountStep_def Let_def split: option.splits)
  then show ?thesis by (auto simp: dispatchPlan_def Let_def split: option.splits)
qed

lemma sg_cancel: "sg = 1 \<or> sg = - (1::real) \<Longrightarrow> sg * (sg * w) = w"
  by auto

lemma dispatchPlan_inside:
  "prevInside (snd (dispatchPlan d now ms)) \<longleftrightarrow> inGrant (terms d) now"
  "fst (dispatchPlan d now ms) \<noteq> None \<longleftrightarrow> inGrant (terms d) now"
proof -
  have "terms (accountStep d now el) = terms d" for el by (simp add: accountStep_def Let_def split: option.splits)
  then show "prevInside (snd (dispatchPlan d now ms)) \<longleftrightarrow> inGrant (terms d) now"
    "fst (dispatchPlan d now ms) \<noteq> None \<longleftrightarrow> inGrant (terms d) now"
    by (auto simp: dispatchPlan_def inGrant_def Let_def split: option.splits)
qed

text \<open>The setpoints of a plan ask for the target, as far as the fleet can follow it.\<close>

lemma commanded_shares:
  assumes "fleet_ok ms" "\<And>m. m \<in> set ms \<Longrightarrow> map_of plan (fmKey m) = Some (Fin (- share w ms m))"
  shows "commanded ms plan = sgn w * min \<bar>w\<bar> (sum_list (map (headroom (w > 0)) ms))"
proof -
  have "map (\<lambda>m. realOf (lookupW plan (fmKey m))) ms = map (\<lambda>m. - share w ms m) ms"
    using assms(2) by (intro map_cong) (auto simp: lookupW_def)
  then have "commanded ms plan = - sum_list (map (\<lambda>m. - share w ms m) ms)" unfolding commanded_def by (simp only:)
  also have "\<dots> = sum_list (map (share w ms) ms)" using uminus_sum_list_map [of "share w ms" ms] by (simp add: comp_def)
  finally show ?thesis by (simp add: share_sum [OF assms(1)])
qed

lemma commanded_target:
  assumes "dispatchPlan d now ms = (Some plan, d')" "fleet_ok ms" "terms d = Some t"
    "fleetTargetW t (deliveredWh d') now (max (minStep d) (lastStep d)) = Fin (sg * w)" "0 \<le> w" "sg = 1 \<or> sg = - 1"
  shows "0 \<le> sg * commanded ms plan \<and> sg * commanded ms plan \<le> w"
proof -
  let ?H = "sum_list (map (headroom (sg * w > 0)) ms)"
  have nn: "0 \<le> ?H" using headroom_Fin [OF assms(2)] by (intro sum_list_nonneg) auto
  have "commanded ms plan = sgn (sg * w) * min \<bar>sg * w\<bar> ?H"
    using commanded_shares [OF assms(2) plan_lookup [OF assms(1-4)]] .
  then show ?thesis using assms(5,6) nn by (auto simp: sgn_if)
qed

lemma energy_inv_step:
  assumes "energy_inv sg B bound d" "obeys sg B bound d (DStep now ms a # es)" "sg = 1 \<or> sg = - 1"
  shows "energy_inv sg B (max (minStep d) (lastStep d)) (recordAchieved a (snd (dispatchPlan d now ms)))"
proof -
  define elapsed where "elapsed = (if lastAt d = zeroTime then 0 else timeSub now (lastAt d))"
  define step where "step = max (minStep d) (lastStep d)"
  obtain x where x: "accountStep d now elapsed = d\<lparr>deliveredWh := Fin x\<rparr>" "0 \<le> sg * x" "sg * x \<le> B"
    using accountStep_energy [OF assms(1), of now elapsed] assms(2) elapsed_def by auto
  obtain po d' where p: "dispatchPlan d now ms = (po, d')" by (rule prod.exhaust)
  have d': "terms d' = terms d" "deliveredWh d' = Fin x" using p
    by (auto simp: dispatchPlan_def elapsed_def [symmetric] x(1) Let_def split: option.splits if_splits)
  have t: "\<forall>t. terms d = Some t \<longrightarrow> terms_of sg B t" using assms(1) by (simp add: energy_inv_def)
  have "\<exists>r. a = Fin r \<and> 0 \<le> sg * r \<and> sg * x + sg * r * (of_int step / 3600000000000) \<le> B" if ins: "prevInside d'"
  proof -
    obtain plan where plan: "dispatchPlan d now ms = (Some plan, d')"
      using dispatchPlan_inside [of d now ms] ins p by auto
    then obtain tt where tt: "terms d = Some tt" by (auto elim: dispatchPlan_elim)
    then obtain e p where ep: "gtEnergyWh tt = Fin e" "gtPowerW tt = Fin p" "0 \<le> p" "e \<noteq> 0" "sg * e = \<bar>e\<bar>" "\<bar>e\<bar> \<le> B"
      using t by (auto simp: terms_of_def)
    obtain w where w: "fleetTargetW tt (Fin x) now step = Fin (sg * w)" "0 \<le> w" "w * (of_int step / 3600000000000) \<le> max 0 (\<bar>e\<bar> - sg * x)"
      using fleetTarget_spec [OF ep(1-3,5,4) assms(3)] by blast
    obtain r where r: "fleet_ok ms" "a = Fin r" "0 \<le> sg * r" "sg * r \<le> sg * commanded ms plan"
      using assms(2) plan by (auto simp: followsPlan_def)
    then have rw: "sg * r \<le> w"
      using commanded_target [OF plan r(1) tt _ w(2) assms(3)] w(1) d'(2) by (simp add: step_def)
    have "w = 0" if "\<not> step > 0" using w(1) assms(3) that by (auto simp: fleetTargetW_def)
    then have "step > 0 \<or> w = 0" by blast
    then have "sg * r * (of_int step / 3600000000000) \<le> w * (of_int step / 3600000000000)"
    proof
      assume "step > 0"
      then show ?thesis using rw by (intro mult_right_mono) simp_all
    qed (use rw r in auto)
    then have "sg * x + sg * r * (of_int step / 3600000000000) \<le> B" using w(3) ep(6) x(3) by linarith
    then show ?thesis using r by blast
  qed
  then show ?thesis using t x d' p unfolding energy_inv_def recordAchieved_def step_def [symmetric] by simp
qed

lemma energy_inv_run:
  "energy_inv sg B bound d \<Longrightarrow> obeys sg B bound d es \<Longrightarrow> sg = 1 \<or> sg = - 1 \<Longrightarrow> \<exists>b. energy_inv sg B b (dispRun d es)"
proof (induction sg B bound d es rule: obeys.induct)
  case (2 sg B bound d t es)
  have "energy_inv sg B bound (setGrant t d)" using 2(2,3) by (auto simp: energy_inv_def setGrant_def)
  then show ?case using 2 by simp
next
  case (3 sg B bound d now ms a es)
  have "energy_inv sg B (max (minStep d) (lastStep d)) (recordAchieved a (snd (dispatchPlan d now ms)))"
    using energy_inv_step [OF 3(2) 3(3) 3(4)] .
  then show ?case using 3 by simp
qed auto

text \<open>The counter against the integral: \<open>h\<close> is the power being held and since when.\<close>

definition counts :: "dispatcher \<Rightarrow> grantTerms option \<Rightarrow> (real \<times> time) option \<Rightarrow> real \<Rightarrow> bool" where
  "counts d g h x \<longleftrightarrow> terms d = g \<and> deliveredWh d = Fin x \<and> lastStep d \<le> maxInt64 \<and> minStep d \<le> maxInt64 \<and>
     (h \<noteq> None \<longrightarrow> g \<noteq> None) \<and> (if prevInside d then \<exists>r. lastAchieved d = Fin r \<and> h = Some (r, lastAt d) \<and> lastAt d \<noteq> zeroTime else h = None)"

lemma accountStep_counts:
  assumes "counts d g h x" "lastAt d \<noteq> zeroTime \<longrightarrow> now - lastAt d \<le> bound" "bound \<le> maxInt64"
    "elapsed = (if lastAt d = zeroTime then 0 else timeSub now (lastAt d))"
  shows "accountStep d now elapsed = d\<lparr>deliveredWh := Fin (x + heldWh g h now)\<rparr>"
proof (cases h)
  case None
  then have "\<not> prevInside d" "deliveredWh d = Fin x" using assms(1) by (auto simp: counts_def split: if_splits)
  then have "accountStep d now elapsed = d" "d\<lparr>deliveredWh := Fin x\<rparr> = d" by (simp_all add: accountStep_def split: option.splits)
  then show ?thesis using None by (simp add: heldWh_def)
next
  case (Some p)
  then obtain r t where c: "prevInside d" "lastAchieved d = Fin r" "h = Some (r, lastAt d)" "lastAt d \<noteq> zeroTime" "g = Some t"
      "terms d = Some t" "deliveredWh d = Fin x" using assms(1) by (auto simp: counts_def split: if_splits)
  define until where "until = (if gtEnd t < now then gtEnd t else now)"
  have u: "until = min now (gtEnd t)" by (simp add: until_def)
  have near: "until - lastAt d \<le> maxInt64" using assms(2,3) c(4) u by linarith
  have sp: "timeSub until (lastAt d) > 0 \<longleftrightarrow> lastAt d < until" by (rule timeSub_pos_iff)
  show ?thesis
  proof (cases "lastAt d < until")
    case True
    then have "timeSub until (lastAt d) = until - lastAt d" using near by (intro timeSub_id) simp
    moreover have "elapsed > 0" using True u assms(4) c(4) timeSub_pos_iff [of now "lastAt d"] by simp
    ultimately show ?thesis using True sp c u
      by (simp add: accountStep_def until_def [symmetric] toHours_def heldWh_def Let_def)
  next
    case False
    then have "accountStep d now elapsed = d" using sp c
      by (simp add: accountStep_def until_def [symmetric] Let_def)
    moreover have "max 0 (min now (gtEnd t) - lastAt d) = 0" using False unfolding u by (auto simp: min_def max_def)
    then have "heldWh g h now = 0" using c by (simp add: heldWh_def)
    moreover have "d\<lparr>deliveredWh := Fin x\<rparr> = d" using c(7) by (cases d) simp
    ultimately show ?thesis by simp
  qed
qed

lemma counts_step:
  assumes "counts d g h x" "obeys sg B bound d (DStep now ms a # es)" "bound \<le> maxInt64"
  shows "counts (recordAchieved a (snd (dispatchPlan d now ms))) g (if inGrant g now then Some (realOf a, now) else None)
    (x + heldWh g h now)"
proof -
  define elapsed where "elapsed = (if lastAt d = zeroTime then 0 else timeSub now (lastAt d))"
  have acc: "accountStep d now elapsed = d\<lparr>deliveredWh := Fin (x + heldWh g h now)\<rparr>"
    using accountStep_counts [OF assms(1) _ assms(3) elapsed_def] assms(2) by simp
  have el: "elapsed \<le> maxInt64" by (auto simp: elapsed_def timeSub_def maxInt64_def minInt64_def)
  define d' where "d' = snd (dispatchPlan d now ms)"
  have d': "terms d' = g" "deliveredWh d' = Fin (x + heldWh g h now)" "lastStep d' = elapsed" "lastAt d' = now" "minStep d' = minStep d"
    using assms(1) by (auto simp: d'_def dispatchPlan_def elapsed_def [symmetric] acc Let_def counts_def split: option.splits)
  have ins: "prevInside d' \<longleftrightarrow> inGrant g now"
    using dispatchPlan_inside(1) [of d now ms] assms(1) by (simp add: d'_def counts_def)
  have "\<exists>r. a = Fin r" if g: "inGrant g now"
  proof -
    have "fst (dispatchPlan d now ms) \<noteq> None" using dispatchPlan_inside(2) [of d now ms] g assms(1) by (simp add: counts_def)
    then show ?thesis using assms(2) by (auto simp: followsPlan_def)
  qed
  moreover have "inGrant g now \<Longrightarrow> g \<noteq> None" by (auto simp: inGrant_def)
  ultimately show ?thesis using d' ins el assms(1,2)
    unfolding d'_def [symmetric] by (auto simp: counts_def recordAchieved_def)
qed

lemma counts_run:
  "counts d g h x \<Longrightarrow> obeys sg B bound d es \<Longrightarrow> bound \<le> maxInt64 \<Longrightarrow> DGrant None \<notin> set es \<Longrightarrow>
     deliveredWh (dispRun d es) = Fin (x + movedWh g h es)"
proof (induction sg B bound d es arbitrary: g h x rule: obeys.induct)
  case (1 sg B bound d)
  then show ?case by (simp add: counts_def)
next
  case (2 sg B bound d t es)
  have "counts (setGrant t d) t h x" using 2(2,5) by (cases t) (auto simp: counts_def setGrant_def)
  then show ?case using 2 by simp
next
  case (3 sg B bound d now ms a es)
  have b: "max (minStep d) (lastStep d) \<le> maxInt64" using 3(2) by (simp add: counts_def)
  from 3(1) [OF counts_step [OF 3(2-4)] _ b] 3(3,5) show ?case by (simp add: add.assoc)
qed

text \<open>C20: The energy of a grant is not overdrawn. Over any sequence of steps, grants, revisions and revocations in one
  direction, the energy the dispatcher has counted stays between zero and the largest granted energy; and as long as no
  grant is revoked on the way, what it has counted is exactly the energy the fleet has really moved inside the grants, the
  integral of its power over time, so that energy too stays within the grant, at every step and (taking the instant as one
  more step) at every instant until the next step is due. This assumes what the dispatcher cannot enforce: no step comes
  later than the step before it assumed (the longer of the configured step and the interval that ended when the step before
  it was planned), and inside a grant the batteries, whose ratings are numbers, move power in the grant's direction and
  together no more than the setpoints of the plan ask for.\<close>

theorem granted_energy_not_overdrawn:
  assumes "sg = 1 \<or> sg = - 1" "0 \<le> B" "ms \<le> maxInt64" "obeys sg B 0 (newDispatcher ms) es"
  shows "\<exists>x. deliveredWh (dispRun (newDispatcher ms) es) = Fin x \<and> 0 \<le> sg * x \<and> sg * x \<le> B \<and>
    (DGrant None \<notin> set es \<longrightarrow> x = movedWh None None es)"
proof -
  have "energy_inv sg B 0 (newDispatcher ms)" using assms(2) by (simp add: energy_inv_def newDispatcher_def)
  then obtain x where x: "deliveredWh (dispRun (newDispatcher ms) es) = Fin x" "0 \<le> sg * x" "sg * x \<le> B"
    using energy_inv_run [OF _ assms(4,1)] by (auto simp: energy_inv_def)
  have "counts (newDispatcher ms) None None 0" using assms(3) by (simp add: counts_def newDispatcher_def maxInt64_def)
  from counts_run [OF this assms(4)] x show ?thesis by (auto simp: maxInt64_def)
qed

text \<open>Energy moved in a step whose grant was dropped before the next one is never counted.\<close>

lemma dropped_grant_not_counted: "deliveredWh (dispRun d [DGrant None, DStep now ms a, DGrant t]) = deliveredWh d"
  by (simp add: dispatchPlan_def accountStep_def setGrant_def recordAchieved_def Let_def)

section \<open>Examples\<close>

definition demoFacts :: requestFacts where
  "demoFacts = \<lparr>rfStart = 0, rfEnd = 3600000000000, rfEnergyWh = Fin (- 500), rfPowerW = Fin 1000\<rparr>"

definition demoGrant :: FlowReservationResponse where
  "demoGrant = \<lparr>frpMRID = ''r'', frpSubject = ''q'', frpEventStatus = None, frpCreationTime = 5,
     frpInterval = Some \<lparr>Start = 600, Duration = 7200\<rparr>, EnergyAvailable = Some \<lparr>seMultiplier = 2, seValue = 9\<rparr>,
     PowerAvailable = Some \<lparr>apMultiplier = 0, apValue = 700\<rparr>, frpReplyTo = [], frpResponseRequired = None\<rparr>"

definition demoTerms :: grantTerms where
  "demoTerms = \<lparr>gtResponseMRID = ''r'', gtStart = 600000000000, gtEnd = 3600000000000, gtEnergyWh = Fin (- 500), gtPowerW = Fin 700,
     Clipped = [EnergySign (Fin (- 500)) (Fin 900), PowerSign (Fin 1000) (Fin 700), EnergyAbove (Fin 900) (Fin 500),
       IntervalClipped 600000000000 7800000000000]\<rparr>"

lemma demo_judge: "judge [demoGrant] ''q'' demoFacts 60000000000 0 = (answerGranted, demoTerms)"
  by (simp add: judge_def firstAnswer_def effectiveResponse_def liveStatus_def demoGrant_def demoFacts_def demoTerms_def readGrant_def
      clipNotes_def direction_def scaled_def pow10_def unixTime_def seconds_id Let_def)

theorem grants_stay_within_request_witness:
  "terms_within demoFacts (- 500) 1000 demoTerms \<and> (\<exists>r. newest (live_answers [demoGrant] ''q'') r \<and> gtResponseMRID demoTerms = frpMRID r)"
proof -
  have "rfEnergyWh demoFacts = Fin (- 500)" "rfPowerW demoFacts = Fin 1000" by (simp_all add: demoFacts_def)
  note g = grants_stay_within_request [OF demo_judge this]
  show ?thesis using g by (simp add: dispatches_def)
qed

definition demoSettings :: frqSettings where
  "demoSettings = \<lparr>fsEnergyWh = Fin (- 2500), fsPowerW = Fin 50000, StartInS = 300, DurationS = 3600, MinLeadS = 60, GraceS = 30\<rparr>"

definition demoReq :: FlowReservationRequest where
  "demoReq = \<lparr>frqMRID = ''q'', frqHref = [], frqCreationTime = 1, EnergyRequested = Some \<lparr>seMultiplier = 0, seValue = - 2500\<rparr>,
     PowerRequested = Some \<lparr>apMultiplier = 1, apValue = - 5000\<rparr>, IntervalRequested = Some \<lparr>Start = 301, Duration = 3600\<rparr>,
     rsDateTime = 1, rsStatus = RequestStatusRequested\<rparr>"

lemma demo_build: "buildFlowRequest demoSettings 1000000000 ''q'' = Inr demoReq"
proof -
  have rd: "roundHalfAway (- 2500) = - 2500" "roundHalfAway (- 50000) = - 50000"
    using roundHalfAway_of_int [of "- 2500"] roundHalfAway_of_int [of "- 50000"] by simp_all
  have l: "scaleLoop (- 50000) 0 = Some (- 5000, 1)" by (simp add: scaleLoop.simps maxInt16_def goDiv10_def)
  have t: "truncReal (- 50000) = - 50000" "truncReal (- 2500) = - 2500" using truncReal_of_int [of "- 50000"] truncReal_of_int [of "- 2500"] by simp_all
  show ?thesis
    by (simp add: buildFlowRequest_def demoSettings_def demoReq_def signedEnergy_def activePower_def Let_def rd l t maxInt48_def maxUint32_def
        maxStartInS_def minInt64_def maxInt64_def toUnix_def seconds_id)
qed

lemma demo_facts: "factsOf demoReq = \<lparr>rfStart = 301000000000, rfEnd = 3901000000000, rfEnergyWh = Fin (- 2500), rfPowerW = Fin 50000\<rparr>"
  by (simp add: factsOf_def demoReq_def unixTime_def seconds_id scaled_def pow10_def)

theorem request_says_what_was_asked_witness:
  "factsOf demoReq = \<lparr>rfStart = 301000000000, rfEnd = 3901000000000, rfEnergyWh = fround (Fin (- 2500)), rfPowerW = fround (Fin 50000)\<rparr> \<and>
     frqMRID demoReq = ''q''"
  using request_says_what_was_asked [OF demo_build] by (simp add: demoSettings_def toUnix_def unixTime_def seconds_id)

definition demoMembers :: "fleetMember list" where
  "demoMembers = [\<lparr>fmKey = ''a'', fmRatedW = Fin 300, up = True, fmSoc = Fin 0, knownSOC = True\<rparr>,
     \<lparr>fmKey = ''b'', fmRatedW = Fin 100, up = True, fmSoc = Fin (1 / 2), knownSOC = True\<rparr>]"

definition demoCharge :: grantTerms where
  "demoCharge = noTerms\<lparr>gtStart := 0, gtEnd := 3600000000000, gtEnergyWh := Fin 100, gtPowerW := Fin 1000\<rparr>"

definition demoDisp :: dispatcher where
  "demoDisp = setGrant (Some demoCharge) (newDispatcher 60000000000)"

lemma demo_target: "fleetTargetW demoCharge (Fin 0) 0 60000000000 = Fin 100"
  by (simp add: fleetTargetW_def demoCharge_def toSeconds_def timeSub_def minInt64_def maxInt64_def Let_def)

lemma demo_plan: "\<exists>plan. dispatchPlan demoDisp 0 demoMembers = (Some plan, demoDisp\<lparr>lastAt := 0, prevInside := True\<rparr>)"
  by (simp add: dispatchPlan_def demoDisp_def setGrant_def newDispatcher_def accountStep_def demoCharge_def Let_def)

theorem plan_shares_the_target_witness:
  "\<exists>plan s. fst (dispatchPlan demoDisp 0 demoMembers) = Some plan \<and> map_of plan ''b'' = Some (Fin s) \<and> \<bar>s\<bar> \<le> 100 \<and> s \<le> 0"
proof -
  obtain plan where p: "dispatchPlan demoDisp 0 demoMembers = (Some plan, demoDisp\<lparr>lastAt := 0, prevInside := True\<rparr>)" using demo_plan by blast
  have ok: "fleet_ok demoMembers" by (auto simp: fleet_ok_def demoMembers_def)
  have t: "terms demoDisp = Some demoCharge" "deliveredWh (demoDisp\<lparr>lastAt := 0, prevInside := True\<rparr>) = Fin 0"
    "max (minStep demoDisp) (lastStep demoDisp) = 60000000000" by (simp_all add: demoDisp_def setGrant_def newDispatcher_def)
  have b: "\<lparr>fmKey = ''b'', fmRatedW = Fin 100, up = True, fmSoc = Fin (1 / 2), knownSOC = True\<rparr> \<in> set demoMembers" by (simp add: demoMembers_def)
  show ?thesis
    using plan_shares_the_target [OF p ok t(1), unfolded t(2,3), OF demo_target] b p by (fastforce simp: headroom_def headroomW_def)
qed

lemma demo_fleet: "fleet_ok demoMembers"
  by (auto simp: fleet_ok_def demoMembers_def)

lemma demo_commanded:
  assumes "dispatchPlan demoDisp 0 demoMembers = (Some plan, demoDisp\<lparr>lastAt := 0, prevInside := True\<rparr>)"
  shows "commanded demoMembers plan = 100"
proof -
  have H: "sum_list (map (headroom True) demoMembers) = 400"
    by (simp add: demoMembers_def headroom_def headroomW_def)
  have t: "terms demoDisp = Some demoCharge" "deliveredWh demoDisp = Fin 0" "max (minStep demoDisp) (lastStep demoDisp) = 60000000000"
    by (simp_all add: demoDisp_def setGrant_def newDispatcher_def)
  have "map_of plan (fmKey m) = Some (Fin (- share 100 demoMembers m))" if "m \<in> set demoMembers" for m
    using plan_lookup [OF assms demo_fleet t(1) _ that] demo_target t(2,3) by simp
  then show ?thesis using commanded_shares [OF demo_fleet, of plan 100] H by simp
qed

theorem granted_energy_not_overdrawn_witness:
  "deliveredWh (dispRun (newDispatcher 60000000000)
      [DGrant (Some demoCharge), DStep 0 demoMembers (Fin 100), DStep 60000000000 demoMembers (Fin 0)]) = Fin (5 / 3)"
proof -
  let ?es = "[DGrant (Some demoCharge), DStep 0 demoMembers (Fin 100), DStep 60000000000 demoMembers (Fin 0)]"
  have tm: "terms_of 1 100 demoCharge" by (simp add: terms_of_def demoCharge_def)
  have f: "deliveredWh demoDisp = Fin 0" "terms demoDisp = Some demoCharge" "minStep demoDisp = 60000000000" "lastStep demoDisp = 0"
    "lastAt demoDisp = zeroTime" by (simp_all add: demoDisp_def setGrant_def newDispatcher_def)
  obtain plan where p: "dispatchPlan demoDisp 0 demoMembers = (Some plan, demoDisp\<lparr>lastAt := 0, prevInside := True\<rparr>)"
    using demo_plan by blast
  have one: "followsPlan 1 demoMembers (Some plan) (Fin 100)"
    using demo_commanded [OF p] demo_fleet by (simp add: followsPlan_def)
  let ?d = "recordAchieved (Fin 100) (demoDisp\<lparr>lastAt := 0, prevInside := True\<rparr>)"
  have i: "energy_inv 1 100 60000000000 ?d" using tm by (simp add: energy_inv_def recordAchieved_def f)
  obtain x where x: "accountStep ?d 60000000000 60000000000 = ?d\<lparr>deliveredWh := Fin x\<rparr>"
    using accountStep_energy [OF i, of 60000000000 60000000000] by (auto simp: recordAchieved_def zeroTime_def timeSub_def minInt64_def maxInt64_def)
  obtain po d2 where p2: "dispatchPlan ?d 60000000000 demoMembers = (po, d2)" by (rule prod.exhaust)
  have d2: "deliveredWh d2 = Fin x"
    using x p2 by (auto simp: dispatchPlan_def recordAchieved_def zeroTime_def timeSub_def minInt64_def maxInt64_def Let_def
        split: option.splits if_splits)
  obtain w where w: "fleetTargetW demoCharge (Fin x) 60000000000 60000000000 = Fin (1 * w)" "0 \<le> w"
    "w * (of_int 60000000000 / 3600000000000) \<le> max 0 (100 - x)"
    using fleetTarget_spec [of demoCharge 100 1000 1 x 60000000000 60000000000] by (auto simp: demoCharge_def)
  have td: "terms ?d = Some demoCharge" "max (minStep ?d) (lastStep ?d) = 60000000000" by (simp_all add: recordAchieved_def f)
  have "followsPlan 1 demoMembers po (Fin 0)"
    using commanded_target [of ?d 60000000000 demoMembers _ d2 demoCharge 1 w, OF _ demo_fleet td(1) _ w(2)] w(1) d2 p2 td(2) demo_fleet
    by (auto simp: followsPlan_def)
  then have "obeys 1 100 60000000000 ?d [DStep 60000000000 demoMembers (Fin 0)]"
    using p2 by (simp add: zeroTime_def) (simp add: recordAchieved_def)
  then have "obeys 1 100 0 demoDisp [DStep 0 demoMembers (Fin 100), DStep 60000000000 demoMembers (Fin 0)]"
    using one by (simp add: p f zeroTime_def)
  then have "obeys 1 100 0 (newDispatcher 60000000000) ?es" using tm by (simp add: demoDisp_def)
  then have "\<exists>x. deliveredWh (dispRun (newDispatcher 60000000000) ?es) = Fin x \<and> x = movedWh None None ?es"
    using granted_energy_not_overdrawn [of 1 100 60000000000 ?es] by (auto simp: maxInt64_def)
  moreover have "movedWh None None ?es = 5 / 3"
    by (simp add: heldWh_def inGrant_def demoCharge_def)
  ultimately show ?thesis by simp
qed

end
