(* ===== verification/Reserver.thy ===== *)
theory Reserver
  imports Reservation ClientApi
begin

text \<open>
  The aggregator's reserver (\<open>cmd/inverterclient/reservation.go\<close>) and the client calls it makes
  (\<open>internal/inverter/flow_reservation.go\<close>). Requests live in a store and are named by their index, as the code
  holds pointers to them: the request being followed and the requests whose withdrawal is retried may be the same one. What an
  operation sends and logs is its output, in order.
\<close>

section \<open>The calls\<close>

text \<open>Every call forces an empty target; the encoders and decoders of the resources are parameters.\<close>

definition PostFlowReservationRequest :: "'w Client \<Rightarrow> Ctx \<Rightarrow> (FlowReservationRequest \<Rightarrow> string option) \<Rightarrow> string \<Rightarrow>
    FlowReservationRequest \<Rightarrow> 'w World \<Rightarrow> ('w, string) result" where
  "PostFlowReservationRequest c ctx enc listHref req w =
     (if listHref = [] then (Inl (ErrMsg ''FlowReservationRequestList href required''), w)
      else
        (case Post c (WithTarget ctx []) KindFlowReservationPost listHref (enc req) w of
           (Inl e, w) \<Rightarrow> (Inl (Wrap ''POST FlowReservationRequest: '' e), w)
         | (Inr (loc, _), w) \<Rightarrow> (Inr loc, w)))"

record FlowReservationResponseList =
  AllCount :: int
  frlResponses :: "FlowReservationResponse list"

definition GetFlowReservationResponses :: "'w Client \<Rightarrow> Ctx \<Rightarrow> (string \<Rightarrow> FlowReservationResponseList option) \<Rightarrow> string \<Rightarrow> 'w World \<Rightarrow>
    ('w, FlowReservationResponseList) result" where
  "GetFlowReservationResponses c ctx dec listHref w =
     (if listHref = [] then (Inl (ErrMsg ''FlowReservationResponseList href required''), w)
      else
        (case Get c (WithTarget ctx []) KindEndDeviceRead (listHref @ pageSep listHref @ ''l=255'') dec w of
           (Inl e, w) \<Rightarrow> (Inl (Wrap ''GET FlowReservationResponseList: '' e), w)
         | (Inr (v, _), w) \<Rightarrow> (Inr v, w)))"

record FlowReservationResponseResponse =
  ackCreated :: int
  ackLFDI :: string
  ackStatus :: int
  ackSubject :: string

definition PostFlowReservationResponseResponse :: "'w Client \<Rightarrow> Ctx \<Rightarrow> (FlowReservationResponseResponse \<Rightarrow> string option) \<Rightarrow> string \<Rightarrow>
    FlowReservationResponseResponse \<Rightarrow> 'w World \<Rightarrow> httpErr option \<times> 'w World" where
  "PostFlowReservationResponseResponse c ctx enc replyTo resp w =
     (if replyTo = [] then (Some (ErrMsg ''replyTo href required''), w)
      else
        (case guarded (WithTarget ctx []) MethodPost KindFlowReservationResponsePost w of
           (Some e, w) \<Rightarrow> (Some (Wrap (''POST FlowReservationResponseResponse '' @ replyTo @ '': '') e), w)
         | (None, w) \<Rightarrow> sendResponse c replyTo (enc resp) w))"

definition PutFlowReservationRequest :: "'w Client \<Rightarrow> Ctx \<Rightarrow> (FlowReservationRequest \<Rightarrow> string option) \<Rightarrow> string \<Rightarrow>
    FlowReservationRequest \<Rightarrow> 'w World \<Rightarrow> httpErr option \<times> 'w World" where
  "PutFlowReservationRequest c ctx enc href req w =
     (if href = [] then (Some (ErrMsg ''FlowReservationRequest href required''), w)
      else
        (case Put c (WithTarget ctx []) KindFlowReservationWithdraw href (enc req) w of
           (Inl e, w) \<Rightarrow> (Some (Wrap ''PUT FlowReservationRequest: '' e), w)
         | (Inr _, w) \<Rightarrow> (None, w)))"

text \<open>The interface of the reserver, and the client behind it.\<close>

record 'w reservationClient =
  rcPost :: "string \<Rightarrow> FlowReservationRequest \<Rightarrow> 'w \<Rightarrow> (httpErr + string) \<times> 'w"
  rcGet :: "string \<Rightarrow> 'w \<Rightarrow> (httpErr + FlowReservationResponseList) \<times> 'w"
  rcAck :: "string \<Rightarrow> FlowReservationResponseResponse \<Rightarrow> 'w \<Rightarrow> httpErr option \<times> 'w"
  rcPut :: "string \<Rightarrow> FlowReservationRequest \<Rightarrow> 'w \<Rightarrow> httpErr option \<times> 'w"

definition sep2Reservations :: "'w Client \<Rightarrow> Ctx \<Rightarrow> (FlowReservationRequest \<Rightarrow> string option) \<Rightarrow>
    (string \<Rightarrow> FlowReservationResponseList option) \<Rightarrow> (FlowReservationResponseResponse \<Rightarrow> string option) \<Rightarrow> 'w World reservationClient" where
  "sep2Reservations c ctx enc dec encAck =
     \<lparr>rcPost = PostFlowReservationRequest c ctx enc, rcGet = GetFlowReservationResponses c ctx dec,
      rcAck = PostFlowReservationResponseResponse c ctx encAck, rcPut = PutFlowReservationRequest c ctx enc\<rparr>"

section \<open>The reserver's state\<close>

record Frq =
  fqEnergyWh :: f64
  fqPowerW :: f64
  fqStartInS :: int
  fqDurationS :: int
  fqMinLeadS :: int
  AnswerGraceS :: int
  PollS :: int

definition maxWithdrawBackoff :: duration where "maxWithdrawBackoff = 300000000000"

record currentRequest =
  crFacts :: requestFacts
  crMRID :: string
  crHref :: string
  crReq :: FlowReservationRequest
  crKind :: answerKind
  crTerms :: grantTerms
  crRespMRID :: string
  withdrawn :: bool
  crDone :: bool
  acked :: "string list"
  owed :: "string list"
  noted :: "string list"

record staleWithdrawal =
  swReq :: nat
  swNext :: time
  swWait :: duration

record reserver =
  selfLFDI :: string
  reqHref :: string
  respHref :: string
  rCfg :: Frq
  disp :: dispatcher
  store :: "currentRequest list"
  cur :: "nat option"
  nextPoll :: time
  stale :: "staleWithdrawal list"

definition newReserver :: "string \<Rightarrow> string option \<Rightarrow> string option \<Rightarrow> Frq \<Rightarrow> dispatcher \<Rightarrow> reserver option" where
  "newReserver self reqLink respLink cfg d =
     (case (reqLink, respLink) of
        (Some q, Some p) \<Rightarrow> Some \<lparr>selfLFDI = self, reqHref = q, respHref = p, rCfg = cfg, disp = d, store = [], cur = None,
          nextPoll = zeroTime, stale = []\<rparr>
      | _ \<Rightarrow> None)"

text \<open>What goes out: requests with the outcome the server gave, and log lines.\<close>

datatype resOut =
    OutPost nat bool
  | OutPut nat bool
  | OutGet nat
  | OutAck nat string bool
  | LogNotPosted frqErr
  | LogNoMRID
  | LogFollowing nat nat
  | LogNoHref nat
  | LogPermanent nat
  | LogNothingToWithdraw
  | LogGivingUp nat
  | LogReadFailed nat
  | LogTruncated nat
  | LogAnswer nat answerKind grantTerms string
  | LogWithdrawn nat string
  | LogClipped nat "clipNote list"
  | LogNoReply nat string
  | LogOwed nat string
  | LogFinished nat answerKind bool

definition req :: "reserver \<Rightarrow> nat \<Rightarrow> currentRequest" where
  "req r i = store r ! i"

definition updReq :: "nat \<Rightarrow> (currentRequest \<Rightarrow> currentRequest) \<Rightarrow> reserver \<Rightarrow> reserver" where
  "updReq i f r = r\<lparr>store := (store r)[i := f (store r ! i)]\<rparr>"

definition onDisp :: "(dispatcher \<Rightarrow> dispatcher) \<Rightarrow> reserver \<Rightarrow> reserver" where
  "onDisp f r = r\<lparr>disp := f (disp r)\<rparr>"

definition grace :: "reserver \<Rightarrow> duration" where
  "grace r = seconds (AnswerGraceS (rCfg r))"

definition pollInterval :: "reserver \<Rightarrow> duration" where
  "pollInterval r = max (seconds (PollS (rCfg r))) 1000000000"

section \<open>Withdrawing\<close>

text \<open>A refusal that a retry cannot change.\<close>

definition permanentRefusal :: "httpErr \<Rightarrow> bool" where
  "permanentRefusal e \<longleftrightarrow> errorsIs e ErrNotFound \<or> errorsIs e ErrHrefOffServer"

text \<open>The results: accepted, and refused for good.\<close>

definition withdrawReq :: "'w reservationClient \<Rightarrow> nat \<Rightarrow> time \<Rightarrow> reserver \<Rightarrow> 'w \<Rightarrow> bool \<times> bool \<times> resOut list \<times> reserver \<times> 'w" where
  "withdrawReq C i now r w =
     (let c = req r i in
      if crDone c \<or> withdrawn c then (False, False, [], r, w)
      else if crHref c = [] then (False, False, [LogNoHref i], r, w)
      else
        (case rcPut C (crHref c) ((crReq c)\<lparr>frqHref := crHref c, rsDateTime := toUnix now, rsStatus := RequestStatusCancelled\<rparr>) w of
           (Some e, w) \<Rightarrow>
             if permanentRefusal e then (False, True, [OutPut i False, LogPermanent i], r, w)
             else (False, False, [OutPut i False], r, w)
         | (None, w) \<Rightarrow> (True, False, [OutPut i True], updReq i (\<lambda>c. c\<lparr>withdrawn := True\<rparr>) r, w)))"

definition retryLater :: "nat \<Rightarrow> time \<Rightarrow> reserver \<Rightarrow> reserver" where
  "retryLater i now r =
     (let c = req r i in
      if crDone c \<or> withdrawn c \<or> crHref c = [] then r
      else if \<exists>s\<in>set (stale r). swReq s = i then r
      else r\<lparr>stale := stale r @ [\<lparr>swReq = i, swNext = now + pollInterval r, swWait = pollInterval r\<rparr>]\<rparr>)"

definition Withdraw :: "'w reservationClient \<Rightarrow> time \<Rightarrow> reserver \<Rightarrow> 'w \<Rightarrow> resOut list \<times> reserver \<times> 'w" where
  "Withdraw C now r w =
     (case cur r of
        None \<Rightarrow> ([LogNothingToWithdraw], r, w)
      | Some i \<Rightarrow>
          if crDone (req r i) \<or> withdrawn (req r i) then ([LogNothingToWithdraw], r, w)
          else
            (case withdrawReq C i now r w of
               (ok, permanent, os, r, w) \<Rightarrow>
                 if ok then (os, onDisp (setGrant None) r, w)
                 else if \<not> permanent then (os, retryLater i now r, w)
                 else (os, r, w)))"

text \<open>The loop over the kept withdrawals; \<open>kept\<close> is what stays.\<close>

fun withdrawalLoop :: "'w reservationClient \<Rightarrow> time \<Rightarrow> staleWithdrawal list \<Rightarrow> staleWithdrawal list \<Rightarrow> reserver \<Rightarrow> 'w \<Rightarrow> resOut list \<times> reserver \<times> 'w" where
  "withdrawalLoop C now [] kept r w = ([], r\<lparr>stale := kept\<rparr>, w)"
| "withdrawalLoop C now (s # ss) kept r w =
     (if withdrawn (req r (swReq s)) then withdrawalLoop C now ss kept r w
      else if \<not> now < rfEnd (crFacts (req r (swReq s))) + grace r then
        (case withdrawalLoop C now ss kept r w of (os, rw) \<Rightarrow> (LogGivingUp (swReq s) # os, rw))
      else if now < swNext s then withdrawalLoop C now ss (kept @ [s]) r w
      else
        (case withdrawReq C (swReq s) now r w of
           (ok, permanent, os, r, w) \<Rightarrow>
             let r = (if ok \<and> cur r = Some (swReq s) then onDisp (setGrant None) r else r);
                 wait = min (swWait s * 2) maxWithdrawBackoff;
                 kept = (if ok \<or> permanent then kept else kept @ [s\<lparr>swWait := wait, swNext := now + wait\<rparr>])
             in (case withdrawalLoop C now ss kept r w of (os', rw) \<Rightarrow> (os @ os', rw))))"

definition retryWithdrawals :: "'w reservationClient \<Rightarrow> time \<Rightarrow> reserver \<Rightarrow> 'w \<Rightarrow> resOut list \<times> reserver \<times> 'w" where
  "retryWithdrawals C now r w = (if stale r = [] then ([], r, w) else withdrawalLoop C now (stale r) [] r w)"

section \<open>Posting\<close>

definition settingsOf :: "Frq \<Rightarrow> frqSettings" where
  "settingsOf cfg = \<lparr>fsEnergyWh = fqEnergyWh cfg, fsPowerW = fqPowerW cfg, StartInS = fqStartInS cfg, DurationS = fqDurationS cfg,
     MinLeadS = fqMinLeadS cfg, GraceS = AnswerGraceS cfg\<rparr>"

text \<open>The overlay read from the request file, the mRID minted for the request (\<open>None\<close> when it fails) and the clock are
  arguments.\<close>

definition Trigger :: "'w reservationClient \<Rightarrow> frqErr + frqOverlay \<Rightarrow> string option \<Rightarrow> time \<Rightarrow> reserver \<Rightarrow> 'w \<Rightarrow> resOut list \<times> reserver \<times> 'w" where
  "Trigger C overlay mrid now r w =
     (case overlay of
        Inl e \<Rightarrow> ([LogNotPosted e], r, w)
      | Inr ov \<Rightarrow>
          (case mrid of
             None \<Rightarrow> ([LogNoMRID], r, w)
           | Some m \<Rightarrow>
               (case buildFlowRequest (applyOverlay ov (settingsOf (rCfg r))) now m of
                  Inl e \<Rightarrow> ([LogNotPosted e], r, w)
                | Inr rq \<Rightarrow>
                    (case rcPost C (reqHref r) rq w of
                       (Inl e, w) \<Rightarrow> ([OutPost (length (store r)) False], r, w)
                     | (Inr loc, w) \<Rightarrow>
                         let new = length (store r) in
                         (case (case cur r of
                                  None \<Rightarrow> ([], r, w)
                                | Some old \<Rightarrow>
                                    (case withdrawReq C old now r w of
                                       (ok, permanent, os, r, w) \<Rightarrow>
                                         (LogFollowing new old # os, if \<not> ok \<and> \<not> permanent then retryLater old now r else r, w))) of
                            (os, r, w) \<Rightarrow>
                              (OutPost new True # os,
                               (onDisp dispReset r)\<lparr>store := store r @ [\<lparr>crFacts = factsOf rq, crMRID = m, crHref = loc, crReq = rq,
                                   crKind = answerPending, crTerms = noTerms, crRespMRID = [], withdrawn = False, crDone = False,
                                   acked = [], owed = [], noted = []\<rparr>], cur := Some new, nextPoll := now\<rparr>, w))))))"

section \<open>Following the answer\<close>

fun newestLoop :: "FlowReservationResponse list \<Rightarrow> string \<Rightarrow> (string \<times> int) option \<Rightarrow> string" where
  "newestLoop [] subject best = (case best of None \<Rightarrow> [] | Some (m, _) \<Rightarrow> m)"
| "newestLoop (x # xs) subject best =
     newestLoop xs subject
       (if frpSubject x = subject \<and> (case best of None \<Rightarrow> True | Some (_, created) \<Rightarrow> frpCreationTime x \<ge> created)
        then Some (frpMRID x, frpCreationTime x) else best)"

definition newestResponseMRID :: "FlowReservationResponse list \<Rightarrow> string \<Rightarrow> string" where
  "newestResponseMRID xs subject = newestLoop xs subject None"

definition noteOnce :: "nat \<Rightarrow> string \<Rightarrow> reserver \<Rightarrow> bool \<times> reserver" where
  "noteOnce i key r =
     (if key \<in> set (noted (req r i)) then (False, r) else (True, updReq i (\<lambda>c. c\<lparr>noted := key # noted c\<rparr>) r))"

definition responseRequiredReceived :: "8 word" where "responseRequiredReceived = 1"

definition ackEventReceived :: int where "ackEventReceived = 1"

definition acknowledge :: "'w reservationClient \<Rightarrow> nat \<Rightarrow> FlowReservationResponse \<Rightarrow> time \<Rightarrow> reserver \<Rightarrow> 'w \<Rightarrow> resOut list \<times> reserver \<times> 'w" where
  "acknowledge C i resp now r w =
     (if (case frpResponseRequired resp of None \<Rightarrow> True | Some b \<Rightarrow> and b responseRequiredReceived = 0) then ([], r, w)
      else if frpReplyTo resp = [] \<or> frpMRID resp = [] then
        (case noteOnce i (''noreply:'' @ frpMRID resp) r of (fresh, r) \<Rightarrow> (if fresh then [LogNoReply i (frpMRID resp)] else [], r, w))
      else if frpMRID resp \<in> set (acked (req r i)) then ([], r, w)
      else
        (let r = updReq i (\<lambda>c. c\<lparr>owed := List.insert (frpMRID resp) (owed c)\<rparr>) r in
         (case rcAck C (frpReplyTo resp) \<lparr>ackCreated = toUnix now, ackLFDI = selfLFDI r, ackStatus = ackEventReceived,
                 ackSubject = frpMRID resp\<rparr> w of
            (Some e, w) \<Rightarrow> ([OutAck i (frpMRID resp) False], r, w)
          | (None, w) \<Rightarrow>
              ([OutAck i (frpMRID resp) True],
               updReq i (\<lambda>c. c\<lparr>acked := frpMRID resp # acked c, owed := removeAll (frpMRID resp) (owed c)\<rparr>) r, w))))"

fun acknowledgeAll :: "'w reservationClient \<Rightarrow> nat \<Rightarrow> FlowReservationResponse list \<Rightarrow> time \<Rightarrow> reserver \<Rightarrow> 'w \<Rightarrow> resOut list \<times> reserver \<times> 'w" where
  "acknowledgeAll C i [] now r w = ([], r, w)"
| "acknowledgeAll C i (x # xs) now r w =
     (case (if frpSubject x = crMRID (req r i) then acknowledge C i x now r w else ([], r, w)) of
        (os, r, w) \<Rightarrow> (case acknowledgeAll C i xs now r w of (os', rw) \<Rightarrow> (os @ os', rw)))"

definition finish :: "nat \<Rightarrow> reserver \<Rightarrow> resOut list \<times> reserver" where
  "finish i r =
     (let r = onDisp (setGrant None) (updReq i (\<lambda>c. c\<lparr>crDone := True\<rparr>) r);
          c = req r i
      in (map (LogOwed i) (sort (owed c)) @ [LogFinished i (crKind c) (withdrawn c)], r))"

text \<open>What a complete list says: the log lines, the new state of the request, the grant.\<close>

definition logChange :: "nat \<Rightarrow> answerKind \<Rightarrow> grantTerms \<Rightarrow> string \<Rightarrow> reserver \<Rightarrow> resOut list \<times> reserver" where
  "logChange i kind t respMRID r =
     (let c = req r i in
      if kind \<noteq> crKind c \<or> t \<noteq> crTerms c \<or> respMRID \<noteq> crRespMRID c then
        (if \<not> withdrawn c then ([LogAnswer i kind t respMRID], r)
         else (case noteOnce i (''withdrawn:'' @ respMRID) r of (fresh, r) \<Rightarrow> (if fresh then [LogWithdrawn i respMRID] else [], r)))
      else ([], r))"

definition logClip :: "nat \<Rightarrow> grantTerms \<Rightarrow> reserver \<Rightarrow> resOut list \<times> reserver" where
  "logClip i t r =
     (if Clipped t \<noteq> [] then
        (case noteOnce i (''clip:'' @ gtResponseMRID t) r of (fresh, r) \<Rightarrow> (if fresh then [LogClipped i (Clipped t)] else [], r))
      else ([], r))"

definition followAnswer :: "nat \<Rightarrow> FlowReservationResponse list \<Rightarrow> time \<Rightarrow> reserver \<Rightarrow> resOut list \<times> reserver" where
  "followAnswer i xs now r =
     (case judge xs (crMRID (req r i)) (crFacts (req r i)) (grace r) now of
        (kind, t) \<Rightarrow>
          let respMRID = (if gtResponseMRID t = [] then newestResponseMRID xs (crMRID (req r i)) else gtResponseMRID t) in
          (case logChange i kind t respMRID r of
             (os1, r) \<Rightarrow>
               (case logClip i t r of
                  (os2, r) \<Rightarrow>
                    let r = updReq i (\<lambda>c. c\<lparr>crKind := kind, crTerms := t, crRespMRID := respMRID\<rparr>) r in
                    (os1 @ os2, onDisp (setGrant (if dispatches kind \<and> \<not> withdrawn (req r i) then Some t else None)) r))))"

text \<open>The two readings of the clock: by the retries and by the poll.\<close>

definition Poll :: "'w reservationClient \<Rightarrow> time \<Rightarrow> time \<Rightarrow> reserver \<Rightarrow> 'w \<Rightarrow> resOut list \<times> reserver \<times> 'w" where
  "Poll C now1 now r w =
     (case retryWithdrawals C now1 r w of
        (os, r, w) \<Rightarrow>
          (case cur r of
             None \<Rightarrow> (os, r, w)
           | Some i \<Rightarrow>
               if crDone (req r i) then (os, r, w)
               else if \<not> now < rfEnd (crFacts (req r i)) + grace r then
                 (case finish i r of (os', r) \<Rightarrow> (os @ os', r, w))
               else if now < nextPoll r then (os, r, w)
               else
                 (let r = r\<lparr>nextPoll := now + seconds (PollS (rCfg r))\<rparr> in
                  (case rcGet C (respHref r) w of
                     (Inl e, w) \<Rightarrow> (os @ [OutGet i, LogReadFailed i], r, w)
                   | (Inr l, w) \<Rightarrow>
                       if AllCount l > int (length (frlResponses l)) then (os @ [OutGet i, LogTruncated i], r, w)
                       else
                         (case followAnswer i (frlResponses l) now r of
                            (os1, r) \<Rightarrow>
                              (case acknowledgeAll C i (frlResponses l) now r w of
                                 (os2, r, w) \<Rightarrow> (os @ [OutGet i] @ os1 @ os2, r, w)))))))"

section \<open>Runs\<close>

text \<open>Everything that can happen to a reserver; between its operations the server and the network change as they like.\<close>

inductive resRun :: "'w reservationClient \<Rightarrow> reserver \<Rightarrow> 'w \<Rightarrow> resOut list \<Rightarrow> bool" for C where
  start: "newReserver self q p cfg (newDispatcher ms) = Some r \<Longrightarrow> resRun C r w []"
| trigger: "resRun C r w lg \<Longrightarrow> Trigger C ov mrid now r w = (os, r', w') \<Longrightarrow> resRun C r' w' (lg @ os)"
| withdraw: "resRun C r w lg \<Longrightarrow> Withdraw C now r w = (os, r', w') \<Longrightarrow> resRun C r' w' (lg @ os)"
| poll: "resRun C r w lg \<Longrightarrow> Poll C now1 now r w = (os, r', w') \<Longrightarrow> resRun C r' w' (lg @ os)"
| dispatch: "resRun C r w lg \<Longrightarrow> resRun C (onDisp (\<lambda>d. recordAchieved a (snd (dispatchPlan d now ms))) r) w lg"
| outside: "resRun C r w lg \<Longrightarrow> resRun C r w' lg"

text \<open>The store: requests as they were built, kept withdrawals that have something to withdraw, and flags that agree with
  what was sent and accepted.\<close>

definition stale_ok :: "currentRequest list \<Rightarrow> staleWithdrawal list \<Rightarrow> bool" where
  "stale_ok st ss \<longleftrightarrow> distinct (map swReq ss) \<and> (\<forall>s\<in>set ss. swReq s < length st \<and> crHref (st ! swReq s) \<noteq> [])"

definition facts_ok :: "currentRequest \<Rightarrow> bool" where
  "facts_ok c \<longleftrightarrow> crFacts c = factsOf (crReq c) \<and> (\<exists>e p. rfEnergyWh (crFacts c) = Fin e \<and> rfPowerW (crFacts c) = Fin p \<and> 0 \<le> p)"

definition agrees :: "resOut list \<Rightarrow> currentRequest list \<Rightarrow> bool" where
  "agrees lg st \<longleftrightarrow> (\<forall>i. count_list lg (OutPut i True) = (if i < length st \<and> withdrawn (st ! i) then 1 else 0) \<and>
     (\<forall>m. count_list lg (OutAck i m True) = (if i < length st \<and> m \<in> set (acked (st ! i)) then 1 else 0)))"

definition store_ok :: "resOut list \<Rightarrow> reserver \<Rightarrow> bool" where
  "store_ok lg r \<longleftrightarrow> (\<forall>i. cur r = Some i \<longrightarrow> i < length (store r)) \<and> (\<forall>c\<in>set (store r). facts_ok c) \<and>
     stale_ok (store r) (stale r) \<and> agrees lg (store r)"

definition grant_ok :: "reserver \<Rightarrow> bool" where
  "grant_ok r \<longleftrightarrow> (\<forall>t. terms (disp r) = Some t \<longrightarrow> (\<exists>i. cur r = Some i \<and> \<not> withdrawn (req r i) \<and> \<not> crDone (req r i) \<and>
     dispatches (crKind (req r i)) \<and> crTerms (req r i) = t \<and>
     (\<exists>e p. rfEnergyWh (crFacts (req r i)) = Fin e \<and> rfPowerW (crFacts (req r i)) = Fin p \<and> terms_within (crFacts (req r i)) e p t)))"

definition quiet :: "resOut list \<Rightarrow> bool" where
  "quiet os \<longleftrightarrow> (\<forall>i. OutPut i True \<notin> set os \<and> (\<forall>m. OutAck i m True \<notin> set os))"

lemma quiet_simps [simp]:
  "quiet []" "quiet (x # xs) \<longleftrightarrow> (\<forall>i m. x \<noteq> OutPut i True \<and> x \<noteq> OutAck i m True) \<and> quiet xs" "quiet (xs @ ys) \<longleftrightarrow> quiet xs \<and> quiet ys"
  by (auto simp: quiet_def)

lemma agrees_quiet: "quiet os \<Longrightarrow> agrees (lg @ os) st = agrees lg st"
  by (simp add: agrees_def quiet_def count_list_0_iff)

lemma store_ok_quiet: "quiet os \<Longrightarrow> store_ok (lg @ os) r = store_ok lg r"
  by (simp add: store_ok_def agrees_quiet)

lemma updReq_simps [simp]:
  "length (store (updReq i f r)) = length (store r)" "cur (updReq i f r) = cur r" "stale (updReq i f r) = stale r"
  "disp (updReq i f r) = disp r" "rCfg (updReq i f r) = rCfg r" "nextPoll (updReq i f r) = nextPoll r" "respHref (updReq i f r) = respHref r"
  by (simp_all add: updReq_def)

lemma onDisp_simps [simp]:
  "store (onDisp f r) = store r" "cur (onDisp f r) = cur r" "stale (onDisp f r) = stale r" "disp (onDisp f r) = f (disp r)"
  "rCfg (onDisp f r) = rCfg r" "req (onDisp f r) i = req r i" "nextPoll (onDisp f r) = nextPoll r" "respHref (onDisp f r) = respHref r"
  by (simp_all add: onDisp_def req_def)

lemma updReq_beyond: "\<not> i < length (store r) \<Longrightarrow> updReq i f r = r"
  by (simp add: updReq_def list_update_beyond)

lemma req_updReq: "req (updReq i f r) j = (if i = j \<and> i < length (store r) then f (req r i) else req r j)"
  by (cases "i = j"; cases "i < length (store r)") (auto simp: req_def updReq_beyond, simp_all add: updReq_def)

lemma store_ok_onDisp [simp]: "store_ok lg (onDisp f r) = store_ok lg r"
  by (simp add: store_ok_def)

lemma grant_ok_none: "terms (disp r) = None \<Longrightarrow> grant_ok r"
  by (simp add: grant_ok_def)

lemma setGrant_terms [simp]: "terms (setGrant t d) = t"
  by (simp add: setGrant_def)

text \<open>An update that leaves the fields of an invariant alone keeps it.\<close>

lemma facts_ok_upd:
  assumes "\<forall>c\<in>set st. facts_ok c" "i < length st" "facts_ok (st ! i) \<Longrightarrow> facts_ok d"
  shows "\<forall>c\<in>set (st[i := d]). facts_ok c"
proof
  fix c assume "c \<in> set (st[i := d])"
  then have "c = d \<or> c \<in> set st" using set_update_subset_insert [of st i d] by blast
  then show "facts_ok c" using assms nth_mem [OF assms(2)] by blast
qed

lemma store_ok_upd:
  assumes "\<And>c. crFacts (f c) = crFacts c \<and> crReq (f c) = crReq c \<and> crHref (f c) = crHref c \<and> withdrawn (f c) = withdrawn c \<and> acked (f c) = acked c"
    and "store_ok lg r"
  shows "store_ok lg (updReq i f r)"
proof (cases "i < length (store r)")
  case True
  have fo: "facts_ok (f c) = facts_ok c" for c by (simp add: facts_ok_def assms(1))
  have eq: "withdrawn ((store r)[i := f (store r ! i)] ! j) = withdrawn (store r ! j)" "acked ((store r)[i := f (store r ! i)] ! j) = acked (store r ! j)"
    "crHref ((store r)[i := f (store r ! i)] ! j) = crHref (store r ! j)" for j
    using assms(1) True by (cases "i = j"; simp)+
  have "\<forall>c\<in>set (store r). facts_ok c" using assms(2) by (simp add: store_ok_def)
  then have "\<forall>c\<in>set (store (updReq i f r)). facts_ok c" unfolding updReq_def
    using facts_ok_upd [OF _ True, of "f (store r ! i)"] fo by simp
  then show ?thesis using assms(2) eq by (simp add: store_ok_def stale_ok_def agrees_def updReq_def)
next
  case False
  then show ?thesis using assms(2) by (simp add: updReq_beyond)
qed

lemma grant_ok_upd:
  assumes "\<And>c. crFacts (f c) = crFacts c \<and> withdrawn (f c) = withdrawn c \<and> crDone (f c) = crDone c \<and> crKind (f c) = crKind c \<and> crTerms (f c) = crTerms c"
    and "grant_ok r"
  shows "grant_ok (updReq i f r)"
  using assms(2) unfolding grant_ok_def by (simp add: req_updReq) (metis assms(1))

text \<open>The facts of the requests never change.\<close>

definition same_facts :: "reserver \<Rightarrow> reserver \<Rightarrow> bool" where
  "same_facts r r' \<longleftrightarrow> (\<forall>j. crFacts (req r' j) = crFacts (req r j))"

lemma same_facts_upd: "(\<And>c. crFacts (f c) = crFacts c) \<Longrightarrow> same_facts r (updReq i f r)"
  by (simp add: same_facts_def req_updReq)

lemma same_facts_refl [simp]: "same_facts r r"
  by (simp add: same_facts_def)

lemma same_facts_trans: "same_facts a b \<Longrightarrow> same_facts b c \<Longrightarrow> same_facts a c"
  by (simp add: same_facts_def)

lemma noteOnce_keeps:
  assumes "noteOnce i key r = (fresh, r')" "store_ok lg r"
  shows "store_ok lg r' \<and> cur r' = cur r \<and> stale r' = stale r \<and> disp r' = disp r \<and> length (store r') = length (store r) \<and> rCfg r' = rCfg r \<and>
    (grant_ok r \<longrightarrow> grant_ok r') \<and> same_facts r r' \<and> (\<forall>j. crDone (req r' j) = crDone (req r j))"
  using assms store_ok_upd [of "\<lambda>c. c\<lparr>noted := key # noted c\<rparr>" lg r i] grant_ok_upd [of "\<lambda>c. c\<lparr>noted := key # noted c\<rparr>" r i]
  by (auto simp: noteOnce_def req_updReq same_facts_def split: if_splits)

lemma withdrawReq_cases:
  assumes "withdrawReq C i now r w = (ok, permanent, os, r', w')"
  shows "(\<not> ok \<and> r' = r \<and> quiet os) \<or>
    (ok \<and> \<not> permanent \<and> \<not> withdrawn (req r i) \<and> os = [OutPut i True] \<and> r' = updReq i (\<lambda>c. c\<lparr>withdrawn := True\<rparr>) r)"
  using assms by (auto simp: withdrawReq_def Let_def split: if_splits prod.splits option.splits)

lemma agrees_withdrawn:
  assumes "agrees lg st" "i < length st" "\<not> withdrawn (st ! i)"
  shows "agrees (lg @ [OutPut i True]) (st[i := (st ! i)\<lparr>withdrawn := True\<rparr>])"
proof -
  have "count_list (lg @ [OutPut i True]) (OutPut j True) = (if j < length st \<and> withdrawn (st[i := (st ! i)\<lparr>withdrawn := True\<rparr>] ! j) then 1 else 0)" for j
    using assms by (cases "i = j") (simp_all add: agrees_def)
  moreover have "acked (st[i := (st ! i)\<lparr>withdrawn := True\<rparr>] ! j) = acked (st ! j)" for j using assms(2) by (cases "i = j") simp_all
  ultimately show ?thesis using assms(1) by (simp add: agrees_def)
qed

lemma store_ok_withdraw:
  assumes "store_ok lg r" "i < length (store r)" "withdrawReq C i now r w = (ok, permanent, os, r', w')"
  shows "store_ok (lg @ os) r'"
  using withdrawReq_cases [OF assms(3)]
proof
  assume "\<not> ok \<and> r' = r \<and> quiet os"
  then show ?thesis using assms(1) by (simp add: store_ok_quiet)
next
  assume h: "ok \<and> \<not> permanent \<and> \<not> withdrawn (req r i) \<and> os = [OutPut i True] \<and> r' = updReq i (\<lambda>c. c\<lparr>withdrawn := True\<rparr>) r"
  let ?st = "(store r)[i := (store r ! i)\<lparr>withdrawn := True\<rparr>]"
  have "agrees (lg @ os) ?st" using agrees_withdrawn [OF _ assms(2)] assms(1) h by (simp add: store_ok_def req_def)
  moreover have "\<forall>c\<in>set (store r). facts_ok c" using assms(1) by (simp add: store_ok_def)
  then have "\<forall>c\<in>set ?st. facts_ok c" by (rule facts_ok_upd [OF _ assms(2)]) (auto simp: facts_ok_def)
  moreover have "crHref (?st ! j) = crHref (store r ! j)" for j using assms(2) by (cases "i = j") simp_all
  then have "stale_ok ?st (stale r)" using assms(1) by (simp add: store_ok_def stale_ok_def)
  ultimately show ?thesis using assms(1) h by (simp add: store_ok_def updReq_def)
qed

lemma grant_ok_withdraw_other:
  assumes "grant_ok r" "withdrawReq C i now r w = (ok, permanent, os, r', w')" "\<not> ok \<or> cur r \<noteq> Some i"
  shows "grant_ok r'"
  using withdrawReq_cases [OF assms(2)] assms(1,3) unfolding grant_ok_def by (auto simp: req_updReq)

lemma withdrawReq_frame:
  "withdrawReq C i now r w = (ok, permanent, os, r', w') \<Longrightarrow>
     cur r' = cur r \<and> length (store r') = length (store r) \<and> stale r' = stale r \<and> disp r' = disp r \<and> rCfg r' = rCfg r \<and>
     (\<forall>j. crFacts (req r' j) = crFacts (req r j) \<and> crHref (req r' j) = crHref (req r j) \<and> crDone (req r' j) = crDone (req r j))"
  using withdrawReq_cases [of C i now r w ok permanent os r' w'] by (auto simp: req_updReq split: if_splits)

lemma store_ok_retryLater: "store_ok lg r \<Longrightarrow> i < length (store r) \<Longrightarrow> store_ok lg (retryLater i now r)"
  by (auto simp: store_ok_def retryLater_def stale_ok_def req_def Let_def)

lemma retryLater_simps [simp]:
  "store (retryLater i now r) = store r" "cur (retryLater i now r) = cur r" "disp (retryLater i now r) = disp r" "rCfg (retryLater i now r) = rCfg r"
  by (simp_all add: retryLater_def Let_def)

lemma grant_ok_cong:
  "cur r' = cur r \<Longrightarrow> terms (disp r') = terms (disp r) \<Longrightarrow> store r' = store r \<Longrightarrow> grant_ok r' = grant_ok r"
  by (simp add: grant_ok_def req_def)

text \<open>The kept withdrawals after a pass of the retries.\<close>

definition kept_ok :: "time \<Rightarrow> reserver \<Rightarrow> staleWithdrawal list \<Rightarrow> bool" where
  "kept_ok now r ss \<longleftrightarrow> (\<forall>s\<in>set ss. now < swNext s \<and> now < rfEnd (crFacts (req r (swReq s))) + grace r)"

definition waits_ok :: "reserver \<Rightarrow> staleWithdrawal list \<Rightarrow> bool" where
  "waits_ok r ss \<longleftrightarrow> (\<forall>s\<in>set ss. 1000000000 \<le> swWait s \<and> swWait s \<le> max (pollInterval r) maxWithdrawBackoff)"

lemma grace_cong: "rCfg r' = rCfg r \<Longrightarrow> grace r' = grace r \<and> pollInterval r' = pollInterval r"
  by (simp add: grace_def pollInterval_def)

lemma withdrawalLoop_ok:
  assumes "withdrawalLoop C now ss kept r w = (os, r', w')" "store_ok lg (r\<lparr>stale := kept @ ss\<rparr>)" "grant_ok r" "kept_ok now r kept"
    "waits_ok r (kept @ ss)"
  shows "store_ok (lg @ os) r' \<and> grant_ok r' \<and> kept_ok now r' (stale r') \<and> waits_ok r' (stale r') \<and> cur r' = cur r \<and>
    length (store r') = length (store r) \<and> rCfg r' = rCfg r \<and> (\<forall>j. crFacts (req r' j) = crFacts (req r j) \<and> (crDone (req r' j) = crDone (req r j)))"
  using assms
proof (induction C now ss kept r w arbitrary: lg os rule: withdrawalLoop.induct)
  case (1 C now kept r w)
  then show ?case by (auto simp: grant_ok_def kept_ok_def waits_ok_def req_def grace_def pollInterval_def)
next
  case (2 C now s ss kept r w)
  let ?i = "swReq s"
  have sub: "store_ok lg (r\<lparr>stale := kept @ ss\<rparr>)" "waits_ok r (kept @ ss)"
    using 2(6,9) by (auto simp: store_ok_def stale_ok_def waits_ok_def)
  show ?case
  proof (cases "withdrawn (req r ?i)")
    case True
    then show ?thesis using 2(1) [OF True _ sub(1) 2(7,8) sub(2)] 2(5) by simp
  next
    case w: False
    show ?thesis
    proof (cases "now < rfEnd (crFacts (req r ?i)) + grace r")
      case False
      then obtain os' where o: "withdrawalLoop C now ss kept r w = (os', r', w')" "os = LogGivingUp ?i # os'" using 2(5) w by (auto split: prod.splits)
      have "store_ok (lg @ [LogGivingUp ?i]) (r\<lparr>stale := kept @ ss\<rparr>)" using sub(1) by (simp add: store_ok_quiet)
      then show ?thesis using 2(2) [OF w False o(1) _ 2(7,8) sub(2)] o(2) by fastforce
    next
      case open': True
      show ?thesis
      proof (cases "now < swNext s")
        case True
        have "kept_ok now r (kept @ [s])" using 2(8) True open' by (auto simp: kept_ok_def)
        then show ?thesis using 2(3) [OF w _ True _ _ 2(7)] 2(5,6,9) w open' True by simp
      next
        case due: False
        obtain ok permanent os1 r1 w1 where wr: "withdrawReq C ?i now r w = (ok, permanent, os1, r1, w1)" by (metis prod.exhaust)
        define r2 where "r2 = (if ok \<and> cur r1 = Some ?i then onDisp (setGrant None) r1 else r1)"
        define wait where "wait = min (swWait s * 2) maxWithdrawBackoff"
        define kept2 where "kept2 = (if ok \<or> permanent then kept else kept @ [s\<lparr>swWait := wait, swNext := now + wait\<rparr>])"
        obtain os2 where l: "withdrawalLoop C now ss kept2 r2 w1 = (os2, r', w')" "os = os1 @ os2"
          using 2(5) w open' due wr by (auto simp: r2_def wait_def kept2_def Let_def cong: if_cong split: prod.splits)
        have i: "?i < length (store r)" using 2(6) by (simp add: store_ok_def stale_ok_def)
        note fr = withdrawReq_frame [OF wr]
        have wr': "withdrawReq C ?i now (r\<lparr>stale := kept @ s # ss\<rparr>) w = (ok, permanent, os1, r1\<lparr>stale := kept @ s # ss\<rparr>, w1)"
          using wr by (auto simp: withdrawReq_def Let_def req_def updReq_def split: if_splits option.splits prod.splits)
        have so: "store_ok (lg @ os1) (r1\<lparr>stale := kept @ s # ss\<rparr>)" using store_ok_withdraw [OF 2(6) _ wr'] i by simp
        have s2: "store_ok (lg @ os1) (r2\<lparr>stale := kept2 @ ss\<rparr>)"
          using so by (auto simp: store_ok_def stale_ok_def r2_def kept2_def onDisp_def)
        have g1: "grant_ok r1" if "\<not> (ok \<and> cur r1 = Some ?i)" using grant_ok_withdraw_other [OF 2(7) wr] that fr by auto
        have g2: "grant_ok r2" using g1 by (auto simp: r2_def intro: grant_ok_none)
        have cf: "\<forall>j. crFacts (req r2 j) = crFacts (req r j)" "rCfg r2 = rCfg r" "cur r2 = cur r" "length (store r2) = length (store r)"
          using fr by (auto simp: r2_def)
        have dn: "\<forall>j. crDone (req r2 j) = crDone (req r j)" using fr by (auto simp: r2_def)
        have w1: "1000000000 \<le> wait" "wait \<le> maxWithdrawBackoff" using 2(9) by (auto simp: waits_ok_def wait_def maxWithdrawBackoff_def)
        have k2: "kept_ok now r2 kept2" using 2(8) w1 open' cf grace_cong [OF cf(2)] by (auto simp: kept_ok_def kept2_def)
        have ww: "waits_ok r2 (kept2 @ ss)" using 2(9) w1 grace_cong [OF cf(2)] by (auto simp: waits_ok_def kept2_def)
        note IH = 2(4) [OF w _ due wr [symmetric] refl refl refl refl, folded r2_def, of wait]
        have "store_ok ((lg @ os1) @ os2) r' \<and> grant_ok r' \<and> kept_ok now r' (stale r') \<and> waits_ok r' (stale r') \<and> cur r' = cur r2 \<and>
            length (store r') = length (store r2) \<and> rCfg r' = rCfg r2 \<and>
            (\<forall>j. crFacts (req r' j) = crFacts (req r2 j) \<and> crDone (req r' j) = crDone (req r2 j))"
          using IH [OF _ wait_def kept2_def l(1) s2 g2 k2 ww] open' by blast
        then show ?thesis using l(2) cf dn by simp
      qed
    qed
  qed
qed

lemma retryWithdrawals_ok:
  assumes "retryWithdrawals C now r w = (os, r', w')" "store_ok lg r" "grant_ok r" "waits_ok r (stale r)"
  shows "store_ok (lg @ os) r' \<and> grant_ok r' \<and> kept_ok now r' (stale r') \<and> waits_ok r' (stale r') \<and> cur r' = cur r \<and> rCfg r' = rCfg r"
proof (cases "stale r = []")
  case True
  then show ?thesis using assms by (auto simp: retryWithdrawals_def kept_ok_def)
next
  case False
  then have "withdrawalLoop C now (stale r) [] r w = (os, r', w')" using assms(1) by (simp add: retryWithdrawals_def)
  moreover have "r\<lparr>stale := [] @ stale r\<rparr> = r" by simp
  moreover have "kept_ok now r []" by (simp add: kept_ok_def)
  ultimately show ?thesis using withdrawalLoop_ok [of C now "stale r" "[]" r w os r' w' lg] assms(2-4) by simp
qed

text \<open>What every operation keeps.\<close>

definition res_inv :: "resOut list \<Rightarrow> reserver \<Rightarrow> bool" where
  "res_inv lg r \<longleftrightarrow> store_ok lg r \<and> grant_ok r \<and> waits_ok r (stale r)"

lemma pollInterval_pos: "1000000000 \<le> pollInterval r"
  by (simp add: pollInterval_def)

lemma waits_retryLater: "waits_ok r (stale r) \<Longrightarrow> waits_ok (retryLater i now r) (stale (retryLater i now r))"
  using pollInterval_pos [of r] grace_cong [of "retryLater i now r" r] by (auto simp: waits_ok_def retryLater_def Let_def)

lemma waits_cong: "stale r' = stale r \<Longrightarrow> rCfg r' = rCfg r \<Longrightarrow> waits_ok r' (stale r') = waits_ok r (stale r)"
  by (simp add: waits_ok_def pollInterval_def)

lemma Withdraw_inv:
  assumes "Withdraw C now r w = (os, r', w')" "res_inv lg r"
  shows "res_inv (lg @ os) r'"
proof (cases "\<exists>i. cur r = Some i \<and> \<not> crDone (req r i) \<and> \<not> withdrawn (req r i)")
  case False
  then show ?thesis using assms by (auto simp: Withdraw_def res_inv_def store_ok_quiet split: option.splits if_splits)
next
  case True
  then obtain i where i: "cur r = Some i" "\<not> crDone (req r i)" "\<not> withdrawn (req r i)" by blast
  obtain ok permanent r1 where wr: "withdrawReq C i now r w = (ok, permanent, os, r1, w')"
    and r': "r' = (if ok then onDisp (setGrant None) r1 else if \<not> permanent then retryLater i now r1 else r1)"
    using assms(1) i by (auto simp: Withdraw_def split: prod.splits if_splits)
  have il: "i < length (store r)" using assms(2) i(1) by (simp add: res_inv_def store_ok_def)
  have so: "store_ok (lg @ os) r1" using store_ok_withdraw [OF _ il wr] assms(2) by (simp add: res_inv_def)
  note fr = withdrawReq_frame [OF wr]
  have w1: "waits_ok r1 (stale r1)" using waits_cong [of r1 r] fr assms(2) by (simp add: res_inv_def)
  have "grant_ok r1" if "\<not> ok" using grant_ok_withdraw_other [OF _ wr] that assms(2) by (simp add: res_inv_def)
  moreover have "grant_ok (onDisp (setGrant None) r1)" by (rule grant_ok_none) simp
  ultimately have "grant_ok r'" using grant_ok_cong [of "retryLater i now r1" r1] by (auto simp: r')
  moreover have "store_ok (lg @ os) r'" using so store_ok_retryLater [OF so] il fr by (auto simp: r')
  moreover have "waits_ok r' (stale r')" using w1 waits_retryLater [OF w1] waits_cong [of "onDisp (setGrant None) r1" r1] by (auto simp: r')
  ultimately show ?thesis by (simp add: res_inv_def)
qed

lemma facts_ok_new:
  assumes "buildFlowRequest s now m = Inr rq" "crFacts c = factsOf rq" "crReq c = rq"
  shows "facts_ok c"
proof -
  have f: "factsOf rq = \<lparr>rfStart = unixTime (toUnix (now + seconds (StartInS s))),
      rfEnd = unixTime (toUnix (now + seconds (StartInS s))) + DurationS s * 1000000000,
      rfEnergyWh = fround (fsEnergyWh s), rfPowerW = fround (fsPowerW s)\<rparr>"
    using buildFlowRequest_facts [OF assms(1)] by blast
  obtain e where e: "fsEnergyWh s = Fin e"
    using assms(1) by (cases "fsEnergyWh s") (auto simp: buildFlowRequest_def signedEnergy_def Let_def isNaN_def split: if_splits)
  obtain p where p: "fsPowerW s = Fin p" "0 < p"
    using assms(1) e by (cases "fsPowerW s") (auto simp: buildFlowRequest_def activePower_def Let_def split: if_splits sum.splits)
  show ?thesis using assms(2,3) e p roundHalfAway_nonneg [of p] by (simp add: facts_ok_def f)
qed

lemma agrees_snoc:
  assumes "agrees lg st" "\<not> withdrawn c" "acked c = []"
  shows "agrees lg (st @ [c])"
proof -
  have "(i < length (st @ [c]) \<and> withdrawn ((st @ [c]) ! i)) = (i < length st \<and> withdrawn (st ! i))"
    "(i < length (st @ [c]) \<and> m \<in> set (acked ((st @ [c]) ! i))) = (i < length st \<and> m \<in> set (acked (st ! i)))" for i m
    using assms(2,3) by (auto simp: nth_append less_Suc_eq)
  then show ?thesis using assms(1) unfolding agrees_def by presburger
qed

lemma Trigger_inv:
  assumes "Trigger C ov mrid now r w = (os, r', w')" "res_inv lg r"
  shows "res_inv (lg @ os) r'"
proof (cases "\<exists>v m rq loc w1. ov = Inr v \<and> mrid = Some m \<and> buildFlowRequest (applyOverlay v (settingsOf (rCfg r))) now m = Inr rq \<and>
    rcPost C (reqHref r) rq w = (Inr loc, w1)")
  case False
  then have "r' = r \<and> quiet os" using assms(1) by (auto simp: Trigger_def split: sum.splits option.splits prod.splits)
  then show ?thesis using assms(2) by (simp add: res_inv_def store_ok_quiet)
next
  case True
  then obtain v m rq loc w1 where h: "ov = Inr v" "mrid = Some m" "buildFlowRequest (applyOverlay v (settingsOf (rCfg r))) now m = Inr rq"
    "rcPost C (reqHref r) rq w = (Inr loc, w1)" by blast
  define c where "c = \<lparr>crFacts = factsOf rq, crMRID = m, crHref = loc, crReq = rq, crKind = answerPending, crTerms = noTerms,
     crRespMRID = [], withdrawn = False, crDone = False, acked = [], owed = [], noted = []\<rparr>"
  have "\<exists>os1 r2. os = OutPost (length (store r)) True # os1 \<and>
      r' = (onDisp dispReset r2)\<lparr>store := store r2 @ [c], cur := Some (length (store r)), nextPoll := now\<rparr> \<and>
      store_ok (lg @ os1) r2 \<and> waits_ok r2 (stale r2) \<and> length (store r2) = length (store r)"
  proof (cases "cur r")
    case None
    then show ?thesis using assms h by (intro exI [of _ "[]"] exI [of _ r]) (auto simp: Trigger_def c_def res_inv_def Let_def)
  next
    case (Some old)
    obtain ok permanent os1 r1 w2 where wr: "withdrawReq C old now r w1 = (ok, permanent, os1, r1, w2)" by (metis prod.exhaust)
    let ?r2 = "if \<not> ok \<and> \<not> permanent then retryLater old now r1 else r1"
    have il: "old < length (store r)" using assms(2) Some by (simp add: res_inv_def store_ok_def)
    have so: "store_ok (lg @ os1) r1" using store_ok_withdraw [OF _ il wr] assms(2) by (simp add: res_inv_def)
    note fr = withdrawReq_frame [OF wr]
    have w1: "waits_ok r1 (stale r1)" using waits_cong [of r1 r] fr assms(2) by (simp add: res_inv_def)
    have "store_ok (lg @ os1) ?r2" "waits_ok ?r2 (stale ?r2)" using so store_ok_retryLater [OF so] il fr w1 waits_retryLater [OF w1] by simp_all
    moreover have "os = OutPost (length (store r)) True # LogFollowing (length (store r)) old # os1"
      "r' = (onDisp dispReset ?r2)\<lparr>store := store ?r2 @ [c], cur := Some (length (store r)), nextPoll := now\<rparr>"
      using assms(1) h Some wr by (auto simp: Trigger_def c_def Let_def split: if_splits)
    moreover have "store_ok (lg @ LogFollowing (length (store r)) old # os1) ?r2"
      using calculation(1) by (simp add: store_ok_def agrees_def)
    ultimately show ?thesis using fr by (intro exI [of _ "LogFollowing (length (store r)) old # os1"] exI [of _ ?r2]) simp
  qed
  then obtain os1 r2 where o: "os = OutPost (length (store r)) True # os1"
      "r' = (onDisp dispReset r2)\<lparr>store := store r2 @ [c], cur := Some (length (store r)), nextPoll := now\<rparr>"
      "store_ok (lg @ os1) r2" "waits_ok r2 (stale r2)" "length (store r2) = length (store r)"
    by (elim exE conjE) (rule that)
  have "facts_ok c" using facts_ok_new [OF h(3), of c] by (simp add: c_def)
  moreover have "agrees (lg @ os) (store r2)" using o(1,3) by (simp add: store_ok_def agrees_def)
  then have "agrees (lg @ os) (store r2 @ [c])" by (rule agrees_snoc) (simp_all add: c_def)
  moreover have "stale_ok (store r2 @ [c]) (stale r2)" using o(3) by (auto simp: store_ok_def stale_ok_def nth_append less_Suc_eq)
  ultimately have "store_ok (lg @ os) r'" using o(2,3,5) by (auto simp: store_ok_def)
  moreover have "grant_ok r'" using o(2) by (intro grant_ok_none) (simp add: dispReset_def newDispatcher_def)
  moreover have "waits_ok r' (stale r')" using o(2,4) by (simp add: waits_ok_def pollInterval_def)
  ultimately show ?thesis by (simp add: res_inv_def)
qed

text \<open>A poll.\<close>

lemma acknowledge_keeps:
  assumes "acknowledge C i x now r w = (os, r', w')" "store_ok lg r" "i < length (store r)"
  shows "store_ok (lg @ os) r' \<and> cur r' = cur r \<and> stale r' = stale r \<and> disp r' = disp r \<and> length (store r') = length (store r) \<and>
    rCfg r' = rCfg r \<and> (grant_ok r \<longrightarrow> grant_ok r') \<and> same_facts r r'"
proof -
  let ?own = "\<lambda>c. c\<lparr>owed := List.insert (frpMRID x) (owed c)\<rparr>"
  let ?ack = "\<lambda>c. c\<lparr>acked := frpMRID x # acked c, owed := removeAll (frpMRID x) (owed c)\<rparr>"
  consider (none) "os = []" "r' = r"
    | (noted) fresh where "noteOnce i (''noreply:'' @ frpMRID x) r = (fresh, r')" "quiet os"
    | (failed) "r' = updReq i ?own r" "quiet os"
    | (accepted) "r' = updReq i ?ack (updReq i ?own r)" "os = [OutAck i (frpMRID x) True]" "frpMRID x \<notin> set (acked (req r i))"
    using assms(1) by (auto simp: acknowledge_def Let_def split: if_splits prod.splits option.splits)
  then show ?thesis
  proof cases
    case none
    then show ?thesis using assms(2) by simp
  next
    case noted
    then show ?thesis using noteOnce_keeps [OF noted(1) assms(2)] by (auto simp: store_ok_quiet)
  next
    case failed
    then show ?thesis using store_ok_upd [of ?own lg r i] grant_ok_upd [of ?own r i] same_facts_upd [of ?own r i] assms(2)
      by (simp add: store_ok_quiet)
  next
    case accepted
    define r1 where "r1 = updReq i ?own r"
    have so: "store_ok lg r1" using store_ok_upd [of ?own lg r i] assms(2) by (simp add: r1_def)
    have il: "i < length (store r1)" using assms(3) by (simp add: r1_def)
    have na: "frpMRID x \<notin> set (acked (store r1 ! i))" using accepted(3) assms(3) by (simp add: r1_def req_def updReq_def)
    let ?st = "(store r1)[i := ?ack (store r1 ! i)]"
    have f: "withdrawn (?st ! j) = withdrawn (store r1 ! j)" "crHref (?st ! j) = crHref (store r1 ! j)"
      "acked (?st ! j) = (if i = j then frpMRID x # acked (store r1 ! i) else acked (store r1 ! j))" for j
      using il by (cases "i = j"; simp)+
    have "agrees (lg @ os) ?st" using so il na unfolding agrees_def f store_ok_def accepted(2) by auto
    moreover have "\<forall>c\<in>set (store r1). facts_ok c" using so by (simp add: store_ok_def)
    then have "\<forall>c\<in>set ?st. facts_ok c" by (rule facts_ok_upd [OF _ il]) (auto simp: facts_ok_def)
    ultimately have "store_ok (lg @ os) (updReq i ?ack r1)" using so f(2) by (simp add: store_ok_def updReq_def stale_ok_def)
    moreover have "grant_ok (updReq i ?ack r1)" if "grant_ok r"
      using grant_ok_upd [of ?ack r1 i] grant_ok_upd [of ?own r i] that by (simp add: r1_def)
    moreover have "same_facts r (updReq i ?ack r1)"
      using same_facts_upd [of ?own r i] same_facts_upd [of ?ack r1 i] same_facts_trans [of r r1 "updReq i ?ack r1"] by (simp add: r1_def)
    ultimately show ?thesis using accepted(1) by (simp add: r1_def)
  qed
qed

lemma acknowledgeAll_keeps:
  "acknowledgeAll C i xs now r w = (os, r', w') \<Longrightarrow> store_ok lg r \<Longrightarrow> i < length (store r) \<Longrightarrow>
     store_ok (lg @ os) r' \<and> cur r' = cur r \<and> stale r' = stale r \<and> disp r' = disp r \<and> length (store r') = length (store r) \<and>
     rCfg r' = rCfg r \<and> (grant_ok r \<longrightarrow> grant_ok r') \<and> same_facts r r'"
proof (induction C i xs now r w arbitrary: lg os rule: acknowledgeAll.induct)
  case (2 C i x xs now r w)
  obtain os1 r1 w1 where a: "(if frpSubject x = crMRID (req r i) then acknowledge C i x now r w else ([], r, w)) = (os1, r1, w1)"
    by (metis prod.exhaust)
  then obtain os2 where b: "acknowledgeAll C i xs now r1 w1 = (os2, r', w')" "os = os1 @ os2"
    using 2(2) by (auto split: prod.splits)
  have "store_ok (lg @ os1) r1 \<and> cur r1 = cur r \<and> stale r1 = stale r \<and> disp r1 = disp r \<and> length (store r1) = length (store r) \<and>
      rCfg r1 = rCfg r \<and> (grant_ok r \<longrightarrow> grant_ok r1) \<and> same_facts r r1"
    using a acknowledge_keeps [of C i x now r w os1 r1 w1 lg] 2(3,4) by (cases "frpSubject x = crMRID (req r i)") auto
  then show ?case using 2(1) [OF a [symmetric] refl b(1), of "lg @ os1"] 2(4) b(2) same_facts_trans [of r r1 r'] by simp
qed auto

lemma noteOnce_at:
  assumes "r' = r \<or> (\<exists>key fresh. noteOnce i key r = (fresh, r'))" "store_ok lg r"
  shows "store_ok lg r' \<and> cur r' = cur r \<and> stale r' = stale r \<and> length (store r') = length (store r) \<and> rCfg r' = rCfg r \<and>
    same_facts r r' \<and> crDone (req r' i) = crDone (req r i)"
  using assms(1)
proof
  assume "\<exists>key fresh. noteOnce i key r = (fresh, r')"
  then obtain key fresh where "noteOnce i key r = (fresh, r')" by blast
  then show ?thesis using noteOnce_keeps [OF _ assms(2)] by simp
qed (use assms(2) in simp)

lemma followAnswer_keeps:
  assumes "followAnswer i xs now r = (os, r')" "store_ok lg r" "cur r = Some i" "\<not> crDone (req r i)"
  shows "store_ok (lg @ os) r' \<and> grant_ok r' \<and> cur r' = cur r \<and> stale r' = stale r \<and> rCfg r' = rCfg r \<and> length (store r') = length (store r) \<and>
    same_facts r r'"
proof -
  obtain kind t where j: "judge xs (crMRID (req r i)) (crFacts (req r i)) (grace r) now = (kind, t)" by (metis prod.exhaust)
  define m where "m = (if gtResponseMRID t = [] then newestResponseMRID xs (crMRID (req r i)) else gtResponseMRID t)"
  obtain os1 r1 where l1: "logChange i kind t m r = (os1, r1)" by (metis prod.exhaust)
  obtain os2 r2 where l2: "logClip i t r1 = (os2, r2)" by (metis prod.exhaust)
  let ?f = "\<lambda>c. c\<lparr>crKind := kind, crTerms := t, crRespMRID := m\<rparr>"
  define r3 where "r3 = updReq i ?f r2"
  have o: "os = os1 @ os2" "r' = onDisp (setGrant (if dispatches kind \<and> \<not> withdrawn (req r3 i) then Some t else None)) r3"
    using assms(1) j l1 l2 by (auto simp: followAnswer_def m_def r3_def Let_def)
  have "(r1 = r \<or> (\<exists>key fresh. noteOnce i key r = (fresh, r1))) \<and> quiet os1"
    using l1 by (auto simp: logChange_def Let_def split: if_splits prod.splits)
  note q1 = conjunct2 [OF this] and k1 = noteOnce_at [OF conjunct1 [OF this] assms(2)]
  have "(r2 = r1 \<or> (\<exists>key fresh. noteOnce i key r1 = (fresh, r2))) \<and> quiet os2"
    using l2 by (auto simp: logClip_def split: if_splits prod.splits)
  note q2 = conjunct2 [OF this] and k2' = noteOnce_at [OF conjunct1 [OF this] conjunct1 [OF k1]]
  have k2: "store_ok lg r2" "cur r2 = cur r" "stale r2 = stale r" "length (store r2) = length (store r)" "rCfg r2 = rCfg r"
      "same_facts r r2" "crDone (req r2 i) = crDone (req r i)"
    using k1 k2' same_facts_trans [of r r1 r2] by simp_all
  have il: "i < length (store r2)" using k2 assms(2,3) by (simp add: store_ok_def)
  have sf: "crFacts (req r2 i) = crFacts (req r i)" "same_facts r r'"
    using k2(6) by (auto simp: same_facts_def o r3_def req_updReq)
  have so: "store_ok lg r3" using store_ok_upd [of ?f lg r2 i] k2 by (simp add: r3_def)
  have q: "req r3 i = ?f (req r2 i)" using il by (simp add: r3_def req_updReq)
  have "grant_ok r'"
  proof (cases "dispatches kind \<and> \<not> withdrawn (req r3 i)")
    case False
    then show ?thesis unfolding o by (intro grant_ok_none) simp
  next
    case True
    have "facts_ok (req r2 i)" using k2 nth_mem [OF il] by (simp add: store_ok_def req_def)
    then obtain e p where ep: "rfEnergyWh (crFacts (req r i)) = Fin e" "rfPowerW (crFacts (req r i)) = Fin p" "0 \<le> p"
      using sf(1) by (auto simp: facts_ok_def)
    have "terms_within (crFacts (req r i)) e p t" using judge_within [OF j _ ep] True by blast
    then show ?thesis using True k2 sf ep assms(3,4) q unfolding grant_ok_def o by (auto simp: r3_def)
  qed
  moreover have "store_ok (lg @ os) r'" using so q1 q2 by (simp add: o store_ok_quiet)
  ultimately show ?thesis using k2 sf(2) by (simp add: o r3_def)
qed

lemma Poll_inv:
  assumes "Poll C now1 now r w = (os, r', w')" "res_inv lg r"
  shows "res_inv (lg @ os) r' \<and> kept_ok now1 r' (stale r')"
proof -
  obtain os0 r0 w0 where t: "retryWithdrawals C now1 r w = (os0, r0, w0)" by (metis prod.exhaust)
  have I: "store_ok (lg @ os0) r0" "grant_ok r0" "kept_ok now1 r0 (stale r0)" "waits_ok r0 (stale r0)"
    using retryWithdrawals_ok [OF t] assms(2) by (auto simp: res_inv_def)
  show ?thesis
  proof (cases "\<exists>i. cur r0 = Some i \<and> \<not> crDone (req r0 i)")
    case False
    then have "r' = r0 \<and> os = os0" using assms(1) t by (auto simp: Poll_def split: option.splits)
    then show ?thesis using I by (simp add: res_inv_def)
  next
    case True
    then obtain i where i: "cur r0 = Some i" "\<not> crDone (req r0 i)" by blast
    show ?thesis
    proof (cases "now < rfEnd (crFacts (req r0 i)) + grace r0")
      case False
      then obtain os1 where f: "finish i r0 = (os1, r')" "os = os0 @ os1"
        using assms(1) t i by (auto simp: Poll_def split: prod.splits)
      let ?d = "\<lambda>c. c\<lparr>crDone := True\<rparr>"
      have r': "r' = onDisp (setGrant None) (updReq i ?d r0)" "quiet os1" using f(1) by (auto simp: finish_def Let_def quiet_def)
      have "store_ok (lg @ os) r'" using store_ok_upd [of ?d "lg @ os0" r0 i] I(1) r' f(2) store_ok_quiet [of os1 "lg @ os0" r'] by simp
      moreover have "grant_ok r'" using r' by (intro grant_ok_none) simp
      moreover have "waits_ok r' (stale r')" using I(4) waits_cong [of r' r0] r' by simp
      moreover have "kept_ok now1 r' (stale r')" using I(3) by (auto simp: kept_ok_def r' req_updReq grace_def)
      ultimately show ?thesis by (simp add: res_inv_def)
    next
      case open': True
      show ?thesis
      proof (cases "now < nextPoll r0")
        case True
        then have "r' = r0 \<and> os = os0" using assms(1) t i open' by (auto simp: Poll_def)
        then show ?thesis using I by (simp add: res_inv_def)
      next
        case False
        define r1 where "r1 = r0\<lparr>nextPoll := now + seconds (PollS (rCfg r0))\<rparr>"
        have s1: "store_ok (lg @ os0) r1" "grant_ok r1" "cur r1 = Some i" "\<not> crDone (req r1 i)" "stale r1 = stale r0" "rCfg r1 = rCfg r0"
          using I(1,2) i by (simp_all add: r1_def store_ok_def grant_ok_def req_def)
        have kp: "waits_ok r1 (stale r1)" "kept_ok now1 r1 (stale r1)" using I(3,4) by (simp_all add: r1_def waits_ok_def kept_ok_def req_def grace_def pollInterval_def)
        obtain g w2 where gt: "rcGet C (respHref r1) w0 = (g, w2)" by (metis prod.exhaust)
        have rh: "respHref r0 = respHref r1" by (simp add: r1_def)
        show ?thesis
        proof (cases "\<exists>l. g = Inr l \<and> \<not> AllCount l > int (length (frlResponses l))")
          case False
          then have "r' = r1 \<and> (\<exists>os1. os = os0 @ os1 \<and> quiet os1)"
            using assms(1) t i open' \<open>\<not> now < nextPoll r0\<close> gt by (cases g) (auto simp: Poll_def r1_def Let_def)
          then show ?thesis using s1(1,2) kp store_ok_quiet [of _ "lg @ os0" r1] by (auto simp: res_inv_def)
        next
          case True
          then obtain l where l: "g = Inr l" "\<not> AllCount l > int (length (frlResponses l))" by blast
          obtain os1 r2 where fa: "followAnswer i (frlResponses l) now r1 = (os1, r2)" by (metis prod.exhaust)
          obtain os2 r3 w3 where ac: "acknowledgeAll C i (frlResponses l) now r2 w2 = (os2, r3, w3)" by (metis prod.exhaust)
          have o: "os = os0 @ [OutGet i] @ os1 @ os2" "r' = r3"
            using assms(1) t i open' \<open>\<not> now < nextPoll r0\<close> gt l fa ac by (simp_all add: Poll_def rh r1_def [symmetric])
          note f = followAnswer_keeps [OF fa _ s1(3,4), of "lg @ os0 @ [OutGet i]"]
          have s1': "store_ok (lg @ os0 @ [OutGet i]) r1" using s1(1) store_ok_quiet [of "[OutGet i]" "lg @ os0" r1] by simp
          note F = f [OF s1']
          have il: "i < length (store r2)" using F s1 by (simp add: store_ok_def)
          note A = acknowledgeAll_keeps [OF ac conjunct1 [OF F] il]
          have "waits_ok r' (stale r')" using kp(1) waits_cong [of r' r1] A F o by simp
          moreover have "same_facts r1 r'" using F A o same_facts_trans [of r1 r2 r3] by simp
          then have "kept_ok now1 r' (stale r')" using kp(2) A F o by (simp add: kept_ok_def same_facts_def grace_def)
          ultimately show ?thesis using A F o by (simp add: res_inv_def)
        qed
      qed
    qed
  qed
qed

lemma resRun_inv: "resRun C r w lg \<Longrightarrow> res_inv lg r"
proof (induction rule: resRun.induct)
  case (start self q p cfg ms r w)
  then have "store r = []" "cur r = None" "stale r = []" "terms (disp r) = None"
    by (auto simp: newReserver_def newDispatcher_def split: option.splits)
  then show ?case by (simp add: res_inv_def store_ok_def stale_ok_def agrees_def waits_ok_def grant_ok_none)
next
  case (trigger r w lg ov mrid now os r' w')
  show ?case using Trigger_inv [OF trigger.hyps(2) trigger.IH] by simp
next
  case (withdraw r w lg now os r' w')
  show ?case using Withdraw_inv [OF withdraw.hyps(2) withdraw.IH] by simp
next
  case (poll r w lg now1 now os r' w')
  show ?case using Poll_inv [OF poll.hyps(2) poll.IH] by simp
next
  case (dispatch r w lg a now ms)
  let ?r = "onDisp (\<lambda>d. recordAchieved a (snd (dispatchPlan d now ms))) r"
  have "terms (disp ?r) = terms (disp r)" by (simp add: recordAchieved_def dispatchPlan_terms)
  then have "grant_ok ?r = grant_ok r" by (intro grant_ok_cong) simp_all
  then show ?case using dispatch.IH waits_cong [of ?r r] by (simp add: res_inv_def)
qed

lemma grant_ok_cur: "grant_ok r \<Longrightarrow> terms (disp r) = Some t \<Longrightarrow> \<exists>i. cur r = Some i \<and> \<not> withdrawn (req r i) \<and> \<not> crDone (req r i) \<and>
     dispatches (crKind (req r i)) \<and>
     (\<exists>e p. rfEnergyWh (crFacts (req r i)) = Fin e \<and> rfPowerW (crFacts (req r i)) = Fin p \<and> terms_within (crFacts (req r i)) e p t)"
  by (auto simp: grant_ok_def)

section \<open>Which request is followed\<close>

text \<open>The requests whose post the server accepted, in the order of the log, and the newest of them.\<close>

definition posted :: "resOut list \<Rightarrow> nat list" where
  "posted lg = List.map_filter (\<lambda>x. case x of OutPost i True \<Rightarrow> Some i | _ \<Rightarrow> None) lg"

definition newestPost :: "resOut list \<Rightarrow> nat option" where
  "newestPost lg = (if posted lg = [] then None else Some (last (posted lg)))"

lemma posted_simps [simp]: "posted [] = []" "posted (xs @ ys) = posted xs @ posted ys"
  "posted (x # xs) = (case x of OutPost i True \<Rightarrow> [i] | _ \<Rightarrow> []) @ posted xs"
  by (simp_all add: posted_def map_filter_def split: resOut.split bool.split)

text \<open>What keeps the request that is followed: it posts nothing, adds no request, and follows the same one.\<close>

definition keepsCur :: "reserver \<Rightarrow> resOut list \<Rightarrow> reserver \<Rightarrow> bool" where
  "keepsCur r os r' \<longleftrightarrow> cur r' = cur r \<and> length (store r') = length (store r) \<and> posted os = []"

lemma keepsCur_refl: "posted os = [] \<Longrightarrow> keepsCur r os r"
  by (simp add: keepsCur_def)

lemma keepsCur_trans: "keepsCur r os r1 \<Longrightarrow> keepsCur r1 os' r' \<Longrightarrow> keepsCur r (os @ os') r'"
  by (simp add: keepsCur_def)

lemma withdrawReq_keepsCur: "withdrawReq C i now r w = (ok, permanent, os, r', w') \<Longrightarrow> keepsCur r os r'"
  by (auto simp: withdrawReq_def keepsCur_def Let_def split: if_splits prod.splits option.splits)

lemma withdrawalLoop_keepsCur: "withdrawalLoop C now ss kept r w = (os, r', w') \<Longrightarrow> keepsCur r os r'"
proof (induction ss arbitrary: kept r w os)
  case (Cons s ss)
  obtain ok permanent os1 r1 w1 where wr: "withdrawReq C (swReq s) now r w = (ok, permanent, os1, r1, w1)" by (metis prod.exhaust)
  note k = withdrawReq_keepsCur [OF wr]
  show ?case using Cons k
    by (fastforce simp: wr keepsCur_def Let_def split: if_splits prod.splits)
qed (auto simp: keepsCur_def)

lemma Withdraw_keepsCur:
  assumes "Withdraw C now r w = (os, r', w')"
  shows "keepsCur r os r'"
proof (cases "cur r")
  case (Some i)
  obtain ok permanent os1 r1 w1 where wr: "withdrawReq C i now r w = (ok, permanent, os1, r1, w1)" by (metis prod.exhaust)
  show ?thesis using assms Some withdrawReq_keepsCur [OF wr]
    by (auto simp: Withdraw_def wr keepsCur_def split: if_splits)
qed (use assms in \<open>auto simp: Withdraw_def keepsCur_def\<close>)

lemma noteOnce_keepsCur: "noteOnce i k r = (b, r') \<Longrightarrow> keepsCur r [] r'"
  by (auto simp: noteOnce_def keepsCur_def split: if_splits)

lemma acknowledge_keepsCur: "acknowledge C i x now r w = (os, r', w') \<Longrightarrow> keepsCur r os r'"
  by (auto simp: acknowledge_def keepsCur_def noteOnce_def Let_def split: if_splits prod.splits option.splits)

lemma acknowledgeAll_keepsCur: "acknowledgeAll C i l now r w = (os, r', w') \<Longrightarrow> keepsCur r os r'"
proof (induction l arbitrary: r w os)
  case (Cons a l)
  obtain os1 r1 w1 where s: "(if frpSubject a = crMRID (req r i) then acknowledge C i a now r w else ([], r, w)) = (os1, r1, w1)"
    by (metis prod.exhaust)
  then have "keepsCur r os1 r1" by (auto dest: acknowledge_keepsCur simp: keepsCur_refl split: if_splits)
  moreover obtain os2 where "acknowledgeAll C i l now r1 w1 = (os2, r', w')" "os = os1 @ os2"
    using Cons.prems s by (auto split: prod.splits)
  ultimately show ?case using Cons.IH keepsCur_trans by blast
qed (simp add: keepsCur_def)

lemma logs_keepsCur:
  "logChange i kind t m r = (os, r') \<Longrightarrow> keepsCur r os r'" "logClip i t r = (os, r') \<Longrightarrow> keepsCur r os r'"
  by (auto simp: logChange_def logClip_def keepsCur_def Let_def noteOnce_def split: if_splits prod.splits)

lemma followAnswer_keepsCur:
  assumes "followAnswer i xs now r = (os, r')"
  shows "keepsCur r os r'"
proof -
  obtain kind t where j: "judge xs (crMRID (req r i)) (crFacts (req r i)) (grace r) now = (kind, t)" by force
  let ?m = "if gtResponseMRID t = [] then newestResponseMRID xs (crMRID (req r i)) else gtResponseMRID t"
  obtain os1 r1 where l1: "logChange i kind t ?m r = (os1, r1)" by force
  obtain os2 r2 where l2: "logClip i t r1 = (os2, r2)" by force
  have "os = os1 @ os2" "cur r' = cur r2" "length (store r') = length (store r2)"
    using assms by (auto simp: followAnswer_def j l1 l2 Let_def)
  then show ?thesis using logs_keepsCur(1) [OF l1] logs_keepsCur(2) [OF l2] by (simp add: keepsCur_def)
qed

lemma finish_keepsCur: "finish i r = (os, r') \<Longrightarrow> keepsCur r os r'"
  by (auto simp: finish_def keepsCur_def posted_def map_filter_def Let_def)

lemma Poll_keepsCur:
  assumes "Poll C now1 now r w = (os, r', w')"
  shows "keepsCur r os r'"
proof -
  obtain os1 r1 w1 where q: "retryWithdrawals C now1 r w = (os1, r1, w1)" by (metis prod.exhaust)
  then have k: "keepsCur r os1 r1"
    by (auto simp: retryWithdrawals_def withdrawalLoop_keepsCur keepsCur_refl split: if_splits)
  have "\<exists>os2. os = os1 @ os2 \<and> keepsCur r1 os2 r'"
  proof (cases "cur r1")
    case None
    then show ?thesis using assms q by (auto simp: Poll_def intro: keepsCur_refl)
  next
    case (Some i)
    show ?thesis using assms q Some
      by (auto simp: Poll_def Let_def keepsCur_def split: if_splits prod.splits sum.splits
          dest!: finish_keepsCur followAnswer_keepsCur acknowledgeAll_keepsCur)
  qed
  then show ?thesis using keepsCur_trans [OF k] by blast
qed

lemma keepsCur_cur: "Withdraw C now r w = (os, r', w') \<Longrightarrow> cur r' = cur r"
  "Poll C now1 now r w = (os, r', w') \<Longrightarrow> cur r' = cur r"
  by (auto dest!: Withdraw_keepsCur Poll_keepsCur simp: keepsCur_def)

text \<open>A new request is followed from the moment the server accepts it, whatever was followed before.\<close>

lemma Trigger_follows:
  assumes "Trigger C ov mrid now r w = (os, r', w')"
  shows "keepsCur r os r' \<or> (posted os = [length (store r)] \<and> cur r' = Some (length (store r)) \<and>
    length (store r') = Suc (length (store r)))"
proof -
  have old: "posted os1 = [] \<and> length (store r1) = length (store r)"
    if "withdrawReq C i now r v = (ok, permanent, os1, r1, v')" for i v ok permanent os1 r1 v'
    using withdrawReq_keepsCur [OF that] by (simp add: keepsCur_def)
  show ?thesis using assms
    by (auto simp: Trigger_def keepsCur_def Let_def dest!: old split: sum.splits option.splits prod.splits if_splits)
qed

definition follows_newest :: "resOut list \<Rightarrow> reserver \<Rightarrow> bool" where
  "follows_newest lg r \<longleftrightarrow> posted lg = [0..<length (store r)] \<and>
     cur r = (if store r = [] then None else Some (length (store r) - 1))"

lemma follows_keepsCur: "follows_newest lg r \<Longrightarrow> keepsCur r os r' \<Longrightarrow> follows_newest (lg @ os) r'"
  by (auto simp: follows_newest_def keepsCur_def simp flip: length_greater_0_conv)

lemma resRun_follows: "resRun C r w lg \<Longrightarrow> follows_newest lg r"
proof (induction rule: resRun.induct)
  case (start self q p cfg ms r w)
  then show ?case by (auto simp: newReserver_def follows_newest_def split: option.splits)
next
  case (trigger r w lg ov mrid now os r' w')
  from Trigger_follows [OF trigger.hyps(2)] show ?case
  proof
    assume "keepsCur r os r'"
    with trigger.IH show ?thesis by (rule follows_keepsCur)
  next
    assume t: "posted os = [length (store r)] \<and> cur r' = Some (length (store r)) \<and> length (store r') = Suc (length (store r))"
    then have "store r' \<noteq> []" by auto
    then show ?thesis using t trigger.IH by (simp add: follows_newest_def)
  qed
next
  case (withdraw r w lg now os r' w')
  from withdraw.IH Withdraw_keepsCur [OF withdraw.hyps(2)] show ?case by (rule follows_keepsCur)
next
  case (poll r w lg now1 now os r' w')
  from poll.IH Poll_keepsCur [OF poll.hyps(2)] show ?case by (rule follows_keepsCur)
qed (simp_all add: follows_newest_def)

text \<open>C19: Over everything a reserver does, the dispatcher works under a grant only for the newest request: the last one
  whose post the server accepted is the one being followed, the server has accepted no withdrawal of it, it is not
  finished, and its answer is one to dispatch; and the terms lie within what that request asked for: its window, its
  direction, its energy and its power, as it was posted.\<close>

theorem dispatch_only_under_live_grant:
  assumes "resRun C r w lg" "terms (disp r) = Some t"
  shows "\<exists>i e p. newestPost lg = Some i \<and> cur r = Some i \<and> Suc i = length (store r) \<and> OutPut i True \<notin> set lg \<and>
    \<not> withdrawn (store r ! i) \<and> \<not> crDone (store r ! i) \<and> dispatches (crKind (store r ! i)) \<and>
    rfEnergyWh (factsOf (crReq (store r ! i))) = Fin e \<and> rfPowerW (factsOf (crReq (store r ! i))) = Fin p \<and>
    terms_within (factsOf (crReq (store r ! i))) e p t"
proof -
  have I: "store_ok lg r" "grant_ok r" using resRun_inv [OF assms(1)] by (simp_all add: res_inv_def)
  obtain i e p where g: "cur r = Some i" "\<not> withdrawn (req r i)" "\<not> crDone (req r i)" "dispatches (crKind (req r i))"
    "rfEnergyWh (crFacts (req r i)) = Fin e" "rfPowerW (crFacts (req r i)) = Fin p" "terms_within (crFacts (req r i)) e p t"
    using grant_ok_cur [OF I(2) assms(2)] by blast
  have i: "i < length (store r)" "crFacts (store r ! i) = factsOf (crReq (store r ! i))"
    using I(1) g(1) by (auto simp: store_ok_def facts_ok_def)
  have "newestPost lg = Some i \<and> Suc i = length (store r)"
    using resRun_follows [OF assms(1)] g(1) i(1) by (auto simp: follows_newest_def newestPost_def split: if_splits)
  moreover have "OutPut i True \<notin> set lg"
    using I(1) g(2) by (auto simp: store_ok_def agrees_def req_def simp flip: count_list_0_iff)
  ultimately show ?thesis using g i by (auto simp: req_def)
qed

text \<open>C22: The server accepts each thing at most once: a request is withdrawn at most once, and is known as withdrawn exactly
  when the server accepted that; each answer of a request is acknowledged at most once, and is known as acknowledged
  exactly when the server accepted the acknowledgement.\<close>

theorem accepted_at_most_once:
  assumes "resRun C r w lg"
  shows "count_list lg (OutPut i True) \<le> 1 \<and> count_list lg (OutAck i m True) \<le> 1 \<and>
    (OutPut i True \<in> set lg \<longleftrightarrow> i < length (store r) \<and> withdrawn (store r ! i)) \<and>
    (OutAck i m True \<in> set lg \<longleftrightarrow> i < length (store r) \<and> m \<in> set (acked (store r ! i)))"
proof -
  have a: "agrees lg (store r)" using resRun_inv [OF assms] by (simp add: res_inv_def store_ok_def)
  have "x \<in> set lg \<longleftrightarrow> count_list lg x \<noteq> 0" for x by (simp add: count_list_0_iff)
  then show ?thesis using a by (simp add: agrees_def)
qed

text \<open>A withdrawal the server has not accepted is neither forgotten nor hammered: after a poll every kept one waits for a
  later instant, by at least a second and at most the longer of the poll interval and five minutes at a time, none is
  kept twice, and none beyond the end of its request's window and grace.\<close>

theorem withdrawals_retried_with_backoff:
  assumes "resRun C r w lg" "Poll C now1 now r w = (os, r', w')"
  shows "distinct (map swReq (stale r')) \<and>
    (\<forall>s\<in>set (stale r'). now1 < swNext s \<and> 1000000000 \<le> swWait s \<and> swWait s \<le> max (pollInterval r') 300000000000 \<and>
       now1 < rfEnd (crFacts (store r' ! swReq s)) + grace r' \<and> crHref (store r' ! swReq s) \<noteq> [])"
proof -
  have "res_inv (lg @ os) r' \<and> kept_ok now1 r' (stale r')" using Poll_inv [OF assms(2) resRun_inv [OF assms(1)]] .
  then show ?thesis by (auto simp: res_inv_def kept_ok_def waits_ok_def store_ok_def stale_ok_def req_def maxWithdrawBackoff_def)
qed

section \<open>An example\<close>

text \<open>A server that stores what it is sent, answers the first request with a grant and refuses the first withdrawal.\<close>

definition demoAnswer :: FlowReservationResponse where
  "demoAnswer = \<lparr>frpMRID = ''r'', frpSubject = ''q'', frpEventStatus = None, frpCreationTime = 5,
     frpInterval = Some \<lparr>Start = 301, Duration = 3600\<rparr>, EnergyAvailable = Some \<lparr>seMultiplier = 0, seValue = - 900\<rparr>,
     PowerAvailable = Some \<lparr>apMultiplier = 0, apValue = - 700\<rparr>, frpReplyTo = ''/rsp'', frpResponseRequired = Some 1\<rparr>"

definition demoRes :: "bool reservationClient" where
  "demoRes = \<lparr>rcPost = (\<lambda>h q w. (Inr ''/frq/1'', w)), rcGet = (\<lambda>h w. (Inr \<lparr>AllCount = 1, frlResponses = [demoAnswer]\<rparr>, w)),
     rcAck = (\<lambda>h a w. (None, w)), rcPut = (\<lambda>h q w. (if w then Some ErrBadRequest else None, False))\<rparr>"

definition demoFrq :: Frq where
  "demoFrq = \<lparr>fqEnergyWh = Fin (- 2500), fqPowerW = Fin 50000, fqStartInS = 300, fqDurationS = 3600, fqMinLeadS = 60, AnswerGraceS = 30, PollS = 10\<rparr>"

definition demoReserver :: reserver where
  "demoReserver = \<lparr>selfLFDI = ''S'', reqHref = ''/frq'', respHref = ''/frp'', rCfg = demoFrq, disp = newDispatcher 1000000000, store = [],
     cur = None, nextPoll = zeroTime, stale = []\<rparr>"

lemma res_demo_start: "resRun demoRes demoReserver True []"
  by (rule resRun.start [of "''S''" "Some ''/frq''" "Some ''/frp''" demoFrq "1000000000"]) (simp add: newReserver_def demoReserver_def)

definition demoFollowed :: "bool \<Rightarrow> currentRequest" where
  "demoFollowed answered = \<lparr>crFacts = factsOf demoReq, crMRID = ''q'', crHref = ''/frq/1'', crReq = demoReq,
     crKind = (if answered then answerGranted else answerPending),
     crTerms = (if answered then \<lparr>gtResponseMRID = ''r'', gtStart = 301000000000, gtEnd = 3901000000000, gtEnergyWh = Fin (- 900),
       gtPowerW = Fin 700, Clipped = []\<rparr> else noTerms),
     crRespMRID = (if answered then ''r'' else []), withdrawn = False, crDone = False, acked = (if answered then [''r''] else []), owed = [], noted = []\<rparr>"

definition demoGranted :: reserver where
  "demoGranted = demoReserver\<lparr>disp := setGrant (Some (crTerms (demoFollowed True))) (newDispatcher 1000000000), store := [demoFollowed True],
     cur := Some 0, nextPoll := 12000000000\<rparr>"

lemma demo_trigger:
  "Trigger demoRes (Inr noOverlay) (Some ''q'') 1000000000 demoReserver True =
     ([OutPost 0 True], demoReserver\<lparr>store := [demoFollowed False], cur := Some 0, nextPoll := 1000000000\<rparr>, True)"
proof -
  have "settingsOf (rCfg demoReserver) = demoSettings" by (simp add: settingsOf_def demoReserver_def demoFrq_def demoSettings_def)
  then show ?thesis using demo_build
    by (simp add: Trigger_def applyOverlay_def noOverlay_def demoReserver_def demoRes_def demoFollowed_def onDisp_def dispReset_def newDispatcher_def Let_def)
qed

lemma demo_poll:
  "\<exists>os. Poll demoRes 2000000000 2000000000 (demoReserver\<lparr>store := [demoFollowed False], cur := Some 0, nextPoll := 1000000000\<rparr>) True =
     (os @ [OutAck 0 ''r'' True], demoGranted, True)"
proof -
  let ?r = "demoReserver\<lparr>store := [demoFollowed False], cur := Some 0, nextPoll := 12000000000\<rparr>"
  have j: "judge [demoAnswer] ''q'' (factsOf demoReq) 30000000000 2000000000 = (answerGranted, crTerms (demoFollowed True))"
    by (simp add: judge_def firstAnswer_def effectiveResponse_def liveStatus_def demoAnswer_def demo_facts demoFollowed_def readGrant_def
        clipNotes_def direction_def scaled_def pow10_def unixTime_def seconds_id Let_def)
  let ?r2 = "demoGranted\<lparr>store := [(demoFollowed True)\<lparr>acked := []\<rparr>]\<rparr>"
  have f: "followAnswer 0 [demoAnswer] 2000000000 ?r = ([LogAnswer 0 answerGranted (crTerms (demoFollowed True)) ''r''], ?r2)"
    using j by (simp add: followAnswer_def req_def demoFollowed_def demoReserver_def demoFrq_def grace_def seconds_id logChange_def logClip_def
        updReq_def onDisp_def demoGranted_def dispatches_def Let_def)
  have a: "acknowledgeAll demoRes 0 [demoAnswer] 2000000000 ?r2 True = ([OutAck 0 ''r'' True], demoGranted, True)"
    by (simp add: acknowledge_def demoAnswer_def demoGranted_def demoFollowed_def req_def updReq_def demoRes_def responseRequiredReceived_def
        demoReserver_def Let_def)
  have "retryWithdrawals demoRes 2000000000 (demoReserver\<lparr>store := [demoFollowed False], cur := Some 0, nextPoll := 1000000000\<rparr>) True =
      ([], demoReserver\<lparr>store := [demoFollowed False], cur := Some 0, nextPoll := 1000000000\<rparr>, True)"
    by (simp add: retryWithdrawals_def demoReserver_def)
  then have "Poll demoRes 2000000000 2000000000 (demoReserver\<lparr>store := [demoFollowed False], cur := Some 0, nextPoll := 1000000000\<rparr>) True =
      ([OutGet 0, LogAnswer 0 answerGranted (crTerms (demoFollowed True)) ''r''] @ [OutAck 0 ''r'' True], demoGranted, True)"
    using f a by (simp add: Poll_def req_def demoFollowed_def demo_facts demoReserver_def demoFrq_def grace_def seconds_id demoRes_def Let_def)
  then show ?thesis by blast
qed

lemma demo_granted: "\<exists>lg. resRun demoRes demoGranted True (lg @ [OutAck 0 ''r'' True])"
proof -
  obtain os where p: "Poll demoRes 2000000000 2000000000 (demoReserver\<lparr>store := [demoFollowed False], cur := Some 0, nextPoll := 1000000000\<rparr>) True =
     (os @ [OutAck 0 ''r'' True], demoGranted, True)" using demo_poll by blast
  show ?thesis using resRun.poll [OF resRun.trigger [OF res_demo_start demo_trigger] p] by (metis append_assoc)
qed

theorem dispatch_only_under_live_grant_witness:
  "\<exists>i e p. cur demoGranted = Some i \<and> \<not> withdrawn (store demoGranted ! i) \<and>
     terms_within (factsOf (crReq (store demoGranted ! i))) e p (crTerms (demoFollowed True))"
proof -
  obtain lg where lg: "resRun demoRes demoGranted True lg" using demo_granted by blast
  have "terms (disp demoGranted) = Some (crTerms (demoFollowed True))" by (simp add: demoGranted_def)
  then show ?thesis using dispatch_only_under_live_grant [OF lg] by blast
qed

theorem accepted_at_most_once_witness:
  "\<exists>lg. resRun demoRes demoGranted True lg \<and> count_list lg (OutAck 0 ''r'' True) = 1 \<and> OutPut 0 True \<notin> set lg"
proof -
  obtain lg where lg: "resRun demoRes demoGranted True (lg @ [OutAck 0 ''r'' True])" using demo_granted by blast
  have "\<not> withdrawn (store demoGranted ! 0)" by (simp add: demoGranted_def demoFollowed_def)
  then show ?thesis using accepted_at_most_once [OF lg, of 0 "''r''"] lg by (intro exI [of _ "lg @ [OutAck 0 ''r'' True]"]) simp
qed

theorem withdrawals_retried_with_backoff_witness:
  "\<exists>r os r'. Withdraw demoRes 3000000000 demoGranted True = ([OutPut 0 False], r, False) \<and> Poll demoRes 4000000000 4000000000 r False = (os, r', False) \<and>
     length (stale r') = 1 \<and> (\<forall>s\<in>set (stale r'). 4000000000 < swNext s)"
proof -
  obtain lg where lg: "resRun demoRes demoGranted True lg" using demo_granted by blast
  let ?s = "\<lparr>swReq = 0, swNext = 13000000000, swWait = 10000000000\<rparr>"
  let ?r = "demoGranted\<lparr>stale := [?s]\<rparr>"
  have w: "Withdraw demoRes 3000000000 demoGranted True = ([OutPut 0 False], ?r, False)"
    by (simp add: Withdraw_def withdrawReq_def req_def demoGranted_def demoFollowed_def demoRes_def permanentRefusal_def errorsIs_def
        retryLater_def pollInterval_def demoReserver_def demoFrq_def seconds_id Let_def)
  have run: "resRun demoRes ?r False (lg @ [OutPut 0 False])" using resRun.withdraw [OF lg w] .
  have "Poll demoRes 4000000000 4000000000 ?r False = ([], ?r, False)"
    by (simp add: Poll_def retryWithdrawals_def req_def demoGranted_def demoFollowed_def demo_facts grace_def demoReserver_def demoFrq_def seconds_id)
  then show ?thesis using w withdrawals_retried_with_backoff [OF run] by fastforce
qed

end
