(* ===== verification/SimConfig.thy ===== *)
theory SimConfig
  imports Sidecar Manager
begin

text \<open>
  The sim-mode configuration file (\<open>internal/simconfig/simconfig.go\<close>): the strict decoding of a
  JSON value into the settings, the defaults of the absent keys and the validation. What the JSON reader
  delivers for a text is a parameter. A Go map has no order of its own: \<open>ord\<close> gives the order in
  which a \<open>range\<close> over a map visits the keys, each loop named by a string of its own.
\<close>

section \<open>Strict decoding\<close>

text \<open>
  \<open>encoding/json\<close> decodes into the value that is already there: \<open>null\<close> leaves it, a key that
  occurs twice is decoded twice, and a key matches a field exactly or else up to case. A key without a
  field is an error.
\<close>

type_synonym 'a dec = "json \<Rightarrow> 'a \<Rightarrow> 'a option"

fun intoString :: "string dec" where
  "intoString JNull old = Some old"
| "intoString (JStr s) old = Some s"
| "intoString _ old = None"

fun intoFloat :: "f64 dec" where
  "intoFloat JNull old = Some old"
| "intoFloat (JNum r) old = Some (Fin r)"
| "intoFloat _ old = None"

fun intoInt :: "int \<Rightarrow> int \<Rightarrow> int dec" where
  "intoInt lo hi JNull old = Some old"
| "intoInt lo hi (JNum r) old = (if r = of_int \<lfloor>r\<rfloor> \<and> lo \<le> \<lfloor>r\<rfloor> \<and> \<lfloor>r\<rfloor> \<le> hi then Some \<lfloor>r\<rfloor> else None)"
| "intoInt lo hi _ old = None"

fun intoBool :: "bool dec" where
  "intoBool JNull old = Some old"
| "intoBool (JBool b) old = Some b"
| "intoBool _ old = None"

definition intoPtr :: "'a dec \<Rightarrow> 'a \<Rightarrow> 'a option dec" where
  "intoPtr d zero v old =
     (if v = JNull then Some None else map_option Some (d v (case old of None \<Rightarrow> zero | Some o' \<Rightarrow> o')))"

fun intoItems :: "'a dec \<Rightarrow> 'a \<Rightarrow> json list \<Rightarrow> 'a list \<Rightarrow> 'a list option" where
  "intoItems d zero [] old = Some []"
| "intoItems d zero (v # vs) old =
     (case d v (case old of [] \<Rightarrow> zero | x # _ \<Rightarrow> x) of
        None \<Rightarrow> None
      | Some y \<Rightarrow> map_option (Cons y) (intoItems d zero vs (tl old)))"

fun intoList :: "'a dec \<Rightarrow> 'a \<Rightarrow> 'a list dec" where
  "intoList d zero JNull old = Some []"
| "intoList d zero (JArr vs) old = intoItems d zero vs old"
| "intoList d zero _ old = None"

definition fieldFor :: "(string \<times> 'a dec) list \<Rightarrow> string \<Rightarrow> 'a dec option" where
  "fieldFor fs k = (case map_of fs k of Some d \<Rightarrow> Some d | None \<Rightarrow> map_option snd (find (\<lambda>(n, _). equalFold n k) fs))"

fun intoFields :: "(string \<times> 'a dec) list \<Rightarrow> (string \<times> json) list \<Rightarrow> 'a \<Rightarrow> 'a option" where
  "intoFields fs [] a = Some a"
| "intoFields fs ((k, v) # kvs) a =
     (case fieldFor fs k of
        None \<Rightarrow> None
      | Some d \<Rightarrow> (case d v a of None \<Rightarrow> None | Some a' \<Rightarrow> intoFields fs kvs a'))"

fun intoStruct :: "(string \<times> 'a dec) list \<Rightarrow> 'a dec" where
  "intoStruct fs JNull old = Some old"
| "intoStruct fs (JObj kvs) old = intoFields fs kvs old"
| "intoStruct fs _ old = None"

text \<open>The decoder of one field of a record, from the field's own decoder, selector and update.\<close>

definition field :: "'b dec \<Rightarrow> ('a \<Rightarrow> 'b) \<Rightarrow> (('b \<Rightarrow> 'b) \<Rightarrow> 'a \<Rightarrow> 'a) \<Rightarrow> 'a dec" where
  "field d sel upd v a = map_option (\<lambda>b. upd (\<lambda>_. b) a) (d v (sel a))"

section \<open>The settings\<close>

record simDevice =
  sdName :: string
  sdType :: string
  sdRatedW :: f64
  sdCapacityWh :: f64
  sdInitialSOC :: "f64 option"

record simReplay =
  srFile :: string
  srClock :: string
  srScale :: f64

record Interval =
  IntervalS :: int

record simControls =
  scResponse :: string
  scPollS :: int

record Managed =
  mgName :: string
  mgLFDI :: string
  mgDevice :: "simDevice option"
  mgReplay :: "simReplay option"
  mgControls :: "simControls option"

record simFrq =
  sfEnergyWh :: f64
  sfPowerW :: f64
  sfStartInS :: int
  sfDurationS :: int
  sfMinLeadS :: int
  sfPollS :: int
  sfAnswerGraceS :: int
  sfRequestFile :: string

record simDispatch =
  TickS :: int

record simNotify =
  Listen :: "string option"

record HMI =
  Port :: int

record simFile =
  cfRole :: string
  cfServer :: string
  cfCert :: string
  cfKey :: string
  cfCA :: string
  LookupOwnEdev :: "bool option"
  cfPin :: int
  cfDevice :: simDevice
  cfBackend :: string
  cfReplay :: simReplay
  cfReport :: Interval
  cfStatus :: Interval
  cfControls :: simControls
  cfManaged :: "Managed list"
  cfFrq :: simFrq
  cfDispatch :: simDispatch
  cfNotify :: simNotify
  cfHMI :: HMI

definition zeroDevice :: simDevice where
  "zeroDevice = \<lparr>sdName = [], sdType = [], sdRatedW = 0, sdCapacityWh = 0, sdInitialSOC = None\<rparr>"

definition zeroReplay :: simReplay where
  "zeroReplay = \<lparr>srFile = [], srClock = [], srScale = 0\<rparr>"

definition zeroControls :: simControls where
  "zeroControls = \<lparr>scResponse = [], scPollS = 0\<rparr>"

definition zeroManaged :: Managed where
  "zeroManaged = \<lparr>mgName = [], mgLFDI = [], mgDevice = None, mgReplay = None, mgControls = None\<rparr>"

definition zeroFrq :: simFrq where
  "zeroFrq = \<lparr>sfEnergyWh = 0, sfPowerW = 0, sfStartInS = 0, sfDurationS = 0, sfMinLeadS = 0, sfPollS = 0,
     sfAnswerGraceS = 0, sfRequestFile = []\<rparr>"

definition zeroFile :: simFile where
  "zeroFile = \<lparr>cfRole = [], cfServer = [], cfCert = [], cfKey = [], cfCA = [], LookupOwnEdev = None, cfPin = 0,
     cfDevice = zeroDevice, cfBackend = [], cfReplay = zeroReplay, cfReport = \<lparr>IntervalS = 0\<rparr>,
     cfStatus = \<lparr>IntervalS = 0\<rparr>, cfControls = zeroControls, cfManaged = [], cfFrq = zeroFrq,
     cfDispatch = \<lparr>TickS = 0\<rparr>, cfNotify = \<lparr>Listen = None\<rparr>, cfHMI = \<lparr>Port = 0\<rparr>\<rparr>"

abbreviation goInt :: "int dec" where "goInt \<equiv> intoInt minInt64 maxInt64"
abbreviation goUint :: "int dec" where "goUint \<equiv> intoInt 0 (2 ^ 64 - 1)"

definition intoDevice :: "simDevice dec" where
  "intoDevice = intoStruct
     [(''name'', field intoString sdName sdName_update), (''type'', field intoString sdType sdType_update),
      (''rated_w'', field intoFloat sdRatedW sdRatedW_update),
      (''capacity_wh'', field intoFloat sdCapacityWh sdCapacityWh_update),
      (''initial_soc'', field (intoPtr intoFloat 0) sdInitialSOC sdInitialSOC_update)]"

definition intoReplay :: "simReplay dec" where
  "intoReplay = intoStruct
     [(''file'', field intoString srFile srFile_update), (''clock'', field intoString srClock srClock_update),
      (''scale'', field intoFloat srScale srScale_update)]"

definition intoInterval :: "Interval dec" where
  "intoInterval = intoStruct [(''interval_s'', field goInt IntervalS IntervalS_update)]"

definition intoControls :: "simControls dec" where
  "intoControls = intoStruct
     [(''response'', field intoString scResponse scResponse_update), (''poll_s'', field goInt scPollS scPollS_update)]"

definition intoManaged :: "Managed dec" where
  "intoManaged = intoStruct
     [(''name'', field intoString mgName mgName_update), (''lfdi'', field intoString mgLFDI mgLFDI_update),
      (''device'', field (intoPtr intoDevice zeroDevice) mgDevice mgDevice_update),
      (''replay'', field (intoPtr intoReplay zeroReplay) mgReplay mgReplay_update),
      (''controls'', field (intoPtr intoControls zeroControls) mgControls mgControls_update)]"

definition frqFields :: "(string \<times> simFrq dec) list" where
  "frqFields =
     [(''energy_wh'', field intoFloat sfEnergyWh sfEnergyWh_update), (''power_w'', field intoFloat sfPowerW sfPowerW_update),
      (''start_in_s'', field goInt sfStartInS sfStartInS_update), (''duration_s'', field goInt sfDurationS sfDurationS_update),
      (''min_lead_s'', field goInt sfMinLeadS sfMinLeadS_update), (''poll_s'', field goInt sfPollS sfPollS_update),
      (''answer_grace_s'', field goInt sfAnswerGraceS sfAnswerGraceS_update),
      (''request_file'', field intoString sfRequestFile sfRequestFile_update)]"

definition intoFrq :: "simFrq dec" where
  "intoFrq = intoStruct frqFields"

definition fileFields :: "(string \<times> simFile dec) list" where
  "fileFields =
     [(''role'', field intoString cfRole cfRole_update), (''server'', field intoString cfServer cfServer_update),
      (''cert'', field intoString cfCert cfCert_update), (''key'', field intoString cfKey cfKey_update),
      (''ca'', field intoString cfCA cfCA_update),
      (''lookup_own_edev'', field (intoPtr intoBool False) LookupOwnEdev LookupOwnEdev_update),
      (''pin'', field goUint cfPin cfPin_update), (''device'', field intoDevice cfDevice cfDevice_update),
      (''backend'', field intoString cfBackend cfBackend_update), (''replay'', field intoReplay cfReplay cfReplay_update),
      (''report'', field intoInterval cfReport cfReport_update), (''status'', field intoInterval cfStatus cfStatus_update),
      (''controls'', field intoControls cfControls cfControls_update),
      (''managed'', field (intoList intoManaged zeroManaged) cfManaged cfManaged_update),
      (''frq'', field intoFrq cfFrq cfFrq_update),
      (''dispatch'', field (intoStruct [(''tick_s'', field goInt TickS TickS_update)]) cfDispatch cfDispatch_update),
      (''notify'', field (intoStruct [(''listen'', field (intoPtr intoString []) Listen Listen_update)]) cfNotify cfNotify_update),
      (''hmi'', field (intoStruct [(''port'', field goInt Port Port_update)]) cfHMI cfHMI_update)]"

definition intoFile :: "simFile dec" where
  "intoFile = intoStruct fileFields"

section \<open>Presence\<close>

text \<open>
  \<open>json.Unmarshal\<close> into \<open>map[string]any\<close> keeps the last value of every key, exactly spelt. A value
  of another shape gives the nil map, which has no key.
\<close>

type_synonym presence = "(string \<times> json) list"
type_synonym mapOrder = "string \<Rightarrow> string list \<Rightarrow> string list"

fun asMap :: "json \<Rightarrow> presence" where
  "asMap (JObj kvs) = kvs"
| "asMap _ = []"

fun asList :: "json \<Rightarrow> json list" where
  "asList (JArr vs) = vs"
| "asList _ = []"

definition mapKeys :: "presence \<Rightarrow> string list" where
  "mapKeys p = remdups (map fst p)"

definition hasKey :: "presence \<Rightarrow> string \<Rightarrow> bool" where
  "hasKey p key \<longleftrightarrow> list_ex (\<lambda>k. equalFold k key) (mapKeys p)"

definition subMap :: "(string list \<Rightarrow> string list) \<Rightarrow> presence \<Rightarrow> string \<Rightarrow> presence" where
  "subMap ord p key =
     (case find (\<lambda>k. equalFold k key) (ord (mapKeys p)) of
        None \<Rightarrow> []
      | Some k \<Rightarrow> (case jget p k of None \<Rightarrow> [] | Some v \<Rightarrow> asMap v))"

fun elemLoop :: "presence \<Rightarrow> string \<Rightarrow> nat \<Rightarrow> string list \<Rightarrow> presence" where
  "elemLoop p key i [] = []"
| "elemLoop p key i (k # ks) =
     (let l = (case jget p k of None \<Rightarrow> [] | Some v \<Rightarrow> asList v) in
      if equalFold k key \<and> i < length l then asMap (l ! i) else elemLoop p key i ks)"

definition elemMap :: "(string list \<Rightarrow> string list) \<Rightarrow> presence \<Rightarrow> string \<Rightarrow> nat \<Rightarrow> presence" where
  "elemMap ord p key i = elemLoop p key i (ord (mapKeys p))"

section \<open>Defaults\<close>

definition deviceDefaults :: "string \<Rightarrow> presence \<Rightarrow> simDevice \<Rightarrow> simDevice" where
  "deviceDefaults name p d =
     \<lparr>sdName = (if sdName d = [] then name else sdName d),
      sdType = (if sdType d = [] then ''pv'' else sdType d),
      sdRatedW = (if hasKey p ''rated_w'' then sdRatedW d else 10000),
      sdCapacityWh = (if hasKey p ''capacity_wh'' then sdCapacityWh d else 10000),
      sdInitialSOC = (if sdInitialSOC d = None then Some (Fin (1/2)) else sdInitialSOC d)\<rparr>"

definition replayDefaults :: "presence \<Rightarrow> simReplay \<Rightarrow> simReplay" where
  "replayDefaults p r =
     r\<lparr>srClock := (if srClock r = [] then ''wall'' else srClock r),
       srScale := (if hasKey p ''scale'' then srScale r else 1)\<rparr>"

definition controlsDefaults :: "simControls \<Rightarrow> simControls" where
  "controlsDefaults c = c\<lparr>scResponse := (if scResponse c = [] then ''follow'' else scResponse c)\<rparr>"

definition theOr :: "'a \<Rightarrow> 'a option \<Rightarrow> 'a" where
  "theOr z x = (case x of None \<Rightarrow> z | Some v \<Rightarrow> v)"

definition managedDefaults :: "mapOrder \<Rightarrow> presence \<Rightarrow> nat \<Rightarrow> Managed \<Rightarrow> Managed" where
  "managedDefaults ord p i m =
     (let mp = elemMap (ord (''managed.'' @ itoa (int i))) p ''managed'' i in
      m\<lparr>mgDevice := Some (deviceDefaults (mgName m) (subMap (ord (''device.'' @ itoa (int i))) mp ''device'')
           (theOr zeroDevice (mgDevice m))),
        mgReplay := Some (replayDefaults (subMap (ord (''replay.'' @ itoa (int i))) mp ''replay'')
           (theOr zeroReplay (mgReplay m))),
        mgControls := Some (controlsDefaults (theOr zeroControls (mgControls m)))\<rparr>)"

definition frqDefaults :: "mapOrder \<Rightarrow> presence \<Rightarrow> simFrq \<Rightarrow> simFrq" where
  "frqDefaults ord p q =
     (let given = (\<lambda>k. hasKey (subMap (ord (''frq.'' @ k)) p ''frq'') k) in
      \<lparr>sfEnergyWh = (if given ''energy_wh'' then sfEnergyWh q else 6000),
       sfPowerW = (if given ''power_w'' then sfPowerW q else 3000),
       sfStartInS = (if given ''start_in_s'' then sfStartInS q else 2400),
       sfDurationS = (if given ''duration_s'' then sfDurationS q else 3600),
       sfMinLeadS = (if given ''min_lead_s'' then sfMinLeadS q else 60),
       sfPollS = (if given ''poll_s'' then sfPollS q else 30),
       sfAnswerGraceS = (if given ''answer_grace_s'' then sfAnswerGraceS q else 60),
       sfRequestFile = (if sfRequestFile q = [] then ''frq-request.json'' else sfRequestFile q)\<rparr>)"

definition intervalDefault :: "int \<Rightarrow> presence \<Rightarrow> Interval \<Rightarrow> Interval" where
  "intervalDefault n p iv = (if hasKey p ''interval_s'' then iv else \<lparr>IntervalS = n\<rparr>)"

definition applyDefaults :: "mapOrder \<Rightarrow> presence \<Rightarrow> simFile \<Rightarrow> simFile" where
  "applyDefaults ord p f =
     (let rep = replayDefaults (subMap (ord ''replay'') p ''replay'') (cfReplay f) in
      f\<lparr>cfRole := (if cfRole f = [] then ''der'' else cfRole f),
        cfDevice := deviceDefaults [] (subMap (ord ''device'') p ''device'') (cfDevice f),
        cfReplay := rep,
        cfControls := controlsDefaults (cfControls f),
        cfBackend := (if cfBackend f = [] then if srFile rep \<noteq> [] then ''replay'' else ''synthetic'' else cfBackend f),
        cfReport := intervalDefault 60 (subMap (ord ''report'') p ''report'') (cfReport f),
        cfStatus := intervalDefault 60 (subMap (ord ''status'') p ''status'') (cfStatus f),
        cfManaged := map (\<lambda>(i, m). managedDefaults ord p i m) (List.enumerate 0 (cfManaged f)),
        cfFrq := frqDefaults ord p (cfFrq f),
        cfDispatch := (if hasKey (subMap (ord ''dispatch'') p ''dispatch'') ''tick_s'' then cfDispatch f else \<lparr>TickS = 5\<rparr>)\<rparr>)"

section \<open>Validation\<close>

datatype cfgErr =
    ErrParse
  | ErrTrailing
  | ErrLookupInAggregator
  | ErrOneOf string string
  | ErrNotPositive string
  | ErrNegative string
  | ErrSOC string
  | ErrNeedsReplay
  | ErrBatteryNeedsReplay
  | ErrGrace
  | ErrPort
  | ErrNeedsManaged
  | ErrManagedName nat
  | ErrManagedLFDI nat
  | ErrManagedTwice nat string
  | ErrRead

fun orElse :: "'e option \<Rightarrow> 'e option \<Rightarrow> 'e option" where
  "orElse None e = e"
| "orElse (Some e) _ = Some e"

definition check :: "bool \<Rightarrow> 'e \<Rightarrow> 'e option" where
  "check ok e = (if ok then None else Some e)"

definition firstError :: "'e option list \<Rightarrow> 'e option" where
  "firstError es = foldr orElse es None"

definition oneOf :: "string \<Rightarrow> string \<Rightarrow> string list \<Rightarrow> cfgErr option" where
  "oneOf key v allowed = check (v \<in> set allowed) (ErrOneOf key v)"

definition validateDevice :: "string \<Rightarrow> simDevice \<Rightarrow> cfgErr option" where
  "validateDevice prefix d = firstError
     [oneOf (prefix @ ''type'') (sdType d) [''pv'', ''battery''],
      check (\<not> sdRatedW d \<le> 0) (ErrNotPositive (prefix @ ''rated_w'')),
      check (\<not> sdCapacityWh d \<le> 0) (ErrNotPositive (prefix @ ''capacity_wh'')),
      (case sdInitialSOC d of
         Some soc \<Rightarrow> check (\<not> (soc < 0 \<or> soc > 1)) (ErrSOC (prefix @ ''initial_soc''))
       | None \<Rightarrow> Some (ErrSOC (prefix @ ''initial_soc'')))]"

definition validateReplay :: "string \<Rightarrow> simReplay \<Rightarrow> cfgErr option" where
  "validateReplay prefix r = firstError
     [oneOf (prefix @ ''clock'') (srClock r) [''wall'', ''start''],
      check (\<not> srScale r \<le> 0) (ErrNotPositive (prefix @ ''scale''))]"

definition validateControls :: "string \<Rightarrow> simControls \<Rightarrow> cfgErr option" where
  "validateControls prefix c = firstError
     [oneOf (prefix @ ''response'') (scResponse c) [''follow'', ''ack'', ''none''],
      check (\<not> scPollS c < 0) (ErrNegative (prefix @ ''poll_s''))]"

definition managedPrefix :: "nat \<Rightarrow> string" where
  "managedPrefix i = ''managed['' @ itoa (int i) @ ''].''"

fun validateManaged :: "nat \<Rightarrow> string list \<Rightarrow> Managed list \<Rightarrow> cfgErr option" where
  "validateManaged i seen [] = None"
| "validateManaged i seen (m # ms) =
     (let key = toUpper (mgLFDI m); p = managedPrefix i in
      if mgName m = [] then Some (ErrManagedName i)
      else if \<not> hex40 (mgLFDI m) then Some (ErrManagedLFDI i)
      else if key \<in> set seen then Some (ErrManagedTwice i key)
      else
        (case firstError
           [validateDevice (p @ ''device.'') (theOr zeroDevice (mgDevice m)),
            validateReplay (p @ ''replay.'') (theOr zeroReplay (mgReplay m)),
            validateControls (p @ ''controls.'') (theOr zeroControls (mgControls m))] of
           Some e \<Rightarrow> Some e
         | None \<Rightarrow> validateManaged (Suc i) (key # seen) ms))"

text \<open>A loop over a map literal: the keys are visited in the order \<open>ord\<close> gives.\<close>

definition checkAll :: "(string list \<Rightarrow> string list) \<Rightarrow> ('a \<Rightarrow> bool) \<Rightarrow> (string \<Rightarrow> cfgErr) \<Rightarrow> (string \<times> 'a) list \<Rightarrow> cfgErr option" where
  "checkAll ord ok e vs =
     firstError (map (\<lambda>k. case map_of vs k of None \<Rightarrow> None | Some v \<Rightarrow> check (ok v) (e k)) (ord (map fst vs)))"

definition validate :: "mapOrder \<Rightarrow> simFile \<Rightarrow> cfgErr option" where
  "validate ord f = firstError
     [oneOf ''role'' (cfRole f) [''der'', ''aggregator''],
      oneOf ''backend'' (cfBackend f) [''replay'', ''synthetic''],
      check (\<not> (cfBackend f = ''replay'' \<and> srFile (cfReplay f) = [])) ErrNeedsReplay,
      validateDevice ''device.'' (cfDevice f),
      validateReplay ''replay.'' (cfReplay f),
      validateControls ''controls.'' (cfControls f),
      check (\<not> (cfRole f = ''der'' \<and> sdType (cfDevice f) = ''battery'' \<and> srFile (cfReplay f) = [])) ErrBatteryNeedsReplay,
      checkAll (ord ''positive'') (\<lambda>v. \<not> v \<le> 0) ErrNotPositive
        [(''report.interval_s'', IntervalS (cfReport f)), (''status.interval_s'', IntervalS (cfStatus f)),
         (''frq.duration_s'', sfDurationS (cfFrq f)), (''frq.poll_s'', sfPollS (cfFrq f)),
         (''frq.answer_grace_s'', sfAnswerGraceS (cfFrq f)), (''dispatch.tick_s'', TickS (cfDispatch f))],
      check (\<not> sfAnswerGraceS (cfFrq f) \<ge> sfDurationS (cfFrq f)) ErrGrace,
      checkAll (ord ''amounts'') (\<lambda>v. \<not> v \<le> 0) ErrNotPositive
        [(''frq.energy_wh'', sfEnergyWh (cfFrq f)), (''frq.power_w'', sfPowerW (cfFrq f))],
      checkAll (ord ''leads'') (\<lambda>v. \<not> v < 0) ErrNegative
        [(''frq.start_in_s'', sfStartInS (cfFrq f)), (''frq.min_lead_s'', sfMinLeadS (cfFrq f))],
      check (\<not> (Port (cfHMI f) < 0 \<or> Port (cfHMI f) > 65535)) ErrPort,
      check (\<not> (cfRole f = ''aggregator'' \<and> cfManaged f = [])) ErrNeedsManaged,
      validateManaged 0 [] (cfManaged f)]"

section \<open>Parsing and loading\<close>

text \<open>
  The reader delivers the first JSON value of the bytes and whether anything follows it, or nothing for
  a text that is not JSON.
\<close>

definition Parse :: "mapOrder \<Rightarrow> (json \<times> bool) option \<Rightarrow> cfgErr + simFile" where
  "Parse ord text =
     (case text of
        None \<Rightarrow> Inl ErrParse
      | Some (v, trailing) \<Rightarrow>
          (case intoFile v zeroFile of
             None \<Rightarrow> Inl ErrParse
           | Some f \<Rightarrow>
               if trailing then Inl ErrTrailing
               else if cfRole f = ''aggregator'' \<and> LookupOwnEdev f \<noteq> None then Inl ErrLookupInAggregator
               else
                 (let f = applyDefaults ord (asMap v) f in
                  case validate ord f of Some e \<Rightarrow> Inl e | None \<Rightarrow> Inr f)))"

text \<open>The parts of \<open>path/filepath\<close> the loader uses, on Unix paths.\<close>

fun splitPath :: "string \<Rightarrow> string \<Rightarrow> string list" where
  "splitPath cur [] = [rev cur]"
| "splitPath cur (c # cs) = (if c = CHR ''/'' then rev cur # splitPath [] cs else splitPath (c # cur) cs)"

text \<open>The elements of a rooted path after \<open>filepath.Clean\<close>, innermost first.\<close>

fun cleanElems :: "string list \<Rightarrow> string list \<Rightarrow> string list" where
  "cleanElems done' [] = done'"
| "cleanElems done' (e # es) =
     (if e = [] \<or> e = ''.'' then cleanElems done' es
      else if e = ''..'' then cleanElems (tl done') es
      else cleanElems (e # done') es)"

fun rooted :: "string list \<Rightarrow> string" where
  "rooted [] = []"
| "rooted (e # es) = rooted es @ ''/'' @ e"

definition cleanRooted :: "string \<Rightarrow> string" where
  "cleanRooted p = (let s = rooted (cleanElems [] (splitPath [] p)) in if s = [] then ''/'' else s)"

definition resolve :: "string \<Rightarrow> string \<Rightarrow> string" where
  "resolve dir p = (if p = [] \<or> isAbsPath p then p else cleanRooted (dir @ ''/'' @ p))"

definition dirName :: "string \<Rightarrow> string" where
  "dirName p = (let s = rooted (tl (cleanElems [] (splitPath [] p))) in if s = [] then ''/'' else s)"

definition baseName :: "string \<Rightarrow> string" where
  "baseName p = (case cleanElems [] (splitPath [] p) of [] \<Rightarrow> ''/'' | e # _ \<Rightarrow> e)"

definition stem :: "string \<Rightarrow> string" where
  "stem b = (if CHR ''.'' \<in> set b then rev (tl (dropWhile (\<lambda>c. c \<noteq> CHR ''.'') (rev b))) else b)"

definition Load :: "mapOrder \<Rightarrow> (string \<Rightarrow> string option) \<Rightarrow> (string \<Rightarrow> (json \<times> bool) option option) \<Rightarrow> string \<Rightarrow> cfgErr + simFile" where
  "Load ord absPath readFile path =
     (case absPath path of
        None \<Rightarrow> Inl ErrRead
      | Some abs' \<Rightarrow>
          (case readFile abs' of
             None \<Rightarrow> Inl ErrRead
           | Some text \<Rightarrow>
               (case Parse ord text of
                  Inl e \<Rightarrow> Inl e
                | Inr f \<Rightarrow>
                    let dir = dirName abs'; dev = cfDevice f in
                    Inr (f\<lparr>cfDevice := dev\<lparr>sdName := (if sdName dev = [] then stem (baseName abs') else sdName dev)\<rparr>,
                           cfReplay := (cfReplay f)\<lparr>srFile := resolve dir (srFile (cfReplay f))\<rparr>,
                           cfFrq := (cfFrq f)\<lparr>sfRequestFile := resolve dir (sfRequestFile (cfFrq f))\<rparr>,
                           cfManaged := map (\<lambda>m. m\<lparr>mgReplay := map_option (\<lambda>r. r\<lparr>srFile := resolve dir (srFile r)\<rparr>) (mgReplay m)\<rparr>)
                             (cfManaged f)\<rparr>))))"

definition LookupFor :: "simFile \<Rightarrow> string \<Rightarrow> bool \<times> bool" where
  "LookupFor f role =
     (case LookupOwnEdev f of
        Some v \<Rightarrow> (v, True)
      | None \<Rightarrow> if role = ''der'' then (True, True) else (False, False))"

definition ValidateForRole :: "simFile \<Rightarrow> string \<Rightarrow> cfgErr option" where
  "ValidateForRole f role = check (\<not> (role = ''aggregator'' \<and> cfManaged f = [])) ErrNeedsManaged"

section \<open>Lemmas on decoding\<close>

text \<open>What every field decoder keeps, the decoding of an object keeps.\<close>

definition keeps :: "('a \<Rightarrow> bool) \<Rightarrow> 'a dec \<Rightarrow> bool" where
  "keeps P d \<longleftrightarrow> (\<forall>v a a'. P a \<longrightarrow> d v a = Some a' \<longrightarrow> P a')"

lemma keepsD: "keeps P d \<Longrightarrow> P a \<Longrightarrow> d v a = Some a' \<Longrightarrow> P a'"
  unfolding keeps_def by blast

lemma fieldFor_in:
  assumes "fieldFor fs k = Some d"
  shows "d \<in> snd ` set fs"
proof (cases "map_of fs k")
  case None
  then obtain n where "find (\<lambda>(n, _). equalFold n k) fs = Some (n, d)"
    using assms by (auto simp: fieldFor_def)
  then have "(n, d) \<in> set fs" unfolding find_Some_iff by (metis nth_mem)
  then show ?thesis by force
next
  case (Some d')
  then have "d' = d" using assms by (simp add: fieldFor_def)
  then show ?thesis using map_of_SomeD [OF Some] by force
qed

lemma intoFields_keeps:
  assumes "\<And>d. d \<in> snd ` set fs \<Longrightarrow> keeps P d"
  shows "P a \<Longrightarrow> intoFields fs kvs a = Some a' \<Longrightarrow> P a'"
proof (induction kvs arbitrary: a)
  case (Cons kv kvs)
  obtain k v where kv: "kv = (k, v)" by (cases kv)
  from Cons.prems(2) obtain d b where d: "fieldFor fs k = Some d" "d v a = Some b" "intoFields fs kvs b = Some a'"
    by (auto simp: kv split: option.splits)
  have "P b" using keepsD [OF assms [OF fieldFor_in [OF d(1)]] Cons.prems(1) d(2)] .
  then show ?case using Cons.IH d(3) by blast
qed simp

lemma keeps_struct:
  assumes "\<forall>d\<in>snd ` set fs. keeps P d"
  shows "keeps P (intoStruct fs)"
  unfolding keeps_def
proof (intro allI impI)
  fix v a a' assume *: "P a" "intoStruct fs v a = Some a'"
  show "P a'" using * intoFields_keeps [of fs P a _ a'] assms by (cases v) auto
qed

lemma keeps_field:
  assumes "keeps Q d" "\<And>a. P a \<Longrightarrow> Q (sel a)" "\<And>a b. P a \<Longrightarrow> Q b \<Longrightarrow> P (upd (\<lambda>_. b) a)"
  shows "keeps P (field d sel upd)"
  unfolding keeps_def
proof (intro allI impI)
  fix v a a' assume *: "P a" "field d sel upd v a = Some a'"
  then obtain b where b: "d v (sel a) = Some b" "a' = upd (\<lambda>_. b) a" by (auto simp: field_def)
  have "Q b" using keepsD [OF assms(1) assms(2) [OF *(1)] b(1)] .
  then show "P a'" using assms(3) [OF *(1)] b(2) by simp
qed

lemma keeps_True [simp]: "keeps (\<lambda>_. True) d"
  by (simp add: keeps_def)

lemma keeps_float: "keeps isFin intoFloat"
  unfolding keeps_def
proof (intro allI impI)
  fix v a a' assume "isFin a" "intoFloat v a = Some a'"
  then show "isFin a'" by (cases v) (auto simp: isFin_def)
qed

lemma keeps_ptr:
  assumes "keeps P d" "P zero"
  shows "keeps (pred_option P) (intoPtr d zero)"
  unfolding keeps_def
proof (intro allI impI)
  fix v a a' assume "pred_option P a" "intoPtr d zero v a = Some a'"
  then show "pred_option P a'"
    using keepsD [OF assms(1), of _ v] assms(2) by (cases a) (auto simp: intoPtr_def split: if_splits)
qed

lemma intoItems_keeps:
  assumes "keeps P d" "P zero"
  shows "\<forall>x\<in>set old. P x \<Longrightarrow> intoItems d zero vs old = Some ys \<Longrightarrow> \<forall>y\<in>set ys. P y"
proof (induction vs arbitrary: old ys)
  case (Cons v vs)
  let ?x = "case old of [] \<Rightarrow> zero | x # _ \<Rightarrow> x"
  from Cons.prems(2) obtain y zs where y: "d v ?x = Some y" "intoItems d zero vs (tl old) = Some zs" "ys = y # zs"
    by (auto split: option.splits)
  have "P ?x" using Cons.prems(1) assms(2) by (cases old) auto
  then have "P y" using keepsD [OF assms(1) _ y(1)] by blast
  moreover have "\<forall>x\<in>set (tl old). P x" using Cons.prems(1) by (cases old) auto
  ultimately show ?case using Cons.IH [OF _ y(2)] y(3) by simp
qed simp

lemma keeps_list:
  assumes "keeps P d" "P zero"
  shows "keeps (\<lambda>xs. \<forall>x\<in>set xs. P x) (intoList d zero)"
  unfolding keeps_def
proof (intro allI impI)
  fix v a a' assume "\<forall>x\<in>set a. P x" "intoList d zero v a = Some a'"
  then show "\<forall>x\<in>set a'. P x" using intoItems_keeps [OF assms, of a _ a'] by (cases v) auto
qed

text \<open>What the decoder guarantees of the numbers: they are finite.\<close>

definition deviceFin :: "simDevice \<Rightarrow> bool" where
  "deviceFin d \<longleftrightarrow> isFin (sdRatedW d) \<and> isFin (sdCapacityWh d) \<and> pred_option isFin (sdInitialSOC d)"

definition frqFin :: "simFrq \<Rightarrow> bool" where
  "frqFin q \<longleftrightarrow> isFin (sfEnergyWh q) \<and> isFin (sfPowerW q)"

definition managedFin :: "Managed \<Rightarrow> bool" where
  "managedFin m \<longleftrightarrow> pred_option deviceFin (mgDevice m) \<and> pred_option (\<lambda>r. isFin (srScale r)) (mgReplay m)"

definition fileFin :: "simFile \<Rightarrow> bool" where
  "fileFin f \<longleftrightarrow> deviceFin (cfDevice f) \<and> isFin (srScale (cfReplay f)) \<and> frqFin (cfFrq f) \<and>
     (\<forall>m\<in>set (cfManaged f). managedFin m)"

lemma isFin_nums [simp]: "isFin 0" "isFin 1" "isFin (Fin r)"
  by (simp_all add: isFin_def zero_f64_def one_f64_def)

lemma keeps_free: "(\<And>a b. P a \<Longrightarrow> P (upd (\<lambda>_. b) a)) \<Longrightarrow> keeps P (field d sel upd)"
  by (rule keeps_field [where Q = "\<lambda>_. True"]) auto

lemma keeps_fields:
  assumes "list_all (\<lambda>d. keeps P d) (map snd fs)"
  shows "keeps P (intoStruct fs)"
  using assms by (intro keeps_struct) (simp add: list_all_iff)

lemma keeps_device: "keeps deviceFin intoDevice"
  unfolding intoDevice_def
  by (rule keeps_fields, unfold list.map snd_conv list.pred_inject simp_thms, intro conjI list.pred_inject(1))
     ((rule keeps_free; simp add: deviceFin_def; fail) | (rule keeps_field [OF keeps_float]; simp add: deviceFin_def; fail) |
      (rule keeps_field [OF keeps_ptr [OF keeps_float]]; simp add: deviceFin_def; fail))+

lemma keeps_replay: "keeps (\<lambda>r. isFin (srScale r)) intoReplay"
  unfolding intoReplay_def
  by (rule keeps_fields, unfold list.map snd_conv list.pred_inject simp_thms, intro conjI list.pred_inject(1))
     ((rule keeps_free; simp; fail) | (rule keeps_field [OF keeps_float]; simp; fail))+

lemma keeps_frq: "keeps frqFin intoFrq"
  unfolding intoFrq_def frqFields_def
  by (rule keeps_fields, unfold list.map snd_conv list.pred_inject simp_thms, intro conjI list.pred_inject(1))
     ((rule keeps_free; simp add: frqFin_def; fail) | (rule keeps_field [OF keeps_float]; simp add: frqFin_def; fail))+

lemma keeps_managed: "keeps managedFin intoManaged"
  unfolding intoManaged_def
  by (rule keeps_fields, unfold list.map snd_conv list.pred_inject simp_thms, intro conjI list.pred_inject(1))
     ((rule keeps_free; simp add: managedFin_def; fail) |
      (rule keeps_field [OF keeps_ptr [OF keeps_device]]; simp add: managedFin_def zeroDevice_def deviceFin_def; fail) |
      (rule keeps_field [OF keeps_ptr [OF keeps_replay]]; simp add: managedFin_def zeroReplay_def; fail))+

lemma keeps_file: "keeps fileFin intoFile"
  unfolding intoFile_def fileFields_def
  by (rule keeps_fields, unfold list.map snd_conv list.pred_inject simp_thms, intro conjI list.pred_inject(1))
     ((rule keeps_free; simp add: fileFin_def; fail) |
      (rule keeps_field [OF keeps_device]; simp add: fileFin_def; fail) |
      (rule keeps_field [OF keeps_replay]; simp add: fileFin_def; fail) |
      (rule keeps_field [OF keeps_frq]; simp add: fileFin_def; fail) |
      (rule keeps_field [OF keeps_list [OF keeps_managed]]; simp add: fileFin_def zeroManaged_def managedFin_def; fail))+

lemma decoded_fin:
  assumes "intoFile v zeroFile = Some f"
  shows "fileFin f"
proof -
  have "fileFin zeroFile"
    by (simp add: fileFin_def zeroFile_def zeroDevice_def deviceFin_def zeroReplay_def zeroFrq_def frqFin_def)
  then show ?thesis using keepsD [OF keeps_file] assms by blast
qed

section \<open>What an accepted configuration satisfies\<close>

definition wfDevice :: "simDevice \<Rightarrow> bool" where
  "wfDevice d \<longleftrightarrow> sdType d \<in> {''pv'', ''battery''} \<and> (\<exists>r>0. sdRatedW d = Fin r) \<and> (\<exists>c>0. sdCapacityWh d = Fin c) \<and>
     (\<exists>x. sdInitialSOC d = Some (Fin x) \<and> 0 \<le> x \<and> x \<le> 1)"

definition wfReplay :: "simReplay \<Rightarrow> bool" where
  "wfReplay r \<longleftrightarrow> srClock r \<in> {''wall'', ''start''} \<and> (\<exists>x>0. srScale r = Fin x)"

definition wfControls :: "simControls \<Rightarrow> bool" where
  "wfControls c \<longleftrightarrow> scResponse c \<in> {''follow'', ''ack'', ''none''} \<and> 0 \<le> scPollS c"

definition wfManaged :: "Managed \<Rightarrow> bool" where
  "wfManaged m \<longleftrightarrow> mgName m \<noteq> [] \<and> hex40 (mgLFDI m) \<and> (\<exists>d. mgDevice m = Some d \<and> wfDevice d) \<and>
     (\<exists>r. mgReplay m = Some r \<and> wfReplay r) \<and> (\<exists>c. mgControls m = Some c \<and> wfControls c)"

definition wfFrq :: "simFrq \<Rightarrow> bool" where
  "wfFrq q \<longleftrightarrow> (\<exists>e>0. sfEnergyWh q = Fin e) \<and> (\<exists>p>0. sfPowerW q = Fin p) \<and> 0 \<le> sfStartInS q \<and> 0 \<le> sfMinLeadS q \<and>
     0 < sfPollS q \<and> 0 < sfAnswerGraceS q \<and> sfAnswerGraceS q < sfDurationS q \<and> sfRequestFile q \<noteq> []"

definition wfConfig :: "simFile \<Rightarrow> bool" where
  "wfConfig f \<longleftrightarrow> cfRole f \<in> {''der'', ''aggregator''} \<and> cfBackend f \<in> {''replay'', ''synthetic''} \<and>
     (cfBackend f = ''replay'' \<longrightarrow> srFile (cfReplay f) \<noteq> []) \<and>
     (cfRole f = ''der'' \<and> sdType (cfDevice f) = ''battery'' \<longrightarrow> srFile (cfReplay f) \<noteq> []) \<and>
     (cfRole f = ''aggregator'' \<longrightarrow> cfManaged f \<noteq> [] \<and> LookupOwnEdev f = None) \<and>
     wfDevice (cfDevice f) \<and> wfReplay (cfReplay f) \<and> wfControls (cfControls f) \<and> wfFrq (cfFrq f) \<and>
     0 < IntervalS (cfReport f) \<and> 0 < IntervalS (cfStatus f) \<and> 0 < TickS (cfDispatch f) \<and>
     0 \<le> Port (cfHMI f) \<and> Port (cfHMI f) \<le> 65535 \<and>
     (\<forall>m\<in>set (cfManaged f). wfManaged m) \<and> distinct (map (\<lambda>m. toUpper (mgLFDI m)) (cfManaged f))"

text \<open>A map loop visits every key and no other.\<close>

definition visitsAll :: "mapOrder \<Rightarrow> bool" where
  "visitsAll ord \<longleftrightarrow> (\<forall>s ks. set (ord s ks) = set ks)"

lemma firstError_None: "firstError es = None \<longleftrightarrow> (\<forall>e\<in>set es. e = None)"
proof (induction es)
  case (Cons e es) then show ?case by (cases e) (simp_all add: firstError_def)
qed (simp add: firstError_def)

lemma check_None [simp]: "check ok e = None \<longleftrightarrow> ok"
  by (simp add: check_def)

lemma checkAll_None:
  assumes "set (ord (map fst vs)) = set (map fst vs)" "distinct (map fst vs)"
  shows "checkAll ord ok e vs = None \<longleftrightarrow> (\<forall>(k, v)\<in>set vs. ok v)"
proof -
  have "checkAll ord ok e vs = None \<longleftrightarrow> (\<forall>k\<in>set (map fst vs). case map_of vs k of None \<Rightarrow> True | Some v \<Rightarrow> ok v)"
    by (auto simp: checkAll_def firstError_None assms(1) split: option.splits)
  also have "\<dots> \<longleftrightarrow> (\<forall>(k, v)\<in>set vs. case map_of vs k of None \<Rightarrow> True | Some v \<Rightarrow> ok v)" by auto
  also have "\<dots> \<longleftrightarrow> (\<forall>(k, v)\<in>set vs. ok v)"
    by (intro ball_cong refl) (auto simp: map_of_is_SomeI [OF assms(2)])
  finally show ?thesis .
qed

lemma fin_pos: "isFin x \<Longrightarrow> \<not> x \<le> 0 \<Longrightarrow> \<exists>r>0. x = Fin r"
  by (cases x) (auto simp: isFin_def zero_f64_def)

lemma validateDevice_wf:
  assumes "validateDevice p d = None" "deviceFin d"
  shows "wfDevice d"
proof -
  from assms(1) have t: "sdType d \<in> {''pv'', ''battery''}" and w: "\<not> sdRatedW d \<le> 0" and c: "\<not> sdCapacityWh d \<le> 0"
    and s: "(case sdInitialSOC d of Some soc \<Rightarrow> check (\<not> (soc < 0 \<or> soc > 1)) (ErrSOC (p @ ''initial_soc''))
       | None \<Rightarrow> Some (ErrSOC (p @ ''initial_soc''))) = None"
    by (auto simp: validateDevice_def firstError_None oneOf_def)
  from s obtain x where x: "sdInitialSOC d = Some x" "\<not> x < 0" "\<not> x > 1" by (auto split: option.splits)
  with assms(2) obtain r where "x = Fin r" by (auto simp: deviceFin_def isFin_def split: f64.splits)
  then have "\<exists>x. sdInitialSOC d = Some (Fin x) \<and> 0 \<le> x \<and> x \<le> 1" using x by (auto simp: zero_f64_def one_f64_def)
  then show ?thesis using t w c assms(2) by (auto simp: wfDevice_def deviceFin_def intro: fin_pos)
qed

lemma validateReplay_wf: "validateReplay p r = None \<Longrightarrow> isFin (srScale r) \<Longrightarrow> wfReplay r"
  by (auto simp: validateReplay_def firstError_None oneOf_def wfReplay_def intro: fin_pos)

lemma validateControls_wf: "validateControls p c = None \<Longrightarrow> wfControls c"
  by (auto simp: validateControls_def firstError_None oneOf_def wfControls_def)

lemma validateManaged_wf:
  assumes "validateManaged i seen ms = None"
    "\<forall>m\<in>set ms. managedFin m \<and> mgDevice m \<noteq> None \<and> mgReplay m \<noteq> None \<and> mgControls m \<noteq> None"
  shows "(\<forall>m\<in>set ms. wfManaged m) \<and> distinct (map (\<lambda>m. toUpper (mgLFDI m)) ms) \<and>
    set (map (\<lambda>m. toUpper (mgLFDI m)) ms) \<inter> set seen = {}"
  using assms
proof (induction i seen ms rule: validateManaged.induct)
  case (2 i seen m ms)
  let ?p = "managedPrefix i"
  obtain d r c where m: "mgDevice m = Some d" "mgReplay m = Some r" "mgControls m = Some c" using 2(3) by auto
  from 2(2) have a: "mgName m \<noteq> []" "hex40 (mgLFDI m)" "toUpper (mgLFDI m) \<notin> set seen"
    and b: "firstError [validateDevice (?p @ ''device.'') d, validateReplay (?p @ ''replay.'') r, validateControls (?p @ ''controls.'') c] = None"
    and n: "validateManaged (Suc i) (toUpper (mgLFDI m) # seen) ms = None"
    by (auto simp: Let_def theOr_def m split: if_splits option.splits)
  have "wfManaged m"
    using a b m 2(3) validateDevice_wf validateReplay_wf validateControls_wf
    by (auto simp: wfManaged_def managedFin_def firstError_None)
  moreover have "(\<forall>m\<in>set ms. wfManaged m) \<and> distinct (map (\<lambda>m. toUpper (mgLFDI m)) ms) \<and>
    set (map (\<lambda>m. toUpper (mgLFDI m)) ms) \<inter> set (toUpper (mgLFDI m) # seen) = {}"
    using 2(1) [OF refl refl a(1)] 2(3) a b n by (auto simp: theOr_def m)
  ultimately show ?case using a(3) by auto
qed simp

lemma defaults_fin:
  assumes "fileFin f"
  shows "deviceFin (cfDevice (applyDefaults ord p f))" "isFin (srScale (cfReplay (applyDefaults ord p f)))"
    "frqFin (cfFrq (applyDefaults ord p f))" "sfRequestFile (cfFrq (applyDefaults ord p f)) \<noteq> []"
proof -
  have d: "deviceFin (cfDevice f)" "isFin (srScale (cfReplay f))" "frqFin (cfFrq f)"
    using assms by (simp_all add: fileFin_def)
  have n: "isFin (10000::f64)" "isFin (6000::f64)" "isFin (3000::f64)" by (simp_all add: isFin_def numeral_f64)
  show "deviceFin (cfDevice (applyDefaults ord p f))"
    using d(1) n by (auto simp: applyDefaults_def Let_def deviceDefaults_def deviceFin_def)
  show "isFin (srScale (cfReplay (applyDefaults ord p f)))"
    using d(2) by (simp add: applyDefaults_def Let_def replayDefaults_def)
  show "frqFin (cfFrq (applyDefaults ord p f))" "sfRequestFile (cfFrq (applyDefaults ord p f)) \<noteq> []"
    using d(3) n by (simp_all add: applyDefaults_def Let_def frqDefaults_def frqFin_def)
qed

lemma managedDefaults_fin:
  assumes "managedFin m"
  shows "managedFin (managedDefaults ord p i m) \<and> mgDevice (managedDefaults ord p i m) \<noteq> None \<and>
    mgReplay (managedDefaults ord p i m) \<noteq> None \<and> mgControls (managedDefaults ord p i m) \<noteq> None"
proof -
  have n: "isFin (10000::f64)" by (simp add: isFin_def numeral_f64)
  have "deviceFin (theOr zeroDevice (mgDevice m))" "isFin (srScale (theOr zeroReplay (mgReplay m)))"
    using assms by (auto simp: managedFin_def theOr_def zeroDevice_def deviceFin_def zeroReplay_def split: option.splits)
  then show ?thesis
    using n by (auto simp: managedDefaults_def Let_def managedFin_def deviceDefaults_def deviceFin_def replayDefaults_def)
qed

lemma defaults_managed_fin:
  assumes "fileFin f"
  shows "\<forall>m\<in>set (cfManaged (applyDefaults ord p f)).
    managedFin m \<and> mgDevice m \<noteq> None \<and> mgReplay m \<noteq> None \<and> mgControls m \<noteq> None"
proof -
  have "managedFin m" if "(i, m) \<in> set (List.enumerate 0 (cfManaged f))" for i m
    using assms that by (auto simp: fileFin_def in_set_enumerate_eq)
  then show ?thesis using managedDefaults_fin by (auto simp: applyDefaults_def Let_def)
qed

lemma validate_wf:
  assumes "validate ord f = None" "visitsAll ord" "deviceFin (cfDevice f)" "isFin (srScale (cfReplay f))" "frqFin (cfFrq f)"
    "sfRequestFile (cfFrq f) \<noteq> []" "cfRole f = ''aggregator'' \<longrightarrow> LookupOwnEdev f = None"
    "\<forall>m\<in>set (cfManaged f). managedFin m \<and> mgDevice m \<noteq> None \<and> mgReplay m \<noteq> None \<and> mgControls m \<noteq> None"
  shows "wfConfig f"
proof -
  note v = assms(1) [unfolded validate_def firstError_None]
  have o: "set (ord s ks) = set ks" for s ks using assms(2) by (simp add: visitsAll_def)
  have a: "oneOf ''role'' (cfRole f) [''der'', ''aggregator''] = None" "oneOf ''backend'' (cfBackend f) [''replay'', ''synthetic''] = None"
    "\<not> (cfBackend f = ''replay'' \<and> srFile (cfReplay f) = [])"
    "\<not> (cfRole f = ''der'' \<and> sdType (cfDevice f) = ''battery'' \<and> srFile (cfReplay f) = [])"
    "\<not> sfAnswerGraceS (cfFrq f) \<ge> sfDurationS (cfFrq f)" "\<not> (Port (cfHMI f) < 0 \<or> Port (cfHMI f) > 65535)"
    "\<not> (cfRole f = ''aggregator'' \<and> cfManaged f = [])"
    using v by simp_all
  have sec: "wfDevice (cfDevice f)" "wfReplay (cfReplay f)" "wfControls (cfControls f)"
    using v assms(3,4) validateDevice_wf [of "''device.''"] validateReplay_wf [of "''replay.''"]
      validateControls_wf [of "''controls.''"] by simp_all
  have p: "0 < IntervalS (cfReport f)" "0 < IntervalS (cfStatus f)" "0 < sfPollS (cfFrq f)" "0 < sfAnswerGraceS (cfFrq f)" "0 < TickS (cfDispatch f)"
    using v by (simp_all add: checkAll_None o)
  have e: "\<not> sfEnergyWh (cfFrq f) \<le> 0" "\<not> sfPowerW (cfFrq f) \<le> 0" "0 \<le> sfStartInS (cfFrq f)" "0 \<le> sfMinLeadS (cfFrq f)"
    using v by (simp_all add: checkAll_None o)
  have m: "(\<forall>m\<in>set (cfManaged f). wfManaged m) \<and> distinct (map (\<lambda>m. toUpper (mgLFDI m)) (cfManaged f))"
    using v validateManaged_wf [of 0 "[]" "cfManaged f"] assms(8) by simp
  have "wfFrq (cfFrq f)"
    using e p(3,4) a(5) assms(5,6) by (auto simp: wfFrq_def frqFin_def intro: fin_pos)
  then show ?thesis using a sec p m assms(7) by (auto simp: wfConfig_def oneOf_def)
qed

lemma parsed_config_wf:
  assumes "Parse ord doc = Inr f" "visitsAll ord"
  shows "wfConfig f"
proof -
  from assms(1) obtain v g where g: "intoFile v zeroFile = Some g" "\<not> (cfRole g = ''aggregator'' \<and> LookupOwnEdev g \<noteq> None)"
    "f = applyDefaults ord (asMap v) g" "validate ord f = None"
    by (auto simp: Parse_def Let_def split: option.splits if_splits)
  have r: "cfRole f = ''aggregator'' \<longrightarrow> LookupOwnEdev f = None"
    using g(2) by (auto simp: g(3) applyDefaults_def Let_def)
  show ?thesis
    using validate_wf [OF g(4) assms(2)] r defaults_fin [OF decoded_fin [OF g(1)]] defaults_managed_fin [OF decoded_fin [OF g(1)]]
    by (simp add: g(3))
qed

text \<open>C26: A configuration that \<open>Parse\<close> accepts, whatever JSON value it came from and in whatever order
  the maps are visited, is complete and in range: every enumerated setting has one of its values, ratings,
  capacities, scales, amounts, intervals and durations are positive finite numbers, a state of charge lies
  in 0 to 1, the answer grace is below the duration, a backend that needs a recording has one, no optional
  section of a managed device is missing, the LFDIs are 40 hexadecimal characters and pairwise different up
  to case, and an aggregator has managed devices and no lookup setting.
\<close>

theorem parsed_config_well_formed:
  assumes "Parse ord doc = Inr f" "visitsAll ord"
  shows "wfConfig f"
  using parsed_config_wf [OF assms] .

section \<open>The order of the maps\<close>

text \<open>Of every key there is at most one spelling.\<close>

definition oneSpelling :: "presence \<Rightarrow> bool" where
  "oneSpelling p \<longleftrightarrow> (\<forall>k\<in>set (map fst p). \<forall>k'\<in>set (map fst p). equalFold k k' \<longrightarrow> k = k')"

definition spelledOnce :: "json \<Rightarrow> bool" where
  "spelledOnce v \<longleftrightarrow> oneSpelling (asMap v) \<and> (\<forall>(_, l)\<in>set (asMap v). \<forall>e\<in>set (asList l). oneSpelling (asMap e))"

lemma set_mapKeys [simp]: "set (mapKeys p) = fst ` set p"
  by (simp add: mapKeys_def)

lemma find_unique:
  assumes "k \<in> set ks" "P k" "\<And>k'. k' \<in> set ks \<Longrightarrow> P k' \<Longrightarrow> k' = k"
  shows "find P ks = Some k"
  using assms
proof (induction ks)
  case (Cons a ks)
  show ?case
  proof (cases "P a")
    case True
    then have "a = k" using Cons.prems(3) [of a] by simp
    then show ?thesis using True by simp
  next
    case False
    then have "k \<in> set ks" using Cons.prems(1,2) by auto
    then have "find P ks = Some k"
      by (rule Cons.IH [OF _ Cons.prems(2)]) (rule Cons.prems(3), simp_all)
    then show ?thesis using False by simp
  qed
qed simp

lemma find_same:
  assumes "set ks = set ks'" "\<And>k k'. k \<in> set ks \<Longrightarrow> k' \<in> set ks \<Longrightarrow> P k \<Longrightarrow> P k' \<Longrightarrow> k = k'"
  shows "find P ks = find P ks'"
proof (cases "\<exists>k\<in>set ks. P k")
  case True
  then obtain k where k: "k \<in> set ks" "P k" by blast
  have u: "k' = k" if "k' \<in> set ks" "P k'" for k' using assms(2) k that by blast
  have "find P ks = Some k" by (rule find_unique [where k = k and P = P and ks = ks, OF k u])
  moreover have "find P ks' = Some k" by (rule find_unique [where k = k and P = P and ks = ks', OF _ k(2) u]) (use k(1) assms(1) in simp_all)
  ultimately show ?thesis by simp
next
  case False
  then show ?thesis using assms(1) by (metis find_None_iff)
qed

lemma oneSpellingD:
  assumes "oneSpelling p" "k \<in> fst ` set p" "k' \<in> fst ` set p" "equalFold k n" "equalFold k' n"
  shows "k = k'"
proof -
  have "equalFold k k'" using assms(4,5) by (simp add: equalFold_def)
  then show ?thesis using assms(1-3) unfolding oneSpelling_def set_map by blast
qed

lemma subMap_order:
  assumes "oneSpelling p" "set (o1 (mapKeys p)) = fst ` set p" "set (o2 (mapKeys p)) = fst ` set p"
  shows "subMap o1 p n = subMap o2 p n"
proof -
  have "find (\<lambda>k. equalFold k n) (o1 (mapKeys p)) = find (\<lambda>k. equalFold k n) (o2 (mapKeys p))"
    using assms by (intro find_same) (auto dest: oneSpellingD)
  then show ?thesis by (simp add: subMap_def)
qed

lemma elemLoop_find:
  assumes "\<And>k k'. k \<in> set ks \<Longrightarrow> k' \<in> set ks \<Longrightarrow> equalFold k n \<Longrightarrow> equalFold k' n \<Longrightarrow> k = k'"
  shows "elemLoop p n i ks =
    (case find (\<lambda>k. equalFold k n) ks of
       None \<Rightarrow> []
     | Some k \<Rightarrow> let l = (case jget p k of None \<Rightarrow> [] | Some v \<Rightarrow> asList v) in if i < length l then asMap (l ! i) else [])"
  using assms
proof (induction ks)
  case (Cons k ks)
  show ?case
  proof (cases "equalFold k n")
    case False
    then show ?thesis using Cons by (simp add: Let_def)
  next
    case True
    have "elemLoop p n i ks = []" if "\<not> i < length (case jget p k of None \<Rightarrow> [] | Some v \<Rightarrow> asList v)"
    proof (cases "find (\<lambda>k. equalFold k n) ks")
      case None
      then show ?thesis using Cons by simp
    next
      case (Some k')
      then have "k' \<in> set ks" "equalFold k' n" by (metis find_Some_iff nth_mem)+
      then have "k' = k" using Cons.prems [of k' k] True by simp
      then show ?thesis using Cons Some that by (simp add: Let_def)
    qed
    then show ?thesis using True by (simp add: Let_def)
  qed
qed simp

lemma elemMap_order:
  assumes "oneSpelling p" "set (o1 (mapKeys p)) = fst ` set p" "set (o2 (mapKeys p)) = fst ` set p"
  shows "elemMap o1 p n i = elemMap o2 p n i"
proof -
  have "find (\<lambda>k. equalFold k n) (o1 (mapKeys p)) = find (\<lambda>k. equalFold k n) (o2 (mapKeys p))"
    using assms by (intro find_same) (auto dest: oneSpellingD)
  moreover have "elemLoop p n i (o1 (mapKeys p)) =
    (case find (\<lambda>k. equalFold k n) (o1 (mapKeys p)) of
       None \<Rightarrow> []
     | Some k \<Rightarrow> let l = (case jget p k of None \<Rightarrow> [] | Some v \<Rightarrow> asList v) in if i < length l then asMap (l ! i) else [])"
    by (rule elemLoop_find) (use assms(1,2) in \<open>auto dest: oneSpellingD\<close>)
  moreover have "elemLoop p n i (o2 (mapKeys p)) =
    (case find (\<lambda>k. equalFold k n) (o2 (mapKeys p)) of
       None \<Rightarrow> []
     | Some k \<Rightarrow> let l = (case jget p k of None \<Rightarrow> [] | Some v \<Rightarrow> asList v) in if i < length l then asMap (l ! i) else [])"
    by (rule elemLoop_find) (use assms(1,3) in \<open>auto dest: oneSpellingD\<close>)
  ultimately show ?thesis by (simp add: elemMap_def)
qed

lemma defaults_order:
  assumes "oneSpelling p" "\<forall>(_, l)\<in>set p. \<forall>e\<in>set (asList l). oneSpelling (asMap e)" "visitsAll o1" "visitsAll o2"
  shows "applyDefaults o1 p f = applyDefaults o2 p f"
proof -
  have s: "subMap (o1 s) p n = subMap (o2 s) p n" for s n
    using assms by (intro subMap_order) (auto simp: visitsAll_def)
  have e: "elemMap (o1 s) p n i = elemMap (o2 s) p n i" for s n i
    using assms by (intro elemMap_order) (auto simp: visitsAll_def)
  have es: "oneSpelling (elemMap (o1 s) p n i)" for s n i
  proof -
    have "oneSpelling (elemLoop p n i ks)" for ks
    proof (induction ks)
      case (Cons k ks)
      have "oneSpelling (asMap (asList v ! i))" if "jget p k = Some v" "i < length (asList v)" for v
      proof -
        have "(k, v) \<in> set p" using that(1) by (auto simp: jget_def dest: map_of_SomeD)
        then show ?thesis using assms(2) that(2) by fastforce
      qed
      then show ?case using Cons by (auto simp: Let_def split: option.splits)
    qed (simp add: oneSpelling_def)
    then show ?thesis by (simp add: elemMap_def)
  qed
  have "managedDefaults o1 p i m = managedDefaults o2 p i m" for i m
  proof -
    have "subMap (o1 s) (elemMap (o1 t) p n i) k = subMap (o2 s) (elemMap (o2 t) p n i) k" for s t n k
      unfolding e [symmetric] by (rule subMap_order) (use es assms(3,4) in \<open>auto simp: visitsAll_def\<close>)
    then show ?thesis by (simp only: managedDefaults_def Let_def)
  qed
  then show ?thesis by (simp add: applyDefaults_def frqDefaults_def s)
qed

lemma checkAll_order:
  assumes "visitsAll o1" "visitsAll o2"
  shows "checkAll (o1 s) ok e vs = None \<longleftrightarrow> checkAll (o2 s) ok e vs = None"
  using assms by (auto simp: checkAll_def firstError_None visitsAll_def split: option.splits)

lemma validate_order:
  assumes "visitsAll o1" "visitsAll o2"
  shows "validate o1 f = None \<longleftrightarrow> validate o2 f = None"
  unfolding validate_def firstError_None
  by (simp add: checkAll_order [OF assms])

text \<open>C27: When no key of the file is spelled in two ways, the order in which Go visits its maps has no
  effect on a configuration: under any two orders the same doc is accepted with the same settings, or
  refused under both (the order may only choose which of several faults the message names).
\<close>

theorem parse_ignores_map_order:
  assumes "visitsAll o1" "visitsAll o2" "\<forall>v t. doc = Some (v, t) \<longrightarrow> spelledOnce v"
  shows "Parse o1 doc = Parse o2 doc \<or> (isl (Parse o1 doc) \<and> isl (Parse o2 doc))"
proof (cases doc)
  case (Some vt)
  obtain v t where vt: "vt = (v, t)" by (cases vt)
  have eq: "applyDefaults o1 (asMap v) f = applyDefaults o2 (asMap v) f" for f
    using assms(3) by (intro defaults_order assms(1,2)) (simp_all add: spelledOnce_def Some vt)
  show ?thesis
    using validate_order [OF assms(1,2)]
    by (auto simp: Parse_def Some vt Let_def eq split: option.splits) (metis option.distinct(1))+
qed (simp add: Parse_def)

section \<open>Given settings and defaults\<close>

lemma fieldFor_fold:
  assumes "distinct (map (\<lambda>(n, _). toUpper n) fs)"
  shows "fieldFor fs k = map_option snd (find (\<lambda>(n, _). equalFold n k) fs)"
proof (cases "map_of fs k")
  case (Some d)
  have m: "(k, d) \<in> set fs" using map_of_SomeD [OF Some] .
  have "find (\<lambda>(n, _). equalFold n k) fs = Some (k, d)"
  proof (rule find_unique)
    show "(k, d) \<in> set fs" by (rule m)
    show "case (k, d) of (n, _) \<Rightarrow> equalFold n k" by simp
  next
    fix x assume x: "x \<in> set fs" "case x of (n, _) \<Rightarrow> equalFold n k"
    then have "(case x of (n, _) \<Rightarrow> toUpper n) = (case (k, d) of (n, _) \<Rightarrow> toUpper n)"
      by (auto simp: equalFold_def split: prod.splits)
    then show "x = (k, d)" using inj_onD [OF conjunct2 [OF assms [unfolded distinct_map]]] x(1) m by blast
  qed
  then show ?thesis by (simp add: fieldFor_def Some)
qed (simp add: fieldFor_def)


text \<open>
  One field of a decoded object: the field whose name the key folds to takes the value of the key, and
  a field no key names keeps what it held. The other decoders leave it alone.
\<close>

lemma intoFields_field:
  assumes "distinct (map (\<lambda>(n, _). toUpper n) fs)" "(nm, field d sel upd) \<in> set fs"
    "\<And>n d' v a a'. (n, d') \<in> set fs \<Longrightarrow> n \<noteq> nm \<Longrightarrow> d' v a = Some a' \<Longrightarrow> sel a' = sel a"
    "\<And>a b. sel (upd (\<lambda>_. b) a) = b"
  shows "distinct (map (\<lambda>(k, _). toUpper k) kvs) \<Longrightarrow> intoFields fs kvs a = Some a' \<Longrightarrow>
    (case find (\<lambda>(k, _). equalFold k nm) kvs of None \<Rightarrow> sel a' = sel a | Some (_, v) \<Rightarrow> d v (sel a) = Some (sel a'))"
proof (induction kvs arbitrary: a)
  case (Cons kv kvs)
  obtain k v where kv: "kv = (k, v)" by (cases kv)
  from Cons.prems(2) obtain dk b where b: "fieldFor fs k = Some dk" "dk v a = Some b" "intoFields fs kvs b = Some a'"
    by (auto simp: kv split: option.splits)
  then obtain n where "find (\<lambda>(n, _). equalFold n k) fs = Some (n, dk)"
    unfolding fieldFor_fold [OF assms(1)] by auto
  then have n: "(n, dk) \<in> set fs" "equalFold n k" unfolding find_Some_iff by (metis (no_types, lifting) nth_mem, auto)
  have IH: "case find (\<lambda>(k, _). equalFold k nm) kvs of None \<Rightarrow> sel a' = sel b | Some (_, v) \<Rightarrow> d v (sel b) = Some (sel a')"
    using Cons.IH [OF _ b(3)] Cons.prems(1) by simp
  show ?case
  proof (cases "equalFold k nm")
    case True
    have "(case (n, dk) of (n, _) \<Rightarrow> toUpper n) = (case (nm, field d sel upd) of (n, _) \<Rightarrow> toUpper n)"
      using True n(2) by (simp add: equalFold_def)
    then have "dk = field d sel upd"
      using inj_onD [OF conjunct2 [OF assms(1) [unfolded distinct_map]]] n(1) assms(2) by blast
    then have "d v (sel a) = Some (sel b)" using b(2) assms(4) by (auto simp: field_def)
    moreover have "find (\<lambda>(k, _). equalFold k nm) kvs = None"
      using Cons.prems(1) True by (force simp: find_None_iff kv equalFold_def)
    ultimately show ?thesis using True IH by (simp add: kv)
  next
    case False
    then have "n \<noteq> nm" using n(2) by (auto simp: equalFold_def)
    then have "sel b = sel a" using assms(3) n(1) b(2) by blast
    then show ?thesis using IH [unfolded \<open>sel b = sel a\<close>] False by (simp add: kv)
  qed
qed simp

text \<open>The numbers of the flow-reservation section with their keys and defaults.\<close>

definition frqFloats :: "(string \<times> (simFrq \<Rightarrow> f64) \<times> f64) list" where
  "frqFloats = [(''energy_wh'', sfEnergyWh, 6000), (''power_w'', sfPowerW, 3000)]"

definition frqInts :: "(string \<times> (simFrq \<Rightarrow> int) \<times> int) list" where
  "frqInts = [(''start_in_s'', sfStartInS, 2400), (''duration_s'', sfDurationS, 3600), (''min_lead_s'', sfMinLeadS, 60),
     (''poll_s'', sfPollS, 30), (''answer_grace_s'', sfAnswerGraceS, 60)]"

definition valueOf :: "(string \<times> json) list \<Rightarrow> string \<Rightarrow> json option" where
  "valueOf kvs n = map_option snd (find (\<lambda>(k, _). equalFold k n) kvs)"

lemma hasKey_valueOf: "hasKey kvs n \<longleftrightarrow> valueOf kvs n \<noteq> None"
  by (force simp: hasKey_def valueOf_def list_ex_iff find_None_iff)

lemma subMap_valueOf:
  assumes "distinct (map (\<lambda>(k, _). toUpper k) kvs)" "set (ord (mapKeys kvs)) = fst ` set kvs"
  shows "subMap ord kvs n = (case valueOf kvs n of None \<Rightarrow> [] | Some v \<Rightarrow> asMap v)"
proof (cases "find (\<lambda>(k, _). equalFold k n) kvs")
  case None
  then have "find (\<lambda>k. equalFold k n) (ord (mapKeys kvs)) = None"
    unfolding find_None_iff assms(2) by auto
  then show ?thesis using None by (simp add: subMap_def valueOf_def)
next
  case (Some kv)
  obtain k v where kv: "kv = (k, v)" by (cases kv)
  have k: "(k, v) \<in> set kvs" "equalFold k n"
    using Some unfolding kv find_Some_iff by (metis (no_types, lifting) nth_mem, auto)
  have inj: "x = (k, v)" if "x \<in> set kvs" "toUpper (fst x) = toUpper k" for x
    using inj_onD [OF conjunct2 [OF assms(1) [unfolded distinct_map]], of x "(k, v)"] that k(1) by (cases x) simp
  have d: "distinct (map fst kvs)"
  proof -
    have "map (\<lambda>(k, _). toUpper k) kvs = map toUpper (map fst kvs)" by auto
    then show ?thesis using assms(1) by (simp only: distinct_map)
  qed
  have "find (\<lambda>k. equalFold k n) (ord (mapKeys kvs)) = Some k"
  proof (rule find_unique)
    show "k \<in> set (ord (mapKeys kvs))" unfolding assms(2) using k(1) by force
    show "equalFold k n" by (rule k(2))
  next
    fix k' assume k': "k' \<in> set (ord (mapKeys kvs))" "equalFold k' n"
    then obtain v' where "(k', v') \<in> set kvs" unfolding assms(2) by force
    then show "k' = k" using inj [of "(k', v')"] k'(2) k(2) by (simp add: equalFold_def)
  qed
  moreover have "jget kvs k = Some v"
    using k(1) d by (simp add: jget_def map_of_eq_Some_iff rev_map [symmetric])
  ultimately show ?thesis using Some by (simp add: subMap_def valueOf_def kv)
qed

text \<open>The section of a key, as the decoder and as the presence check see it.\<close>

definition sectionOf :: "(string \<times> json) list \<Rightarrow> string \<Rightarrow> presence" where
  "sectionOf kvs n = (case valueOf kvs n of None \<Rightarrow> [] | Some v \<Rightarrow> asMap v)"

lemma upper_simps: "toUpper [] = []" "toUpper (c # cs) = upperChar c # toUpper cs"
  by (simp_all add: toUpper_def)

lemma frqFields_distinct: "distinct (map (\<lambda>(n, _). toUpper n) frqFields)"
  by (simp add: frqFields_def upper_simps upperChar_def char_of_def)

lemma frq_field:
  assumes "(nm, field d sel upd) \<in> set frqFields" "distinct (map (\<lambda>(k, _). toUpper k) q)" "intoFields frqFields q zeroFrq = Some a"
    "\<And>n d' v a a'. (n, d') \<in> set frqFields \<Longrightarrow> n \<noteq> nm \<Longrightarrow> d' v a = Some a' \<Longrightarrow> sel a' = sel a"
    "\<And>a b. sel (upd (\<lambda>_. b) a) = b"
  shows "case valueOf q nm of None \<Rightarrow> sel a = sel zeroFrq | Some v \<Rightarrow> d v (sel zeroFrq) = Some (sel a)"
  using intoFields_field [OF frqFields_distinct assms(1,4,5,2,3)]
  by (auto simp: valueOf_def split: option.splits prod.splits)

lemma fileFields_distinct: "distinct (map (\<lambda>(n, _). toUpper n) fileFields)"
  by (simp add: fileFields_def upper_simps upperChar_def char_of_def)

lemma field_other: "field d' sel' upd' v a = Some a' \<Longrightarrow> (\<And>b. sel (upd' (\<lambda>_. b) a) = sel a) \<Longrightarrow> sel a' = sel a"
  by (auto simp: field_def)

lemma frq_decoded:
  assumes "intoFile (JObj kvs) zeroFile = Some g" "distinct (map (\<lambda>(k, _). toUpper k) kvs)"
  shows "intoFields frqFields (sectionOf kvs ''frq'') zeroFrq = Some (cfFrq g)"
proof -
  have "case find (\<lambda>(k, _). equalFold k ''frq'') kvs of None \<Rightarrow> cfFrq g = cfFrq zeroFile
    | Some (_, v) \<Rightarrow> intoFrq v (cfFrq zeroFile) = Some (cfFrq g)"
  proof (rule intoFields_field [OF fileFields_distinct _ _ _ assms(2)])
    show "(''frq'', field intoFrq cfFrq cfFrq_update) \<in> set fileFields" by (simp add: fileFields_def)
    show "intoFields fileFields kvs zeroFile = Some g" using assms(1) by (simp add: intoFile_def)
  next
    fix n d' v a a' assume "(n, d') \<in> set fileFields" "n \<noteq> ''frq''" "d' v a = Some a'"
    then show "cfFrq a' = cfFrq a" by (auto simp: fileFields_def field_def)
  qed simp
  then show ?thesis
  proof (cases "find (\<lambda>(k, _). equalFold k ''frq'') kvs")
    case (Some kv)
    moreover obtain k v where "kv = (k, v)" by (cases kv)
    ultimately have "intoFrq v zeroFrq = Some (cfFrq g)" "sectionOf kvs ''frq'' = asMap v"
      using \<open>case find _ _ of None \<Rightarrow> _ | Some x \<Rightarrow> _ x\<close> by (simp_all add: zeroFile_def sectionOf_def valueOf_def)
    then show ?thesis by (cases v) (simp_all add: intoFrq_def)
  qed (simp add: sectionOf_def valueOf_def zeroFile_def)
qed

lemma frq_given:
  assumes "distinct (map (\<lambda>(k, _). toUpper k) q)" "intoFields frqFields q zeroFrq = Some a"
    "(nm, field d sel upd) \<in> set frqFields" "b = (if valueOf q nm \<noteq> None then sel a else dflt)"
    "\<And>n d' v a a'. (n, d') \<in> set frqFields \<Longrightarrow> n \<noteq> nm \<Longrightarrow> d' v a = Some a' \<Longrightarrow> sel a' = sel a"
    "\<And>a b. sel (upd (\<lambda>_. b) a) = b"
  shows "case valueOf q nm of None \<Rightarrow> b = dflt | Some v \<Rightarrow> d v (sel zeroFrq) = Some b"
proof -
  have "case valueOf q nm of None \<Rightarrow> sel a = sel zeroFrq | Some v \<Rightarrow> d v (sel zeroFrq) = Some (sel a)"
    by (rule frq_field [OF assms(3,1,2) _ assms(6)]) (rule assms(5))
  then show ?thesis by (cases "valueOf q nm") (simp_all add: assms(4))
qed

text \<open>A decoder for the key \<open>n\<close> touches no other number of the section.\<close>

definition touchesOnly :: "string \<Rightarrow> simFrq dec \<Rightarrow> bool" where
  "touchesOnly n d \<longleftrightarrow> (\<forall>v a a'. d v a = Some a' \<longrightarrow>
      (n \<noteq> ''energy_wh'' \<longrightarrow> sfEnergyWh a' = sfEnergyWh a) \<and> (n \<noteq> ''power_w'' \<longrightarrow> sfPowerW a' = sfPowerW a) \<and>
      (n \<noteq> ''start_in_s'' \<longrightarrow> sfStartInS a' = sfStartInS a) \<and> (n \<noteq> ''duration_s'' \<longrightarrow> sfDurationS a' = sfDurationS a) \<and>
      (n \<noteq> ''min_lead_s'' \<longrightarrow> sfMinLeadS a' = sfMinLeadS a) \<and> (n \<noteq> ''poll_s'' \<longrightarrow> sfPollS a' = sfPollS a) \<and>
      (n \<noteq> ''answer_grace_s'' \<longrightarrow> sfAnswerGraceS a' = sfAnswerGraceS a))"

lemma frq_frame:
  assumes "(n, d) \<in> set frqFields" "d v a = Some a'"
  shows "n \<noteq> ''energy_wh'' \<Longrightarrow> sfEnergyWh a' = sfEnergyWh a" "n \<noteq> ''power_w'' \<Longrightarrow> sfPowerW a' = sfPowerW a"
    "n \<noteq> ''start_in_s'' \<Longrightarrow> sfStartInS a' = sfStartInS a" "n \<noteq> ''duration_s'' \<Longrightarrow> sfDurationS a' = sfDurationS a"
    "n \<noteq> ''min_lead_s'' \<Longrightarrow> sfMinLeadS a' = sfMinLeadS a" "n \<noteq> ''poll_s'' \<Longrightarrow> sfPollS a' = sfPollS a"
    "n \<noteq> ''answer_grace_s'' \<Longrightarrow> sfAnswerGraceS a' = sfAnswerGraceS a"
proof -
  have "list_all (\<lambda>(n, d). touchesOnly n d) frqFields"
    by (simp add: frqFields_def touchesOnly_def field_def) (intro conjI allI impI; elim exE conjE; hypsubst; simp)
  then have "touchesOnly n d"
    using assms(1) by (auto simp: list_all_iff)
  then show "n \<noteq> ''energy_wh'' \<Longrightarrow> sfEnergyWh a' = sfEnergyWh a" "n \<noteq> ''power_w'' \<Longrightarrow> sfPowerW a' = sfPowerW a"
    "n \<noteq> ''start_in_s'' \<Longrightarrow> sfStartInS a' = sfStartInS a" "n \<noteq> ''duration_s'' \<Longrightarrow> sfDurationS a' = sfDurationS a"
    "n \<noteq> ''min_lead_s'' \<Longrightarrow> sfMinLeadS a' = sfMinLeadS a" "n \<noteq> ''poll_s'' \<Longrightarrow> sfPollS a' = sfPollS a"
    "n \<noteq> ''answer_grace_s'' \<Longrightarrow> sfAnswerGraceS a' = sfAnswerGraceS a"
    using assms(2) unfolding touchesOnly_def by blast+
qed

text \<open>In a file that spells every key once, a flow-reservation number that the file gives is the number
  that is used, also an explicit zero, and a number it does not give has the documented default.
\<close>

theorem given_settings_survive:
  assumes "Parse ord (Some (JObj kvs, t)) = Inr f" "visitsAll ord" "distinct (map (\<lambda>(k, _). toUpper k) kvs)"
    "distinct (map (\<lambda>(k, _). toUpper k) (sectionOf kvs ''frq''))"
  shows "(\<forall>(n, sel, dflt)\<in>set frqFloats.
      case valueOf (sectionOf kvs ''frq'') n of None \<Rightarrow> sel (cfFrq f) = dflt | Some v \<Rightarrow> intoFloat v 0 = Some (sel (cfFrq f))) \<and>
    (\<forall>(n, sel, dflt)\<in>set frqInts.
      case valueOf (sectionOf kvs ''frq'') n of None \<Rightarrow> sel (cfFrq f) = dflt | Some v \<Rightarrow> goInt v 0 = Some (sel (cfFrq f)))"
proof -
  let ?q = "sectionOf kvs ''frq''"
  from assms(1) obtain g where g: "intoFile (JObj kvs) zeroFile = Some g" "f = applyDefaults ord kvs g"
    by (auto simp: Parse_def Let_def split: option.splits if_splits)
  note d = frq_decoded [OF g(1) assms(3)]
  have s: "subMap (ord x) kvs ''frq'' = ?q" for x
    unfolding sectionOf_def by (rule subMap_valueOf [OF assms(3)]) (use assms(2) in \<open>simp add: visitsAll_def\<close>)
  have f: "cfFrq f = frqDefaults ord kvs (cfFrq g)" by (simp add: g(2) applyDefaults_def Let_def)
  note df = f [unfolded frqDefaults_def Let_def s hasKey_valueOf]
  note fld = frq_given [OF assms(4) d]
  have "case valueOf ?q ''energy_wh'' of None \<Rightarrow> sfEnergyWh (cfFrq f) = 6000
    | Some v \<Rightarrow> intoFloat v (sfEnergyWh zeroFrq) = Some (sfEnergyWh (cfFrq f))"
    by (rule fld [where upd = sfEnergyWh_update]) (simp_all add: df frq_frame, simp add: frqFields_def)
  moreover have "case valueOf ?q ''power_w'' of None \<Rightarrow> sfPowerW (cfFrq f) = 3000
    | Some v \<Rightarrow> intoFloat v (sfPowerW zeroFrq) = Some (sfPowerW (cfFrq f))"
    by (rule fld [where upd = sfPowerW_update]) (simp_all add: df frq_frame, simp add: frqFields_def)
  moreover have "case valueOf ?q ''start_in_s'' of None \<Rightarrow> sfStartInS (cfFrq f) = 2400
    | Some v \<Rightarrow> goInt v (sfStartInS zeroFrq) = Some (sfStartInS (cfFrq f))"
    by (rule fld [where upd = sfStartInS_update]) (simp_all add: df frq_frame, simp add: frqFields_def)
  moreover have "case valueOf ?q ''duration_s'' of None \<Rightarrow> sfDurationS (cfFrq f) = 3600
    | Some v \<Rightarrow> goInt v (sfDurationS zeroFrq) = Some (sfDurationS (cfFrq f))"
    by (rule fld [where upd = sfDurationS_update]) (simp_all add: df frq_frame, simp add: frqFields_def)
  moreover have "case valueOf ?q ''min_lead_s'' of None \<Rightarrow> sfMinLeadS (cfFrq f) = 60
    | Some v \<Rightarrow> goInt v (sfMinLeadS zeroFrq) = Some (sfMinLeadS (cfFrq f))"
    by (rule fld [where upd = sfMinLeadS_update]) (simp_all add: df frq_frame, simp add: frqFields_def)
  moreover have "case valueOf ?q ''poll_s'' of None \<Rightarrow> sfPollS (cfFrq f) = 30
    | Some v \<Rightarrow> goInt v (sfPollS zeroFrq) = Some (sfPollS (cfFrq f))"
    by (rule fld [where upd = sfPollS_update]) (simp_all add: df frq_frame, simp add: frqFields_def)
  moreover have "case valueOf ?q ''answer_grace_s'' of None \<Rightarrow> sfAnswerGraceS (cfFrq f) = 60
    | Some v \<Rightarrow> goInt v (sfAnswerGraceS zeroFrq) = Some (sfAnswerGraceS (cfFrq f))"
    by (rule fld [where upd = sfAnswerGraceS_update]) (simp_all add: df frq_frame, simp add: frqFields_def)
  ultimately show ?thesis
    unfolding frqFloats_def frqInts_def zeroFrq_def simFrq.select_convs
    by (simp only: list.set ball_simps prod.case insert_iff simp_thms)
qed

section \<open>Examples\<close>

lemma upper_table:
    "upperChar (CHR ''a'') = CHR ''A''" "upperChar (CHR ''b'') = CHR ''B''" "upperChar (CHR ''c'') = CHR ''C''" "upperChar (CHR ''d'') = CHR ''D''" "upperChar (CHR ''e'') = CHR ''E''" "upperChar (CHR ''f'') = CHR ''F''" "upperChar (CHR ''g'') = CHR ''G''" "upperChar (CHR ''h'') = CHR ''H''"
    "upperChar (CHR ''i'') = CHR ''I''" "upperChar (CHR ''j'') = CHR ''J''" "upperChar (CHR ''k'') = CHR ''K''" "upperChar (CHR ''l'') = CHR ''L''" "upperChar (CHR ''m'') = CHR ''M''" "upperChar (CHR ''n'') = CHR ''N''" "upperChar (CHR ''o'') = CHR ''O''" "upperChar (CHR ''p'') = CHR ''P''"
    "upperChar (CHR ''q'') = CHR ''Q''" "upperChar (CHR ''r'') = CHR ''R''" "upperChar (CHR ''s'') = CHR ''S''" "upperChar (CHR ''t'') = CHR ''T''" "upperChar (CHR ''u'') = CHR ''U''" "upperChar (CHR ''v'') = CHR ''V''" "upperChar (CHR ''w'') = CHR ''W''" "upperChar (CHR ''x'') = CHR ''X''"
    "upperChar (CHR ''y'') = CHR ''Y''" "upperChar (CHR ''z'') = CHR ''Z''" "upperChar (CHR ''_'') = CHR ''_''"
    "upperChar (CHR ''F'') = CHR ''F''" "upperChar (CHR ''R'') = CHR ''R''" "upperChar (CHR ''Q'') = CHR ''Q''"
  by (simp_all add: upperChar_def char_of_def bit_0)

definition inOrder :: mapOrder where "inOrder s ks = ks"

definition backwards :: mapOrder where "backwards s ks = rev ks"

lemma visits_demo [simp]: "visitsAll inOrder" "visitsAll backwards"
  by (simp_all add: visitsAll_def inOrder_def backwards_def)

definition demoLFDI :: string where "demoLFDI = ''AAAAAAAAAABBBBBBBBBBCCCCCCCCCC0123456789''"

definition demoKeys :: "(string \<times> json) list" where
  "demoKeys = [(''role'', JStr ''aggregator''), (''frq'', JObj [(''energy_wh'', JNum 1200)]),
     (''managed'', JArr [JObj [(''name'', JStr ''a''), (''lfdi'', JStr demoLFDI)]])]"

definition splitKeys :: "(string \<times> json) list" where
  "splitKeys = [(''frq'', JObj [(''energy_wh'', JNum 1200)]), (''FRQ'', JObj [(''power_w'', JNum 500)])]"

definition demoPV :: "string \<Rightarrow> simDevice" where
  "demoPV n = \<lparr>sdName = n, sdType = ''pv'', sdRatedW = 10000, sdCapacityWh = 10000, sdInitialSOC = Some (Fin (1 / 2))\<rparr>"

definition demoSynthetic :: simReplay where "demoSynthetic = \<lparr>srFile = [], srClock = ''wall'', srScale = 1\<rparr>"

definition demoFile :: "string \<Rightarrow> Managed list \<Rightarrow> f64 \<Rightarrow> f64 \<Rightarrow> simFile" where
  "demoFile role ms e p = \<lparr>cfRole = role, cfServer = [], cfCert = [], cfKey = [], cfCA = [], LookupOwnEdev = None, cfPin = 0,
     cfDevice = demoPV [], cfBackend = ''synthetic'', cfReplay = demoSynthetic, cfReport = \<lparr>IntervalS = 60\<rparr>,
     cfStatus = \<lparr>IntervalS = 60\<rparr>, cfControls = \<lparr>scResponse = ''follow'', scPollS = 0\<rparr>, cfManaged = ms,
     cfFrq = \<lparr>sfEnergyWh = e, sfPowerW = p, sfStartInS = 2400, sfDurationS = 3600, sfMinLeadS = 60, sfPollS = 30,
       sfAnswerGraceS = 60, sfRequestFile = ''frq-request.json''\<rparr>,
     cfDispatch = \<lparr>TickS = 5\<rparr>, cfNotify = \<lparr>Listen = None\<rparr>, cfHMI = \<lparr>Port = 0\<rparr>\<rparr>"

definition demoManaged :: Managed where
  "demoManaged = \<lparr>mgName = ''a'', mgLFDI = demoLFDI, mgDevice = Some (demoPV ''a''), mgReplay = Some demoSynthetic,
     mgControls = Some \<lparr>scResponse = ''follow'', scPollS = 0\<rparr>\<rparr>"

lemmas decode_defs = intoFile_def fileFields_def fieldFor_def field_def intoFrq_def frqFields_def intoManaged_def
lemmas zero_defs = zeroFile_def zeroFrq_def zeroManaged_def zeroDevice_def zeroReplay_def zeroControls_def
lemmas defaults_defs = applyDefaults_def deviceDefaults_def replayDefaults_def frqDefaults_def subMap_def mapKeys_def hasKey_def
  equalFold_def upper_simps upper_table intervalDefault_def controlsDefaults_def managedDefaults_def elemMap_def theOr_def
  jget_def demoPV_def demoSynthetic_def demoFile_def demoManaged_def Let_def

lemma demoLFDI_hex: "hex40 demoLFDI"
  by (simp add: hex40_def demoLFDI_def isHexChar_def code_def)

lemma demo_decoded:
  "intoFile (JObj demoKeys) zeroFile = Some (zeroFile\<lparr>cfRole := ''aggregator'', cfFrq := zeroFrq\<lparr>sfEnergyWh := 1200\<rparr>,
     cfManaged := [zeroManaged\<lparr>mgName := ''a'', mgLFDI := demoLFDI\<rparr>]\<rparr>)"
  by (simp add: demoKeys_def decode_defs zero_defs)

lemma split_decoded:
  "intoFile (JObj splitKeys) zeroFile = Some (zeroFile\<lparr>cfFrq := zeroFrq\<lparr>sfEnergyWh := 1200, sfPowerW := 500\<rparr>\<rparr>)"
  by (simp add: splitKeys_def decode_defs zero_defs equalFold_def upper_simps upper_table)

lemma demo_defaults:
  "applyDefaults inOrder demoKeys (zeroFile\<lparr>cfRole := ''aggregator'', cfFrq := zeroFrq\<lparr>sfEnergyWh := 1200\<rparr>,
     cfManaged := [zeroManaged\<lparr>mgName := ''a'', mgLFDI := demoLFDI\<rparr>]\<rparr>) = demoFile ''aggregator'' [demoManaged] 1200 3000"
  by (simp add: defaults_defs zero_defs demoKeys_def inOrder_def)

lemma split_defaults:
  "applyDefaults inOrder splitKeys (zeroFile\<lparr>cfFrq := zeroFrq\<lparr>sfEnergyWh := 1200, sfPowerW := 500\<rparr>\<rparr>) =
     demoFile ''der'' [] 1200 3000"
  "applyDefaults backwards splitKeys (zeroFile\<lparr>cfFrq := zeroFrq\<lparr>sfEnergyWh := 1200, sfPowerW := 500\<rparr>\<rparr>) =
     demoFile ''der'' [] 6000 500"
  by (simp_all add: defaults_defs zero_defs splitKeys_def inOrder_def backwards_def)

lemma validate_demo:
  assumes "visitsAll ord" "ms = [] \<and> role = ''der'' \<or> ms = [demoManaged] \<and> role = ''aggregator''" "0 < e" "0 < p"
  shows "validate ord (demoFile role ms (Fin e) (Fin p)) = None"
proof -
  have o: "set (ord s ks) = set ks" for s ks using assms(1) by (simp add: visitsAll_def)
  have d: "validateDevice pre (demoPV n) = None" for pre n
    by (simp add: validateDevice_def firstError_None oneOf_def demoPV_def)
  have t: "sdType (demoPV n) = ''pv''" for n by (simp add: demoPV_def)
  have r: "validateReplay pre demoSynthetic = None" for pre
    by (simp add: validateReplay_def firstError_None oneOf_def demoSynthetic_def)
  have c: "validateControls pre \<lparr>scResponse = ''follow'', scPollS = 0\<rparr> = None" for pre
    by (simp add: validateControls_def firstError_None oneOf_def)
  have "firstError [validateDevice pre (demoPV ''a''), validateReplay pre' demoSynthetic,
      validateControls pre'' \<lparr>scResponse = ''follow'', scPollS = 0\<rparr>] = None" for pre pre' pre''
    by (simp add: firstError_None d r c)
  then have "validateManaged 0 [] ms = None"
    using assms(2) by (auto simp: demoManaged_def demoLFDI_hex theOr_def Let_def)
  then show ?thesis
    using assms(2-4) by (auto simp: validate_def firstError_None demoFile_def oneOf_def d r c checkAll_None o t)
qed

lemma ParseI:
  assumes "intoFile v zeroFile = Some g" "cfRole g = ''aggregator'' \<longrightarrow> LookupOwnEdev g = None"
    "applyDefaults ord (asMap v) g = f" "validate ord f = None"
  shows "Parse ord (Some (v, False)) = Inr f"
  using assms by (auto simp: Parse_def Let_def)

lemma demo_parse: "Parse inOrder (Some (JObj demoKeys, False)) = Inr (demoFile ''aggregator'' [demoManaged] 1200 3000)"
proof (rule ParseI [OF demo_decoded])
  show "validate inOrder (demoFile ''aggregator'' [demoManaged] 1200 3000) = None"
    unfolding numeral_f64 by (rule validate_demo) simp_all
qed (simp add: zeroFile_def, simp only: asMap.simps demo_defaults)

lemma split_parse:
  "Parse inOrder (Some (JObj splitKeys, False)) = Inr (demoFile ''der'' [] 1200 3000)"
  "Parse backwards (Some (JObj splitKeys, False)) = Inr (demoFile ''der'' [] 6000 500)"
proof -
  show "Parse inOrder (Some (JObj splitKeys, False)) = Inr (demoFile ''der'' [] 1200 3000)"
  proof (rule ParseI [OF split_decoded])
    show "validate inOrder (demoFile ''der'' [] 1200 3000) = None"
      unfolding numeral_f64 by (rule validate_demo) simp_all
  qed (simp add: zeroFile_def, simp only: asMap.simps split_defaults)
  show "Parse backwards (Some (JObj splitKeys, False)) = Inr (demoFile ''der'' [] 6000 500)"
  proof (rule ParseI [OF split_decoded])
    show "validate backwards (demoFile ''der'' [] 6000 500) = None"
      unfolding numeral_f64 by (rule validate_demo) simp_all
  qed (simp add: zeroFile_def, simp only: asMap.simps split_defaults)
qed

text \<open>
  Two sections whose names differ only in case are both decoded, but the presence check looks at one of
  them, the one Go's map order visits first: the same file gives two different configurations, and
  neither has both of the explicit settings.
\<close>

theorem split_section_loses_settings:
  "Parse inOrder (Some (JObj splitKeys, False)) = Inr (demoFile ''der'' [] 1200 3000) \<and>
   Parse backwards (Some (JObj splitKeys, False)) = Inr (demoFile ''der'' [] 6000 500)"
  using split_parse by simp

theorem parsed_config_well_formed_witness: "wfConfig (demoFile ''aggregator'' [demoManaged] 1200 3000)"
  using parsed_config_well_formed [OF demo_parse visits_demo(1)] .

theorem parse_ignores_map_order_witness:
  "Parse inOrder (Some (JObj demoKeys, False)) = Parse backwards (Some (JObj demoKeys, False)) \<or>
     isl (Parse inOrder (Some (JObj demoKeys, False)))"
proof -
  have "spelledOnce (JObj demoKeys)"
    by (simp add: spelledOnce_def oneSpelling_def demoKeys_def equalFold_def upper_simps upper_table)
  then show ?thesis
    using parse_ignores_map_order [OF visits_demo, of "Some (JObj demoKeys, False)"] by auto
qed

theorem given_settings_survive_witness:
  "sfEnergyWh (cfFrq (demoFile ''aggregator'' [demoManaged] 1200 3000)) = 1200 \<and>
   sfPowerW (cfFrq (demoFile ''aggregator'' [demoManaged] 1200 3000)) = 3000"
proof -
  have u: "distinct (map (\<lambda>(k, _). toUpper k) demoKeys)" "distinct (map (\<lambda>(k, _). toUpper k) (sectionOf demoKeys ''frq''))"
    and v: "valueOf (sectionOf demoKeys ''frq'') ''energy_wh'' = Some (JNum 1200)" "valueOf (sectionOf demoKeys ''frq'') ''power_w'' = None"
    by (simp_all add: demoKeys_def sectionOf_def valueOf_def equalFold_def upper_simps upper_table)
  show ?thesis
    using given_settings_survive [OF demo_parse visits_demo(1) u] v by (simp add: frqFloats_def)
qed

end
