(* ===== verification/SimMode.thy ===== *)
theory SimMode
  imports SimConfig Guard
begin

text \<open>
  The layers of the settings (\<open>cmd/inverterclient/simmode.go\<close>, \<open>role.go\<close>): a flag given on the
  command line wins over the environment, the environment over the configuration file, the file over the
  flag's own default. The \<open>flag\<close> package holds a typed value per flag and parses a text by its type
  (a repeated flag collects its values);
  the number and duration syntax of the standard library is a parameter.
\<close>

section \<open>Flags\<close>

datatype flagVal = FString string | FBool bool | FUint int | FInt int | FDuration duration | FFloat f64 | FList "string list"

record flagSyntax =
  parseUint64 :: "string \<Rightarrow> int option"
  parseInt64 :: "string \<Rightarrow> int option"
  parseDuration :: "string \<Rightarrow> duration option"
  parseFloat64 :: "string \<Rightarrow> f64 option"
  durationString :: "duration \<Rightarrow> string"

record FlagSet =
  flagValues :: "string \<Rightarrow> flagVal option"
  flagsGiven :: "string list"

definition parseBool :: "string \<Rightarrow> bool option" where
  "parseBool s =
     (if s \<in> set [''1'', ''t'', ''T'', ''TRUE'', ''true'', ''True''] then Some True
      else if s \<in> set [''0'', ''f'', ''F'', ''FALSE'', ''false'', ''False''] then Some False
      else None)"

fun parseFlag :: "flagSyntax \<Rightarrow> flagVal \<Rightarrow> string \<Rightarrow> flagVal option" where
  "parseFlag T (FString _) v = Some (FString v)"
| "parseFlag T (FBool _) v = map_option FBool (parseBool v)"
| "parseFlag T (FUint _) v = map_option FUint (parseUint64 T v)"
| "parseFlag T (FInt _) v = map_option FInt (parseInt64 T v)"
| "parseFlag T (FDuration _) v = map_option FDuration (parseDuration T v)"
| "parseFlag T (FFloat _) v = map_option FFloat (parseFloat64 T v)"
| "parseFlag T (FList vs) v = Some (FList (vs @ [v]))"

definition setFlag :: "flagSyntax \<Rightarrow> string \<Rightarrow> string \<Rightarrow> FlagSet \<Rightarrow> FlagSet option" where
  "setFlag T name v fs =
     (case flagValues fs name of
        None \<Rightarrow> None
      | Some old \<Rightarrow>
          map_option (\<lambda>x. fs\<lparr>flagValues := (flagValues fs)(name \<mapsto> x), flagsGiven := name # flagsGiven fs\<rparr>) (parseFlag T old v))"

definition stringFlag :: "FlagSet \<Rightarrow> string \<Rightarrow> string" where
  "stringFlag fs name = (case flagValues fs name of Some (FString s) \<Rightarrow> s | _ \<Rightarrow> [])"

section \<open>Decimal numbers\<close>

definition digitVal :: "char \<Rightarrow> nat option" where
  "digitVal c = (let n = code c in if 48 \<le> n \<and> n \<le> 57 then Some (n - 48) else None)"

fun digitsVal :: "nat \<Rightarrow> string \<Rightarrow> nat option" where
  "digitsVal acc [] = Some acc"
| "digitsVal acc (c # cs) = (case digitVal c of None \<Rightarrow> None | Some d \<Rightarrow> digitsVal (10 * acc + d) cs)"

text \<open>\<open>strconv.ParseUint(s, 10, bits)\<close> and \<open>strconv.Atoi\<close>.\<close>

definition parseUint10 :: "nat \<Rightarrow> string \<Rightarrow> int option" where
  "parseUint10 bits s =
     (if s = [] then None
      else (case digitsVal 0 s of None \<Rightarrow> None | Some n \<Rightarrow> if n < 2 ^ bits then Some (int n) else None))"

definition atoi :: "string \<Rightarrow> int option" where
  "atoi s =
     (let (neg, ds) = (case s of CHR ''-'' # r \<Rightarrow> (True, r) | CHR ''+'' # r \<Rightarrow> (False, r) | _ \<Rightarrow> (False, s)) in
      if ds = [] then None
      else
        (case digitsVal 0 ds of
           None \<Rightarrow> None
         | Some n \<Rightarrow>
             (let i = (if neg then - int n else int n) in if minInt64 \<le> i \<and> i \<le> maxInt64 then Some i else None)))"

section \<open>The settings of sim mode\<close>

record simSetting =
  ssKey :: string
  ssFlag :: string
  ssEnv :: string
  ssValue :: "flagSyntax \<Rightarrow> simFile \<Rightarrow> string \<Rightarrow> string option"
  envCheck :: "string \<Rightarrow> bool"
  envValue :: "flagSyntax \<Rightarrow> string \<Rightarrow> string option"

definition oneOfEnv :: "string list \<Rightarrow> string \<Rightarrow> bool" where
  "oneOfEnv allowed v \<longleftrightarrow> v \<in> set allowed"

definition portEnv :: "string \<Rightarrow> bool" where
  "portEnv v \<longleftrightarrow> (case atoi v of None \<Rightarrow> False | Some n \<Rightarrow> \<not> (n < 0 \<or> n > 65535))"

definition setIf :: "string \<Rightarrow> string option" where
  "setIf s = (if s = [] then None else Some s)"

definition formatBool :: "bool \<Rightarrow> string" where
  "formatBool b = (if b then ''true'' else ''false'')"

definition reportText :: "flagSyntax \<Rightarrow> int \<Rightarrow> string" where
  "reportText T s = durationString T (wrap64 (s * nsPerSecond))"

definition reportEnv :: "flagSyntax \<Rightarrow> string \<Rightarrow> string option" where
  "reportEnv T v =
     (case parseUint10 31 v of
        None \<Rightarrow> None
      | Some n \<Rightarrow> if n = 0 then None else Some (reportText T n))"

text \<open>Settings without a check or a conversion of their own accept every text and pass it on.\<close>

definition plain :: "string \<Rightarrow> string \<Rightarrow> string \<Rightarrow> (flagSyntax \<Rightarrow> simFile \<Rightarrow> string \<Rightarrow> string option) \<Rightarrow> simSetting" where
  "plain key fl env value =
     \<lparr>ssKey = key, ssFlag = fl, ssEnv = env, ssValue = value, envCheck = (\<lambda>_. True), envValue = (\<lambda>_. Some)\<rparr>"

definition simSettings :: "simSetting list" where
  "simSettings =
     [(plain ''role'' ''client-role'' ''SEP2_CLIENT_ROLE'' (\<lambda>T f r. Some (cfRole f)))\<lparr>envCheck := oneOfEnv [''der'', ''aggregator'']\<rparr>,
      plain ''server'' ''server'' ''SEP2_SERVER'' (\<lambda>T f r. setIf (cfServer f)),
      plain ''cert'' ''cert'' ''SEP2_CERT'' (\<lambda>T f r. setIf (cfCert f)),
      plain ''key'' ''key'' ''SEP2_KEY'' (\<lambda>T f r. setIf (cfKey f)),
      plain ''ca'' ''ca'' ''SEP2_CA'' (\<lambda>T f r. setIf (cfCA f)),
      plain ''lookup_own_edev'' ''csip'' ''SEP2_LOOKUP_OWN_EDEV''
        (\<lambda>T f r. case LookupFor f r of (v, given) \<Rightarrow> if given then Some (formatBool v) else None),
      plain ''pin'' ''pin'' ''SEP2_PIN'' (\<lambda>T f r. Some (itoa (cfPin f))),
      (plain ''backend'' ''backend'' ''SEP2_BACKEND'' (\<lambda>T f r. Some (cfBackend f)))\<lparr>envCheck := oneOfEnv [''replay'', ''synthetic'']\<rparr>,
      (plain ''report.interval_s'' ''report-interval'' ''SEP2_REPORT_INTERVAL_S''
        (\<lambda>T f r. Some (reportText T (IntervalS (cfReport f)))))\<lparr>envValue := reportEnv\<rparr>,
      plain ''notify.listen'' ''notify-listen'' ''SEP2_NOTIFY_LISTEN'' (\<lambda>T f r. Listen (cfNotify f)),
      (plain ''hmi.port'' ''hmi-port'' ''SEP2_HMI_PORT'' (\<lambda>T f r. Some (itoa (Port (cfHMI f)))))\<lparr>envCheck := portEnv\<rparr>]"

definition simConfigPath :: "string \<Rightarrow> (string \<Rightarrow> string option) \<Rightarrow> string" where
  "simConfigPath flagValue lookupEnv =
     (if flagValue \<noteq> [] then flagValue else case lookupEnv ''SEP2_SIM_CONFIG'' of None \<Rightarrow> [] | Some v \<Rightarrow> v)"

text \<open>What a setting is to be: nothing when an explicit flag or no layer decides it, else a text or an error.\<close>

datatype decision = Leave | Refuse string | Use string

definition decide :: "flagSyntax \<Rightarrow> simFile \<Rightarrow> string list \<Rightarrow> (string \<Rightarrow> string option) \<Rightarrow> string \<Rightarrow> simSetting \<Rightarrow> decision" where
  "decide T sc explicit lookupEnv role s =
     (if ssFlag s \<in> set explicit then Leave
      else
        (case lookupEnv (ssEnv s) of
           Some ev \<Rightarrow>
             if ev \<noteq> [] then
               if \<not> envCheck s ev then Refuse (ssEnv s)
               else (case envValue s T ev of None \<Rightarrow> Refuse (ssEnv s) | Some v \<Rightarrow> Use v)
             else (case ssValue s T sc role of None \<Rightarrow> Leave | Some v \<Rightarrow> Use v)
         | None \<Rightarrow> (case ssValue s T sc role of None \<Rightarrow> Leave | Some v \<Rightarrow> Use v)))"

datatype modeErr = ErrConfig cfgErr | ErrSetting string | ErrRole cfgErr | ErrReplayFile

fun applySettings :: "flagSyntax \<Rightarrow> simFile \<Rightarrow> string list \<Rightarrow> (string \<Rightarrow> string option) \<Rightarrow> simSetting list \<Rightarrow> FlagSet \<Rightarrow> modeErr + FlagSet" where
  "applySettings T sc explicit lookupEnv [] fs = Inr fs"
| "applySettings T sc explicit lookupEnv (s # ss) fs =
     (case decide T sc explicit lookupEnv (stringFlag fs ''client-role'') s of
        Leave \<Rightarrow> applySettings T sc explicit lookupEnv ss fs
      | Refuse e \<Rightarrow> Inl (ErrSetting e)
      | Use v \<Rightarrow>
          (case setFlag T (ssFlag s) v fs of
             None \<Rightarrow> Inl (ErrSetting (ssKey s))
           | Some fs' \<Rightarrow> applySettings T sc explicit lookupEnv ss fs'))"

record ReplaySettings =
  rsFile :: string
  rsType :: string
  rsClock :: string
  rsScale :: f64
  rsRatedW :: f64
  rsCapacityWh :: f64
  rsInitialSOC :: f64

record simResult =
  smFlags :: FlagSet
  smReplay :: ReplaySettings
  smRating :: Nameplate
  smFile :: simFile

definition applySimConfig :: "flagSyntax \<Rightarrow> (string \<Rightarrow> cfgErr + simFile) \<Rightarrow> FlagSet \<Rightarrow> Nameplate \<Rightarrow> string \<Rightarrow>
    (string \<Rightarrow> string option) \<Rightarrow> modeErr + simResult" where
  "applySimConfig T load fs rt path lookupEnv =
     (case load path of
        Inl e \<Rightarrow> Inl (ErrConfig e)
      | Inr sc \<Rightarrow>
          (case applySettings T sc (flagsGiven fs) lookupEnv simSettings fs of
             Inl e \<Rightarrow> Inl e
           | Inr fs \<Rightarrow>
               (case ValidateForRole sc (stringFlag fs ''client-role'') of
                  Some e \<Rightarrow> Inl (ErrRole e)
                | None \<Rightarrow>
                    if stringFlag fs ''backend'' = ''replay'' \<and> srFile (cfReplay sc) = [] then Inl ErrReplayFile
                    else
                      Inr \<lparr>smFlags = fs,
                        smReplay = \<lparr>rsFile = srFile (cfReplay sc), rsType = sdType (cfDevice sc), rsClock = srClock (cfReplay sc),
                          rsScale = srScale (cfReplay sc), rsRatedW = sdRatedW (cfDevice sc),
                          rsCapacityWh = sdCapacityWh (cfDevice sc), rsInitialSOC = theOr 0 (sdInitialSOC (cfDevice sc))\<rparr>,
                        smRating = applyNameplate (sdRatedW (cfDevice sc)) rt, smFile = sc\<rparr>)))"

definition loadSimConfig :: "flagSyntax \<Rightarrow> (string \<Rightarrow> cfgErr + simFile) \<Rightarrow> FlagSet \<Rightarrow> Nameplate \<Rightarrow> string \<Rightarrow>
    (string \<Rightarrow> string option) \<Rightarrow> modeErr + simResult option" where
  "loadSimConfig T load fs rt flagPath lookupEnv =
     (let path = simConfigPath flagPath lookupEnv in
      if path = [] then Inr None
      else (case applySimConfig T load fs rt path lookupEnv of Inl e \<Rightarrow> Inl e | Inr r \<Rightarrow> Inr (Some r)))"

section \<open>What the role decides\<close>

definition endDeviceAcquisitionUsesLookup :: "bool \<Rightarrow> string \<Rightarrow> bool" where
  "endDeviceAcquisitionUsesLookup csip clientRole \<longleftrightarrow> csip \<or> clientRole = ''aggregator''"

definition skipDERPipelineForRole :: "string \<Rightarrow> bool" where
  "skipDERPipelineForRole clientRole \<longleftrightarrow> clientRole = ''aggregator''"

definition runDERSessionForRole :: "string \<Rightarrow> bool \<Rightarrow> bool" where
  "runDERSessionForRole clientRole selected \<longleftrightarrow> selected \<and> \<not> skipDERPipelineForRole clientRole"

definition derOnlyFlagUsedInAggregatorRole :: "bool \<Rightarrow> string \<Rightarrow> string" where
  "derOnlyFlagUsedInAggregatorRole csip clientRole = (if clientRole = ''aggregator'' \<and> csip then ''--csip'' else [])"

definition csipFlag :: "FlagSet \<Rightarrow> bool" where
  "csipFlag fs \<longleftrightarrow> flagValues fs ''csip'' = Some (FBool True)"

text \<open>The checks of \<open>main\<close> on the settings, before the fleets and the devices are built.\<close>

datatype startRefusal = BadConfig modeErr | BadRole string | DerOnly string

definition startGate :: "flagSyntax \<Rightarrow> (string \<Rightarrow> cfgErr + simFile) \<Rightarrow> FlagSet \<Rightarrow> Nameplate \<Rightarrow>
    (string \<Rightarrow> string option) \<Rightarrow> startRefusal + (FlagSet \<times> simResult option)" where
  "startGate T load fs rt lookupEnv =
     (case loadSimConfig T load fs rt (stringFlag fs ''sim-config'') lookupEnv of
        Inl e \<Rightarrow> Inl (BadConfig e)
      | Inr r \<Rightarrow>
          (let fs = (case r of None \<Rightarrow> fs | Some x \<Rightarrow> smFlags x); role = stringFlag fs ''client-role'' in
           case ParseRole role of
             None \<Rightarrow> Inl (BadRole role)
           | Some _ \<Rightarrow>
               (let name = derOnlyFlagUsedInAggregatorRole (csipFlag fs) role in
                if name \<noteq> [] then Inl (DerOnly name) else Inr (fs, r))))"

definition applyPEN :: "int \<Rightarrow> int option" where
  "applyPEN pen = (if pen > 0xFFFFFFFF then None else Some pen)"

section \<open>The order of the layers\<close>

definition settled :: "flagSyntax \<Rightarrow> decision \<Rightarrow> flagVal option \<Rightarrow> flagVal option \<Rightarrow> bool" where
  "settled T d old now \<longleftrightarrow>
     (case d of Leave \<Rightarrow> now = old | Refuse _ \<Rightarrow> False
      | Use v \<Rightarrow> (\<exists>o' x. old = Some o' \<and> parseFlag T o' v = Some x \<and> now = Some x))"

lemma setFlag_Some:
  assumes "setFlag T n v fs = Some fs'"
  shows "settled T (Use v) (flagValues fs n) (flagValues fs' n)" "m \<noteq> n \<Longrightarrow> flagValues fs' m = flagValues fs m"
  using assms by (auto simp: setFlag_def settled_def split: option.splits)

lemma stringFlag_cong: "flagValues fs n = flagValues fs' n \<Longrightarrow> stringFlag fs n = stringFlag fs' n"
  by (simp add: stringFlag_def)

lemma applySettings_step:
  assumes "applySettings T sc ex env (s # ss) fs = Inr fs'"
  obtains fs1 where "applySettings T sc ex env ss fs1 = Inr fs'"
    "settled T (decide T sc ex env (stringFlag fs ''client-role'') s) (flagValues fs (ssFlag s)) (flagValues fs1 (ssFlag s))"
    "\<And>m. m \<noteq> ssFlag s \<Longrightarrow> flagValues fs1 m = flagValues fs m"
proof (cases "decide T sc ex env (stringFlag fs ''client-role'') s")
  case Leave
  then show ?thesis using assms that [of fs] by (simp add: settled_def)
next
  case (Refuse e)
  then show ?thesis using assms by simp
next
  case (Use v)
  with assms obtain fs1 where f: "setFlag T (ssFlag s) v fs = Some fs1" "applySettings T sc ex env ss fs1 = Inr fs'"
    by (auto split: option.splits)
  show ?thesis
    by (rule that [OF f(2)]) (simp_all add: Use setFlag_Some(1) [OF f(1)] setFlag_Some(2) [OF f(1)])
qed

lemma applySettings_frame:
  "applySettings T sc ex env ss fs = Inr fs' \<Longrightarrow> m \<notin> ssFlag ` set ss \<Longrightarrow> flagValues fs' m = flagValues fs m"
proof (induction ss arbitrary: fs)
  case (Cons s ss)
  obtain fs1 where f: "applySettings T sc ex env ss fs1 = Inr fs'" "\<And>m. m \<noteq> ssFlag s \<Longrightarrow> flagValues fs1 m = flagValues fs m"
    by (rule applySettings_step [OF Cons.prems(1)]) blast
  show ?case using Cons.IH [OF f(1)] Cons.prems(2) f(2) [of m] by simp
qed simp

lemma applySettings_settled:
  "applySettings T sc ex env ss fs = Inr fs' \<Longrightarrow> distinct (map ssFlag ss) \<Longrightarrow> ''client-role'' \<notin> ssFlag ` set ss \<Longrightarrow> s \<in> set ss \<Longrightarrow>
   settled T (decide T sc ex env (stringFlag fs ''client-role'') s) (flagValues fs (ssFlag s)) (flagValues fs' (ssFlag s))"
proof (induction ss arbitrary: fs)
  case (Cons a ss)
  obtain fs1 where f: "applySettings T sc ex env ss fs1 = Inr fs'"
    "settled T (decide T sc ex env (stringFlag fs ''client-role'') a) (flagValues fs (ssFlag a)) (flagValues fs1 (ssFlag a))"
    "\<And>m. m \<noteq> ssFlag a \<Longrightarrow> flagValues fs1 m = flagValues fs m"
    by (rule applySettings_step [OF Cons.prems(1)]) blast
  show ?case
  proof (cases "s \<in> set ss")
    case True
    then have ne: "ssFlag s \<noteq> ssFlag a" using Cons.prems(2) by (auto simp: image_iff)
    have r: "stringFlag fs1 ''client-role'' = stringFlag fs ''client-role''"
      using Cons.prems(3) by (intro stringFlag_cong f(3)) simp
    show ?thesis
      using Cons.IH [OF f(1) _ _ True] Cons.prems(2,3) r f(3) [OF ne] by simp
  next
    case False
    then have "s = a" "ssFlag a \<notin> ssFlag ` set ss" using Cons.prems(2,4) by auto
    then show ?thesis using f(2) applySettings_frame [OF f(1), of "ssFlag a"] by simp
  qed
qed simp

lemma simSettings_flags:
  "map ssFlag simSettings = [''client-role'', ''server'', ''cert'', ''key'', ''ca'', ''csip'', ''pin'', ''backend'', ''report-interval'',
     ''notify-listen'', ''hmi-port'']"
  by (simp add: simSettings_def plain_def)

lemma simSettings_split: "simSettings = hd simSettings # tl simSettings"
  by (simp add: simSettings_def)

lemma role_setting:
  "ssFlag (hd simSettings) = ''client-role''" "ssValue (hd simSettings) T sc r = Some (cfRole sc)"
  by (simp_all add: simSettings_def plain_def)

lemma decide_role: "decide T sc ex env r (hd simSettings) = decide T sc ex env r' (hd simSettings)"
  by (simp add: decide_def role_setting split: option.splits)

lemma simSettings_settled:
  assumes "applySettings T sc ex env simSettings fs = Inr fs'" "s \<in> set simSettings"
  shows "settled T (decide T sc ex env (stringFlag fs' ''client-role'') s) (flagValues fs (ssFlag s)) (flagValues fs' (ssFlag s))"
proof -
  have a: "applySettings T sc ex env (hd simSettings # tl simSettings) fs = Inr fs'"
    using assms(1) by (simp only: simSettings_split [symmetric])
  obtain fs1 where f: "applySettings T sc ex env (tl simSettings) fs1 = Inr fs'"
    "settled T (decide T sc ex env (stringFlag fs ''client-role'') (hd simSettings)) (flagValues fs (ssFlag (hd simSettings)))
       (flagValues fs1 (ssFlag (hd simSettings)))"
    "\<And>m. m \<noteq> ssFlag (hd simSettings) \<Longrightarrow> flagValues fs1 m = flagValues fs m"
    by (rule applySettings_step [OF a]) blast
  have t: "map ssFlag (tl simSettings) = tl (map ssFlag simSettings)" by (simp add: map_tl)
  have n: "''client-role'' \<notin> ssFlag ` set (tl simSettings)" "distinct (map ssFlag (tl simSettings))"
    unfolding set_map [symmetric] t simSettings_flags by simp_all
  have role: "flagValues fs' ''client-role'' = flagValues fs1 ''client-role''"
    using applySettings_frame [OF f(1) n(1)] .
  show ?thesis
  proof (cases "s \<in> set (tl simSettings)")
    case True
    then have ne: "ssFlag s \<noteq> ssFlag (hd simSettings)" using n(1) role_setting(1) by (metis imageI)
    show ?thesis
      using applySettings_settled [OF f(1) n(2,1) True] f(3) [OF ne] stringFlag_cong [OF role] by simp
  next
    case False
    then have "s = hd simSettings" using assms(2) simSettings_split by (metis set_ConsD)
    then show ?thesis using f(2) role decide_role by (metis role_setting(1))
  qed
qed

text \<open>C28: Every sim-mode setting resolves flag over environment over file over default. A flag given on the
  command line keeps its value; otherwise a non-empty environment variable that passes its check decides,
  and one that does not refuses the start; otherwise the file's value decides, for the lookup setting
  the value for the role that finally holds; a setting no layer names keeps the flag's default, and no
  other flag is touched.
\<close>

theorem settings_precedence:
  assumes "applySimConfig T load fs rt path env = Inr r" "s \<in> set simSettings"
  defines "role \<equiv> stringFlag (smFlags r) ''client-role''"
    and "old \<equiv> flagValues fs (ssFlag s)" and "now \<equiv> flagValues (smFlags r) (ssFlag s)"
  shows "(ssFlag s \<in> set (flagsGiven fs) \<longrightarrow> now = old) \<and>
    (\<forall>ev. ssFlag s \<notin> set (flagsGiven fs) \<and> env (ssEnv s) = Some ev \<and> ev \<noteq> [] \<longrightarrow>
       envCheck s ev \<and> (\<exists>v d x. envValue s T ev = Some v \<and> old = Some d \<and> parseFlag T d v = Some x \<and> now = Some x)) \<and>
    (ssFlag s \<notin> set (flagsGiven fs) \<and> env (ssEnv s) \<in> {None, Some []} \<longrightarrow>
       (case ssValue s T (smFile r) role of
          None \<Rightarrow> now = old
        | Some v \<Rightarrow> (\<exists>d x. old = Some d \<and> parseFlag T d v = Some x \<and> now = Some x))) \<and>
    (\<forall>m. m \<notin> ssFlag ` set simSettings \<longrightarrow> flagValues (smFlags r) m = flagValues fs m)"
proof -
  from assms(1) obtain sc where sc: "applySettings T sc (flagsGiven fs) env simSettings fs = Inr (smFlags r)" "smFile r = sc"
    by (auto simp: applySimConfig_def split: sum.splits option.splits if_splits)
  note se = simSettings_settled [OF sc(1) assms(2), folded role_def old_def now_def]
  show ?thesis
    using se applySettings_frame [OF sc(1)] unfolding sc(2)
    by (auto simp: decide_def settled_def split: option.splits if_splits)
qed

text \<open>No aggregator starts half configured: when the settings pass the checks of \<open>main\<close>, the role is
  one of the two, and an aggregator runs without \<open>--csip\<close>, looks its EndDevice up instead of creating it,
  starts no DER session, and, in sim mode, has at least one managed device, whichever layer chose the role.
\<close>

theorem aggregator_start_is_coherent:
  assumes "startGate T load fs rt env = Inr (fs', r)"
  shows "stringFlag fs' ''client-role'' \<in> {''der'', ''aggregator''} \<and>
    (stringFlag fs' ''client-role'' = ''aggregator'' \<longrightarrow>
       \<not> csipFlag fs' \<and> endDeviceAcquisitionUsesLookup (csipFlag fs') (stringFlag fs' ''client-role'') \<and>
       (\<forall>selected. \<not> runDERSessionForRole (stringFlag fs' ''client-role'') selected) \<and>
       (\<forall>x. r = Some x \<longrightarrow> cfManaged (smFile x) \<noteq> [])) \<and>
    (\<forall>x. r = Some x \<longrightarrow> fs' = smFlags x \<and> (stringFlag fs' ''backend'' = ''replay'' \<longrightarrow> rsFile (smReplay x) \<noteq> []))"
proof -
  have v: "ValidateForRole (smFile x) (stringFlag (smFlags x) ''client-role'') = None"
      "stringFlag (smFlags x) ''backend'' = ''replay'' \<longrightarrow> rsFile (smReplay x) \<noteq> []"
    if "loadSimConfig T load fs rt p env = Inr (Some x)" for p x
    using that by (auto simp: loadSimConfig_def applySimConfig_def Let_def split: sum.splits option.splits if_splits)
  show ?thesis
    using assms v
    by (auto simp: startGate_def Let_def ParseRole_def RoleDER_def RoleAggregator_def derOnlyFlagUsedInAggregatorRole_def
        endDeviceAcquisitionUsesLookup_def runDERSessionForRole_def skipDERPipelineForRole_def ValidateForRole_def
        split: sum.splits option.splits if_splits)
qed

section \<open>Examples\<close>

definition demoSyntax :: flagSyntax where
  "demoSyntax = \<lparr>parseUint64 = parseUint10 64, parseInt64 = atoi, parseDuration = atoi, parseFloat64 = (\<lambda>_. None), durationString = itoa\<rparr>"

definition demoFlags :: FlagSet where
  "demoFlags = \<lparr>flagValues =
     [''client-role'' \<mapsto> FString ''der'', ''server'' \<mapsto> FString ''https://localhost:8443'', ''cert'' \<mapsto> FString [],
      ''key'' \<mapsto> FString [], ''ca'' \<mapsto> FString [], ''csip'' \<mapsto> FBool False, ''pin'' \<mapsto> FUint 0, ''backend'' \<mapsto> FString ''synthetic'',
      ''report-interval'' \<mapsto> FDuration 10000000000, ''notify-listen'' \<mapsto> FString ''127.0.0.1:0'', ''hmi-port'' \<mapsto> FInt 0,
      ''sim-config'' \<mapsto> FString ''a.json''], flagsGiven = [''sim-config'', ''server'']\<rparr>"

definition demoEnv :: "string \<Rightarrow> string option" where
  "demoEnv = [''SEP2_HMI_PORT'' \<mapsto> ''8080'', ''SEP2_SERVER'' \<mapsto> ''ignored'', ''SEP2_PIN'' \<mapsto> []]"

definition demoLoad :: "string \<Rightarrow> cfgErr + simFile" where
  "demoLoad _ = Inr (demoFile ''aggregator'' [demoManaged] 1200 3000)"

lemma code_digit [simp]: "code CHR ''0'' = 48" "code CHR ''1'' = 49" "code CHR ''8'' = 56" "code CHR ''6'' = 54"
  by (simp_all add: code_def)

lemma itoa_demo: "itoa 0 = ''0''" "itoa 60000000000 = ''60000000000''"
  by (simp_all add: itoa_def digits.simps char_of_def bit_0)

lemma demo_texts: "parseUint10 64 ''0'' = Some 0" "atoi ''8080'' = Some 8080" "atoi ''60000000000'' = Some 60000000000" "portEnv ''8080''"
  by (simp_all add: parseUint10_def atoi_def digitVal_def portEnv_def minInt64_def maxInt64_def)

lemma demo_applies:
  "\<exists>r. applySimConfig demoSyntax demoLoad demoFlags defaultRating ''a.json'' demoEnv = Inr r \<and>
     stringFlag (smFlags r) ''client-role'' = ''aggregator'' \<and> flagValues (smFlags r) ''hmi-port'' = Some (FInt 8080) \<and>
     flagValues (smFlags r) ''csip'' = Some (FBool False)"
  by (simp add: applySimConfig_def demoLoad_def simSettings_def plain_def decide_def demoFlags_def demoEnv_def stringFlag_def
      demoFile_def demoPV_def demoSynthetic_def setFlag_def demoSyntax_def oneOfEnv_def LookupFor_def setIf_def itoa_demo demo_texts
      reportText_def wrap64_def nsPerSecond_def ValidateForRole_def formatBool_def check_def)

theorem settings_precedence_witness:
  "\<exists>r. applySimConfig demoSyntax demoLoad demoFlags defaultRating ''a.json'' demoEnv = Inr r \<and>
     flagValues (smFlags r) ''server'' = Some (FString ''https://localhost:8443'')"
proof -
  obtain r where r: "applySimConfig demoSyntax demoLoad demoFlags defaultRating ''a.json'' demoEnv = Inr r"
    using demo_applies by blast
  have s: "simSettings ! 1 \<in> set simSettings" "ssFlag (simSettings ! 1) = ''server''"
    by (simp_all add: simSettings_def plain_def)
  show ?thesis
    using settings_precedence [OF r s(1)] s(2) r by (simp add: demoFlags_def)
qed

lemma demo_gate:
  "\<exists>r fs. startGate demoSyntax demoLoad demoFlags defaultRating demoEnv = Inr (fs, Some r) \<and>
     stringFlag fs ''client-role'' = ''aggregator''"
proof -
  obtain r where r: "applySimConfig demoSyntax demoLoad demoFlags defaultRating ''a.json'' demoEnv = Inr r"
    "stringFlag (smFlags r) ''client-role'' = ''aggregator''" "flagValues (smFlags r) ''csip'' = Some (FBool False)"
    using demo_applies by blast
  have p: "stringFlag demoFlags ''sim-config'' = ''a.json''" by (simp add: demoFlags_def stringFlag_def)
  show ?thesis
    by (simp add: startGate_def p loadSimConfig_def simConfigPath_def Let_def r ParseRole_def RoleAggregator_def RoleDER_def
        derOnlyFlagUsedInAggregatorRole_def csipFlag_def)
qed

theorem aggregator_start_is_coherent_witness:
  "\<exists>r fs. startGate demoSyntax demoLoad demoFlags defaultRating demoEnv = Inr (fs, Some r) \<and> \<not> csipFlag fs \<and> cfManaged (smFile r) \<noteq> []"
proof -
  obtain r fs where r: "startGate demoSyntax demoLoad demoFlags defaultRating demoEnv = Inr (fs, Some r)"
    "stringFlag fs ''client-role'' = ''aggregator''" using demo_gate by blast
  show ?thesis using aggregator_start_is_coherent [OF r(1)] r by auto
qed

text \<open>
  An interval above 9223372036 seconds passes the validation of the file and wraps to a negative
  duration when it is turned into the flag's text; the environment variable of the same setting is held to 31 bits.
\<close>

theorem report_interval_wraps:
  "validate inOrder ((demoFile ''der'' [] 1200 3000)\<lparr>cfReport := \<lparr>IntervalS = 10000000000\<rparr>\<rparr>) = None \<and>
   reportText demoSyntax 10000000000 = itoa (- 8446744073709551616)"
proof
  have "validate inOrder (demoFile ''der'' [] (Fin 1200) (Fin 3000)) = None" by (rule validate_demo) simp_all
  then show "validate inOrder ((demoFile ''der'' [] 1200 3000)\<lparr>cfReport := \<lparr>IntervalS = 10000000000\<rparr>\<rparr>) = None"
    by (simp add: validate_def firstError_None demoFile_def checkAll_None inOrder_def)
qed (simp add: reportText_def wrap64_def nsPerSecond_def demoSyntax_def)

end
