(* ===== verification/Replay.thy ===== *)
theory Replay
  imports Simulator
begin

text \<open>
  \<open>internal/inverter/device/replay.go\<close>: the backend that reports recorded GridLAB-D output. The
  file is the list of its lines; \<open>time.Parse\<close> and \<open>strconv.ParseFloat\<close> are parameters that give
  the zone, hour and minute of a timestamp and the value of a number.
\<close>

section \<open>Go integer division\<close>

text \<open>Integer division truncates towards zero and the remainder has the sign of the dividend.\<close>

definition goDiv :: "int \<Rightarrow> int \<Rightarrow> int" where
  "goDiv a b = sgn a * sgn b * (\<bar>a\<bar> div \<bar>b\<bar>)"

definition goMod :: "int \<Rightarrow> int \<Rightarrow> int" where
  "goMod a b = a - b * goDiv a b"

lemma goMod_range: "0 < b \<Longrightarrow> - b < goMod a b \<and> goMod a b < b"
proof -
  assume b: "0 < b"
  have m: "0 \<le> \<bar>a\<bar> mod b" "\<bar>a\<bar> mod b < b" using b by simp_all
  have e: "\<bar>a\<bar> = b * (\<bar>a\<bar> div b) + \<bar>a\<bar> mod b" by simp
  have "goMod a b = sgn a * (\<bar>a\<bar> mod b)"
  proof (cases a "0::int" rule: linorder_cases)
    case less
    have "- a = b * (- a div b) + (- a) mod b" by (rule mult_div_mod_eq [symmetric])
    moreover have "goMod a b = a + b * (- a div b)" "sgn a * (\<bar>a\<bar> mod b) = - ((- a) mod b)"
      using less b by (simp_all add: goMod_def goDiv_def)
    ultimately show ?thesis by linarith
  next
    case greater
    then show ?thesis using b by (simp add: goMod_def goDiv_def minus_mult_div_eq_mod)
  qed (simp add: goMod_def goDiv_def)
  moreover have "\<bar>sgn a * (\<bar>a\<bar> mod b)\<bar> < b" using m b by (simp add: abs_mult abs_sgn_eq)
  ultimately show ?thesis by (simp add: abs_less_iff)
qed

lemma goMod_nonneg: "0 \<le> a \<Longrightarrow> 0 < b \<Longrightarrow> goMod a b = a mod b"
  by (cases "a = 0") (simp_all add: goMod_def goDiv_def minus_mult_div_eq_mod)

section \<open>Configuration and state\<close>

record ReplayConfig =
  rcFile :: string
  rcType :: string
  rcClock :: string
  rcScale :: f64
  rcRatedW :: f64
  rcCapacityWh :: f64
  rcInitialSOC :: f64

record Replay =
  rcfg :: ReplayConfig
  rows :: "int \<Rightarrow> f64"
  rstart :: time
  rgrid :: GridState
  soc :: f64
  lastT :: time
  lastP :: f64

datatype replayErr = ErrNoFile | ErrType | ErrClock | ErrScale | ErrRatedW | ErrCapacity | ErrSOC
  | ErrOpen | ErrLine nat | ErrTimestamp nat | ErrValue nat | ErrZone nat | ErrTwice nat
  | ErrNoRows | ErrMissing int

definition minutesPerDay :: int where
  "minutesPerDay = 1440"

section \<open>Loading the recording\<close>

definition isSpace :: "char \<Rightarrow> bool" where
  "isSpace c \<longleftrightarrow> c \<in> set (map char_of [9::nat, 10, 11, 12, 13, 32])"

definition trimSpace :: "string \<Rightarrow> string" where
  "trimSpace s = rev (dropWhile isSpace (rev (dropWhile isSpace s)))"

text \<open>The parts before and after the last comma, if there is one.\<close>

definition splitLastComma :: "string \<Rightarrow> (string \<times> string) option" where
  "splitLastComma s =
     (if CHR '','' \<notin> set s then None
      else
        let v = rev (takeWhile (\<lambda>c. c \<noteq> CHR '','') (rev s))
        in Some (take (length s - length v - 1) s, v))"

type_synonym parseTime = "string \<Rightarrow> (string \<times> int \<times> int) option"
type_synonym parseFloat = "string \<Rightarrow> f64 option"

fun loadLines :: "parseTime \<Rightarrow> parseFloat \<Rightarrow> nat \<Rightarrow> string list \<Rightarrow> (int \<rightharpoonup> f64) \<Rightarrow> replayErr + (int \<rightharpoonup> f64)" where
  "loadLines pt pf n [] seen = Inr seen"
| "loadLines pt pf n (l # ls) seen =
     (let line = trimSpace l in
      if line = [] \<or> hd line = CHR 0x23 then loadLines pt pf (Suc n) ls seen
      else
        case splitLastComma line of
          None \<Rightarrow> Inl (ErrLine n)
        | Some (a, b) \<Rightarrow>
            (case pt (trimSpace a) of
               None \<Rightarrow> Inl (ErrTimestamp n)
             | Some (zone, h, mi) \<Rightarrow>
                 (case pf (trimSpace b) of
                    None \<Rightarrow> Inl (ErrValue n)
                  | Some v \<Rightarrow>
                      if isNaN v \<or> isInf v then Inl (ErrValue n)
                      else if zone \<noteq> ''UTC'' then Inl (ErrZone n)
                      else
                        let m = h * 60 + mi in
                        if seen m \<noteq> None then Inl (ErrTwice n)
                        else loadLines pt pf (Suc n) ls (seen(m \<mapsto> v)))))"

definition load :: "parseTime \<Rightarrow> parseFloat \<Rightarrow> string list option \<Rightarrow> replayErr + (int \<Rightarrow> f64)" where
  "load pt pf file =
     (case file of
        None \<Rightarrow> Inl ErrOpen
      | Some ls \<Rightarrow>
          (case loadLines pt pf 1 ls Map.empty of
             Inl e \<Rightarrow> Inl e
           | Inr seen \<Rightarrow>
               if (\<forall>l\<in>set ls. trimSpace l = [] \<or> hd (trimSpace l) = CHR 0x23) then Inl ErrNoRows
               else
                 case find (\<lambda>m. seen m = None) [0..minutesPerDay - 1] of
                   Some m \<Rightarrow> Inl (ErrMissing m)
                 | None \<Rightarrow> Inr (\<lambda>m. case seen m of None \<Rightarrow> 0 | Some v \<Rightarrow> v)))"

definition NewReplay :: "parseTime \<Rightarrow> parseFloat \<Rightarrow> string list option \<Rightarrow> time \<Rightarrow> ReplayConfig \<Rightarrow> replayErr + Replay" where
  "NewReplay pt pf file now cfg =
     (if rcFile cfg = [] then Inl ErrNoFile
      else if rcType cfg \<noteq> ''pv'' \<and> rcType cfg \<noteq> ''battery'' then Inl ErrType
      else if rcClock cfg \<noteq> ''wall'' \<and> rcClock cfg \<noteq> ''start'' then Inl ErrClock
      else if rcScale cfg < 0 \<or> isNaN (rcScale cfg) \<or> isInf (rcScale cfg) then Inl ErrScale
      else if rcRatedW cfg \<le> 0 then Inl ErrRatedW
      else if rcType cfg = ''battery'' \<and> rcCapacityWh cfg \<le> 0 then Inl ErrCapacity
      else if rcType cfg = ''battery'' \<and> (rcInitialSOC cfg < 0 \<or> 1 < rcInitialSOC cfg) then Inl ErrSOC
      else
        case load pt pf file of
          Inl e \<Rightarrow> Inl e
        | Inr rs \<Rightarrow> Inr \<lparr>rcfg = cfg, rows = rs, rstart = now,
            rgrid = \<lparr>VoltsPU = 0, FreqHz = 0, Time = zeroTime\<rparr>, soc = rcInitialSOC cfg, lastT = zeroTime, lastP = 0\<rparr>)"

section \<open>Reading and applying\<close>

definition minute :: "Replay \<Rightarrow> time \<Rightarrow> int" where
  "minute r now =
     (if rcClock (rcfg r) = ''start'' then
        let m = goDiv (timeSub now (rstart r)) 60000000000
        in goMod (goMod m minutesPerDay + minutesPerDay) minutesPerDay
      else hourOf now * 60 + minuteOf now)"

definition baseline :: "Replay \<Rightarrow> time \<Rightarrow> f64" where
  "baseline r now =
     (let v = rows r (minute r now) * rcScale (rcfg r)
      in if rcType (rcfg r) = ''battery'' then - v else v)"

definition replayReadState :: "Replay \<Rightarrow> time \<Rightarrow> Replay \<times> GridState \<times> f64" where
  "replayReadState r now =
     (let g = \<lparr>VoltsPU = 1, FreqHz = 60, Time = now\<rparr> in (r\<lparr>rgrid := g\<rparr>, g, baseline r now))"

definition hoursOf :: "duration \<Rightarrow> f64" where
  "hoursOf d = ofInt d div 3600000000000"

definition integrate :: "Replay \<Rightarrow> time \<Rightarrow> Replay" where
  "integrate r now =
     (if lastT r = zeroTime then r
      else
        let hours = hoursOf (timeSub now (lastT r)) in
        if hours \<le> 0 then r
        else
          let s = soc r - lastP r * hours div rcCapacityWh (rcfg r)
          in r\<lparr>soc := fmax 0 (fmin 1 s)\<rparr>)"

text \<open>The battery case: the command within the rating, not discharging when empty nor charging when full.\<close>

definition clipBattery :: "Replay \<Rightarrow> f64 \<Rightarrow> f64" where
  "clipBattery r p =
     (let p = fmax (- rcRatedW (rcfg r)) (fmin p (rcRatedW (rcfg r)))
      in if (0 < p \<and> soc r \<le> 0) \<or> (p < 0 \<and> 1 \<le> soc r) then 0 else p)"

definition achieve :: "Nameplate \<Rightarrow> Replay \<Rightarrow> time \<Rightarrow> ControlOutputs \<Rightarrow> f64 \<Rightarrow> InverterState" where
  "achieve rt r now controls p =
     ComputeOutput rt (controls\<lparr>ActivePowerW := p\<rparr>)
       (if Time (rgrid r) = zeroTime then \<lparr>VoltsPU = 1, FreqHz = 60, Time = now\<rparr> else rgrid r)"

definition replayApplySetpoint :: "Nameplate \<Rightarrow> Replay \<Rightarrow> time \<Rightarrow> ControlOutputs \<Rightarrow> Replay \<times> InverterState" where
  "replayApplySetpoint rt r now controls =
     (let p = ActivePowerW controls in
      if rcType (rcfg r) = ''pv'' then (r, achieve rt r now controls (fmax 0 (fmin p (baseline r now))))
      else if rcType (rcfg r) = ''battery'' then
        let r = integrate r now;
            st = achieve rt r now controls (clipBattery r p)
        in (r\<lparr>lastT := now, lastP := isActivePowerW st\<rparr>, st)
      else (r, achieve rt r now controls p))"

section \<open>Facts\<close>

lemma minute_range: "0 \<le> minute r now \<and> minute r now < 1440"
proof (cases "rcClock (rcfg r) = ''start''")
  case True
  define m where "m = goDiv (timeSub now (rstart r)) 60000000000"
  have "0 \<le> goMod m 1440 + 1440" using goMod_range [of 1440 m] by simp
  then have "minute r now = (goMod m 1440 + 1440) mod 1440"
    using True by (simp add: minute_def minutesPerDay_def m_def Let_def goMod_nonneg)
  then show ?thesis by simp
next
  case False
  then show ?thesis using hourOf_range [of now] minuteOf_range [of now] by (simp add: minute_def)
qed

lemma loadLines_finite:
  "loadLines pt pf n ls seen = Inr seen' \<Longrightarrow> (\<forall>m v. seen m = Some v \<longrightarrow> isFin v) \<Longrightarrow>
     (\<forall>m v. seen' m = Some v \<longrightarrow> isFin v)"
proof (induction ls arbitrary: n seen)
  case Nil
  then show ?case by simp
next
  case (Cons l ls)
  have "\<exists>seen1. loadLines pt pf (Suc n) ls seen1 = Inr seen' \<and> (seen1 = seen \<or> (\<exists>m v. seen1 = seen(m \<mapsto> v) \<and> isFin v))"
    using Cons.prems(1) by (fastforce simp: Let_def isFin_iff split: if_splits option.splits prod.splits)
  then obtain seen1 where r: "loadLines pt pf (Suc n) ls seen1 = Inr seen'"
    "seen1 = seen \<or> (\<exists>m v. seen1 = seen(m \<mapsto> v) \<and> isFin v)" by blast
  have "\<forall>m v. seen1 m = Some v \<longrightarrow> isFin v" using r(2) Cons.prems(2) by (auto split: if_splits)
  from Cons.IH [OF r(1) this] show ?case .
qed

lemma load_complete:
  assumes "load pt pf file = Inr rs"
  shows "isFin (rs m)"
proof -
  from assms obtain ls seen where s: "loadLines pt pf 1 ls Map.empty = Inr seen"
    "rs = (\<lambda>m. case seen m of None \<Rightarrow> 0 | Some v \<Rightarrow> v)"
    by (auto simp: load_def split: option.splits sum.splits if_splits)
  from loadLines_finite [OF s(1)] show ?thesis by (auto simp: s(2) split: option.split)
qed

lemma load_seen:
  assumes "load pt pf file = Inr rs" "0 \<le> m" "m < 1440"
  shows "\<exists>ls seen v. file = Some ls \<and> loadLines pt pf 1 ls Map.empty = Inr seen \<and> seen m = Some v \<and> rs m = v"
proof -
  from assms obtain ls seen where s: "file = Some ls" "loadLines pt pf 1 ls Map.empty = Inr seen"
    "rs = (\<lambda>m. case seen m of None \<Rightarrow> 0 | Some v \<Rightarrow> v)" "find (\<lambda>m. seen m = None) [0..minutesPerDay - 1] = None"
    by (auto simp: load_def split: option.splits sum.splits if_splits)
  have "m \<in> set [0..minutesPerDay - 1]" using assms by (simp add: minutesPerDay_def)
  then obtain v where "seen m = Some v" using s(4) by (auto simp: find_None_iff)
  with s show ?thesis by auto
qed

text \<open>A battery's state: its charge is a fraction and its last power a finite number.\<close>

definition battery_ok :: "Replay \<Rightarrow> real \<Rightarrow> bool" where
  "battery_ok r w \<longleftrightarrow> rcType (rcfg r) = ''battery'' \<and> rcRatedW (rcfg r) = Fin w \<and> 0 < w \<and>
     (\<exists>c. rcCapacityWh (rcfg r) = Fin c \<and> 0 < c) \<and> (\<exists>s. soc r = Fin s \<and> 0 \<le> s \<and> s \<le> 1) \<and> isFin (lastP r)"

lemma integrate_ok:
  assumes "battery_ok r w"
  shows "battery_ok (integrate r now) w" "rgrid (integrate r now) = rgrid r"
proof -
  obtain c s l where c: "rcCapacityWh (rcfg r) = Fin c" "0 < c" "soc r = Fin s" "lastP r = Fin l"
    using assms by (auto simp: battery_ok_def elim: isFinE)
  then have "\<exists>s'. soc (integrate r now) = Fin s' \<and> 0 \<le> s' \<and> s' \<le> 1"
    using assms by (auto simp: integrate_def battery_ok_def hoursOf_def Let_def)
  then show "battery_ok (integrate r now) w" "rgrid (integrate r now) = rgrid r"
    using assms by (auto simp: battery_ok_def integrate_def Let_def)
qed

lemma clipBattery_Fin:
  assumes "battery_ok r w" "soc r = Fin s"
  shows "clipBattery r (Fin p) =
    Fin (if (0 < max (- w) (min p w) \<and> s = 0) \<or> (max (- w) (min p w) < 0 \<and> s = 1) then 0 else max (- w) (min p w))"
proof -
  have "0 \<le> s" "s \<le> 1" "rcRatedW (rcfg r) = Fin w" using assms by (auto simp: battery_ok_def)
  then show ?thesis using assms(2) by (simp add: clipBattery_def Let_def)
qed

lemma battery_apply:
  "battery_ok r w \<Longrightarrow> replayApplySetpoint rt r now c =
     (let r1 = integrate r now; st = achieve rt r1 now c (clipBattery r1 (ActivePowerW c))
      in (r1\<lparr>lastT := now, lastP := isActivePowerW st\<rparr>, st))"
  by (simp add: replayApplySetpoint_def battery_ok_def Let_def)

lemma ComputeOutput_power:
  assumes "rating_ok rt w va var" "ActivePowerW c = Fin p" "ReactivePowerVAr c = Fin q"
    and "Connected c" "Energized c"
  shows "isFin (isActivePowerW (ComputeOutput rt c g))"
    and "\<bar>p\<bar> \<le> va \<Longrightarrow> isActivePowerW (ComputeOutput rt c g) = Fin p"
    and "va < \<bar>p\<bar> \<Longrightarrow> isActivePowerW (ComputeOutput rt c g) = Fin va"
proof -
  have rt: "RatedVA rt = Fin va" "0 \<le> va" using assms(1) by (simp_all add: rating_ok_def)
  obtain p' q' where e: "EnforceVALimit rt (Fin p) (Fin q) = (Fin p', Fin q')" using EnforceVALimit_Fin [OF rt] by blast
  then have o: "isActivePowerW (ComputeOutput rt c g) = Fin p'" using assms by (simp add: ComputeOutput_def)
  then show "isFin (isActivePowerW (ComputeOutput rt c g))" by simp
  show "\<bar>p\<bar> \<le> va \<Longrightarrow> isActivePowerW (ComputeOutput rt c g) = Fin p"
    "va < \<bar>p\<bar> \<Longrightarrow> isActivePowerW (ComputeOutput rt c g) = Fin va"
    using EnforceVALimit_bounded [OF rt e] o by auto
qed

section \<open>Properties\<close>

text \<open>A recording that loads covers the whole day with numbers: at every instant the row the device
  reports is one of the 1440, it was read from a line of the file, and it is neither NaN nor infinite,
  so no gap is ever reported as zero.\<close>

theorem replay_covers_day:
  assumes "NewReplay pt pf file now cfg = Inr r"
  shows "0 \<le> minute r t \<and> minute r t < 1440 \<and> isFin (rows r (minute r t)) \<and> isFin (baseline r t) \<and>
    (\<exists>ls seen v. file = Some ls \<and> loadLines pt pf 1 ls Map.empty = Inr seen \<and> seen (minute r t) = Some v \<and>
       rows r (minute r t) = v)"
proof -
  obtain rs where l: "load pt pf file = Inr rs" "rows r = rs" "rcfg r = cfg" "isFin (rcScale cfg)"
    using assms by (auto simp: NewReplay_def isFin_iff split: if_splits sum.splits)
  have f: "isFin (rows r (minute r t))" using load_complete [OF l(1)] l(2) by simp
  then obtain a b where "rows r (minute r t) = Fin a" "rcScale (rcfg r) = Fin b" using l(3,4) by (metis isFinE)
  then have "isFin (baseline r t)" by (simp add: baseline_def Let_def)
  with f minute_range [of r t] load_seen [OF l(1), of "minute r t"] l(2) show ?thesis by metis
qed

text \<open>The recording of the example has 1440 lines, of which the timestamps are told apart by length.\<close>

definition demoLine :: "nat \<Rightarrow> string" where
  "demoLine m = replicate m CHR ''x'' @ '',1''"

definition demoParseTime :: parseTime where
  "demoParseTime s = Some (''UTC'', int (length s) div 60, int (length s) mod 60)"

definition demoParseFloat :: parseFloat where
  "demoParseFloat s = (if s = ''1'' then Some 1 else None)"

definition demoReplayConfig :: ReplayConfig where
  "demoReplayConfig = \<lparr>rcFile = ''f'', rcType = ''pv'', rcClock = ''wall'', rcScale = 1, rcRatedW = 10000,
     rcCapacityWh = 0, rcInitialSOC = 0\<rparr>"

lemma isSpace_simps [simp]: "\<not> isSpace CHR ''x''" "\<not> isSpace CHR '',''" "\<not> isSpace CHR ''1''"
  by code_simp+

lemma dropWhile_x: "dropWhile isSpace (replicate m CHR ''x'' @ xs) = (if m = 0 then dropWhile isSpace xs else replicate m CHR ''x'' @ xs)"
  by (cases m) simp_all

lemma trim_line: "trimSpace (demoLine m) = demoLine m"
  by (simp add: trimSpace_def demoLine_def dropWhile_x)

lemma trim_x: "trimSpace (replicate m CHR ''x'') = replicate m CHR ''x''"
proof -
  have "dropWhile isSpace (replicate m CHR ''x'') = replicate m CHR ''x''" by (simp add: dropWhile_eq_self_iff)
  then show ?thesis by (simp add: trimSpace_def)
qed

lemma demoLine_props: "demoLine m \<noteq> []" "hd (demoLine m) \<noteq> CHR 0x23" "splitLastComma (demoLine m) = Some (replicate m CHR ''x'', ''1'')"
  by (cases m; simp add: demoLine_def splitLastComma_def)+

lemma loadLines_demo:
  "distinct ms \<Longrightarrow> (\<And>m. m \<in> set ms \<Longrightarrow> seen (int m) = None) \<Longrightarrow>
     loadLines demoParseTime demoParseFloat n (map demoLine ms) seen =
       Inr (\<lambda>k. if k \<in> int ` set ms then Some 1 else seen k)"
proof (induction ms arbitrary: n seen)
  case Nil
  then show ?case by simp
next
  case (Cons m ms)
  have "trimSpace ''1'' = ''1''" by (simp add: trimSpace_def)
  moreover have "int m div 60 * 60 + int m mod 60 = int m" by simp
  ultimately have "loadLines demoParseTime demoParseFloat n (map demoLine (m # ms)) seen =
      loadLines demoParseTime demoParseFloat (Suc n) (map demoLine ms) (seen(int m \<mapsto> 1))"
    using Cons.prems(2) [of m]
    by (simp add: trim_line demoLine_props trim_x demoParseTime_def demoParseFloat_def)
  also have "\<dots> = Inr (\<lambda>k. if k \<in> int ` set ms then Some 1 else (seen(int m \<mapsto> 1)) k)"
    using Cons.prems by (intro Cons.IH) auto
  also have "\<dots> = Inr (\<lambda>k. if k \<in> int ` set (m # ms) then Some 1 else seen k)" by (auto simp: fun_eq_iff)
  finally show ?case .
qed

lemma demo_loads: "\<exists>r. NewReplay demoParseTime demoParseFloat (Some (map demoLine [0..<1440])) 0 demoReplayConfig = Inr r"
proof -
  have l: "loadLines demoParseTime demoParseFloat 1 (map demoLine [0..<1440]) Map.empty =
      Inr (\<lambda>k. if k \<in> int ` set [0..<1440] then Some 1 else None)"
    by (intro loadLines_demo) simp_all
  have "m \<in> int ` {0..<1440}" if "0 \<le> m" "m \<le> 1439" for m :: int
    using that by (intro image_eqI [of _ _ "nat m"]) auto
  then have "find (\<lambda>m. (if m \<in> int ` set [0..<1440] then Some (1::f64) else None) = None) [0..minutesPerDay - 1] = None"
    by (auto simp: find_None_iff minutesPerDay_def)
  moreover have "demoLine 0 \<in> set (map demoLine [0..<1440])" by simp
  then have "\<not> (\<forall>l\<in>set (map demoLine [0..<1440]). trimSpace l = [] \<or> hd (trimSpace l) = CHR 0x23)"
    using demoLine_props trim_line by metis
  ultimately have "\<exists>rs. load demoParseTime demoParseFloat (Some (map demoLine [0..<1440])) = Inr rs"
    unfolding load_def option.case l sum.case by simp
  then show ?thesis by (auto simp: NewReplay_def demoReplayConfig_def)
qed

theorem replay_covers_day_witness:
  "\<exists>r. NewReplay demoParseTime demoParseFloat (Some (map demoLine [0..<1440])) 0 demoReplayConfig = Inr r \<and>
     isFin (rows r (minute r 0))"
proof -
  obtain r where r: "NewReplay demoParseTime demoParseFloat (Some (map demoLine [0..<1440])) 0 demoReplayConfig = Inr r"
    using demo_loads by blast
  from replay_covers_day [OF r] r show ?thesis by blast
qed

text \<open>C8: A battery inside the nameplate obeys its command within its rating and its charge: the
  reported power is the command clipped to the rated power, except that an empty battery does not
  discharge and a full one does not charge, and the state of charge stays between zero and one.\<close>

theorem battery_within_limits:
  assumes "battery_ok r w" "rating_ok rt rw va var" "w \<le> va"
    and "ActivePowerW c = Fin p" "ReactivePowerVAr c = Fin q" "Connected c" "Energized c"
    and "replayApplySetpoint rt r now c = (r', st)"
  shows "\<exists>p' s. isActivePowerW st = Fin p' \<and> \<bar>p'\<bar> \<le> w \<and> soc r' = Fin s \<and> 0 \<le> s \<and> s \<le> 1 \<and>
    battery_ok r' w \<and> (p' = max (- w) (min p w) \<or> p' = 0 \<and> (s = 0 \<and> 0 < p \<or> s = 1 \<and> p < 0)) \<and>
    (s = 0 \<longrightarrow> p' \<le> 0) \<and> (s = 1 \<longrightarrow> 0 \<le> p')"
proof -
  define r1 where "r1 = integrate r now"
  have i: "battery_ok r1 w" unfolding r1_def by (rule integrate_ok(1) [OF assms(1)])
  obtain s where s: "soc r1 = Fin s" "0 \<le> s" "s \<le> 1" using i by (auto simp: battery_ok_def)
  have w: "0 < w" using assms(1) by (simp add: battery_ok_def)
  define p1 where "p1 = (if (0 < max (- w) (min p w) \<and> s = 0) \<or> (max (- w) (min p w) < 0 \<and> s = 1)
    then 0 else max (- w) (min p w))"
  have clip: "clipBattery r1 (ActivePowerW c) = Fin p1" using clipBattery_Fin [OF i s(1), of p] assms(4) by (simp add: p1_def)
  have b: "\<bar>p1\<bar> \<le> w" using w by (auto simp: p1_def)
  have "isActivePowerW (achieve rt r1 now c (Fin p1)) = Fin p1"
    unfolding achieve_def by (rule ComputeOutput_power(2) [OF assms(2)]) (use assms b in auto)
  then have st: "isActivePowerW st = Fin p1" "r' = r1\<lparr>lastT := now, lastP := Fin p1\<rparr>"
    using battery_apply [OF assms(1), of rt now c] assms(8) clip by (auto simp: Let_def r1_def)
  then have "soc r' = Fin s" "battery_ok r' w" using i s by (auto simp: battery_ok_def)
  moreover have "(p1 = max (- w) (min p w) \<or> p1 = 0 \<and> (s = 0 \<and> 0 < p \<or> s = 1 \<and> p < 0)) \<and>
      (s = 0 \<longrightarrow> p1 \<le> 0) \<and> (s = 1 \<longrightarrow> 0 \<le> p1)"
    using w by (auto simp: p1_def min_def max_def split: if_splits)
  ultimately show ?thesis using st(1) b s by blast
qed

definition demoBattery :: "real \<Rightarrow> real \<Rightarrow> Replay" where
  "demoBattery w s = \<lparr>rcfg = \<lparr>rcFile = ''f'', rcType = ''battery'', rcClock = ''wall'', rcScale = 1, rcRatedW = Fin w,
       rcCapacityWh = 10000, rcInitialSOC = Fin s\<rparr>,
     rows = (\<lambda>_. 0), rstart = 0, rgrid = \<lparr>VoltsPU = 1, FreqHz = 60, Time = 0\<rparr>, soc = Fin s, lastT = zeroTime, lastP = 0\<rparr>"

definition demoControls :: "real \<Rightarrow> ControlOutputs" where
  "demoControls p = zeroOutputs\<lparr>ActivePowerW := Fin p, Connected := True, Energized := True\<rparr>"

lemma demoBattery_ok: "0 < w \<Longrightarrow> 0 \<le> s \<Longrightarrow> s \<le> 1 \<Longrightarrow> battery_ok (demoBattery w s) w"
  by (simp add: battery_ok_def demoBattery_def)

lemma demoControls_simps [simp]: "ActivePowerW (demoControls p) = Fin p" "ReactivePowerVAr (demoControls p) = Fin 0"
  "Connected (demoControls p)" "Energized (demoControls p)"
  by (simp_all add: demoControls_def zeroOutputs_def)

theorem battery_within_limits_witness:
  "\<exists>p'. isActivePowerW (snd (replayApplySetpoint defaultRating (demoBattery 5000 0.5) 0 (demoControls (- 8000)))) = Fin p' \<and>
     \<bar>p'\<bar> \<le> 5000"
proof -
  obtain r' st where a: "replayApplySetpoint defaultRating (demoBattery 5000 0.5) 0 (demoControls (- 8000)) = (r', st)"
    by fastforce
  have "battery_ok (demoBattery 5000 0.5) 5000" by (rule demoBattery_ok) simp_all
  from battery_within_limits [OF this rating_ok_default _ _ _ _ _ a] a show ?thesis by auto
qed

text \<open>A battery whose rated power is above the VA rating of the process (the sim config allows any
  rated power for a managed device, while the VA rating is that of the aggregator's own device) reports
  a charge above that rating as a discharge at the full rating, and its state of charge then falls.\<close>

theorem battery_charge_reported_as_discharge:
  assumes "battery_ok r w" "rating_ok rt rw va var" "va < w" "0 < va"
    and "ActivePowerW c = Fin p" "p < - va" "ReactivePowerVAr c = Fin q" "Connected c" "Energized c"
    and "soc (integrate r now) \<noteq> Fin 1" "replayApplySetpoint rt r now c = (r', st)"
  shows "isActivePowerW st = Fin va \<and> lastP r' = Fin va \<and>
    (now \<noteq> zeroTime \<and> now < later \<and> later - now \<le> maxInt64 \<and> soc r' = Fin s \<longrightarrow>
       soc (integrate r' later) = Fin 0 \<or> (\<exists>s'. soc (integrate r' later) = Fin s' \<and> s' < s))"
proof -
  define r1 where "r1 = integrate r now"
  have i: "battery_ok r1 w" unfolding r1_def by (rule integrate_ok(1) [OF assms(1)])
  obtain s0 where s0: "soc r1 = Fin s0" "s0 \<noteq> 1" using i assms(10) by (auto simp: battery_ok_def r1_def)
  have clip: "clipBattery r1 (ActivePowerW c) = Fin (max (- w) (min p w))"
    using clipBattery_Fin [OF i s0(1), of p] s0(2) assms(3-6) by auto
  have big: "va < \<bar>max (- w) (min p w)\<bar>" using assms(3,4,6) by auto
  have "isActivePowerW (achieve rt r1 now c (Fin (max (- w) (min p w)))) = Fin va"
    unfolding achieve_def by (rule ComputeOutput_power(3) [OF assms(2), of _ _ q, OF _ _ _ _ big]) (use assms in auto)
  then have st: "isActivePowerW st = Fin va" "r' = r1\<lparr>lastT := now, lastP := Fin va\<rparr>"
    using battery_apply [OF assms(1), of rt now c] assms(11) clip by (auto simp: Let_def r1_def)
  obtain cap where cap: "rcCapacityWh (rcfg r1) = Fin cap" "0 < cap" using i by (auto simp: battery_ok_def)
  have "soc (integrate r' later) = Fin 0 \<or> (\<exists>s'. soc (integrate r' later) = Fin s' \<and> s' < s)"
    if h: "now \<noteq> zeroTime" "now < later" "later - now \<le> maxInt64" "soc r' = Fin s"
  proof -
    define hrs where "hrs = real_of_int (later - now) / 3600000000000"
    have t: "timeSub later now = later - now" using h by (intro timeSub_id) simp
    have hrs: "0 < hrs" using h(2) by (simp add: hrs_def)
    have e: "soc (integrate r' later) = Fin (max 0 (min 1 (s - va * hrs / cap)))"
      using h st(2) cap hrs t by (simp add: integrate_def hoursOf_def Let_def hrs_def not_le)
    have "0 < va * hrs / cap" using assms(4) hrs cap by simp
    then have "s - va * hrs / cap < s" by simp
    then show ?thesis unfolding e by (auto simp: max_def min_def)
  qed
  then show ?thesis using st by (intro conjI impI) (simp, simp, blast)
qed

theorem battery_charge_reported_as_discharge_witness:
  "isActivePowerW (snd (replayApplySetpoint defaultRating (demoBattery 50000 0.5) 0 (demoControls (- 20000)))) = Fin 11100"
proof -
  obtain r' st where a: "replayApplySetpoint defaultRating (demoBattery 50000 0.5) 0 (demoControls (- 20000)) = (r', st)"
    by fastforce
  have "battery_ok (demoBattery 50000 0.5) 50000" by (rule demoBattery_ok) simp_all
  moreover have "soc (integrate (demoBattery 50000 0.5) 0) \<noteq> Fin 1" by (simp add: integrate_def demoBattery_def)
  ultimately show ?thesis
    using battery_charge_reported_as_discharge [OF _ rating_ok_default _ _ _ _ _ _ _ _ a] a by auto
qed

end
