(* ===== verification/Scenarios.thy ===== *)
theory Scenarios
  imports Simulator
begin

text \<open>
  \<open>internal/inverter/scenario.go\<close>, the table of test scenarios, and
  \<open>internal/inverter/device/synthetic.go\<close>, the backend that walks one. The grid of a step is the
  pair of its voltage and frequency; the description is logged only. Arrows in the descriptions are
  written in ASCII.
\<close>

section \<open>The scenarios\<close>

record ScenarioStep =
  AtTime :: duration
  stepGrid :: "(f64 \<times> f64) option"
  stepDescription :: string

record Scenario =
  scName :: string
  scDescription :: string
  scDuration :: duration
  Steps :: "ScenarioStep list"

abbreviation scStep :: "duration \<Rightarrow> (f64 \<times> f64) option \<Rightarrow> string \<Rightarrow> ScenarioStep" where
  "scStep t g d \<equiv> \<lparr>AtTime = t, stepGrid = g, stepDescription = d\<rparr>"

definition NormalScenario :: Scenario where
  "NormalScenario = \<lparr>scName = ''normal'',
     scDescription = ''Sunny day, stable grid, PF=1.0, periodic metering'', scDuration = 86400000000000,
     Steps =
       [scStep 0 (Some (Fin 1.0, Fin 60.0)) ''stable grid'']\<rparr>"

definition VoltVarScenario :: Scenario where
  "VoltVarScenario = \<lparr>scName = ''voltvar'',
     scDescription = ''Voltage rises to 1.05-1.08 p.u., triggering var absorption'', scDuration = 3600000000000,
     Steps =
       [scStep 0 (Some (Fin 1.0, Fin 60.0)) ''normal voltage'',
        scStep 600000000000 (Some (Fin 1.03, Fin 60.0)) ''voltage rising'',
        scStep 1200000000000 (Some (Fin 1.05, Fin 60.0)) ''voltage at 1.05 p.u. : absorbing vars'',
        scStep 1800000000000 (Some (Fin 1.08, Fin 60.0)) ''voltage at 1.08 p.u. : full var absorption'',
        scStep 2400000000000 (Some (Fin 1.03, Fin 60.0)) ''voltage decreasing'',
        scStep 3000000000000 (Some (Fin 1.0, Fin 60.0)) ''voltage normal'']\<rparr>"

definition PowerLimitScenario :: Scenario where
  "PowerLimitScenario = \<lparr>scName = ''powerlimit'',
     scDescription = ''Server sends opModMaxLimW=5000W, inverter curtails'', scDuration = 1800000000000,
     Steps =
       [scStep 0 (Some (Fin 1.0, Fin 60.0)) ''normal operation at 10kW'',
        scStep 300000000000 None ''server sends maxLimW=5000 (apply via DER control poll)'',
        scStep 1200000000000 None ''server removes limit'']\<rparr>"

definition DisconnectScenario :: Scenario where
  "DisconnectScenario = \<lparr>scName = ''disconnect'',
     scDescription = ''Server sends opModConnect=false, then re-enables'', scDuration = 1800000000000,
     Steps =
       [scStep 0 (Some (Fin 1.0, Fin 60.0)) ''normal operation'',
        scStep 300000000000 None ''server sends connect=false : cease to energize'',
        scStep 900000000000 None ''server sends connect=true : reconnect'']\<rparr>"

definition FreqDroopScenario :: Scenario where
  "FreqDroopScenario = \<lparr>scName = ''freqdroop'',
     scDescription = ''Frequency drops below nominal, inverter adjusts power via droop'', scDuration = 1800000000000,
     Steps =
       [scStep 0 (Some (Fin 1.0, Fin 60.0)) ''normal frequency'',
        scStep 300000000000 (Some (Fin 1.0, Fin 59.5)) ''frequency dropping'',
        scStep 600000000000 (Some (Fin 1.0, Fin 58.5)) ''frequency at 58.5 Hz : droop active'',
        scStep 1200000000000 (Some (Fin 1.0, Fin 60.0)) ''frequency recovered'']\<rparr>"

definition VoltageRideScenario :: Scenario where
  "VoltageRideScenario = \<lparr>scName = ''voltageride'',
     scDescription = ''Voltage sag to 0.7 p.u. (ride-through), then 0.45 p.u. (trip)'', scDuration = 900000000000,
     Steps =
       [scStep 0 (Some (Fin 1.0, Fin 60.0)) ''normal'',
        scStep 120000000000 (Some (Fin 0.70, Fin 60.0)) ''voltage sag : ride through'',
        scStep 125000000000 (Some (Fin 1.0, Fin 60.0)) ''voltage recovered'',
        scStep 300000000000 (Some (Fin 0.45, Fin 60.0)) ''deep sag : must trip'',
        scStep 300200000000 (Some (Fin 1.0, Fin 60.0)) ''voltage restored (wait 300s to reconnect)'']\<rparr>"

definition EnterServiceScenario :: Scenario where
  "EnterServiceScenario = \<lparr>scName = ''enterservice'',
     scDescription = ''Inverter starts with low voltage, waits for Table 4 criteria'', scDuration = 900000000000,
     Steps =
       [scStep 0 (Some (Fin 0.85, Fin 60.0)) ''low voltage : cannot enter service'',
        scStep 180000000000 (Some (Fin 0.95, Fin 60.0)) ''voltage normal : start 300s timer'',
        scStep 481000000000 None ''300s elapsed : enter service'']\<rparr>"

definition LifecycleScenario :: Scenario where
  "LifecycleScenario = \<lparr>scName = ''lifecycle'',
     scDescription = ''Full lifecycle: register -> setup -> control -> metering -> disconnect -> reconnect'', scDuration = 3600000000000,
     Steps =
       [scStep 0 (Some (Fin 1.0, Fin 60.0)) ''startup and registration'',
        scStep 300000000000 None ''DER setup (PUT capability/settings)'',
        scStep 600000000000 (Some (Fin 1.05, Fin 60.0)) ''voltage rise : volt-var active'',
        scStep 1200000000000 (Some (Fin 1.0, Fin 60.0)) ''voltage normal'',
        scStep 1500000000000 None ''power limit to 5kW'',
        scStep 2100000000000 None ''remove power limit'',
        scStep 2400000000000 None ''disconnect command'',
        scStep 3000000000000 None ''reconnect command'']\<rparr>"

definition AllScenarios :: "(string \<times> Scenario) list" where
  "AllScenarios =
    [(''normal'', NormalScenario),
     (''voltvar'', VoltVarScenario),
     (''powerlimit'', PowerLimitScenario),
     (''disconnect'', DisconnectScenario),
     (''freqdroop'', FreqDroopScenario),
     (''voltageride'', VoltageRideScenario),
     (''enterservice'', EnterServiceScenario),
     (''lifecycle'', LifecycleScenario)]"

section \<open>The synthetic backend\<close>

record Synthetic =
  scenario :: Scenario
  simStart :: time
  simTime :: time
  stepIdx :: nat
  sgrid :: GridState
  timeScale :: f64
  tick :: duration

text \<open>Six in the morning of the 21st of June 2024, UTC.\<close>

definition sunrise :: time where
  "sunrise = 1718949600000000000"

definition NewSynthetic :: "Scenario \<Rightarrow> duration \<Rightarrow> f64 \<Rightarrow> Synthetic" where
  "NewSynthetic sc tickInterval scale =
     \<lparr>scenario = sc, simStart = sunrise, simTime = sunrise, stepIdx = 0,
      sgrid = \<lparr>VoltsPU = 1, FreqHz = 60, Time = sunrise\<rparr>, timeScale = scale, tick = tickInterval\<rparr>"

definition applyStep :: "GridState \<Rightarrow> ScenarioStep \<Rightarrow> GridState" where
  "applyStep g st = (case stepGrid st of None \<Rightarrow> g | Some (v, f) \<Rightarrow> g\<lparr>VoltsPU := v, FreqHz := f\<rparr>)"

text \<open>The loop over the steps that have come due.\<close>

function walkSteps :: "ScenarioStep list \<Rightarrow> duration \<Rightarrow> nat \<Rightarrow> GridState \<Rightarrow> nat \<times> GridState" where
  "walkSteps steps elapsed idx g =
     (if idx < length steps \<and> AtTime (steps ! idx) \<le> elapsed
      then walkSteps steps elapsed (Suc idx) (applyStep g (steps ! idx))
      else (idx, g))"
  by pat_completeness auto
termination by (relation "measure (\<lambda>(steps, _, idx, _). length steps - idx)") auto

declare walkSteps.simps [simp del]

definition simDelta :: "Synthetic \<Rightarrow> duration" where
  "simDelta s = toInt64 (ofInt (tick s) * timeScale s)"

definition syntheticReadState :: "Nameplate \<Rightarrow> Synthetic \<Rightarrow> Synthetic \<times> GridState \<times> f64 \<times> f64" where
  "syntheticReadState rt s =
     (let t = simTime s + simDelta s;
          s = s\<lparr>simTime := t, sgrid := (sgrid s)\<lparr>Time := t\<rparr>\<rparr>;
          (idx, g) = walkSteps (Steps (scenario s)) (timeSub t (simStart s)) (stepIdx s) (sgrid s);
          s = s\<lparr>stepIdx := idx, sgrid := g\<rparr>;
          irr = Irradiance t
      in (s, g, MaxPowerW rt irr, irr))"

definition syntheticApplySetpoint :: "Nameplate \<Rightarrow> Synthetic \<Rightarrow> ControlOutputs \<Rightarrow> InverterState" where
  "syntheticApplySetpoint rt s controls = ComputeOutput rt controls (sgrid s)"

definition ScenarioDone :: "Synthetic \<Rightarrow> bool" where
  "ScenarioDone s \<longleftrightarrow> scDuration (scenario s) \<le> timeSub (simTime s) (simStart s)"

section \<open>Facts about the walk\<close>

text \<open>The reference: the grid after all the steps that have come due.\<close>

definition gridAt :: "ScenarioStep list \<Rightarrow> duration \<Rightarrow> GridState \<Rightarrow> GridState" where
  "gridAt steps elapsed g = foldl applyStep g (takeWhile (\<lambda>st. AtTime st \<le> elapsed) steps)"

definition dueSteps :: "ScenarioStep list \<Rightarrow> duration \<Rightarrow> nat" where
  "dueSteps steps elapsed = length (takeWhile (\<lambda>st. AtTime st \<le> elapsed) steps)"

lemma dueSteps_le: "dueSteps steps elapsed \<le> length steps"
  by (simp add: dueSteps_def length_takeWhile_le)

lemma dueSteps_nth: "idx < dueSteps steps elapsed \<Longrightarrow> AtTime (steps ! idx) \<le> elapsed"
  unfolding dueSteps_def by (metis nth_mem set_takeWhileD takeWhile_nth)

lemma dueSteps_end: "dueSteps steps elapsed < length steps \<Longrightarrow> \<not> AtTime (steps ! dueSteps steps elapsed) \<le> elapsed"
  unfolding dueSteps_def by (rule nth_length_takeWhile)

lemma walkSteps_eq:
  "idx \<le> dueSteps steps elapsed \<Longrightarrow> walkSteps steps elapsed idx g =
     (dueSteps steps elapsed, foldl applyStep g (drop idx (take (dueSteps steps elapsed) steps)))"
proof (induction steps elapsed idx g rule: walkSteps.induct)
  case (1 steps elapsed idx g)
  let ?d = "dueSteps steps elapsed"
  show ?case
  proof (cases "idx < ?d")
    case True
    then have l: "idx < length steps" "AtTime (steps ! idx) \<le> elapsed"
      using dueSteps_le [of steps elapsed] dueSteps_nth by auto
    have "drop idx (take ?d steps) = steps ! idx # drop (Suc idx) (take ?d steps)"
      using True l by (simp add: Cons_nth_drop_Suc [symmetric])
    then show ?thesis using "1.IH" l True by (subst walkSteps.simps) simp
  next
    case False
    then have "idx = ?d" using "1.prems" by simp
    then have "\<not> (idx < length steps \<and> AtTime (steps ! idx) \<le> elapsed)" using dueSteps_end by blast
    then show ?thesis using \<open>idx = ?d\<close> by (subst walkSteps.simps) auto
  qed
qed

lemma dueSteps_mono:
  assumes "e1 \<le> e2"
  shows "dueSteps steps e1 \<le> dueSteps steps e2"
  unfolding dueSteps_def using assms by (induction steps) auto

lemma take_dueSteps: "take (dueSteps steps e) steps = takeWhile (\<lambda>st. AtTime st \<le> e) steps"
  by (simp add: dueSteps_def takeWhile_eq_take [symmetric])

lemma gridAt_split:
  "e1 \<le> e2 \<Longrightarrow> gridAt steps e2 g = foldl applyStep (gridAt steps e1 g) (drop (dueSteps steps e1) (take (dueSteps steps e2) steps))"
proof -
  assume le: "e1 \<le> e2"
  have "take (dueSteps steps e1) (take (dueSteps steps e2) steps) = take (dueSteps steps e1) steps"
    using dueSteps_mono [OF le] by (simp add: min_absorb1)
  then have "take (dueSteps steps e2) steps = take (dueSteps steps e1) steps @ drop (dueSteps steps e1) (take (dueSteps steps e2) steps)"
    by (metis append_take_drop_id)
  then show ?thesis unfolding gridAt_def take_dueSteps [symmetric] by (metis foldl_append)
qed

lemma applyStep_Time: "applyStep (g\<lparr>Time := t\<rparr>) st = (applyStep g st)\<lparr>Time := t\<rparr>"
  by (simp add: applyStep_def split: option.split)

lemma foldl_applyStep_Time: "foldl applyStep (g\<lparr>Time := t\<rparr>) sts = (foldl applyStep g sts)\<lparr>Time := t\<rparr>"
  by (induction sts arbitrary: g) (simp_all add: applyStep_Time)

fun readN :: "Nameplate \<Rightarrow> nat \<Rightarrow> Synthetic \<Rightarrow> Synthetic" where
  "readN rt 0 s = s"
| "readN rt (Suc n) s = readN rt n (fst (syntheticReadState rt s))"

lemma readN_Suc: "readN rt (Suc n) s = fst (syntheticReadState rt (readN rt n s))"
  by (induction n arbitrary: s) simp_all

lemma timeSub_mono: "a \<le> b \<Longrightarrow> timeSub a c \<le> timeSub b c"
  by (auto simp: timeSub_def)

lemma read_step:
  assumes "simTime s + simDelta s = t" "stepIdx s \<le> dueSteps (Steps (scenario s)) (timeSub t (simStart s))"
  shows "fst (syntheticReadState rt s) = s\<lparr>simTime := t, stepIdx := dueSteps (Steps (scenario s)) (timeSub t (simStart s)),
    sgrid := (foldl applyStep (sgrid s) (drop (stepIdx s) (take (dueSteps (Steps (scenario s)) (timeSub t (simStart s))) (Steps (scenario s)))))
      \<lparr>Time := t\<rparr>\<rparr>"
  using assms by (simp add: syntheticReadState_def walkSteps_eq foldl_applyStep_Time Let_def simDelta_def)

text \<open>The state after a number of reads, in closed form.\<close>

definition readState :: "Scenario \<Rightarrow> duration \<Rightarrow> f64 \<Rightarrow> time \<Rightarrow> Synthetic" where
  "readState sc T k t =
     (let s0 = NewSynthetic sc T k; e = timeSub t sunrise
      in s0\<lparr>simTime := t, stepIdx := dueSteps (Steps sc) e, sgrid := (gridAt (Steps sc) e (sgrid s0))\<lparr>Time := t\<rparr>\<rparr>)"

lemma readState_fields:
  "scenario (readState sc T k t) = sc" "simStart (readState sc T k t) = sunrise" "simTime (readState sc T k t) = t"
  "simDelta (readState sc T k t) = simDelta (NewSynthetic sc T k)"
  "stepIdx (readState sc T k t) = dueSteps (Steps sc) (timeSub t sunrise)"
  "sgrid (readState sc T k t) = (gridAt (Steps sc) (timeSub t sunrise) (sgrid (NewSynthetic sc T k)))\<lparr>Time := t\<rparr>"
  by (simp_all add: readState_def NewSynthetic_def simDelta_def Let_def)

lemma read_first:
  "0 \<le> simDelta (NewSynthetic sc T k) \<Longrightarrow> fst (syntheticReadState rt (NewSynthetic sc T k)) =
     readState sc T k (sunrise + simDelta (NewSynthetic sc T k))"
  by (subst read_step [OF refl]) (simp_all add: NewSynthetic_def readState_def gridAt_def take_dueSteps Let_def)

lemma read_next:
  assumes "0 \<le> simDelta (NewSynthetic sc T k)"
  shows "fst (syntheticReadState rt (readState sc T k t)) = readState sc T k (t + simDelta (NewSynthetic sc T k))"
proof -
  let ?d = "simDelta (NewSynthetic sc T k)"
  have le: "timeSub t sunrise \<le> timeSub (t + ?d) sunrise" using assms by (intro timeSub_mono) simp
  have "fst (syntheticReadState rt (readState sc T k t)) =
      (readState sc T k t)\<lparr>simTime := t + ?d, stepIdx := dueSteps (Steps sc) (timeSub (t + ?d) sunrise),
       sgrid := (gridAt (Steps sc) (timeSub (t + ?d) sunrise) (sgrid (NewSynthetic sc T k)))\<lparr>Time := t + ?d\<rparr>\<rparr>"
    by (subst read_step [where t = "t + ?d"])
      (simp_all add: readState_fields dueSteps_mono [OF le] gridAt_split [OF le] foldl_applyStep_Time)
  then show ?thesis by (simp add: readState_def NewSynthetic_def Let_def)
qed

lemma readN_state:
  "0 \<le> simDelta (NewSynthetic sc T k) \<Longrightarrow> readN rt (Suc n) (NewSynthetic sc T k) =
     readState sc T k (sunrise + int (Suc n) * simDelta (NewSynthetic sc T k))"
proof (induction n)
  case 0
  then show ?case by (simp add: read_first)
next
  case (Suc n)
  show ?case unfolding readN_Suc [of rt "Suc n"] Suc.IH [OF Suc.prems] read_next [OF Suc.prems]
    by (simp add: algebra_simps)
qed

section \<open>Properties\<close>

text \<open>The synthetic backend's grid depends on the simulated time alone: after any number of reads it
  is the starting grid with every step that has come due applied in order, stamped with the current
  simulated time, so no step is skipped, repeated or applied early however long a tick is.\<close>

theorem synthetic_grid:
  assumes "0 \<le> simDelta (NewSynthetic sc T k)" "t = sunrise + int (Suc n) * simDelta (NewSynthetic sc T k)"
  shows "sgrid (readN rt (Suc n) (NewSynthetic sc T k)) =
      (gridAt (Steps sc) (timeSub t sunrise) \<lparr>VoltsPU = 1, FreqHz = 60, Time = sunrise\<rparr>)\<lparr>Time := t\<rparr> \<and>
    simTime (readN rt (Suc n) (NewSynthetic sc T k)) = t"
  unfolding readN_state [OF assms(1)] assms(2) readState_fields by (simp add: NewSynthetic_def)

theorem synthetic_grid_witness:
  "VoltsPU (sgrid (readN defaultRating 3 (NewSynthetic VoltVarScenario 300000000000 1))) = Fin 1.03"
proof -
  have d: "simDelta (NewSynthetic VoltVarScenario 300000000000 1) = 300000000000"
    by (simp add: simDelta_def NewSynthetic_def minInt64_def maxInt64_def truncReal_def)
  have "timeSub (sunrise + 900000000000) sunrise = 900000000000" by (simp add: timeSub_def minInt64_def maxInt64_def)
  moreover have "sgrid (readN defaultRating (Suc 2) (NewSynthetic VoltVarScenario 300000000000 1)) =
      (gridAt (Steps VoltVarScenario) (timeSub (sunrise + 900000000000) sunrise) \<lparr>VoltsPU = 1, FreqHz = 60, Time = sunrise\<rparr>)
        \<lparr>Time := sunrise + 900000000000\<rparr>"
    using synthetic_grid [of VoltVarScenario 300000000000 1 "sunrise + 900000000000" 2] d by simp
  ultimately show ?thesis
    by (simp add: numeral_3_eq_3 gridAt_def VoltVarScenario_def applyStep_def)
qed

definition scenario_ok :: "Scenario \<Rightarrow> bool" where
  "scenario_ok sc \<longleftrightarrow> Steps sc \<noteq> [] \<and> AtTime (hd (Steps sc)) = 0 \<and> stepGrid (hd (Steps sc)) \<noteq> None \<and>
     sorted_wrt (<) (map AtTime (Steps sc)) \<and> list_all (\<lambda>st. AtTime st < scDuration sc) (Steps sc) \<and>
     list_all (\<lambda>st. case stepGrid st of None \<Rightarrow> True | Some (v, f) \<Rightarrow> isFin v \<and> 0 < v \<and> isFin f \<and> 0 < f) (Steps sc)"

lemmas scenario_defs = NormalScenario_def VoltVarScenario_def PowerLimitScenario_def DisconnectScenario_def
  FreqDroopScenario_def VoltageRideScenario_def EnterServiceScenario_def LifecycleScenario_def

text \<open>Every scenario of the table is well formed: it is listed under its own name, no name is listed
  twice, it starts with a grid at time zero, its steps come in strictly increasing time within its
  duration, and every voltage and frequency is a positive number.\<close>

theorem scenarios_well_formed:
  "distinct (map fst AllScenarios) \<and> list_all (\<lambda>(name, sc). scName sc = name \<and> scenario_ok sc) AllScenarios"
  by (simp add: AllScenarios_def scenario_ok_def scenario_defs)

end
