(* ===== verification/Backends.thy ===== *)
theory Backends
  imports SimMode Replay Scenarios SafetyGuards
begin

text \<open>
  The selection of the device backend (\<open>internal/inverter/device/select.go\<close>, \<open>device.go\<close>, \<open>gridlabd.go\<close>,
  \<open>realdevice.go\<close>) and of the notification dispatcher (\<open>dispatch/select.go\<close>): one value of a sum type per
  concrete type, and the reads and writes of the interface on it. \<open>realdevice\<close> and \<open>gridlabd\<close> are stubs
  that answer with the sentinel error.
\<close>

section \<open>The stubs\<close>

record GridLABDConfig =
  BrokerAddr :: string
  FederateName :: string
  TimeDelta :: f64

record RealDeviceConfig =
  rdHost :: string
  rdPort :: int
  UnitID :: int

definition ErrBackendNotImplemented :: string where
  "ErrBackendNotImplemented = ''backend not implemented''"

definition notImplemented :: "unit DERDevice" where
  "notImplemented = \<lparr>devRead = (\<lambda>w. (Inl ErrBackendNotImplemented, w)), devApply = (\<lambda>_ w. (Inl ErrBackendNotImplemented, w))\<rparr>"

section \<open>Selection\<close>

datatype backend =
    BSynthetic Synthetic
  | BGridLABD GridLABDConfig
  | BReplay Replay
  | BRealDevice RealDeviceConfig guardedDevice

datatype backendErr = ErrUnknownBackend string | ErrReplay replayErr

definition defaultMaxStateAge :: duration where "defaultMaxStateAge = 5000000000"

definition nameplateFromRating :: "Nameplate \<Rightarrow> devNameplate" where
  "nameplateFromRating rt = \<lparr>npRatedW = RatedW rt, npRatedVAr = RatedVAr rt\<rparr>"

definition gridLABDConfigFrom :: GridLABDConfig where
  "gridLABDConfigFrom = \<lparr>BrokerAddr = ''localhost:23404'', FederateName = ''inverterclient'', TimeDelta = 1\<rparr>"

definition realDeviceConfigFrom :: RealDeviceConfig where
  "realDeviceConfigFrom = \<lparr>rdHost = ''localhost'', rdPort = 502, UnitID = 1\<rparr>"

definition replayConfigFrom :: "ReplaySettings \<Rightarrow> ReplayConfig" where
  "replayConfigFrom r =
     \<lparr>rcFile = rsFile r, rcType = rsType r, rcClock = rsClock r, rcScale = rsScale r, rcRatedW = rsRatedW r,
      rcCapacityWh = rsCapacityWh r, rcInitialSOC = rsInitialSOC r\<rparr>"

record deviceCfg =
  dcBackend :: string
  dcTick :: duration
  dcTimeScale :: f64
  dcReplay :: ReplaySettings
  dcMaxStateAge :: duration

text \<open>The recording's lines, the clock at construction and the nameplate are what the constructors read besides the settings.\<close>

definition deviceNew :: "parseTime \<Rightarrow> parseFloat \<Rightarrow> (string \<Rightarrow> string list option) \<Rightarrow> Nameplate \<Rightarrow> time \<Rightarrow> Scenario \<Rightarrow>
    deviceCfg \<Rightarrow> backendErr + backend" where
  "deviceNew pt pf files rt now sc cfg =
     (if dcBackend cfg = [] \<or> dcBackend cfg = ''synthetic'' then Inr (BSynthetic (NewSynthetic sc (dcTick cfg) (dcTimeScale cfg)))
      else if dcBackend cfg = ''gridlabd'' then Inr (BGridLABD gridLABDConfigFrom)
      else if dcBackend cfg = ''replay'' then
        (case NewReplay pt pf (files (rsFile (dcReplay cfg))) now (replayConfigFrom (dcReplay cfg)) of
           Inl e \<Rightarrow> Inl (ErrReplay e)
         | Inr r \<Rightarrow> Inr (BReplay r))
      else if dcBackend cfg = ''realdevice'' then
        (let maxAge = (if dcMaxStateAge cfg \<le> 0 then defaultMaxStateAge else dcMaxStateAge cfg)
         in Inr (BRealDevice realDeviceConfigFrom (WithSafetyGuards (nameplateFromRating rt) \<lparr>MaxStateAge = maxAge\<rparr> now)))
      else Inl (ErrUnknownBackend (dcBackend cfg)))"

section \<open>The interface\<close>

definition backendRead :: "Nameplate \<Rightarrow> time \<Rightarrow> backend \<Rightarrow> (string + StateReading) \<times> backend" where
  "backendRead rt now d =
     (case d of
        BSynthetic s \<Rightarrow>
          (let (s, g, maxP, irr) = syntheticReadState rt s
           in (Inr \<lparr>srGrid = g, srMaxPowerW = maxP, srIrradiance = irr\<rparr>, BSynthetic s))
      | BGridLABD c \<Rightarrow> (Inl ErrBackendNotImplemented, d)
      | BReplay r \<Rightarrow>
          (let (r, g, maxP) = replayReadState r now
           in (Inr \<lparr>srGrid = g, srMaxPowerW = maxP, srIrradiance = 0\<rparr>, BReplay r))
      | BRealDevice c g \<Rightarrow>
          (let (res, g, _) = guardedRead notImplemented now g () in (res, BRealDevice c g)))"

text \<open>The error of a write, and the state it answers with next to it.\<close>

datatype applyErr = ApplyStub string | ApplyGuard guardErr

definition backendApply :: "Nameplate \<Rightarrow> time \<Rightarrow> ControlOutputs \<Rightarrow> backend \<Rightarrow> (applyErr + InverterState) \<times> backend" where
  "backendApply rt now c d =
     (case d of
        BSynthetic s \<Rightarrow> (Inr (syntheticApplySetpoint rt s c), d)
      | BGridLABD _ \<Rightarrow> (Inl (ApplyStub ErrBackendNotImplemented), d)
      | BReplay r \<Rightarrow> (let (r, st) = replayApplySetpoint rt r now c in (Inr st, BReplay r))
      | BRealDevice cfg g \<Rightarrow>
          (let ((st, e), _, g, _) = guardedApply notImplemented now c g ()
           in (case e of None \<Rightarrow> Inr st | Some e \<Rightarrow> Inl (ApplyGuard e), BRealDevice cfg g)))"

text \<open>The optional interface of a backend whose scenario can end.\<close>

definition scenarioEnder :: "backend \<Rightarrow> (bool \<times> time) option" where
  "scenarioEnder d = (case d of BSynthetic s \<Rightarrow> Some (ScenarioDone s, simTime s) | _ \<Rightarrow> None)"

section \<open>The dispatcher's role\<close>

datatype dispatcherKind = SimulatorDispatcher | ProductionDispatcher

definition dispatchNew :: "string \<Rightarrow> dispatcherKind option" where
  "dispatchNew role =
     (if role = [] \<or> role = ''simulator'' then Some SimulatorDispatcher
      else if role = ''production'' then Some ProductionDispatcher
      else None)"

definition CheckRoleBackendCoherence :: "string \<Rightarrow> string \<Rightarrow> bool" where
  "CheckRoleBackendCoherence role backend = (role = ''production'' \<and> backend \<noteq> ''realdevice'')"

section \<open>A checked configuration builds its device\<close>

lemma Load_parts:
  assumes "Load ord absPath readFile path = Inr f" "visitsAll ord"
  shows "wfDevice (cfDevice f)" "wfReplay (cfReplay f)" "cfBackend f \<in> {''replay'', ''synthetic''}"
proof -
  from assms(1) obtain g doc where g: "Parse ord doc = Inr g"
    "sdType (cfDevice f) = sdType (cfDevice g)" "sdRatedW (cfDevice f) = sdRatedW (cfDevice g)"
    "sdCapacityWh (cfDevice f) = sdCapacityWh (cfDevice g)" "sdInitialSOC (cfDevice f) = sdInitialSOC (cfDevice g)"
    "srClock (cfReplay f) = srClock (cfReplay g)" "srScale (cfReplay f) = srScale (cfReplay g)" "cfBackend f = cfBackend g"
    by (auto simp: Load_def Let_def split: option.splits sum.splits)
  show "wfDevice (cfDevice f)" "wfReplay (cfReplay f)" "cfBackend f \<in> {''replay'', ''synthetic''}"
    using parsed_config_wf [OF g(1) assms(2)] g(2-) by (auto simp: wfConfig_def wfDevice_def wfReplay_def)
qed

lemma NewReplay_checked:
  assumes "wfDevice d" "wfReplay r" "rsFile s \<noteq> []" "rsType s = sdType d" "rsClock s = srClock r" "rsScale s = srScale r"
    "rsRatedW s = sdRatedW d" "rsCapacityWh s = sdCapacityWh d" "rsInitialSOC s = theOr 0 (sdInitialSOC d)"
    "NewReplay pt pf file now (replayConfigFrom s) = Inl e"
  shows "Replay.load pt pf file = Inl e"
  using assms
  by (auto simp: NewReplay_def replayConfigFrom_def wfDevice_def wfReplay_def theOr_def isNaN_def isInf_def split: if_splits sum.splits)

end
