(* ===== verification/Phases.thy ===== *)
theory Phases
  imports ClientApi "HOL-Library.AList"
begin

text \<open>
  The start-up phases of the client (\<open>cmd/inverterclient/phase1b_timesync.go\<close>, \<open>phase2b.go\<close>,
  \<open>phase2c_fsalist.go\<close>, \<open>phase2c_derprogram.go\<close>, \<open>phase3_derlist.go\<close> and the helpers of \<open>main.go\<close>): reading the
  registration and matching the PIN, the list of function set assignments, the walk over the DER programs. A
  phase that idles waits on a timer or on the end of its context; the list \<open>timers\<close> gives the outcome of every
  wait, \<open>None\<close> when the timer fired. \<open>None\<close> as the result of a phase says that it still idles when the
  list is used up.
\<close>

section \<open>Resources and settings\<close>

record Registration =
  regPIN :: "32 word"
  regPollRate :: "32 word"

record FunctionSetAssignments =
  fsaMRID :: string
  DERProgramListLink :: "string option"

record phaseCfg =
  CSIP :: bool
  AllowUnregistered :: bool
  ExpectedPIN :: int

record decoders =
  decEndDevices :: "string \<Rightarrow> EndDeviceList option"
  decRegistration :: "string \<Rightarrow> Registration option"
  decFSAList :: "string \<Rightarrow> FunctionSetAssignments list option"
  decPrograms :: "string \<Rightarrow> DERProgram list option"
  decDefaultControl :: "string \<Rightarrow> DefaultDERControl option"
  decControlList :: "string \<Rightarrow> DERControlListResult option"
  decCurveList :: "string \<Rightarrow> unit option"

definition csipStrict :: "phaseCfg \<Rightarrow> bool" where
  "csipStrict cfg \<longleftrightarrow> CSIP cfg \<and> \<not> AllowUnregistered cfg"

type_synonym timers = "transportErr option list"

definition redactPIN :: "int \<Rightarrow> string" where
  "redactPIN p =
     (let q = (if p < 100 then p else p mod 100)
      in ''***'' @ (if q < 10 then ''0'' else []) @ itoa q)"

definition pinPollInterval :: "32 word \<Rightarrow> duration" where
  "pinPollInterval rate =
     (let d = int (unat rate) * nsPerSecond;
          d = (if d \<le> 0 then 1800 * nsPerSecond else d)
      in if d < 60 * nsPerSecond then 60 * nsPerSecond else d)"

datatype phaseErr =
    CtxDone httpErr
  | NoEndDeviceListLink
  | LookupFailed httpErr
  | RegisterFailed httpErr
  | LostEndDeviceListLink
  | ReLookup httpErr
  | RegistrationUnread httpErr
  | PINMismatch string string
  | NoFSAListLink
  | FSAListUnread httpErr
  | ProgramWalk httpErr

section \<open>Phase 2: the own EndDevice\<close>

text \<open>
  In CSIP mode and for an aggregator the device looks for itself in the list of the server and idles while it is not in it;
  otherwise it registers itself. The second result is the href of the list after redirects.
\<close>

fun lookupUntilListed :: "'w Client \<Rightarrow> Ctx \<Rightarrow> decoders \<Rightarrow> DeviceCapability \<Rightarrow> string \<Rightarrow> timers \<Rightarrow> 'w World \<Rightarrow>
    ((phaseErr + EndDevice) \<times> string \<times> duration list \<times> 'w World) option" where
  "lookupUntilListed c ctx D dcap href timers w =
     (case LookupOwnEndDevice c ctx (decEndDevices D) href w of
        (r, newHref, w) \<Rightarrow>
          (let href = (if newHref \<noteq> [] then newHref else href) in
           case r of
             Inr ed \<Rightarrow> Some (Inr ed, href, [], w)
           | Inl e \<Rightarrow>
               if \<not> errorsIs e ErrEndDeviceNotFound then Some (Inl (LookupFailed e), href, [], w)
               else
                 (let wait = int (unat (PollRate dcap)) * nsPerSecond;
                      wait = (if wait \<le> 0 then 30 * nsPerSecond else wait) in
                  case timers of
                    [] \<Rightarrow> None
                  | Some e # rest \<Rightarrow> Some (Inl (CtxDone (netErr e)), href, [wait], w)
                  | None # rest \<Rightarrow>
                      map_option (\<lambda>(r, h, ws, w). (r, h, wait # ws, w)) (lookupUntilListed c ctx D dcap href rest w))))"

declare lookupUntilListed.simps [simp del]

definition acquireEndDevice :: "'w Client \<Rightarrow> Ctx \<Rightarrow> decoders \<Rightarrow> (EndDevice \<Rightarrow> string option) \<Rightarrow> (string \<Rightarrow> EndDevice option) \<Rightarrow> bool \<Rightarrow>
    DeviceCapability \<Rightarrow> timers \<Rightarrow> 'w World \<Rightarrow> ((phaseErr + EndDevice) \<times> string \<times> duration list \<times> 'w World) option" where
  "acquireEndDevice c ctx D enc dec lookup dcap timers w =
     (let href = (case EndDeviceListLink dcap of None \<Rightarrow> [] | Some h \<Rightarrow> h) in
      if href = [] then Some (Inl NoEndDeviceListLink, href, [], w)
      else if lookup then lookupUntilListed c ctx D dcap href timers w
      else
        (case Register c ctx enc dec href w of
           (Inl e, _, w) \<Rightarrow> Some (Inl (RegisterFailed e), href, [], w)
         | (Inr ed, newHref, w) \<Rightarrow> Some (Inr ed, if newHref \<noteq> [] then newHref else href, [], w)))"

section \<open>Phase 2b: registration\<close>

text \<open>The loop that re-reads the EndDevice until it has a RegistrationLink, and the durations it waited for.\<close>

fun awaitRegistrationLink :: "'w Client \<Rightarrow> Ctx \<Rightarrow> decoders \<Rightarrow> DeviceCapability \<Rightarrow> timers \<Rightarrow> string \<Rightarrow> EndDevice \<Rightarrow> 'w World \<Rightarrow>
    ((phaseErr + string) \<times> EndDevice \<times> timers \<times> duration list \<times> 'w World) option" where
  "awaitRegistrationLink c ctx D dcap timers href ed w =
     (case RegistrationLink ed of
        Some l \<Rightarrow> Some (Inr l, ed, timers, [], w)
      | None \<Rightarrow>
          (let wait = pinPollInterval (PollRate dcap) in
           case timers of
             [] \<Rightarrow> None
           | Some e # rest \<Rightarrow> Some (Inl (CtxDone (netErr e)), ed, rest, [wait], w)
           | None # rest \<Rightarrow>
               if href = [] then Some (Inl LostEndDeviceListLink, ed, rest, [wait], w)
               else
                 (case LookupOwnEndDevice c ctx (decEndDevices D) href w of
                    (Inl e, _, w) \<Rightarrow> Some (Inl (ReLookup e), ed, rest, [wait], w)
                  | (Inr ed, newHref, w) \<Rightarrow>
                      map_option (\<lambda>(r, ed, rest, ws, w). (r, ed, rest, wait # ws, w))
                        (awaitRegistrationLink c ctx D dcap rest (if newHref \<noteq> [] then newHref else href) ed w))))"

declare awaitRegistrationLink.simps [simp del]

text \<open>The loop that matches the PIN.\<close>

fun matchPIN :: "'w Client \<Rightarrow> Ctx \<Rightarrow> decoders \<Rightarrow> int \<Rightarrow> string \<Rightarrow> timers \<Rightarrow> 'w World \<Rightarrow>
    (phaseErr option \<times> duration list \<times> 'w World) option" where
  "matchPIN c ctx D pin href timers w =
     (case GetRegistration c ctx (decRegistration D) href w of
        (Inl e, w) \<Rightarrow> Some (Some (RegistrationUnread e), [], w)
      | (Inr rg, w) \<Rightarrow>
          if pin = 0 then Some (None, [], w)
          else if uint (regPIN rg) = pin then Some (None, [], w)
          else if regPIN rg = 0 then
            (let wait = pinPollInterval (regPollRate rg) in
             case timers of
               [] \<Rightarrow> None
             | Some e # rest \<Rightarrow> Some (Some (CtxDone (netErr e)), [wait], w)
             | None # rest \<Rightarrow>
                 map_option (\<lambda>(r, ws, w). (r, wait # ws, w)) (matchPIN c ctx D pin href rest w))
          else Some (Some (PINMismatch (redactPIN (uint (regPIN rg))) (redactPIN pin)), [], w))"

declare matchPIN.simps [simp del]

definition runPhase2bRegistration :: "'w Client \<Rightarrow> Ctx \<Rightarrow> decoders \<Rightarrow> EndDevice \<Rightarrow> string \<Rightarrow> phaseCfg \<Rightarrow> DeviceCapability \<Rightarrow> timers \<Rightarrow> 'w World \<Rightarrow>
    (phaseErr option \<times> EndDevice \<times> duration list \<times> 'w World) option" where
  "runPhase2bRegistration c ctx D ed href cfg dcap timers w =
     (if RegistrationLink ed = None \<and> \<not> csipStrict cfg then Some (None, ed, [], w)
      else
        case awaitRegistrationLink c ctx D dcap timers href ed w of
          None \<Rightarrow> None
        | Some (Inl e, ed, rest, ws, w) \<Rightarrow> Some (Some e, ed, ws, w)
        | Some (Inr l, ed, rest, ws, w) \<Rightarrow>
            map_option (\<lambda>(e, ws', w). (e, ed, ws @ ws', w)) (matchPIN c ctx D (ExpectedPIN cfg) l rest w))"

section \<open>Phase 2c: the function set assignments\<close>

text \<open>
  The result carries the list's href as well: a redirect is written through the pointer into the caller's
  EndDevice.
\<close>

fun fetchFSAList :: "'w Client \<Rightarrow> Ctx \<Rightarrow> decoders \<Rightarrow> phaseCfg \<Rightarrow> DeviceCapability \<Rightarrow> string \<Rightarrow> timers \<Rightarrow> 'w World \<Rightarrow>
    ((phaseErr + FunctionSetAssignments list) \<times> string \<times> duration list \<times> 'w World) option" where
  "fetchFSAList c ctx D cfg dcap href timers w =
     (case GetFSAList c ctx (decFSAList D) href w of
        (Inl e, w) \<Rightarrow> Some (Inl (FSAListUnread e), href, [], w)
      | (Inr (fsas, newHref), w) \<Rightarrow>
          (let href = (if newHref \<noteq> [] then newHref else href) in
           if fsas \<noteq> [] then Some (Inr fsas, href, [], w)
           else if csipStrict cfg then
             (let wait = pinPollInterval (PollRate dcap) in
              case timers of
                [] \<Rightarrow> None
              | Some e # rest \<Rightarrow> Some (Inl (CtxDone (netErr e)), href, [wait], w)
              | None # rest \<Rightarrow>
                  map_option (\<lambda>(r, h, ws, w). (r, h, wait # ws, w)) (fetchFSAList c ctx D cfg dcap href rest w))
           else Some (Inr [], href, [], w)))"

declare fetchFSAList.simps [simp del]

definition runPhase2cFSAList :: "'w Client \<Rightarrow> Ctx \<Rightarrow> decoders \<Rightarrow> EndDevice \<Rightarrow> phaseCfg \<Rightarrow> DeviceCapability \<Rightarrow> timers \<Rightarrow> 'w World \<Rightarrow>
    ((phaseErr + FunctionSetAssignments list) \<times> EndDevice \<times> duration list \<times> 'w World) option" where
  "runPhase2cFSAList c ctx D ed cfg dcap timers w =
     (case FunctionSetAssignmentsListLink ed of
        None \<Rightarrow> Some (if \<not> csipStrict cfg then Inr [] else Inl NoFSAListLink, ed, [], w)
      | Some href \<Rightarrow>
          map_option (\<lambda>(r, h, ws, w). (r, ed\<lparr>FunctionSetAssignmentsListLink := Some h\<rparr>, ws, w))
            (fetchFSAList c ctx D cfg dcap href timers w))"

section \<open>Phase 2c: the walk over the DER programs\<close>

type_synonym programMap = "(string \<times> DERProgram) list"

text \<open>
  What one program does to the walk: \<open>Inl\<close> ends it, \<open>Inr False\<close> leaves the program out because its controls
  cannot be read. Each of the three reads happens only when the program has its link.
\<close>

definition readDefault :: "'w Client \<Rightarrow> Ctx \<Rightarrow> decoders \<Rightarrow> bool \<Rightarrow> DERProgram \<Rightarrow> 'w World \<Rightarrow> httpErr option \<times> 'w World" where
  "readDefault c ctx D lenient p w =
     (case DefaultDERControlLink p of
        None \<Rightarrow> (None, w)
      | Some h \<Rightarrow>
          (case GetDefaultDERControl c ctx (decDefaultControl D) h w of
             (Inl e, w) \<Rightarrow> (if lenient then None else Some (Wrap (''DERProgram mRID='' @ dpMRID p @ '' DefaultDERControl: '') e), w)
           | (Inr _, w) \<Rightarrow> (None, w)))"

definition readControls :: "'w Client \<Rightarrow> Ctx \<Rightarrow> decoders \<Rightarrow> DERProgram \<Rightarrow> 'w World \<Rightarrow> httpErr option \<times> 'w World" where
  "readControls c ctx D p w =
     (case DERControlListLink p of
        None \<Rightarrow> (None, w)
      | Some h \<Rightarrow>
          (case GetDERControlList c ctx (decControlList D) h w of
             (Inl e, w) \<Rightarrow> (Some (Wrap (''DERProgram mRID='' @ dpMRID p @ '' DERControlList: '') e), w)
           | (Inr _, w) \<Rightarrow> (None, w)))"

definition readCurves :: "'w Client \<Rightarrow> Ctx \<Rightarrow> decoders \<Rightarrow> bool \<Rightarrow> DERProgram \<Rightarrow> 'w World \<Rightarrow> httpErr option \<times> 'w World" where
  "readCurves c ctx D lenient p w =
     (case DERCurveListLink p of
        None \<Rightarrow> (None, w)
      | Some h \<Rightarrow>
          (case GetDERCurveList c ctx (decCurveList D) h w of
             (Inl e, w) \<Rightarrow> (if lenient then None else Some (Wrap (''DERProgram mRID='' @ dpMRID p @ '' DERCurveList: '') e), w)
           | (Inr _, w) \<Rightarrow> (None, w)))"

definition walkProgram :: "'w Client \<Rightarrow> Ctx \<Rightarrow> decoders \<Rightarrow> bool \<Rightarrow> DERProgram \<Rightarrow> 'w World \<Rightarrow> ('w, bool) result" where
  "walkProgram c ctx D lenient p w =
     (case readDefault c ctx D lenient p w of
        (Some e, w) \<Rightarrow> (Inl e, w)
      | (None, w) \<Rightarrow>
          (case readControls c ctx D p w of
             (Some e, w) \<Rightarrow> (if lenient then Inr False else Inl e, w)
           | (None, w) \<Rightarrow>
               (case readCurves c ctx D lenient p w of
                  (Some e, w) \<Rightarrow> (Inl e, w)
                | (None, w) \<Rightarrow> (Inr True, w))))"

fun walkProgramList :: "'w Client \<Rightarrow> Ctx \<Rightarrow> decoders \<Rightarrow> bool \<Rightarrow> DERProgram list \<Rightarrow> programMap \<times> string list \<Rightarrow> 'w World \<Rightarrow>
    httpErr option \<times> (programMap \<times> string list) \<times> 'w World" where
  "walkProgramList c ctx D lenient [] acc w = (None, acc, w)"
| "walkProgramList c ctx D lenient (p # ps) (out, bad) w =
     (case walkProgram c ctx D lenient p w of
        (Inl e, w) \<Rightarrow> (Some e, (out, bad), w)
      | (Inr True, w) \<Rightarrow> walkProgramList c ctx D lenient ps (AList.update (dpMRID p) p out, bad) w
      | (Inr False, w) \<Rightarrow> walkProgramList c ctx D lenient ps (out, List.insert (dpMRID p) bad) w)"

fun walkDERProgramTreeOpts :: "'w Client \<Rightarrow> Ctx \<Rightarrow> decoders \<Rightarrow> bool \<Rightarrow> FunctionSetAssignments list \<Rightarrow> programMap \<times> string list \<Rightarrow> 'w World \<Rightarrow>
    httpErr option \<times> (programMap \<times> string list) \<times> 'w World" where
  "walkDERProgramTreeOpts c ctx D lenient [] acc w = (None, acc, w)"
| "walkDERProgramTreeOpts c ctx D lenient (f # fs) acc w =
     (case DERProgramListLink f of
        None \<Rightarrow> walkDERProgramTreeOpts c ctx D lenient fs acc w
      | Some h \<Rightarrow>
          (case GetDERProgramList c ctx (decPrograms D) h w of
             (Inl e, w) \<Rightarrow> (Some (Wrap (''FSA mRID='' @ fsaMRID f @ '' DERProgramList: '') e), acc, w)
           | (Inr (progs, _), w) \<Rightarrow>
               (case walkProgramList c ctx D lenient progs acc w of
                  (Some e, acc, w) \<Rightarrow> (Some e, acc, w)
                | (None, acc, w) \<Rightarrow> walkDERProgramTreeOpts c ctx D lenient fs acc w)))"

fun runPhase2cDERProgramWalkOpts :: "'w Client \<Rightarrow> Ctx \<Rightarrow> decoders \<Rightarrow> FunctionSetAssignments list \<Rightarrow> phaseCfg \<Rightarrow> DeviceCapability \<Rightarrow> bool \<Rightarrow> timers \<Rightarrow> 'w World \<Rightarrow>
    ((phaseErr + programMap) \<times> string list \<times> duration list \<times> 'w World) option" where
  "runPhase2cDERProgramWalkOpts c ctx D fsas cfg dcap lenient timers w =
     (case walkDERProgramTreeOpts c ctx D lenient fsas ([], []) w of
        (Some e, (_, bad), w) \<Rightarrow> Some (Inl (ProgramWalk e), bad, [], w)
      | (None, (out, bad), w) \<Rightarrow>
          if out \<noteq> [] then Some (Inr out, bad, [], w)
          else if csipStrict cfg then
            (let wait = pinPollInterval (PollRate dcap) in
             case timers of
               [] \<Rightarrow> None
             | Some e # rest \<Rightarrow> Some (Inl (CtxDone (netErr e)), bad, [wait], w)
             | None # rest \<Rightarrow>
                 map_option (\<lambda>(r, bad, ws, w). (r, bad, wait # ws, w))
                   (runPhase2cDERProgramWalkOpts c ctx D fsas cfg dcap lenient rest w))
          else Some (Inr out, bad, [], w))"

declare runPhase2cDERProgramWalkOpts.simps [simp del]

definition runPhase2cDERProgramWalk :: "'w Client \<Rightarrow> Ctx \<Rightarrow> decoders \<Rightarrow> FunctionSetAssignments list \<Rightarrow> phaseCfg \<Rightarrow> DeviceCapability \<Rightarrow> timers \<Rightarrow> 'w World \<Rightarrow>
    ((phaseErr + programMap) \<times> duration list \<times> 'w World) option" where
  "runPhase2cDERProgramWalk c ctx D fsas cfg dcap timers w =
     map_option (\<lambda>(r, _, ws, w). (r, ws, w)) (runPhase2cDERProgramWalkOpts c ctx D fsas cfg dcap False timers w)"

section \<open>Optional phases\<close>

text \<open>
  Phase 1b. \<open>Some e\<close> ends the start; the boolean tells that the periodic synchronisation was started. Every
  error but the end of the context leaves the client on its own clock.
\<close>

definition runPhase1bTimeSync :: "'w Client \<Rightarrow> Ctx \<Rightarrow> (string \<Rightarrow> int option) \<Rightarrow> DeviceCapability \<Rightarrow> time \<Rightarrow> 'w World \<Rightarrow>
    httpErr option \<times> bool \<times> 'w World" where
  "runPhase1bTimeSync c ctx dec dcap localNow w =
     (case TimeLink dcap of
        None \<Rightarrow> (None, False, w)
      | Some href \<Rightarrow>
          (case SyncServerTime c ctx dec href localNow w of
             (Inl e, w) \<Rightarrow> (if isCtxErr e then Some e else None, False, w)
           | (Inr _, w) \<Rightarrow> (None, True, w)))"

definition fetchDERListForSetup :: "'w Client \<Rightarrow> Ctx \<Rightarrow> (string \<Rightarrow> 'a option) \<Rightarrow> string \<Rightarrow> 'w World \<Rightarrow>
    (httpErr + ('a \<times> string) option) \<times> 'w World" where
  "fetchDERListForSetup c ctx dec href w =
     (case Get c ctx KindEndDeviceRead href dec w of
        (Inl e, w) \<Rightarrow> (if isCtxErr e then Inl e else Inr None, w)
      | (Inr r, w) \<Rightarrow> (Inr (Some r), w))"

section \<open>The gate of the registration\<close>

lemma redactPIN_range: "0 \<le> p \<Longrightarrow> redactPIN p = redactPIN (p mod 100)"
  by (auto simp: redactPIN_def Let_def)

lemma matchPIN_outcome:
  assumes "matchPIN c ctx D pin href timers w = Some (r, ws, w')"
  shows "(r = None \<longrightarrow> (\<exists>w0 rg. GetRegistration c ctx (decRegistration D) href w0 = (Inr rg, w') \<and> (pin = 0 \<or> uint (regPIN rg) = pin)))"
    "(\<forall>a b. r = Some (PINMismatch a b) \<longrightarrow>
        (\<exists>w0 rg. GetRegistration c ctx (decRegistration D) href w0 = (Inr rg, w') \<and> regPIN rg \<noteq> 0 \<and> pin \<noteq> 0 \<and> uint (regPIN rg) \<noteq> pin \<and>
           a = redactPIN (uint (regPIN rg)) \<and> b = redactPIN pin))"
    "length ws \<le> length timers \<and> (\<forall>d\<in>set ws. 60 * nsPerSecond \<le> d)"
  using assms
proof (induction timers arbitrary: w r ws w')
  case Nil
  { case 1 then show ?case by (subst (asm) matchPIN.simps) (auto split: prod.splits sum.splits if_splits)
  next
    case 2 then show ?case by (subst (asm) matchPIN.simps) (auto split: prod.splits sum.splits if_splits)
  next
    case 3 then show ?case by (subst (asm) matchPIN.simps) (auto split: prod.splits sum.splits if_splits) }
next
  case (Cons t timers)
  have p: "60 * nsPerSecond \<le> pinPollInterval x" for x by (simp add: pinPollInterval_def Let_def nsPerSecond_def)
  { case 1 then show ?case by (subst (asm) matchPIN.simps) (auto simp: Let_def split: prod.splits sum.splits if_splits option.splits dest!: Cons.IH(1))
  next
    case 2 then show ?case by (subst (asm) matchPIN.simps) (auto simp: Let_def split: prod.splits sum.splits if_splits option.splits dest!: Cons.IH(2))
  next
    case 3 then show ?case by (subst (asm) matchPIN.simps) (fastforce simp: Let_def p split: prod.splits sum.splits if_splits option.splits dest!: Cons.IH(3)) }
qed

lemma awaitRegistrationLink_outcome:
  assumes "awaitRegistrationLink c ctx D dcap timers href ed w = Some (r, ed', rest, ws, w')"
  shows "r = Inr l \<longrightarrow> RegistrationLink ed' = Some l \<and> timers = replicate (length ws) None @ rest"
    "(\<forall>d\<in>set ws. 60 * nsPerSecond \<le> d) \<and> length ws + length rest \<le> length timers"
  using assms
proof (induction timers arbitrary: href ed w r ed' rest ws w')
  case Nil
  { case 1 then show ?case by (subst (asm) awaitRegistrationLink.simps) (auto simp: Let_def split: option.splits)
  next
    case 2 then show ?case by (subst (asm) awaitRegistrationLink.simps) (auto simp: Let_def split: option.splits) }
next
  case (Cons t timers)
  have p: "60 * nsPerSecond \<le> pinPollInterval x" for x by (simp add: pinPollInterval_def Let_def nsPerSecond_def)
  { case 1 then show ?case
      by (subst (asm) awaitRegistrationLink.simps)
        (auto simp: Let_def split: prod.splits sum.splits if_splits option.splits dest!: Cons.IH(1))
  next
    case 2 then show ?case
      by (subst (asm) awaitRegistrationLink.simps)
        (fastforce simp: Let_def p split: prod.splits sum.splits if_splits option.splits dest!: Cons.IH(2)) }
qed

lemma await_no_mismatch: "awaitRegistrationLink c ctx D dcap timers href ed w = Some (r, rest) \<Longrightarrow> r \<noteq> Inl (PINMismatch a b)"
proof (induction timers arbitrary: href ed w r rest)
  case (Cons t timers)
  then show ?case
    by (subst (asm) (2) awaitRegistrationLink.simps)
      (auto simp: Let_def split: prod.splits sum.splits option.splits if_splits, (use Cons.IH in blast)+)
qed (subst (asm) awaitRegistrationLink.simps, auto simp: Let_def split: option.splits)

text \<open>C29: The PIN gate: a device gets past the registration only when it has no RegistrationLink and the
  strict mode is off, when no PIN is configured, or when the last Registration it read carries its PIN;
  a mismatch is reported only for a provisioned, different PIN, and shows two digits of each PIN.
\<close>

theorem registration_needs_pin:
  assumes "runPhase2bRegistration c ctx D ed href cfg dcap timers w = Some (r, ed', ws, w')"
  shows "(r = None \<longrightarrow>
      RegistrationLink ed = None \<and> \<not> csipStrict cfg \<and> ed' = ed \<and> w' = w \<or>
      (\<exists>l w0 rg. RegistrationLink ed' = Some l \<and> GetRegistration c ctx (decRegistration D) l w0 = (Inr rg, w') \<and>
         (ExpectedPIN cfg = 0 \<or> uint (regPIN rg) = ExpectedPIN cfg))) \<and>
    (\<forall>a b. r = Some (PINMismatch a b) \<longrightarrow>
      (\<exists>l w0 rg. RegistrationLink ed' = Some l \<and> GetRegistration c ctx (decRegistration D) l w0 = (Inr rg, w') \<and>
         regPIN rg \<noteq> 0 \<and> ExpectedPIN cfg \<noteq> 0 \<and> uint (regPIN rg) \<noteq> ExpectedPIN cfg \<and>
         a = redactPIN (uint (regPIN rg) mod 100) \<and> (0 \<le> ExpectedPIN cfg \<longrightarrow> b = redactPIN (ExpectedPIN cfg mod 100))))"
proof (cases "RegistrationLink ed = None \<and> \<not> csipStrict cfg")
  case True
  then show ?thesis using assms by (auto simp: runPhase2bRegistration_def)
next
  case False
  obtain x ed1 rest ws1 w1 where a: "awaitRegistrationLink c ctx D dcap timers href ed w = Some (x, ed1, rest, ws1, w1)"
    using assms False by (auto simp: runPhase2bRegistration_def split: option.splits)
  show ?thesis
  proof (cases x)
    case (Inl e)
    have "\<forall>a b. e \<noteq> PINMismatch a b"
      using await_no_mismatch [OF a] Inl by simp
    then show ?thesis using assms False a Inl by (auto simp: runPhase2bRegistration_def)
  next
    case (Inr l)
    then have l: "RegistrationLink ed1 = Some l" using awaitRegistrationLink_outcome(1) [OF a] by simp
    obtain ws2 where m: "matchPIN c ctx D (ExpectedPIN cfg) l rest w1 = Some (r, ws2, w')" "ed' = ed1"
      using assms False a Inr by (auto simp: runPhase2bRegistration_def)
    show ?thesis
      using matchPIN_outcome(1,2) [OF m(1)] l m(2) redactPIN_range [OF uint_ge_0] redactPIN_range [of "ExpectedPIN cfg"] by blast
  qed
qed

section \<open>Idling\<close>

text \<open>An idle phase ends with its context: the loops wait on a timer or on the end of the context, and nothing else.\<close>

lemma lookup_ends: "Some e \<in> set timers \<Longrightarrow> lookupUntilListed c ctx D dcap href timers w \<noteq> None"
proof (induction timers arbitrary: href w)
  case (Cons t timers)
  then show ?case
    by (subst lookupUntilListed.simps) (auto simp: Let_def simp del: not_None_eq split: prod.splits sum.splits option.splits)
qed simp

lemma await_ends: "Some e \<in> set timers \<Longrightarrow> awaitRegistrationLink c ctx D dcap timers href ed w \<noteq> None"
proof (induction timers arbitrary: href ed w)
  case (Cons t timers)
  then show ?case
    by (subst awaitRegistrationLink.simps) (auto simp: Let_def simp del: not_None_eq split: prod.splits sum.splits option.splits)
qed simp

lemma match_ends: "Some e \<in> set timers \<Longrightarrow> matchPIN c ctx D pin href timers w \<noteq> None"
proof (induction timers arbitrary: w)
  case (Cons t timers)
  then show ?case
    by (subst matchPIN.simps) (auto simp: Let_def simp del: not_None_eq split: prod.splits sum.splits option.splits)
qed simp

lemma fsa_ends: "Some e \<in> set timers \<Longrightarrow> fetchFSAList c ctx D cfg dcap href timers w \<noteq> None"
proof (induction timers arbitrary: href w)
  case (Cons t timers)
  then show ?case
    by (subst fetchFSAList.simps) (auto simp: Let_def simp del: not_None_eq split: prod.splits sum.splits option.splits)
qed simp

lemma walk_ends: "Some e \<in> set timers \<Longrightarrow> runPhase2cDERProgramWalkOpts c ctx D fsas cfg dcap lenient timers w \<noteq> None"
proof (induction timers arbitrary: w)
  case (Cons t timers)
  then show ?case
    by (subst runPhase2cDERProgramWalkOpts.simps) (auto simp: Let_def simp del: not_None_eq split: prod.splits sum.splits option.splits)
qed simp

text \<open>C30: No start-up phase outlives its context: when the context ends, whatever the server answers, each of the
  phases has returned, and outside strict mode the reading of the assignments and the walk never wait at all.
\<close>

theorem phases_end_with_context:
  assumes "Some e \<in> set timers"
  shows "acquireEndDevice c ctx D enc dec lookup dcap timers w \<noteq> None \<and>
    runPhase2bRegistration c ctx D ed href cfg dcap timers w \<noteq> None \<and>
    runPhase2cFSAList c ctx D ed cfg dcap timers w \<noteq> None \<and>
    runPhase2cDERProgramWalk c ctx D fsas cfg dcap timers w \<noteq> None \<and>
    (\<not> csipStrict cfg \<longrightarrow> runPhase2cFSAList c ctx D ed cfg dcap [] w \<noteq> None \<and> runPhase2cDERProgramWalk c ctx D fsas cfg dcap [] w \<noteq> None)"
proof (intro conjI impI)
  show "acquireEndDevice c ctx D enc dec lookup dcap timers w \<noteq> None"
    by (simp add: acquireEndDevice_def Let_def lookup_ends [OF assms] del: not_None_eq split: prod.split sum.split)
  show "runPhase2bRegistration c ctx D ed href cfg dcap timers w \<noteq> None"
  proof (cases "awaitRegistrationLink c ctx D dcap timers href ed w")
    case None
    then show ?thesis using await_ends [OF assms] by blast
  next
    case (Some a)
    obtain x ed1 rest ws1 w1 where a: "a = (x, ed1, rest, ws1, w1)" by (cases a)
    have rest: "Some e \<in> set rest" if "x = Inr l" for l
      using awaitRegistrationLink_outcome(1) [OF Some [unfolded a], of l] that assms by auto
    have m: "matchPIN c ctx D (ExpectedPIN cfg) l rest w1 \<noteq> None" if "x = Inr l" for l
      by (rule match_ends [OF rest [OF that]])
    show ?thesis
    proof (cases x)
      case (Inl e1)
      then show ?thesis by (simp add: runPhase2bRegistration_def Some a del: not_None_eq)
    next
      case (Inr l)
      then show ?thesis using m by (simp add: runPhase2bRegistration_def Some a del: not_None_eq)
    qed
  qed
  show "runPhase2cFSAList c ctx D ed cfg dcap timers w \<noteq> None"
    by (simp add: runPhase2cFSAList_def fsa_ends [OF assms] del: not_None_eq split: option.split)
  show "runPhase2cDERProgramWalk c ctx D fsas cfg dcap timers w \<noteq> None"
    by (simp add: runPhase2cDERProgramWalk_def walk_ends [OF assms] del: not_None_eq)
next
  assume "\<not> csipStrict cfg"
  then show "runPhase2cFSAList c ctx D ed cfg dcap [] w \<noteq> None"
    by (auto simp: runPhase2cFSAList_def fetchFSAList.simps Let_def simp del: not_None_eq split: option.splits prod.splits sum.splits)
next
  assume "\<not> csipStrict cfg"
  then show "runPhase2cDERProgramWalk c ctx D fsas cfg dcap [] w \<noteq> None"
    by (auto simp: runPhase2cDERProgramWalk_def runPhase2cDERProgramWalkOpts.simps Let_def simp del: not_None_eq split: option.splits prod.splits sum.splits)
qed

section \<open>Examples\<close>

definition demoDecoders :: "32 word \<Rightarrow> decoders" where
  "demoDecoders p =
     \<lparr>decEndDevices = (\<lambda>_. Some \<lparr>edEndDevice = []\<rparr>), decRegistration = (\<lambda>_. Some \<lparr>regPIN = p, regPollRate = 300\<rparr>),
      decFSAList = (\<lambda>_. Some []), decPrograms = (\<lambda>_. Some []), decDefaultControl = (\<lambda>_. None), decControlList = (\<lambda>_. None),
      decCurveList = (\<lambda>_. None)\<rparr>"

abbreviation demoStrict :: phaseCfg where
  "demoStrict \<equiv> \<lparr>CSIP = True, AllowUnregistered = False, ExpectedPIN = 111115\<rparr>"

definition demoDcap :: DeviceCapability where
  "demoDcap = \<lparr>PollRate = 5, EndDeviceListLink = Some ''/edev'', TimeLink = None, SelfDeviceLink = None, MirrorUsagePointListLink = None,
     ResponseSetListLink = None\<rparr>"

definition demoRegistered :: EndDevice where
  "demoRegistered = blankEndDevice\<lparr>RegistrationLink := Some ''/edev/1/rg''\<rparr>"

lemma demo_GetRegistration:
  "GetRegistration (demoClient (Reply 200 [] (Some b))) demoCtx (decRegistration (demoDecoders p)) ''/edev/1/rg'' demoWorld =
     (Inr \<lparr>regPIN = p, regPollRate = 300\<rparr>,
      demoWorld\<lparr>srv := 1, sent := [\<lparr>rqMethod = MethodGet, rqURL = ''https://s/edev/1/rg'', rqBody = []\<rparr>]\<rparr>)"
proof -
  have g: "guarded demoCtx MethodGet KindRegistrationRead demoWorld = (None, demoWorld)"
    using demo_permits [of KindRegistrationRead] by (simp add: derSelfKinds_def)
  show ?thesis
    by (simp add: GetRegistration_def Get_def g getOnce_def attempt_def send_def demoClient_def classifyResponse_def demoDecoders_def)
      (simp add: demoWorld_def)
qed

lemma demo_phase2b:
  "\<exists>w'. runPhase2bRegistration (demoClient (Reply 200 [] (Some b))) demoCtx (demoDecoders p) demoRegistered ''/edev'' demoStrict demoDcap ts demoWorld =
     Some (if p = 111115 then None else Some (PINMismatch (redactPIN (uint p)) ''***15''), demoRegistered, [], w')"
  if "p \<noteq> 0"
  using that
  by (simp add: runPhase2bRegistration_def demoRegistered_def awaitRegistrationLink.simps matchPIN.simps demo_GetRegistration)
    (auto simp: redactPIN_def itoa_def digits.simps char_of_def bit_0 word_uint_eq_iff)

theorem registration_needs_pin_witness:
  "\<exists>w' w0 l rg. runPhase2bRegistration (demoClient (Reply 200 [] (Some ''rg''))) demoCtx (demoDecoders 111115) demoRegistered ''/edev'' demoStrict demoDcap [] demoWorld =
       Some (None, demoRegistered, [], w') \<and>
     GetRegistration (demoClient (Reply 200 [] (Some ''rg''))) demoCtx (decRegistration (demoDecoders 111115)) l w0 = (Inr rg, w') \<and>
     uint (regPIN rg) = 111115"
proof -
  obtain w' where w: "runPhase2bRegistration (demoClient (Reply 200 [] (Some ''rg''))) demoCtx (demoDecoders 111115) demoRegistered ''/edev'' demoStrict demoDcap [] demoWorld =
       Some (None, demoRegistered, [], w')"
    using demo_phase2b [of 111115 "''rg''" "[]"] by auto
  show ?thesis
    using registration_needs_pin [OF w] w by (auto simp: csipStrict_def)
qed

theorem phases_end_with_context_witness:
  "runPhase2bRegistration (demoClient (Reply 200 [] (Some ''rg''))) demoCtx (demoDecoders 0) demoRegistered ''/edev'' demoStrict demoDcap
     [None, None, Some NetCanceled] demoWorld \<noteq> None"
  using phases_end_with_context [of NetCanceled "[None, None, Some NetCanceled]" "demoClient (Reply 200 [] (Some ''rg''))" demoCtx "demoDecoders 0"]
  by simp

end
