(* ===== verification/Notify.thy ===== *)
theory Notify
  imports ClientApi SimMode ControlCache "HOL-Library.Sublist"
begin

text \<open>
  Notifications: the address the client advertises (\<open>cmd/inverterclient/notify_advertise.go\<close>), the subscriptions it
  posts and keeps (\<open>subscription_post.go\<close>, \<open>subscription_register.go\<close>, \<open>subscription_registry.go\<close>), the
  receiver (\<open>notify.go\<close>, \<open>notify_receiver.go\<close>), the dispatchers (\<open>internal/inverter/dispatch\<close>) and the
  router that wakes the sessions of managed devices. XML and the test of an IP address are parameters, and so are the
  numbers of the notification statuses, which another module defines.
\<close>

section \<open>The advertised address\<close>

datatype addrErr = MissingPort | TooManyColons | BadBrackets

definition afterLastColon :: "string \<Rightarrow> string" where
  "afterLastColon s = rev (takeWhile (\<lambda>c. c \<noteq> CHR '':'') (rev s))"

definition beforeLastColon :: "string \<Rightarrow> string" where
  "beforeLastColon s = rev (tl (dropWhile (\<lambda>c. c \<noteq> CHR '':'') (rev s)))"

text \<open>\<open>net.SplitHostPort\<close>.\<close>

definition SplitHostPort :: "string \<Rightarrow> addrErr + (string \<times> string)" where
  "SplitHostPort s =
     (if CHR '':'' \<notin> set s then Inl MissingPort
      else if hd s = CHR ''['' then
        (let r = tl s; host = takeWhile (\<lambda>c. c \<noteq> CHR '']'') r; rest = drop (Suc (length host)) r in
         if CHR '']'' \<notin> set r then Inl BadBrackets
         else if rest = [] then Inl MissingPort
         else if hd rest \<noteq> CHR '':'' then Inl MissingPort
         else if CHR '':'' \<in> set (tl rest) then Inl TooManyColons
         else if CHR ''['' \<in> set r \<or> CHR '']'' \<in> set rest then Inl BadBrackets
         else Inr (host, tl rest))
      else
        (let host = beforeLastColon s in
         if CHR '':'' \<in> set host then Inl TooManyColons
         else if CHR ''['' \<in> set s \<or> CHR '']'' \<in> set s then Inl BadBrackets
         else Inr (host, afterLastColon s)))"

definition JoinHostPort :: "string \<Rightarrow> string \<Rightarrow> string" where
  "JoinHostPort host port =
     (if CHR '':'' \<in> set host then ''['' @ host @ '']:'' @ port else host @ '':'' @ port)"

datatype hostErr = ErrURL | ErrNotBare | ErrAddr addrErr | ErrNil

definition numericPort :: "string \<Rightarrow> bool" where
  "numericPort p = (case atoi p of Some n \<Rightarrow> 0 \<le> n \<and> n \<le> 65535 | None \<Rightarrow> False)"

text \<open>\<open>None\<close> stands for either error: its text is never used.\<close>

definition splitNumericHostPort :: "string \<Rightarrow> (string \<times> string) option" where
  "splitNumericHostPort s =
     (case SplitHostPort s of
        Inl _ \<Rightarrow> None
      | Inr (h, p) \<Rightarrow> if numericPort p then Some (h, p) else None)"

definition notifyHostDelimiters :: string where
  "notifyHostDelimiters = ''/?#@'' @ [CHR 0x5C] @ '' ''"

definition trimBrackets :: "string \<Rightarrow> string" where
  "trimBrackets s =
     (let s = (if s \<noteq> [] \<and> hd s = CHR ''['' then tl s else s)
      in if s \<noteq> [] \<and> last s = CHR '']'' then butlast s else s)"

definition bareHostAndPort :: "string \<Rightarrow> hostErr + (string \<times> bool)" where
  "bareHostAndPort v =
     (if sublist ''://'' v then Inl ErrURL
      else if list_ex (\<lambda>c. c \<in> set notifyHostDelimiters) v then Inl ErrNotBare
      else
        (case splitNumericHostPort v of
           Some (h, _) \<Rightarrow> Inr (h, True)
         | None \<Rightarrow>
             (case SplitHostPort v of
                Inl MissingPort \<Rightarrow> Inr (trimBrackets v, False)
              | Inl TooManyColons \<Rightarrow> Inr (trimBrackets v, False)
              | Inl e \<Rightarrow> Inl (ErrAddr e)
              | Inr _ \<Rightarrow> Inl ErrNil)))"

definition validateNotifyAdvertiseHost :: "string \<Rightarrow> hostErr option" where
  "validateNotifyAdvertiseHost v =
     (if v = [] then None else case bareHostAndPort v of Inl e \<Rightarrow> Some e | Inr _ \<Rightarrow> None)"

definition effectiveNotifyAdvertiseHost :: "string \<Rightarrow> string \<Rightarrow> string" where
  "effectiveNotifyAdvertiseHost advertiseHost boundAddr =
     (if advertiseHost = [] then boundAddr
      else
        (case bareHostAndPort advertiseHost of
           Inl _ \<Rightarrow> advertiseHost
         | Inr (host, hasPort) \<Rightarrow>
             if hasPort then advertiseHost
             else
               (case SplitHostPort boundAddr of
                  Inl _ \<Rightarrow> advertiseHost
                | Inr (_, port) \<Rightarrow> JoinHostPort host port)))"

definition isUnreachableAdvertiseHost :: "(string \<Rightarrow> bool) \<Rightarrow> string \<Rightarrow> bool" where
  "isUnreachableAdvertiseHost loopbackOrUnspecified hostport =
     (let host = (case SplitHostPort hostport of Inr (h, _) \<Rightarrow> h | Inl _ \<Rightarrow> hostport);
          host = trimBrackets host
      in host = ''localhost'' \<or> loopbackOrUnspecified host)"

section \<open>Subscriptions of the own device\<close>

record Subscription =
  sbResource :: string
  NotificationURI :: string

definition PostSubscription :: "'w Client \<Rightarrow> Ctx \<Rightarrow> (Subscription \<Rightarrow> string option) \<Rightarrow> string \<Rightarrow> string \<Rightarrow> string \<Rightarrow> 'w World \<Rightarrow> ('w, string) result" where
  "PostSubscription c ctx enc listHref subscribed url w =
     (if listHref = [] then (Inl (ErrMsg ''PostSubscription: subscriptionListHref required''), w)
      else if subscribed = [] then (Inl (ErrMsg ''PostSubscription: subscribedHref required''), w)
      else if url = [] then (Inl (ErrMsg ''PostSubscription: notifyURL required''), w)
      else
        (case Post c ctx KindSubscriptionPost listHref (enc \<lparr>sbResource = subscribed, NotificationURI = url\<rparr>) w of
           (Inl e, w) \<Rightarrow> (Inl (Wrap (''POST '' @ listHref @ '' subscribe '' @ subscribed @ '': '') e), w)
         | (Inr (location, _), w) \<Rightarrow> (Inr location, w)))"

type_synonym registry = "(string \<times> string) list"

definition regAdd :: "string \<Rightarrow> string \<Rightarrow> registry \<Rightarrow> registry" where
  "regAdd href sub r = (if href = [] then r else AList.update href sub r)"

definition regCancel :: "string \<Rightarrow> registry \<Rightarrow> string \<times> registry" where
  "regCancel href r =
     (if href = [] then ([], r)
      else case map_of r href of None \<Rightarrow> ([], r) | Some prev \<Rightarrow> (prev, AList.delete href r))"

definition regLookup :: "registry \<Rightarrow> string \<Rightarrow> string option" where
  "regLookup r href = map_of r href"

definition regLen :: "registry \<Rightarrow> nat" where
  "regLen r = length r"

definition regSnapshot :: "registry \<Rightarrow> (string \<times> string) list" where
  "regSnapshot r = sort_key fst r"

definition CancelHookFunc :: "string \<Rightarrow> registry \<Rightarrow> registry" where
  "CancelHookFunc href r = snd (regCancel href r)"

text \<open>The hrefs of present links with a non-empty href, in the order of the list.\<close>

definition linkHrefs :: "string option list \<Rightarrow> string list" where
  "linkHrefs ls = [h. Some h \<leftarrow> ls, h \<noteq> []]"

fun subscribeTargets :: "'w Client \<Rightarrow> Ctx \<Rightarrow> (Subscription \<Rightarrow> string option) \<Rightarrow> string \<Rightarrow> string \<Rightarrow> string list \<Rightarrow> registry \<Rightarrow> 'w World \<Rightarrow>
    registry \<times> 'w World" where
  "subscribeTargets c ctx enc listHref url [] out w = (out, w)"
| "subscribeTargets c ctx enc listHref url (h # hs) out w =
     (case PostSubscription c ctx enc listHref h url w of
        (Inl e, w) \<Rightarrow>
          if errorsIs e ErrMethodNotAllowed \<or> isCtxErr e then (out, w)
          else subscribeTargets c ctx enc listHref url hs out w
      | (Inr sub, w) \<Rightarrow> subscribeTargets c ctx enc listHref url hs (regAdd h sub out) w)"

definition registerSubscriptions :: "'w Client \<Rightarrow> Ctx \<Rightarrow> (Subscription \<Rightarrow> string option) \<Rightarrow> EndDevice \<Rightarrow> string \<Rightarrow> 'w World \<Rightarrow> registry \<times> 'w World" where
  "registerSubscriptions c ctx enc ed url w =
     (let listHref = (case SubscriptionListLink ed of None \<Rightarrow> [] | Some h \<Rightarrow> h) in
      if url = [] \<or> listHref = [] then ([], w)
      else subscribeTargets c ctx enc listHref url (linkHrefs [FunctionSetAssignmentsListLink ed, DERListLink ed]) [] w)"

section \<open>The receiver\<close>

record Notification =
  nHref :: string
  SubscribedResource :: string
  NewResourceURI :: string
  nStatus :: "8 word"

record notifyStatuses =
  Subscripted :: "8 word"
  CanceledNoInfo :: "8 word"
  CanceledDefinitionChanged :: "8 word"
  CanceledDeleted :: "8 word"

definition notifyMaxBodyBytes :: nat where "notifyMaxBodyBytes = 64 * 1024"

definition contentTypeSEPXML :: string where "contentTypeSEPXML = ''application/sep+xml''"

text \<open>
  The handler of one request: the status it answers with, and the notification it hands to the dispatcher before it
  answers. \<open>None\<close> as a body is a body that cannot be read.
\<close>

definition notifyHandler :: "(string \<Rightarrow> Notification option) \<Rightarrow> string \<Rightarrow> string \<Rightarrow> string option \<Rightarrow> int \<times> Notification option" where
  "notifyHandler unmarshal meth contentType body =
     (if meth \<noteq> ''POST'' then (405, None)
      else if contentType \<notin> {contentTypeSEPXML, contentTypeSEPXML @ ''; charset=utf-8'', contentTypeSEPXML @ '';charset=utf-8''} then (415, None)
      else
        (case map_option (take (notifyMaxBodyBytes + 1)) body of
           None \<Rightarrow> (400, None)
         | Some b \<Rightarrow>
             if length b > notifyMaxBodyBytes then (400, None)
             else if b = [] then (400, None)
             else
               (case unmarshal b of
                  None \<Rightarrow> (400, None)
                | Some n \<Rightarrow>
                    if SubscribedResource n = [] \<and> NewResourceURI n = [] \<and> nStatus n = 0 then (400, None)
                    else (204, Some n))))"

datatype receiverErr = AlreadyStarted | NotStarted | ErrTLS string | ErrListen string | ErrServe string

record NotifyReceiver =
  listenAddr :: string
  boundTo :: "string option"

text \<open>Without an address there is no receiver.\<close>

definition NewNotifyReceiver :: "string option \<Rightarrow> string \<Rightarrow> receiverErr + NotifyReceiver option" where
  "NewNotifyReceiver tlsErr addr =
     (if addr = [] then Inr None
      else case tlsErr of Some e \<Rightarrow> Inl (ErrTLS e) | None \<Rightarrow> Inr (Some \<lparr>listenAddr = addr, boundTo = None\<rparr>))"

definition Start :: "(string \<Rightarrow> string + string) \<Rightarrow> NotifyReceiver \<Rightarrow> receiverErr option \<times> NotifyReceiver" where
  "Start listen r =
     (if boundTo r \<noteq> None then (Some AlreadyStarted, r)
      else case listen (listenAddr r) of Inl e \<Rightarrow> (Some (ErrListen e), r) | Inr a \<Rightarrow> (None, r\<lparr>boundTo := Some a\<rparr>))"

definition Addr :: "NotifyReceiver \<Rightarrow> receiverErr + string" where
  "Addr r = (case boundTo r of None \<Rightarrow> Inl NotStarted | Some a \<Rightarrow> Inr a)"

definition StopReceiver :: "string option \<Rightarrow> NotifyReceiver \<Rightarrow> receiverErr option \<times> NotifyReceiver" where
  "StopReceiver serveErr r =
     (if boundTo r = None then (Some NotStarted, r) else (map_option ErrServe serveErr, r\<lparr>boundTo := None\<rparr>))"

definition startNotifyReceiver :: "string option \<Rightarrow> (string \<Rightarrow> string + string) \<Rightarrow> string \<Rightarrow> NotifyReceiver option" where
  "startNotifyReceiver tlsErr listen addr =
     (if addr = [] then None
      else
        (case NewNotifyReceiver tlsErr addr of
           Inl _ \<Rightarrow> None
         | Inr None \<Rightarrow> None
         | Inr (Some r) \<Rightarrow>
             (case Start listen r of
                (Some _, _) \<Rightarrow> None
              | (None, r) \<Rightarrow> (case Addr r of Inl _ \<Rightarrow> None | Inr _ \<Rightarrow> Some r))))"

definition notifyURLForReceiver :: "NotifyReceiver option \<Rightarrow> string \<Rightarrow> string" where
  "notifyURLForReceiver rcv advertiseAddr =
     (case rcv of
        None \<Rightarrow> []
      | Some r \<Rightarrow>
          if advertiseAddr \<noteq> [] then ''https://'' @ advertiseAddr @ ''/notify''
          else (case Addr r of Inl _ \<Rightarrow> [] | Inr a \<Rightarrow> if a = [] then [] else ''https://'' @ a @ ''/notify''))"

section \<open>The dispatchers\<close>

text \<open>
  Both roles have the same operations: the list they refresh, and the hook of the registry. The state of a
  dispatch is the cache, the registry and the world.
\<close>

record dispatcherState =
  derControlListHref :: "string option"
  cancelHook :: bool

definition newDispatcherState :: dispatcherState where
  "newDispatcherState = \<lparr>derControlListHref = None, cancelHook = False\<rparr>"

datatype registerErr = ClientRequired | CacheRequired | HrefRequired

definition registerDERControlList :: "bool \<Rightarrow> bool \<Rightarrow> string \<Rightarrow> dispatcherState \<Rightarrow> registerErr option \<times> dispatcherState" where
  "registerDERControlList hasClient hasCache href d =
     (if \<not> hasClient then (Some ClientRequired, d)
      else if \<not> hasCache then (Some CacheRequired, d)
      else if href = [] then (Some HrefRequired, d)
      else (None, d\<lparr>derControlListHref := Some href\<rparr>))"

definition RegisterCancelHook :: "bool \<Rightarrow> dispatcherState \<Rightarrow> dispatcherState" where
  "RegisterCancelHook given d = d\<lparr>cancelHook := given\<rparr>"

definition changedResourceHref :: "Notification \<Rightarrow> string" where
  "changedResourceHref n =
     (if nHref n \<noteq> [] then nHref n else if NewResourceURI n \<noteq> [] then NewResourceURI n else SubscribedResource n)"

definition trimRightSlashes :: "string \<Rightarrow> string" where
  "trimRightSlashes s = rev (dropWhile (\<lambda>c. c = CHR ''/'') (rev s))"

text \<open>Whether the changed resource is the registered list or below it.\<close>

definition isDERControlList :: "string \<Rightarrow> string \<Rightarrow> bool" where
  "isDERControlList changed listHref =
     (if changed = [] \<or> listHref = [] then False
      else changed = listHref \<or> prefix (trimRightSlashes listHref @ ''/'') changed)"

definition refreshDERControlList :: "'w Client \<Rightarrow> Ctx \<Rightarrow> (string \<Rightarrow> DERControlListResult option) \<Rightarrow> string \<Rightarrow> DERControlCache \<Rightarrow> 'w World \<Rightarrow>
    httpErr option \<times> DERControlCache \<times> 'w World" where
  "refreshDERControlList c ctx dec href cache w =
     (case GetDERControlList c ctx dec href w of
        (Inl e, w) \<Rightarrow> (Some e, cache, w)
      | (Inr (l, _), w) \<Rightarrow> (None, Update cache l, w))"

definition Dispatch :: "'w Client \<Rightarrow> Ctx \<Rightarrow> (string \<Rightarrow> DERControlListResult option) \<Rightarrow> notifyStatuses \<Rightarrow> dispatcherState \<Rightarrow> Notification \<Rightarrow>
    DERControlCache \<Rightarrow> registry \<Rightarrow> 'w World \<Rightarrow> DERControlCache \<times> registry \<times> 'w World" where
  "Dispatch c ctx dec st d n cache reg w =
     (if nStatus n = Subscripted st then
        (cache, if cancelHook d then CancelHookFunc (SubscribedResource n) reg else reg, w)
      else
        (case derControlListHref d of
           None \<Rightarrow> (cache, reg, w)
         | Some href \<Rightarrow>
             (let changed = changedResourceHref n in
              if changed = [] then (cache, reg, w)
              else if isDERControlList changed href then
                (case refreshDERControlList c ctx dec href cache w of (_, cache, w) \<Rightarrow> (cache, reg, w))
              else (cache, reg, w))))"

text \<open>The production dispatcher (\<open>production.go\<close>), a type of its own with places marked for a policy to come; the same for now.\<close>

definition productionDispatch :: "'w Client \<Rightarrow> Ctx \<Rightarrow> (string \<Rightarrow> DERControlListResult option) \<Rightarrow> notifyStatuses \<Rightarrow> dispatcherState \<Rightarrow> Notification \<Rightarrow>
    DERControlCache \<Rightarrow> registry \<Rightarrow> 'w World \<Rightarrow> DERControlCache \<times> registry \<times> 'w World" where
  "productionDispatch c ctx dec st d n cache reg w =
     (if nStatus n = Subscripted st then
        (if cancelHook d then (cache, CancelHookFunc (SubscribedResource n) reg, w) else (cache, reg, w))
      else
        (case derControlListHref d of
           None \<Rightarrow> (cache, reg, w)
         | Some href \<Rightarrow>
             (if changedResourceHref n = [] then (cache, reg, w)
              else if isDERControlList (changedResourceHref n) href then
                (case refreshDERControlList c ctx dec href cache w of
                   (Some e, cache, w) \<Rightarrow> (cache, reg, w)
                 | (None, cache, w) \<Rightarrow> (cache, reg, w))
              else (cache, reg, w))))"

lemma production_dispatches_alike: "productionDispatch c ctx dec st d n cache reg w = Dispatch c ctx dec st d n cache reg w"
  by (simp add: productionDispatch_def Dispatch_def Let_def split: option.split prod.split)

section \<open>The router\<close>

text \<open>What a control session keeps of its subscriptions; the sessions are numbered.\<close>

record subscriber =
  subs :: "string list"
  noSubs :: bool
  wake :: bool

type_synonym router = "(string \<times> nat list) list"

definition kick :: "subscriber \<Rightarrow> subscriber" where
  "kick s = s\<lparr>wake := True\<rparr>"

definition subscribedTo :: "subscriber \<Rightarrow> string \<Rightarrow> bool" where
  "subscribedTo s href \<longleftrightarrow> href \<in> set (subs s)"

definition setSubscribed :: "string \<Rightarrow> bool \<Rightarrow> subscriber \<Rightarrow> subscriber" where
  "setSubscribed href on s = s\<lparr>subs := (if on then List.insert href (subs s) else removeAll href (subs s))\<rparr>"

definition watchersOf :: "router \<Rightarrow> string \<Rightarrow> nat list" where
  "watchersOf r href = (case map_of r href of None \<Rightarrow> [] | Some ws \<Rightarrow> ws)"

definition watch :: "string \<Rightarrow> nat \<Rightarrow> router \<Rightarrow> router" where
  "watch href i r = (if i \<in> set (watchersOf r href) then r else AList.update href (watchersOf r href @ [i]) r)"

definition endsSubscription :: "notifyStatuses \<Rightarrow> Notification \<Rightarrow> bool" where
  "endsSubscription st n \<longleftrightarrow>
     nStatus n = CanceledNoInfo st \<or> nStatus n = CanceledDefinitionChanged st \<or> nStatus n = CanceledDeleted st"

definition routedHref :: "Notification \<Rightarrow> string" where
  "routedHref n = (if SubscribedResource n = [] then nHref n else SubscribedResource n)"

definition wakeSession :: "notifyStatuses \<Rightarrow> Notification \<Rightarrow> subscriber \<Rightarrow> subscriber" where
  "wakeSession st n s = kick (if endsSubscription st n then setSubscribed (routedHref n) False s else s)"

definition route :: "notifyStatuses \<Rightarrow> router \<Rightarrow> Notification \<Rightarrow> subscriber list \<Rightarrow> bool \<times> subscriber list" where
  "route st r n ss =
     (let ws = watchersOf r (routedHref n)
      in (ws \<noteq> [], foldl (\<lambda>ss i. ss[i := wakeSession st n (ss ! i)]) ss ws))"

definition routeThenDispatch :: "'w Client \<Rightarrow> Ctx \<Rightarrow> (string \<Rightarrow> DERControlListResult option) \<Rightarrow> notifyStatuses \<Rightarrow> router \<Rightarrow> dispatcherState \<Rightarrow> Notification \<Rightarrow>
    subscriber list \<Rightarrow> DERControlCache \<Rightarrow> registry \<Rightarrow> 'w World \<Rightarrow> subscriber list \<times> DERControlCache \<times> registry \<times> 'w World" where
  "routeThenDispatch c ctx dec st r d n ss cache reg w =
     (case route st r n ss of
        (True, ss) \<Rightarrow> (ss, cache, reg, w)
      | (False, ss) \<Rightarrow> (ss, Dispatch c ctx dec st d n cache reg w))"

text \<open>A session subscribes to what it walks, as its device: \<open>None\<close> when nobody delivers.\<close>

fun subscribeAll :: "'w Client \<Rightarrow> Ctx \<Rightarrow> (Subscription \<Rightarrow> string option) \<Rightarrow> string \<Rightarrow> string \<Rightarrow> nat \<Rightarrow> bool \<Rightarrow> string list \<Rightarrow> router \<Rightarrow> subscriber \<Rightarrow> 'w World \<Rightarrow>
    router \<times> subscriber \<times> 'w World" where
  "subscribeAll c ctx enc listHref url i done' [] r s w = (r, s, w)"
| "subscribeAll c ctx enc listHref url i done' (h # hs) r s w =
     (if subscribedTo s h then subscribeAll c ctx enc listHref url i done' hs r s w
      else
        (let r = watch h i r; s = setSubscribed h True s in
         case PostSubscription c ctx enc listHref h url w of
           (Inr _, w) \<Rightarrow> subscribeAll c ctx enc listHref url i done' hs r s w
         | (Inl e, w) \<Rightarrow>
             (let s = setSubscribed h False s in
              if errorsIs e ErrMethodNotAllowed then (r, s\<lparr>noSubs := True\<rparr>, w)
              else if done' then (r, s, w)
              else subscribeAll c ctx enc listHref url i done' hs r s w)))"

definition subscribe :: "'w Client \<Rightarrow> Ctx \<Rightarrow> (Subscription \<Rightarrow> string option) \<Rightarrow> string option \<Rightarrow> EndDevice \<Rightarrow> nat \<Rightarrow> bool \<Rightarrow> string list \<Rightarrow> router \<Rightarrow> subscriber \<Rightarrow> 'w World \<Rightarrow>
    router \<times> subscriber \<times> 'w World" where
  "subscribe c ctx enc url ed i done' hrefs r s w =
     (let listHref = (case SubscriptionListLink ed of None \<Rightarrow> [] | Some h \<Rightarrow> h) in
      case url of
        None \<Rightarrow> (r, s, w)
      | Some u \<Rightarrow>
          if noSubs s \<or> listHref = [] then (r, s, w)
          else subscribeAll c ctx enc listHref u i done' hrefs r s w)"

section \<open>Addresses\<close>

abbreviation bracketFree :: "string \<Rightarrow> bool" where
  "bracketFree s \<equiv> CHR ''['' \<notin> set s \<and> CHR '']'' \<notin> set s"

lemma lastColon_append:
  assumes "CHR '':'' \<notin> set p"
  shows "afterLastColon (h @ '':'' @ p) = p" "beforeLastColon (h @ '':'' @ p) = h"
proof -
  have "takeWhile (\<lambda>c. c \<noteq> CHR '':'') (rev p @ CHR '':'' # rev h) = rev p" "dropWhile (\<lambda>c. c \<noteq> CHR '':'') (rev p @ CHR '':'' # rev h) = CHR '':'' # rev h"
    using assms by (auto simp: takeWhile_append dropWhile_append)
  then show "afterLastColon (h @ '':'' @ p) = p" "beforeLastColon (h @ '':'' @ p) = h"
    by (simp_all add: afterLastColon_def beforeLastColon_def)
qed

lemma afterLastColon_colonless: "CHR '':'' \<notin> set (afterLastColon s)" "set (afterLastColon s) \<subseteq> set s"
  by (auto simp: afterLastColon_def dest: set_takeWhileD)

lemma SplitHostPort_port: "SplitHostPort s = Inr (h, p) \<Longrightarrow> CHR '':'' \<notin> set p \<and> bracketFree p"
  using afterLastColon_colonless [of s]
  by (auto simp: SplitHostPort_def Let_def split: if_splits dest: in_set_dropD list.set_sel(2) [rotated])

lemma SplitHostPort_Join:
  assumes "bracketFree h" "CHR '':'' \<notin> set p" "bracketFree p"
  shows "SplitHostPort (JoinHostPort h p) = Inr (h, p)"
proof (cases "CHR '':'' \<in> set h")
  case True
  have t: "takeWhile (\<lambda>c. c \<noteq> CHR '']'') (h @ CHR '']'' # CHR '':'' # p) = h"
    using assms(1) by (induction h) auto
  show ?thesis
    using True assms by (simp add: JoinHostPort_def SplitHostPort_def t Let_def)
next
  case False
  then have "hd (h @ '':'' @ p) \<noteq> CHR ''[''" using assms(1) by (cases h) auto
  then have "SplitHostPort (h @ '':'' @ p) = Inr (h, p)"
    using False assms lastColon_append [OF assms(2), of h] by (simp add: SplitHostPort_def Let_def)
  with False show ?thesis by (simp add: JoinHostPort_def)
qed

text \<open>What a start accepts as the host to advertise is turned into an address a server can parse, with the
  port it named itself or the one the receiver is bound to; IPv6 addresses come out in brackets. The host
  must not hold a bracket but an outer pair.
\<close>

theorem advertised_address_complete:
  assumes "validateNotifyAdvertiseHost v = None" "SplitHostPort boundAddr = Inr (bh, bp)" "bracketFree (trimBrackets v) \<or> splitNumericHostPort v \<noteq> None"
  shows "\<exists>h p. SplitHostPort (effectiveNotifyAdvertiseHost v boundAddr) = Inr (h, p) \<and>
    (if v = [] then h = bh \<and> p = bp
     else case splitNumericHostPort v of Some hp \<Rightarrow> (h, p) = hp | None \<Rightarrow> h = trimBrackets v \<and> p = bp)"
proof (cases "v = [] \<or> splitNumericHostPort v \<noteq> None")
  case True
  then show ?thesis
    using assms(1,2)
    by (auto simp: effectiveNotifyAdvertiseHost_def validateNotifyAdvertiseHost_def bareHostAndPort_def splitNumericHostPort_def
        split: sum.splits if_splits option.splits)
next
  case False
  then have "effectiveNotifyAdvertiseHost v boundAddr = JoinHostPort (trimBrackets v) bp"
    using assms(1,2)
    by (auto simp: effectiveNotifyAdvertiseHost_def validateNotifyAdvertiseHost_def bareHostAndPort_def
        split: sum.splits if_splits option.splits addrErr.splits)
  moreover have "splitNumericHostPort v = None" using False by blast
  ultimately show ?thesis
    using False SplitHostPort_Join [of "trimBrackets v" bp] SplitHostPort_port [OF assms(2)] assms(3) by simp
qed

text \<open>
  An accepted host that no server can parse: a bracket inside the host passes the check, which looks only at the error of the parser.
\<close>

lemma malformed_host_advertised:
  "validateNotifyAdvertiseHost ''[a]b'' = None \<and> effectiveNotifyAdvertiseHost ''[a]b'' ''127.0.0.1:8443'' = ''a]b:8443'' \<and>
   SplitHostPort ''a]b:8443'' = Inl BadBrackets"
  by (simp add: validateNotifyAdvertiseHost_def effectiveNotifyAdvertiseHost_def bareHostAndPort_def SplitHostPort_def
      splitNumericHostPort_def notifyHostDelimiters_def trimBrackets_def JoinHostPort_def afterLastColon_def beforeLastColon_def sublist_code prefix_code)

section \<open>What a notification can do\<close>

lemma map_of_delete: "map_of (AList.delete k r) k' = (if k' = k then None else map_of r k')"
  by (simp add: delete_conv')

lemma CancelHook_lookup:
  "href \<noteq> [] \<Longrightarrow> regLookup (CancelHookFunc href r) h = (if h = href then None else regLookup r h)"
  by (auto simp: CancelHookFunc_def regCancel_def regLookup_def map_of_delete split: option.splits)

text \<open>C31: A notification is a hint, never data: a dispatch leaves the cache alone or replaces it by what a read of the
  registered list answered, it reads nothing else, and it drops a subscription from the registry only when its
  status says that the server ended it.
\<close>

theorem notification_only_rereads:
  assumes "Dispatch c ctx dec st d n cache reg w = (cache', reg', w')"
  shows "((cache', w') = (cache, w) \<or>
      (\<exists>href r. derControlListHref d = Some href \<and> isDERControlList (changedResourceHref n) href \<and> GetDERControlList c ctx dec href w = (r, w') \<and>
         cache' = (case r of Inl _ \<Rightarrow> cache | Inr (l, _) \<Rightarrow> Update cache l))) \<and>
    (reg' = reg \<or> nStatus n = Subscripted st \<and> (cache', w') = (cache, w) \<and>
       (\<forall>h. regLookup reg' h = (if h = SubscribedResource n then None else regLookup reg h)))"
proof (cases "nStatus n = Subscripted st")
  case True
  then have e: "cache' = cache" "w' = w" "reg' = (if cancelHook d then CancelHookFunc (SubscribedResource n) reg else reg)"
    using assms by (auto simp: Dispatch_def)
  show ?thesis
  proof (cases "SubscribedResource n = []")
    case True
    then have "reg' = reg" using e by (auto simp: CancelHookFunc_def regCancel_def)
    then show ?thesis using e by simp
  next
    case False
    then show ?thesis using e \<open>nStatus n = Subscripted st\<close> CancelHook_lookup [of "SubscribedResource n" reg] by auto
  qed
next
  case False
  then show ?thesis
    using assms by (auto simp: Dispatch_def refreshDERControlList_def Let_def split: option.splits if_splits prod.splits sum.splits)
qed

section \<open>Subscriptions and their watchers\<close>

lemma watchersOf_watch: "set (watchersOf (watch href i r) h) = set (watchersOf r h) \<union> (if h = href then {i} else {})"
  by (auto simp: watch_def watchersOf_def update_conv' split: option.splits)

lemma subscribedTo_set: "subscribedTo (setSubscribed href on s) h = (if h = href then on else subscribedTo s h)"
  by (simp add: subscribedTo_def setSubscribed_def)

definition watched :: "nat \<Rightarrow> router \<Rightarrow> subscriber \<Rightarrow> bool" where
  "watched i r s \<longleftrightarrow> (\<forall>h. subscribedTo s h \<longrightarrow> i \<in> set (watchersOf r h))"

definition grown :: "router \<times> subscriber \<Rightarrow> router \<times> subscriber \<Rightarrow> bool" where
  "grown x y \<longleftrightarrow> (\<forall>h. set (watchersOf (fst x) h) \<subseteq> set (watchersOf (fst y) h)) \<and>
     (\<forall>h. subscribedTo (snd x) h \<longrightarrow> subscribedTo (snd y) h) \<and> wake (snd y) = wake (snd x)"

lemma grown_refl [simp]: "grown x x"
  by (simp add: grown_def)

lemma grown_trans: "grown x y \<Longrightarrow> grown y z \<Longrightarrow> grown x z"
  by (simp add: grown_def) blast

lemma subscribe_one:
  assumes "watched i r s" "\<not> subscribedTo s h"
  shows "watched i (watch h i r) (setSubscribed h True s)" "watched i (watch h i r) (setSubscribed h False (setSubscribed h True s))"
    "grown (r, s) (watch h i r, setSubscribed h True s)" "grown (r, s) (watch h i r, setSubscribed h False (setSubscribed h True s))"
proof -
  have "wake (setSubscribed h on s) = wake s" for on s by (simp add: setSubscribed_def)
  then show "watched i (watch h i r) (setSubscribed h True s)" "watched i (watch h i r) (setSubscribed h False (setSubscribed h True s))"
    "grown (r, s) (watch h i r, setSubscribed h True s)" "grown (r, s) (watch h i r, setSubscribed h False (setSubscribed h True s))"
    using assms by (auto simp: watched_def grown_def watchersOf_watch subscribedTo_set)
qed

lemma subscribeAll_watched:
  assumes "subscribeAll c ctx enc listHref url i done' hs r s w = (r', s', w')" "watched i r s"
  shows "watched i r' s' \<and> grown (r, s) (r', s')"
  using assms
proof (induction hs arbitrary: r s w)
  case (Cons h hs)
  show ?case
  proof (cases "subscribedTo s h")
    case True
    with Cons show ?thesis by simp
  next
    case False
    let ?r = "watch h i r" and ?s = "setSubscribed h True s"
    note one = subscribe_one [OF Cons.prems(2) False]
    obtain x w1 where p: "PostSubscription c ctx enc listHref h url w = (x, w1)" by force
    consider "subscribeAll c ctx enc listHref url i done' hs ?r ?s w1 = (r', s', w')"
      | "r' = ?r" "s' = setSubscribed h False ?s\<lparr>noSubs := True\<rparr>" | "r' = ?r" "s' = setSubscribed h False ?s"
      | "subscribeAll c ctx enc listHref url i done' hs ?r (setSubscribed h False ?s) w1 = (r', s', w')"
      using Cons.prems(1) False p by (cases x) (auto simp: Let_def split: if_splits)
    then show ?thesis
    proof cases
      case 1
      show ?thesis using Cons.IH [OF 1 one(1)] grown_trans [OF one(3)] by simp
    next
      case 2
      then show ?thesis using one(2,4) by (simp add: watched_def grown_def subscribedTo_def)
    next
      case 3
      then show ?thesis using one(2,4) by simp
    next
      case 4
      show ?thesis using Cons.IH [OF 4 one(2)] grown_trans [OF one(4)] by simp
    qed
  qed
qed simp

lemma foldl_update_nth:
  "j < length ss \<Longrightarrow> distinct ws \<Longrightarrow> foldl (\<lambda>ss i. ss[i := f (ss ! i)]) ss ws ! j = (if j \<in> set ws then f (ss ! j) else ss ! j)"
proof (induction ws arbitrary: ss)
  case (Cons a ws)
  then show ?case by (cases "j = a") auto
qed simp

lemma foldl_update_length [simp]: "length (foldl (\<lambda>ss i. ss[i := f (ss ! i)]) ss ws) = length ss"
  by (induction ws arbitrary: ss) simp_all

definition routerOK :: "router \<Rightarrow> subscriber list \<Rightarrow> bool" where
  "routerOK r ss \<longleftrightarrow> (\<forall>h. distinct (watchersOf r h)) \<and> (\<forall>i < length ss. watched i r (ss ! i))"

lemma watch_distinct: "\<forall>h. distinct (watchersOf r h) \<Longrightarrow> \<forall>h. distinct (watchersOf (watch href i r) h)"
  by (auto simp: watch_def watchersOf_def update_conv' split: option.splits)

lemma subscribeAll_distinct:
  "subscribeAll c ctx enc listHref url i done' hs r s w = (r', s', w') \<Longrightarrow> \<forall>h. distinct (watchersOf r h) \<Longrightarrow> \<forall>h. distinct (watchersOf r' h)"
proof (induction hs arbitrary: r s w)
  case (Cons h hs)
  then show ?case
    by (auto simp: Let_def watch_distinct split: if_splits prod.splits sum.splits)
qed simp

lemma subscribe_routerOK:
  assumes "routerOK r ss" "i < length ss" "subscribe c ctx enc url ed i done' hrefs r (ss ! i) w = (r', s', w')"
  shows "routerOK r' (ss[i := s'])"
proof -
  consider "r' = r" "s' = ss ! i" | u l where "subscribeAll c ctx enc l u i done' hrefs r (ss ! i) w = (r', s', w')"
    using assms(3) by (auto simp: subscribe_def Let_def split: option.splits if_splits)
  then show ?thesis
  proof cases
    case 1
    with assms show ?thesis by simp
  next
    case 2
    have g: "watched i r' s' \<and> grown (r, ss ! i) (r', s')"
      using subscribeAll_watched [OF 2] assms by (simp add: routerOK_def)
    have "watched j r' (ss ! j)" if "j < length ss" for j
      using assms that g by (fastforce simp: routerOK_def watched_def grown_def)
    then have "watched j r' (ss[i := s'] ! j)" if "j < length ss" for j
      using g that by (cases "j = i") auto
    then show ?thesis
      using subscribeAll_distinct [OF 2] assms by (simp add: routerOK_def)
  qed
qed

lemma wakeSession_simps:
  "wake (wakeSession st n s)"
  "subscribedTo (wakeSession st n s) h = (subscribedTo s h \<and> \<not> (endsSubscription st n \<and> h = routedHref n))"
  by (auto simp: wakeSession_def kick_def subscribedTo_def setSubscribed_def)

lemma route_sessions:
  assumes "routerOK r ss" "route st r n ss = (hit, ss')"
  shows "length ss' = length ss" "hit = (watchersOf r (routedHref n) \<noteq> [])"
    "i < length ss \<Longrightarrow> ss' ! i = (if i \<in> set (watchersOf r (routedHref n)) then wakeSession st n (ss ! i) else ss ! i)"
  using assms foldl_update_nth [of i ss "watchersOf r (routedHref n)" "wakeSession st n"]
  by (auto simp: route_def Let_def routerOK_def)

text \<open>C32: No subscription of a session goes unwatched: whatever walks subscribe and whatever notifications
  arrive, a session that holds a subscription to a list is among the sessions a notification for that list
  wakes. A notification wakes exactly the sessions that watch its list; one that says the subscription
  ended makes each of them forget it, so that the next walk subscribes again; it reaches the dispatcher
  only when nobody watches.
\<close>

theorem subscriptions_are_watched:
  assumes "routerOK r ss"
  shows "(\<forall>i r' s' w'. i < length ss \<longrightarrow> subscribe c ctx enc url ed i done' hrefs r (ss ! i) w = (r', s', w') \<longrightarrow> routerOK r' (ss[i := s'])) \<and>
    (\<forall>hit ss'. route st r n ss = (hit, ss') \<longrightarrow>
      routerOK r ss' \<and> length ss' = length ss \<and> hit = (watchersOf r (routedHref n) \<noteq> []) \<and>
      (\<forall>i < length ss. if i \<in> set (watchersOf r (routedHref n))
        then wake (ss' ! i) \<and> (\<forall>h. subscribedTo (ss' ! i) h = (subscribedTo (ss ! i) h \<and> \<not> (endsSubscription st n \<and> h = routedHref n)))
        else ss' ! i = ss ! i)) \<and>
    (watchersOf r (routedHref n) \<noteq> [] \<longrightarrow> snd (routeThenDispatch c ctx dec st r d n ss cache reg w) = (cache, reg, w))"
proof (intro conjI allI impI)
  show "routerOK r' (ss[i := s'])" if "i < length ss" "subscribe c ctx enc url ed i done' hrefs r (ss ! i) w = (r', s', w')" for i r' s' w'
    by (rule subscribe_routerOK [OF assms that])
next
  fix hit ss'
  assume r: "route st r n ss = (hit, ss')"
  note e = route_sessions [OF assms r]
  show "routerOK r ss'"
    using assms e(1,3) by (auto simp: routerOK_def watched_def wakeSession_simps)
  show "length ss' = length ss" "hit = (watchersOf r (routedHref n) \<noteq> [])" by (rule e)+
  show "if i \<in> set (watchersOf r (routedHref n))
      then wake (ss' ! i) \<and> (\<forall>h. subscribedTo (ss' ! i) h = (subscribedTo (ss ! i) h \<and> \<not> (endsSubscription st n \<and> h = routedHref n)))
      else ss' ! i = ss ! i" if "i < length ss" for i
    using e(3) [OF that] by (simp add: wakeSession_simps)
next
  assume "watchersOf r (routedHref n) \<noteq> []"
  then show "snd (routeThenDispatch c ctx dec st r d n ss cache reg w) = (cache, reg, w)"
    by (simp add: routeThenDispatch_def route_def Let_def)
qed

section \<open>Examples\<close>

abbreviation demoStatuses :: notifyStatuses where
  "demoStatuses \<equiv> \<lparr>Subscripted = 1, CanceledNoInfo = 1, CanceledDefinitionChanged = 3, CanceledDeleted = 4\<rparr>"

definition demoNotice :: "string \<Rightarrow> 8 word \<Rightarrow> Notification" where
  "demoNotice href s = \<lparr>nHref = [], SubscribedResource = href, NewResourceURI = [], nStatus = s\<rparr>"

theorem advertised_address_complete_witness:
  "\<exists>h p. SplitHostPort (effectiveNotifyAdvertiseHost ''fd00::1'' ''0.0.0.0:8443'') = Inr (h, p) \<and> h = ''fd00::1'' \<and> p = ''8443''"
proof -
  have v: "validateNotifyAdvertiseHost ''fd00::1'' = None" "trimBrackets ''fd00::1'' = ''fd00::1''" "splitNumericHostPort ''fd00::1'' = None"
    "SplitHostPort ''0.0.0.0:8443'' = Inr (''0.0.0.0'', ''8443'')"
    by (simp_all add: validateNotifyAdvertiseHost_def bareHostAndPort_def SplitHostPort_def splitNumericHostPort_def notifyHostDelimiters_def
        trimBrackets_def afterLastColon_def beforeLastColon_def sublist_code prefix_code)
  show ?thesis
    using advertised_address_complete [OF v(1,4)] v(2,3) by simp
qed

lemma demo_Dispatch:
  "Dispatch (demoClient (TransportFail NetCanceled)) demoCtx dec demoStatuses \<lparr>derControlListHref = Some ''/derc'', cancelHook = True\<rparr>
     (demoNotice ''/fsa'' 1) NewDERControlCache [(''/fsa'', ''/sub/1''), (''/der'', ''/sub/2'')] demoWorld =
     (NewDERControlCache, [(''/der'', ''/sub/2'')], demoWorld)"
  by (simp add: Dispatch_def demoNotice_def CancelHookFunc_def regCancel_def)

theorem notification_only_rereads_witness:
  "regLookup [(''/der'', ''/sub/2'')] ''/fsa'' = None \<and> regLookup [(''/der'', ''/sub/2'')] ''/der'' = Some ''/sub/2''"
  using notification_only_rereads [OF demo_Dispatch [of "\<lambda>_. None"]] by (auto simp: regLookup_def)

definition demoRouter :: router where
  "demoRouter = [(''/fsa'', [0, 1]), (''/derp'', [1])]"

definition demoSubscriber :: "string list \<Rightarrow> subscriber" where
  "demoSubscriber hs = \<lparr>subs = hs, noSubs = False, wake = False\<rparr>"

lemma demo_routerOK: "routerOK demoRouter [demoSubscriber [''/fsa''], demoSubscriber [''/fsa'', ''/derp'']]"
  by (auto simp: routerOK_def demoRouter_def demoSubscriber_def watchersOf_def watched_def subscribedTo_def less_Suc_eq split: option.splits if_splits)

theorem subscriptions_are_watched_witness:
  "\<exists>hit ss'. route demoStatuses demoRouter (demoNotice ''/derp'' 3) [demoSubscriber [''/fsa''], demoSubscriber [''/fsa'', ''/derp'']] = (hit, ss') \<and>
     hit \<and> wake (ss' ! 1) \<and> \<not> subscribedTo (ss' ! 1) ''/derp'' \<and> subscribedTo (ss' ! 1) ''/fsa'' \<and> ss' ! 0 = demoSubscriber [''/fsa'']"
proof -
  obtain hit ss' where r: "route demoStatuses demoRouter (demoNotice ''/derp'' 3) [demoSubscriber [''/fsa''], demoSubscriber [''/fsa'', ''/derp'']] = (hit, ss')"
    by force
  have w: "watchersOf demoRouter ''/derp'' = [1]" "routedHref (demoNotice ''/derp'' 3) = ''/derp''" "endsSubscription demoStatuses (demoNotice ''/derp'' 3)"
    "subscribedTo (demoSubscriber [''/fsa'', ''/derp'']) ''/fsa''"
    by (simp_all add: demoRouter_def watchersOf_def routedHref_def demoNotice_def endsSubscription_def subscribedTo_def demoSubscriber_def)
  show ?thesis
    using subscriptions_are_watched [OF demo_routerOK, of "demoClient (TransportFail NetCanceled)" demoCtx "\<lambda>_. None" None blankEndDevice False "[]" demoWorld
        demoStatuses "demoNotice ''/derp'' 3" "\<lambda>_. None" newDispatcherState NewDERControlCache "[]"] r w
    by (auto simp: less_Suc_eq)
qed

end
