(* ===== verification/Retry.thy ===== *)
theory Retry
  imports ClientApi F64
begin

text \<open>
  The retry policy for Responses, \<open>internal/inverter/response_retry.go\<close>: a bounded number of posts with a
  growing wait between them, and a dead letter when all of them fail. The poster is an interface of the
  policy (locale \<open>response_poster\<close>), interpreted on the client's \<open>PostResponse\<close>; the clock that waits is a
  parameter.
\<close>

section \<open>The configuration\<close>

record ResponseRetryConfig =
  MaxAttempts :: int
  InitialDelay :: duration
  MaxDelay :: duration
  BackoffMultiplier :: f64

definition DefaultResponseRetryConfig :: ResponseRetryConfig where
  "DefaultResponseRetryConfig =
     \<lparr>MaxAttempts = 3, InitialDelay = 500000000, MaxDelay = 30000000000, BackoffMultiplier = Fin 2\<rparr>"

definition withDefaults :: "ResponseRetryConfig \<Rightarrow> ResponseRetryConfig" where
  "withDefaults cfg =
     \<lparr>MaxAttempts = (if MaxAttempts cfg \<le> 0 then 3 else MaxAttempts cfg),
      InitialDelay = (if InitialDelay cfg \<le> 0 then 500000000 else InitialDelay cfg),
      MaxDelay = (if MaxDelay cfg \<le> 0 then 30000000000 else MaxDelay cfg),
      BackoffMultiplier = (if BackoffMultiplier cfg < Fin 1 then Fin 2 else BackoffMultiplier cfg)\<rparr>"

text \<open>The advance of the schedule: a product in floating point, then the cap.\<close>

definition nextDelay :: "ResponseRetryConfig \<Rightarrow> duration \<Rightarrow> duration" where
  "nextDelay cfg delay =
     (let d = toInt64 (ofInt delay * BackoffMultiplier cfg)
      in if d > MaxDelay cfg then MaxDelay cfg else d)"

definition identifyResponse :: "DERControlResponse \<Rightarrow> string \<times> 8 word" where
  "identifyResponse resp = (Subject resp, case rStatus resp of None \<Rightarrow> 0 | Some s \<Rightarrow> s)"

section \<open>The loop\<close>

text \<open>
  The outcome, with what happened on the way: the number of posts, the waits in order, and the dead letter
  when one was logged (event, status, LFDI and number of attempts).
\<close>

record retryOut =
  roErr :: "httpErr option"
  roPosts :: nat
  roWaits :: "duration list"
  roDead :: "(string \<times> 8 word \<times> string \<times> int) option"

text \<open>The third argument is the attempts that are left, the first of them included.\<close>

fun retryLoop :: "('w \<Rightarrow> httpErr option \<times> 'w) \<Rightarrow> (duration \<Rightarrow> 'w \<Rightarrow> httpErr option \<times> 'w) \<Rightarrow> nat \<Rightarrow> ResponseRetryConfig \<Rightarrow>
    DERControlResponse \<Rightarrow> duration \<Rightarrow> 'w \<Rightarrow> retryOut \<times> 'w" where
  "retryLoop post wait 0 cfg resp delay w = (\<lparr>roErr = None, roPosts = 0, roWaits = [], roDead = None\<rparr>, w)"
| "retryLoop post wait (Suc n) cfg resp delay w =
     (case post w of
        (None, w) \<Rightarrow> (\<lparr>roErr = None, roPosts = 1, roWaits = [], roDead = None\<rparr>, w)
      | (Some err, w) \<Rightarrow>
          if isCtxErr err then
            (\<lparr>roErr = Some (Wrap ''post response: '' err), roPosts = 1, roWaits = [], roDead = None\<rparr>, w)
          else if \<not> errorsIs err ErrResponseTransient then
            (\<lparr>roErr = Some err, roPosts = 1, roWaits = [], roDead = None\<rparr>, w)
          else if n = 0 then
            (let (mrid, status) = identifyResponse resp
             in (\<lparr>roErr = Some (Wrap (''post response failed after '' @ itoa (MaxAttempts cfg) @ '' attempts: '') err),
                  roPosts = 1, roWaits = [], roDead = Some (mrid, status, EndDeviceLFDI resp, MaxAttempts cfg)\<rparr>, w))
          else
            (case wait delay w of
               (Some we, w) \<Rightarrow>
                 (\<lparr>roErr = Some (Wrap ''post response: '' we), roPosts = 1, roWaits = [delay], roDead = None\<rparr>, w)
             | (None, w) \<Rightarrow>
                 (case retryLoop post wait n cfg resp (nextDelay cfg delay) w of
                    (out, w) \<Rightarrow> (out\<lparr>roPosts := roPosts out + 1, roWaits := delay # roWaits out\<rparr>, w))))"

text \<open>\<open>ctxErr\<close> is the context's error before the first attempt.\<close>

definition postResponseWithRetryClock :: "httpErr option \<Rightarrow> ('w \<Rightarrow> httpErr option \<times> 'w) \<Rightarrow> (duration \<Rightarrow> 'w \<Rightarrow> httpErr option \<times> 'w) \<Rightarrow>
    DERControlResponse \<Rightarrow> ResponseRetryConfig \<Rightarrow> 'w \<Rightarrow> retryOut \<times> 'w" where
  "postResponseWithRetryClock ctxErr post wait resp cfg0 w =
     (let cfg = withDefaults cfg0 in
        case ctxErr of
          Some e \<Rightarrow> (\<lparr>roErr = Some (Wrap ''post response: '' e), roPosts = 0, roWaits = [], roDead = None\<rparr>, w)
        | None \<Rightarrow> retryLoop post wait (nat (MaxAttempts cfg)) cfg resp (InitialDelay cfg) w)"

section \<open>The poster\<close>

locale response_poster =
  fixes post :: "'w \<Rightarrow> httpErr option \<times> 'w"
    and sentOf :: "'w \<Rightarrow> 'r list"
    and isPost :: "'r \<Rightarrow> bool"
  assumes post_sends: "\<exists>rs. sentOf (snd (post w)) = sentOf w @ rs \<and> length rs \<le> 2 \<and> list_all isPost rs"
begin

lemma retry_sends:
  assumes "\<And>d w. sentOf (snd (wait d w)) = sentOf w"
    and "retryLoop post wait n cfg resp delay w = (out, w')"
  shows "\<exists>rs. sentOf w' = sentOf w @ rs \<and> length rs \<le> 2 * roPosts out \<and> list_all isPost rs"
  using assms(2)
proof (induction n arbitrary: delay w out w')
  case 0
  then show ?case by auto
next
  case (Suc n)
  obtain r w1 where p: "post w = (r, w1)" by fastforce
  obtain a where a: "sentOf w1 = sentOf w @ a" "length a \<le> 2" "list_all isPost a"
    using post_sends [of w] p by auto
  show ?case
  proof (cases "w' = w1 \<and> 1 \<le> roPosts out")
    case True
    with a show ?thesis by (intro exI [of _ a]) auto
  next
    case more: False
    then obtain err where r: "r = Some err" using Suc.prems p by (cases r) auto
    obtain r2 w2 where wt: "wait delay w1 = (r2, w2)" by fastforce
    have s2: "sentOf w2 = sentOf w1" using assms(1) [of delay w1] wt by simp
    show ?thesis
    proof (cases r2)
      case None
      obtain o1 w3 where l: "retryLoop post wait n cfg resp (nextDelay cfg delay) w2 = (o1, w3)" by fastforce
      have "w' = w3 \<and> roPosts out = roPosts o1 + 1"
        using Suc.prems more p r wt None l by (auto split: if_splits prod.splits)
      moreover obtain b where "sentOf w3 = sentOf w2 @ b" "length b \<le> 2 * roPosts o1" "list_all isPost b"
        using Suc.IH [OF l] by blast
      ultimately show ?thesis using a s2 by (intro exI [of _ "a @ b"]) auto
    next
      case (Some e)
      have "w' = w2 \<and> roPosts out = 1"
        using Suc.prems more p r wt Some by (auto split: if_splits prod.splits)
      then show ?thesis using a s2 by (intro exI [of _ a]) auto
    qed
  qed
qed

end

section \<open>The schedule\<close>

lemma retry_posts:
  "retryLoop post wait n cfg resp delay w = (out, w') \<Longrightarrow>
     roPosts out \<le> n \<and> (0 < n \<longrightarrow> 1 \<le> roPosts out \<and> length (roWaits out) \<le> n - 1) \<and>
     roWaits out = map (\<lambda>i. (nextDelay cfg ^^ i) delay) [0..<length (roWaits out)]"
proof (induction n arbitrary: delay w out w')
  case 0
  then show ?case by auto
next
  case (Suc n)
  have shift: "delay # map (\<lambda>i. (nextDelay cfg ^^ i) (nextDelay cfg delay)) [0..<k] =
      map (\<lambda>i. (nextDelay cfg ^^ i) delay) [0..<Suc k]" for k
    by (rule nth_equalityI) (auto simp: nth_Cons funpow_swap1 simp del: upt_Suc split: nat.split)
  consider (stop) "roPosts out = 1" "roWaits out = []" | (last) "n \<noteq> 0" "roPosts out = 1" "roWaits out = [delay]"
    | (more) o1 w1 w2 where "n \<noteq> 0" "retryLoop post wait n cfg resp (nextDelay cfg delay) w1 = (o1, w2)"
        "roPosts out = roPosts o1 + 1" "roWaits out = delay # roWaits o1"
    using Suc.prems by (auto simp: split_def Let_def split: prod.splits option.splits if_splits)
  then show ?case
  proof cases
    case stop
    then show ?thesis by simp
  next
    case last
    then show ?thesis by simp
  next
    case more
    then show ?thesis
      using Suc.IH [OF more(2)] shift [of "length (roWaits o1)"] by (auto simp del: upt_Suc)
  qed
qed

lemma fst_witness: "f w = (a, b) \<Longrightarrow> \<exists>w. fst (f w) = a"
  by (metis fst_conv)

lemma retry_outcome:
  assumes "\<And>d w e. fst (wait d w) = Some e \<Longrightarrow> isCtxErr e"
    and "retryLoop post wait (Suc n) cfg resp delay w = (out, w')"
  shows "(roErr out = None \<longrightarrow> (\<exists>w1. fst (post w1) = None)) \<and>
    ((\<exists>e. roErr out = Some e \<and> errorsIs e ErrResponseTransient) \<longleftrightarrow> roDead out \<noteq> None) \<and>
    (roDead out \<noteq> None \<longrightarrow> roPosts out = Suc n \<and> length (roWaits out) = n \<and>
       roDead out = Some (Subject resp, snd (identifyResponse resp), EndDeviceLFDI resp, MaxAttempts cfg))"
  using assms(2)
proof (induction n arbitrary: delay w out w')
  case 0
  then show ?case
    by (cases "post w"; cases "fst (post w)")
      (auto simp: identifyResponse_def errorsIs_def isCtxErr_def split: if_splits intro: fst_witness)
next
  case (Suc n)
  obtain r w1 where p: "post w = (r, w1)" by fastforce
  show ?case
  proof (cases r)
    case None
    then show ?thesis using Suc.prems p by (auto simp: errorsIs_def intro: fst_witness)
  next
    case (Some err)
    show ?thesis
    proof (cases "isCtxErr err \<or> \<not> errorsIs err ErrResponseTransient")
      case True
      then show ?thesis using Suc.prems p Some by (auto simp: isCtxErr_def errorsIs_def split: if_splits)
    next
      case False
      obtain r2 w2 where wt: "wait delay w1 = (r2, w2)" by fastforce
      show ?thesis
      proof (cases r2)
        case None
        obtain o1 w3 where l: "retryLoop post wait (Suc n) cfg resp (nextDelay cfg delay) w2 = (o1, w3)" by fastforce
        have "out = o1\<lparr>roPosts := roPosts o1 + 1, roWaits := delay # roWaits o1\<rparr>"
          using Suc.prems p Some False wt None l by (simp del: retryLoop.simps(2) add: retryLoop.simps(2) [of _ _ "Suc n"])
        then show ?thesis using Suc.IH [OF l] by auto
      next
        case (Some we)
        then have "isCtxErr we" using assms(1) [of delay w1] wt by simp
        moreover have "out = \<lparr>roErr = Some (Wrap ''post response: '' we), roPosts = 1, roWaits = [delay], roDead = None\<rparr>"
          using Suc.prems p \<open>r = Some err\<close> False wt Some by (simp del: retryLoop.simps(2) add: retryLoop.simps(2) [of _ _ "Suc n"])
        ultimately show ?thesis by (auto simp: isCtxErr_def errorsIs_def)
      qed
    qed
  qed
qed

lemma nextDelay_le: "nextDelay cfg d \<le> MaxDelay cfg"
  by (simp add: nextDelay_def Let_def)

lemma withDefaults_pos:
  "1 \<le> MaxAttempts (withDefaults cfg)" "0 < InitialDelay (withDefaults cfg)" "0 < MaxDelay (withDefaults cfg)"
  by (simp_all add: withDefaults_def)

lemma scheduled_wait_le: "(nextDelay cfg ^^ i) d \<le> max d (MaxDelay cfg)"
  using nextDelay_le [of cfg] by (cases i) (auto simp: le_max_iff_disj)

text \<open>A Response is tried at least once and at most \<open>MaxAttempts\<close> times; the waits between the tries are
  the configured schedule from its start, each the product of the one before and capped, so no wait is longer
  than the larger of the first delay and the cap; the error that is returned is transient exactly when a dead
  letter was logged, and that happens exactly when every one of the attempts was used up.\<close>

theorem retry_policy:
  assumes "postResponseWithRetryClock None post wait resp cfg0 w = (out, w')"
    and "\<And>d w e. fst (wait d w) = Some e \<Longrightarrow> isCtxErr e"
  shows "1 \<le> roPosts out \<and> int (roPosts out) \<le> MaxAttempts (withDefaults cfg0) \<and>
    roWaits out = map (\<lambda>i. (nextDelay (withDefaults cfg0) ^^ i) (InitialDelay (withDefaults cfg0))) [0..<length (roWaits out)] \<and>
    list_all (\<lambda>d. d \<le> max (InitialDelay (withDefaults cfg0)) (MaxDelay (withDefaults cfg0))) (roWaits out) \<and>
    ((\<exists>e. roErr out = Some e \<and> errorsIs e ErrResponseTransient) \<longleftrightarrow>
       roDead out = Some (Subject resp, snd (identifyResponse resp), EndDeviceLFDI resp, MaxAttempts (withDefaults cfg0))) \<and>
    (roDead out \<noteq> None \<longrightarrow> int (roPosts out) = MaxAttempts (withDefaults cfg0))"
proof -
  let ?c = "withDefaults cfg0"
  obtain n where n: "nat (MaxAttempts ?c) = Suc n" "MaxAttempts ?c = int (Suc n)"
    using withDefaults_pos(1) [of cfg0] by (cases "nat (MaxAttempts ?c)") (simp_all add: nat_eq_iff)
  have l: "retryLoop post wait (Suc n) ?c resp (InitialDelay ?c) w = (out, w')"
    using assms(1) n by (simp add: postResponseWithRetryClock_def Let_def)
  note posts = retry_posts [OF l]
  have "(roErr out = None \<longrightarrow> (\<exists>w1. fst (post w1) = None)) \<and>
    ((\<exists>e. roErr out = Some e \<and> errorsIs e ErrResponseTransient) \<longleftrightarrow> roDead out \<noteq> None) \<and>
    (roDead out \<noteq> None \<longrightarrow> roPosts out = Suc n \<and> length (roWaits out) = n \<and>
       roDead out = Some (Subject resp, snd (identifyResponse resp), EndDeviceLFDI resp, MaxAttempts ?c))"
    by (rule retry_outcome [OF _ l]) (rule assms(2))
  then have o: "(\<exists>e. roErr out = Some e \<and> errorsIs e ErrResponseTransient) \<longleftrightarrow> roDead out \<noteq> None"
    "roDead out \<noteq> None \<longrightarrow> roPosts out = Suc n \<and>
       roDead out = Some (Subject resp, snd (identifyResponse resp), EndDeviceLFDI resp, MaxAttempts ?c)" by blast+
  have "d \<le> max (InitialDelay ?c) (MaxDelay ?c)" if "d \<in> set (roWaits out)" for d
  proof -
    have "roWaits out = map (\<lambda>i. (nextDelay ?c ^^ i) (InitialDelay ?c)) [0..<length (roWaits out)]"
      using posts by blast
    from arg_cong [OF this, of set] have "set (roWaits out) \<subseteq> range (\<lambda>i. (nextDelay ?c ^^ i) (InitialDelay ?c))"
      unfolding set_map by blast
    then obtain i where "d = (nextDelay ?c ^^ i) (InitialDelay ?c)" using \<open>d \<in> set (roWaits out)\<close> by blast
    then show ?thesis by (simp only: scheduled_wait_le)
  qed
  then have "list_all (\<lambda>d. d \<le> max (InitialDelay ?c) (MaxDelay ?c)) (roWaits out)" by (simp add: list_all_iff)
  moreover have "roWaits out = map (\<lambda>i. (nextDelay ?c ^^ i) (InitialDelay ?c)) [0..<length (roWaits out)]"
    using posts by blast
  moreover have "1 \<le> roPosts out" "int (roPosts out) \<le> MaxAttempts ?c" using posts n(2) by simp_all
  moreover have "roDead out \<noteq> None \<longrightarrow> int (roPosts out) = MaxAttempts ?c" using o n(2) by simp
  moreover have "(\<exists>e. roErr out = Some e \<and> errorsIs e ErrResponseTransient) \<longleftrightarrow>
      roDead out = Some (Subject resp, snd (identifyResponse resp), EndDeviceLFDI resp, MaxAttempts ?c)"
    using o by (metis option.discI)
  ultimately show ?thesis by (intro conjI)
qed

definition demoResponse :: DERControlResponse where
  "demoResponse = \<lparr>EndDeviceLFDI = ''AA'', Subject = ''E1'', rStatus = Some 2, CreatedDateTime = Some 7, rHref = []\<rparr>"

text \<open>A poster that always fails transiently, and a clock that never fails.\<close>

lemma demo_dead_letter:
  "postResponseWithRetryClock None (\<lambda>n :: nat. (Some ErrResponseTransient, Suc n)) (\<lambda>d n. (None, n)) demoResponse
     DefaultResponseRetryConfig 0 =
   (\<lparr>roErr = Some (Wrap (''post response failed after '' @ itoa 3 @ '' attempts: '') ErrResponseTransient), roPosts = 3,
     roWaits = [500000000, 1000000000], roDead = Some (''E1'', 2, ''AA'', 3)\<rparr>, 3)"
proof -
  have nd: "nextDelay (withDefaults DefaultResponseRetryConfig) 500000000 = 1000000000"
  proof -
    have "truncReal 1000000000 = 1000000000" using truncReal_of_int [of 1000000000] by simp
    then show ?thesis
      by (simp add: nextDelay_def withDefaults_def DefaultResponseRetryConfig_def minInt64_def maxInt64_def)
  qed
  have c: "isCtxErr ErrResponseTransient = False" "errorsIs ErrResponseTransient ErrResponseTransient"
    by (simp_all add: isCtxErr_def errorsIs_def)
  have m: "MaxAttempts (withDefaults DefaultResponseRetryConfig) = 3"
    "InitialDelay (withDefaults DefaultResponseRetryConfig) = 500000000"
    by (simp_all add: withDefaults_def DefaultResponseRetryConfig_def)
  have n: "nat 3 = Suc (Suc (Suc 0))" by simp
  show ?thesis
    unfolding postResponseWithRetryClock_def Let_def m n
    by (simp add: c nd m identifyResponse_def demoResponse_def)
qed

theorem retry_policy_witness:
  "\<exists>out. postResponseWithRetryClock None (\<lambda>n :: nat. (Some ErrResponseTransient, Suc n)) (\<lambda>d n. (None, n)) demoResponse
     DefaultResponseRetryConfig 0 = (out, 3) \<and> roPosts out = 3 \<and> roWaits out = [500000000, 1000000000] \<and>
     list_all (\<lambda>d. d \<le> 30000000000) (roWaits out)"
proof -
  have "list_all (\<lambda>d. d \<le> max (InitialDelay (withDefaults DefaultResponseRetryConfig)) (MaxDelay (withDefaults DefaultResponseRetryConfig)))
      [500000000, 1000000000]"
    using retry_policy [OF demo_dead_letter] by auto
  then show ?thesis using demo_dead_letter by (simp add: withDefaults_def DefaultResponseRetryConfig_def)
qed

section \<open>The client as the poster\<close>

definition responseRequest :: "'w Client \<Rightarrow> Ctx \<Rightarrow> (DERControlResponse \<Rightarrow> string option) \<Rightarrow> string \<Rightarrow> DERControlResponse \<Rightarrow> request \<Rightarrow> bool" where
  "responseRequest c ctx enc href resp rq \<longleftrightarrow>
     rqMethod rq = MethodPost \<and> resolveServerURL c href = Inr (rqURL rq) \<and> enc resp = Some (rqBody rq) \<and>
     (targetFrom ctx = [] \<or> equalFold (targetFrom ctx) (EndDeviceLFDI resp))"

lemma postResponseOnce_sent:
  "\<exists>rs. sent (snd (postResponseOnce c target body w)) = sent w @ rs \<and> length rs \<le> 1 \<and>
     list_all (\<lambda>rq. rq = \<lparr>rqMethod = MethodPost, rqURL = target, rqBody = body\<rparr>) rs"
proof (cases "urlParse c target = None")
  case True
  then show ?thesis by (simp add: postResponseOnce_def)
next
  case False
  let ?rq = "\<lparr>rqMethod = MethodPost, rqURL = target, rqBody = body\<rparr>"
  have "snd (postResponseOnce c target body w) = snd (send c ?rq w)"
    using False by (auto simp: postResponseOnce_def split: prod.splits reply.splits)
  then show ?thesis by (simp add: send_simps)
qed

lemma sendAttempts_sent:
  "\<exists>rs. sent (snd (sendAttempts c target body n e w)) = sent w @ rs \<and> length rs \<le> n \<and>
     list_all (\<lambda>rq. rq = \<lparr>rqMethod = MethodPost, rqURL = target, rqBody = body\<rparr>) rs"
proof (induction n arbitrary: e w)
  case 0
  then show ?case by simp
next
  case (Suc n)
  obtain r w1 where o: "postResponseOnce c target body w = (r, w1)" by fastforce
  obtain a where a: "sent w1 = sent w @ a" "length a \<le> 1"
      "list_all (\<lambda>rq. rq = \<lparr>rqMethod = MethodPost, rqURL = target, rqBody = body\<rparr>) a"
    using postResponseOnce_sent [of c target body w] o by auto
  show ?case
  proof (cases "snd (sendAttempts c target body (Suc n) e w) = w1")
    case True
    with a show ?thesis by (intro exI [of _ a]) simp
  next
    case False
    then obtain err where e: "r = Some err" using o by (cases r) auto
    then have s: "snd (sendAttempts c target body (Suc n) e w) = snd (sendAttempts c target body n (Some err) w1)"
      using False o by (auto split: if_splits)
    obtain b where "sent (snd (sendAttempts c target body n (Some err) w1)) = sent w1 @ b" "length b \<le> n"
        "list_all (\<lambda>rq. rq = \<lparr>rqMethod = MethodPost, rqURL = target, rqBody = body\<rparr>) b"
      using Suc.IH by blast
    with a s show ?thesis by (intro exI [of _ "a @ b"]) auto
  qed
qed

lemma PostResponse_sent:
  "\<exists>rs. sent (snd (PostResponse c ctx enc href resp w)) = sent w @ rs \<and> length rs \<le> 2 \<and>
     list_all (responseRequest c ctx enc href resp) rs"
proof -
  obtain g w1 where g: "guarded ctx MethodPost KindResponsePost w = (g, w1)" by fastforce
  then have w1: "sent w1 = sent w" by (auto simp: guarded_cases Let_def split: if_splits)
  show ?thesis
  proof (cases "href = [] \<or> g \<noteq> None \<or> (targetFrom ctx \<noteq> [] \<and> \<not> equalFold (targetFrom ctx) (EndDeviceLFDI resp)) \<or>
      (\<exists>e. resolveServerURL c href = Inl e) \<or> enc resp = None")
    case True
    then have "sent (snd (PostResponse c ctx enc href resp w)) = sent w"
      using g w1 by (auto simp: PostResponse_def sendResponse_def split: option.splits sum.splits)
    then show ?thesis by (intro exI [of _ "[]"]) simp
  next
    case False
    then obtain target b where h: "resolveServerURL c href = Inr target" "enc resp = Some b"
      by (cases "resolveServerURL c href") auto
    then have "snd (PostResponse c ctx enc href resp w) = snd (sendAttempts c target b 2 None w1)"
      using False g by (auto simp: PostResponse_def sendResponse_def)
    moreover obtain rs where "sent (snd (sendAttempts c target b 2 None w1)) = sent w1 @ rs" "length rs \<le> 2"
        "list_all (\<lambda>rq. rq = \<lparr>rqMethod = MethodPost, rqURL = target, rqBody = b\<rparr>) rs"
      using sendAttempts_sent by blast
    moreover have "responseRequest c ctx enc href resp \<lparr>rqMethod = MethodPost, rqURL = target, rqBody = b\<rparr>"
      using h False by (auto simp: responseRequest_def)
    ultimately show ?thesis using w1 by (auto simp: list_all_iff)
  qed
qed

interpretation poster: response_poster "PostResponse c ctx enc href resp" sent "responseRequest c ctx enc href resp"
  for c ctx enc href resp
  by unfold_locales (rule PostResponse_sent)

text \<open>Delivering a Response sends at most two requests for each attempt of the policy, and every one of
  them is a POST of that very response to the address its replyTo resolves to, for the device the request's
  target names or for the client's own.\<close>

theorem response_delivery:
  assumes "postResponseWithRetryClock ctxErr (PostResponse c ctx enc href resp) wait resp cfg0 w = (out, w')"
    and "\<And>d w. sent (snd (wait d w)) = sent w"
  shows "\<exists>rs. sent w' = sent w @ rs \<and> int (length rs) \<le> 2 * MaxAttempts (withDefaults cfg0) \<and>
    list_all (responseRequest c ctx enc href resp) rs"
proof (cases ctxErr)
  case None
  then have l: "retryLoop (PostResponse c ctx enc href resp) wait (nat (MaxAttempts (withDefaults cfg0))) (withDefaults cfg0) resp
      (InitialDelay (withDefaults cfg0)) w = (out, w')"
    using assms(1) by (simp add: postResponseWithRetryClock_def Let_def)
  obtain rs where "sent w' = sent w @ rs" "length rs \<le> 2 * roPosts out" "list_all (responseRequest c ctx enc href resp) rs"
    using poster.retry_sends [OF assms(2) l] by blast
  moreover have "roPosts out \<le> nat (MaxAttempts (withDefaults cfg0))" using retry_posts [OF l] by blast
  ultimately show ?thesis using withDefaults_pos(1) [of cfg0] by (intro exI [of _ rs]) auto
next
  case (Some e)
  then show ?thesis
    using assms(1) withDefaults_pos(1) [of cfg0]
    by (intro exI [of _ "[]"]) (auto simp: postResponseWithRetryClock_def Let_def)
qed

theorem response_delivery_witness:
  "\<exists>out w'. postResponseWithRetryClock None (PostResponse (demoClient (Reply 201 [] None)) demoCtx (\<lambda>r. Some (Subject r)) ''/rsp'' demoResponse)
      (\<lambda>d w. (None, w)) demoResponse DefaultResponseRetryConfig demoWorld = (out, w') \<and>
     roErr out = None \<and> length (sent w') = 1 \<and>
     list_all (responseRequest (demoClient (Reply 201 [] None)) demoCtx (\<lambda>r. Some (Subject r)) ''/rsp'' demoResponse) (sent w')"
proof -
  let ?c = "demoClient (Reply 201 [] None)"
  let ?post = "PostResponse ?c demoCtx (\<lambda>r. Some (Subject r)) ''/rsp'' demoResponse"
  obtain w' where p: "?post demoWorld = (None, w')" "length (sent w') = 1" "sent demoWorld = []"
  proof -
    have "guarded demoCtx MethodPost KindResponsePost demoWorld = (None, demoWorld)"
      using demo_permits [of KindResponsePost] by (simp add: derSelfKinds_def)
    then have "?post demoWorld = (None, snd (send ?c \<lparr>rqMethod = MethodPost, rqURL = ''/rsp'', rqBody = ''E1''\<rparr> demoWorld))"
      by (simp add: PostResponse_def sendResponse_def resolveServerURL_def demoClient_def IsAbs_def demoResponse_def
          numeral_2_eq_2 postResponseOnce_def send_def)
    then show thesis using that by (simp add: send_simps demoWorld_def)
  qed
  obtain out where r: "postResponseWithRetryClock None ?post (\<lambda>d w. (None, w)) demoResponse DefaultResponseRetryConfig demoWorld = (out, w')"
      "roErr out = None"
    using p by (simp add: postResponseWithRetryClock_def Let_def withDefaults_def DefaultResponseRetryConfig_def numeral_3_eq_3)
  from response_delivery [OF r(1)] p have "list_all (responseRequest ?c demoCtx (\<lambda>r. Some (Subject r)) ''/rsp'' demoResponse) (sent w')"
    by auto
  with r p show ?thesis by blast
qed

end
