(* ===== verification/Responses.thy ===== *)
theory Responses
  imports EventLoop Retry
begin

text \<open>
  What the driver answers: the hook of \<open>cmd/inverterclient/response_hook.go\<close> that posts a Response for a
  transition of the state machine, the choice of the program to follow (\<open>internal/inverter/select.go\<close>) and the
  identifiers the client mints (\<open>internal/inverter/mrid.go\<close>). SHA-256 is a parameter, a function to bytes.
\<close>

section \<open>Statuses\<close>

definition ResponseStatusEventReceived :: "8 word" where "ResponseStatusEventReceived = 1"
definition ResponseStatusEventStarted :: "8 word" where "ResponseStatusEventStarted = 2"
definition ResponseStatusEventCompleted :: "8 word" where "ResponseStatusEventCompleted = 3"
definition ResponseStatusEventCancelled :: "8 word" where "ResponseStatusEventCancelled = 6"
definition ResponseStatusEventSupersededAlternateProgram :: "8 word" where
  "ResponseStatusEventSupersededAlternateProgram = 14"
definition responseStatusRejectedInvalidEvent :: "8 word" where "responseStatusRejectedInvalidEvent = 253"

lemmas status_defs = ResponseStatusEventReceived_def ResponseStatusEventStarted_def ResponseStatusEventCompleted_def
  ResponseStatusEventCancelled_def ResponseStatusEventSupersededAlternateProgram_def responseStatusRejectedInvalidEvent_def

definition mapTransitionToStatus :: "EventState \<Rightarrow> EventState \<Rightarrow> 8 word" where
  "mapTransitionToStatus prev next =
     (case next of
        StateEventReceived \<Rightarrow> ResponseStatusEventReceived
      | StateEventStarted \<Rightarrow> if prev = StateEventReceived then ResponseStatusEventStarted else 0
      | StateEventCompleted \<Rightarrow> if prev = StateEventStarted then ResponseStatusEventCompleted else 0
      | StateEventCancelled \<Rightarrow> ResponseStatusEventCancelled
      | StateEventRejected \<Rightarrow> responseStatusRejectedInvalidEvent
      | StateDefault \<Rightarrow> 0)"

definition responseRequiredOn :: "8 word \<Rightarrow> 8 word \<Rightarrow> bool" where
  "responseRequiredOn msk status =
     (if status = ResponseStatusEventReceived then and msk 1 \<noteq> 0
      else if status \<in> {ResponseStatusEventStarted, ResponseStatusEventCompleted, ResponseStatusEventCancelled,
          ResponseStatusEventSupersededAlternateProgram, responseStatusRejectedInvalidEvent} then and msk 2 \<noteq> 0
      else False)"

definition hexDigit :: "nat \<Rightarrow> char" where
  "hexDigit n = char_of (if n < 10 then 48 + n else 87 + n)"

text \<open>\<open>%02x\<close> of a byte, and the hexadecimal encoding of a list of bytes.\<close>

definition hexByte :: "8 word \<Rightarrow> string" where
  "hexByte b = [hexDigit (unat b div 16), hexDigit (unat b mod 16)]"

definition hexEncode :: "8 word list \<Rightarrow> string" where
  "hexEncode bs = concat (map hexByte bs)"

definition responseStatusName :: "8 word \<Rightarrow> string" where
  "responseStatusName s =
     (if s = ResponseStatusEventReceived then ''received''
      else if s = ResponseStatusEventStarted then ''started''
      else if s = ResponseStatusEventCompleted then ''completed''
      else if s = ResponseStatusEventCancelled then ''cancelled''
      else if s = ResponseStatusEventSupersededAlternateProgram then ''superseded-alternate-program''
      else if s = responseStatusRejectedInvalidEvent then ''rejected-invalid-event''
      else ''0x'' @ hexByte s)"

definition responseKey :: "string \<Rightarrow> 8 word \<Rightarrow> string" where
  "responseKey mrid status = mrid @ '':'' @ responseStatusName status"

definition deriveResponseHref :: "(string \<Rightarrow> 8 word list) \<Rightarrow> string \<Rightarrow> 8 word \<Rightarrow> string" where
  "deriveResponseHref sha mrid status = ''/response/'' @ hexEncode (take 16 (sha (responseKey mrid status)))"

section \<open>The hook\<close>

text \<open>The response that a transition calls for, with where to post it; \<open>now\<close> is the clock's reading.\<close>

definition responseFor :: "(string \<Rightarrow> 8 word list) \<Rightarrow> (EventState \<Rightarrow> EventState \<Rightarrow> 8 word) \<Rightarrow> string \<Rightarrow> time \<Rightarrow> EventState \<Rightarrow> EventState \<Rightarrow>
    DERControl option \<Rightarrow> (string \<times> DERControlResponse) option" where
  "responseFor sha statusOf dev now prev next evt =
     (case evt of
        None \<Rightarrow> None
      | Some e \<Rightarrow>
          if ReplyTo e = [] then None
          else
            (let status = statusOf prev next
             in if status = 0 then None
                else (case ResponseRequired e of
                        None \<Rightarrow> None
                      | Some msk \<Rightarrow>
                          if \<not> responseRequiredOn msk status then None
                          else Some (ReplyTo e,
                            \<lparr>EndDeviceLFDI = dev, Subject = MRID e, rStatus = Some status,
                             CreatedDateTime = Some (toUnix now), rHref = deriveResponseHref sha (MRID e) status\<rparr>))))"

text \<open>
  The whole hook, over a poster and a clock that waits; the error of a delivery is logged and goes no
  further. The context of a delivery is fresh, so it has no error at the start.
\<close>

definition responseHook :: "(string \<Rightarrow> 8 word list) \<Rightarrow> (EventState \<Rightarrow> EventState \<Rightarrow> 8 word) \<Rightarrow>
    (string \<Rightarrow> DERControlResponse \<Rightarrow> 'w \<Rightarrow> httpErr option \<times> 'w) \<Rightarrow> (duration \<Rightarrow> 'w \<Rightarrow> httpErr option \<times> 'w) \<Rightarrow>
    ResponseRetryConfig \<Rightarrow> string \<Rightarrow> time \<Rightarrow> EventState \<Rightarrow> EventState \<Rightarrow> DERControl option \<Rightarrow> 'w \<Rightarrow> 'w" where
  "responseHook sha statusOf post wait cfg dev now prev next evt w =
     (case responseFor sha statusOf dev now prev next evt of
        None \<Rightarrow> w
      | Some (href, resp) \<Rightarrow> snd (postResponseWithRetryClock None (post href resp) wait resp cfg w))"

definition responsePOSTHook :: "(string \<Rightarrow> 8 word list) \<Rightarrow>
    (string \<Rightarrow> DERControlResponse \<Rightarrow> 'w \<Rightarrow> httpErr option \<times> 'w) \<Rightarrow> (duration \<Rightarrow> 'w \<Rightarrow> httpErr option \<times> 'w) \<Rightarrow>
    ResponseRetryConfig \<Rightarrow> string \<Rightarrow> time \<Rightarrow> EventState \<Rightarrow> EventState \<Rightarrow> DERControl option \<Rightarrow> 'w \<Rightarrow> 'w" where
  "responsePOSTHook sha post wait cfg dev now prev next evt w =
     responseHook sha mapTransitionToStatus post wait cfg dev now prev next evt w"

section \<open>The program to follow\<close>

text \<open>The map is walked in any order: the argument is its values, in the order of the walk.\<close>

fun selectLoop :: "DERProgram option \<Rightarrow> DERProgram list \<Rightarrow> DERProgram option" where
  "selectLoop winner [] = winner"
| "selectLoop winner (p # ps) =
     selectLoop
       (case winner of
          None \<Rightarrow> Some p
        | Some x \<Rightarrow>
            if Primacy p < Primacy x then Some p
            else if Primacy p = Primacy x \<and> dpMRID p < dpMRID x then Some p
            else winner) ps"

definition SelectHighestPriority :: "DERProgram list \<Rightarrow> DERProgram option" where
  "SelectHighestPriority progs = (if progs = [] then None else selectLoop None progs)"

section \<open>Identifiers\<close>

definition avoidReservedAllF :: "8 word list \<Rightarrow> 8 word list" where
  "avoidReservedAllF b =
     (if \<exists>v\<in>set b. v \<noteq> 255 then b else b[length b - 1 := xor (b ! (length b - 1)) 1])"

fun joinNul :: "string list \<Rightarrow> string" where
  "joinNul [] = []"
| "joinNul [s] = s"
| "joinNul (s # ss) = s @ [char_of (0 :: nat)] @ joinNul ss"

definition deriveMRID :: "(string \<Rightarrow> 8 word list) \<Rightarrow> string list \<Rightarrow> string" where
  "deriveMRID sha parts = toUpper (hexEncode (avoidReservedAllF (take 16 (sha (joinNul parts)))))"

definition MirrorUsagePointMRID :: "(string \<Rightarrow> 8 word list) \<Rightarrow> string \<Rightarrow> string" where
  "MirrorUsagePointMRID sha dev = deriveMRID sha [''mup'', dev]"

text \<open>The random bytes (\<open>None\<close> when the source fails) and the formatted instant are arguments.\<close>

definition NewFlowReservationRequestMRID :: "(string \<Rightarrow> 8 word list) \<Rightarrow> string \<Rightarrow> string \<Rightarrow> 8 word list option \<Rightarrow> string option" where
  "NewFlowReservationRequestMRID sha self now entropy =
     (case entropy of
        None \<Rightarrow> None
      | Some e \<Rightarrow> Some (deriveMRID sha [''frq'', self, now, hexEncode e]))"

section \<open>Selection\<close>

text \<open>Rank of a program: lower is better.\<close>

definition better :: "DERProgram \<Rightarrow> DERProgram \<Rightarrow> bool" where
  "better p q \<longleftrightarrow> Primacy p < Primacy q \<or> (Primacy p = Primacy q \<and> dpMRID p \<le> dpMRID q)"

lemma better_refl: "better p p"
  by (simp add: better_def)

lemma lex_trans:
  fixes a b c :: "'a :: linorder" and x y z :: "'b :: linorder"
  shows "a < b \<or> (a = b \<and> x \<le> y) \<Longrightarrow> b < c \<or> (b = c \<and> y \<le> z) \<Longrightarrow> a < c \<or> (a = c \<and> x \<le> z)"
  by auto

lemma better_trans: "better p q \<Longrightarrow> better q r \<Longrightarrow> better p r"
  unfolding better_def by (rule lex_trans)

lemma better_total: "better p q \<or> better q p"
  by (auto simp: better_def)

lemma selectLoop_Some:
  "\<exists>x. selectLoop (Some w) ps = Some x \<and> x \<in> set (w # ps) \<and> (\<forall>q\<in>set (w # ps). better x q)"
proof (induction ps arbitrary: w)
  case Nil
  then show ?case by (simp add: better_refl)
next
  case (Cons p ps)
  let ?w = "if Primacy p < Primacy w \<or> Primacy p = Primacy w \<and> dpMRID p < dpMRID w then p else w"
  have b: "better ?w p" "better ?w w" by (auto simp: better_def)
  obtain x where x: "selectLoop (Some ?w) ps = Some x" "x \<in> set (?w # ps)" "\<forall>q\<in>set (?w # ps). better x q"
    using Cons.IH by blast
  have 1: "selectLoop (Some w) (p # ps) = Some x" using x(1)
    by (cases "Primacy p < Primacy w"; cases "Primacy p = Primacy w"; cases "dpMRID p < dpMRID w") simp_all
  have 2: "x \<in> set (w # p # ps)" using x(2) by (auto split: if_splits)
  have xw: "better x ?w" using x(3) by (simp del: if_split)
  have "better x w" "better x p" by (rule better_trans [OF xw b(2)], rule better_trans [OF xw b(1)])
  then have 3: "\<forall>q\<in>set (w # p # ps). better x q" using x(3) by simp
  show ?case using 1 2 3 by blast
qed

text \<open>The program the client follows is the one with the lowest primacy and, among those, the least
  mRID: it is one of the programs found, none of the others ranks above it, and the order in which the map
  is walked does not matter. Without any program there is none to follow.\<close>

theorem selection_is_minimum:
  assumes "progs \<noteq> []" "mset progs' = mset progs" "inj_on dpMRID (set progs)"
  shows "\<exists>p. SelectHighestPriority progs = Some p \<and> p \<in> set progs \<and>
    list_all (\<lambda>q. Primacy p < Primacy q \<or> (Primacy p = Primacy q \<and> dpMRID p \<le> dpMRID q)) progs \<and>
    SelectHighestPriority progs' = SelectHighestPriority progs \<and> SelectHighestPriority [] = None"
proof -
  have sel: "\<exists>p. SelectHighestPriority qs = Some p \<and> p \<in> set qs \<and> (\<forall>q\<in>set qs. better p q)" if "qs \<noteq> []" for qs
    using that selectLoop_Some by (cases qs) (simp_all add: SelectHighestPriority_def)
  have same: "set progs' = set progs" using assms(2) by (metis set_mset_mset)
  then have "progs' \<noteq> []" using assms(1) by auto
  then obtain p p' where p: "SelectHighestPriority progs = Some p" "p \<in> set progs" "\<forall>q\<in>set progs. better p q"
    and p': "SelectHighestPriority progs' = Some p'" "p' \<in> set progs" "\<forall>q\<in>set progs. better p' q"
    using sel [OF assms(1)] sel [of progs'] same by auto
  have "better p p'" "better p' p" using p p' by auto
  then have "dpMRID p = dpMRID p'" by (auto simp: better_def)
  then have "p = p'" using assms(3) p(2) p'(2) by (meson inj_onD)
  then show ?thesis using p p' by (auto simp: better_def list_all_iff SelectHighestPriority_def)
qed

abbreviation demoProgram :: "string \<Rightarrow> 8 word \<Rightarrow> DERProgram" where
  "demoProgram m n \<equiv> \<lparr>dpMRID = m, Primacy = n, DefaultDERControlLink = None, DERControlListLink = None, DERCurveListLink = None\<rparr>"

theorem selection_is_minimum_witness:
  "SelectHighestPriority [demoProgram ''B'' 2, demoProgram ''C'' 1, demoProgram ''A'' 2] =
     SelectHighestPriority [demoProgram ''A'' 2, demoProgram ''B'' 2, demoProgram ''C'' 1]"
  using selection_is_minimum [of "[demoProgram ''A'' 2, demoProgram ''B'' 2, demoProgram ''C'' 1]"
      "[demoProgram ''B'' 2, demoProgram ''C'' 1, demoProgram ''A'' 2]"]
  by (auto simp: inj_on_def)

section \<open>Which transitions are answered\<close>

lemma trail_edges:
  "trail E s ts s' \<Longrightarrow> t \<in> set ts \<Longrightarrow> tnext t = StateEventRejected \<or> E (tprev t) (tnext t)"
  by (induction ts arbitrary: s) (auto split: if_splits)

text \<open>The response status numbers of IEEE 2030.5 for the steps of an event's life, and the bit of
  \<open>responseRequired\<close> that asks for each: bit 0 for the receipt, bit 1 for every later step.\<close>

fun answerCode :: "EventState \<Rightarrow> 8 word" where
  "answerCode StateEventReceived = 1"
| "answerCode StateEventStarted = 2"
| "answerCode StateEventCompleted = 3"
| "answerCode StateEventCancelled = 6"
| "answerCode StateEventRejected = 253"
| "answerCode StateDefault = 0"

definition askedBit :: "EventState \<Rightarrow> nat" where
  "askedBit n = (if n = StateEventReceived then 0 else 1)"

definition isAsked :: "DERControl \<Rightarrow> EventState \<Rightarrow> bool" where
  "isAsked e n \<longleftrightarrow> ReplyTo e \<noteq> [] \<and> (\<exists>k. ResponseRequired e = Some k \<and> bit k (askedBit n))"

lemma edge_status:
  "n = StateEventRejected \<or> lifecycleOrWithdrawal p n \<Longrightarrow> mapTransitionToStatus p n = answerCode n"
  by (cases p; cases n) (auto simp: lifecycleOrWithdrawal_def withdrawal_def mapTransitionToStatus_def status_defs)

lemma step_edge:
  assumes "driver sm sched cache prev" "stepEvents sm sched now cache prev = ((sm', sched', out), cur)" "t \<in> set out"
  shows "tnext t = StateEventRejected \<or> lifecycleOrWithdrawal (tprev t) (tnext t)"
proof -
  obtain sm1 sched1 o1 as cs o2 where p: "Reject sm (Rejected cache) sched = (sm1, sched1, o1)"
    "diffSnapshots prev (Snapshot cache) = (as, cs)" "Tick sm1 now as cs sched1 = (sm', sched', o2)"
    "out = o1 @ o2" by (rule stepEvents_parts [OF assms(2)])
  have inv: "sm_inv sm" "sched_inv sched" using driver_loop_inv [OF assms(1)] by (auto simp: loop_inv_def)
  note R = Reject_ok [OF p(1) inv]
  note T = Tick_ok [OF p(3) R(2,1)]
  have "trail lifecycleOrWithdrawal (state sm) o1 (state sm1)" "trail lifecycleOrWithdrawal (state sm1) o2 (state sm')"
    using R(6) T(3) by (auto elim: trail_mono simp: lifecycleOrWithdrawal_def)
  then show ?thesis using assms(3) p(4) trail_edges by (metis UnE set_append)
qed

lemma status_zero_iff:
  assumes "driver sm sched cache prev" "stepEvents sm sched now cache prev = ((sm', sched', out), cur)" "t \<in> set out"
  shows "mapTransitionToStatus (tprev t) (tnext t) = 0 \<longleftrightarrow> tnext t = StateDefault"
  using edge_status [OF step_edge [OF assms]] by (cases "tnext t") simp_all

lemma and_bit: "and k 1 \<noteq> 0 \<longleftrightarrow> bit k 0" "and k 2 \<noteq> 0 \<longleftrightarrow> bit k 1" for k :: "8 word"
proof -
  have "and k (mask 1) = take_bit 1 k" by (simp add: take_bit_eq_mask)
  then show "and k 1 \<noteq> 0 \<longleftrightarrow> bit k 0" by (simp add: take_bit_Suc odd_iff_mod_2_eq_one bit_0)
  show "and k 2 \<noteq> 0 \<longleftrightarrow> bit k 1" using and_exp_eq_0_iff_not_bit [of k 1] by simp
qed

lemma answer_required: "n \<noteq> StateDefault \<Longrightarrow> responseRequiredOn k (answerCode n) \<longleftrightarrow> bit k (askedBit n)"
  by (cases n) (simp_all add: responseRequiredOn_def status_defs askedBit_def and_bit)

text \<open>C11: In every run of the driver, the answer to each transition of a step that carries an event is
  exactly this: nothing when the event gave no address to reply to, when its \<open>responseRequired\<close> mask lacks
  the bit of this step (bit 0 for the receipt, bit 1 for start, completion, cancellation and refusal), or
  when the machine only returns to its default state; otherwise one response to that address that names
  the event and this device, with the standard's status number of the step (1 received, 2 started,
  3 completed, 6 cancelled, 253 rejected), the clock's reading and the address hint of event and status.\<close>

theorem every_step_answered:
  assumes "driver sm sched cache prev" "stepEvents sm sched now cache prev = ((sm', sched', out), cur)"
    and "t \<in> set out" "tevt t = Some e"
  shows "responseFor sha mapTransitionToStatus dev clk (tprev t) (tnext t) (tevt t) =
    (if tnext t \<noteq> StateDefault \<and> isAsked e (tnext t)
     then Some (ReplyTo e, \<lparr>EndDeviceLFDI = dev, Subject = MRID e, rStatus = Some (answerCode (tnext t)),
       CreatedDateTime = Some (toUnix clk), rHref = deriveResponseHref sha (MRID e) (answerCode (tnext t))\<rparr>)
     else None)"
proof -
  have s: "mapTransitionToStatus (tprev t) (tnext t) = answerCode (tnext t)"
    by (rule edge_status [OF step_edge [OF assms(1-3)]])
  have z: "answerCode (tnext t) = 0 \<longleftrightarrow> tnext t = StateDefault" by (cases "tnext t") simp_all
  show ?thesis
  proof (cases "tnext t = StateDefault")
    case True
    then show ?thesis using s z assms(4) by (simp add: responseFor_def Let_def)
  next
    case False
    then show ?thesis using s z assms(4)
      by (auto simp: responseFor_def Let_def isAsked_def answer_required split: option.splits)
  qed
qed

text \<open>A function that is no good hash, but has the right length: the hash of the examples.\<close>

definition demoSha :: "string \<Rightarrow> 8 word list" where
  "demoSha x = take 32 (map (\<lambda>c. of_nat (of_char c)) x @ replicate 32 255)"

definition askEvent :: DERControl where
  "askEvent = demoEvent\<lparr>ReplyTo := ''/rsp'', ResponseRequired := Some 3\<rparr>"

definition askCache :: DERControlCache where
  "askCache = fst (Refresh NewDERControlCache \<lparr>listControls = [askEvent], listRejected = []\<rparr>)"

lemma askEvent_plain: "plainEvent askEvent \<lparr>Start = 100, Duration = 10\<rparr>"
  by (simp add: plainEvent_def askEvent_def demoEvent_def blankControl_def)

lemma ask_tick:
  "\<exists>sm' sched' t. Tick demoMachine 0 [askEvent] [] (NewScheduler demoRng) = (sm', sched', [t]) \<and>
     tprev t = StateDefault \<and> tnext t = StateEventReceived \<and> tevt t = Some askEvent"
proof -
  let ?iv = "\<lparr>Start = 100, Duration = 10\<rparr> :: DateTimeInterval"
  let ?e = "entryOf askEvent ?iv" and ?s = "OnEventsAdded (NewScheduler demoRng) [askEvent]"
  have a: "accepts demoMachine askEvent" by (simp add: demoMachine_def NewStateMachine_def accepts_def)
  have q: "queue ?s = [?e]" using askEvent_plain by (simp add: added_plain NewScheduler_def)
  have "PopExpired ?s 0 = ([], ?s)" using q by (simp add: pop_one) (simp add: entryOf_def go_time)
  moreover have "NextEvent ?s = Some ?e" using q by (simp add: NextEvent_def)
  moreover have "state demoMachine = StateDefault" by (simp add: demoMachine_def NewStateMachine_def)
  ultimately show ?thesis using q
    by (simp add: Tick_def stepAdded_one [OF a] stepComplete_def stepPop_def stepObserve_def
        transition_defs entryOf_def)
qed

theorem every_step_answered_witness:
  "\<exists>sm' sched' t cur. stepEvents demoMachine (NewScheduler demoRng) 0 askCache [] = ((sm', sched', [t]), cur) \<and>
     (\<exists>r. responseFor demoSha mapTransitionToStatus ''L'' 7 (tprev t) (tnext t) (tevt t) = Some (''/rsp'', r) \<and>
       rStatus r = Some 1)"
proof -
  obtain sm' sched' t where t: "Tick demoMachine 0 [askEvent] [] (NewScheduler demoRng) = (sm', sched', [t])"
    "tnext t = StateEventReceived" "tevt t = Some askEvent" using ask_tick by blast
  have m: "MRID askEvent = ''A''" by (simp add: askEvent_def demoEvent_def)
  have c: "Rejected askCache = []" "Snapshot askCache = [(''A'', askEvent)]"
    by (simp_all add: askCache_def Refresh_def Rejected_def Snapshot_def acceptedControls_def freshControls_def
        NewDERControlCache_def m)
  have d: "diffSnapshots [] (Snapshot askCache) = ([askEvent], [])"
    by (simp add: c diffSnapshots.simps askEvent_def demoEvent_def blankControl_def)
  have s: "stepEvents demoMachine (NewScheduler demoRng) 0 askCache [] = ((sm', sched', [t]), Snapshot askCache)"
    by (simp add: stepEvents_def c(1) Reject_def d t)
  have "demoMachine = initialMachine None [] None"
    by (simp add: demoMachine_def initialMachine_def NewStateMachine_def OnTransition_def SetValidator_def)
  then have "driver demoMachine (NewScheduler demoRng) askCache []"
    unfolding askCache_def by (metis driver.begin_ driver.refresh)
  from every_step_answered [OF this s, of t askEvent demoSha "''L''" 7] t
  have "\<exists>r. responseFor demoSha mapTransitionToStatus ''L'' 7 (tprev t) (tnext t) (tevt t) = Some (''/rsp'', r) \<and>
      rStatus r = Some 1"
    by (auto simp: isAsked_def askedBit_def askEvent_def)
  with s show ?thesis by blast
qed

section \<open>Identifiers are unambiguous\<close>

lemma hexDigit_code: "n < 16 \<Longrightarrow> of_char (hexDigit n) = (if n < 10 then 48 + n else 87 + n :: nat)"
  by (simp add: hexDigit_def of_char_of)

lemma hexDigit_inj:
  assumes "m < 16" "n < 16" "hexDigit m = hexDigit n"
  shows "m = n"
proof -
  have "(if m < 10 then 48 + m else 87 + m) = (if n < 10 then 48 + n else 87 + n :: nat)"
    using hexDigit_code [OF assms(1)] hexDigit_code [OF assms(2)] assms(3) by simp
  then show ?thesis by (simp split: if_splits)
qed

lemma unat_byte: "unat (b :: 8 word) < 256"
proof -
  have "unat b < 2 ^ LENGTH(8)" by (fact unsigned_less)
  then show ?thesis by simp
qed

lemma byte_digits: "unat (b :: 8 word) div 16 < 16" "unat (b :: 8 word) mod 16 < 16"
  using unat_byte [of b] by simp_all

lemma hexByte_inj: "hexByte a = hexByte b \<Longrightarrow> a = b"
proof -
  assume h: "hexByte a = hexByte b"
  then have "unat a div 16 = unat b div 16" "unat a mod 16 = unat b mod 16"
    using hexDigit_inj [OF byte_digits(1) byte_digits(1)] hexDigit_inj [OF byte_digits(2) byte_digits(2)]
    by (simp_all add: hexByte_def)
  then have "unat a = unat b" by (metis div_mult_mod_eq)
  then show "a = b" by (simp add: unsigned_word_eqI)
qed

lemma hexDigit_not_colon: "n < 16 \<Longrightarrow> hexDigit n \<noteq> CHR '':''"
proof
  assume n: "n < 16" "hexDigit n = CHR '':''"
  have "of_char (CHR '':'') = (58 :: nat)" by simp
  then have "(58 :: nat) = (if n < 10 then 48 + n else 87 + n)" using hexDigit_code [OF n(1)] n(2) by simp
  then show False using n(1) by (simp split: if_splits)
qed

lemma responseStatusName_no_colon: "CHR '':'' \<notin> set (responseStatusName s)"
  using hexDigit_not_colon [OF byte_digits(1) [of s], symmetric] hexDigit_not_colon [OF byte_digits(2) [of s], symmetric]
  by (simp add: responseStatusName_def hexByte_def)

lemma responseStatusName_inj: "responseStatusName a = responseStatusName b \<Longrightarrow> a = b"
  using hexByte_inj [of a b] by (auto simp: responseStatusName_def hexByte_def split: if_splits)

lemma colon_split: "a @ '':'' @ x = b @ '':'' @ y \<Longrightarrow> CHR '':'' \<notin> set x \<Longrightarrow> CHR '':'' \<notin> set y \<Longrightarrow> a = b \<and> x = y"
proof -
  assume h: "a @ '':'' @ x = b @ '':'' @ y" "CHR '':'' \<notin> set x" "CHR '':'' \<notin> set y"
  have "takeWhile (\<lambda>c. c \<noteq> CHR '':'') (rev x @ '':'' @ rev a) = rev x" "takeWhile (\<lambda>c. c \<noteq> CHR '':'') (rev y @ '':'' @ rev b) = rev y"
    using h(2,3) by (auto simp: takeWhile_append)
  moreover have "rev x @ '':'' @ rev a = rev y @ '':'' @ rev b" using arg_cong [OF h(1), of rev] by simp
  ultimately have "x = y" by (metis rev_rev_ident)
  with h(1) show ?thesis by simp
qed

lemma responseKey_inj: "responseKey m1 s1 = responseKey m2 s2 \<Longrightarrow> m1 = m2 \<and> s1 = s2"
  using colon_split [of m1 "responseStatusName s1" m2 "responseStatusName s2"] responseStatusName_no_colon
    responseStatusName_inj by (auto simp: responseKey_def)

lemma hexEncode_inj: "length a = length b \<Longrightarrow> hexEncode a = hexEncode b \<Longrightarrow> a = b"
proof (induction a b rule: list_induct2)
  case Nil
  then show ?case by simp
next
  case (Cons x xs y ys)
  then have "hexByte x = hexByte y \<and> hexEncode xs = hexEncode ys" by (simp add: hexEncode_def hexByte_def)
  then show ?case using Cons.IH hexByte_inj by blast
qed

lemma hexEncode_length: "length (hexEncode bs) = 2 * length bs"
  by (induction bs) (simp_all add: hexEncode_def hexByte_def)

lemma hexDigit_lower_f: "n < 16 \<Longrightarrow> upperChar (hexDigit n) = CHR ''F'' \<Longrightarrow> n = 15"
proof -
  assume n: "n < 16" and u: "upperChar (hexDigit n) = CHR ''F''"
  have f: "of_char (CHR ''F'') = (70 :: nat)" by simp
  have "of_char (upperChar (hexDigit n)) = (if n < 10 then 48 + n else 55 + n :: nat)"
    using n by (simp add: upperChar_def hexDigit_code)
  then show "n = 15" using u f n by (simp split: if_splits)
qed

lemma hexByte_all_F: "toUpper (hexByte b) = ''FF'' \<Longrightarrow> b = 255"
proof -
  assume "toUpper (hexByte b) = ''FF''"
  then have "unat b div 16 = 15" "unat b mod 16 = 15"
    using hexDigit_lower_f [OF byte_digits(1) [of b]] hexDigit_lower_f [OF byte_digits(2) [of b]]
    by (simp_all add: hexByte_def toUpper_def)
  then have "unat b = 255" using div_mult_mod_eq [of "unat b" 16] by simp
  then show "b = 255" by (simp add: word_unat_eq_iff)
qed

lemma hexEncode_all_F:
  "toUpper (hexEncode bs) = replicate (2 * length bs) CHR ''F'' \<Longrightarrow> \<forall>b\<in>set bs. b = 255"
proof (induction bs)
  case (Cons b bs)
  have "toUpper (hexByte b) @ toUpper (hexEncode bs) = ''FF'' @ replicate (2 * length bs) CHR ''F''"
    using Cons.prems by (simp add: hexEncode_def toUpper_def)
  then have "toUpper (hexByte b) = ''FF'' \<and> toUpper (hexEncode bs) = replicate (2 * length bs) CHR ''F''"
    by (simp add: hexByte_def toUpper_def)
  then show ?case using Cons.IH hexByte_all_F by simp
qed simp

lemma avoidReservedAllF_length: "length (avoidReservedAllF b) = length b"
  by (simp add: avoidReservedAllF_def)

lemma avoidReservedAllF_ok: "b \<noteq> [] \<Longrightarrow> \<exists>v\<in>set (avoidReservedAllF b). v \<noteq> 255"
proof (cases "\<exists>v\<in>set b. v \<noteq> 255")
  case True
  then show ?thesis by (simp add: avoidReservedAllF_def)
next
  case False
  assume b: "b \<noteq> []"
  let ?i = "length b - 1"
  have i: "?i < length b" using b by simp
  then have l: "b ! ?i = 255" using False by (meson nth_mem)
  have "avoidReservedAllF b ! ?i = xor (b ! ?i) 1" using False i by (simp add: avoidReservedAllF_def)
  then have "avoidReservedAllF b ! ?i \<noteq> 255" unfolding l by simp
  then show ?thesis using i avoidReservedAllF_length by (metis nth_mem)
qed

lemma deriveMRID_ok:
  assumes "16 \<le> length (sha (joinNul parts))"
  shows "length (deriveMRID sha parts) = 32" "deriveMRID sha parts \<noteq> replicate 32 CHR ''F''"
proof -
  let ?b = "avoidReservedAllF (take 16 (sha (joinNul parts)))"
  have l: "length ?b = 16" using assms by (simp add: avoidReservedAllF_length)
  then show "length (deriveMRID sha parts) = 32" by (simp add: deriveMRID_def toUpper_def hexEncode_length)
  have "take 16 (sha (joinNul parts)) \<noteq> []" using assms by auto
  then have "\<not> (\<forall>b\<in>set ?b. b = 255)" using avoidReservedAllF_ok by blast
  then show "deriveMRID sha parts \<noteq> replicate 32 CHR ''F''"
    using hexEncode_all_F [of ?b] l by (auto simp: deriveMRID_def)
qed

text \<open>Two responses share an address hint only if they answer the same event with the same status, or
  the hash collides on two different texts: the hashed text determines the event and the status, whatever
  the mRID holds. A minted identifier is 32 upper-case hexadecimal digits and never the reserved one, all
  of whose digits are F.\<close>

theorem identifiers_unambiguous:
  assumes "\<forall>x. length (sha x) = 32" "deriveResponseHref sha m1 s1 = deriveResponseHref sha m2 s2"
  shows "((m1 = m2 \<and> s1 = s2) \<or>
     (\<exists>x y. x = responseKey m1 s1 \<and> y = responseKey m2 s2 \<and> x \<noteq> y \<and> take 16 (sha x) = take 16 (sha y))) \<and>
    length (deriveMRID sha parts) = 32 \<and> deriveMRID sha parts \<noteq> replicate 32 CHR ''F''"
proof (intro conjI)
  let ?h = "\<lambda>m s. take 16 (sha (responseKey m s))"
  have "length (?h m1 s1) = length (?h m2 s2)" using assms(1) by simp
  moreover have "hexEncode (?h m1 s1) = hexEncode (?h m2 s2)" using assms(2) by (simp add: deriveResponseHref_def)
  ultimately have "?h m1 s1 = ?h m2 s2" by (rule hexEncode_inj)
  then show "(m1 = m2 \<and> s1 = s2) \<or>
     (\<exists>x y. x = responseKey m1 s1 \<and> y = responseKey m2 s2 \<and> x \<noteq> y \<and> take 16 (sha x) = take 16 (sha y))"
    using responseKey_inj by blast
  have "16 \<le> length (sha (joinNul parts))" using assms(1) by simp
  then show "length (deriveMRID sha parts) = 32" "deriveMRID sha parts \<noteq> replicate 32 CHR ''F''"
    by (rule deriveMRID_ok)+
qed

theorem identifiers_unambiguous_witness:
  "deriveMRID demoSha [''A''] \<noteq> replicate 32 CHR ''F'' \<and> length (deriveMRID demoSha [''A'']) = 32"
  using identifiers_unambiguous [of demoSha "''X''" 1 "''X''" 1 "[''A'']"] by (auto simp: demoSha_def min_def)

end
