(* ===== verification/Metering.thy ===== *)
theory Metering
  imports ClientApi Responses Simulator
begin

text \<open>
  Reports of one device (\<open>internal/inverter/reporter.go\<close>), the backoff both owners of a mirror share
  (\<open>cmd/inverterclient/mirror.go\<close>, \<open>mirrorBackoff\<close> of \<open>managed.go\<close>) and the report step of the single device
  (\<open>phase4_metering.go\<close>). The encoders of the resources and the format of the instant in an mRID are
  parameters, and so is the local clock: \<open>clk\<close> reads it in a state of the world.
\<close>

section \<open>The resources\<close>

text \<open>A reported status carries the instant, as Unix seconds, in each of its parts.\<close>

record DERStatus =
  stDateTime :: int
  GenConnectStatus :: "8 word"
  OperationalModeStatus :: "8 word"
  StateOfChargeStatus :: "16 word option"

record MirrorMeterReading =
  mmrMRID :: string
  LastUpdateTime :: int
  FlowDirection :: "8 word option"
  readingValue :: int
  readingStart :: int

record DERAvailability =
  davReadingTime :: int
  AvailabilityDuration :: "32 word option"
  MaxChargeDuration :: "32 word option"
  StatWAvail :: "ActivePower option"

record encoders =
  encStatus :: "DERStatus \<Rightarrow> string option"
  encAvailability :: "DERAvailability \<Rightarrow> string option"
  encReading :: "MirrorMeterReading \<Rightarrow> string option"
  encMirror :: "MirrorUsagePoint \<Rightarrow> string option"
  fmtInstant :: "time \<Rightarrow> string"
  shaSum :: "string \<Rightarrow> 8 word list"

definition FlowDirectionForward :: "8 word" where "FlowDirectionForward = 1"
definition FlowDirectionReverse :: "8 word" where "FlowDirectionReverse = 19"

definition flowDirectionFor :: "f64 \<Rightarrow> 8 word" where
  "flowDirectionFor activeW = (if activeW < 0 then FlowDirectionForward else FlowDirectionReverse)"

definition operationalModeStatus :: "bool \<Rightarrow> 8 word" where
  "operationalModeStatus energized = (if energized then 2 else 1)"

definition genConnectStatus :: "bool \<Rightarrow> bool \<Rightarrow> 8 word" where
  "genConnectStatus con energized =
     (let v = (0 :: 8 word);
          v = (if con then or v (push_bit 0 1) else v)
      in if energized then or v (push_bit 2 1) else v)"

section \<open>The reporter\<close>

record Reporter =
  rpLFDI :: string
  derStatusHref :: string
  mmrHref :: string
  derAvailabilityHref :: string
  readingSeq :: "64 word"
  asManager :: bool

definition NewReporter :: "string \<Rightarrow> string \<Rightarrow> string \<Rightarrow> Reporter option" where
  "NewReporter deviceLFDI statusHref mmr =
     (if deviceLFDI = [] then None
      else Some \<lparr>rpLFDI = deviceLFDI, derStatusHref = statusHref, mmrHref = mmr, derAvailabilityHref = [], readingSeq = 0, asManager = False\<rparr>)"

definition SetMirrorHref :: "string \<Rightarrow> Reporter \<Rightarrow> Reporter" where
  "SetMirrorHref h r = r\<lparr>mmrHref := h\<rparr>"

definition AsManager :: "Reporter \<Rightarrow> Reporter" where
  "AsManager r = r\<lparr>asManager := True\<rparr>"

definition SetManagedDERHrefs :: "string \<Rightarrow> string \<Rightarrow> Reporter \<Rightarrow> Reporter" where
  "SetManagedDERHrefs st av r = r\<lparr>derStatusHref := st, derAvailabilityHref := av\<rparr>"

definition reportCtx :: "Reporter \<Rightarrow> Ctx \<Rightarrow> Ctx" where
  "reportCtx r ctx = (if asManager r then WithTarget ctx (rpLFDI r) else ctx)"

definition socWord :: "f64 \<Rightarrow> 16 word" where
  "socWord soc = word_of_int (toInt64 (fround (fmax 0 (fmin 1 soc) * 10000)))"

definition statusOf :: "InverterState \<Rightarrow> f64 option \<Rightarrow> DERStatus" where
  "statusOf st soc =
     \<lparr>stDateTime = toUnix (isTime st), GenConnectStatus = genConnectStatus (isConnected st) (isEnergized st),
      OperationalModeStatus = operationalModeStatus (isEnergized st), StateOfChargeStatus = map_option socWord soc\<rparr>"

definition errOf :: "('w, unit) result \<Rightarrow> httpErr option \<times> 'w World" where
  "errOf res = (case res of (Inl e, w) \<Rightarrow> (Some e, w) | (Inr (), w) \<Rightarrow> (None, w))"

definition ReportStatusWithSOC :: "encoders \<Rightarrow> 'w Client \<Rightarrow> Ctx \<Rightarrow> Reporter \<Rightarrow> InverterState \<Rightarrow> f64 option \<Rightarrow> 'w World \<Rightarrow>
    httpErr option \<times> 'w World" where
  "ReportStatusWithSOC E c ctx r st soc w =
     (if derStatusHref r = [] then (None, w)
      else errOf (PutDERStatus c (reportCtx r ctx) (derStatusHref r) (encStatus E (statusOf st soc)) w))"

definition ReportStatus :: "encoders \<Rightarrow> 'w Client \<Rightarrow> Ctx \<Rightarrow> Reporter \<Rightarrow> InverterState \<Rightarrow> 'w World \<Rightarrow> httpErr option \<times> 'w World" where
  "ReportStatus E c ctx r st w = ReportStatusWithSOC E c ctx r st None w"

definition ReportAvailability :: "encoders \<Rightarrow> 'w Client \<Rightarrow> Ctx \<Rightarrow> Reporter \<Rightarrow> DERAvailability \<Rightarrow> 'w World \<Rightarrow>
    httpErr option \<times> 'w World" where
  "ReportAvailability E c ctx r a w =
     (if derAvailabilityHref r = [] then (None, w)
      else errOf (PutDERAvailability c (reportCtx r ctx) (derAvailabilityHref r) (encAvailability E a) w))"

definition readingMRID :: "encoders \<Rightarrow> string \<Rightarrow> time \<Rightarrow> 64 word \<Rightarrow> string" where
  "readingMRID E dev t n = deriveMRID (shaSum E) [''reading'', dev, fmtInstant E t, digits (unat n)]"

definition readingOfState :: "encoders \<Rightarrow> Reporter \<Rightarrow> time \<Rightarrow> InverterState \<Rightarrow> MirrorMeterReading" where
  "readingOfState E r now st =
     (let activeW = toInt64 (isActivePowerW st)
      in \<lparr>mmrMRID = readingMRID E (rpLFDI r) now (readingSeq r), LastUpdateTime = toUnix (isTime st),
          FlowDirection = (if asManager r then Some (flowDirectionFor (isActivePowerW st)) else None),
          readingValue = (if asManager r \<and> activeW < 0 then wrap64 (- activeW) else activeW),
          readingStart = toUnix (isTime st)\<rparr>)"

type_synonym 'w clock = "'w World \<Rightarrow> time"

definition ReportMetering :: "encoders \<Rightarrow> 'w Client \<Rightarrow> Ctx \<Rightarrow> 'w clock \<Rightarrow> Reporter \<Rightarrow> InverterState \<Rightarrow> 'w World \<Rightarrow>
    httpErr option \<times> Reporter \<times> 'w World" where
  "ReportMetering E c ctx clk r st w =
     (if mmrHref r = [] then (None, r, w)
      else
        (let r = r\<lparr>readingSeq := readingSeq r + 1\<rparr>;
             (e, w) = errOf (PostMeterReading c (reportCtx r ctx) (mmrHref r) (encReading E (readingOfState E r (Now w (clk w)) st)) w)
         in (e, r, w)))"

section \<open>Creating a mirror\<close>

definition postMirrorUsagePoint :: "encoders \<Rightarrow> 'w Client \<Rightarrow> Ctx \<Rightarrow> string \<Rightarrow> string \<Rightarrow> 'w World \<Rightarrow> ('w, string) result" where
  "postMirrorUsagePoint E c ctx listHref dev w =
     (case CreateMirrorUsagePoint c ctx (encMirror E) listHref dev \<lparr>mupMRID = MirrorUsagePointMRID (shaSum E) dev, DeviceLFDI = []\<rparr> w of
        (Inl e, w) \<Rightarrow> (Inl e, w)
      | (Inr loc, w) \<Rightarrow>
          if loc = [] then (Inl (ErrMsg ''MirrorUsagePoint POST returned empty Location''), w) else (Inr loc, w))"

definition maxMirrorBackoff :: duration where "maxMirrorBackoff = 300000000000"

text \<open>The loop doubles while the failures last and the cap is not reached; \<open>n\<close> counts the doublings left.\<close>

fun doubling :: "nat \<Rightarrow> duration \<Rightarrow> duration" where
  "doubling 0 d = d"
| "doubling (Suc n) d = (if d < maxMirrorBackoff then doubling n (wrap64 (d * 2)) else d)"

definition mirrorBackoff :: "duration \<Rightarrow> nat \<Rightarrow> duration" where
  "mirrorBackoff base failures = min (doubling (failures - 1) base) maxMirrorBackoff"

record mirrorRetry =
  mrTries :: nat
  mrNext :: time

definition freshRetry :: mirrorRetry where "freshRetry = \<lparr>mrTries = 0, mrNext = zeroTime\<rparr>"

definition mrReady :: "mirrorRetry \<Rightarrow> time \<Rightarrow> bool" where
  "mrReady r now \<longleftrightarrow> \<not> now < mrNext r"

definition mrFailed :: "time \<Rightarrow> duration \<Rightarrow> mirrorRetry \<Rightarrow> mirrorRetry" where
  "mrFailed now base r = \<lparr>mrTries = Suc (mrTries r), mrNext = now + mirrorBackoff base (Suc (mrTries r))\<rparr>"

definition mrWorked :: "mirrorRetry \<Rightarrow> mirrorRetry" where
  "mrWorked r = freshRetry"

section \<open>The report step of the single device\<close>

record ownReporter =
  owReporter :: Reporter
  owBase :: duration
  owRetry :: mirrorRetry
  owLost :: bool
  skipLogged :: bool

definition createOwnMirror :: "encoders \<Rightarrow> 'w Client \<Rightarrow> Ctx \<Rightarrow> DeviceCapability \<Rightarrow> 'w World \<Rightarrow> string \<times> 'w World" where
  "createOwnMirror E c ctx dcap w =
     (case MirrorUsagePointListLink dcap of
        None \<Rightarrow> ([], w)
      | Some href \<Rightarrow>
          (case postMirrorUsagePoint E c ctx href (lfdi c) w of
             (Inl e, w) \<Rightarrow> ([], w)
           | (Inr loc, w) \<Rightarrow> (loc @ ''/mr'', w)))"

definition runPhase4Metering :: "encoders \<Rightarrow> 'w Client \<Rightarrow> Ctx \<Rightarrow> DeviceCapability \<Rightarrow> string \<Rightarrow> 'w World \<Rightarrow> Reporter option \<times> 'w World" where
  "runPhase4Metering E c ctx dcap statusHref w =
     (let (mmr, w) = createOwnMirror E c ctx dcap w in (NewReporter (lfdi c) statusHref mmr, w))"

definition newOwnReporter :: "DeviceCapability \<Rightarrow> Reporter \<Rightarrow> duration \<Rightarrow> time \<Rightarrow> ownReporter" where
  "newOwnReporter dcap r base now =
     \<lparr>owReporter = r, owBase = base,
      owRetry = (if MirrorUsagePointListLink dcap \<noteq> None \<and> mmrHref r = [] then mrFailed now base freshRetry else freshRetry),
      owLost = False, skipLogged = False\<rparr>"

definition logSkip :: "ownReporter \<Rightarrow> ownReporter" where
  "logSkip o' = o'\<lparr>skipLogged := True\<rparr>"

text \<open>The last part: the reading itself, once the device has a mirror.\<close>

definition ownReading :: "encoders \<Rightarrow> 'w Client \<Rightarrow> Ctx \<Rightarrow> 'w clock \<Rightarrow> InverterState \<Rightarrow> ownReporter \<Rightarrow> 'w World \<Rightarrow>
    ownReporter \<times> 'w World" where
  "ownReading E c ctx clk st o' w =
     (let (e, r, w) = ReportMetering E c ctx clk (owReporter o') st w; o' = o'\<lparr>owReporter := r\<rparr> in
      case e of
        Some e \<Rightarrow>
          (if MirrorLost e then (o'\<lparr>owLost := True, owRetry := mrFailed (clk w) (owBase o') (owRetry o')\<rparr>, w) else (o', w))
      | None \<Rightarrow> (o'\<lparr>owRetry := mrWorked (owRetry o'), skipLogged := False\<rparr>, w))"

definition ownReport :: "encoders \<Rightarrow> 'w Client \<Rightarrow> Ctx \<Rightarrow> 'w clock \<Rightarrow> DeviceCapability \<Rightarrow> InverterState \<Rightarrow> ownReporter \<Rightarrow> 'w World \<Rightarrow>
    ownReporter \<times> 'w World" where
  "ownReport E c ctx clk dcap st o' w =
     (let (_, w) = ReportStatus E c ctx (owReporter o') st w in
      if MirrorUsagePointListLink dcap = None \<and> mmrHref (owReporter o') = [] then (logSkip o', w)
      else if owLost o' \<or> mmrHref (owReporter o') = [] then
        (if \<not> mrReady (owRetry o') (clk w) then (logSkip o', w)
         else
           (let (href, w) = createOwnMirror E c ctx dcap w in
            if href = [] then (o'\<lparr>owRetry := mrFailed (clk w) (owBase o') (owRetry o')\<rparr>, w)
            else ownReading E c ctx clk st (o'\<lparr>owReporter := SetMirrorHref href (owReporter o'), owLost := False\<rparr>) w))
      else ownReading E c ctx clk st o' w)"

section \<open>The backoff\<close>

lemma times_pow2: "0 \<le> d \<Longrightarrow> (d :: int) \<le> d * 2 ^ n"
  using mult_left_mono [of 1 "2 ^ n" d] one_le_power [of "2 :: int" n] by simp

lemma doubling_closed:
  assumes "0 \<le> d" "d \<le> 2 * maxMirrorBackoff"
  shows "min (doubling n d) maxMirrorBackoff = min (d * 2 ^ n) maxMirrorBackoff"
  using assms
proof (induction n arbitrary: d)
  case (Suc n)
  show ?case
  proof (cases "d < maxMirrorBackoff")
    case True
    then have "wrap64 (d * 2) = d * 2" using Suc.prems(1) by (simp add: wrap64_id maxMirrorBackoff_def minInt64_def maxInt64_def)
    then show ?thesis using Suc.IH [of "d * 2"] True Suc.prems(1) by (simp add: mult.assoc)
  next
    case False
    then have "maxMirrorBackoff \<le> d * 2 ^ Suc n"
      using Suc.prems(1) times_pow2 [of d "Suc n"] by linarith
    then show ?thesis using False by simp
  qed
qed simp

text \<open>The backoff loop computes the closed form: after the \<open>n\<close>th consecutive failure the wait is the
  report interval doubled \<open>n - 1\<close> times, capped at five minutes. So it never shrinks as failures add up
  and never overflows, for every interval that is not negative.
\<close>

theorem mirror_backoff_closed_form:
  assumes "0 \<le> base" "1 \<le> n"
  shows "mirrorBackoff base n = min (base * 2 ^ (n - 1)) maxMirrorBackoff \<and>
    (n \<le> m \<longrightarrow> mirrorBackoff base n \<le> mirrorBackoff base m)"
proof -
  have cf: "mirrorBackoff base k = min (base * 2 ^ (k - 1)) maxMirrorBackoff" for k
  proof (cases "base \<le> 2 * maxMirrorBackoff")
    case True
    then show ?thesis using doubling_closed [OF assms(1) True] by (simp add: mirrorBackoff_def)
  next
    case False
    have "maxMirrorBackoff \<le> base * 2 ^ (k - 1)"
      using False times_pow2 [OF assms(1), of "k - 1"] unfolding maxMirrorBackoff_def by linarith
    moreover have "doubling (k - 1) base = base" using False by (cases "k - 1") (simp_all add: maxMirrorBackoff_def)
    ultimately show ?thesis using False by (simp add: mirrorBackoff_def maxMirrorBackoff_def)
  qed
  have "mirrorBackoff base n \<le> mirrorBackoff base m" if "n \<le> m"
  proof -
    have "base * 2 ^ (n - 1) \<le> base * 2 ^ (m - 1)" using that assms(1) by (intro mult_left_mono power_increasing) auto
    then show ?thesis by (simp add: cf)
  qed
  then show ?thesis by (simp add: cf)
qed

theorem mirror_backoff_closed_form_witness:
  "mirrorBackoff 60000000000 3 = 240000000000 \<and> mirrorBackoff 60000000000 3 \<le> mirrorBackoff 60000000000 9"
  using mirror_backoff_closed_form [of 60000000000 3 9] by (simp add: maxMirrorBackoff_def)

section \<open>The readings\<close>

text \<open>The signed power a reading stands for: what flows in is negative.\<close>

definition signedReading :: "MirrorMeterReading \<Rightarrow> int" where
  "signedReading m = (if FlowDirection m = Some FlowDirectionForward then - readingValue m else readingValue m)"

lemma truncReal_neg: "p < 0 \<Longrightarrow> truncReal p \<le> 0" and truncReal_pos: "0 \<le> p \<Longrightarrow> 0 \<le> truncReal p"
  by (auto simp: truncReal_def)

text \<open>C33: A reading says what the device did: read with its flow direction it is the active power cut to whole
  watts, and the direction is reverse (delivered by the device) exactly for a power that is not negative. A
  manager's reading is a magnitude, never negative; a device's own reading has no direction and is signed.
\<close>

theorem reading_is_signed_power:
  assumes "isActivePowerW st = Fin p" "\<bar>p\<bar> < 2 ^ 63"
  shows "signedReading (readingOfState E r now st) = truncReal p \<and>
    (asManager r \<longrightarrow> 0 \<le> readingValue (readingOfState E r now st) \<and>
       FlowDirection (readingOfState E r now st) = Some (if 0 \<le> p then FlowDirectionReverse else FlowDirectionForward)) \<and>
    (\<not> asManager r \<longrightarrow> FlowDirection (readingOfState E r now st) = None)"
proof -
  have t: "\<bar>truncReal p\<bar> < 2 ^ 63"
    using assms(2) by (auto simp: truncReal_def) linarith+
  then have r: "minInt64 \<le> truncReal p" "truncReal p \<le> maxInt64" by (auto simp: minInt64_def maxInt64_def)
  have i: "toInt64 (Fin p) = truncReal p" using r by (simp add: minInt64_def maxInt64_def)
  have n: "wrap64 (- truncReal p) = - truncReal p" using t by (intro wrap64_id) (auto simp: minInt64_def maxInt64_def)
  show ?thesis
    using truncReal_neg [of p] truncReal_pos [of p] n
    by (auto simp: readingOfState_def Let_def assms(1) i signedReading_def flowDirectionFor_def FlowDirectionForward_def FlowDirectionReverse_def
        simp del: toInt64.simps)
qed

definition chargingState :: InverterState where
  "chargingState = \<lparr>isActivePowerW = Fin (- 1500.5), isReactivePowerVAr = 0, PowerFactor = 1, isVoltsPU = 1, isFreqHz = 60,
     isConnected = True, isEnergized = True, isMode = ModeConstantPF, isTime = 0\<rparr>"

theorem reading_is_signed_power_witness:
  "\<forall>E now r. readingValue (readingOfState E (AsManager r) now chargingState) = 1500"
proof (intro allI)
  fix E now r
  have p: "isActivePowerW chargingState = Fin (- 1500.5)" by (simp add: chargingState_def)
  have t: "truncReal (- 1500.5) = - 1500" by (simp add: truncReal_def)
  have m: "asManager (AsManager r)" by (simp add: AsManager_def)
  show "readingValue (readingOfState E (AsManager r) now chargingState) = 1500"
    using reading_is_signed_power [OF p, of E "AsManager r" now] m t
    by (auto simp: signedReading_def FlowDirectionForward_def FlowDirectionReverse_def)
qed

end
