(* ===== verification/Sessions.thy ===== *)
theory Sessions
  imports EventLoop Phases Notify Responses Metering
begin

text \<open>
  The control session of a managed device (\<open>cmd/inverterclient/managed_controls.go\<close>): it discovers the program to
  follow, polls its controls into the event state machine, walks again on a notification or a slow timer, and moves when
  the program moves. The goroutine is a step function over the events its \<open>select\<close> statements can receive; an event
  carries the reading of the local clock, whether the context ended while it was handled, and the random source
  of a scheduler made in it. The fields that only tests set (\<open>interval\<close>, \<open>rewalk\<close>, \<open>onExit\<close>) have no counterpart.
\<close>

section \<open>State\<close>

record following =
  fwProg :: DERProgram
  fwSched :: Scheduler
  fwCache :: DERControlCache
  fwHref :: string
  fwDefaultHref :: string
  fwPrev :: snapshot

text \<open>
  Where the goroutine is: waiting in discovery, with the failures so far and the length of the wait; following; ended;
  or dead from a nil dereference.
\<close>

datatype sessionPhase = Discovering nat duration | Following following | Ended | Panicked

record 'h controlSession =
  csMode :: string
  csPollS :: int
  csSM :: "'h StateMachine"
  csDefault :: "DefaultDERControl option"
  csSub :: subscriber
  csDevice :: EndDevice
  csPhase :: sessionPhase

record 'w controlsEnv =
  envClient :: "'w Client"
  envCtx :: Ctx
  envDecoders :: decoders
  envDcap :: DeviceCapability
  envCfg :: phaseCfg
  envNotifyURL :: "string option"
  envEncode :: "Subscription \<Rightarrow> string option"
  envSession :: nat

datatype sessionEvent =
    EvDone
  | EvTick time bool rng
  | EvWake time bool rng
  | EvRewalk time bool rng

definition newControlSession :: "simControls option \<Rightarrow> 'h list \<Rightarrow> (DERControl \<Rightarrow> ctlError option) option \<Rightarrow> EndDevice \<Rightarrow> 'h controlSession" where
  "newControlSession c hs v ed =
     \<lparr>csMode = (case c of None \<Rightarrow> ''follow'' | Some c \<Rightarrow> if scResponse c \<noteq> [] then scResponse c else ''follow''),
      csPollS = (case c of None \<Rightarrow> 0 | Some c \<Rightarrow> scPollS c),
      csSM = initialMachine None hs v, csDefault = None, csSub = \<lparr>subs = [], noSubs = False, wake = False\<rparr>,
      csDevice = ed, csPhase = Discovering 0 0\<rparr>"

definition sessionFollows :: "'h controlSession \<Rightarrow> bool" where
  "sessionFollows s \<longleftrightarrow> csMode s = ''follow''"

definition base :: "'h controlSession \<Rightarrow> DERControlBase option" where
  "base s = (if \<not> sessionFollows s then None else ActiveControlBase (Current (csSM s)) (csDefault s))"

definition active :: "'h controlSession \<Rightarrow> bool" where
  "active s =
     (if \<not> sessionFollows s then False
      else
        let snap = Current (csSM s)
        in snapState snap = StateEventStarted \<and> (case ActiveDERControl snap of None \<Rightarrow> False | Some c \<Rightarrow> ControlBase c \<noteq> None))"

definition defaultControlPoll :: duration where "defaultControlPoll = 900 * nsPerSecond"
definition rewalkPollFactor :: int where "rewalkPollFactor = 4"
definition minRewalk :: duration where "minRewalk = 300 * nsPerSecond"

definition sessionPollInterval :: "'h controlSession \<Rightarrow> DeviceCapability \<Rightarrow> duration" where
  "sessionPollInterval s dcap =
     (if csPollS s > 0 then seconds (csPollS s)
      else if PollRate dcap > 0 then pinPollInterval (PollRate dcap)
      else defaultControlPoll)"

definition rewalkInterval :: "duration \<Rightarrow> duration" where
  "rewalkInterval poll = max (wrap64 (rewalkPollFactor * poll)) minRewalk"

text \<open>
  The status the hook of a session answers with: a control dropped for another program is superseded, not cancelled.
\<close>

definition sessionStatus :: "bool \<Rightarrow> EventState \<Rightarrow> EventState \<Rightarrow> 8 word" where
  "sessionStatus superseded prev next =
     (let status = mapTransitionToStatus prev next
      in if status = ResponseStatusEventCancelled \<and> superseded then ResponseStatusEventSupersededAlternateProgram else status)"

section \<open>Walking\<close>

record programWalk =
  pwProg :: "DERProgram option"
  pwUnreadable :: "string list"
  pwWatch :: "string list"

definition listHref :: "string option \<Rightarrow> string" where
  "listHref l = (case l of None \<Rightarrow> [] | Some h \<Rightarrow> h)"

definition sameProgram :: "DERProgram \<Rightarrow> DERProgram \<Rightarrow> bool" where
  "sameProgram a b \<longleftrightarrow> dpMRID a = dpMRID b \<and> listHref (DERControlListLink a) = listHref (DERControlListLink b) \<and>
     listHref (DefaultDERControlLink a) = listHref (DefaultDERControlLink b)"

text \<open>
  One walk as the device. The walk itself idles only in strict mode; \<open>t1\<close> and \<open>t2\<close> are the timers of its two phases.
\<close>

definition walkPrograms :: "'w controlsEnv \<Rightarrow> phaseCfg \<Rightarrow> timers \<Rightarrow> timers \<Rightarrow> EndDevice \<Rightarrow> 'w World \<Rightarrow>
    ((phaseErr + programWalk) \<times> EndDevice \<times> 'w World) option" where
  "walkPrograms env cfg t1 t2 ed w =
     (case runPhase2cFSAList (envClient env) (envCtx env) (envDecoders env) ed cfg (envDcap env) t1 w of
        None \<Rightarrow> None
      | Some (Inl e, ed, _, w) \<Rightarrow> Some (Inl e, ed, w)
      | Some (Inr fsas, ed, _, w) \<Rightarrow>
          (case (if fsas \<noteq> [] then
                   runPhase2cDERProgramWalkOpts (envClient env) (envCtx env) (envDecoders env) fsas cfg (envDcap env) True t2 w
                 else Some (Inr [], [], [], w)) of
             None \<Rightarrow> None
           | Some (Inl e, _, _, w) \<Rightarrow> Some (Inl e, ed, w)
           | Some (Inr programs, bad, _, w) \<Rightarrow>
               Some (Inr \<lparr>pwProg = SelectHighestPriority (map snd (filter (\<lambda>(_, p). DERControlListLink p \<noteq> None) programs)),
                          pwUnreadable = bad,
                          pwWatch = linkHrefs (FunctionSetAssignmentsListLink ed # map DERProgramListLink fsas)\<rparr>, ed, w)))"

definition sessionSubscribe :: "'w controlsEnv \<Rightarrow> bool \<Rightarrow> string list \<Rightarrow> router \<Rightarrow> 'h controlSession \<Rightarrow> 'w World \<Rightarrow>
    router \<times> 'h controlSession \<times> 'w World" where
  "sessionSubscribe env dn hrefs r s w =
     (case subscribe (envClient env) (envCtx env) (envEncode env) (envNotifyURL env) (csDevice s) (envSession env) dn hrefs r (csSub s) w of
        (r, sub, w) \<Rightarrow> (r, s\<lparr>csSub := sub\<rparr>, w))"

text \<open>
  A walk that fails, or that cannot read the followed program, says nothing about it. The result tells
  whether the program moved, and where to.
\<close>

definition programMoved :: "'w controlsEnv \<Rightarrow> bool \<Rightarrow> DERProgram \<Rightarrow> router \<Rightarrow> 'h controlSession \<Rightarrow> 'w World \<Rightarrow>
    (bool \<times> DERProgram option) \<times> router \<times> 'h controlSession \<times> 'w World" where
  "programMoved env dn prog r s w =
     (case walkPrograms env ((envCfg env)\<lparr>CSIP := False\<rparr>) [] [] (csDevice s) w of
        None \<Rightarrow> ((False, None), r, s, w)
      | Some (Inl e, ed, w) \<Rightarrow> ((False, None), r, s\<lparr>csDevice := ed\<rparr>, w)
      | Some (Inr pw, ed, w) \<Rightarrow>
          (case sessionSubscribe env dn (pwWatch pw) r (s\<lparr>csDevice := ed\<rparr>) w of
             (r, s, w) \<Rightarrow>
               (if dpMRID prog \<in> set (pwUnreadable pw) then ((False, None), r, s, w)
                else
                  case pwProg pw of
                    None \<Rightarrow> ((True, None), r, s, w)
                  | Some next \<Rightarrow> (if \<not> sameProgram prog next then ((True, Some next), r, s, w) else ((False, None), r, s, w)))))"

section \<open>Following\<close>

text \<open>\<open>None\<close> is the nil dereference of a program without a control list.\<close>

definition followStart :: "DERProgram \<Rightarrow> rng \<Rightarrow> following option" where
  "followStart prog rnd =
     (case DERControlListLink prog of
        None \<Rightarrow> None
      | Some h \<Rightarrow>
          Some \<lparr>fwProg = prog, fwSched = NewScheduler rnd, fwCache = NewDERControlCache, fwHref = h,
                fwDefaultHref = listHref (DefaultDERControlLink prog), fwPrev = Snapshot NewDERControlCache\<rparr>)"

definition readDefaultControl :: "'w controlsEnv \<Rightarrow> 'h controlSession \<Rightarrow> following \<Rightarrow> 'w World \<Rightarrow> 'h controlSession \<times> following \<times> 'w World" where
  "readDefaultControl env s fw w =
     (if fwDefaultHref fw = [] then (s, fw, w)
      else
        (case GetDefaultDERControl (envClient env) (envCtx env) (decDefaultControl (envDecoders env)) (fwDefaultHref fw) w of
           (Inl e, w) \<Rightarrow> (s, fw, w)
         | (Inr (ddc, newHref), w) \<Rightarrow>
             (s\<lparr>csDefault := Some ddc\<rparr>, fw\<lparr>fwDefaultHref := (if newHref \<noteq> [] then newHref else fwDefaultHref fw)\<rparr>, w)))"

definition followStep :: "'w controlsEnv \<Rightarrow> time \<Rightarrow> 'h controlSession \<Rightarrow> following \<Rightarrow> 'w World \<Rightarrow>
    'h controlSession \<times> following \<times> 'h transition list \<times> 'w World" where
  "followStep env t s fw w =
     (case readDefaultControl env s fw w of
        (s, fw, w) \<Rightarrow>
          (case GetDERControlList (envClient env) (envCtx env) (decControlList (envDecoders env)) (fwHref fw) w of
             (Inl e, w) \<Rightarrow>
               (case Tick (csSM s) (Now w t) [] [] (fwSched fw) of
                  (sm, sched, out) \<Rightarrow> (s\<lparr>csSM := sm\<rparr>, fw\<lparr>fwSched := sched\<rparr>, out, w))
           | (Inr (l, newHref), w) \<Rightarrow>
               (let cache = fst (Refresh (fwCache fw) l) in
                case stepEvents (csSM s) (fwSched fw) (Now w t) cache (fwPrev fw) of
                  ((sm, sched, out), prev) \<Rightarrow>
                    (s\<lparr>csSM := sm\<rparr>,
                     fw\<lparr>fwSched := sched, fwCache := cache, fwHref := (if newHref \<noteq> [] then newHref else fwHref fw), fwPrev := prev\<rparr>,
                     out, w))))"

type_synonym 'h outputs = "(bool \<times> 'h transition) list"

definition follow :: "'w controlsEnv \<Rightarrow> time \<Rightarrow> rng \<Rightarrow> DERProgram \<Rightarrow> 'h controlSession \<Rightarrow> 'w World \<Rightarrow> 'h controlSession \<times> 'h outputs \<times> 'w World" where
  "follow env t rnd prog s w =
     (case followStart prog rnd of
        None \<Rightarrow> (s\<lparr>csPhase := Panicked\<rparr>, [], w)
      | Some fw \<Rightarrow>
          (case followStep env t s fw w of
             (s, fw, out, w) \<Rightarrow> (s\<lparr>csPhase := Following fw\<rparr>, map (Pair False) out, w)))"

text \<open>
  Discovery, from the walk to the next wait. The context that ends while a walk fails is the next event.
\<close>

definition discoverProgram :: "'w controlsEnv \<Rightarrow> time \<Rightarrow> bool \<Rightarrow> rng \<Rightarrow> nat \<Rightarrow> router \<Rightarrow> 'h controlSession \<Rightarrow> 'w World \<Rightarrow>
    (router \<times> 'h controlSession \<times> 'h outputs \<times> 'w World) option" where
  "discoverProgram env t dn rnd failures r s w =
     (let interval = sessionPollInterval s (envDcap env) in
      case walkPrograms env (envCfg env) [] [] (csDevice s) w of
        None \<Rightarrow> None
      | Some (Inl e, ed, w) \<Rightarrow>
          Some (r, s\<lparr>csDevice := ed, csPhase := Discovering (Suc failures) (mirrorBackoff interval (Suc failures))\<rparr>, [], w)
      | Some (Inr pw, ed, w) \<Rightarrow>
          (case sessionSubscribe env dn (pwWatch pw) r (s\<lparr>csDevice := ed\<rparr>) w of
             (r, s, w) \<Rightarrow>
               Some
                 (case pwProg pw of
                    None \<Rightarrow> (r, s\<lparr>csPhase := Discovering failures interval\<rparr>, [], w)
                  | Some prog \<Rightarrow> (case follow env t rnd prog s w of (s, out, w) \<Rightarrow> (r, s, out, w)))))"

text \<open>
  The re-walk of a followed program. What the program had delivered goes with it; \<open>True\<close> marks a transition
  made while the session's superseded flag is set.
\<close>

definition rewalk :: "'w controlsEnv \<Rightarrow> time \<Rightarrow> bool \<Rightarrow> rng \<Rightarrow> following \<Rightarrow> router \<Rightarrow> 'h controlSession \<Rightarrow> 'w World \<Rightarrow>
    (router \<times> 'h controlSession \<times> 'h outputs \<times> 'w World) option" where
  "rewalk env t dn rnd fw r s w =
     (case programMoved env dn (fwProg fw) r s w of
        ((False, _), r, s, w) \<Rightarrow> Some (r, s, [], w)
      | ((True, replacement), r, s, w) \<Rightarrow>
          (let gone = snd (diffSnapshots (fwPrev fw) []);
               superseded = (case replacement of None \<Rightarrow> False | Some p \<Rightarrow> dpMRID p \<noteq> dpMRID (fwProg fw)) in
           case Tick (csSM s) (Now w t) [] gone (fwSched fw) of
             (sm, _, out) \<Rightarrow>
               (let s = s\<lparr>csDefault := None, csSM := sm\<rparr>; out = map (Pair superseded) out in
                case replacement of
                  None \<Rightarrow> map_option (\<lambda>(r, s, out', w). (r, s, out @ out', w)) (discoverProgram env t dn rnd 0 r s w)
                | Some p \<Rightarrow> (case follow env t rnd p s w of (s, out', w) \<Rightarrow> Some (r, s, out @ out', w)))))"

section \<open>The session\<close>

abbreviation unwake :: "'h controlSession \<Rightarrow> 'h controlSession" where
  "unwake s \<equiv> s\<lparr>csSub := (csSub s)\<lparr>wake := False\<rparr>\<rparr>"

definition sessionStep :: "'w controlsEnv \<Rightarrow> sessionEvent \<Rightarrow> router \<Rightarrow> 'h controlSession \<Rightarrow> 'w World \<Rightarrow>
    (router \<times> 'h controlSession \<times> 'h outputs \<times> 'w World) option" where
  "sessionStep env ev r s w =
     (case csPhase s of
        Ended \<Rightarrow> Some (r, s, [], w)
      | Panicked \<Rightarrow> Some (r, s, [], w)
      | Discovering failures _ \<Rightarrow>
          (case ev of
             EvDone \<Rightarrow> Some (r, s\<lparr>csPhase := Ended\<rparr>, [], w)
           | EvTick t dn rnd \<Rightarrow> discoverProgram env t dn rnd failures r s w
           | EvWake t dn rnd \<Rightarrow> discoverProgram env t dn rnd failures r (unwake s) w
           | EvRewalk _ _ _ \<Rightarrow> Some (r, s, [], w))
      | Following fw \<Rightarrow>
          (case ev of
             EvDone \<Rightarrow> Some (r, s\<lparr>csPhase := Ended\<rparr>, [], w)
           | EvTick t _ _ \<Rightarrow>
               (case followStep env t s fw w of
                  (s, fw, out, w) \<Rightarrow> Some (r, s\<lparr>csPhase := Following fw\<rparr>, map (Pair False) out, w))
           | EvWake t dn rnd \<Rightarrow> rewalk env t dn rnd fw r (unwake s) w
           | EvRewalk t dn rnd \<Rightarrow> rewalk env t dn rnd fw r s w))"

fun sessionLoop :: "'w controlsEnv \<Rightarrow> sessionEvent list \<Rightarrow> router \<Rightarrow> 'h controlSession \<Rightarrow> 'w World \<Rightarrow>
    (router \<times> 'h controlSession \<times> 'h outputs \<times> 'w World) option" where
  "sessionLoop env [] r s w = Some (r, s, [], w)"
| "sessionLoop env (ev # evs) r s w =
     (case sessionStep env ev r s w of
        None \<Rightarrow> None
      | Some (r, s, out, w) \<Rightarrow> map_option (\<lambda>(r, s, out', w). (r, s, out @ out', w)) (sessionLoop env evs r s w))"

text \<open>The goroutine walks first and waits then.\<close>

definition runControls :: "'w controlsEnv \<Rightarrow> time \<Rightarrow> bool \<Rightarrow> rng \<Rightarrow> sessionEvent list \<Rightarrow> router \<Rightarrow> 'h controlSession \<Rightarrow> 'w World \<Rightarrow>
    (router \<times> 'h controlSession \<times> 'h outputs \<times> 'w World) option" where
  "runControls env t dn rnd evs r s w =
     (case discoverProgram env t dn rnd 0 r s w of
        None \<Rightarrow> None
      | Some (r, s, out, w) \<Rightarrow> map_option (\<lambda>(r, s, out', w). (r, s, out @ out', w)) (sessionLoop env evs r s w))"

text \<open>A session runs unless its response mode is \<open>none\<close>.\<close>

definition startsSession :: "'h controlSession \<Rightarrow> bool" where
  "startsSession s \<longleftrightarrow> csMode s \<noteq> ''none''"

section \<open>The walks of a session\<close>

lemma selected_in: "SelectHighestPriority ps = Some p \<Longrightarrow> p \<in> set ps"
proof (cases ps)
  case (Cons a list)
  then show "SelectHighestPriority ps = Some p \<Longrightarrow> p \<in> set ps"
    using selectLoop_Some [of a list] by (auto simp: SelectHighestPriority_def)
qed (simp add: SelectHighestPriority_def)

lemma walked_program_has_list:
  assumes "walkPrograms env cfg t1 t2 ed w = Some (Inr pw, ed', w')" "pwProg pw = Some p"
  shows "DERControlListLink p \<noteq> None"
  using assms by (auto simp: walkPrograms_def split: option.splits prod.splits sum.splits if_splits dest!: selected_in)

lemma lenient_walk_returns: "\<not> csipStrict cfg \<Longrightarrow> walkPrograms env cfg [] [] ed w \<noteq> None"
  by (auto simp: walkPrograms_def runPhase2cFSAList_def fetchFSAList.simps runPhase2cDERProgramWalkOpts.simps Let_def
      simp del: not_None_eq split: option.splits prod.splits sum.splits if_splits)

lemma sessionSubscribe_frame:
  assumes "sessionSubscribe env dn hs r s w = (r', s', w')"
  shows "csSM s' = csSM s \<and> csMode s' = csMode s \<and> csPollS s' = csPollS s \<and> csDefault s' = csDefault s \<and> csPhase s' = csPhase s"
  using assms by (auto simp: sessionSubscribe_def split: prod.splits)

lemma programMoved_frame:
  assumes "programMoved env dn prog r s w = ((moved, next), r', s', w')"
  shows "csSM s' = csSM s \<and> csMode s' = csMode s \<and> csPollS s' = csPollS s \<and> csDefault s' = csDefault s \<and> csPhase s' = csPhase s \<and>
    (next \<noteq> None \<longrightarrow> moved) \<and> (\<forall>p. next = Some p \<longrightarrow> DERControlListLink p \<noteq> None \<and> \<not> sameProgram prog p)"
proof -
  let ?cfg = "(envCfg env)\<lparr>CSIP := False\<rparr>"
  consider "walkPrograms env ?cfg [] [] (csDevice s) w = None"
    | e ed w1 where "walkPrograms env ?cfg [] [] (csDevice s) w = Some (Inl e, ed, w1)"
    | pw ed w1 where "walkPrograms env ?cfg [] [] (csDevice s) w = Some (Inr pw, ed, w1)"
    by (cases "walkPrograms env ?cfg [] [] (csDevice s) w") (auto, metis sum.exhaust)
  then show ?thesis
  proof cases
    case (3 pw ed w1)
    obtain r2 s2 w2 where s: "sessionSubscribe env dn (pwWatch pw) r (s\<lparr>csDevice := ed\<rparr>) w1 = (r2, s2, w2)" by (metis prod_cases3)
    show ?thesis
      using assms 3 s sessionSubscribe_frame [OF s] walked_program_has_list [OF 3]
      by (auto simp: programMoved_def split: if_splits option.splits)
  qed (use assms in \<open>auto simp: programMoved_def\<close>)
qed

section \<open>Following refines the driver of the event loop\<close>

definition sessionDriver :: "'h controlSession \<Rightarrow> bool" where
  "sessionDriver s \<longleftrightarrow>
     (case csPhase s of
        Following fw \<Rightarrow> driver (csSM s) (fwSched fw) (fwCache fw) (fwPrev fw) \<and> DERControlListLink (fwProg fw) \<noteq> None
      | Discovering _ _ \<Rightarrow> (\<forall>rnd. driver (csSM s) (NewScheduler rnd) NewDERControlCache [])
      | Ended \<Rightarrow> (\<exists>sched cache prev. driver (csSM s) sched cache prev)
      | Panicked \<Rightarrow> False)"

lemma readDefaultControl_frame:
  assumes "readDefaultControl env s fw w = (s', fw', w')"
  shows "csSM s' = csSM s \<and> csMode s' = csMode s \<and> csPollS s' = csPollS s \<and> csPhase s' = csPhase s \<and> fwProg fw' = fwProg fw \<and> fwSched fw' = fwSched fw \<and>
    fwCache fw' = fwCache fw \<and> fwPrev fw' = fwPrev fw \<and> fwHref fw' = fwHref fw"
  using assms by (auto simp: readDefaultControl_def split: if_splits prod.splits sum.splits)

lemma followStep_driver:
  assumes "followStep env t s fw w = (s', fw', out, w')" "driver (csSM s) (fwSched fw) (fwCache fw) (fwPrev fw)"
  shows "driver (csSM s') (fwSched fw') (fwCache fw') (fwPrev fw') \<and> csMode s' = csMode s \<and> csPollS s' = csPollS s \<and> csPhase s' = csPhase s \<and> fwProg fw' = fwProg fw"
proof -
  obtain s1 fw1 w1 where r: "readDefaultControl env s fw w = (s1, fw1, w1)" by (metis prod_cases3)
  note f = readDefaultControl_frame [OF r]
  obtain x w2 where g: "GetDERControlList (envClient env) (envCtx env) (decControlList (envDecoders env)) (fwHref fw1) w1 = (x, w2)" by force
  show ?thesis
  proof (cases x)
    case (Inl e)
    obtain sm sched o1 where k: "Tick (csSM s1) (Now w2 t) [] [] (fwSched fw1) = (sm, sched, o1)" by (metis prod_cases3)
    have "driver sm sched (fwCache fw) (fwPrev fw)"
      by (rule driver.readFailed [OF assms(2)]) (use k f in simp)
    then show ?thesis using assms(1) r g Inl k f by (auto simp: followStep_def)
  next
    case (Inr a)
    obtain l h where a: "a = (l, h)" by force
    let ?c = "fst (Refresh (fwCache fw) l)"
    obtain sm sched o1 cur where k: "stepEvents (csSM s1) (fwSched fw1) (Now w2 t) ?c (fwPrev fw1) = ((sm, sched, o1), cur)"
      by (metis prod.exhaust)
    have "driver sm sched ?c cur"
      by (rule driver.step [OF driver.refresh [OF assms(2), of l]]) (use k f in simp)
    then show ?thesis using assms(1) r g Inr a k f by (auto simp: followStep_def Let_def)
  qed
qed

lemma follow_driver:
  assumes "follow env t rnd prog s w = (s', out, w')" "driver (csSM s) (NewScheduler rnd) NewDERControlCache []" "DERControlListLink prog \<noteq> None"
  shows "sessionDriver s' \<and> csMode s' = csMode s \<and> csPollS s' = csPollS s \<and> (\<exists>fw. csPhase s' = Following fw \<and> fwProg fw = prog) \<and> fst ` set out \<subseteq> {False}"
proof -
  obtain fw where fw: "followStart prog rnd = Some fw" "fwProg fw = prog" "fwSched fw = NewScheduler rnd" "fwCache fw = NewDERControlCache" "fwPrev fw = []"
    using assms(3) by (auto simp: followStart_def Snapshot_def NewDERControlCache_def)
  obtain s1 fw1 o1 w1 where k: "followStep env t s fw w = (s1, fw1, o1, w1)" by (metis prod_cases4)
  have d: "driver (csSM s1) (fwSched fw1) (fwCache fw1) (fwPrev fw1) \<and> csMode s1 = csMode s \<and> csPollS s1 = csPollS s \<and> csPhase s1 = csPhase s \<and> fwProg fw1 = fwProg fw"
    by (rule followStep_driver [OF k]) (use assms(2) fw in simp)
  then show ?thesis using assms(1,3) fw k by (auto simp: follow_def sessionDriver_def)
qed

lemma discoverProgram_driver:
  assumes "discoverProgram env t dn rnd n r s w = Some (r', s', out, w')" "\<forall>rnd. driver (csSM s) (NewScheduler rnd) NewDERControlCache []"
  shows "sessionDriver s' \<and> csMode s' = csMode s \<and> csPollS s' = csPollS s \<and> fst ` set out \<subseteq> {False}"
proof -
  consider e ed w1 where "walkPrograms env (envCfg env) [] [] (csDevice s) w = Some (Inl e, ed, w1)"
    | pw ed w1 where "walkPrograms env (envCfg env) [] [] (csDevice s) w = Some (Inr pw, ed, w1)"
    using assms(1) by (auto simp: discoverProgram_def Let_def split: option.splits sum.splits)
  then show ?thesis
  proof cases
    case 1
    then show ?thesis using assms by (auto simp: discoverProgram_def Let_def sessionDriver_def)
  next
    case (2 pw ed w1)
    obtain r2 s2 w2 where s: "sessionSubscribe env dn (pwWatch pw) r (s\<lparr>csDevice := ed\<rparr>) w1 = (r2, s2, w2)" by (metis prod_cases3)
    note f = sessionSubscribe_frame [OF s]
    show ?thesis
    proof (cases "pwProg pw")
      case None
      then show ?thesis using assms 2 s f by (auto simp: discoverProgram_def Let_def sessionDriver_def)
    next
      case (Some p)
      obtain s3 o3 w3 where k: "follow env t rnd p s2 w2 = (s3, o3, w3)" by (metis prod_cases3)
      have d: "driver (csSM s2) (NewScheduler rnd) NewDERControlCache []" using assms(2) f by simp
      show ?thesis
        using follow_driver [OF k d walked_program_has_list [OF 2 Some]] assms(1) 2 s f Some k by (auto simp: discoverProgram_def Let_def)
    qed
  qed
qed

lemma rewalk_cases [consumes 3, case_names kept moved]:
  assumes "rewalk env t dn rnd fw r s w = Some (r', s', out, w')" "driver (csSM s) (fwSched fw) (fwCache fw) (fwPrev fw)" "csPhase s = Following fw"
  obtains (kept) "csSM s' = csSM s" "csPhase s' = Following fw" "csDefault s' = csDefault s" "csMode s' = csMode s" "csPollS s' = csPollS s" "out = []"
      "\<not> fst (fst (programMoved env dn (fwProg fw) r s w))"
  | (moved) s1 w1 sm sched o1 o2 nxt r1 where "csSM s1 = csSM s" "csMode s1 = csMode s" "csPollS s1 = csPollS s"
      "Tick (csSM s) (Now w1 t) [] (snd (diffSnapshots (fwPrev fw) [])) (fwSched fw) = (sm, sched, o1)"
      "\<forall>rnd. driver sm (NewScheduler rnd) NewDERControlCache []" "state sm = StateDefault"
      "out = map (Pair (\<exists>p. nxt = Some p \<and> dpMRID p \<noteq> dpMRID (fwProg fw))) o1 @ o2"
      "case nxt of None \<Rightarrow> discoverProgram env t dn rnd 0 r1 (s1\<lparr>csDefault := None, csSM := sm\<rparr>) w1 = Some (r', s', o2, w')
       | Some p \<Rightarrow> DERControlListLink p \<noteq> None \<and> \<not> sameProgram (fwProg fw) p \<and> follow env t rnd p (s1\<lparr>csDefault := None, csSM := sm\<rparr>) w1 = (s', o2, w')"
      "fst (programMoved env dn (fwProg fw) r s w) = (True, nxt)"
proof -
  obtain m nx r1 s1 w1 where p: "programMoved env dn (fwProg fw) r s w = ((m, nx), r1, s1, w1)" by (metis prod.exhaust)
  note f = programMoved_frame [OF p]
  show ?thesis
  proof (cases m)
    case False
    then show ?thesis using kept assms(1,3) p f by (auto simp: rewalk_def)
  next
    case True
    obtain sm sched o1 where k: "Tick (csSM s1) (Now w1 t) [] (snd (diffSnapshots (fwPrev fw) [])) (fwSched fw) = (sm, sched, o1)" by (metis prod_cases3)
    have k': "Tick (csSM s) (Now w1 t) [] (snd (diffSnapshots (fwPrev fw) [])) (fwSched fw) = (sm, sched, o1)" using k f by simp
    have d: "\<forall>rnd. driver sm (NewScheduler rnd) NewDERControlCache []" "state sm = StateDefault"
      using driver.switch [OF assms(2) k'] loop_inv_switch [OF driver_loop_inv [OF assms(2)] k'] by auto
    show ?thesis
    proof (cases nx)
      case None
      obtain r2 s2 o2 w2 where "discoverProgram env t dn rnd 0 r1 (s1\<lparr>csDefault := None, csSM := sm\<rparr>) w1 = Some (r2, s2, o2, w2)"
        "(r', s', out, w') = (r2, s2, map (Pair False) o1 @ o2, w2)"
        using assms(1) p True k None by (auto simp: rewalk_def Let_def)
      then show ?thesis using moved [of s1 w1 sm sched o1 None o2 r1] f k' d None p True by simp
    next
      case (Some q)
      obtain s2 o2 w2 where "follow env t rnd q (s1\<lparr>csDefault := None, csSM := sm\<rparr>) w1 = (s2, o2, w2)"
        "(r', s', out, w') = (r1, s2, map (Pair (dpMRID q \<noteq> dpMRID (fwProg fw))) o1 @ o2, w2)"
        using assms(1) p True k Some by (auto simp: rewalk_def Let_def split: prod.splits)
      then show ?thesis using moved [of s1 w1 sm sched o1 "Some q" o2 r1] f k' d Some p True by simp
    qed
  qed
qed

lemma sessionStep_driver:
  assumes "sessionStep env ev r s w = Some (r', s', out, w')" "sessionDriver s"
  shows "sessionDriver s' \<and> csMode s' = csMode s \<and> csPollS s' = csPollS s"
proof (cases "csPhase s")
  case (Discovering n d)
  then have dr: "\<forall>rnd. driver (csSM s) (NewScheduler rnd) NewDERControlCache []" using assms(2) by (simp add: sessionDriver_def)
  show ?thesis
  proof (cases ev)
    case EvDone
    then show ?thesis using assms(1) Discovering dr by (auto simp: sessionStep_def sessionDriver_def) blast
  next
    case (EvTick t dn rnd)
    then have "discoverProgram env t dn rnd n r s w = Some (r', s', out, w')" using assms(1) Discovering by (simp add: sessionStep_def)
    from discoverProgram_driver [OF this dr] show ?thesis by simp
  next
    case (EvWake t dn rnd)
    then have "discoverProgram env t dn rnd n r (unwake s) w = Some (r', s', out, w')" using assms(1) Discovering by (simp add: sessionStep_def)
    from discoverProgram_driver [OF this] show ?thesis using dr by simp
  next
    case EvRewalk
    then show ?thesis using assms Discovering by (simp add: sessionStep_def)
  qed
next
  case (Following fw)
  then have dr: "driver (csSM s) (fwSched fw) (fwCache fw) (fwPrev fw)" and ls: "DERControlListLink (fwProg fw) \<noteq> None"
    using assms(2) by (simp_all add: sessionDriver_def)
  have walk: ?thesis if "rewalk env t dn rnd fw s2 s1 w = Some (r', s', out, w')" "csSM s1 = csSM s" "csMode s1 = csMode s" "csPollS s1 = csPollS s" "csPhase s1 = Following fw"
    for t dn rnd s2 s1
  proof -
    have d1: "driver (csSM s1) (fwSched fw) (fwCache fw) (fwPrev fw)" using dr that(2) by simp
    show ?thesis using that(1) d1 that(5)
    proof (cases rule: rewalk_cases)
      case kept
      then show ?thesis using that dr ls by (simp add: sessionDriver_def)
    next
      case (moved s3 w1 sm sched o1 o2 nxt r1)
      show ?thesis
      proof (cases nxt)
        case None
        with moved(8) have "discoverProgram env t dn rnd 0 r1 (s3\<lparr>csDefault := None, csSM := sm\<rparr>) w1 = Some (r', s', o2, w')" by simp
        from discoverProgram_driver [OF this] show ?thesis using moved that by simp
      next
        case (Some p)
        with moved(8) have f: "follow env t rnd p (s3\<lparr>csDefault := None, csSM := sm\<rparr>) w1 = (s', o2, w')" "DERControlListLink p \<noteq> None" by simp_all
        from follow_driver [OF f(1) _ f(2)] show ?thesis using moved that by simp
      qed
    qed
  qed
  show ?thesis
  proof (cases ev)
    case EvDone
    then show ?thesis using assms(1) Following dr by (auto simp: sessionStep_def sessionDriver_def) blast
  next
    case (EvTick t dn rnd)
    obtain s1 fw1 o1 w1 where k: "followStep env t s fw w = (s1, fw1, o1, w1)" by (metis prod_cases4)
    show ?thesis using followStep_driver [OF k dr] EvTick Following assms(1) k ls by (auto simp: sessionStep_def sessionDriver_def)
  next
    case (EvWake t dn rnd)
    then show ?thesis using walk [of t dn rnd r "unwake s"] assms(1) Following by (simp add: sessionStep_def)
  next
    case (EvRewalk t dn rnd)
    then show ?thesis using walk [of t dn rnd r s] assms(1) Following by (simp add: sessionStep_def)
  qed
next
  case Ended
  then show ?thesis using assms by (simp add: sessionStep_def)
next
  case Panicked
  then show ?thesis using assms by (simp add: sessionDriver_def)
qed

lemma sessionLoop_driver:
  "sessionLoop env evs r s w = Some (r', s', out, w') \<Longrightarrow> sessionDriver s \<Longrightarrow> sessionDriver s' \<and> csMode s' = csMode s \<and> csPollS s' = csPollS s"
proof (induction evs arbitrary: r s w out)
  case (Cons ev evs)
  obtain r1 s1 o1 w1 where s: "sessionStep env ev r s w = Some (r1, s1, o1, w1)"
    using Cons.prems(1) by (auto split: option.splits)
  obtain o2 where l: "sessionLoop env evs r1 s1 w1 = Some (r', s', o2, w')"
    using Cons.prems(1) s by auto
  show ?case using Cons.IH [OF l] sessionStep_driver [OF s Cons.prems(2)] by simp
qed simp

lemma discoverProgram_returns: "\<not> csipStrict (envCfg env) \<Longrightarrow> discoverProgram env t dn rnd n r s w \<noteq> None"
  by (simp add: discoverProgram_def Let_def lenient_walk_returns del: not_None_eq split: option.split sum.split prod.split)

lemma sessionStep_returns: "\<not> csipStrict (envCfg env) \<Longrightarrow> sessionStep env ev r s w \<noteq> None"
  by (auto simp: sessionStep_def rewalk_def Let_def discoverProgram_returns simp del: not_None_eq
      split: sessionPhase.splits sessionEvent.splits prod.splits option.splits bool.splits)

lemma sessionLoop_returns: "\<not> csipStrict (envCfg env) \<Longrightarrow> sessionLoop env evs r s w \<noteq> None"
proof (induction evs arbitrary: r s w)
  case (Cons ev evs)
  then show ?case using sessionStep_returns [OF Cons.prems, of ev r s w] by (auto simp del: not_None_eq split: option.splits)
qed simp

text \<open>C23: The session of a managed device, with its requests, walks and switches of program, is an implementation of
  the driver of the event loop: in every state it reaches, its state machine, queue, cache and snapshot are those of
  a run of the driver, so the lifecycle, the rejections and the tracking of the list hold for it; it never
  dereferences a missing control list, keeps its response mode, and, outside strict mode, no walk keeps it from its next event.
\<close>

theorem session_refines_driver:
  fixes h :: "'h list"
  shows "(\<forall>r' s' out w'. runControls env t dn rnd evs r (newControlSession c h v ed) w = Some (r', s', out, w') \<longrightarrow>
      csPhase s' \<noteq> Panicked \<and> csMode s' = csMode (newControlSession c h v ed) \<and>
      (case csPhase s' of
         Following fw \<Rightarrow> driver (csSM s') (fwSched fw) (fwCache fw) (fwPrev fw) \<and> DERControlListLink (fwProg fw) \<noteq> None
       | _ \<Rightarrow> (\<exists>sched cache prev. driver (csSM s') sched cache prev))) \<and>
    (\<not> csipStrict (envCfg env) \<longrightarrow> runControls env t dn rnd evs r (newControlSession c h v ed) w \<noteq> None)"
proof (intro conjI allI impI)
  fix r' s' out w'
  assume "runControls env t dn rnd evs r (newControlSession c h v ed) w = Some (r', s', out, w')"
  then obtain r1 s1 o1 w1 o2 where d: "discoverProgram env t dn rnd 0 r (newControlSession c h v ed) w = Some (r1, s1, o1, w1)"
    "sessionLoop env evs r1 s1 w1 = Some (r', s', o2, w')"
    by (auto simp: runControls_def split: option.splits)
  have "\<forall>rnd. driver (csSM (newControlSession c h v ed)) (NewScheduler rnd) NewDERControlCache []"
    by (simp add: newControlSession_def driver.begin_)
  from discoverProgram_driver [OF d(1) this] sessionLoop_driver [OF d(2)]
  have s: "sessionDriver s' \<and> csMode s' = csMode (newControlSession c h v ed)" by simp
  then show "csPhase s' \<noteq> Panicked" "csMode s' = csMode (newControlSession c h v ed)"
    by (auto simp: sessionDriver_def)
  show "case csPhase s' of
         Following fw \<Rightarrow> driver (csSM s') (fwSched fw) (fwCache fw) (fwPrev fw) \<and> DERControlListLink (fwProg fw) \<noteq> None
       | _ \<Rightarrow> (\<exists>sched cache prev. driver (csSM s') sched cache prev)"
    using s by (cases "csPhase s'") (auto simp: sessionDriver_def)
next
  assume n: "\<not> csipStrict (envCfg env)"
  then show "runControls env t dn rnd evs r (newControlSession c h v ed) w \<noteq> None"
    by (simp add: runControls_def discoverProgram_returns sessionLoop_returns del: not_None_eq split: option.split prod.split)
qed

definition staysWith :: "DERProgram \<Rightarrow> phaseErr + programWalk \<Rightarrow> bool" where
  "staysWith prog x \<longleftrightarrow>
     (case x of
        Inl _ \<Rightarrow> True
      | Inr pw \<Rightarrow> dpMRID prog \<in> set (pwUnreadable pw) \<or> (\<exists>p. pwProg pw = Some p \<and> sameProgram prog p))"

lemma programMoved_verdict:
  assumes "walkPrograms env ((envCfg env)\<lparr>CSIP := False\<rparr>) [] [] (csDevice s) w = Some (x, ed, w1)"
  shows "fst (programMoved env dn prog r s w) = (if staysWith prog x then (False, None) else (True, case x of Inl _ \<Rightarrow> None | Inr pw \<Rightarrow> pwProg pw))"
  using assms by (auto simp: programMoved_def staysWith_def split: sum.splits prod.splits option.splits)

lemma superseded_status:
  "(sessionStatus b p n = ResponseStatusEventSupersededAlternateProgram) = (b \<and> n = StateEventCancelled)"
  by (cases n) (auto simp: sessionStatus_def mapTransitionToStatus_def Let_def status_defs)

lemma discoverProgram_outputs:
  assumes "discoverProgram env t dn rnd n r s w = Some (r', s', out, w')" "\<forall>rnd. driver (csSM s) (NewScheduler rnd) NewDERControlCache []"
  shows "\<exists>o2. out = map (Pair False) o2"
proof -
  have "fst ` set out \<subseteq> {False}" using discoverProgram_driver [OF assms] by simp
  then have "out = map (Pair False) (map snd out)" by (induction out) auto
  then show ?thesis by blast
qed

lemma follow_outputs: "follow env t rnd p s w = (s', out, w') \<Longrightarrow> \<exists>o2. out = map (Pair False) o2"
  by (auto simp: follow_def split: option.splits prod.splits)

text \<open>The default control of a session is one that the server gave for the program it follows.\<close>

definition ownDefault :: "'w controlsEnv \<Rightarrow> 'h controlSession \<Rightarrow> bool" where
  "ownDefault env s \<longleftrightarrow> csDefault s = None \<or>
     (\<exists>fw h ddc moved w w'. csPhase s = Following fw \<and> DefaultDERControlLink (fwProg fw) = Some h \<and>
        GetDefaultDERControl (envClient env) (envCtx env) (decDefaultControl (envDecoders env)) h w = (Inr (ddc, moved), w') \<and>
        csDefault s = Some ddc)"

lemma follow_ownDefault:
  assumes "follow env t rnd p s w = (s', out, w')" "csDefault s = None" "DERControlListLink p \<noteq> None"
  shows "ownDefault env s'"
proof -
  obtain fw where fw: "followStart p rnd = Some fw" "fwProg fw = p" "fwDefaultHref fw = listHref (DefaultDERControlLink p)"
    using assms(3) by (auto simp: followStart_def)
  obtain s1 fw1 w1 where d: "readDefaultControl env s fw w = (s1, fw1, w1)" by (metis prod_cases3)
  obtain s2 fw2 o2 w2 where k: "followStep env t s fw w = (s2, fw2, o2, w2)" by (metis prod_cases4)
  have s': "s' = s2\<lparr>csPhase := Following fw2\<rparr>" using assms(1) fw(1) k by (simp add: follow_def)
  have "csDefault s2 = csDefault s1 \<and> fwProg fw2 = fwProg fw1"
    using k d by (auto simp: followStep_def Let_def split: prod.splits sum.splits)
  moreover have "fwProg fw1 = p" using d fw(2) by (auto simp: readDefaultControl_def split: if_splits prod.splits sum.splits)
  moreover have "csDefault s1 = None \<or> (\<exists>h ddc moved v v'. DefaultDERControlLink p = Some h \<and>
      GetDefaultDERControl (envClient env) (envCtx env) (decDefaultControl (envDecoders env)) h v = (Inr (ddc, moved), v') \<and>
      csDefault s1 = Some ddc)"
    using d assms(2) fw(3) by (fastforce simp: readDefaultControl_def listHref_def split: if_splits prod.splits sum.splits option.splits)
  ultimately show ?thesis unfolding s' ownDefault_def by auto
qed

lemma discoverProgram_ownDefault:
  assumes "discoverProgram env t dn rnd n r s w = Some (r', s', out, w')" "csDefault s = None"
  shows "ownDefault env s'"
proof -
  consider e ed w1 where "walkPrograms env (envCfg env) [] [] (csDevice s) w = Some (Inl e, ed, w1)"
    | pw ed w1 where "walkPrograms env (envCfg env) [] [] (csDevice s) w = Some (Inr pw, ed, w1)"
    using assms(1) by (auto simp: discoverProgram_def Let_def split: option.splits sum.splits)
  then show ?thesis
  proof cases
    case 1
    then show ?thesis using assms by (auto simp: discoverProgram_def Let_def ownDefault_def)
  next
    case (2 pw ed w1)
    obtain r2 s2 w2 where s: "sessionSubscribe env dn (pwWatch pw) r (s\<lparr>csDevice := ed\<rparr>) w1 = (r2, s2, w2)" by (metis prod_cases3)
    have d: "csDefault s2 = None" using sessionSubscribe_frame [OF s] assms(2) by simp
    show ?thesis
    proof (cases "pwProg pw")
      case None
      then show ?thesis using assms 2 s d by (auto simp: discoverProgram_def Let_def ownDefault_def)
    next
      case (Some p)
      obtain s3 o3 w3 where k: "follow env t rnd p s2 w2 = (s3, o3, w3)" by (metis prod_cases3)
      show ?thesis
        using follow_ownDefault [OF k d walked_program_has_list [OF 2 Some]] assms(1) 2 s Some k by (auto simp: discoverProgram_def Let_def)
    qed
  qed
qed

text \<open>What a switch of program leaves: the old program's controls are all cancelled, and the session that goes on has no
  default control of the old program; it follows the replacement at once, or discovers again when there is none. Whatever
  default it then has, the server gave it for the program it then follows.\<close>

definition switches :: "'w controlsEnv \<Rightarrow> time \<Rightarrow> bool \<Rightarrow> rng \<Rightarrow> following \<Rightarrow> DERProgram option \<Rightarrow> 'h controlSession \<Rightarrow>
    router \<Rightarrow> 'h controlSession \<Rightarrow> 'h outputs \<Rightarrow> 'w World \<Rightarrow> bool" where
  "switches env t dn rnd fw nxt s r' s' out w' \<longleftrightarrow>
     (\<exists>sm sched o1 o2 s1 r1 w1. Tick (csSM s) (Now w1 t) [] (snd (diffSnapshots (fwPrev fw) [])) (fwSched fw) = (sm, sched, o1) \<and>
        state sm = StateDefault \<and> csSM s1 = sm \<and> csDefault s1 = None \<and>
        out = map (Pair (\<exists>p. nxt = Some p \<and> dpMRID p \<noteq> dpMRID (fwProg fw))) o1 @ map (Pair False) o2 \<and>
        (case nxt of
           None \<Rightarrow> discoverProgram env t dn rnd 0 r1 s1 w1 = Some (r', s', map (Pair False) o2, w')
         | Some p \<Rightarrow> follow env t rnd p s1 w1 = (s', map (Pair False) o2, w') \<and>
             (\<exists>fw'. csPhase s' = Following fw' \<and> fwProg fw' = p))) \<and>
     ownDefault env s'"

lemma rewalk_switches:
  assumes "rewalk env t dn rnd fw r s w = Some (r', s', out, w')" "driver (csSM s) (fwSched fw) (fwCache fw) (fwPrev fw)"
    "csPhase s = Following fw" "fst (programMoved env dn (fwProg fw) r s w) = (True, nxt)"
  shows "switches env t dn rnd fw nxt s r' s' out w'"
  using assms(1-3)
proof (cases rule: rewalk_cases)
  case kept
  then show ?thesis using assms(4) by simp
next
  case (moved s3 w2 sm sched o1 o2 nxt' r1)
  let ?s = "s3\<lparr>csDefault := None, csSM := sm\<rparr>"
  have n: "nxt' = nxt" using moved(9) assms(4) by simp
  have "(\<exists>o2'. o2 = map (Pair False) o2') \<and> ownDefault env s' \<and>
      (\<forall>p. nxt = Some p \<longrightarrow> (\<exists>fw'. csPhase s' = Following fw' \<and> fwProg fw' = p))"
  proof (cases nxt)
    case None
    with moved(8) n have d: "discoverProgram env t dn rnd 0 r1 ?s w2 = Some (r', s', o2, w')" by simp
    show ?thesis using discoverProgram_outputs [OF d] discoverProgram_ownDefault [OF d] moved(5) None by simp
  next
    case (Some p)
    with moved(8) n have k: "follow env t rnd p ?s w2 = (s', o2, w')" "DERControlListLink p \<noteq> None" by simp_all
    show ?thesis
      using follow_outputs [OF k(1)] follow_ownDefault [OF k(1) _ k(2)] follow_driver [OF k(1) _ k(2)] moved(5) Some by simp
  qed
  then obtain o2' where o2': "o2 = map (Pair False) o2'" "ownDefault env s'"
    "\<forall>p. nxt = Some p \<longrightarrow> (\<exists>fw'. csPhase s' = Following fw' \<and> fwProg fw' = p)" by blast
  have "case nxt of None \<Rightarrow> discoverProgram env t dn rnd 0 r1 ?s w2 = Some (r', s', map (Pair False) o2', w')
      | Some p \<Rightarrow> follow env t rnd p ?s w2 = (s', map (Pair False) o2', w') \<and> (\<exists>fw'. csPhase s' = Following fw' \<and> fwProg fw' = p)"
    using moved(8) n o2' by (auto split: option.splits)
  then show ?thesis unfolding switches_def
    using moved(4,6,7) n o2'(1,2)
    by (intro conjI exI [of _ sm] exI [of _ sched] exI [of _ o1] exI [of _ o2'] exI [of _ ?s] exI [of _ r1] exI [of _ w2]) simp_all
qed

text \<open>C24: A session leaves its program only on evidence: a re-walk that fails, that cannot read the program's controls, or that
  selects the same program leaves machine, default control and program as they are, and no control is answered for. Any other
  re-walk cancels everything the program delivered, drops its default control, so that whatever default the session has
  afterwards was read for the program it then follows, and follows the selected program at once or discovers again; the
  dropped controls are answered as superseded exactly when a program with another mRID replaces it.
\<close>

theorem switch_needs_evidence:
  assumes "sessionStep env ev r s w = Some (r', s', out, w')" "sessionDriver s" "csPhase s = Following fw"
    "ev = EvWake t dn rnd \<or> ev = EvRewalk t dn rnd"
    "walkPrograms env ((envCfg env)\<lparr>CSIP := False\<rparr>) [] [] (csDevice s) w = Some (x, ed, w1)"
  shows "(staysWith (fwProg fw) x \<longrightarrow> csSM s' = csSM s \<and> csDefault s' = csDefault s \<and> csPhase s' = Following fw \<and> out = []) \<and>
    (\<not> staysWith (fwProg fw) x \<longrightarrow>
      (\<exists>pw. x = Inr pw \<and> switches env t dn rnd fw (pwProg pw) s r' s' out w' \<and>
         (\<forall>b tr. (sessionStatus b (tprev tr) (tnext tr) = ResponseStatusEventSupersededAlternateProgram) = (b \<and> tnext tr = StateEventCancelled))))"
proof -
  obtain s1 where s1: "rewalk env t dn rnd fw r s1 w = Some (r', s', out, w')" "csSM s1 = csSM s" "csDefault s1 = csDefault s"
    "csPhase s1 = Following fw" "csDevice s1 = csDevice s"
    using assms(1,3,4) by (auto simp: sessionStep_def)
  have d1: "driver (csSM s1) (fwSched fw) (fwCache fw) (fwPrev fw)" using assms(2,3) s1(2) by (simp add: sessionDriver_def)
  note v = programMoved_verdict [of env s1 w x ed w1 dn "fwProg fw" r, unfolded s1(5), OF assms(5)]
  show ?thesis
  proof (cases "staysWith (fwProg fw) x")
    case True
    from s1(1) d1 s1(4) show ?thesis
    proof (cases rule: rewalk_cases)
      case kept
      then show ?thesis using True s1 by simp
    qed (use v True in simp)
  next
    case False
    then obtain pw where pw: "x = Inr pw" "fst (programMoved env dn (fwProg fw) r s1 w) = (True, pwProg pw)"
      using v by (auto simp: staysWith_def split: sum.splits)
    have "switches env t dn rnd fw (pwProg pw) s1 r' s' out w'" by (rule rewalk_switches [OF s1(1) d1 s1(4) pw(2)])
    then have "switches env t dn rnd fw (pwProg pw) s r' s' out w'" using s1(2) by (simp add: switches_def)
    then show ?thesis using False pw(1) superseded_status by blast
  qed
qed

text \<open>
  \<open>controls.poll_s\<close> is not bounded above by the validation of the file: from 9223372037 seconds on the poll
  interval of the session wraps to a negative duration, at which \<open>time.NewTicker\<close> panics.
\<close>

theorem poll_interval_wraps:
  "validateControls pre \<lparr>scResponse = ''follow'', scPollS = 9223372037\<rparr> = None \<and>
   sessionPollInterval (newControlSession (Some \<lparr>scResponse = ''follow'', scPollS = 9223372037\<rparr>) h v ed) dcap < 0"
  by (simp add: validateControls_def firstError_None oneOf_def sessionPollInterval_def newControlSession_def seconds_def wrap64_def)

section \<open>Examples\<close>

definition demoProgramA :: DERProgram where
  "demoProgramA = \<lparr>dpMRID = ''A'', Primacy = 1, DefaultDERControlLink = None, DERControlListLink = Some ''/derc'', DERCurveListLink = None\<rparr>"

definition demoFollowing :: following where
  "demoFollowing = \<lparr>fwProg = demoProgramA, fwSched = NewScheduler demoRng, fwCache = NewDERControlCache, fwHref = ''/derc'', fwDefaultHref = [], fwPrev = []\<rparr>"

text \<open>An environment whose server answers nothing.\<close>

definition demoEnv' :: "nat controlsEnv" where
  "demoEnv' = \<lparr>envClient = demoClient (TransportFail NetDeadline), envCtx = demoCtx, envDecoders = demoDecoders 0, envDcap = demoDcap,
     envCfg = \<lparr>CSIP = False, AllowUnregistered = False, ExpectedPIN = 0\<rparr>, envNotifyURL = None, envEncode = (\<lambda>_. None), envSession = 0\<rparr>"

definition demoSession :: "nat controlSession" where
  "demoSession = (newControlSession None [] None blankEndDevice)\<lparr>csPhase := Following demoFollowing\<rparr>"

theorem session_refines_driver_witness:
  "runControls demoEnv' 0 False demoRng [EvTick 1 False demoRng, EvDone] [] (newControlSession None ([] :: nat list) None blankEndDevice) demoWorld \<noteq> None"
  using session_refines_driver [of demoEnv' 0 False demoRng "[EvTick 1 False demoRng, EvDone]" "[]" None "[] :: nat list" None blankEndDevice demoWorld]
  by (simp add: csipStrict_def demoEnv'_def del: not_None_eq)

lemma demo_walk:
  "walkPrograms demoEnv' ((envCfg demoEnv')\<lparr>CSIP := False\<rparr>) [] [] (csDevice demoSession) demoWorld =
     Some (Inr \<lparr>pwProg = None, pwUnreadable = [], pwWatch = []\<rparr>, blankEndDevice, demoWorld)"
  by (simp add: walkPrograms_def runPhase2cFSAList_def demoSession_def newControlSession_def blankEndDevice_def demoEnv'_def csipStrict_def
      SelectHighestPriority_def linkHrefs_def)

theorem switch_needs_evidence_witness:
  "\<exists>r' s' out w'. sessionStep demoEnv' (EvRewalk 0 False demoRng) [] demoSession demoWorld = Some (r', s', out, w') \<and>
     switches demoEnv' 0 False demoRng demoFollowing None demoSession r' s' out w'"
proof -
  have n: "\<not> csipStrict (envCfg demoEnv')" by (simp add: demoEnv'_def csipStrict_def)
  obtain r' s' out w' where s: "sessionStep demoEnv' (EvRewalk 0 False demoRng) [] demoSession demoWorld = Some (r', s', out, w')"
    using sessionStep_returns [OF n, of "EvRewalk 0 False demoRng" "[]" demoSession demoWorld] by auto
  have d: "sessionDriver demoSession"
    by (simp add: sessionDriver_def demoSession_def demoFollowing_def demoProgramA_def newControlSession_def driver.begin_)
  have p: "csPhase demoSession = Following demoFollowing" by (simp add: demoSession_def)
  show ?thesis
    using switch_needs_evidence [OF s d p _ demo_walk, of 0 False demoRng] s by (auto simp: staysWith_def)
qed

end
