(* ===== verification/Managed.thy ===== *)
theory Managed
  imports Sessions Reservation Replay
begin

text \<open>
  The managed devices of an aggregator (\<open>cmd/inverterclient/managed.go\<close>, \<open>managed_status.go\<close>): resolving the
  configured set, one session of mirror, readings and DER resources per device, and the tick of the fleet, which puts the
  setpoints planned under a grant over the controls. \<open>clk\<close> is the local clock; the control session of a device
  is the one of \<open>Sessions\<close>, whose own copy of the EndDevice is the one its goroutine writes.
\<close>

section \<open>DER resources\<close>

definition derTypePV :: nat where "derTypePV = 4"
definition derTypeStorage :: nat where "derTypeStorage = 80"

definition modeCharge :: "32 word" where "modeCharge = push_bit 0 1"
definition modeDischarge :: "32 word" where "modeDischarge = push_bit 1 1"
definition modeConnect :: "32 word" where "modeConnect = push_bit 2 1"
definition modeEnergize :: "32 word" where "modeEnergize = push_bit 3 1"
definition modeFixedW :: "32 word" where "modeFixedW = push_bit 7 1"
definition modeMaxLimW :: "32 word" where "modeMaxLimW = push_bit 20 1"

record derLinks =
  dlCapability :: string
  dlSettings :: string
  dlStatus :: string
  dlAvailability :: string

record derResource =
  DERCapabilityLink :: "string option"
  DERSettingsLink :: "string option"
  DERStatusLink :: "string option"
  DERAvailabilityLink :: "string option"

record derCapability =
  capType :: nat
  RTGMaxW :: ActivePower
  RTGMaxChargeRateW :: "ActivePower option"
  RTGMaxDischargeRateW :: "ActivePower option"
  ModesSupported :: "32 word"

record derSettings =
  SettingsMaxW :: ActivePower
  SetMaxChargeRateW :: "ActivePower option"
  SetMaxDischargeRateW :: "ActivePower option"
  UpdatedTime :: int

text \<open>
  The scaling loop, with at most \<open>n\<close> divisions left; the wire value is an \<open>int16\<close>, which a value
  that is still too large would wrap in.
\<close>

fun scaleDown :: "nat \<Rightarrow> f64 \<Rightarrow> f64 \<times> nat" where
  "scaleDown 0 v = (v, 0)"
| "scaleDown (Suc n) v =
     (if v > 32767 \<or> v < -32768 then (let (v', k) = scaleDown n (fround (v div 10)) in (v', Suc k)) else (v, 0))"

definition int16 :: "int \<Rightarrow> int" where
  "int16 x = sint (word_of_int x :: 16 word)"

definition activePowerOf :: "f64 \<Rightarrow> ActivePower" where
  "activePowerOf w = (let (v, mult) = scaleDown 127 (fround w) in \<lparr>apMultiplier = int mult, apValue = int16 (toInt64 v)\<rparr>)"

definition capabilityFor :: "string \<Rightarrow> f64 \<Rightarrow> derCapability" where
  "capabilityFor kind ratedW =
     (let modes = or modeConnect (or modeEnergize (or modeFixedW modeMaxLimW)) in
      if kind = ''battery'' then
        \<lparr>capType = derTypeStorage, RTGMaxW = activePowerOf ratedW, RTGMaxChargeRateW = Some (activePowerOf ratedW),
         RTGMaxDischargeRateW = Some (activePowerOf ratedW), ModesSupported = or modes (or modeCharge modeDischarge)\<rparr>
      else
        \<lparr>capType = derTypePV, RTGMaxW = activePowerOf ratedW, RTGMaxChargeRateW = None, RTGMaxDischargeRateW = None, ModesSupported = modes\<rparr>)"

definition settingsFor :: "string \<Rightarrow> f64 \<Rightarrow> int \<Rightarrow> derSettings" where
  "settingsFor kind ratedW now =
     (let rate = (if kind = ''battery'' then Some (activePowerOf ratedW) else None)
      in \<lparr>SettingsMaxW = activePowerOf ratedW, SetMaxChargeRateW = rate, SetMaxDischargeRateW = rate, UpdatedTime = now\<rparr>)"

definition durationWord :: "f64 \<Rightarrow> 32 word" where
  "durationWord x = word_of_int (toInt64 (fround x))"

definition ceilingOf :: "string \<Rightarrow> f64 \<Rightarrow> f64 option \<Rightarrow> f64 \<Rightarrow> f64" where
  "ceilingOf kind ratedW socv maxPossibleW =
     (if kind = ''battery'' then
        (case socv of
           None \<Rightarrow> ratedW
         | Some x \<Rightarrow> if feq (fmax 0 (fmin 1 x)) 0 then 0 else ratedW)
      else fmin (fmax 0 maxPossibleW) ratedW)"

definition availabilityFor :: "string \<Rightarrow> f64 \<Rightarrow> f64 \<Rightarrow> f64 option \<Rightarrow> f64 \<Rightarrow> f64 \<Rightarrow> int \<Rightarrow> DERAvailability" where
  "availabilityFor kind ratedW capacityWh socv maxPossibleW outputW now =
     (let durations = (case socv of
            Some x \<Rightarrow>
              if kind = ''battery'' \<and> ratedW > 0 then
                (let s = fmax 0 (fmin 1 x)
                 in Some (durationWord (s * capacityWh div ratedW * 3600), durationWord ((1 - s) * capacityWh div ratedW * 3600)))
              else None
          | None \<Rightarrow> None)
      in \<lparr>davReadingTime = now, AvailabilityDuration = map_option fst durations, MaxChargeDuration = map_option snd durations,
          StatWAvail = Some (activePowerOf (fmax 0 (ceilingOf kind ratedW socv maxPossibleW - fmax 0 outputW)))\<rparr>)"

section \<open>Resolving the configured set\<close>

datatype managedErr =
    OwnLFDI string string
  | ListFailed httpErr
  | NotListed "(string \<times> string) list"
  | BackendFailed string string replayErr
  | NoReporter string

definition missingManaged :: "EndDeviceList \<Rightarrow> Managed list \<Rightarrow> managedErr option" where
  "missingManaged list configured =
     (let listed = map (\<lambda>ed. toUpper (LFDI ed)) (edEndDevice list);
          missing = filter (\<lambda>m. toUpper (mgLFDI m) \<notin> set listed) configured
      in if missing \<noteq> [] then Some (NotListed (map (\<lambda>m. (mgName m, mgLFDI m)) missing)) else None)"

definition ownEndDevice :: "EndDeviceList \<Rightarrow> string \<Rightarrow> EndDevice" where
  "ownEndDevice list l =
     (case find (\<lambda>ed. equalFold (LFDI ed) l) (edEndDevice list) of
        Some ed \<Rightarrow> ed
      | None \<Rightarrow> blankEndDevice\<lparr>LFDI := l\<rparr>)"

record 'h managedDevice =
  mdName :: string
  mdLFDI :: string
  mdKind :: string
  mdRatedW :: f64
  mdDev :: Replay
  mdReporter :: Reporter
  mdLastReport :: time
  mdMupListHref :: string
  mdMirrorBase :: duration
  mdMirrorRetry :: mirrorRetry
  mdHasMirror :: bool
  mdDown :: bool
  mdEdev :: EndDevice
  mdCtl :: "'h controlSession option"
  mdApplier :: refusalLog
  mdCapacityWh :: f64
  mdDer :: "derLinks option"
  mdDerTries :: nat
  mdNextDERTry :: time
  mdSetupDone :: bool
  mdSetupCap :: bool
  mdSetupSet :: bool
  mdSetupTries :: nat
  mdNextSetupTry :: time
  mdLastStatus :: time

text \<open>What the sessions need of the process: the encoders, the decoder of a DERList and the fixed parameters.\<close>

record 'w fleetEnv =
  feClient :: "'w Client"
  feCtx :: Ctx
  feEnc :: encoders
  feEncCapability :: "derCapability \<Rightarrow> string option"
  feEncSettings :: "derSettings \<Rightarrow> string option"
  feDecDERList :: "string \<Rightarrow> derResource list option"
  feClock :: "'w clock"
  feRating :: Nameplate
  feCurveTypes :: CurveTypes

abbreviation asDevice :: "'w fleetEnv \<Rightarrow> 'h managedDevice \<Rightarrow> Ctx" where
  "asDevice E md \<equiv> WithTarget (feCtx E) (mdLFDI md)"

definition setReporter :: "string \<Rightarrow> 'h managedDevice \<Rightarrow> 'h managedDevice option" where
  "setReporter mmr md =
     (case NewReporter (mdLFDI md) [] mmr of
        None \<Rightarrow> None
      | Some r \<Rightarrow>
          Some (md\<lparr>mdReporter :=
            (case mdDer md of
               None \<Rightarrow> AsManager r
             | Some d \<Rightarrow> SetManagedDERHrefs (dlStatus d) (dlAvailability d) (AsManager r))\<rparr>))"

definition postMirror :: "'w fleetEnv \<Rightarrow> 'h managedDevice \<Rightarrow> 'w World \<Rightarrow> bool \<times> 'h managedDevice \<times> 'w World" where
  "postMirror E md w =
     (case postMirrorUsagePoint (feEnc E) (feClient E) (asDevice E md) (mdMupListHref md) (mdLFDI md) w of
        (Inl e, w) \<Rightarrow> (False, md, w)
      | (Inr loc, w) \<Rightarrow>
          (case setReporter (loc @ ''/mr'') md of
             None \<Rightarrow> (False, md, w)
           | Some md \<Rightarrow> (True, md\<lparr>mdHasMirror := True\<rparr>, w)))"

definition tryMirror :: "'w fleetEnv \<Rightarrow> 'h managedDevice \<Rightarrow> 'w World \<Rightarrow> 'h managedDevice \<times> 'w World" where
  "tryMirror E md w =
     (if mdHasMirror md then (md, w)
      else if mdMupListHref md = [] then (md, w)
      else if \<not> mrReady (mdMirrorRetry md) (feClock E w) then (md, w)
      else
        (case postMirror E md w of
           (False, md, w) \<Rightarrow> (md\<lparr>mdMirrorRetry := mrFailed (feClock E w) (mdMirrorBase md) (mdMirrorRetry md)\<rparr>, w)
         | (True, md, w) \<Rightarrow> (md, w)))"

definition dropMirror :: "time \<Rightarrow> 'h managedDevice \<Rightarrow> 'h managedDevice" where
  "dropMirror now md = md\<lparr>mdHasMirror := False, mdMirrorRetry := mrFailed now (mdMirrorBase md) (mdMirrorRetry md)\<rparr>"

definition startManagedDevice :: "'w fleetEnv \<Rightarrow> parseTime \<Rightarrow> parseFloat \<Rightarrow> (string \<Rightarrow> string list option) \<Rightarrow> DeviceCapability \<Rightarrow> Managed \<Rightarrow> duration \<Rightarrow> 'w World \<Rightarrow>
    (managedErr + 'h managedDevice) \<times> 'w World" where
  "startManagedDevice E pt pf files dcap m reportInterval w =
     (let d = theOr zeroDevice (mgDevice m); r = theOr zeroReplay (mgReplay m) in
      case NewReplay pt pf (files (srFile r)) (feClock E w)
          \<lparr>rcFile = srFile r, rcType = sdType d, rcClock = srClock r, rcScale = srScale r, rcRatedW = sdRatedW d,
           rcCapacityWh = sdCapacityWh d, rcInitialSOC = theOr 0 (sdInitialSOC d)\<rparr> of
        Inl e \<Rightarrow> (Inl (BackendFailed (mgName m) (mgLFDI m) e), w)
      | Inr dev \<Rightarrow>
          (case NewReporter (mgLFDI m) [] [] of
             None \<Rightarrow> (Inl (NoReporter (mgName m)), w)
           | Some rep \<Rightarrow>
               (case tryMirror E
                   \<lparr>mdName = mgName m, mdLFDI = mgLFDI m, mdKind = sdType d, mdRatedW = sdRatedW d, mdDev = dev, mdReporter = AsManager rep,
                    mdLastReport = zeroTime, mdMupListHref = (case MirrorUsagePointListLink dcap of None \<Rightarrow> [] | Some h \<Rightarrow> h),
                    mdMirrorBase = reportInterval, mdMirrorRetry = freshRetry, mdHasMirror = False, mdDown = False, mdEdev = blankEndDevice,
                    mdCtl = None, mdApplier = \<lparr>lastMsg = []\<rparr>, mdCapacityWh = sdCapacityWh d, mdDer = None, mdDerTries = 0,
                    mdNextDERTry = zeroTime, mdSetupDone = False, mdSetupCap = False, mdSetupSet = False, mdSetupTries = 0,
                    mdNextSetupTry = zeroTime, mdLastStatus = zeroTime\<rparr> w of
                  (md, w) \<Rightarrow> (Inr md, w))))"

fun startDevices :: "'w fleetEnv \<Rightarrow> parseTime \<Rightarrow> parseFloat \<Rightarrow> (string \<Rightarrow> string list option) \<Rightarrow> (Managed \<Rightarrow> EndDevice \<Rightarrow> 'h controlSession) \<Rightarrow>
    DeviceCapability \<Rightarrow> EndDeviceList \<Rightarrow> duration \<Rightarrow> Managed list \<Rightarrow> 'w World \<Rightarrow> (managedErr + 'h managedDevice list) \<times> 'w World" where
  "startDevices E pt pf files mkCtl dcap list reportInterval [] w = (Inr [], w)"
| "startDevices E pt pf files mkCtl dcap list reportInterval (m # ms) w =
     (case startManagedDevice E pt pf files dcap m reportInterval w of
        (Inl e, w) \<Rightarrow> (Inl e, w)
      | (Inr md, w) \<Rightarrow>
          (let ed = ownEndDevice list (mgLFDI m); md = md\<lparr>mdEdev := ed, mdCtl := Some (mkCtl m ed)\<rparr> in
           case startDevices E pt pf files mkCtl dcap list reportInterval ms w of
             (Inl e, w) \<Rightarrow> (Inl e, w)
           | (Inr mds, w) \<Rightarrow> (Inr (md # mds), w)))"

record 'h managedFleet =
  mfDevices :: "'h managedDevice list"
  mfReportInterval :: duration
  mfStatusInterval :: duration
  mfDispatch :: "dispatcher option"

definition setDispatcher :: "dispatcher \<Rightarrow> 'h managedFleet \<Rightarrow> 'h managedFleet" where
  "setDispatcher d f = f\<lparr>mfDispatch := Some d\<rparr>"

definition setStatusInterval :: "duration \<Rightarrow> 'h managedFleet \<Rightarrow> 'h managedFleet" where
  "setStatusInterval d f = f\<lparr>mfStatusInterval := d\<rparr>"

definition statusEvery :: "'h managedFleet \<Rightarrow> duration" where
  "statusEvery f = (if mfStatusInterval f > 0 then mfStatusInterval f else mfReportInterval f)"

definition installManaged :: "string list \<Rightarrow> 'w World \<Rightarrow> 'w World" where
  "installManaged ls w =
     w\<lparr>cGuard := theOr (cGuard w) (SetManagedSet (Some (IsManaged (Some (NewStaticManagedSet ls)))) (Some (cGuard w)))\<rparr>"

definition startManaged :: "'w fleetEnv \<Rightarrow> parseTime \<Rightarrow> parseFloat \<Rightarrow> (string \<Rightarrow> string list option) \<Rightarrow> (Managed \<Rightarrow> EndDevice \<Rightarrow> 'h controlSession) \<Rightarrow>
    (string \<Rightarrow> EndDeviceList option) \<Rightarrow> DeviceCapability \<Rightarrow> string \<Rightarrow> Managed list \<Rightarrow> duration \<Rightarrow> 'w World \<Rightarrow> (managedErr + 'h managedFleet) \<times> 'w World" where
  "startManaged E pt pf files mkCtl dec dcap edevListHref configured reportInterval w =
     (case find (\<lambda>m. equalFold (mgLFDI m) (lfdi (feClient E))) configured of
        Some m \<Rightarrow> (Inl (OwnLFDI (mgName m) (mgLFDI m)), w)
      | None \<Rightarrow>
          (case GetEndDeviceList (feClient E) (feCtx E) dec edevListHref w of
             (Inl e, w) \<Rightarrow> (Inl (ListFailed e), w)
           | (Inr (list, _), w) \<Rightarrow>
               (case missingManaged list configured of
                  Some e \<Rightarrow> (Inl e, w)
                | None \<Rightarrow>
                    (let w = installManaged (map mgLFDI configured) w in
                     case startDevices E pt pf files mkCtl dcap list reportInterval configured w of
                       (Inl e, w) \<Rightarrow> (Inl e, w)
                     | (Inr mds, w) \<Rightarrow>
                         (Inr \<lparr>mfDevices = mds, mfReportInterval = reportInterval, mfStatusInterval = 0, mfDispatch = None\<rparr>, w)))))"

definition startManagedForRole :: "'w fleetEnv \<Rightarrow> parseTime \<Rightarrow> parseFloat \<Rightarrow> (string \<Rightarrow> string list option) \<Rightarrow> (Managed \<Rightarrow> EndDevice \<Rightarrow> 'h controlSession) \<Rightarrow>
    (string \<Rightarrow> EndDeviceList option) \<Rightarrow> DeviceCapability \<Rightarrow> string \<Rightarrow> simFile option \<Rightarrow> duration \<Rightarrow> 'w World \<Rightarrow> (managedErr + 'h managedFleet option) \<times> 'w World" where
  "startManagedForRole E pt pf files mkCtl dec dcap edevListHref simFile' reportInterval w =
     (case simFile' of
        None \<Rightarrow> (Inr None, w)
      | Some f \<Rightarrow>
          if cfManaged f = [] then (Inr None, w)
          else
            (case startManaged E pt pf files mkCtl dec dcap edevListHref (cfManaged f) reportInterval w of
               (Inl e, w) \<Rightarrow> (Inl e, w)
             | (Inr fl, w) \<Rightarrow> (Inr (Some fl), w)))"

section \<open>Reporting the DER resources\<close>

definition socOf :: "'h managedDevice \<Rightarrow> f64 option" where
  "socOf md = (if mdKind md \<noteq> ''battery'' then None else Some (soc (mdDev md)))"

definition derListHref :: "'h managedDevice \<Rightarrow> string" where
  "derListHref md = listHref (DERListLink (mdEdev md))"

definition linksOf :: "derResource \<Rightarrow> derLinks" where
  "linksOf d = \<lparr>dlCapability = listHref (DERCapabilityLink d), dlSettings = listHref (DERSettingsLink d),
     dlStatus = listHref (DERStatusLink d), dlAvailability = listHref (DERAvailabilityLink d)\<rparr>"

definition resolveDER :: "'w fleetEnv \<Rightarrow> 'h managedDevice \<Rightarrow> 'w World \<Rightarrow> bool \<times> 'h managedDevice \<times> 'w World" where
  "resolveDER E md w =
     (if mdDer md \<noteq> None then (True, md, w)
      else if derListHref md = [] then (False, md, w)
      else if feClock E w < mdNextDERTry md then (False, md, w)
      else
        (case Get (feClient E) (asDevice E md) KindEndDeviceRead (derListHref md) (feDecDERList E) w of
           (x, w) \<Rightarrow>
             (let md = md\<lparr>mdDerTries := Suc (mdDerTries md)\<rparr>;
                  retry = (False, md\<lparr>mdNextDERTry := feClock E w + mirrorBackoff (mdMirrorBase md) (mdDerTries md)\<rparr>, w) in
              case x of
                Inl _ \<Rightarrow> retry
              | Inr ([], _) \<Rightarrow> retry
              | Inr (d # _, _) \<Rightarrow>
                  (True, md\<lparr>mdDer := Some (linksOf d),
                     mdReporter := SetManagedDERHrefs (dlStatus (linksOf d)) (dlAvailability (linksOf d)) (mdReporter md)\<rparr>, w))))"

text \<open>One of the two PUTs of the set-up: whether it is done after it, given whether it was.\<close>

definition putOnceMore :: "string \<Rightarrow> bool \<Rightarrow> ('w World \<Rightarrow> ('w, unit) result) \<Rightarrow> 'w World \<Rightarrow> bool \<times> bool \<times> 'w World" where
  "putOnceMore href done' put w =
     (if href = [] then (True, done', w)
      else if done' then (True, done', w)
      else (case put w of (Inl e, w) \<Rightarrow> (False, done', w) | (Inr _, w) \<Rightarrow> (True, True, w)))"

definition putSetup :: "'w fleetEnv \<Rightarrow> derLinks \<Rightarrow> 'h managedDevice \<Rightarrow> 'w World \<Rightarrow> 'h managedDevice \<times> 'w World" where
  "putSetup E d md w =
     (case putOnceMore (dlCapability d) (mdSetupCap md)
         (PutDERCapability (feClient E) (asDevice E md) (dlCapability d) (feEncCapability E (capabilityFor (mdKind md) (mdRatedW md)))) w of
        (ok1, cap, w) \<Rightarrow>
          (case putOnceMore (dlSettings d) (mdSetupSet md)
              (\<lambda>w. PutDERSettings (feClient E) (asDevice E md) (dlSettings d)
                 (feEncSettings E (settingsFor (mdKind md) (mdRatedW md) (toUnix (Now w (feClock E w))))) w) w of
             (ok2, set', w) \<Rightarrow>
               (let md = md\<lparr>mdSetupCap := cap, mdSetupSet := set', mdSetupDone := ok1 \<and> ok2\<rparr> in
                if ok1 \<and> ok2 then (md, w)
                else
                  (md\<lparr>mdSetupTries := Suc (mdSetupTries md),
                      mdNextSetupTry := feClock E w + mirrorBackoff (mdMirrorBase md) (Suc (mdSetupTries md))\<rparr>, w))))"

definition reportStatusAndAvailability :: "'w fleetEnv \<Rightarrow> InverterState \<Rightarrow> f64 \<Rightarrow> 'h managedDevice \<Rightarrow> 'w World \<Rightarrow> 'h managedDevice \<times> 'w World" where
  "reportStatusAndAvailability E st maxPowerW md w =
     (let now = Now w (feClock E w); st = st\<lparr>isTime := now\<rparr>; s = socOf md;
          avail = availabilityFor (mdKind md) (mdRatedW md) (mdCapacityWh md) s maxPowerW (isActivePowerW st) (toUnix now);
          md = md\<lparr>mdLastStatus := feClock E w\<rparr>;
          (_, w) = ReportStatusWithSOC (feEnc E) (feClient E) (feCtx E) (mdReporter md) st s w;
          (_, w) = ReportAvailability (feEnc E) (feClient E) (feCtx E) (mdReporter md) avail w
      in (md, w))"

definition reportDER :: "'w fleetEnv \<Rightarrow> InverterState \<Rightarrow> f64 \<Rightarrow> duration \<Rightarrow> 'h managedDevice \<Rightarrow> 'w World \<Rightarrow> 'h managedDevice \<times> 'w World" where
  "reportDER E st maxPowerW every md w =
     (if derListHref md = [] then (md, w)
      else
        (case resolveDER E md w of
           (False, md, w) \<Rightarrow> (md, w)
         | (True, md, w) \<Rightarrow>
             (case (case mdDer md of
                      Some d \<Rightarrow> if \<not> mdSetupDone md \<and> \<not> feClock E w < mdNextSetupTry md then putSetup E d md w else (md, w)
                    | None \<Rightarrow> (md, w)) of
                (md, w) \<Rightarrow>
                  (if timeSub (feClock E w) (mdLastStatus md) < every then (md, w)
                   else reportStatusAndAvailability E st maxPowerW md w))))"

section \<open>The tick of the fleet\<close>

definition sessionActive :: "'h managedDevice \<Rightarrow> bool" where
  "sessionActive md \<longleftrightarrow> (case mdCtl md of None \<Rightarrow> False | Some s \<Rightarrow> active s)"

definition batteries :: "'h managedFleet \<Rightarrow> fleetMember list" where
  "batteries f =
     map (\<lambda>md. \<lparr>fmKey = mdLFDI md, fmRatedW = mdRatedW md, up = \<not> mdDown md, fmSoc = soc (mdDev md), knownSOC = True\<rparr>)
       (filter (\<lambda>md. mdKind md = ''battery'' \<and> \<not> sessionActive md) (mfDevices f))"

definition mdRatings :: "'h managedDevice \<Rightarrow> Ratings" where
  "mdRatings md = \<lparr>SetMaxW = mdRatedW md, SetMaxVar = 0, StatVarAvail = None\<rparr>"

text \<open>
  The control the device is given: the control of its session, the default when that one is refused, and the
  planned power over either.
\<close>

definition deviceControls :: "'w fleetEnv \<Rightarrow> (string \<times> f64) list option \<Rightarrow> GridState \<Rightarrow> f64 \<Rightarrow> 'h managedDevice \<Rightarrow> (refusalLog \<times> ControlOutputs) option" where
  "deviceControls E plan grid maxPowerW md =
     (let (b, isDefault, d) = (case mdCtl md of
            None \<Rightarrow> (None, False, None)
          | Some s \<Rightarrow> (base s, sessionFollows s \<and> ActiveControlBase (Current (csSM s)) None = None, csDefault s))
      in case applyControl (feRating E) (feCurveTypes E) (mdApplier md) (''managed device '' @ mdName md) b isDefault d grid maxPowerW (mdRatings md) None of
           None \<Rightarrow> None
         | Some (l, _, c) \<Rightarrow>
             Some (l, case plan of
                        None \<Rightarrow> c
                      | Some p \<Rightarrow> (case map_of p (mdLFDI md) of None \<Rightarrow> c | Some x \<Rightarrow> c\<lparr>ActivePowerW := x\<rparr>)))"

text \<open>The reading of a tick, once the mirror has been seen to.\<close>

definition reportReading :: "'w fleetEnv \<Rightarrow> InverterState \<Rightarrow> duration \<Rightarrow> 'h managedDevice \<Rightarrow> 'w World \<Rightarrow> 'h managedDevice \<times> 'w World" where
  "reportReading E st every md w =
     (if timeSub (feClock E w) (mdLastReport md) < every then (md, w)
      else if \<not> mdHasMirror md then (md\<lparr>mdLastReport := feClock E w\<rparr>, w)
      else
        (case ReportMetering (feEnc E) (feClient E) (feCtx E) (feClock E) (mdReporter md) st w of
           (e, r, w) \<Rightarrow>
             (let md = md\<lparr>mdReporter := r\<rparr>;
                  md = (case e of
                          Some e \<Rightarrow> if MirrorLost e then dropMirror (feClock E w) md else md
                        | None \<Rightarrow> md\<lparr>mdMirrorRetry := mrWorked (mdMirrorRetry md)\<rparr>)
              in (md\<lparr>mdLastReport := feClock E w\<rparr>, w))))"

text \<open>
  One device's part: the device after it and its charging power. The replay backend of a managed device
  answers every read and write, so the branches that set \<open>down\<close> cannot be taken; \<open>None\<close> is a panic of the controls.
\<close>

definition tickDevice :: "'w fleetEnv \<Rightarrow> 'h managedFleet \<Rightarrow> (string \<times> f64) list option \<Rightarrow> 'h managedDevice \<Rightarrow> 'w World \<Rightarrow>
    ('h managedDevice \<times> f64 \<times> 'w World) option" where
  "tickDevice E f plan md w =
     (case replayReadState (mdDev md) (feClock E w) of
        (dev, grid, maxPowerW) \<Rightarrow>
          (case deviceControls E plan grid maxPowerW (md\<lparr>mdDev := dev\<rparr>) of
             None \<Rightarrow> None
           | Some (l, c) \<Rightarrow>
               (case replayApplySetpoint (feRating E) dev (feClock E w) c of
                  (dev, st) \<Rightarrow>
                    (case reportDER E st maxPowerW (statusEvery f) (md\<lparr>mdDev := dev, mdApplier := l, mdDown := False\<rparr>) w of
                       (md, w) \<Rightarrow>
                         (case tryMirror E md w of
                            (md, w) \<Rightarrow>
                              (case reportReading E st (mfReportInterval f) md w of
                                 (md, w) \<Rightarrow>
                                   Some (md, if mdKind md = ''battery'' then chargingToDER (isActivePowerW st) else 0, w)))))))"

fun tickDevices :: "'w fleetEnv \<Rightarrow> 'h managedFleet \<Rightarrow> (string \<times> f64) list option \<Rightarrow> 'h managedDevice list \<Rightarrow> f64 \<Rightarrow> 'w World \<Rightarrow>
    ('h managedDevice list \<times> f64 \<times> 'w World) option" where
  "tickDevices E f plan [] achieved w = Some ([], achieved, w)"
| "tickDevices E f plan (md # mds) achieved w =
     (case tickDevice E f plan md w of
        None \<Rightarrow> None
      | Some (md, p, w) \<Rightarrow>
          map_option (\<lambda>(mds, a, w). (md # mds, a, w))
            (tickDevices E f plan mds (if mdKind md = ''battery'' then achieved + p else achieved) w))"

definition fleetTick :: "'w fleetEnv \<Rightarrow> 'h managedFleet \<Rightarrow> 'w World \<Rightarrow> ('h managedFleet \<times> 'w World) option" where
  "fleetTick E f w =
     (let (plan, disp) = (case mfDispatch f of
            None \<Rightarrow> (None, None)
          | Some d \<Rightarrow> (case dispatchPlan d (Now w (feClock E w)) (batteries f) of (p, d) \<Rightarrow> (p, Some d)))
      in case tickDevices E f plan (mfDevices f) 0 w of
           None \<Rightarrow> None
         | Some (mds, a, w) \<Rightarrow> Some (f\<lparr>mfDevices := mds, mfDispatch := map_option (recordAchieved a) disp\<rparr>, w))"

section \<open>The wire value of a power\<close>

lemma roundTenth:
  "\<bar>real_of_int (roundHalfAway (real_of_int z / 10)) * 10 - z\<bar> \<le> 5"
  using roundHalfAway_near [of "real_of_int z / 10"] by linarith

lemma roundTenth_bound:
  assumes "\<bar>z\<bar> \<le> b * 10" "0 \<le> b"
  shows "\<bar>roundHalfAway (real_of_int z / 10)\<bar> \<le> b"
proof -
  have "\<bar>real_of_int z / 10\<bar> \<le> real_of_int b" using assms by simp
  then have "\<bar>real_of_int (roundHalfAway (real_of_int z / 10))\<bar> \<le> real_of_int b + 1/2"
    using roundHalfAway_near [of "real_of_int z / 10"] by linarith
  then show ?thesis by linarith
qed

lemma scale_step: "\<bar>x - y\<bar> \<le> 5 * (p - 1) / 9 \<Longrightarrow> \<bar>y * 10 - z\<bar> \<le> 5 \<Longrightarrow> \<bar>x * 10 - z\<bar> \<le> 5 * (10 * p - 1) / (9 :: real)"
  unfolding abs_le_iff by argo

lemma scale_near: "\<bar>x - y\<bar> \<le> 5 * (p - 1) / 9 \<Longrightarrow> \<bar>y - a\<bar> \<le> 1 / 2 \<Longrightarrow> \<bar>x - a\<bar> \<le> 5 / 9 * (p :: real)"
  unfolding abs_le_iff by argo

lemma scaleDown_exact:
  "\<bar>z\<bar> \<le> 32767 * 10 ^ n \<Longrightarrow> \<exists>z' k. scaleDown n (Fin (of_int z)) = (Fin (of_int z'), k) \<and> k \<le> n \<and> -32768 \<le> z' \<and> z' \<le> 32767 \<and>
     \<bar>real_of_int z' * 10 ^ k - z\<bar> \<le> 5 * (10 ^ k - 1) / 9 \<and> (0 \<le> z \<longrightarrow> 0 \<le> z')"
proof (induction n arbitrary: z)
  case 0
  then show ?case by auto
next
  case (Suc n)
  show ?case
  proof (cases "z > 32767 \<or> z < -32768")
    case False
    then show ?thesis by (intro exI [of _ z] exI [of _ 0]) simp
  next
    case True
    let ?z = "roundHalfAway (real_of_int z / 10)"
    have "\<bar>?z\<bar> \<le> 32767 * 10 ^ n" by (rule roundTenth_bound) (use Suc.prems in simp_all)
    then obtain z' k where r: "scaleDown n (Fin (of_int ?z)) = (Fin (of_int z'), k)" "k \<le> n" "-32768 \<le> z'" "z' \<le> 32767"
        "\<bar>real_of_int z' * 10 ^ k - ?z\<bar> \<le> 5 * (10 ^ k - 1) / 9" "0 \<le> ?z \<longrightarrow> 0 \<le> z'"
      using Suc.IH by blast
    have "\<bar>real_of_int z' * 10 ^ k * 10 - z\<bar> \<le> 5 * (10 * 10 ^ k - 1) / 9" by (rule scale_step [OF r(5) roundTenth])
    then have "\<bar>real_of_int z' * 10 ^ Suc k - z\<bar> \<le> 5 * (10 ^ Suc k - 1) / 9" by (simp only: power_Suc2 mult.assoc mult.commute [of 10])
    moreover have "0 \<le> z \<longrightarrow> 0 \<le> ?z" by (simp add: roundHalfAway_def)
    moreover have "scaleDown (Suc n) (Fin (of_int z)) = (Fin (of_int z'), Suc k)"
      using True r(1) of_int_less_iff [of z "-32768", where 'a = real] by auto
    ultimately show ?thesis using r by (intro exI [of _ z'] exI [of _ "Suc k"]) simp
  qed
qed

lemma int16_id: "-32768 \<le> z \<Longrightarrow> z \<le> 32767 \<Longrightarrow> int16 z = z"
  by (simp add: int16_def int_word_sint)

lemma activePowerOf_near:
  assumes "\<bar>a\<bar> \<le> 10 ^ 100"
  shows "\<exists>n k. activePowerOf (Fin a) = \<lparr>apMultiplier = int k, apValue = n\<rparr> \<and> k \<le> 127 \<and> -32768 \<le> n \<and> n \<le> 32767 \<and>
     \<bar>real_of_int n * 10 ^ k - a\<bar> \<le> 5 / 9 * 10 ^ k \<and> (0 \<le> a \<longrightarrow> 0 \<le> n)"
proof -
  let ?z = "roundHalfAway a"
  have d: "\<bar>real_of_int ?z - a\<bar> \<le> 1 / 2" by (rule roundHalfAway_near)
  then have "\<bar>real_of_int ?z\<bar> \<le> 10 ^ 100 + 1" using assms by linarith
  then have "real_of_int \<bar>?z\<bar> \<le> real_of_int (10 ^ 100 + 1)" by simp
  then have "\<bar>?z\<bar> \<le> 10 ^ 100 + 1" by (simp only: of_int_le_iff)
  moreover have "(10 :: int) ^ 100 + 1 \<le> 32767 * 10 ^ 127" by simp
  ultimately have "\<bar>?z\<bar> \<le> 32767 * 10 ^ 127" by linarith
  then obtain z' k where r: "scaleDown 127 (Fin (of_int ?z)) = (Fin (of_int z'), k)" "k \<le> 127" "-32768 \<le> z'" "z' \<le> 32767"
      "\<bar>real_of_int z' * 10 ^ k - ?z\<bar> \<le> 5 * (10 ^ k - 1) / 9" "0 \<le> ?z \<longrightarrow> 0 \<le> z'"
    using scaleDown_exact by blast
  have "\<bar>real_of_int z' * 10 ^ k - a\<bar> \<le> 5 / 9 * 10 ^ k" by (rule scale_near [OF r(5) d])
  moreover have "toInt64 (Fin (of_int z')) = z'" using r(3,4) by (simp add: minInt64_def maxInt64_def)
  moreover have "0 \<le> a \<longrightarrow> 0 \<le> ?z" by (simp add: roundHalfAway_def)
  ultimately show ?thesis
    using r by (intro exI [of _ z'] exI [of _ k]) (simp add: activePowerOf_def int16_id del: toInt64.simps)
qed

text \<open>The availability a managed device reports is a power it can really add: the reserve is what its
  ceiling leaves above its output, never negative and never above the rating, none for an empty battery, and the wire
  value is that reserve to within 5/9 of the unit of its multiplier, without wrapping its 16 bits.
\<close>

theorem availability_within_rating:
  assumes "ratedW = Fin r" "0 < r" "r \<le> 10 ^ 100" "outputW = Fin out" "maxPossibleW = Fin m" "socv = None \<or> socv = Some (Fin s)"
  shows "\<exists>n k. StatWAvail (availabilityFor kind ratedW capacityWh socv maxPossibleW outputW now) = Some \<lparr>apMultiplier = int k, apValue = n\<rparr> \<and>
    0 \<le> n \<and> n \<le> 32767 \<and> k \<le> 127 \<and>
    (let ceiling = (if kind = ''battery'' then if socv \<noteq> None \<and> s \<le> 0 then 0 else r else min (max 0 m) r);
         reserve = max 0 (ceiling - max 0 out)
     in 0 \<le> reserve \<and> reserve \<le> r \<and> \<bar>real_of_int n * 10 ^ k - reserve\<bar> \<le> 5 / 9 * 10 ^ k)"
proof -
  let ?c = "if kind = ''battery'' then if socv \<noteq> None \<and> s \<le> 0 then 0 else r else min (max 0 m) r"
  let ?R = "max 0 (?c - max 0 out)"
  have c: "ceilingOf kind ratedW socv maxPossibleW = Fin ?c"
    using assms by (auto simp: ceilingOf_def)
  have "StatWAvail (availabilityFor kind ratedW capacityWh socv maxPossibleW outputW now) = Some (activePowerOf (Fin ?R))"
    by (simp only: availabilityFor_def Let_def DERAvailability.select_convs c) (simp add: assms)
  moreover obtain R where R: "R = ?R" "0 \<le> R" "R \<le> r" using assms(2) by (auto split: if_splits simp: max_def min_def)
  moreover have "\<bar>R\<bar> \<le> 10 ^ 100" using R assms(3) by (subst abs_of_nonneg) (rule R(2), rule order_trans [OF R(3) assms(3)])
  moreover from activePowerOf_near [OF this] obtain n k where "activePowerOf (Fin R) = \<lparr>apMultiplier = int k, apValue = n\<rparr>"
      "k \<le> 127" "n \<le> 32767" "0 \<le> n" "\<bar>real_of_int n * 10 ^ k - R\<bar> \<le> 5 / 9 * 10 ^ k"
    using R(2) by blast
  ultimately show ?thesis
    unfolding Let_def R(1) [symmetric] by (intro exI [of _ n] exI [of _ k]) simp
qed

section \<open>What stays of a device\<close>

text \<open>Its identity, its backend outside the tick's own write, its session, and that it reports as its manager.\<close>

definition ident :: "'h managedDevice \<Rightarrow> string \<times> string \<times> f64" where
  "ident md = (mdLFDI md, mdKind md, mdRatedW md)"

definition ownReports :: "'h managedDevice \<Rightarrow> bool" where
  "ownReports md \<longleftrightarrow> asManager (mdReporter md) \<and> rpLFDI (mdReporter md) = mdLFDI md"

definition stays :: "'h managedDevice \<Rightarrow> 'h managedDevice \<Rightarrow> bool" where
  "stays md md' \<longleftrightarrow> ident md' = ident md \<and> mdName md' = mdName md \<and> mdCtl md' = mdCtl md \<and> mdDev md' = mdDev md \<and>
     (ownReports md \<longrightarrow> ownReports md')"

lemma stays_refl [simp]: "stays md md"
  by (simp add: stays_def)

lemma stays_trans: "stays a b \<Longrightarrow> stays b c \<Longrightarrow> stays a c"
  by (simp add: stays_def)

lemmas stay_defs = stays_def ident_def ownReports_def

lemma resolveDER_stays: "resolveDER E md w = (b, md', w') \<Longrightarrow> stays md md'"
  by (auto simp: resolveDER_def stay_defs SetManagedDERHrefs_def Let_def split: if_splits prod.splits sum.splits list.splits)

lemma putSetup_stays: "putSetup E d md w = (md', w') \<Longrightarrow> stays md md'"
  by (auto simp: putSetup_def stay_defs Let_def split: if_splits prod.splits)

lemma reportStatus_stays: "reportStatusAndAvailability E st mx md w = (md', w') \<Longrightarrow> stays md md'"
  by (auto simp: reportStatusAndAvailability_def stay_defs Let_def split: prod.splits)

lemma reportDER_stays:
  assumes r: "reportDER E st mx every md w = (md', w')"
  shows "stays md md'"
proof (cases "derListHref md = []")
  case False
  obtain b md1 w1 where x: "resolveDER E md w = (b, md1, w1)" by (rule prod_cases3, erule that)
  obtain md2 w2 where y: "(case mdDer md1 of
      Some d \<Rightarrow> if \<not> mdSetupDone md1 \<and> \<not> feClock E w1 < mdNextSetupTry md1 then putSetup E d md1 w1 else (md1, w1)
    | None \<Rightarrow> (md1, w1)) = (md2, w2)" by force
  have i: "stays md md1" by (rule resolveDER_stays [OF x])
  have j: "stays md1 md2" using y by (auto split: option.splits if_splits dest: putSetup_stays)
  show ?thesis
  proof (cases b)
    case True
    then have "(if timeSub (feClock E w2) (mdLastStatus md2) < every then (md2, w2)
       else reportStatusAndAvailability E st mx md2 w2) = (md', w')"
      using r False x y by (simp add: reportDER_def)
    then have "stays md2 md'" by (auto split: if_splits dest: reportStatus_stays)
    with stays_trans [OF i j] show ?thesis by (rule stays_trans)
  next
    case b: False
    then show ?thesis using r False x i by (simp add: reportDER_def)
  qed
qed (use r in \<open>simp add: reportDER_def\<close>)

lemma setReporter_stays: "setReporter m md = Some md' \<Longrightarrow> stays md md'"
  by (auto simp: setReporter_def NewReporter_def AsManager_def SetManagedDERHrefs_def stay_defs split: option.splits if_splits)

lemma tryMirror_stays:
  assumes t: "tryMirror E md w = (md', w')"
  shows "stays md md'"
proof (cases "postMirror E md w")
  case (fields b md1 w1)
  have "stays md md1" using fields
    by (auto simp: postMirror_def split: prod.splits sum.splits option.splits dest!: setReporter_stays) (simp add: stay_defs)
  then show ?thesis using t fields by (auto simp: tryMirror_def stay_defs split: if_splits bool.splits)
qed

lemma ReportMetering_reporter:
  "ReportMetering en c ctx clk r st w = (e, r', w') \<Longrightarrow> rpLFDI r' = rpLFDI r \<and> asManager r' = asManager r"
  by (auto simp: ReportMetering_def Let_def split: if_splits prod.splits)

lemma reportReading_stays: "reportReading E st every md w = (md', w') \<Longrightarrow> stays md md'"
  by (auto simp: reportReading_def stay_defs dropMirror_def Let_def split: if_splits prod.splits option.splits
      dest!: ReportMetering_reporter)

text \<open>A tick of a device: it reads its backend, writes the control it was given, and keeps the state the write left.\<close>

lemma tickDevice_parts:
  assumes "tickDevice E f plan md w = Some (md', p, w')"
  obtains dev grid mx l c dev' st where "replayReadState (mdDev md) (feClock E w) = (dev, grid, mx)"
    "deviceControls E plan grid mx (md\<lparr>mdDev := dev\<rparr>) = Some (l, c)"
    "replayApplySetpoint (feRating E) dev (feClock E w) c = (dev', st)"
    "stays (md\<lparr>mdDev := dev', mdApplier := l, mdDown := False\<rparr>) md'"
proof -
  obtain dev grid mx where r: "replayReadState (mdDev md) (feClock E w) = (dev, grid, mx)" by (rule prod_cases3, erule that)
  obtain l c where d: "deviceControls E plan grid mx (md\<lparr>mdDev := dev\<rparr>) = Some (l, c)"
    using assms r by (auto simp: tickDevice_def split: option.splits)
  obtain dev' st where a: "replayApplySetpoint (feRating E) dev (feClock E w) c = (dev', st)" by force
  let ?md = "md\<lparr>mdDev := dev', mdApplier := l, mdDown := False\<rparr>"
  obtain md1 w1 where s1: "reportDER E st mx (statusEvery f) ?md w = (md1, w1)" by force
  obtain md2 w2 where s2: "tryMirror E md1 w1 = (md2, w2)" by force
  obtain md3 w3 where s3: "reportReading E st (mfReportInterval f) md2 w2 = (md3, w3)" by force
  have "md' = md3" using assms r d a s1 s2 s3 by (simp add: tickDevice_def)
  then have "stays ?md md'"
    using stays_trans [OF stays_trans [OF reportDER_stays [OF s1] tryMirror_stays [OF s2]] reportReading_stays [OF s3]] by simp
  with r d a show thesis by (rule that)
qed

lemma tickDevice_ident:
  assumes "tickDevice E f plan md w = Some (md', p, w')"
  shows "ident md' = ident md \<and> mdName md' = mdName md \<and> mdCtl md' = mdCtl md \<and> (ownReports md \<longrightarrow> ownReports md')"
  by (rule tickDevice_parts [OF assms]) (simp add: stay_defs)

text \<open>The devices of a fleet tick one after the other, each in the world the one before left, on the same plan.\<close>

definition ticked :: "'w fleetEnv \<Rightarrow> 'h managedFleet \<Rightarrow> (string \<times> f64) list option \<Rightarrow> 'h managedDevice \<Rightarrow> 'h managedDevice \<Rightarrow> bool" where
  "ticked E f plan md md' \<longleftrightarrow> (\<exists>w p w'. tickDevice E f plan md w = Some (md', p, w'))"

lemma tickDevices_ticked: "tickDevices E f plan mds a w = Some (mds', a', w') \<Longrightarrow> list_all2 (ticked E f plan) mds mds'"
proof (induction mds arbitrary: a w mds')
  case (Cons md mds)
  then show ?case by (force simp: ticked_def split: option.splits)
qed simp

lemma tickDevices_ident:
  assumes "tickDevices E f plan mds a w = Some (mds', a', w')"
  shows "map ident mds' = map ident mds \<and> map mdCtl mds' = map mdCtl mds"
  using tickDevices_ticked [OF assms] by (induction rule: list_all2_induct) (auto simp: ticked_def dest: tickDevice_ident)

section \<open>A device outside the managed set is mute\<close>

text \<open>
  A context is muted when the guard permits it nothing but the creation of an EndDevice, which no session does. Muted
  calls leave the requests sent and the guard's decisions as they are.
\<close>

definition muted :: "Ctx \<Rightarrow> 'w World \<Rightarrow> bool" where
  "muted ctx w \<longleftrightarrow> (\<forall>meth kind. kind \<noteq> KindEndDeviceCreate \<longrightarrow> \<not> permits (cGuard w) meth \<lparr>aKind = kind, TargetLFDI = targetFrom ctx\<rparr>)"

definition silent :: "'w World \<Rightarrow> 'w World \<Rightarrow> bool" where
  "silent w w' \<longleftrightarrow> sent w' = sent w \<and> permits (cGuard w') = permits (cGuard w)"

lemma silent_refl [simp]: "silent w w"
  by (simp add: silent_def)

lemma silent_trans: "silent w w' \<Longrightarrow> silent w' w'' \<Longrightarrow> silent w w''"
  by (simp add: silent_def)

lemma muted_silent: "muted ctx w \<Longrightarrow> silent w w' \<Longrightarrow> muted ctx w'"
  by (simp add: muted_def silent_def)

lemma permits_logRefusal: "permits (fst (logRefusal g now re)) = permits g"
proof -
  obtain m where "snd (refusalDue g now (refusalKey re)) = g\<lparr>refusalLast := m\<rparr>" using refusalDue_last by blast
  then show ?thesis by (simp add: logRefusal_def permits_last Let_def split_def)
qed

lemma guarded_muted:
  assumes "muted ctx w" "kind \<noteq> KindEndDeviceCreate"
  obtains e w1 where "guarded ctx meth kind w = (Some e, w1)" "silent w w1"
proof -
  have "\<not> permits (cGuard w) meth \<lparr>aKind = kind, TargetLFDI = targetFrom ctx\<rparr>" using assms by (simp add: muted_def)
  then show thesis using that by (simp add: guarded_cases Let_def silent_def permits_logRefusal)
qed

lemma Get_muted: "muted ctx w \<Longrightarrow> kind \<noteq> KindEndDeviceCreate \<Longrightarrow> Get c ctx kind p dec w = (r, w') \<Longrightarrow> isl r \<and> silent w w'"
  by (erule guarded_muted [where meth = MethodGet], assumption) (auto simp: Get_def)

lemma Post_muted: "muted ctx w \<Longrightarrow> kind \<noteq> KindEndDeviceCreate \<Longrightarrow> Post c ctx kind p b w = (r, w') \<Longrightarrow> isl r \<and> silent w w'"
  by (erule guarded_muted [where meth = MethodPost], assumption) (auto simp: Post_def)

lemma Put_muted: "muted ctx w \<Longrightarrow> kind \<noteq> KindEndDeviceCreate \<Longrightarrow> Put c ctx kind p b w = (r, w') \<Longrightarrow> isl r \<and> silent w w'"
  by (erule guarded_muted [where meth = MethodPut], assumption) (auto simp: Put_def)

lemma Put_muted_der: "muted ctx w \<Longrightarrow> Put c ctx KindDERResourceWrite p b w = (r, w') \<Longrightarrow> isl r \<and> silent w w'"
  by (rule Put_muted) simp_all

lemma Post_muted_mirror: "muted ctx w \<Longrightarrow> Post c ctx KindMirrorPost p b w = (r, w') \<Longrightarrow> isl r \<and> silent w w'"
  by (rule Post_muted) simp_all

lemma putDER_muted:
  assumes "muted ctx w" "putDER c ctx what h b w = (r, w')"
  shows "silent w w'"
proof (cases "h = []")
  case False
  obtain x w1 where p: "Put c ctx KindDERResourceWrite h b w = (x, w1)" by force
  then show ?thesis using Put_muted_der [OF assms(1) p] False assms(2) by (auto simp: putDER_def split: sum.splits)
qed (use assms in \<open>auto simp: putDER_def\<close>)

lemma PostMeterReading_muted:
  assumes "muted ctx w" "PostMeterReading c ctx h b w = (r, w')"
  shows "silent w w'"
proof (cases "h = []")
  case False
  obtain x w1 where p: "Post c ctx KindMirrorPost h b w = (x, w1)" by force
  then show ?thesis using Post_muted_mirror [OF assms(1) p] False assms(2) by (auto simp: PostMeterReading_def split: sum.splits prod.splits)
qed (use assms in \<open>auto simp: PostMeterReading_def\<close>)

lemma CreateMirror_muted:
  assumes "muted ctx w" "CreateMirrorUsagePoint c ctx enc h d m w = (r, w')"
  shows "isl r \<and> silent w w'"
proof -
  obtain x w1 where p: "Post c ctx KindMirrorPost h (enc (m\<lparr>DeviceLFDI := d\<rparr>)) w = (x, w1)" by force
  then show ?thesis
    using Post_muted_mirror [OF assms(1) p] assms(2) by (auto simp: CreateMirrorUsagePoint_def split: if_splits sum.splits)
qed

lemma reportCtx_own: "ownReports md \<Longrightarrow> reportCtx (mdReporter md) (feCtx E) = asDevice E md"
  by (simp add: ownReports_def reportCtx_def)

lemma postMirror_muted:
  assumes "muted (asDevice E md) w" "postMirror E md w = (b, md', w')"
  shows "\<not> b \<and> md' = md \<and> silent w w'"
proof -
  obtain x w1 where p: "postMirrorUsagePoint (feEnc E) (feClient E) (asDevice E md) (mdMupListHref md) (mdLFDI md) w = (x, w1)" by force
  then have "isl x \<and> silent w w1"
    using CreateMirror_muted [OF assms(1)]
    by (auto simp: postMirrorUsagePoint_def split: if_splits prod.splits sum.splits dest!: CreateMirror_muted [OF assms(1)])
  then show ?thesis using assms(2) p by (auto simp: postMirror_def split: sum.splits)
qed

lemma tryMirror_muted:
  assumes "muted (asDevice E md) w" "tryMirror E md w = (md', w')"
  shows "silent w w' \<and> mdReporter md' = mdReporter md \<and> mdLFDI md' = mdLFDI md"
proof -
  obtain b md1 w1 where p: "postMirror E md w = (b, md1, w1)" by (rule prod_cases3, erule that)
  show ?thesis
    using assms(2) postMirror_muted [OF assms(1) p] p by (auto simp: tryMirror_def split: if_splits bool.splits)
qed

lemma resolveDER_muted:
  assumes "muted (asDevice E md) w" "resolveDER E md w = (b, md', w')"
  shows "silent w w' \<and> mdReporter md' = mdReporter md \<and> mdLFDI md' = mdLFDI md"
proof -
  obtain x w1 where g: "Get (feClient E) (asDevice E md) KindEndDeviceRead (derListHref md) (feDecDERList E) w = (x, w1)" by force
  have "isl x \<and> silent w w1" by (rule Get_muted [OF assms(1) _ g]) simp
  then show ?thesis
    using assms(2) g by (auto simp: resolveDER_def Let_def split: if_splits sum.splits)
qed

lemma putOnceMore_muted:
  assumes "putOnceMore h d put w = (a, b, w')" "\<And>r w1. put w = (r, w1) \<Longrightarrow> silent w w1"
  shows "silent w w'"
  using assms by (auto simp: putOnceMore_def split: if_splits prod.splits sum.splits)

lemma putSetup_muted:
  assumes "muted (asDevice E md) w" "putSetup E d md w = (md', w')"
  shows "silent w w' \<and> mdReporter md' = mdReporter md \<and> mdLFDI md' = mdLFDI md"
proof -
  obtain ok1 cap w1 where a: "putOnceMore (dlCapability d) (mdSetupCap md)
         (PutDERCapability (feClient E) (asDevice E md) (dlCapability d) (feEncCapability E (capabilityFor (mdKind md) (mdRatedW md)))) w = (ok1, cap, w1)"
    by (rule prod_cases3, erule that)
  have q1: "silent w w1"
    by (rule putOnceMore_muted [OF a]) (simp add: PutDERCapability_def putDER_muted [OF assms(1)])
  obtain ok2 st w2 where b: "putOnceMore (dlSettings d) (mdSetupSet md)
              (\<lambda>w. PutDERSettings (feClient E) (asDevice E md) (dlSettings d)
                 (feEncSettings E (settingsFor (mdKind md) (mdRatedW md) (toUnix (Now w (feClock E w))))) w) w1 = (ok2, st, w2)"
    by (rule prod_cases3, erule that)
  have "silent w1 w2"
    by (rule putOnceMore_muted [OF b]) (simp add: PutDERSettings_def putDER_muted [OF muted_silent [OF assms(1) q1]])
  then have "silent w w2" using q1 silent_trans by blast
  then show ?thesis using assms(2) a b by (auto simp: putSetup_def Let_def split: if_splits)
qed

lemma errOf_snd [simp]: "snd (errOf x) = snd x"
  unfolding errOf_def by (simp split: prod.split sum.split unit.split)

lemma reports_muted:
  assumes "muted (asDevice E md) w" "ownReports md"
  shows "silent w (snd (ReportStatusWithSOC (feEnc E) (feClient E) (feCtx E) (mdReporter md) st s w))"
    "silent w (snd (ReportAvailability (feEnc E) (feClient E) (feCtx E) (mdReporter md) av w))"
    "silent w (snd (snd (ReportMetering (feEnc E) (feClient E) (feCtx E) clk (mdReporter md) st w)))"
proof -
  have m: "\<And>h b r w'. PutDERStatus (feClient E) (asDevice E md) h b w = (r, w') \<Longrightarrow> silent w w'"
    "\<And>h b r w'. PutDERAvailability (feClient E) (asDevice E md) h b w = (r, w') \<Longrightarrow> silent w w'"
    "\<And>h b r w'. PostMeterReading (feClient E) (asDevice E md) h b w = (r, w') \<Longrightarrow> silent w w'"
    using putDER_muted [OF assms(1)] PostMeterReading_muted [OF assms(1)] by (simp_all add: PutDERStatus_def PutDERAvailability_def)
  show "silent w (snd (ReportStatusWithSOC (feEnc E) (feClient E) (feCtx E) (mdReporter md) st s w))"
    by (auto simp: ReportStatusWithSOC_def reportCtx_own [OF assms(2)] intro: m(1) [OF prod.collapse [symmetric]])
  show "silent w (snd (ReportAvailability (feEnc E) (feClient E) (feCtx E) (mdReporter md) av w))"
    by (auto simp: ReportAvailability_def reportCtx_own [OF assms(2)] intro: m(2) [OF prod.collapse [symmetric]])
  show "silent w (snd (snd (ReportMetering (feEnc E) (feClient E) (feCtx E) clk (mdReporter md) st w)))"
  proof -
    have r: "reportCtx (mdReporter md\<lparr>readingSeq := n\<rparr>) (feCtx E) = asDevice E md" for n
      using assms(2) by (simp add: reportCtx_def ownReports_def)
    show ?thesis
      by (auto simp: ReportMetering_def Let_def r split_def intro: m(3) [OF prod.collapse [symmetric]])
  qed
qed

lemma reportReading_muted:
  assumes "muted (asDevice E md) w" "ownReports md" "reportReading E st every md w = (md', w')"
  shows "silent w w'"
  using assms(3) reports_muted(3) [OF assms(1,2), of "feClock E" st]
  by (auto simp: reportReading_def Let_def split: if_splits prod.splits)

lemma reportDER_muted:
  assumes m: "muted (asDevice E md) w" and o: "ownReports md" and r: "reportDER E st mx every md w = (md', w')"
  shows "silent w w' \<and> mdReporter md' = mdReporter md \<and> mdLFDI md' = mdLFDI md"
proof (cases "derListHref md = []")
  case False
  obtain b md1 w1 where d: "resolveDER E md w = (b, md1, w1)" by (rule prod_cases3, erule that)
  have k1: "silent w w1" "mdReporter md1 = mdReporter md" "mdLFDI md1 = mdLFDI md" using resolveDER_muted [OF m d] by simp_all
  obtain md2 w2 where s: "(case mdDer md1 of
      Some d \<Rightarrow> if \<not> mdSetupDone md1 \<and> \<not> feClock E w1 < mdNextSetupTry md1 then putSetup E d md1 w1 else (md1, w1)
    | None \<Rightarrow> (md1, w1)) = (md2, w2)" by force
  have m1: "muted (asDevice E md1) w1" using muted_silent [OF m k1(1)] k1(3) by simp
  have k2: "silent w1 w2 \<and> mdReporter md2 = mdReporter md1 \<and> mdLFDI md2 = mdLFDI md1"
    using s putSetup_muted [OF m1] by (auto split: option.splits if_splits)
  then have q2: "silent w w2" "mdReporter md2 = mdReporter md" "mdLFDI md2 = mdLFDI md" using k1 silent_trans by auto
  show ?thesis
  proof (cases "b \<and> \<not> timeSub (feClock E w2) (mdLastStatus md2) < every")
    case True
    let ?md = "md2\<lparr>mdLastStatus := feClock E w2\<rparr>"
    have o2: "ownReports ?md" using o q2 by (simp add: ownReports_def)
    have m2: "muted (asDevice E ?md) w2" using muted_silent [OF m q2(1)] q2(3) by simp
    obtain e3 w3 where a: "ReportStatusWithSOC (feEnc E) (feClient E) (feCtx E) (mdReporter ?md) (st\<lparr>isTime := Now w2 (feClock E w2)\<rparr>) (socOf md2) w2 = (e3, w3)"
      by force
    have "silent w2 w3" using reports_muted(1) [OF m2 o2, of "st\<lparr>isTime := Now w2 (feClock E w2)\<rparr>" "socOf md2"] a by simp
    then have q3: "silent w w3" "muted (asDevice E ?md) w3" using q2(1) silent_trans muted_silent m2 by blast+
    have "md' = ?md \<and> w' = snd (ReportAvailability (feEnc E) (feClient E) (feCtx E) (mdReporter ?md)
        (availabilityFor (mdKind md2) (mdRatedW md2) (mdCapacityWh md2) (socOf md2) mx (isActivePowerW st) (toUnix (Now w2 (feClock E w2)))) w3)"
      using r False d s True a by (simp add: reportDER_def reportStatusAndAvailability_def Let_def split: prod.splits)
    then show ?thesis using reports_muted(2) [OF q3(2) o2] q3(1) q2 silent_trans by auto
  next
    case False
    then have "md' = (if b then md2 else md1) \<and> w' = (if b then w2 else w1)"
      using r \<open>derListHref md \<noteq> []\<close> d s by (cases b) (simp_all add: reportDER_def split: if_splits)
    then show ?thesis using k1 q2 by simp
  qed
qed (use r in \<open>simp add: reportDER_def\<close>)

lemma muted_outside:
  assumes "\<not> ownTarget (cGuard w) \<lparr>aKind = KindMirrorPost, TargetLFDI = l\<rparr>" "\<not> isMember (cGuard w) \<lparr>aKind = KindMirrorPost, TargetLFDI = l\<rparr>"
  shows "muted (WithTarget ctx l) w"
  using assms by (auto simp: muted_def permits_def ownTarget_def isMember_def WithTarget_def)

text \<open>The devices an aggregator can have: started as \<open>startManagedDevice\<close> does, bound to whatever EndDevice the list has and to
  whatever session its own goroutine makes of it, and ticked by whatever fleet and plan, any number of times.\<close>

inductive managedRun :: "'w fleetEnv \<Rightarrow> 'h managedDevice \<Rightarrow> bool" for E where
  started: "startManagedDevice E pt pf files dcap m every w = (Inr md, w') \<Longrightarrow> managedRun E md"
| bound: "managedRun E md \<Longrightarrow> managedRun E (md\<lparr>mdEdev := ed, mdCtl := s\<rparr>)"
| ticked: "managedRun E md \<Longrightarrow> tickDevice E f plan md w = Some (md', p, w') \<Longrightarrow> managedRun E md'"

lemma startManagedDevice_own:
  assumes "startManagedDevice E pt pf files dcap m every w = (Inr md, w')"
  shows "ownReports md \<and> mdLFDI md = mgLFDI m \<and> mdCtl md = None"
  using assms by (auto simp: startManagedDevice_def NewReporter_def AsManager_def stay_defs Let_def
      split: sum.splits option.splits prod.splits if_splits dest!: tryMirror_stays)

lemma managedRun_own: "managedRun E md \<Longrightarrow> ownReports md"
proof (induction rule: managedRun.induct)
  case (started pt pf files dcap m every w md w')
  then show ?case using startManagedDevice_own by blast
next
  case (bound md ed s)
  then show ?case by (simp add: ownReports_def)
next
  case (ticked md f plan w md' p w')
  then show ?case using tickDevice_ident by blast
qed

text \<open>C25: A managed device whose LFDI is not in the managed set the guard holds is mute. Whatever has become of it since the
  aggregator started it, whatever its session, and whatever the fleet plans, its tick sends no request at all, neither a
  mirror, a reading nor a DER resource: everything it says is said under its own LFDI, from its start on.
\<close>

theorem unmanaged_device_sends_nothing:
  assumes "managedRun E md" "tickDevice E f plan md w = Some (md', p, w')"
    "\<not> ownTarget (cGuard w) \<lparr>aKind = KindMirrorPost, TargetLFDI = mdLFDI md\<rparr>"
    "\<not> isMember (cGuard w) \<lparr>aKind = KindMirrorPost, TargetLFDI = mdLFDI md\<rparr>"
  shows "sent w' = sent w"
proof -
  obtain dev grid mx where a: "replayReadState (mdDev md) (feClock E w) = (dev, grid, mx)" by (rule prod_cases3, erule that)
  from assms(2) a obtain l c dev' st where b: "deviceControls E plan grid mx (md\<lparr>mdDev := dev\<rparr>) = Some (l, c)"
      "replayApplySetpoint (feRating E) dev (feClock E w) c = (dev', st)"
    by (force simp: tickDevice_def split: option.splits prod.splits)
  let ?md = "md\<lparr>mdDev := dev', mdApplier := l, mdDown := False\<rparr>"
  obtain md1 w1 where d: "reportDER E st mx (statusEvery f) ?md w = (md1, w1)" by force
  obtain md2 w2 where m: "tryMirror E md1 w1 = (md2, w2)" by force
  obtain md3 w3 where e: "reportReading E st (mfReportInterval f) md2 w2 = (md3, w3)" by force
  have z: "w' = w3" using assms(2) a b d m e by (simp add: tickDevice_def)
  have m0: "muted (asDevice E ?md) w" using muted_outside [OF assms(3,4), of "feCtx E"] by simp
  have own: "ownReports md" by (rule managedRun_own [OF assms(1)])
  then have o0: "ownReports ?md" by (simp add: ownReports_def)
  have q1: "silent w w1" "mdReporter md1 = mdReporter md" "mdLFDI md1 = mdLFDI md" using reportDER_muted [OF m0 o0 d] by simp_all
  have m1: "muted (asDevice E md1) w1" using muted_silent [OF m0 q1(1)] q1(3) by simp
  have q2: "silent w1 w2" "mdReporter md2 = mdReporter md" "mdLFDI md2 = mdLFDI md" using tryMirror_muted [OF m1 m] q1 by simp_all
  have m2: "muted (asDevice E md2) w2" using muted_silent [OF m1 q2(1)] q2(3) q1(3) by simp
  have "ownReports md2" using own q2 by (simp add: ownReports_def)
  then have "silent w2 w3" by (rule reportReading_muted [OF m2 _ e])
  then show ?thesis using q1(1) q2(1) z by (simp add: silent_def)
qed

section \<open>Controls and grants\<close>

lemma plan_covers:
  assumes "dispatchPlan d now ms = (Some p, d')" "distinct (map fmKey ms)"
  shows "(map_of p k = None) \<longleftrightarrow> k \<notin> fmKey ` set ms"
proof -
  obtain t where e: "p = foldl (\<lambda>out m. AList.update (fmKey m) (chargingToDER (lookupW (splitTarget
      (fleetTargetW t (deliveredWh d') now (max (minStep d) (lastStep d))) ms) (fmKey m))) out) [] ms"
    by (rule dispatchPlan_elim [OF assms(1)])
  let ?v = "\<lambda>m. chargingToDER (lookupW (splitTarget (fleetTargetW t (deliveredWh d') now (max (minStep d) (lastStep d))) ms) (fmKey m))"
  have p: "p = foldl (\<lambda>out m. if True then AList.update (fmKey m) (?v m) out else out) [] ms" by (simp only: if_True e)
  show ?thesis unfolding p foldl_update_lookup [OF assms(2)] by (auto simp: find_None_iff find_Some_iff split: option.split)
qed

lemma batteries_keys: "fmKey ` set (batteries f) = mdLFDI ` {md \<in> set (mfDevices f). mdKind md = ''battery'' \<and> \<not> sessionActive md}"
  by (auto simp: batteries_def image_iff)

lemma distinct_batteries: "distinct (map mdLFDI (mfDevices f)) \<Longrightarrow> distinct (map fmKey (batteries f))"
  by (simp add: batteries_def comp_def distinct_map_filter)

text \<open>A grant never overrides a control: under a plan of the dispatcher, a device whose session has an active
  event, or that is not a battery, gets exactly the controls it would get without a plan, and every other battery is
  covered: its power is the planned one and everything else is as its own controls have it.
\<close>

theorem controls_beat_grants:
  assumes "distinct (map mdLFDI (mfDevices f))" "md \<in> set (mfDevices f)" "dispatchPlan d now (batteries f) = (plan, d')"
  shows "if mdKind md = ''battery'' \<and> \<not> sessionActive md \<and> plan \<noteq> None
    then \<exists>x. map_of (the plan) (mdLFDI md) = Some x \<and>
      deviceControls E plan grid mx md = map_option (\<lambda>(l, c). (l, c\<lparr>ActivePowerW := x\<rparr>)) (deviceControls E None grid mx md)
    else deviceControls E plan grid mx md = deviceControls E None grid mx md"
proof (cases plan)
  case (Some p)
  have i: "inj_on mdLFDI (set (mfDevices f))" using assms(1) by (simp add: distinct_map)
  have "(map_of p (mdLFDI md) = None) \<longleftrightarrow> \<not> (mdKind md = ''battery'' \<and> \<not> sessionActive md)"
    using plan_covers [OF assms(3) [unfolded Some] distinct_batteries [OF assms(1)], of "mdLFDI md"] assms(2) inj_onD [OF i]
    unfolding batteries_keys by blast
  then show ?thesis using Some by (auto simp: deviceControls_def Let_def split: option.splits prod.splits)
qed simp

section \<open>Examples\<close>

definition demoManagedDevice :: "string \<Rightarrow> nat managedDevice" where
  "demoManagedDevice l =
     \<lparr>mdName = ''b'', mdLFDI = l, mdKind = ''battery'', mdRatedW = 5000, mdDev = demoBattery 5000 0.5,
      mdReporter = AsManager (the (NewReporter l [] [])), mdLastReport = 0, mdMupListHref = ''/mup'', mdMirrorBase = 60000000000,
      mdMirrorRetry = freshRetry, mdHasMirror = False, mdDown = False, mdEdev = blankEndDevice\<lparr>DERListLink := Some ''/der''\<rparr>, mdCtl = None,
      mdApplier = \<lparr>lastMsg = []\<rparr>, mdCapacityWh = 13500, mdDer = None, mdDerTries = 0, mdNextDERTry = 0, mdSetupDone = False,
      mdSetupCap = False, mdSetupSet = False, mdSetupTries = 0, mdNextSetupTry = 0, mdLastStatus = 0\<rparr>"

definition demoManagedFleet :: "nat managedFleet" where
  "demoManagedFleet = \<lparr>mfDevices = [demoManagedDevice ''B1''], mfReportInterval = 60000000000, mfStatusInterval = 0, mfDispatch = None\<rparr>"

definition demoEncoders :: encoders where
  "demoEncoders = \<lparr>encStatus = (\<lambda>_. Some []), encAvailability = (\<lambda>_. Some []), encReading = (\<lambda>_. Some []),
     encMirror = (\<lambda>_. Some []), fmtInstant = (\<lambda>_. []), shaSum = (\<lambda>_. replicate 32 0)\<rparr>"

definition demoFleetEnv :: "nat fleetEnv" where
  "demoFleetEnv = \<lparr>feClient = demoClient (Reply 201 ''/mup/1'' None), feCtx = demoCtx, feEnc = demoEncoders, feEncCapability = (\<lambda>_. Some []),
     feEncSettings = (\<lambda>_. Some []), feDecDERList = (\<lambda>_. None), feClock = (\<lambda>_. 100000000000), feRating = defaultRating, feCurveTypes = demoTypes\<rparr>"

lemma free_controls: "mdCtl md = None \<Longrightarrow> deviceControls E plan grid mx md \<noteq> None"
  by (auto simp: deviceControls_def applyControl_def ApplyControlsWithCurves_def startOutputs_def zeroOutputs_def Let_def split: option.splits prod.splits)

lemma tickDevice_returns: "mdCtl md = None \<Longrightarrow> \<exists>md' p w'. tickDevice E f plan md w = Some (md', p, w')"
proof -
  assume n: "mdCtl md = None"
  obtain dev grid mx where a: "replayReadState (mdDev md) (feClock E w) = (dev, grid, mx)" by (rule prod_cases3, erule that)
  obtain l c where "deviceControls E plan grid mx (md\<lparr>mdDev := dev\<rparr>) = Some (l, c)"
    using free_controls [of "md\<lparr>mdDev := dev\<rparr>" E plan grid mx] n by auto
  then show ?thesis by (simp add: tickDevice_def a split: prod.split)
qed

lemma replay_starts:
  "\<exists>r. NewReplay demoParseTime demoParseFloat (Some (map demoLine [0..<1440])) now
     \<lparr>rcFile = ''f'', rcType = ''pv'', rcClock = ''wall'', rcScale = 1, rcRatedW = 10000, rcCapacityWh = 10000, rcInitialSOC = x\<rparr> = Inr r"
  using demo_loads by (auto simp: NewReplay_def demoReplayConfig_def split: sum.splits if_splits)

definition demoPanel :: Managed where
  "demoPanel = \<lparr>mgName = ''c'', mgLFDI = ''C3'', mgDevice = Some (demoPV ''c''),
     mgReplay = Some \<lparr>srFile = ''f'', srClock = ''wall'', srScale = 1\<rparr>, mgControls = None\<rparr>"

text \<open>A panel with a mirror to post to, started under a guard that does not know it, and ticked.\<close>

theorem unmanaged_device_sends_nothing_witness:
  "\<exists>md w1 md' p w'. startManagedDevice demoFleetEnv demoParseTime demoParseFloat (\<lambda>_. Some (map demoLine [0..<1440]))
       (demoDcap\<lparr>MirrorUsagePointListLink := Some ''/mup''\<rparr>) demoPanel 60000000000 (demoWorld\<lparr>cGuard := demoGuard\<rparr>) = (Inr md, w1) \<and>
     tickDevice demoFleetEnv demoManagedFleet None md (demoWorld\<lparr>cGuard := demoGuard\<rparr>) = Some (md', p, w') \<and> sent w' = []"
proof -
  let ?w = "demoWorld\<lparr>cGuard := demoGuard\<rparr>"
  let ?start = "startManagedDevice demoFleetEnv demoParseTime demoParseFloat (\<lambda>_. Some (map demoLine [0..<1440]))
       (demoDcap\<lparr>MirrorUsagePointListLink := Some ''/mup''\<rparr>) demoPanel 60000000000 ?w :: (managedErr + nat managedDevice) \<times> _"
  obtain r where "NewReplay demoParseTime demoParseFloat (Some (map demoLine [0..<1440])) 100000000000
     \<lparr>rcFile = ''f'', rcType = ''pv'', rcClock = ''wall'', rcScale = 1, rcRatedW = 10000, rcCapacityWh = 10000, rcInitialSOC = Fin (1/2)\<rparr> = Inr r"
    using replay_starts by blast
  then have "\<exists>md w1. ?start = (Inr md, w1)"
    by (auto simp: startManagedDevice_def demoPanel_def demoPV_def theOr_def demoFleetEnv_def NewReporter_def Let_def split: prod.split)
  then obtain md w1 where st: "?start = (Inr md, w1)" by blast
  have l: "mdLFDI md = ''C3''" "mdCtl md = None" using startManagedDevice_own [OF st] by (simp_all add: demoPanel_def)
  obtain md' p w' where t: "tickDevice demoFleetEnv demoManagedFleet None md ?w = Some (md', p, w')"
    using tickDevice_returns [OF l(2), of demoFleetEnv demoManagedFleet None ?w] by blast
  have "\<not> ownTarget (cGuard ?w) \<lparr>aKind = KindMirrorPost, TargetLFDI = mdLFDI md\<rparr>"
      "\<not> isMember (cGuard ?w) \<lparr>aKind = KindMirrorPost, TargetLFDI = mdLFDI md\<rparr>"
    by (simp_all add: l isMember_def demoGuard_simps IsManaged_New ownTarget_def equalFold_def toUpper_def upperChar_def
        char_of_def bit_0)
  with unmanaged_device_sends_nothing [OF managedRun.started [OF st] t] have "sent w' = sent ?w" by simp
  then show ?thesis using st t by (auto simp: demoWorld_def)
qed

theorem controls_beat_grants_witness:
  "\<exists>p d' x. dispatchPlan demoDisp 0 (batteries demoManagedFleet) = (Some p, d') \<and> map_of p ''B1'' = Some x \<and>
     deviceControls demoFleetEnv (Some p) demoGrid 0 (demoManagedDevice ''B1'') =
       map_option (\<lambda>(l, c). (l, c\<lparr>ActivePowerW := x\<rparr>)) (deviceControls demoFleetEnv None demoGrid 0 (demoManagedDevice ''B1''))"
proof -
  obtain p d' where d: "dispatchPlan demoDisp 0 (batteries demoManagedFleet) = (Some p, d')"
    by (simp add: dispatchPlan_def accountStep_def demoDisp_def demoCharge_def setGrant_def newDispatcher_def Let_def)
  have m: "mdKind (demoManagedDevice ''B1'') = ''battery''" "\<not> sessionActive (demoManagedDevice ''B1'')" "mdLFDI (demoManagedDevice ''B1'') = ''B1''"
    by (simp_all add: demoManagedDevice_def sessionActive_def)
  have "distinct (map mdLFDI (mfDevices demoManagedFleet))" "demoManagedDevice ''B1'' \<in> set (mfDevices demoManagedFleet)"
    by (simp_all add: demoManagedFleet_def)
  from controls_beat_grants [OF this d, of demoFleetEnv demoGrid 0] d m show ?thesis by auto
qed

theorem availability_within_rating_witness:
  "\<exists>n k. StatWAvail (availabilityFor ''battery'' (Fin 5000) (Fin 13500) (Some (Fin 0.5)) (Fin 0) (Fin (- 1000)) 0) =
       Some \<lparr>apMultiplier = int k, apValue = n\<rparr> \<and> 0 \<le> n \<and> \<bar>real_of_int n * 10 ^ k - 5000\<bar> \<le> 5 / 9 * 10 ^ k"
  using availability_within_rating [of "Fin 5000" 5000 "Fin (- 1000)" "- 1000" "Fin 0" 0 "Some (Fin 0.5)" "0.5" "''battery''" "Fin 13500" 0]
  by auto

end
