(* ===== verification/DeviceLoop.thy ===== *)
theory DeviceLoop
  imports Backends Metering Alarms EventLoop Controller
begin

text \<open>
  The simulation loop of a single device (the ticker's branch of \<open>main\<close>, \<open>main.go\<close>): one tick reads the backend,
  applies the control base the event driver offers, writes the setpoint, tracks the disturbance, evaluates the alarms
  and reports. The snapshot of the state machine, the default control and the curves are inputs of a tick: other
  goroutines own them. What a tick shows on the dashboard is in \<open>Dashboard\<close>.
\<close>

section \<open>The tick\<close>

definition ownRatings :: "Nameplate \<Rightarrow> Ratings" where
  "ownRatings rt = \<lparr>SetMaxW = RatedW rt, SetMaxVar = RatedVAr rt, StatVarAvail = None\<rparr>"

record 'w loopEnv =
  leClient :: "'w Client"
  leCtx :: Ctx
  leEnc :: encoders
  leEncLog :: "LogEvent \<Rightarrow> string option"
  leDcap :: DeviceCapability
  leRating :: Nameplate
  leCurveTypes :: CurveTypes
  leFunctionSet :: "8 word"
  leReportInterval :: duration
  leClock :: "'w clock"

record loopState =
  lsDevice :: backend
  lsApplier :: refusalLog
  lsAbnormalSince :: time
  lsPreW :: f64
  lsLastReport :: time
  lsDetector :: AlarmDetector
  lsLimiter :: "PerCodeLogEventLimiter option"
  lsOwn :: ownReporter

record tickInput =
  tiSnap :: EventStateSnapshot
  tiDefault :: "DefaultDERControl option"
  tiCurves :: DERCurveCache

text \<open>A tick is skipped after a failed read or write, ends the run when the scenario is over, or runs through.\<close>

datatype tickResult =
    TickSkipped
  | TickDone
  | TickRan ControlOutputs InverterState AlarmInputs time

definition isNormalGrid :: "GridState \<Rightarrow> bool" where
  "isNormalGrid g \<longleftrightarrow> Fin 0.88 \<le> VoltsPU g \<and> VoltsPU g \<le> Fin 1.10 \<and> Fin 59 \<le> FreqHz g \<and> FreqHz g \<le> Fin 60.5"

text \<open>The start of the disturbance and the power before it; a start at the zero instant means there is none.\<close>

definition trackDisturbance :: "GridState \<Rightarrow> f64 \<Rightarrow> time \<Rightarrow> time \<times> f64 \<Rightarrow> time \<times> f64" where
  "trackDisturbance g p now s =
     (if isNormalGrid g then (zeroTime, p) else if fst s = zeroTime then (now, snd s) else s)"

definition abnormalFor :: "time \<Rightarrow> time \<Rightarrow> duration" where
  "abnormalFor since now = (if since = zeroTime then 0 else timeSub now since)"

definition alarmInputs :: "Nameplate \<Rightarrow> GridState \<Rightarrow> InverterState \<Rightarrow> f64 \<Rightarrow> duration \<Rightarrow> AlarmInputs" where
  "alarmInputs rt g st pre dur =
     \<lparr>aiGrid = g, aiConnected = isConnected st, aiEnergized = isEnergized st, aiActivePowerW = isActivePowerW st,
      aiReactivePowerVAr = isReactivePowerVAr st, PreDisturbancePW = pre, aiRatedVAr = RatedVA rt, AbnormalDuration = dur\<rparr>"

definition simTimeOf :: "backend \<Rightarrow> GridState \<Rightarrow> time" where
  "simTimeOf dev g = (case scenarioEnder dev of Some (_, t) \<Rightarrow> t | None \<Rightarrow> Time g)"

definition commandedBase :: "tickInput \<Rightarrow> DERControlBase option" where
  "commandedBase i = ActiveControlBase (tiSnap i) (tiDefault i)"

definition loopControls :: "'w loopEnv \<Rightarrow> tickInput \<Rightarrow> GridState \<Rightarrow> f64 \<Rightarrow> refusalLog \<Rightarrow> (refusalLog \<times> string list \<times> ControlOutputs) option" where
  "loopControls E i grid maxW l =
     applyControl (leRating E) (leCurveTypes E) l ''inverter'' (commandedBase i) (ActiveControlBase (tiSnap i) None = None) (tiDefault i)
       grid maxW (ownRatings (leRating E)) (Some (tiCurves i))"

definition evaluateAlarms :: "'w loopEnv \<Rightarrow> AlarmInputs \<Rightarrow> loopState \<Rightarrow> 'w World \<Rightarrow> loopState \<times> 'w World" where
  "evaluateAlarms E a st w =
     (case Evaluate (leFunctionSet E)
        (\<lambda>href evt (lm, w). PostLogEvent (leClient E) (leCtx E) (leEncLog E) (leClock E w) (leClock E w) href evt (lm, w))
        (lsDetector st) a (lsLimiter st, w) of
        (_, d, _, lm, w) \<Rightarrow> (st\<lparr>lsDetector := d, lsLimiter := lm\<rparr>, w))"

definition reportOwn :: "'w loopEnv \<Rightarrow> InverterState \<Rightarrow> loopState \<Rightarrow> 'w World \<Rightarrow> loopState \<times> 'w World" where
  "reportOwn E ist st w =
     (if timeSub (leClock E w) (lsLastReport st) \<ge> leReportInterval E then
        (case ownReport (leEnc E) (leClient E) (leCtx E) (leClock E) (leDcap E) ist (lsOwn st) w of
           (own, w) \<Rightarrow> (st\<lparr>lsOwn := own, lsLastReport := leClock E w\<rparr>, w))
      else (st, w))"

text \<open>What follows a setpoint that was written.\<close>

definition afterApply :: "'w loopEnv \<Rightarrow> GridState \<Rightarrow> ControlOutputs \<Rightarrow> InverterState \<Rightarrow> loopState \<Rightarrow> 'w World \<Rightarrow>
    tickResult \<times> loopState \<times> 'w World" where
  "afterApply E g c ist st w =
     (let now = simTimeOf (lsDevice st) g;
          (since, pre) = trackDisturbance g (isActivePowerW ist) now (lsAbnormalSince st, lsPreW st);
          a = alarmInputs (leRating E) g ist pre (abnormalFor since now)
      in case evaluateAlarms E a (st\<lparr>lsAbnormalSince := since, lsPreW := pre\<rparr>) w of
           (st, w) \<Rightarrow> (case reportOwn E ist st w of (st, w) \<Rightarrow> (TickRan c ist a now, st, w)))"

text \<open>\<open>None\<close> is a panic of the controls.\<close>

definition loopTick :: "'w loopEnv \<Rightarrow> tickInput \<Rightarrow> loopState \<Rightarrow> 'w World \<Rightarrow> (tickResult \<times> loopState \<times> 'w World) option" where
  "loopTick E i st w =
     (case backendRead (leRating E) (leClock E w) (lsDevice st) of
        (Inl _, dev) \<Rightarrow> Some (TickSkipped, st\<lparr>lsDevice := dev\<rparr>, w)
      | (Inr reading, dev) \<Rightarrow>
          (if (case scenarioEnder dev of Some (done', _) \<Rightarrow> done' | None \<Rightarrow> False) then Some (TickDone, st\<lparr>lsDevice := dev\<rparr>, w)
           else
             (case loopControls E i (srGrid reading) (srMaxPowerW reading) (lsApplier st) of
                None \<Rightarrow> None
              | Some (l, _, c) \<Rightarrow>
                  (case backendApply (leRating E) (leClock E w) c dev of
                     (Inl _, dev) \<Rightarrow> Some (TickSkipped, st\<lparr>lsDevice := dev, lsApplier := l\<rparr>, w)
                   | (Inr ist, dev) \<Rightarrow> Some (afterApply E (srGrid reading) c ist (st\<lparr>lsDevice := dev, lsApplier := l\<rparr>) w)))))"

text \<open>The run of the loop: the results of its ticks, until the scenario is over.\<close>

fun loopRun :: "'w loopEnv \<Rightarrow> tickInput list \<Rightarrow> loopState \<Rightarrow> 'w World \<Rightarrow> (tickResult list \<times> loopState \<times> 'w World) option" where
  "loopRun E [] st w = Some ([], st, w)"
| "loopRun E (i # is) st w =
     (case loopTick E i st w of
        None \<Rightarrow> None
      | Some (TickDone, st, w) \<Rightarrow> Some ([TickDone], st, w)
      | Some (r, st, w) \<Rightarrow> map_option (\<lambda>(rs, st, w). (r # rs, st, w)) (loopRun E is st w))"

text \<open>The state before the first tick.\<close>

definition loopStart :: "backend \<Rightarrow> AlarmDetector \<Rightarrow> PerCodeLogEventLimiter option \<Rightarrow> ownReporter \<Rightarrow> loopState" where
  "loopStart dev det rl own =
     \<lparr>lsDevice = dev, lsApplier = \<lparr>lastMsg = []\<rparr>, lsAbnormalSince = zeroTime, lsPreW = 0, lsLastReport = zeroTime,
      lsDetector = det, lsLimiter = rl, lsOwn = own\<rparr>"

section \<open>What a tick keeps\<close>

lemma evaluateAlarms_frame:
  "evaluateAlarms E a st w = (st', w') \<Longrightarrow> lsDevice st' = lsDevice st \<and> lsAbnormalSince st' = lsAbnormalSince st \<and>
     lsPreW st' = lsPreW st \<and> lsLastReport st' = lsLastReport st \<and> lsOwn st' = lsOwn st"
  by (auto simp: evaluateAlarms_def split: prod.splits)

lemma reportOwn_frame:
  "reportOwn E ist st w = (st', w') \<Longrightarrow> lsDevice st' = lsDevice st \<and> lsAbnormalSince st' = lsAbnormalSince st \<and>
     lsPreW st' = lsPreW st \<and> lsDetector st' = lsDetector st"
  by (auto simp: reportOwn_def split: if_splits prod.splits)

lemma afterApply_ran:
  assumes "afterApply E g c ist st w = (r, st', w')"
  shows "\<exists>now since pre. r = TickRan c ist (alarmInputs (leRating E) g ist pre (abnormalFor since now)) now \<and>
    now = simTimeOf (lsDevice st) g \<and>
    (since, pre) = trackDisturbance g (isActivePowerW ist) now (lsAbnormalSince st, lsPreW st) \<and>
    lsAbnormalSince st' = since \<and> lsPreW st' = pre"
proof -
  let ?n = "simTimeOf (lsDevice st) g"
  obtain since pre where t: "trackDisturbance g (isActivePowerW ist) ?n (lsAbnormalSince st, lsPreW st) = (since, pre)" by force
  obtain st1 w1 where e: "evaluateAlarms E (alarmInputs (leRating E) g ist pre (abnormalFor since ?n))
      (st\<lparr>lsAbnormalSince := since, lsPreW := pre\<rparr>) w = (st1, w1)" by force
  obtain st2 w2 where o: "reportOwn E ist st1 w1 = (st2, w2)" by force
  have "r = TickRan c ist (alarmInputs (leRating E) g ist pre (abnormalFor since ?n)) ?n" "st' = st2"
    using assms t e o by (simp_all add: afterApply_def Let_def)
  then show ?thesis using t evaluateAlarms_frame [OF e] reportOwn_frame [OF o] by (intro exI [of _ ?n] exI [of _ since] exI [of _ pre]) simp
qed

text \<open>The ways a tick goes.\<close>

lemma loopTick_cases:
  assumes "loopTick E i st w = Some (r, st', w')"
  obtains (skipped) d al where "r = TickSkipped" "w' = w" "st' = st\<lparr>lsDevice := d, lsApplier := al\<rparr>"
      "(\<exists>e dev. backendRead (leRating E) (leClock E w) (lsDevice st) = (Inl e, dev)) \<or>
       (\<exists>reading dev l lines c e dev'. backendRead (leRating E) (leClock E w) (lsDevice st) = (Inr reading, dev) \<and>
          loopControls E i (srGrid reading) (srMaxPowerW reading) (lsApplier st) = Some (l, lines, c) \<and>
          backendApply (leRating E) (leClock E w) c dev = (Inl e, dev'))"
    | (over) d where "r = TickDone" "w' = w" "st' = st\<lparr>lsDevice := d\<rparr>"
    | (ran) reading dev l lines c ist dev' where
      "backendRead (leRating E) (leClock E w) (lsDevice st) = (Inr reading, dev)"
      "loopControls E i (srGrid reading) (srMaxPowerW reading) (lsApplier st) = Some (l, lines, c)"
      "backendApply (leRating E) (leClock E w) c dev = (Inr ist, dev')"
      "afterApply E (srGrid reading) c ist (st\<lparr>lsDevice := dev', lsApplier := l\<rparr>) w = (r, st', w')"
proof -
  obtain x dev where b: "backendRead (leRating E) (leClock E w) (lsDevice st) = (x, dev)" by force
  show thesis
  proof (cases x)
    case (Inl e)
    then have "r = TickSkipped" "w' = w" "st' = st\<lparr>lsDevice := dev, lsApplier := lsApplier st\<rparr>" using assms b by (auto simp: loopTick_def)
    then show thesis by (rule skipped) (use b Inl in simp)
  next
    case x: (Inr reading)
    show thesis
    proof (cases "case scenarioEnder dev of Some (d, _) \<Rightarrow> d | None \<Rightarrow> False")
      case True
      then show thesis by (intro over [of dev]) (use assms b x in \<open>auto simp: loopTick_def\<close>)
    next
      case False
      then obtain l lines c where c: "loopControls E i (srGrid reading) (srMaxPowerW reading) (lsApplier st) = Some (l, lines, c)"
        using assms b x by (force simp: loopTick_def split: option.splits)
      obtain y dev' where a: "backendApply (leRating E) (leClock E w) c dev = (y, dev')" by force
      show thesis
      proof (cases y)
        case (Inl e)
        then have "r = TickSkipped" "w' = w" "st' = st\<lparr>lsDevice := dev', lsApplier := l\<rparr>" using assms b x False c a by (auto simp: loopTick_def)
        then show thesis by (rule skipped) (use b x c a Inl in blast)
      next
        case (Inr ist)
        then have "afterApply E (srGrid reading) c ist (st\<lparr>lsDevice := dev', lsApplier := l\<rparr>) w = (r, st', w')"
          using assms b x False c a by (simp add: loopTick_def)
        then show thesis by (rule ran [OF b [unfolded x] c a [unfolded Inr]])
      qed
    qed
  qed
qed

section \<open>Properties\<close>

text \<open>A tick whose read or write fails is silent: it sends no request, whatever was due, and leaves the alarm
  edges, the disturbance, the limiter and the report clock as they were, so the next good tick picks up from there.
  A tick fails exactly when the backend does.
\<close>

theorem failed_tick_is_silent:
  assumes "loopTick E i st w = Some (r, st', w')"
  shows "(r = TickSkipped \<longleftrightarrow>
      (\<exists>e dev. backendRead (leRating E) (leClock E w) (lsDevice st) = (Inl e, dev)) \<or>
      (r \<noteq> TickDone \<and> (\<exists>reading dev l lines c e dev'. backendRead (leRating E) (leClock E w) (lsDevice st) = (Inr reading, dev) \<and>
         loopControls E i (srGrid reading) (srMaxPowerW reading) (lsApplier st) = Some (l, lines, c) \<and>
         backendApply (leRating E) (leClock E w) c dev = (Inl e, dev')))) \<and>
    (r = TickSkipped \<or> r = TickDone \<longrightarrow>
      w' = w \<and> lsAbnormalSince st' = lsAbnormalSince st \<and> lsPreW st' = lsPreW st \<and> lsLastReport st' = lsLastReport st \<and>
      lsDetector st' = lsDetector st \<and> lsLimiter st' = lsLimiter st \<and> lsOwn st' = lsOwn st)"
  using assms
proof (cases rule: loopTick_cases)
  case (skipped d al)
  then show ?thesis by simp
next
  case (over d)
  have "\<not> (\<exists>e dev. backendRead (leRating E) (leClock E w) (lsDevice st) = (Inl e, dev))"
    using assms over(1) by (auto simp: loopTick_def)
  then show ?thesis using over by simp
next
  case (ran reading dev l lines c ist dev')
  then obtain a now where "r = TickRan c ist a now" using afterApply_ran [OF ran(4)] by blast
  then show ?thesis using ran by auto
qed

theorem failed_tick_is_silent_witness:
  "\<forall>E i det own (w :: nat World). \<exists>st'. loopTick E i (loopStart (BGridLABD gridLABDConfigFrom) det None own) w = Some (TickSkipped, st', w) \<and>
     lsDetector st' = det \<and> lsOwn st' = own"
proof (intro allI)
  fix E i det own and w :: "nat World"
  let ?st = "loopStart (BGridLABD gridLABDConfigFrom) det None own"
  obtain st' where t: "loopTick E i ?st w = Some (TickSkipped, st', w)"
    by (simp add: loopTick_def loopStart_def backendRead_def)
  have "lsDetector st' = lsDetector ?st \<and> lsOwn st' = lsOwn ?st" using failed_tick_is_silent [OF t] by blast
  then show "\<exists>st'. loopTick E i ?st w = Some (TickSkipped, st', w) \<and> lsDetector st' = det \<and> lsOwn st' = own"
    using t by (simp add: loopStart_def)
qed

text \<open>On the scenario backend a tick runs whenever the scenario is not over and the controls do not panic.\<close>

lemma syntheticTick_runs:
  assumes "lsDevice st = BSynthetic s" "syntheticReadState (leRating E) s = (s', g, m, irr)" "\<not> ScenarioDone s'"
    "loopControls E i g m (lsApplier st) = Some (l, lines, c)"
  shows "\<exists>since pre st' w'. loopTick E i st w =
      Some (TickRan c (ComputeOutput (leRating E) c (sgrid s'))
        (alarmInputs (leRating E) g (ComputeOutput (leRating E) c (sgrid s')) pre (abnormalFor since (simTime s'))) (simTime s'), st', w') \<and>
    lsDevice st' = BSynthetic s' \<and> lsApplier st' = l"
proof -
  let ?ist = "ComputeOutput (leRating E) c (sgrid s')" and ?st = "st\<lparr>lsDevice := BSynthetic s', lsApplier := l\<rparr>"
  obtain r st' w' where a: "afterApply E g c ?ist ?st w = (r, st', w')" by (rule prod_cases3, erule that)
  have t: "loopTick E i st w = Some (r, st', w')"
    using assms a by (simp add: loopTick_def backendRead_def backendApply_def scenarioEnder_def syntheticApplySetpoint_def)
  have d: "lsDevice st' = BSynthetic s'" "lsApplier st' = l"
    using a by (auto simp: afterApply_def evaluateAlarms_def reportOwn_def Let_def split: prod.splits if_splits)
  from afterApply_ran [OF a] t d show ?thesis by (fastforce simp: simTimeOf_def scenarioEnder_def)
qed

definition quietScenario :: Scenario where
  "quietScenario = \<lparr>scName = ''quiet'', scDescription = [], scDuration = 86400000000000, Steps = []\<rparr>"

text \<open>
  The reference for the disturbance: over the instants, grids and powers of the ticks that ran, newest first.
\<close>

fun ranOf :: "tickResult list \<Rightarrow> (time \<times> AlarmInputs) list" where
  "ranOf [] = []"
| "ranOf (TickRan c ist a now # rs) = (now, a) # ranOf rs"
| "ranOf (_ # rs) = ranOf rs"

abbreviation disturbed :: "time \<times> AlarmInputs \<Rightarrow> bool" where
  "disturbed o' \<equiv> \<not> isNormalGrid (aiGrid (snd o'))"

definition sinceOf :: "(time \<times> AlarmInputs) list \<Rightarrow> time" where
  "sinceOf obs = (case takeWhile disturbed obs of [] \<Rightarrow> zeroTime | xs \<Rightarrow> fst (last xs))"

definition preOf :: "(time \<times> AlarmInputs) list \<Rightarrow> f64" where
  "preOf obs = (case dropWhile disturbed obs of [] \<Rightarrow> 0 | o' # _ \<Rightarrow> aiActivePowerW (snd o'))"

lemma takeWhile_last: "takeWhile P xs = y # ys \<Longrightarrow> last (y # ys) \<in> set xs"
proof -
  assume t: "takeWhile P xs = y # ys"
  have "last (takeWhile P xs) \<in> set (takeWhile P xs)" by (rule last_in_set) (simp add: t)
  then show ?thesis using set_takeWhileD t by metis
qed

lemma trackDisturbance_ref:
  assumes "\<forall>o'\<in>set obs. fst o' \<noteq> zeroTime" "aiGrid a = g"
  shows "trackDisturbance g (aiActivePowerW a) now (sinceOf obs, preOf obs) = (sinceOf ((now, a) # obs), preOf ((now, a) # obs))"
proof (cases "isNormalGrid g")
  case True
  then show ?thesis using assms(2) by (simp add: trackDisturbance_def sinceOf_def preOf_def)
next
  case False
  show ?thesis
  proof (cases "takeWhile disturbed obs")
    case Nil
    then show ?thesis using False assms(2) by (simp add: trackDisturbance_def sinceOf_def preOf_def)
  next
    case (Cons o' os)
    then have "last (o' # os) \<in> set obs" by (rule takeWhile_last)
    then have "fst (last (o' # os)) \<noteq> zeroTime" using assms(1) by blast
    then show ?thesis using False Cons assms(2) by (auto simp: trackDisturbance_def sinceOf_def preOf_def)
  qed
qed

lemma loopRun_disturbance:
  assumes "loopRun E is st w = Some (rs, st', w')" "lsAbnormalSince st = sinceOf obs" "lsPreW st = preOf obs"
    "\<forall>o'\<in>set (ranOf rs) \<union> set obs. fst o' \<noteq> zeroTime"
  shows "\<forall>k < length (ranOf rs).
    (let o' = ranOf rs ! k; hist = rev (take (Suc k) (ranOf rs)) @ obs
     in PreDisturbancePW (snd o') = preOf hist \<and> AbnormalDuration (snd o') = abnormalFor (sinceOf hist) (fst o'))"
  using assms
proof (induction "is" arbitrary: st w rs obs)
  case (Cons i "is")
  from Cons.prems(1) obtain r st1 w1 where t: "loopTick E i st w = Some (r, st1, w1)"
    by (auto split: option.splits)
  show ?case using t
  proof (cases rule: loopTick_cases)
    case (skipped d al)
    then obtain rs1 where r: "loopRun E is st1 w1 = Some (rs1, st', w')" "rs = r # rs1"
      using Cons.prems(1) t by (auto split: option.splits)
    have "lsAbnormalSince st1 = sinceOf obs" "lsPreW st1 = preOf obs" using skipped(3) Cons.prems(2,3) by simp_all
    from Cons.IH [OF r(1) this] Cons.prems(4) r(2) skipped(1) show ?thesis by simp
  next
    case (over d)
    then have "rs = [TickDone]" using Cons.prems(1) t by (auto split: option.splits)
    then show ?thesis by simp
  next
    case (ran reading dev l lines c ist dev')
    from afterApply_ran [OF ran(4)] obtain now since pre where a:
      "r = TickRan c ist (alarmInputs (leRating E) (srGrid reading) ist pre (abnormalFor since now)) now"
      "(since, pre) = trackDisturbance (srGrid reading) (isActivePowerW ist) now (lsAbnormalSince st, lsPreW st)"
      "lsAbnormalSince st1 = since" "lsPreW st1 = pre" by auto
    let ?a = "alarmInputs (leRating E) (srGrid reading) ist pre (abnormalFor since now)"
    obtain rs1 where r: "loopRun E is st1 w1 = Some (rs1, st', w')" "rs = r # rs1"
      using Cons.prems(1) t a(1) by (auto split: option.splits)
    have ro: "ranOf rs = (now, ?a) # ranOf rs1" using r(2) a(1) by simp
    have ref: "(since, pre) = (sinceOf ((now, ?a) # obs), preOf ((now, ?a) # obs))"
      using trackDisturbance_ref [of obs ?a "srGrid reading" now] a(2) Cons.prems(2-4)
      by (simp add: alarmInputs_def)
    have ih: "\<forall>k < length (ranOf rs1).
      (let o' = ranOf rs1 ! k; hist = rev (take (Suc k) (ranOf rs1)) @ (now, ?a) # obs
       in PreDisturbancePW (snd o') = preOf hist \<and> AbnormalDuration (snd o') = abnormalFor (sinceOf hist) (fst o'))"
      by (rule Cons.IH [OF r(1)]) (use a(3,4) ref ro Cons.prems(4) in simp_all)
    show ?thesis
    proof (intro allI impI)
      fix k assume k: "k < length (ranOf rs)"
      show "let o' = ranOf rs ! k; hist = rev (take (Suc k) (ranOf rs)) @ obs
        in PreDisturbancePW (snd o') = preOf hist \<and> AbnormalDuration (snd o') = abnormalFor (sinceOf hist) (fst o')"
      proof (cases k)
        case 0
        then show ?thesis using ro ref by (simp add: alarmInputs_def)
      next
        case (Suc j)
        then have "j < length (ranOf rs1)" using k ro by simp
        then show ?thesis using ih Suc ro by (simp add: Let_def)
      qed
    qed
  qed
qed simp

text \<open>C39: What the alarms are told of a disturbance is what the run's own history says: from the first tick on, with
  every tick that ran, the duration handed over is counted from the first abnormal tick after the last normal one (zero on a
  normal grid), and the power before the disturbance is the one of the last normal tick; skipped ticks change neither.
\<close>

theorem disturbance_measured:
  assumes "loopRun E is (loopStart dev det rl own) w = Some (rs, st', w')" "\<forall>o'\<in>set (ranOf rs). fst o' \<noteq> zeroTime"
    "k < length (ranOf rs)"
  shows "let o' = ranOf rs ! k; hist = rev (take (Suc k) (ranOf rs))
    in PreDisturbancePW (snd o') = preOf hist \<and>
       AbnormalDuration (snd o') = (if isNormalGrid (aiGrid (snd o')) then 0 else timeSub (fst o') (sinceOf hist))"
proof -
  let ?o = "ranOf rs ! k" and ?h = "rev (take (Suc k) (ranOf rs))"
  have p: "PreDisturbancePW (snd ?o) = preOf ?h" "AbnormalDuration (snd ?o) = abnormalFor (sinceOf ?h) (fst ?o)"
    using loopRun_disturbance [OF assms(1), of "[]"] assms(2,3) by (auto simp: loopStart_def sinceOf_def preOf_def Let_def)
  have h: "?h = ?o # rev (take k (ranOf rs))" using assms(3) by (simp add: take_Suc_conv_app_nth)
  have "sinceOf ?h = zeroTime" if "isNormalGrid (aiGrid (snd ?o))" using that h by (simp add: sinceOf_def)
  moreover have "sinceOf ?h \<noteq> zeroTime" if n: "\<not> isNormalGrid (aiGrid (snd ?o))"
  proof -
    obtain x xs where x: "takeWhile disturbed ?h = x # xs" using n h by simp
    then have "last (x # xs) \<in> set ?h" by (rule takeWhile_last)
    then have "last (x # xs) \<in> set (take (Suc k) (ranOf rs))" by (simp only: set_rev)
    then have "last (x # xs) \<in> set (ranOf rs)" by (rule in_set_takeD)
    then show ?thesis using assms(2) x by (simp add: sinceOf_def)
  qed
  ultimately show ?thesis using p by (simp add: abnormalFor_def Let_def)
qed

definition idleInput :: tickInput where
  "idleInput = \<lparr>tiSnap = \<lparr>snapState = StateDefault, ActiveMRID = [], ActiveDERControl = None\<rparr>, tiDefault = None, tiCurves = NewDERCurveCache\<rparr>"

lemma quiet_walk: "walkSteps [] e idx g = (idx, g)"
  by (subst walkSteps.simps) simp

lemma quiet_read:
  assumes "Steps (scenario s) = []"
  shows "syntheticReadState rt s = (s\<lparr>simTime := simTime s + simDelta s, sgrid := (sgrid s)\<lparr>Time := simTime s + simDelta s\<rparr>\<rparr>,
    (sgrid s)\<lparr>Time := simTime s + simDelta s\<rparr>, MaxPowerW rt (Irradiance (simTime s + simDelta s)), Irradiance (simTime s + simDelta s))"
  using assms by (simp add: syntheticReadState_def quiet_walk Let_def)

text \<open>The scenario backend in a sag to 0.7 p.u., after \<open>n\<close> reads a second apart.\<close>

definition sagAfter :: "nat \<Rightarrow> Synthetic" where
  "sagAfter n = \<lparr>scenario = quietScenario, simStart = sunrise, simTime = sunrise + int n * 1000000000, stepIdx = 0,
     sgrid = \<lparr>VoltsPU = Fin 0.7, FreqHz = 60, Time = sunrise + int n * 1000000000\<rparr>, timeScale = 1, tick = 1000000000\<rparr>"

lemma sagAfter_read:
  "\<exists>m irr. syntheticReadState rt (sagAfter n) = (sagAfter (Suc n), sgrid (sagAfter (Suc n)), m, irr)"
proof -
  have "simDelta (sagAfter n) = 1000000000"
    by (simp add: simDelta_def sagAfter_def minInt64_def maxInt64_def truncReal_def)
  then show ?thesis by (simp add: quiet_read sagAfter_def quietScenario_def)
qed

lemma idle_controls: "\<exists>l lines c. loopControls E idleInput g m al = Some (l, lines, c)"
  by (simp add: loopControls_def commandedBase_def idleInput_def ActiveControlBase_def applyControl_def
      ApplyControlsWithCurves_def startOutputs_def zeroOutputs_def split: prod.splits)

lemma sagTick:
  assumes "lsDevice st = BSynthetic (sagAfter n)" "n < 100"
  shows "\<exists>c ist a st' w'. loopTick E idleInput st w = Some (TickRan c ist a (sunrise + int (Suc n) * 1000000000), st', w') \<and>
    \<not> isNormalGrid (aiGrid a) \<and> lsDevice st' = BSynthetic (sagAfter (Suc n))"
proof -
  obtain m irr where r: "syntheticReadState (leRating E) (sagAfter n) = (sagAfter (Suc n), sgrid (sagAfter (Suc n)), m, irr)"
    using sagAfter_read by blast
  obtain l lines c where c: "loopControls E idleInput (sgrid (sagAfter (Suc n))) m (lsApplier st) = Some (l, lines, c)"
    using idle_controls by blast
  have d: "\<not> ScenarioDone (sagAfter (Suc n))"
    using assms(2) by (simp add: ScenarioDone_def sagAfter_def quietScenario_def timeSub_def minInt64_def maxInt64_def)
  have t: "simTime (sagAfter (Suc n)) = sunrise + int (Suc n) * 1000000000" by (simp add: sagAfter_def)
  have g: "\<not> isNormalGrid (sgrid (sagAfter (Suc n)))" by (simp add: isNormalGrid_def sagAfter_def)
  from syntheticTick_runs [OF assms(1) r d c, of w] t g show ?thesis by (fastforce simp: alarmInputs_def)
qed

theorem disturbance_measured_witness:
  "\<forall>E det own (w :: nat World). \<exists>rs st' w'. loopRun E [idleInput, idleInput] (loopStart (BSynthetic (sagAfter 0)) det None own) w = Some (rs, st', w') \<and>
     AbnormalDuration (snd (ranOf rs ! 1)) = 1000000000"
proof (intro allI)
  fix E det own and w :: "nat World"
  let ?st = "loopStart (BSynthetic (sagAfter 0)) det None own"
  obtain c1 i1 a1 st1 w1 where t1: "loopTick E idleInput ?st w = Some (TickRan c1 i1 a1 (sunrise + 1000000000), st1, w1)"
    "\<not> isNormalGrid (aiGrid a1)" "lsDevice st1 = BSynthetic (sagAfter 1)"
    using sagTick [of ?st 0 E w] by (auto simp: loopStart_def)
  obtain c2 i2 a2 st2 w2 where t2: "loopTick E idleInput st1 w1 = Some (TickRan c2 i2 a2 (sunrise + 2000000000), st2, w2)"
    "\<not> isNormalGrid (aiGrid a2)"
    using sagTick [of st1 1 E w1] t1(3) by auto
  let ?rs = "[TickRan c1 i1 a1 (sunrise + 1000000000), TickRan c2 i2 a2 (sunrise + 2000000000)]"
  have r: "loopRun E [idleInput, idleInput] ?st w = Some (?rs, st2, w2)" using t1 t2 by simp
  have z: "\<forall>o'\<in>set (ranOf ?rs). fst o' \<noteq> zeroTime" by (simp add: sunrise_def zeroTime_def)
  have "AbnormalDuration (snd (ranOf ?rs ! 1)) = timeSub (sunrise + 2000000000) (sinceOf (rev (take 2 (ranOf ?rs))))"
    using disturbance_measured [OF r z, of 1] t2(2) by (simp add: Let_def)
  also have "\<dots> = 1000000000" using t1(2) t2(2) by (simp add: sinceOf_def timeSub_def minInt64_def maxInt64_def)
  finally show "\<exists>rs st' w'. loopRun E [idleInput, idleInput] ?st w = Some (rs, st', w') \<and> AbnormalDuration (snd (ranOf rs ! 1)) = 1000000000"
    using r by blast
qed

text \<open>Backends that never put out more than they are told: the scenario and a recording of a PV device.\<close>

definition curtailed :: "backend \<Rightarrow> time \<Rightarrow> bool" where
  "curtailed dev now \<longleftrightarrow>
     (case dev of BSynthetic _ \<Rightarrow> True
      | BReplay r \<Rightarrow> rcType (rcfg r) = ''pv'' \<and> (\<exists>x. baseline r now = Fin x)
      | _ \<Rightarrow> False)"

lemma ComputeOutput_le:
  assumes "rating_ok rt rw va var" "ActivePowerW c = Fin p" "ReactivePowerVAr c = Fin q" "- va \<le> p" "p \<le> x" "0 \<le> x" "x \<le> va"
  shows "\<exists>p'. isActivePowerW (ComputeOutput rt c g) = Fin p' \<and> p' \<le> x \<and> p' = (if Connected c \<and> Energized c then p else 0)"
proof -
  have rt: "RatedVA rt = Fin va" "0 \<le> va" using assms(1) by (simp_all add: rating_ok_def)
  define p0 where "p0 = (if Connected c \<and> Energized c then p else 0)"
  define q0 where "q0 = (if Connected c \<and> Energized c then q else 0)"
  obtain p' q' where e: "EnforceVALimit rt (Fin p0) (Fin q0) = (Fin p', Fin q')" using EnforceVALimit_Fin [OF rt] by blast
  have "\<bar>p0\<bar> \<le> va" using assms(4-7) by (auto simp: p0_def)
  then have "p' = p0" using EnforceVALimit_bounded(2) [OF rt e] by blast
  moreover have "isActivePowerW (ComputeOutput rt c g) = Fin p'"
    using e assms(2,3) by (auto simp: ComputeOutput_def p0_def q0_def split: if_splits)
  ultimately show ?thesis using assms(5,6) by (auto simp: p0_def)
qed

lemma backendApply_le:
  assumes "backendApply rt now c dev = (Inr ist, dev')" "curtailed dev now"
    "rating_ok rt rw va var" "ActivePowerW c = Fin p" "ReactivePowerVAr c = Fin q" "- va \<le> p" "p \<le> x" "0 \<le> x" "x \<le> va"
  shows "\<exists>p'. isActivePowerW ist = Fin p' \<and> p' \<le> x \<and> (\<not> (Connected c \<and> Energized c) \<longrightarrow> p' = 0) \<and>
    (\<forall>s. dev = BSynthetic s \<and> Connected c \<and> Energized c \<longrightarrow> p' = p)"
proof (cases dev)
  case (BSynthetic s)
  then have "ist = ComputeOutput rt c (sgrid s)" using assms(1) by (simp add: backendApply_def syntheticApplySetpoint_def)
  then show ?thesis using ComputeOutput_le [OF assms(3-9), of "sgrid s"] BSynthetic by auto
next
  case (BReplay r)
  then obtain b where b: "rcType (rcfg r) = ''pv''" "baseline r now = Fin b" using assms(2) by (auto simp: curtailed_def)
  let ?m = "max 0 (min p b)"
  obtain g where i: "ist = ComputeOutput rt (c\<lparr>ActivePowerW := Fin ?m\<rparr>) g"
    using assms(1,4) BReplay b by (auto simp: backendApply_def replayApplySetpoint_def achieve_def)
  have "- va \<le> ?m" "?m \<le> x" using assms(6-9) by auto
  from ComputeOutput_le [OF assms(3), of "c\<lparr>ActivePowerW := Fin ?m\<rparr>" ?m q x g] this assms(5,8,9) BReplay
  show ?thesis unfolding i by auto
qed (use assms(2) in \<open>simp_all add: curtailed_def\<close>)

text \<open>The power an event allows, as its fields read: nothing when it disconnects or de-energizes the device, else its target
  power, else its fixed share of the rating, else its limit in percent of the rating.\<close>

definition turnsOff :: "DERControlBase \<Rightarrow> bool" where
  "turnsOff b \<longleftrightarrow> OpModConnect b = Some False \<or> OpModEnergize b = Some False"

definition eventCeiling :: "DERControlBase \<Rightarrow> real \<Rightarrow> real option" where
  "eventCeiling b rw =
     (if turnsOff b then Some 0
      else case OpModTargetW b of
        Some t \<Rightarrow> Some (of_int (apValue t) *
          (if 0 \<le> apMultiplier t then 10 ^ nat (apMultiplier t) else 1 / 10 ^ nat (- apMultiplier t)))
      | None \<Rightarrow>
          (case OpModFixedW b of
             Some v \<Rightarrow> Some (of_int v / 10000 * rw)
           | None \<Rightarrow> map_option (\<lambda>v. of_int v / 10000 * rw) (OpModMaxLimW b)))"

text \<open>The controls of a tick under an active event.\<close>

lemma loopControls_ceiling:
  assumes "loopControls E i g maxW l0 = Some (l, lines, c)"
    "snapState (tiSnap i) = StateEventStarted" "ActiveDERControl (tiSnap i) = Some evt" "ControlBase evt = Some b"
    "CheckControl (Some b) (ownRatings (leRating E)) = None" "eventCeiling b rw = Some x"
    "RatedW (leRating E) = Fin rw" "ActivePowerW c = Fin p"
  shows "p \<le> x \<and> (turnsOff b \<longrightarrow> p = 0 \<and> \<not> (Connected c \<and> Energized c)) \<and>
    (\<not> turnsOff b \<longrightarrow> Connected c \<and> Energized c \<and> (OpModTargetW b \<noteq> None \<or> OpModFixedW b \<noteq> None \<longrightarrow> p = x))"
proof -
  have base: "commandedBase i = Some b" using assms(2-4) by (simp add: commandedBase_def ActiveControlBase_def)
  obtain out where out: "ApplyControlsWithCurves (leRating E) (leCurveTypes E) (Some b) g maxW (ownRatings (leRating E)) (Some (tiCurves i)) = Some out"
    using assms(1) base by (auto simp: loopControls_def applyControl_def split: option.splits)
  have nr: "Refused out = None" using Apply_refused [OF out] assms(5) by simp
  then have co: "c = out" using assms(1) base out by (auto simp: loopControls_def applyControl_def split: option.splits prod.splits)
  have mw: "SetMaxW (ownRatings (leRating E)) = Fin rw" using assms(7) by (simp add: ownRatings_def)
  show ?thesis
  proof (cases "turnsOff b")
    case True
    then show ?thesis using out co nr assms(6,8)
      by (auto simp: turnsOff_def eventCeiling_def ApplyControlsWithCurves_def zeroOutputs_def split: sum.splits option.splits if_splits)
  next
    case False
    then have on: "OpModConnect b \<noteq> Some False" "OpModEnergize b \<noteq> Some False" by (auto simp: turnsOff_def)
    obtain fq o1 where o: "applyVoltWatt (leRating E) (leCurveTypes E) b g (Some (tiCurves i)) (startOutputs maxW) = Some o1"
      "applyReactive (leRating E) (leCurveTypes E) b g (Some (tiCurves i)) fq
         (applyActive b (ownRatings (leRating E)) (applyFreqDroop (leRating E) b g o1)) = Some out"
      using Apply_parts [OF out nr on] by metis
    let ?o2 = "applyFreqDroop (leRating E) b g o1"
    have e: "ActivePowerW out = ActivePowerW (applyActive b (ownRatings (leRating E)) ?o2)" using applyReactive_frame [OF o(2)] by simp
    have "Connected c \<and> Energized c"
      using co o applyVoltWatt_frame [OF o(1)] applyReactive_frame [OF o(2)] applyActive_frame [of b "ownRatings (leRating E)" ?o2]
        applyFreqDroop_frame [of "leRating E" b g o1] by (simp add: startOutputs_def)
    moreover have "p = x" if "OpModTargetW b \<noteq> None \<or> OpModFixedW b \<noteq> None"
      using that e co assms(6,8) False mw
      by (auto simp: applyActive_def eventCeiling_def percentFullScale_def pow10_def Let_def split: option.splits if_splits)
    moreover have "p \<le> x" if n: "OpModTargetW b = None" "OpModFixedW b = None"
    proof -
      obtain v where v: "OpModMaxLimW b = Some v" "x = of_int v / 10000 * rw"
        using assms(6) False n by (cases "OpModMaxLimW b") (simp_all add: eventCeiling_def)
      have "\<not> ofInt v div percentFullScale * SetMaxW (ownRatings (leRating E)) < ActivePowerW out"
        by (rule Apply_power_le(2) [OF out n(2,1) nr on v(1)])
      then show ?thesis using v(2) mw co assms(8) by (simp add: percentFullScale_def)
    qed
    ultimately show ?thesis using False by fastforce
  qed
qed

text \<open>C34: What a started event asks for holds at the device, through the state machine's snapshot, the choice of the base,
  the controls and the backend. In a tick that runs while an admissible event is started, with \<open>x\<close> the power its fields allow
  (nothing when it disconnects or de-energizes the device, else its target power, else its fixed share of the rating, else
  its maximum limit: a target or a fixed share overrides the limit), no more than \<open>x\<close> is commanded, and exactly \<open>x\<close> when
  a target or a fixed share is set; a backend that follows its set point (the scenario, or a recording of a PV device whose
  baseline is a number) puts out no more than \<open>x\<close>, or nothing when \<open>x\<close> is negative and the device can only produce;
  nothing at all when the event turns the device off; and the scenario puts out exactly what is commanded. This takes
  \<open>x\<close> to be within the apparent rating, and the commanded powers to be numbers that do not ask to charge beyond it.
\<close>

theorem event_limit_reaches_device:
  assumes "loopTick E i st w = Some (TickRan c ist a now, st', w')"
    "snapState (tiSnap i) = StateEventStarted" "ActiveDERControl (tiSnap i) = Some evt" "ControlBase evt = Some b"
    "CheckControl (Some b) (ownRatings (leRating E)) = None" "eventCeiling b rw = Some x" "x \<le> va"
    "rating_ok (leRating E) rw va var"
    "curtailed (snd (backendRead (leRating E) (leClock E w) (lsDevice st))) (leClock E w)"
    "ActivePowerW c = Fin p" "ReactivePowerVAr c = Fin q" "- va \<le> p"
  shows "p \<le> x \<and> (\<not> turnsOff b \<and> (OpModTargetW b \<noteq> None \<or> OpModFixedW b \<noteq> None) \<longrightarrow> p = x) \<and>
    (\<exists>p'. isActivePowerW ist = Fin p' \<and> p' \<le> max 0 x \<and> (turnsOff b \<longrightarrow> p' = 0) \<and>
       (\<forall>s. lsDevice st = BSynthetic s \<longrightarrow> p' = p))"
  using assms(1)
proof (cases rule: loopTick_cases)
  case (ran reading dev l lines c' ist' dev')
  from afterApply_ran [OF ran(4)] have c: "c' = c" "ist' = ist" by auto
  have rw: "RatedW (leRating E) = Fin rw" "0 \<le> va" using assms(8) by (auto simp: rating_ok_def)
  note lc = loopControls_ceiling [OF ran(2) [unfolded c] assms(2-6) rw(1) assms(10)]
  moreover have "curtailed dev (leClock E w)" using assms(9) ran(1) by simp
  moreover have "p \<le> max 0 x" "0 \<le> max 0 x" "max 0 x \<le> va" using lc assms(7) rw(2) by auto
  ultimately obtain p' where p': "isActivePowerW ist = Fin p'" "p' \<le> max 0 x" "\<not> (Connected c \<and> Energized c) \<longrightarrow> p' = 0"
    "\<forall>s. dev = BSynthetic s \<and> Connected c \<and> Energized c \<longrightarrow> p' = p"
    using backendApply_le [OF ran(3) [unfolded c] _ assms(8,10,11,12)] by blast
  have "\<exists>s. dev = BSynthetic s" if "lsDevice st = BSynthetic s0" for s0
    using ran(1) that by (auto simp: backendRead_def split: prod.splits)
  then have "\<forall>s. lsDevice st = BSynthetic s \<longrightarrow> p' = p" using p'(3,4) lc by (cases "turnsOff b") auto
  then show ?thesis using lc p' by blast
qed simp_all

text \<open>At noon, a quarter of the rating.\<close>

definition limitedInput :: tickInput where
  "limitedInput = idleInput\<lparr>tiSnap := \<lparr>snapState = StateEventStarted, ActiveMRID = ''E1'', ActiveDERControl =
     Some \<lparr>MRID = ''E1'', ReplyTo = [], ResponseRequired = None, EventStatus = None, Interval = None, RandomizeStart = None,
       RandomizeDuration = None, ControlBase = Some (emptyBase\<lparr>OpModMaxLimW := Some 2500\<rparr>)\<rparr>\<rparr>\<rparr>"

theorem event_limit_reaches_device_witness:
  "\<forall>(E :: nat loopEnv) det own w. \<exists>c ist a now st' w'. loopTick (E\<lparr>leRating := defaultRating\<rparr>) limitedInput
       (loopStart (BSynthetic (NewSynthetic quietScenario 21600000000000 1)) det None own) w = Some (TickRan c ist a now, st', w') \<and>
     ActivePowerW c = Fin 2500 \<and> isActivePowerW ist = Fin 2500"
proof (intro allI)
  fix E :: "nat loopEnv" and det own w
  let ?E = "E\<lparr>leRating := defaultRating\<rparr>" and ?s = "NewSynthetic quietScenario 21600000000000 1"
  let ?st = "loopStart (BSynthetic ?s) det None own" and ?b = "emptyBase\<lparr>OpModMaxLimW := Some 2500\<rparr>"
  let ?noon = "sunrise + 21600000000000"
  have d: "simDelta ?s = 21600000000000" by (simp add: simDelta_def NewSynthetic_def minInt64_def maxInt64_def truncReal_def)
  have irr: "Irradiance ?noon = Fin 1000"
    by (simp add: Irradiance_def hourOf_def minuteOf_def sunrise_def Let_def)
  obtain s' g where r: "syntheticReadState (leRating ?E) ?s = (s', g, Fin 10000, Fin 1000)" "sgrid s' = g" "\<not> ScenarioDone s'"
    using d irr by (simp add: quiet_read NewSynthetic_def quietScenario_def ScenarioDone_def timeSub_def minInt64_def maxInt64_def
        MaxPowerW_def defaultRating_def)
  obtain l lines c where c: "loopControls ?E limitedInput g (Fin 10000) (lsApplier ?st) = Some (l, lines, c)"
    "ActivePowerW c = Fin 2500" "ReactivePowerVAr c = 0"
    by (simp add: loopControls_def commandedBase_def limitedInput_def ActiveControlBase_def applyControl_def emptyBase_def observe_def
        ApplyControlsWithCurves_def applyVoltWatt_def applyFreqDroop_def applyActive_def applyReactive_def startOutputs_def
        zeroOutputs_def ownRatings_def percentFullScale_def defaultRating_def Let_def loopStart_def)
  obtain ist a now st' w' where t: "loopTick ?E limitedInput ?st w = Some (TickRan c ist a now, st', w')"
    using syntheticTick_runs [OF _ r(1,3) c(1), of w] by (auto simp: loopStart_def)
  have cur: "curtailed (snd (backendRead (leRating ?E) (leClock ?E w) (lsDevice ?st))) (leClock ?E w)"
    by (simp add: loopStart_def backendRead_def curtailed_def split: prod.splits)
  have "isActivePowerW ist = Fin 2500"
    using event_limit_reaches_device [OF t, of _ ?b 10000 2500 11100 4400 2500 0] cur c rating_ok_default
    by (auto simp: limitedInput_def emptyBase_def CheckControl_def eventCeiling_def turnsOff_def loopStart_def)
  with t c(2) show "\<exists>c ist a now st' w'. loopTick ?E limitedInput ?st w = Some (TickRan c ist a now, st', w') \<and>
     ActivePowerW c = Fin 2500 \<and> isActivePowerW ist = Fin 2500" by blast
qed

end
