(* ===== verification/AggregatorLoop.thy ===== *)
theory AggregatorLoop
  imports Managed Reserver
begin

text \<open>
  The aggregator's loop (\<open>main.go\<close>, the branches of the operator's signals and of the ticker in the aggregator role) and the
  start of its reservations (\<open>reservation_start.go\<close>). The dispatcher is one object held by the reserver and by the
  fleet: here each holds a copy, and the one that worked hands its copy to the other. What the other goroutines do (the
  sessions of the devices, the guard, the server) comes in as events.
\<close>

section \<open>The state\<close>

record 'h aggregator =
  agFleet :: "'h managedFleet option"
  agReserver :: "reserver option"

abbreviation frqOf :: "simFrq \<Rightarrow> Frq" where
  "frqOf s \<equiv> \<lparr>fqEnergyWh = sfEnergyWh s, fqPowerW = sfPowerW s, fqStartInS = sfStartInS s, fqDurationS = sfDurationS s,
     fqMinLeadS = sfMinLeadS s, AnswerGraceS = sfAnswerGraceS s, PollS = sfPollS s\<rparr>"

definition startReservations :: "string \<Rightarrow> string option \<Rightarrow> string option \<Rightarrow> simFile option \<Rightarrow> 'h managedFleet option \<Rightarrow> 'h aggregator" where
  "startReservations self reqLink respLink sim fleet =
     (case sim of
        None \<Rightarrow> \<lparr>agFleet = fleet, agReserver = None\<rparr>
      | Some f \<Rightarrow>
          (let d = newDispatcher (seconds (TickS (cfDispatch f))) in
           case newReserver self reqLink respLink (frqOf (cfFrq f)) d of
             None \<Rightarrow> \<lparr>agFleet = fleet, agReserver = None\<rparr>
           | Some r \<Rightarrow> \<lparr>agFleet = map_option (setDispatcher d) fleet, agReserver = Some r\<rparr>))"

text \<open>The signals an operator can send; a process that is no aggregator registers for none.\<close>

datatype operatorSignal = SigReserve | SigWithdraw

definition operatorSignals :: "string \<Rightarrow> operatorSignal list" where
  "operatorSignals role = (if \<not> skipDERPipelineForRole role then [] else [SigReserve, SigWithdraw])"

text \<open>The reserver after an operation; the fleet holds the same dispatcher.\<close>

definition putReserver :: "reserver \<Rightarrow> 'h aggregator \<Rightarrow> 'h aggregator" where
  "putReserver r ag = ag\<lparr>agReserver := Some r, agFleet := map_option (setDispatcher (disp r)) (agFleet ag)\<rparr>"

definition putFleet :: "'h managedFleet \<Rightarrow> 'h aggregator \<Rightarrow> 'h aggregator" where
  "putFleet f ag = ag\<lparr>agFleet := Some f,
     agReserver := (case mfDispatch f of None \<Rightarrow> agReserver ag | Some d \<Rightarrow> map_option (onDisp (\<lambda>_. d)) (agReserver ag))\<rparr>"

section \<open>The loop\<close>

text \<open>A branch of the select: its outputs, or \<open>None\<close> for a panic. A signal without a reserver is logged and ignored.\<close>

definition onReserver :: "(reserver \<Rightarrow> 'w World \<Rightarrow> resOut list \<times> reserver \<times> 'w World) \<Rightarrow> 'h aggregator \<Rightarrow> 'w World \<Rightarrow>
    resOut list \<times> 'h aggregator \<times> 'w World" where
  "onReserver f ag w =
     (case agReserver ag of
        None \<Rightarrow> ([], ag, w)
      | Some r \<Rightarrow> (case f r w of (os, r, w) \<Rightarrow> (os, putReserver r ag, w)))"

definition managedTick :: "'w fleetEnv \<Rightarrow> 'h aggregator \<Rightarrow> 'w World \<Rightarrow> ('h aggregator \<times> 'w World) option" where
  "managedTick E ag w =
     (case agFleet ag of
        None \<Rightarrow> Some (ag, w)
      | Some f \<Rightarrow> map_option (\<lambda>(f, w). (putFleet f ag, w)) (fleetTick E f w))"

definition aggregatorTick :: "'w fleetEnv \<Rightarrow> 'w World reservationClient \<Rightarrow> time \<Rightarrow> time \<Rightarrow> 'h aggregator \<Rightarrow> 'w World \<Rightarrow>
    (resOut list \<times> 'h aggregator \<times> 'w World) option" where
  "aggregatorTick E C now1 now ag w =
     map_option (\<lambda>(ag, w). onReserver (Poll C now1 now) ag w) (managedTick E ag w)"

definition withdrawOnSignal :: "'w World reservationClient \<Rightarrow> time \<Rightarrow> 'h aggregator \<Rightarrow> 'w World \<Rightarrow> resOut list \<times> 'h aggregator \<times> 'w World" where
  "withdrawOnSignal C now = onReserver (Withdraw C now)"

definition reserveOnSignal :: "'w World reservationClient \<Rightarrow> frqErr + frqOverlay \<Rightarrow> string option \<Rightarrow> time \<Rightarrow> 'h aggregator \<Rightarrow> 'w World \<Rightarrow>
    resOut list \<times> 'h aggregator \<times> 'w World" where
  "reserveOnSignal C overlay mrid now = onReserver (Trigger C overlay mrid now)"

text \<open>What wakes the loop. \<open>Elsewhere\<close> is the other goroutines at work: sessions and the world change as they like.\<close>

datatype ('h, 'w) aggEvent =
    is_OnReserve: OnReserve "frqErr + frqOverlay" "string option" time
  | OnWithdraw time
  | OnTick time time
  | Elsewhere "'h controlSession option list" "'w World"

fun withSessions :: "'h controlSession option list \<Rightarrow> 'h managedDevice list \<Rightarrow> 'h managedDevice list" where
  "withSessions (s # ss) (md # mds) = md\<lparr>mdCtl := s\<rparr> # withSessions ss mds"
| "withSessions _ mds = mds"

fun aggStep :: "'w fleetEnv \<Rightarrow> 'w World reservationClient \<Rightarrow> ('h, 'w) aggEvent \<Rightarrow> 'h aggregator \<Rightarrow> 'w World \<Rightarrow>
    (resOut list \<times> 'h aggregator \<times> 'w World) option" where
  "aggStep E C (OnReserve overlay mrid now) ag w = Some (reserveOnSignal C overlay mrid now ag w)"
| "aggStep E C (OnWithdraw now) ag w = Some (withdrawOnSignal C now ag w)"
| "aggStep E C (OnTick now1 now) ag w = aggregatorTick E C now1 now ag w"
| "aggStep E C (Elsewhere ss w') ag w =
     Some ([], ag\<lparr>agFleet := map_option (\<lambda>f. f\<lparr>mfDevices := withSessions ss (mfDevices f)\<rparr>) (agFleet ag)\<rparr>, w')"

fun aggRun :: "'w fleetEnv \<Rightarrow> 'w World reservationClient \<Rightarrow> ('h, 'w) aggEvent list \<Rightarrow> 'h aggregator \<Rightarrow> 'w World \<Rightarrow>
    (resOut list \<times> 'h aggregator \<times> 'w World) option" where
  "aggRun E C [] ag w = Some ([], ag, w)"
| "aggRun E C (ev # evs) ag w =
     (case aggStep E C ev ag w of
        None \<Rightarrow> None
      | Some (os, ag, w) \<Rightarrow> map_option (\<lambda>(os', r). (os @ os', r)) (aggRun E C evs ag w))"

section \<open>The loop drives the reserver\<close>

text \<open>Both holders have the same dispatcher, and the reserver is at a state its own runs reach, with the same log.\<close>

definition agg_ok :: "'w World reservationClient \<Rightarrow> resOut list \<Rightarrow> 'h aggregator \<Rightarrow> 'w World \<Rightarrow> bool" where
  "agg_ok C lg ag w \<longleftrightarrow>
     (case agReserver ag of
        None \<Rightarrow> lg = [] \<and> (\<forall>f. agFleet ag = Some f \<longrightarrow> mfDispatch f = None)
      | Some r \<Rightarrow> resRun C r w lg \<and> (\<forall>f. agFleet ag = Some f \<longrightarrow> mfDispatch f = Some (disp r)))"

lemma agg_ok_start:
  assumes "\<forall>f. fleet = Some f \<longrightarrow> mfDispatch f = None"
  shows "agg_ok C [] (startReservations self q p sim fleet) w"
proof (cases "agReserver (startReservations self q p sim fleet)")
  case None
  then have "startReservations self q p sim fleet = \<lparr>agFleet = fleet, agReserver = None\<rparr>"
    by (auto simp: startReservations_def Let_def split: option.splits)
  then show ?thesis using assms by (simp add: agg_ok_def)
next
  case (Some r)
  then obtain f where f: "sim = Some f" by (cases sim) (auto simp: startReservations_def)
  define d where "d = newDispatcher (seconds (TickS (cfDispatch f)))"
  have d: "newReserver self q p (frqOf (cfFrq f)) d = Some r" "d = newDispatcher (seconds (TickS (cfDispatch f)))"
      "startReservations self q p sim fleet = \<lparr>agFleet = map_option (setDispatcher d) fleet, agReserver = Some r\<rparr>"
    using Some unfolding startReservations_def f d_def Let_def by (auto split: option.splits)
  have "disp r = d" using d(1) by (auto simp: newReserver_def split: option.splits)
  then show ?thesis using d resRun.start [OF d(1) [unfolded d(2)], of C w] by (auto simp: agg_ok_def setDispatcher_def)
qed

lemma onReserver_ok:
  assumes "onReserver g ag w = (os, ag', w')" "agg_ok C lg ag w"
    "\<And>r. resRun C r w lg \<Longrightarrow> g r w = (os, the (agReserver ag'), w') \<Longrightarrow> resRun C (the (agReserver ag')) w' (lg @ os)"
  shows "agg_ok C (lg @ os) ag' w'"
  using assms by (auto simp: onReserver_def agg_ok_def putReserver_def setDispatcher_def split: option.splits prod.splits)

lemma fleetTick_dispatch:
  assumes "fleetTick E f w = Some (f', w')"
  shows "\<exists>a. mfDispatch f' = map_option (\<lambda>d. recordAchieved a (snd (dispatchPlan d (Now w (feClock E w)) (batteries f)))) (mfDispatch f)"
proof (cases "mfDispatch f")
  case None
  then show ?thesis using assms by (auto simp: fleetTick_def split: option.splits)
next
  case (Some d)
  obtain plan d' where p: "dispatchPlan d (Now w (feClock E w)) (batteries f) = (plan, d')" by force
  then show ?thesis using assms Some by (auto simp: fleetTick_def split: option.splits)
qed

lemma managedTick_ok:
  assumes "managedTick E ag w = Some (ag', w')" "agg_ok C lg ag w"
  shows "agg_ok C lg ag' w'"
proof (cases "agFleet ag")
  case None
  then show ?thesis using assms by (simp add: managedTick_def)
next
  case (Some f)
  then obtain f' where t: "fleetTick E f w = Some (f', w')" "ag' = putFleet f' ag" using assms(1) by (auto simp: managedTick_def)
  obtain a where d: "mfDispatch f' = map_option (\<lambda>d. recordAchieved a (snd (dispatchPlan d (Now w (feClock E w)) (batteries f)))) (mfDispatch f)"
    using fleetTick_dispatch [OF t(1)] by blast
  show ?thesis
  proof (cases "agReserver ag")
    case None
    then show ?thesis using assms(2) Some d t(2) by (auto simp: agg_ok_def putFleet_def)
  next
    case r: (Some r)
    then have "mfDispatch f = Some (disp r)" "resRun C r w' lg" using assms(2) Some resRun.outside by (auto simp: agg_ok_def)
    then show ?thesis using r t(2) d resRun.dispatch [of C r w' lg a] by (simp add: agg_ok_def putFleet_def onDisp_def)
  qed
qed

lemma aggStep_ok: "aggStep E C ev ag w = Some (os, ag', w') \<Longrightarrow> agg_ok C lg ag w \<Longrightarrow> agg_ok C (lg @ os) ag' w'"
proof (cases ev)
  case (OnReserve ov m now)
  assume "aggStep E C ev ag w = Some (os, ag', w')" "agg_ok C lg ag w"
  then show ?thesis unfolding OnReserve aggStep.simps reserveOnSignal_def option.inject by (rule onReserver_ok) (rule resRun.trigger)
next
  case (OnWithdraw now)
  assume "aggStep E C ev ag w = Some (os, ag', w')" "agg_ok C lg ag w"
  then show ?thesis unfolding OnWithdraw aggStep.simps withdrawOnSignal_def option.inject by (rule onReserver_ok) (rule resRun.withdraw)
next
  case (OnTick now1 now)
  assume a: "aggStep E C ev ag w = Some (os, ag', w')" "agg_ok C lg ag w"
  then obtain ag1 w1 where t: "managedTick E ag w = Some (ag1, w1)" "onReserver (Poll C now1 now) ag1 w1 = (os, ag', w')"
    unfolding OnTick by (auto simp: aggregatorTick_def)
  show ?thesis by (rule onReserver_ok [OF t(2) managedTick_ok [OF t(1) a(2)]]) (rule resRun.poll)
next
  case (Elsewhere ss v)
  assume "aggStep E C ev ag w = Some (os, ag', w')" "agg_ok C lg ag w"
  then show ?thesis unfolding Elsewhere by (auto simp: agg_ok_def split: option.splits intro: resRun.outside)
qed

lemma aggRun_ok: "aggRun E C evs ag w = Some (os, ag', w') \<Longrightarrow> agg_ok C lg ag w \<Longrightarrow> agg_ok C (lg @ os) ag' w'"
proof (induction evs arbitrary: ag w lg os)
  case (Cons ev evs)
  from Cons.prems(1) obtain o1 ag1 w1 o2 where s: "aggStep E C ev ag w = Some (o1, ag1, w1)" "aggRun E C evs ag1 w1 = Some (o2, ag', w')" "os = o1 @ o2"
    by (auto split: option.splits)
  show ?case using Cons.IH [OF s(2) aggStep_ok [OF s(1) Cons.prems(2)]] s(3) by simp
qed simp

section \<open>What reaches the batteries\<close>

lemma dispatchPlan_share:
  assumes "dispatchPlan d now ms = (Some plan, d')" "fleet_ok ms" "terms d = Some t" "gtEnergyWh t = Fin e" "e \<noteq> 0"
    "gtPowerW t = Fin p" "0 \<le> p" "deliveredWh d' = Fin x"
  obtains s where "\<forall>m\<in>set ms. map_of plan (fmKey m) = Some (Fin (- s m)) \<and> 0 \<le> s m * e"
    "\<bar>sum_list (map s ms)\<bar> \<le> p"
proof -
  define sg where "sg = sgn e"
  have sg: "sg * e = \<bar>e\<bar>" "sg = 1 \<or> sg = - 1" using assms(5) by (auto simp: sg_def sgn_if)
  obtain w where w: "fleetTargetW t (Fin x) now (max (minStep d) (lastStep d)) = Fin (sg * w)" "0 \<le> w" "w \<le> p"
    using fleetTarget_spec [OF assms(4,6,7) sg(1) assms(5) sg(2)] by blast
  have f: "fleetTargetW t (deliveredWh d') now (max (minStep d) (lastStep d)) = Fin (sg * w)" using w(1) assms(8) by simp
  let ?s = "share (sg * w) ms"
  have "0 \<le> sum_list (map (headroom (sg * w > 0)) ms)" by (rule sum_list_nonneg) (use headroom_Fin [OF assms(2)] in auto)
  then have "\<bar>sum_list (map ?s ms)\<bar> \<le> \<bar>sg * w\<bar>"
    unfolding share_sum [OF assms(2)] by (auto simp: sgn_if abs_if min_def split: if_splits)
  also have "\<dots> \<le> p" using w sg(2) by auto
  finally have b: "\<bar>sum_list (map ?s ms)\<bar> \<le> p" .
  show thesis
  proof (rule that [OF _ b], intro ballI conjI)
    fix m assume m: "m \<in> set ms"
    show "map_of plan (fmKey m) = Some (Fin (- ?s m))" by (rule plan_lookup [OF assms(1-3) f m])
    have "0 \<le> ?s m * (sg * w)" using share_bounds [OF assms(2) m] by simp
    moreover have "?s m = 0" if "w = 0" using that by (simp add: share_def Let_def)
    ultimately have "0 \<le> ?s m * sg" using w(2) by (cases "w = 0") (simp_all add: mult.assoc [symmetric] zero_le_mult_iff)
    then have "0 \<le> (?s m * sg) * (sg * e)" using sg(1) by simp
    then show "0 \<le> ?s m * e" using sg(2) by auto
  qed
qed

lemma batteries_sum:
  "sum_list (map s (batteries f)) =
     sum_list (map (\<lambda>md. s \<lparr>fmKey = mdLFDI md, fmRatedW = mdRatedW md, up = \<not> mdDown md, fmSoc = soc (mdDev md), knownSOC = True\<rparr>)
       (filter (\<lambda>md. mdKind md = ''battery'' \<and> \<not> sessionActive md) (mfDevices f)))"
  by (simp add: batteries_def comp_def)

section \<open>What stays of a fleet\<close>

lemma withSessions_ident: "map ident (withSessions ss mds) = map ident mds"
  by (induction ss mds rule: withSessions.induct) (simp_all add: ident_def)

definition fleetIdents :: "'h aggregator \<Rightarrow> (string \<times> string \<times> f64) list option" where
  "fleetIdents ag = map_option (\<lambda>f. map ident (mfDevices f)) (agFleet ag)"

lemma onReserver_idents: "onReserver g ag w = (os, ag', w') \<Longrightarrow> fleetIdents ag' = fleetIdents ag"
  by (auto simp: onReserver_def putReserver_def fleetIdents_def setDispatcher_def option.map_comp comp_def split: option.splits prod.splits)

lemma fleetTick_idents: "fleetTick E f w = Some (f', w') \<Longrightarrow> map ident (mfDevices f') = map ident (mfDevices f)"
proof -
  assume t: "fleetTick E f w = Some (f', w')"
  obtain plan disp' where p: "(case mfDispatch f of None \<Rightarrow> (None, None)
      | Some d \<Rightarrow> (case dispatchPlan d (Now w (feClock E w)) (batteries f) of (p, d) \<Rightarrow> (p, Some d))) = (plan, disp')" by force
  obtain mds a v where d: "tickDevices E f plan (mfDevices f) 0 w = Some (mds, a, v)"
    using t p by (auto simp: fleetTick_def split: option.splits)
  then have "mfDevices f' = mds" using t p by (auto simp: fleetTick_def)
  then show ?thesis using tickDevices_ident [OF d] by simp
qed

lemma managedTick_idents: "managedTick E ag w = Some (ag', w') \<Longrightarrow> fleetIdents ag' = fleetIdents ag"
proof (cases "agFleet ag")
  case (Some f)
  assume "managedTick E ag w = Some (ag', w')"
  then obtain f' where t: "fleetTick E f w = Some (f', w')" "ag' = putFleet f' ag" using Some by (auto simp: managedTick_def)
  then show ?thesis using fleetTick_idents [OF t(1)] Some by (simp add: putFleet_def fleetIdents_def)
qed (simp add: managedTick_def)

lemma aggStep_idents: "aggStep E C ev ag w = Some (os, ag', w') \<Longrightarrow> fleetIdents ag' = fleetIdents ag"
  by (cases ev) (auto simp: reserveOnSignal_def withdrawOnSignal_def aggregatorTick_def onReserver_idents managedTick_idents
      fleetIdents_def [of "_\<lparr>agFleet := _\<rparr>"] withSessions_ident option.map_comp comp_def, auto simp: fleetIdents_def)

lemma aggRun_idents: "aggRun E C evs ag w = Some (os, ag', w') \<Longrightarrow> fleetIdents ag' = fleetIdents ag"
proof (induction evs arbitrary: ag w os)
  case (Cons ev evs)
  then show ?case by (auto split: option.splits dest: aggStep_idents)
qed simp

text \<open>A fleet as the resolution of a valid config leaves it: no LFDI twice, ratings that are numbers, no dispatcher yet.\<close>

definition fleetReady :: "'h managedFleet \<Rightarrow> bool" where
  "fleetReady f \<longleftrightarrow> mfDispatch f = None \<and> distinct (map mdLFDI (mfDevices f)) \<and> (\<forall>md\<in>set (mfDevices f). \<exists>r. mdRatedW md = Fin r \<and> 0 \<le> r)"

lemma ident_ready:
  assumes "map ident mds' = map ident mds" "distinct (map mdLFDI mds)" "\<forall>md\<in>set mds. \<exists>r. mdRatedW md = Fin r \<and> 0 \<le> r"
  shows "distinct (map mdLFDI mds')" "\<forall>md\<in>set mds'. \<exists>r. mdRatedW md = Fin r \<and> 0 \<le> r"
proof -
  have "map fst (map ident mds') = map fst (map ident mds)" using assms(1) by simp
  then have "map mdLFDI mds' = map mdLFDI mds" by (simp add: ident_def comp_def)
  then show "distinct (map mdLFDI mds')" using assms(2) by simp
  have "map (snd \<circ> snd) (map ident mds') = map (snd \<circ> snd) (map ident mds)" using assms(1) by simp
  then have "mdRatedW ` set mds' = mdRatedW ` set mds" by (simp add: ident_def comp_def flip: set_map)
  then show "\<forall>md\<in>set mds'. \<exists>r. mdRatedW md = Fin r \<and> 0 \<le> r" using assms(3) by (metis (no_types) image_eqI image_iff)
qed

lemma start_idents: "fleetIdents (startReservations self q p sim fleet) = map_option (\<lambda>f. map ident (mfDevices f)) fleet"
  by (auto simp: fleetIdents_def startReservations_def setDispatcher_def option.map_comp comp_def Let_def split: option.splits)

text \<open>Whether a device takes part in a reservation: a battery whose session has no event of its own.\<close>

abbreviation dispatched :: "'h managedDevice \<Rightarrow> bool" where
  "dispatched md \<equiv> mdKind md = ''battery'' \<and> \<not> sessionActive md"

lemma plan_controls:
  assumes "distinct (map mdLFDI (mfDevices f))" "md \<in> set (mfDevices f)" "dispatchPlan d now (batteries f) = (Some plan, d')"
  shows "if dispatched md
    then \<exists>x. map_of plan (mdLFDI md) = Some x \<and> deviceControls E (Some plan) grid mx (md\<lparr>mdDev := dv\<rparr>) =
      map_option (\<lambda>(l, c). (l, c\<lparr>ActivePowerW := x\<rparr>)) (deviceControls E None grid mx (md\<lparr>mdDev := dv\<rparr>))
    else deviceControls E (Some plan) grid mx (md\<lparr>mdDev := dv\<rparr>) = deviceControls E None grid mx (md\<lparr>mdDev := dv\<rparr>)"
proof -
  have i: "inj_on mdLFDI (set (mfDevices f))" using assms(1) by (simp add: distinct_map)
  have "(map_of plan (mdLFDI md) = None) \<longleftrightarrow> \<not> dispatched md"
    using plan_covers [OF assms(3) distinct_batteries [OF assms(1)], of "mdLFDI md"] assms(2) inj_onD [OF i]
    unfolding batteries_keys by blast
  then show ?thesis by (auto simp: deviceControls_def mdRatings_def Let_def split: option.splits prod.splits)
qed

text \<open>The request behind a plan of the loop.\<close>

lemma planned_request:
  assumes "agg_ok C lg ag w" "agFleet ag = Some f" "mfDispatch f = Some d" "dispatchPlan d now ms = (Some plan, d')"
  obtains r i en pw t e' p' where "agReserver ag = Some r" "newestPost lg = Some i" "cur r = Some i" "OutPut i True \<notin> set lg"
    "\<not> crDone (store r ! i)" "rfEnergyWh (factsOf (crReq (store r ! i))) = Fin en" "rfPowerW (factsOf (crReq (store r ! i))) = Fin pw"
    "rfStart (factsOf (crReq (store r ! i))) \<le> now" "now < rfEnd (factsOf (crReq (store r ! i)))"
    "terms d = Some t" "gtEnergyWh t = Fin e'" "e' \<noteq> 0" "0 \<le> e' * en" "en \<noteq> 0" "gtPowerW t = Fin p'" "0 \<le> p'" "p' \<le> pw"
proof -
  obtain r where r: "agReserver ag = Some r" "resRun C r w lg" "d = disp r"
    using assms(1-3) by (auto simp: agg_ok_def split: option.splits)
  obtain t where t: "terms d = Some t" "gtStart t \<le> now" "now < gtEnd t" by (rule dispatchPlan_elim [OF assms(4)])
  have I: "store_ok lg r" "grant_ok r" using resRun_inv [OF r(2)] by (simp_all add: res_inv_def)
  obtain i en pw where g: "cur r = Some i" "\<not> withdrawn (req r i)" "\<not> crDone (req r i)"
    "rfEnergyWh (crFacts (req r i)) = Fin en" "rfPowerW (crFacts (req r i)) = Fin pw" "terms_within (crFacts (req r i)) en pw t"
    using grant_ok_cur [OF I(2)] t(1) r(3) by blast
  have i: "i < length (store r)" "crFacts (store r ! i) = factsOf (crReq (store r ! i))" "agrees lg (store r)"
    using I(1) g(1) by (auto simp: store_ok_def facts_ok_def)
  have n: "newestPost lg = Some i"
    using resRun_follows [OF r(2)] g(1) i(1) by (auto simp: follows_newest_def newestPost_def split: if_splits)
  have "count_list lg (OutPut i True) = 0" using i(1,3) g(2) by (simp add: agrees_def req_def)
  then have o: "OutPut i True \<notin> set lg" by (simp add: count_list_0_iff)
  obtain e' p' where tw: "gtEnergyWh t = Fin e'" "e' \<noteq> 0" "0 \<le> e' * en" "en \<noteq> 0" "gtPowerW t = Fin p'" "0 \<le> p'" "p' \<le> pw"
    using g(6) by (force simp: terms_within_def zero_le_mult_iff)
  have w: "rfStart (factsOf (crReq (store r ! i))) \<le> now" "now < rfEnd (factsOf (crReq (store r ! i)))"
    using g(6) t(2,3) i(2) by (auto simp: terms_within_def req_def)
  show thesis by (rule that [OF r(1) n g(1) o _ _ _ w t(1) tw]) (use g(3-5) i(2) in \<open>simp_all add: req_def\<close>)
qed

text \<open>How a plan is shared among the devices of a fleet.\<close>

lemma fleet_shares:
  assumes "distinct (map mdLFDI (mfDevices f))" "\<forall>md\<in>set (mfDevices f). \<exists>r. mdRatedW md = Fin r \<and> 0 \<le> r"
    "dispatchPlan d now (batteries f) = (Some plan, d')" "terms d = Some t" "gtEnergyWh t = Fin e'" "e' \<noteq> 0" "gtPowerW t = Fin p'" "0 \<le> p'"
    "deliveredWh d' = Fin x"
  obtains s where "\<bar>sum_list (map s (filter dispatched (mfDevices f)))\<bar> \<le> p'"
    "\<And>md grid mx dv. md \<in> set (mfDevices f) \<Longrightarrow> 0 \<le> s md * e' \<and> deviceControls E (Some plan) grid mx (md\<lparr>mdDev := dv\<rparr>) =
       (if dispatched md then map_option (\<lambda>(l, c). (l, c\<lparr>ActivePowerW := Fin (- s md)\<rparr>)) (deviceControls E None grid mx (md\<lparr>mdDev := dv\<rparr>))
        else deviceControls E None grid mx (md\<lparr>mdDev := dv\<rparr>))"
proof -
  have fo: "fleet_ok (batteries f)"
    unfolding fleet_ok_def using distinct_batteries [OF assms(1)] assms(2) by (auto simp: batteries_def)
  obtain s where s: "\<forall>m\<in>set (batteries f). map_of plan (fmKey m) = Some (Fin (- s m)) \<and> 0 \<le> s m * e'"
      "\<bar>sum_list (map s (batteries f))\<bar> \<le> p'"
    by (rule dispatchPlan_share [OF assms(3) fo assms(4-9)])
  let ?m = "\<lambda>md. \<lparr>fmKey = mdLFDI md, fmRatedW = mdRatedW md, up = \<not> mdDown md, fmSoc = soc (mdDev md), knownSOC = True\<rparr>"
  let ?s = "\<lambda>md. if dispatched md then s (?m md) else 0"
  have "sum_list (map ?s (filter dispatched (mfDevices f))) = sum_list (map s (batteries f))"
    unfolding batteries_sum by (intro arg_cong [of _ _ sum_list] map_cong) auto
  then have b: "\<bar>sum_list (map ?s (filter dispatched (mfDevices f)))\<bar> \<le> p'" using s(2) by simp
  show thesis
  proof (rule that [OF b])
    fix md grid mx dv
    assume md: "md \<in> set (mfDevices f)"
    show "0 \<le> ?s md * e' \<and> deviceControls E (Some plan) grid mx (md\<lparr>mdDev := dv\<rparr>) =
       (if dispatched md then map_option (\<lambda>(l, c). (l, c\<lparr>ActivePowerW := Fin (- ?s md)\<rparr>)) (deviceControls E None grid mx (md\<lparr>mdDev := dv\<rparr>))
        else deviceControls E None grid mx (md\<lparr>mdDev := dv\<rparr>))"
    proof (cases "dispatched md")
      case True
      then have "?m md \<in> set (batteries f)" using md by (auto simp: batteries_def)
      from bspec [OF s(1) this] have "map_of plan (mdLFDI md) = Some (Fin (- s (?m md)))" "0 \<le> s (?m md) * e'" by simp_all
      then show ?thesis using True plan_controls [OF assms(1) md assms(3), of E grid mx dv] by auto
    next
      case False
      then show ?thesis using plan_controls [OF assms(1) md assms(3), of E grid mx dv] by auto
    qed
  qed
qed

text \<open>What one tick does to the backend of a device: it writes the device's own control, or that control with a power put over
  it.\<close>

definition writesPower :: "'w fleetEnv \<Rightarrow> real option \<Rightarrow> 'h managedDevice \<Rightarrow> 'h managedDevice \<Rightarrow> bool" where
  "writesPower E charging md md' \<longleftrightarrow>
     (\<exists>w dev grid mx l c st. replayReadState (mdDev md) (feClock E w) = (dev, grid, mx) \<and>
        deviceControls E None grid mx (md\<lparr>mdDev := dev\<rparr>) = Some (l, c) \<and>
        replayApplySetpoint (feRating E) dev (feClock E w)
          (case charging of None \<Rightarrow> c | Some s \<Rightarrow> c\<lparr>ActivePowerW := Fin (- s)\<rparr>) = (mdDev md', st))"

lemma ticked_writes:
  assumes "ticked E f (Some plan) md md'"
    "\<And>grid mx dv. deviceControls E (Some plan) grid mx (md\<lparr>mdDev := dv\<rparr>) =
       (if P then map_option (\<lambda>(l, c). (l, c\<lparr>ActivePowerW := Fin (- s)\<rparr>)) (deviceControls E None grid mx (md\<lparr>mdDev := dv\<rparr>))
        else deviceControls E None grid mx (md\<lparr>mdDev := dv\<rparr>))"
  shows "writesPower E (if P then Some s else None) md md'"
proof -
  obtain w p w' where "tickDevice E f (Some plan) md w = Some (md', p, w')" using assms(1) by (auto simp: ticked_def)
  then show ?thesis
  proof (rule tickDevice_parts)
    fix dev grid mx l c dev' st
    assume t: "replayReadState (mdDev md) (feClock E w) = (dev, grid, mx)"
      "deviceControls E (Some plan) grid mx (md\<lparr>mdDev := dev\<rparr>) = Some (l, c)"
      "replayApplySetpoint (feRating E) dev (feClock E w) c = (dev', st)"
      "stays (md\<lparr>mdDev := dev', mdApplier := l, mdDown := False\<rparr>) md'"
    obtain c0 where "deviceControls E None grid mx (md\<lparr>mdDev := dev\<rparr>) = Some (l, c0)"
      "c = (if P then c0\<lparr>ActivePowerW := Fin (- s)\<rparr> else c0)"
      using t(2) assms(2) [of grid mx dev] by (auto split: if_splits)
    moreover have "mdDev md' = dev'" using t(4) by (simp add: stays_def)
    ultimately show ?thesis using t(1,3) unfolding writesPower_def
      by (intro exI [of _ w] exI [of _ dev] exI [of _ grid] exI [of _ mx] exI [of _ l] exI [of _ c0] exI [of _ st]) (simp split: if_splits)
  qed
qed

lemma fleetTick_ticked:
  assumes "fleetTick E f w = Some (f', w')" "mfDispatch f = Some d" "dispatchPlan d (Now w (feClock E w)) (batteries f) = (plan, d')"
  shows "list_all2 (ticked E f plan) (mfDevices f) (mfDevices f')"
proof -
  obtain mds a v where t: "tickDevices E f plan (mfDevices f) 0 w = Some (mds, a, v)" "mfDevices f' = mds"
    using assms by (auto simp: fleetTick_def split: option.splits)
  then show ?thesis using tickDevices_ticked [OF t(1)] by simp
qed

lemma aggTick_fleet:
  assumes "aggStep E C (OnTick now1 now) ag w = Some (os, ag', w')" "agFleet ag = Some f"
  obtains f1 f' w1 where "fleetTick E f w = Some (f1, w1)" "agFleet ag' = Some f'" "mfDevices f' = mfDevices f1"
proof -
  obtain f1 w1 where t: "fleetTick E f w = Some (f1, w1)" "onReserver (Poll C now1 now) (putFleet f1 ag) w1 = (os, ag', w')"
    using assms by (auto simp: aggregatorTick_def managedTick_def)
  have "\<exists>f'. agFleet ag' = Some f' \<and> mfDevices f' = mfDevices f1"
    using t(2) by (auto simp: onReserver_def putReserver_def putFleet_def setDispatcher_def split: option.splits prod.splits)
  then show thesis using that t(1) by blast
qed

text \<open>The fleet of a run keeps its devices.\<close>

lemma run_ready:
  assumes "aggRun E C evs (startReservations self q p sim fleet) w0 = Some (lg, ag, w)" "\<forall>f. fleet = Some f \<longrightarrow> fleetReady f"
    "agFleet ag = Some f"
  shows "agg_ok C lg ag w" "distinct (map mdLFDI (mfDevices f))" "\<forall>md\<in>set (mfDevices f). \<exists>r. mdRatedW md = Fin r \<and> 0 \<le> r"
proof -
  have "\<forall>f. fleet = Some f \<longrightarrow> mfDispatch f = None" using assms(2) by (simp add: fleetReady_def)
  then show "agg_ok C lg ag w" using aggRun_ok [OF assms(1) agg_ok_start] by simp
  have "fleetIdents ag = map_option (\<lambda>f. map ident (mfDevices f)) fleet" using aggRun_idents [OF assms(1)] start_idents by simp
  then obtain f0 where f0: "fleet = Some f0" "map ident (mfDevices f) = map ident (mfDevices f0)"
    using assms(3) by (cases fleet) (auto simp: fleetIdents_def)
  have "fleetReady f0" using assms(2) f0(1) by simp
  then have "distinct (map mdLFDI (mfDevices f0))" "\<forall>md\<in>set (mfDevices f0). \<exists>r. mdRatedW md = Fin r \<and> 0 \<le> r"
    by (simp_all add: fleetReady_def)
  from ident_ready [OF f0(2) this]
  show "distinct (map mdLFDI (mfDevices f))" "\<forall>md\<in>set (mfDevices f). \<exists>r. mdRatedW md = Fin r \<and> 0 \<le> r" .
qed

text \<open>C35: What a reservation does to the fleet, from the signal to the device. When a tick of an aggregator's loop runs while
  its dispatcher plans under a grant, there is a request behind it: the newest the server accepted, not withdrawn, not
  finished, in whose window the tick falls. The tick writes to the backend of every device: a battery without an event of
  its own gets its own control with a power put over it, in the direction of that request; every other device gets exactly
  its own control, as it would without the plan; and the powers are together no more than the request asked for. (As long
  as the energy counted so far is a number.)
\<close>

theorem grant_reaches_batteries:
  assumes "aggRun E C evs (startReservations self q p sim fleet) w0 = Some (lg, ag, w)"
    "\<forall>f. fleet = Some f \<longrightarrow> fleetReady f"
    "aggStep E C (OnTick now1 now) ag w = Some (os, ag', w')"
    "agFleet ag = Some f" "mfDispatch f = Some d" "dispatchPlan d (Now w (feClock E w)) (batteries f) = (Some plan, d')"
    "deliveredWh d' = Fin x"
  shows "\<exists>r i en pw s f'. agReserver ag = Some r \<and> newestPost lg = Some i \<and> cur r = Some i \<and> OutPut i True \<notin> set lg \<and>
    \<not> crDone (store r ! i) \<and> rfEnergyWh (factsOf (crReq (store r ! i))) = Fin en \<and> rfPowerW (factsOf (crReq (store r ! i))) = Fin pw \<and>
    rfStart (factsOf (crReq (store r ! i))) \<le> Now w (feClock E w) \<and> Now w (feClock E w) < rfEnd (factsOf (crReq (store r ! i))) \<and>
    agFleet ag' = Some f' \<and>
    list_all2 (\<lambda>md md'. 0 \<le> s md * en \<and> writesPower E (if dispatched md then Some (s md) else None) md md') (mfDevices f) (mfDevices f') \<and>
    \<bar>sum_list (map s (filter dispatched (mfDevices f)))\<bar> \<le> pw"
proof -
  note R = run_ready [OF assms(1,2,4)]
  obtain r i en pw t e' p' where g: "agReserver ag = Some r" "newestPost lg = Some i" "cur r = Some i" "OutPut i True \<notin> set lg"
    "\<not> crDone (store r ! i)" "rfEnergyWh (factsOf (crReq (store r ! i))) = Fin en" "rfPowerW (factsOf (crReq (store r ! i))) = Fin pw"
    "rfStart (factsOf (crReq (store r ! i))) \<le> Now w (feClock E w)" "Now w (feClock E w) < rfEnd (factsOf (crReq (store r ! i)))"
    and t: "terms d = Some t" "gtEnergyWh t = Fin e'" "e' \<noteq> 0" "0 \<le> e' * en" "en \<noteq> 0" "gtPowerW t = Fin p'" "0 \<le> p'" "p' \<le> pw"
    by (rule planned_request [OF R(1) assms(4-6)])
  obtain s where s: "\<bar>sum_list (map s (filter dispatched (mfDevices f)))\<bar> \<le> p'"
    "\<And>md grid mx dv. md \<in> set (mfDevices f) \<Longrightarrow> 0 \<le> s md * e' \<and> deviceControls E (Some plan) grid mx (md\<lparr>mdDev := dv\<rparr>) =
       (if dispatched md then map_option (\<lambda>(l, c). (l, c\<lparr>ActivePowerW := Fin (- s md)\<rparr>)) (deviceControls E None grid mx (md\<lparr>mdDev := dv\<rparr>))
        else deviceControls E None grid mx (md\<lparr>mdDev := dv\<rparr>))"
    by (rule fleet_shares [OF R(2,3) assms(6) t(1-3,6,7) assms(7)]) blast
  obtain f1 f' w1 where f': "fleetTick E f w = Some (f1, w1)" "agFleet ag' = Some f'" "mfDevices f' = mfDevices f1"
    by (rule aggTick_fleet [OF assms(3,4)])
  have "list_all2 (ticked E f (Some plan)) (mfDevices f) (mfDevices f')"
    using fleetTick_ticked [OF f'(1) assms(5,6)] f'(3) by simp
  then have "list_all2 (\<lambda>md md'. 0 \<le> s md * en \<and> writesPower E (if dispatched md then Some (s md) else None) md md') (mfDevices f) (mfDevices f')"
  proof (rule list.rel_mono_strong)
    fix md md'
    assume m: "md \<in> set (mfDevices f)" and k: "ticked E f (Some plan) md md'"
    have "0 \<le> s md * e'" using s(2) [OF m] by blast
    then have "0 \<le> s md * en" using t(3-5) by (auto simp: zero_le_mult_iff)
    moreover have "writesPower E (if dispatched md then Some (s md) else None) md md'"
      by (rule ticked_writes [OF k]) (use s(2) [OF m] in blast)
    ultimately show "0 \<le> s md * en \<and> writesPower E (if dispatched md then Some (s md) else None) md md'" ..
  qed
  moreover have "\<bar>sum_list (map s (filter dispatched (mfDevices f)))\<bar> \<le> pw" using s(1) t(8) by simp
  ultimately show ?thesis using g f'(2) by blast
qed

section \<open>The operator's withdrawal\<close>

text \<open>Without a new request the reserver follows the one it followed.\<close>

definition followed :: "'h aggregator \<Rightarrow> nat option" where
  "followed ag = (case agReserver ag of None \<Rightarrow> None | Some r \<Rightarrow> cur r)"

lemma onReserver_followed:
  assumes "onReserver g ag w = (os, ag', w')" "\<And>r r' os' v. g r w = (os', r', v) \<Longrightarrow> cur r' = cur r"
  shows "followed ag' = followed ag"
proof (cases "agReserver ag")
  case (Some r)
  obtain o1 r1 w1 where g: "g r w = (o1, r1, w1)" by (rule prod_cases3, erule that)
  have "cur r1 = cur r" by (rule assms(2) [OF g])
  then show ?thesis using assms(1) Some g by (auto simp: onReserver_def putReserver_def followed_def)
qed (use assms(1) in \<open>simp add: onReserver_def\<close>)

lemma managedTick_followed: "managedTick E ag w = Some (ag', w') \<Longrightarrow> followed ag' = followed ag"
  by (auto simp: managedTick_def followed_def putFleet_def onDisp_def split: option.splits)

lemma aggStep_followed:
  assumes "aggStep E C ev ag w = Some (os, ag', w')" "\<not> is_OnReserve ev"
  shows "followed ag' = followed ag"
proof (cases ev)
  case (OnWithdraw now)
  then have o: "onReserver (Withdraw C now) ag w = (os, ag', w')" using assms(1) by (simp add: withdrawOnSignal_def)
  show ?thesis by (rule onReserver_followed [OF o]) (rule keepsCur_cur(1))
next
  case (OnTick now1 now)
  then obtain ag1 w1 where t: "managedTick E ag w = Some (ag1, w1)" "onReserver (Poll C now1 now) ag1 w1 = (os, ag', w')"
    using assms(1) by (auto simp: aggregatorTick_def)
  have "followed ag' = followed ag1" by (rule onReserver_followed [OF t(2)]) (rule keepsCur_cur(2))
  then show ?thesis using managedTick_followed [OF t(1)] by simp
next
  case (Elsewhere ss v)
  then show ?thesis using assms(1) by (auto simp: followed_def)
qed (use assms(2) in simp)

lemma aggRun_followed:
  "aggRun E C evs ag w = Some (os, ag', w') \<Longrightarrow> \<forall>ev\<in>set evs. \<not> is_OnReserve ev \<Longrightarrow> followed ag' = followed ag"
proof (induction evs arbitrary: ag w os)
  case (Cons ev evs)
  from Cons.prems(1) obtain o1 ag1 w1 o2 where s: "aggStep E C ev ag w = Some (o1, ag1, w1)" "aggRun E C evs ag1 w1 = Some (o2, ag', w')"
    by (auto split: option.splits)
  show ?case using Cons.IH [OF s(2)] aggStep_followed [OF s(1)] Cons.prems(2) by simp
qed simp

lemma Withdraw_accepts: "Withdraw C now r w = (os, r', w') \<Longrightarrow> OutPut i True \<in> set os \<Longrightarrow> cur r = Some i"
  by (auto simp: Withdraw_def withdrawReq_def Let_def split: if_splits prod.splits option.splits)

text \<open>C36: The operator's withdrawal holds: once the server has accepted the withdrawal sent on the operator's signal, no
  tick plans for the batteries, whatever the server answers to later reads and whatever the sessions do, until
  the operator asks for a new reservation.
\<close>

theorem withdrawal_stops_dispatch:
  assumes "aggRun E C evs (startReservations self q p sim fleet) w0 = Some (lg, ag, w)"
    "\<forall>f. fleet = Some f \<longrightarrow> mfDispatch f = None"
    "aggStep E C (OnWithdraw t) ag w = Some (os, ag1, w1)" "OutPut i True \<in> set os"
    "aggRun E C evs' ag1 w1 = Some (lg', ag', w')" "\<forall>ev\<in>set evs'. \<not> is_OnReserve ev"
    "agFleet ag' = Some f" "mfDispatch f = Some d"
  shows "fst (dispatchPlan d now (batteries f)) = None"
proof -
  have ok1: "agg_ok C (lg @ os) ag1 w1"
    by (rule aggStep_ok [OF assms(3) aggRun_ok [OF assms(1) agg_ok_start [OF assms(2)], simplified]])
  have ok: "agg_ok C ((lg @ os) @ lg') ag' w'" by (rule aggRun_ok [OF assms(5) ok1])
  obtain r0 r1 v where r0: "agReserver ag = Some r0" "Withdraw C t r0 w = (os, r1, v)"
    using assms(3,4) by (auto simp: withdrawOnSignal_def onReserver_def split: option.splits prod.splits)
  have "followed ag = Some i" using Withdraw_accepts [OF r0(2) assms(4)] r0(1) by (simp add: followed_def)
  moreover have "followed ag1 = followed ag" by (rule aggStep_followed [OF assms(3)]) simp
  ultimately have f: "followed ag' = Some i" using aggRun_followed [OF assms(5,6)] by simp
  then obtain r where r: "agReserver ag' = Some r" "cur r = Some i" by (auto simp: followed_def split: option.splits)
  then have d: "d = disp r" "resRun C r w' ((lg @ os) @ lg')" using ok assms(7,8) by (auto simp: agg_ok_def)
  have I: "store_ok ((lg @ os) @ lg') r" "grant_ok r" using resRun_inv [OF d(2)] by (simp_all add: res_inv_def)
  have "OutPut i True \<in> set ((lg @ os) @ lg')" using assms(4) by simp
  then have "count_list ((lg @ os) @ lg') (OutPut i True) \<noteq> 0" by (simp only: count_list_0_iff not_not)
  then have "withdrawn (store r ! i)" using I(1) by (auto simp: store_ok_def agrees_def split: if_splits)
  then have "terms d = None" using grant_ok_cur [OF I(2)] r(2) d(1) by (cases "terms d") (auto simp: req_def)
  then show ?thesis by (auto simp: dispatchPlan_def accountStep_def Let_def)
qed

section \<open>Examples\<close>

text \<open>The server of the reserver's example, over the world of the client.\<close>

definition worldRes :: "nat World reservationClient" where
  "worldRes = \<lparr>rcPost = (\<lambda>h q w. (Inr ''/frq/1'', w)), rcGet = (\<lambda>h w. (Inr \<lparr>AllCount = 1, frlResponses = [demoAnswer]\<rparr>, w)),
     rcAck = (\<lambda>h a w. (None, w)), rcPut = (\<lambda>h q w. (None, w))\<rparr>"

definition demoSim :: simFile where
  "demoSim = zeroFile\<lparr>cfFrq := \<lparr>sfEnergyWh = Fin (- 2500), sfPowerW = Fin 50000, sfStartInS = 300, sfDurationS = 3600, sfMinLeadS = 60,
     sfPollS = 10, sfAnswerGraceS = 30, sfRequestFile = []\<rparr>, cfDispatch := \<lparr>TickS = 1\<rparr>\<rparr>"

definition demoAgg :: "nat aggregator" where
  "demoAgg = startReservations ''S'' (Some ''/frq'') (Some ''/frp'') (Some demoSim) (Some demoManagedFleet)"

lemma demoAgg_simps: "demoAgg = \<lparr>agFleet = Some (setDispatcher (newDispatcher 1000000000) demoManagedFleet), agReserver = Some demoReserver\<rparr>"
  by (simp add: demoAgg_def startReservations_def demoSim_def newReserver_def demoReserver_def demoFrq_def seconds_id Let_def)

definition demoFollowing' :: reserver where
  "demoFollowing' = demoReserver\<lparr>store := [demoFollowed False], cur := Some 0, nextPoll := 1000000000\<rparr>"

lemma world_trigger: "Trigger worldRes (Inr noOverlay) (Some ''q'') 1000000000 demoReserver w = ([OutPost 0 True], demoFollowing', w)"
proof -
  have "settingsOf (rCfg demoReserver) = demoSettings" by (simp add: settingsOf_def demoReserver_def demoFrq_def demoSettings_def)
  then show ?thesis using demo_build
    by (simp add: Trigger_def applyOverlay_def noOverlay_def demoReserver_def worldRes_def demoFollowed_def onDisp_def dispReset_def
        newDispatcher_def demoFollowing'_def Let_def)
qed

lemma fleetReady_demo: "\<forall>f. Some demoManagedFleet = Some f \<longrightarrow> fleetReady f"
  by (simp add: fleetReady_def demoManagedFleet_def demoManagedDevice_def)

lemma world_poll:
  "\<exists>os. Poll worldRes 2000000000 2000000000 (demoFollowing'\<lparr>disp := d\<rparr>) w =
     (os, demoGranted\<lparr>disp := setGrant (Some (crTerms (demoFollowed True))) d\<rparr>, w) \<and> OutPut 0 True \<notin> set os"
proof -
  let ?r = "demoReserver\<lparr>disp := d, store := [demoFollowed False], cur := Some 0, nextPoll := 12000000000\<rparr>"
  have j: "judge [demoAnswer] ''q'' (factsOf demoReq) 30000000000 2000000000 = (answerGranted, crTerms (demoFollowed True))"
    by (simp add: judge_def firstAnswer_def effectiveResponse_def liveStatus_def demoAnswer_def demo_facts demoFollowed_def readGrant_def
        clipNotes_def direction_def scaled_def pow10_def unixTime_def seconds_id Let_def)
  let ?r2 = "demoGranted\<lparr>disp := setGrant (Some (crTerms (demoFollowed True))) d, store := [(demoFollowed True)\<lparr>acked := []\<rparr>]\<rparr>"
  have f: "followAnswer 0 [demoAnswer] 2000000000 ?r = ([LogAnswer 0 answerGranted (crTerms (demoFollowed True)) ''r''], ?r2)"
    using j by (simp add: followAnswer_def req_def demoFollowed_def demoReserver_def demoFrq_def grace_def seconds_id logChange_def logClip_def
        updReq_def onDisp_def demoGranted_def dispatches_def Let_def)
  have a: "acknowledgeAll worldRes 0 [demoAnswer] 2000000000 ?r2 w =
      ([OutAck 0 ''r'' True], demoGranted\<lparr>disp := setGrant (Some (crTerms (demoFollowed True))) d\<rparr>, w)"
    by (simp add: acknowledge_def demoAnswer_def demoGranted_def demoFollowed_def req_def updReq_def worldRes_def responseRequiredReceived_def
        demoReserver_def Let_def)
  have "retryWithdrawals worldRes 2000000000 (demoFollowing'\<lparr>disp := d\<rparr>) w = ([], demoFollowing'\<lparr>disp := d\<rparr>, w)"
    by (simp add: retryWithdrawals_def demoReserver_def demoFollowing'_def)
  then show ?thesis
    using f a by (simp add: Poll_def req_def demoFollowed_def demo_facts demoReserver_def demoFollowing'_def demoFrq_def grace_def seconds_id
        worldRes_def Let_def)
qed

lemma tickDevices_returns: "\<forall>md\<in>set mds. mdCtl md = None \<Longrightarrow> \<exists>mds' a' w'. tickDevices E f plan mds a w = Some (mds', a', w')"
proof (induction mds arbitrary: a w)
  case (Cons md mds)
  obtain md' p w' where "tickDevice E f plan md w = Some (md', p, w')" using tickDevice_returns [of md E f plan w] Cons.prems by auto
  moreover obtain mds' a' w'' where "tickDevices E f plan mds (if mdKind md' = ''battery'' then a + p else a) w' = Some (mds', a', w'')"
    using Cons by fastforce
  ultimately show ?case by simp
qed simp

text \<open>A tick of a fleet without sessions, under the dispatcher \<open>d\<close>.\<close>

lemma fleetTick_free:
  assumes "\<forall>md\<in>set (mfDevices f). mdCtl md = None" "mfDispatch f = Some d"
  shows "\<exists>f' a w'. fleetTick E f w = Some (f', w') \<and> (\<forall>md\<in>set (mfDevices f'). mdCtl md = None) \<and>
    mfDispatch f' = Some (recordAchieved a (snd (dispatchPlan d (Now w (feClock E w)) (batteries f))))"
proof -
  obtain plan d' where p: "dispatchPlan d (Now w (feClock E w)) (batteries f) = (plan, d')" by force
  obtain mds a w' where t: "tickDevices E f plan (mfDevices f) 0 w = Some (mds, a, w')" using tickDevices_returns [OF assms(1)] by blast
  have "map mdCtl mds = map mdCtl (mfDevices f)" using tickDevices_ident [OF t] by simp
  then have "mdCtl ` set mds = mdCtl ` set (mfDevices f)" by (metis list.set_map)
  then have "\<forall>md\<in>set mds. mdCtl md = None" using assms(1) by (metis (no_types) image_eqI image_iff)
  then show ?thesis using p t assms(2) by (simp add: fleetTick_def) blast
qed

abbreviation demoEvents :: "(nat, nat) aggEvent list" where
  "demoEvents \<equiv> [OnReserve (Inr noOverlay) (Some ''q'') 1000000000, OnTick 2000000000 2000000000]"

lemma free_plan: "terms d = None \<Longrightarrow> terms (snd (dispatchPlan d now ms)) = None \<and> deliveredWh (snd (dispatchPlan d now ms)) = deliveredWh d \<and>
    \<not> prevInside (snd (dispatchPlan d now ms))"
  by (simp add: dispatchPlan_def accountStep_def Let_def)

lemma demo_agg_run:
  obtains lg ag w f d where "aggRun demoFleetEnv worldRes demoEvents demoAgg demoWorld = Some (lg, ag, w)" "OutPut 0 True \<notin> set lg"
    "agFleet ag = Some f" "\<forall>md\<in>set (mfDevices f). mdCtl md = None" "mfDispatch f = Some d" "agReserver ag = Some (demoGranted\<lparr>disp := d\<rparr>)"
    "terms d = Some (crTerms (demoFollowed True))" "deliveredWh d = 0" "\<not> prevInside d"
proof -
  let ?f = "setDispatcher (newDispatcher 1000000000) demoManagedFleet" and ?d = "newDispatcher 1000000000"
  let ?ag = "\<lparr>agFleet = Some ?f, agReserver = Some demoFollowing'\<rparr>"
  have r: "reserveOnSignal worldRes (Inr noOverlay) (Some ''q'') 1000000000 demoAgg demoWorld = ([OutPost 0 True], ?ag, demoWorld)"
    unfolding reserveOnSignal_def onReserver_def demoAgg_simps
    by (simp add: world_trigger) (simp add: putReserver_def setDispatcher_def demoFollowing'_def demoReserver_def)
  have c: "\<forall>md\<in>set (mfDevices ?f). mdCtl md = None" "mfDispatch ?f = Some ?d"
    by (simp_all add: setDispatcher_def demoManagedFleet_def demoManagedDevice_def)
  obtain f a w where t: "fleetTick demoFleetEnv ?f demoWorld = Some (f, w)" "\<forall>md\<in>set (mfDevices f). mdCtl md = None"
      "mfDispatch f = Some (recordAchieved a (snd (dispatchPlan ?d (Now demoWorld (feClock demoFleetEnv demoWorld)) (batteries ?f))))"
    using fleetTick_free [OF c, of demoFleetEnv demoWorld] by blast
  define e where "e = recordAchieved a (snd (dispatchPlan ?d (Now demoWorld (feClock demoFleetEnv demoWorld)) (batteries ?f)))"
  have e: "terms e = None" "deliveredWh e = 0" "\<not> prevInside e"
    using free_plan [of ?d] by (simp_all add: e_def recordAchieved_def newDispatcher_def)
  let ?g = "setGrant (Some (crTerms (demoFollowed True))) e"
  obtain os where p: "Poll worldRes 2000000000 2000000000 (demoFollowing'\<lparr>disp := e\<rparr>) w = (os, demoGranted\<lparr>disp := ?g\<rparr>, w)" "OutPut 0 True \<notin> set os"
    using world_poll by blast
  have m: "managedTick demoFleetEnv ?ag demoWorld = Some (\<lparr>agFleet = Some f, agReserver = Some (demoFollowing'\<lparr>disp := e\<rparr>)\<rparr>, w)"
    using t e_def by (simp add: managedTick_def putFleet_def onDisp_def)
  let ?ag' = "\<lparr>agFleet = Some (setDispatcher ?g f), agReserver = Some (demoGranted\<lparr>disp := ?g\<rparr>)\<rparr>"
  have "aggregatorTick demoFleetEnv worldRes 2000000000 2000000000 ?ag demoWorld = Some (os, ?ag', w)"
    using m p(1) by (simp add: aggregatorTick_def onReserver_def putReserver_def)
  then have "aggRun demoFleetEnv worldRes demoEvents demoAgg demoWorld = Some ([OutPost 0 True] @ os @ [], ?ag', w)"
    using r by simp
  then show thesis
    by (rule that [of _ _ _ "setDispatcher ?g f" ?g]) (use p(2) t(2) e in \<open>simp_all add: setDispatcher_def setGrant_def\<close>)
qed

lemma aggRun_append:
  "aggRun E C evs ag w = Some (os, ag1, w1) \<Longrightarrow> aggStep E C ev ag1 w1 = Some (os', ag', w') \<Longrightarrow>
     aggRun E C (evs @ [ev]) ag w = Some (os @ os', ag', w')"
  by (induction evs arbitrary: ag w os) (auto split: option.splits)

text \<open>The clock of the server reaches the window of the grant.\<close>

definition demoLater :: "nat World" where
  "demoLater = demoWorld\<lparr>serverTimeOffset := 202000000000\<rparr>"

lemma demoLater_now: "Now demoLater (feClock demoFleetEnv demoLater) = 302000000000"
  by (simp add: Now_def demoLater_def demoFleetEnv_def)

theorem grant_reaches_batteries_witness:
  "\<exists>lg ag f os ag' w' f' r s en. aggRun demoFleetEnv worldRes (demoEvents @ [Elsewhere [] demoLater]) demoAgg demoWorld = Some (lg, ag, demoLater) \<and>
     agFleet ag = Some f \<and> agReserver ag = Some r \<and> cur r = Some 0 \<and> OutPut 0 True \<notin> set lg \<and>
     aggStep demoFleetEnv worldRes (OnTick 302000000000 302000000000) ag demoLater = Some (os, ag', w') \<and> agFleet ag' = Some f' \<and>
     list_all2 (\<lambda>md md'. 0 \<le> s md * en \<and> writesPower demoFleetEnv (if dispatched md then Some (s md) else None) md md') (mfDevices f) (mfDevices f')"
proof -
  obtain lg ag w f d where r: "aggRun demoFleetEnv worldRes demoEvents demoAgg demoWorld = Some (lg, ag, w)" "agFleet ag = Some f"
    "\<forall>md\<in>set (mfDevices f). mdCtl md = None" "mfDispatch f = Some d" "agReserver ag = Some (demoGranted\<lparr>disp := d\<rparr>)"
    "terms d = Some (crTerms (demoFollowed True))" "deliveredWh d = 0" "\<not> prevInside d"
    using demo_agg_run by metis
  have "aggStep demoFleetEnv worldRes (Elsewhere [] demoLater) ag w = Some ([], ag, demoLater)" using r(2) by simp
  from aggRun_append [OF r(1) this]
  have run: "aggRun demoFleetEnv worldRes (demoEvents @ [Elsewhere [] demoLater]) demoAgg demoWorld = Some (lg, ag, demoLater)" by simp
  obtain plan d' where p: "dispatchPlan d (Now demoLater (feClock demoFleetEnv demoLater)) (batteries f) = (Some plan, d')" "deliveredWh d' = Fin 0"
    unfolding demoLater_now using r(6-8) by (simp add: dispatchPlan_def accountStep_def demoFollowed_def Let_def)
  obtain f1 w1 where "fleetTick demoFleetEnv f demoLater = Some (f1, w1)" using fleetTick_free [OF r(3,4)] by blast
  then obtain os ag' w' where s: "aggStep demoFleetEnv worldRes (OnTick 302000000000 302000000000) ag demoLater = Some (os, ag', w')"
    using r(2) by (simp add: aggregatorTick_def managedTick_def) (metis prod_cases3)
  have c: "cur (demoGranted\<lparr>disp := d\<rparr>) = Some 0" by (simp add: demoGranted_def)
  from grant_reaches_batteries [OF run [unfolded demoAgg_def] fleetReady_demo s r(2,4) p] run r(2,5) s c show ?thesis
    by (auto simp: demoAgg_def)
qed

theorem withdrawal_stops_dispatch_witness:
  "\<exists>lg ag w os ag1 w1 lg' ag' w' f d. aggRun demoFleetEnv worldRes demoEvents demoAgg demoWorld = Some (lg, ag, w) \<and>
     aggStep demoFleetEnv worldRes (OnWithdraw 3000000000) ag w = Some (os, ag1, w1) \<and> OutPut 0 True \<in> set os \<and>
     aggRun demoFleetEnv worldRes [OnTick 303000000000 303000000000] ag1 w1 = Some (lg', ag', w') \<and>
     agFleet ag' = Some f \<and> mfDispatch f = Some d \<and> fst (dispatchPlan d 304000000000 (batteries f)) = None"
proof -
  obtain lg ag w f d where r: "aggRun demoFleetEnv worldRes demoEvents demoAgg demoWorld = Some (lg, ag, w)"
    "agFleet ag = Some f" "\<forall>md\<in>set (mfDevices f). mdCtl md = None" "agReserver ag = Some (demoGranted\<lparr>disp := d\<rparr>)"
    using demo_agg_run by metis
  obtain r1 where a: "Withdraw worldRes 3000000000 (demoGranted\<lparr>disp := d\<rparr>) w = ([OutPut 0 True], r1, w)"
    by (simp add: Withdraw_def withdrawReq_def req_def demoGranted_def demoFollowed_def worldRes_def Let_def)
  let ?f1 = "setDispatcher (disp r1) f"
  have s: "aggStep demoFleetEnv worldRes (OnWithdraw 3000000000) ag w = Some ([OutPut 0 True], putReserver r1 ag, w)"
    using r(4) a by (simp add: withdrawOnSignal_def onReserver_def)
  have "\<forall>md\<in>set (mfDevices ?f1). mdCtl md = None" "mfDispatch ?f1 = Some (disp r1)" using r(3) by (simp_all add: setDispatcher_def)
  then obtain f2 w2 where t: "fleetTick demoFleetEnv ?f1 w = Some (f2, w2)" using fleetTick_free by blast
  have m: "managedTick demoFleetEnv (putReserver r1 ag) w = Some (putFleet f2 (putReserver r1 ag), w2)"
    using t r(2) by (simp add: managedTick_def putReserver_def)
  obtain lg' ag' w' where n: "aggRun demoFleetEnv worldRes [OnTick 303000000000 303000000000] (putReserver r1 ag) w = Some (lg', ag', w')"
    using m by (simp add: aggregatorTick_def) (metis prod_cases3)
  have "agReserver (putFleet f2 (putReserver r1 ag)) \<noteq> None" by (simp add: putFleet_def putReserver_def split: option.splits)
  then obtain f3 d3 where f3: "agFleet ag' = Some f3" "mfDispatch f3 = Some d3"
    using n m by (auto simp: aggregatorTick_def onReserver_def putReserver_def putFleet_def setDispatcher_def split: option.splits prod.splits)
  have "fst (dispatchPlan d3 304000000000 (batteries f3)) = None"
    by (rule withdrawal_stops_dispatch [OF r(1) [unfolded demoAgg_def] _ s _ n _ f3]) (simp_all add: demoManagedFleet_def)
  then show ?thesis using r(1) s n f3 by force
qed

end
