(* ===== verification/Requests.thy ===== *)
theory Requests
  imports Managed Notify
begin

text \<open>
  Which requests a call sends. \<open>emits M w w'\<close> says that what went out from \<open>w\<close> to \<open>w'\<close> has only methods of \<open>M\<close>; the locale
  proves it of every read of the client and of the start-up phases once, for any \<open>M\<close> that has GET, and the second one, for a
  client that may also POST, of registration, subscriptions and mirrors.
\<close>

definition emits :: "string set \<Rightarrow> 'w World \<Rightarrow> 'w World \<Rightarrow> bool" where
  "emits M w w' \<longleftrightarrow> (\<exists>rqs. sent w' = sent w @ rqs \<and> (\<forall>rq\<in>set rqs. rqMethod rq \<in> M))"

lemma emits_refl [simp, intro]: "emits M w w"
  by (simp add: emits_def)

lemma emits_trans: "emits M w w' \<Longrightarrow> emits M w' w'' \<Longrightarrow> emits M w w''"
  by (auto simp: emits_def)

lemma emits_sent: "sent w' = sent w \<Longrightarrow> emits M w w'"
  by (simp add: emits_def)

lemma emits_offset: "emits M w (w'\<lparr>serverTimeOffset := t\<rparr>) = emits M w w'"
  by (simp add: emits_def)

lemma emits_mono: "emits M w w' \<Longrightarrow> M \<subseteq> N \<Longrightarrow> emits N w w'"
  by (auto simp: emits_def)

lemma exchange_emits: "exchange c ctx m kind data w w' rqs \<Longrightarrow> m \<in> M \<Longrightarrow> emits M w w'"
  by (auto simp: exchange_def emits_def)

locale reader =
  fixes M :: "string set"
  assumes gets: "MethodGet \<in> M"
begin

lemma Get_emits: "Get c ctx kind path dec w = (r, w') \<Longrightarrow> emits M w w'"
  using Get_exchange [of c ctx kind w path dec] by (auto intro: exchange_emits gets)

lemma getPaged_emits: "getPaged c ctx what wrap dec href w = (r, w') \<Longrightarrow> emits M w w'"
  by (auto simp: getPaged_def split: if_splits prod.splits sum.splits dest: Get_emits)

lemma Discover_emits: "Discover c ctx dec w = (r, w') \<Longrightarrow> emits M w w'"
  by (auto simp: Discover_def split: prod.splits sum.splits dest: Get_emits)

lemma WaitForAdvertisedLinks_emits: "WaitForAdvertisedLinks c ctx dec ts d w = Some (r, ws, w') \<Longrightarrow> emits M w w'"
proof (induction ts arbitrary: d w r ws)
  case Nil
  then show ?case by (subst (asm) WaitForAdvertisedLinks.simps) (auto split: if_splits)
next
  case (Cons t ts)
  from Cons.prems show ?case
    by (subst (asm) WaitForAdvertisedLinks.simps)
      (auto split: if_splits prod.splits sum.splits option.splits dest!: Cons.IH Discover_emits intro: emits_trans)
qed

lemma SyncServerTime_emits: "SyncServerTime c ctx dec href t w = (r, w') \<Longrightarrow> emits M w w'"
  by (auto simp: SyncServerTime_def GetServerTime_def emits_offset split: if_splits prod.splits sum.splits dest: Get_emits)

lemma runPhase1bTimeSync_emits: "runPhase1bTimeSync c ctx dec dcap t w = (r, b, w') \<Longrightarrow> emits M w w'"
  by (auto simp: runPhase1bTimeSync_def split: option.splits prod.splits sum.splits dest: SyncServerTime_emits)

lemma LookupOwnEndDevice_emits: "LookupOwnEndDevice c ctx dec href w = (r, h, w') \<Longrightarrow> emits M w w'"
  by (auto simp: LookupOwnEndDevice_def split: prod.splits sum.splits option.splits dest: getPaged_emits)

lemma lookupUntilListed_emits: "lookupUntilListed c ctx D dcap href ts w = Some (r, h, ws, w') \<Longrightarrow> emits M w w'"
proof (induction ts arbitrary: href w r h ws)
  case Nil
  then show ?case
    by (subst (asm) lookupUntilListed.simps) (auto simp: Let_def split: if_splits prod.splits sum.splits dest!: LookupOwnEndDevice_emits)
next
  case (Cons t ts)
  from Cons.prems show ?case
    by (subst (asm) lookupUntilListed.simps)
      (auto simp: Let_def split: if_splits prod.splits sum.splits option.splits dest!: Cons.IH LookupOwnEndDevice_emits intro: emits_trans)
qed

lemma awaitRegistrationLink_emits: "awaitRegistrationLink c ctx D dcap ts href ed w = Some (r, ed', rest, ws, w') \<Longrightarrow> emits M w w'"
proof (induction ts arbitrary: href ed w r ed' rest ws)
  case Nil
  then show ?case by (subst (asm) awaitRegistrationLink.simps) (auto simp: Let_def split: option.splits)
next
  case (Cons t ts)
  from Cons.prems show ?case
    by (subst (asm) awaitRegistrationLink.simps)
      (auto simp: Let_def split: if_splits prod.splits sum.splits option.splits dest!: Cons.IH LookupOwnEndDevice_emits intro: emits_trans)
qed

lemma GetRegistration_emits: "GetRegistration c ctx dec href w = (r, w') \<Longrightarrow> emits M w w'"
  by (auto simp: GetRegistration_def split: if_splits prod.splits sum.splits dest: Get_emits)

lemma matchPIN_emits: "matchPIN c ctx D pin href ts w = Some (r, ws, w') \<Longrightarrow> emits M w w'"
proof (induction ts arbitrary: w r ws)
  case Nil
  then show ?case by (subst (asm) matchPIN.simps) (auto split: if_splits prod.splits sum.splits dest!: GetRegistration_emits)
next
  case (Cons t ts)
  from Cons.prems show ?case
    by (subst (asm) matchPIN.simps)
      (auto simp: Let_def split: if_splits prod.splits sum.splits option.splits dest!: Cons.IH GetRegistration_emits intro: emits_trans)
qed

lemma runPhase2bRegistration_emits: "runPhase2bRegistration c ctx D ed href cfg dcap ts w = Some (r, ed', ws, w') \<Longrightarrow> emits M w w'"
  by (auto simp: runPhase2bRegistration_def split: if_splits option.splits sum.splits dest!: awaitRegistrationLink_emits matchPIN_emits intro: emits_trans)

lemma fetchFSAList_emits: "fetchFSAList c ctx D cfg dcap href ts w = Some (r, h, ws, w') \<Longrightarrow> emits M w w'"
proof (induction ts arbitrary: href w r h ws)
  case Nil
  then show ?case
    by (subst (asm) fetchFSAList.simps) (auto simp: Let_def GetFSAList_def split: if_splits prod.splits sum.splits dest!: getPaged_emits)
next
  case (Cons t ts)
  from Cons.prems show ?case
    by (subst (asm) fetchFSAList.simps)
      (auto simp: Let_def GetFSAList_def split: if_splits prod.splits sum.splits option.splits dest!: Cons.IH getPaged_emits intro: emits_trans)
qed

lemma runPhase2cFSAList_emits: "runPhase2cFSAList c ctx D ed cfg dcap ts w = Some (r, ed', ws, w') \<Longrightarrow> emits M w w'"
  by (auto simp: runPhase2cFSAList_def split: option.splits dest: fetchFSAList_emits)

lemma GetDefaultDERControl_emits: "GetDefaultDERControl c ctx dec href w = (r, w') \<Longrightarrow> emits M w w'"
  by (auto simp: GetDefaultDERControl_def split: if_splits prod.splits sum.splits dest: Get_emits)

lemma readDefault_emits: "readDefault c ctx D l p w = (r, w') \<Longrightarrow> emits M w w'"
  by (auto simp: readDefault_def split: option.splits prod.splits sum.splits dest: GetDefaultDERControl_emits)

lemma readControls_emits: "readControls c ctx D p w = (r, w') \<Longrightarrow> emits M w w'"
  by (auto simp: readControls_def GetDERControlList_def split: option.splits prod.splits sum.splits dest: getPaged_emits)

lemma readCurves_emits: "readCurves c ctx D l p w = (r, w') \<Longrightarrow> emits M w w'"
  by (auto simp: readCurves_def GetDERCurveList_def split: option.splits prod.splits sum.splits dest: getPaged_emits)

lemma walkProgram_emits: "walkProgram c ctx D l p w = (r, w') \<Longrightarrow> emits M w w'"
  by (auto simp: walkProgram_def split: option.splits prod.splits dest!: readDefault_emits readControls_emits readCurves_emits intro: emits_trans)

lemma walkProgramList_emits: "walkProgramList c ctx D l ps acc w = (r, acc', w') \<Longrightarrow> emits M w w'"
proof (induction ps arbitrary: acc w)
  case (Cons p ps)
  from Cons.prems show ?case
    by (cases acc) (auto split: prod.splits sum.splits bool.splits dest!: Cons.IH walkProgram_emits intro: emits_trans)
qed simp

lemma walkDERProgramTreeOpts_emits: "walkDERProgramTreeOpts c ctx D l fs acc w = (r, acc', w') \<Longrightarrow> emits M w w'"
proof (induction fs arbitrary: acc w)
  case (Cons f fs)
  from Cons.prems show ?case
    by (auto simp: GetDERProgramList_def split: option.splits prod.splits sum.splits dest!: Cons.IH walkProgramList_emits getPaged_emits intro: emits_trans)
qed simp

lemma runPhase2cDERProgramWalkOpts_emits: "runPhase2cDERProgramWalkOpts c ctx D fsas cfg dcap l ts w = Some (r, bad, ws, w') \<Longrightarrow> emits M w w'"
proof (induction ts arbitrary: w r bad ws)
  case Nil
  then show ?case
    by (subst (asm) runPhase2cDERProgramWalkOpts.simps)
      (auto simp: Let_def split: if_splits prod.splits option.splits dest!: walkDERProgramTreeOpts_emits)
next
  case (Cons t ts)
  from Cons.prems show ?case
    by (subst (asm) runPhase2cDERProgramWalkOpts.simps)
      (auto simp: Let_def split: if_splits prod.splits option.splits dest!: Cons.IH walkDERProgramTreeOpts_emits intro: emits_trans)
qed

lemma runPhase2cDERProgramWalk_emits: "runPhase2cDERProgramWalk c ctx D fsas cfg dcap ts w = Some (r, ws, w') \<Longrightarrow> emits M w w'"
  by (auto simp: runPhase2cDERProgramWalk_def dest: runPhase2cDERProgramWalkOpts_emits)

lemma fetchDERListForSetup_emits: "fetchDERListForSetup c ctx dec href w = (r, w') \<Longrightarrow> emits M w w'"
  by (auto simp: fetchDERListForSetup_def split: prod.splits sum.splits dest: Get_emits)

end

locale poster = reader +
  assumes posts: "MethodPost \<in> M"
begin

lemma Post_emits: "Post c ctx kind path b w = (r, w') \<Longrightarrow> emits M w w'"
proof (cases b)
  case None
  then show "Post c ctx kind path b w = (r, w') \<Longrightarrow> emits M w w'"
    using Post_None [of c ctx kind path w] by (auto intro: emits_sent)
next
  case (Some d)
  then show "Post c ctx kind path b w = (r, w') \<Longrightarrow> emits M w w'"
    using Post_exchange [of c ctx kind d w path] by (auto intro: exchange_emits posts)
qed

lemma Register_emits: "Register c ctx enc dec href w = (r, h, w') \<Longrightarrow> emits M w w'"
  by (auto simp: Register_def Let_def split: if_splits prod.splits sum.splits dest!: Post_emits Get_emits intro: emits_trans)

lemma acquireEndDevice_emits: "acquireEndDevice c ctx D enc dec l dcap ts w = Some (r, h, ws, w') \<Longrightarrow> emits M w w'"
  by (auto simp: acquireEndDevice_def Let_def split: if_splits prod.splits sum.splits dest: lookupUntilListed_emits Register_emits)

lemma subscribeTargets_emits: "subscribeTargets c ctx enc lh url hs out w = (r, w') \<Longrightarrow> emits M w w'"
proof (induction hs arbitrary: out w)
  case (Cons h hs)
  have p: "emits M w w1" if "PostSubscription c ctx enc lh h url w = (x, w1)" for x w1
    using that by (auto simp: PostSubscription_def split: if_splits prod.splits sum.splits dest: Post_emits)
  from Cons.prems show ?case by (auto split: prod.splits sum.splits if_splits dest!: Cons.IH p intro: emits_trans)
qed simp

lemma registerSubscriptions_emits: "registerSubscriptions c ctx enc ed url w = (r, w') \<Longrightarrow> emits M w w'"
  by (auto simp: registerSubscriptions_def Let_def split: if_splits dest: subscribeTargets_emits)

lemma CreateMirrorUsagePoint_emits: "CreateMirrorUsagePoint c ctx enc h l m w = (r, w') \<Longrightarrow> emits M w w'"
  by (auto simp: CreateMirrorUsagePoint_def Let_def split: if_splits prod.splits sum.splits dest: Post_emits)

lemma postMirrorUsagePoint_emits: "postMirrorUsagePoint En c ctx h l w = (r, w') \<Longrightarrow> emits M w w'"
  by (auto simp: postMirrorUsagePoint_def Let_def split: if_splits prod.splits sum.splits dest: CreateMirrorUsagePoint_emits)

lemma runPhase4Metering_emits: "runPhase4Metering En c ctx dcap h w = (r, w') \<Longrightarrow> emits M w w'"
  by (auto simp: runPhase4Metering_def createOwnMirror_def split: option.splits prod.splits sum.splits dest: postMirrorUsagePoint_emits)

lemma tryMirror_emits: "tryMirror E md w = (md', w') \<Longrightarrow> emits M w w'"
  by (auto simp: tryMirror_def postMirror_def split: if_splits prod.splits sum.splits option.splits bool.splits dest: postMirrorUsagePoint_emits)

lemma startManagedDevice_emits: "startManagedDevice E pt pf files dcap m i w = (r, w') \<Longrightarrow> emits M w w'"
  by (auto simp: startManagedDevice_def Let_def split: prod.splits sum.splits option.splits dest: tryMirror_emits)

lemma startDevices_emits: "startDevices E pt pf files mk dcap list i ms w = (r, w') \<Longrightarrow> emits M w w'"
proof (induction ms arbitrary: r w)
  case (Cons m ms)
  from Cons.prems show ?case
    by (auto simp: Let_def split: prod.splits sum.splits dest!: Cons.IH startManagedDevice_emits intro: emits_trans)
qed simp

lemma startManagedForRole_emits: "startManagedForRole E pt pf files mk dec dcap href sim i w = (r, w') \<Longrightarrow> emits M w w'"
proof -
  have i: "emits M w1 w2" if "emits M (installManaged ls w1) w2" for w1 w2 ls using that by (simp add: emits_def installManaged_def)
  have s: "startManaged E pt pf files mk dec dcap href ms i w = (x, w1) \<Longrightarrow> emits M w w1" for ms x w1
    by (auto simp: startManaged_def GetEndDeviceList_def Let_def split: option.splits prod.splits sum.splits
        dest!: getPaged_emits startDevices_emits dest: i intro: emits_trans)
  show "startManagedForRole E pt pf files mk dec dcap href sim i w = (r, w') \<Longrightarrow> emits M w w'"
    by (auto simp: startManagedForRole_def split: option.splits if_splits prod.splits sum.splits dest: s)
qed

end

locale writer = poster +
  assumes puts: "MethodPut \<in> M"
begin

lemma Put_emits: "Put c ctx kind path b w = (r, w') \<Longrightarrow> emits M w w'"
proof (cases b)
  case None
  then show "Put c ctx kind path b w = (r, w') \<Longrightarrow> emits M w w'"
    by (auto simp: Put_def guarded_cases Let_def split: if_splits intro!: emits_sent)
next
  case (Some d)
  then show "Put c ctx kind path b w = (r, w') \<Longrightarrow> emits M w w'"
    using Put_exchange [of c ctx kind d w path] by (auto intro: exchange_emits puts)
qed

lemma putDER_emits: "putDER c ctx what href body w = (r, w') \<Longrightarrow> emits M w w'"
  by (auto simp: putDER_def split: if_splits prod.splits sum.splits dest: Put_emits)

end

interpretation only_gets: reader "{MethodGet}"
  by unfold_locales simp

interpretation gets_posts: poster "{MethodGet, MethodPost}"
  by unfold_locales simp_all

interpretation all_methods: writer UNIV
  by unfold_locales simp_all

end
