(* ===== verification/Startup.thy ===== *)
theory Startup
  imports AggregatorLoop SimMode Requests
begin

text \<open>
  The start of the program (\<open>main.go\<close>): the sidecar fleets and the one shutdown of every later exit
  (\<open>fleet_start.go\<close>), then the phases up to the simulation loop, in \<open>main\<close>'s order. A phase is a function of the
  world that goes on with a value or stops the process, loudly (exit status 1) or quietly; \<open>None\<close> is a phase still
  waiting when its timers are used up. The listeners, flags and log lines are left out.
\<close>

section \<open>Fleets and the shutdown\<close>

text \<open>
  The answers of the fleets' first starts in the order they arrive, and whether the signal context has ended by the time a
  refusal is reported. All the answers are waited for, \<open>None\<close> is a start that still waits for one. The stops of all
  fleets run side by side; the order of the list does not matter.
\<close>

datatype fleetAct = FleetRun string | FleetStop string

datatype fleetStartErr = FleetRefused startErr | FleetSignal

definition startFleets :: "string list \<Rightarrow> startErr option list \<Rightarrow> bool \<Rightarrow> (fleetAct list \<times> fleetStartErr option) option" where
  "startFleets fleets outcomes ctxDone =
     (if fleets = [] then Some ([], None)
      else if length outcomes < length fleets then None
      else
        (case find (\<lambda>e. e \<noteq> None) (take (length fleets) outcomes) of
           Some (Some e) \<Rightarrow>
             Some (map FleetRun fleets @ map FleetStop fleets, Some (if ctxDone then FleetSignal else FleetRefused e))
         | _ \<Rightarrow> Some (map FleetRun fleets, None)))"

text \<open>\<open>shutdownOnce\<close>: the receiver first, then every fleet.\<close>

datatype exitAct = StopReceiverAct | StopFleetAct string

record shutdownState =
  sdDone :: bool
  sdReceiver :: bool
  sdFleets :: "string list"

definition shutdown :: "shutdownState \<Rightarrow> exitAct list \<times> shutdownState" where
  "shutdown s =
     (if sdDone s then ([], s)
      else ((if sdReceiver s then [StopReceiverAct] else []) @ map StopFleetAct (sdFleets s), s\<lparr>sdDone := True\<rparr>))"

text \<open>\<open>fatalf\<close> shuts down and exits with status 1; a \<open>return\<close> of \<open>main\<close> runs the deferred shutdown.\<close>

definition fatalf :: "shutdownState \<Rightarrow> exitAct list \<times> nat" where
  "fatalf s = (fst (shutdown s), 1)"

definition mainReturn :: "shutdownState \<Rightarrow> exitAct list \<times> nat" where
  "mainReturn s = (fst (shutdown s), 0)"

section \<open>Phases\<close>

datatype startFailure =
    FailDiscover httpErr
  | FailWait httpErr
  | FailPhase phaseErr
  | FailReporter
  | FailManaged managedErr

text \<open>\<open>fatalf\<close>, an ordinary return of \<open>main\<close>, or a plain \<open>log.Fatalf\<close>, which skips the shutdown.\<close>

datatype stop = StopFatal startFailure | StopQuiet | StopAbort

type_synonym ('w, 'a) startPhase = "'w World \<Rightarrow> ((stop + 'a) \<times> 'w World) option"

definition andThen :: "('w, 'a) startPhase \<Rightarrow> ('a \<Rightarrow> ('w, 'b) startPhase) \<Rightarrow> ('w, 'b) startPhase" where
  "andThen p k w =
     (case p w of
        None \<Rightarrow> None
      | Some (Inl s, w) \<Rightarrow> Some (Inl s, w)
      | Some (Inr a, w) \<Rightarrow> k a w)"

definition goOn :: "'a \<Rightarrow> ('w, 'a) startPhase" where
  "goOn a w = Some (Inr a, w)"

text \<open>The end of the context ends the process quietly; every other failure of a phase is fatal.\<close>

definition stopOf :: "phaseErr \<Rightarrow> stop" where
  "stopOf e = (case e of CtxDone _ \<Rightarrow> StopQuiet | _ \<Rightarrow> StopFatal (FailPhase e))"

record ownCapability =
  ocMaxW :: int
  ocMaxVar :: int
  ocModes :: "32 word"
  ocType :: nat

text \<open>A rating on the wire; \<open>None\<close> is a rating that does not fit, fatal before any listener binds.\<close>

definition ratingInt16 :: "f64 \<Rightarrow> int option" where
  "ratingInt16 w = (if w > Fin 32767 \<or> w < Fin (- 32768) then None else Some (int16 (toInt64 w)))"

record 'w startEnv =
  stClient :: "'w Client"
  stCtx :: Ctx
  stDec :: decoders
  stDecDcap :: "string \<Rightarrow> DeviceCapability option"
  stDecTime :: "string \<Rightarrow> int option"
  stDecEdev :: "string \<Rightarrow> EndDevice option"
  stDecDERs :: "string \<Rightarrow> derResource list option"
  stEncEdev :: "EndDevice \<Rightarrow> string option"
  stEncSubscription :: "Subscription \<Rightarrow> string option"
  stEncCapability :: "ownCapability \<Rightarrow> string option"
  stEncSettings :: "int \<Rightarrow> int \<Rightarrow> string option"
  stEnc :: encoders
  stCfg :: phaseCfg
  stRole :: string
  stNotifyURL :: string
  stClock :: "'w clock"
  stMaxW :: int
  stMaxVar :: int

text \<open>Phase 1.\<close>

definition discovery :: "'w startEnv \<Rightarrow> timers \<Rightarrow> ('w, DeviceCapability) startPhase" where
  "discovery E timers w =
     (case Discover (stClient E) (stCtx E) (stDecDcap E) w of
        (Inl e, w) \<Rightarrow> Some (Inl (StopFatal (FailDiscover e)), w)
      | (Inr d, w) \<Rightarrow>
          (case WaitForAdvertisedLinks (stClient E) (stCtx E) (stDecDcap E) timers d w of
             None \<Rightarrow> None
           | Some ((d, Some e), _, w) \<Rightarrow> Some (Inl (StopFatal (FailWait e)), w)
           | Some ((d, None), _, w) \<Rightarrow> Some (Inr d, w)))"

text \<open>Phase 1b; \<open>now\<close> is the clock once the answer is parsed.\<close>

definition timePhase :: "'w startEnv \<Rightarrow> DeviceCapability \<Rightarrow> time \<Rightarrow> ('w, unit) startPhase" where
  "timePhase E dcap now w =
     (case runPhase1bTimeSync (stClient E) (stCtx E) (stDecTime E) dcap now w of
        (Some e, _, w) \<Rightarrow> Some (Inl StopQuiet, w)
      | (None, _, w) \<Rightarrow> Some (Inr (), w))"

text \<open>Phase 2: the own EndDevice and the href of its list.\<close>

definition acquirePhase :: "'w startEnv \<Rightarrow> DeviceCapability \<Rightarrow> timers \<Rightarrow> ('w, EndDevice \<times> string) startPhase" where
  "acquirePhase E dcap timers w =
     (case acquireEndDevice (stClient E) (stCtx E) (stDec E) (stEncEdev E) (stDecEdev E)
         (endDeviceAcquisitionUsesLookup (CSIP (stCfg E)) (stRole E)) dcap timers w of
        None \<Rightarrow> None
      | Some (Inl e, _, _, w) \<Rightarrow> Some (Inl (stopOf e), w)
      | Some (Inr ed, href, _, w) \<Rightarrow> Some (Inr (ed, href), w))"

text \<open>Phase 2b.\<close>

definition registrationPhase :: "'w startEnv \<Rightarrow> EndDevice \<Rightarrow> string \<Rightarrow> DeviceCapability \<Rightarrow> timers \<Rightarrow> ('w, EndDevice) startPhase" where
  "registrationPhase E ed href dcap timers w =
     (case runPhase2bRegistration (stClient E) (stCtx E) (stDec E) ed href (stCfg E) dcap timers w of
        None \<Rightarrow> None
      | Some (Some e, _, _, w) \<Rightarrow> Some (Inl (stopOf e), w)
      | Some (None, ed, _, w) \<Rightarrow> Some (Inr ed, w))"

definition subscribePhase :: "'w startEnv \<Rightarrow> EndDevice \<Rightarrow> ('w, registry) startPhase" where
  "subscribePhase E ed w =
     (case registerSubscriptions (stClient E) (stCtx E) (stEncSubscription E) ed (stNotifyURL E) w of (r, w) \<Rightarrow> Some (Inr r, w))"

text \<open>Phase 2c: the assignments, the programs, the selection and its default control.\<close>

definition assignmentsPhase :: "'w startEnv \<Rightarrow> EndDevice \<Rightarrow> DeviceCapability \<Rightarrow> timers \<Rightarrow> ('w, FunctionSetAssignments list \<times> EndDevice) startPhase" where
  "assignmentsPhase E ed dcap timers w =
     (case runPhase2cFSAList (stClient E) (stCtx E) (stDec E) ed (stCfg E) dcap timers w of
        None \<Rightarrow> None
      | Some (Inl e, _, _, w) \<Rightarrow> Some (Inl (stopOf e), w)
      | Some (Inr fsas, ed, _, w) \<Rightarrow> Some (Inr (fsas, ed), w))"

definition programsPhase :: "'w startEnv \<Rightarrow> FunctionSetAssignments list \<Rightarrow> DeviceCapability \<Rightarrow> timers \<Rightarrow> ('w, programMap) startPhase" where
  "programsPhase E fsas dcap timers w =
     (if fsas = [] then Some (Inr [], w)
      else
        (case runPhase2cDERProgramWalk (stClient E) (stCtx E) (stDec E) fsas (stCfg E) dcap timers w of
           None \<Rightarrow> None
         | Some (Inl e, _, w) \<Rightarrow> Some (Inl (stopOf e), w)
         | Some (Inr progs, _, w) \<Rightarrow> Some (Inr progs, w)))"

definition defaultPhase :: "'w startEnv \<Rightarrow> DERProgram option \<Rightarrow> ('w, DefaultDERControl option) startPhase" where
  "defaultPhase E selected w =
     (let href = (case selected of None \<Rightarrow> [] | Some p \<Rightarrow> listHref (DefaultDERControlLink p)) in
      if href = [] then Some (Inr None, w)
      else
        (case GetDefaultDERControl (stClient E) (stCtx E) (decDefaultControl (stDec E)) href w of
           (Inl e, w) \<Rightarrow> Some (Inr None, w)
         | (Inr (d, _), w) \<Rightarrow> Some (Inr (Some d), w)))"

text \<open>
  Phase 5's wiring: the control list that is polled and ticked, the curve list read when an event starts, and whether the
  transitions are answered.
\<close>

definition sessionWiring :: "string \<Rightarrow> DERProgram option \<Rightarrow> string option \<times> string option \<times> bool" where
  "sessionWiring role selected =
     (case selected of
        Some p \<Rightarrow>
          if runDERSessionForRole role True then (DERControlListLink p, DERCurveListLink p, True) else (None, None, False)
      | None \<Rightarrow> (None, None, False))"

text \<open>The curves of the program are read when an event starts, and only then; a failed read keeps the cache.\<close>

definition FetchProgramCurves :: "'w Client \<Rightarrow> Ctx \<Rightarrow> (string \<Rightarrow> DERCurve list option) \<Rightarrow> string \<Rightarrow> DERCurveCache option \<Rightarrow> 'w World \<Rightarrow>
    (httpErr curveFetchErr + DERCurveCache) \<times> 'w World" where
  "FetchProgramCurves c ctx dec href cache w =
     (if href = [] then (Inl ErrListHrefRequired, w)
      else
        (case cache of
           None \<Rightarrow> (Inl ErrCacheRequired, w)
         | Some cc \<Rightarrow>
             (case GetDERCurveList c ctx dec href w of (r, w) \<Rightarrow> (fetchProgramCurves (\<lambda>_. r) href (Some cc), w))))"

definition curveHook :: "'w Client \<Rightarrow> Ctx \<Rightarrow> (string \<Rightarrow> DERCurve list option) \<Rightarrow> string \<Rightarrow> EventState \<Rightarrow> EventState \<Rightarrow> DERCurveCache \<Rightarrow>
    'w World \<Rightarrow> DERCurveCache \<times> 'w World" where
  "curveHook c ctx dec href prev nxt cache w =
     (if prev = StateEventStarted \<or> nxt \<noteq> StateEventStarted then (cache, w)
      else
        (case FetchProgramCurves c ctx dec href (Some cache) w of
           (Inl e, w) \<Rightarrow> (cache, w)
         | (Inr cc, w) \<Rightarrow> (cc, w)))"

text \<open>Phase 3: the result is the href of the status.\<close>

definition putOwnSetup :: "'w startEnv \<Rightarrow> derResource \<Rightarrow> 'w World \<Rightarrow> string \<times> 'w World" where
  "putOwnSetup E d w =
     (let (_, w) = (case DERCapabilityLink d of
                      None \<Rightarrow> (Inr (), w)
                    | Some h \<Rightarrow> PutDERCapability (stClient E) (stCtx E) h
                        (stEncCapability E \<lparr>ocMaxW = stMaxW E, ocMaxVar = stMaxVar E, ocModes = 0xFF, ocType = 4\<rparr>) w);
          (_, w) = (case DERSettingsLink d of
                      None \<Rightarrow> (Inr (), w)
                    | Some h \<Rightarrow> PutDERSettings (stClient E) (stCtx E) h (stEncSettings E (stMaxW E) (toUnix (Now w (stClock E w)))) w)
      in (listHref (DERStatusLink d), w))"

definition setupPhase :: "'w startEnv \<Rightarrow> EndDevice \<Rightarrow> ('w, string) startPhase" where
  "setupPhase E ed w =
     (if skipDERPipelineForRole (stRole E) then Some (Inr [], w)
      else
        (case DERListLink ed of
           None \<Rightarrow> Some (Inr [], w)
         | Some h \<Rightarrow>
             (case fetchDERListForSetup (stClient E) (stCtx E) (stDecDERs E) h w of
                (Inl e, w) \<Rightarrow> Some (Inl StopQuiet, w)
              | (Inr None, w) \<Rightarrow> Some (Inr [], w)
              | (Inr (Some ([], _)), w) \<Rightarrow> Some (Inr [], w)
              | (Inr (Some (d # _, _)), w) \<Rightarrow> (case putOwnSetup E d w of (h, w) \<Rightarrow> Some (Inr h, w)))))"

text \<open>Phase 4: the device's own reporter, or the aggregator's fleet and reservations.\<close>

definition deviceMetering :: "'w startEnv \<Rightarrow> DeviceCapability \<Rightarrow> string \<Rightarrow> ('w, Reporter) startPhase" where
  "deviceMetering E dcap statusHref w =
     (case runPhase4Metering (stEnc E) (stClient E) (stCtx E) dcap statusHref w of
        (None, w) \<Rightarrow> Some (Inl StopAbort, w)
      | (Some r, w) \<Rightarrow> Some (Inr r, w))"

text \<open>A client with an LFDI never takes the abort.\<close>

lemma deviceMetering_goes_on: "lfdi (stClient E) \<noteq> [] \<Longrightarrow> \<exists>r w'. deviceMetering E dcap h w = Some (Inr r, w')"
  by (auto simp: deviceMetering_def runPhase4Metering_def NewReporter_def split: prod.split)

text \<open>What an aggregator's start needs besides: the environment of the fleet, the files, the sessions and the links.\<close>

record ('w, 'h) aggEnv =
  aeFleet :: "'w fleetEnv"
  aeParseTime :: parseTime
  aeParseFloat :: parseFloat
  aeFiles :: "string \<Rightarrow> string list option"
  aeSession :: "Managed \<Rightarrow> EndDevice \<Rightarrow> 'h controlSession"
  aeReqLink :: "string option"
  aeRespLink :: "string option"
  aeSim :: "simFile option"
  aeReportInterval :: duration

definition aggregatorPhase :: "'w startEnv \<Rightarrow> ('w, 'h) aggEnv \<Rightarrow> DeviceCapability \<Rightarrow> string \<Rightarrow> ('w, 'h aggregator) startPhase" where
  "aggregatorPhase E A dcap href w =
     (case NewReporter (lfdi (stClient E)) [] [] of
        None \<Rightarrow> Some (Inl (StopFatal FailReporter), w)
      | Some _ \<Rightarrow>
          (case startManagedForRole (aeFleet A) (aeParseTime A) (aeParseFloat A) (aeFiles A) (aeSession A) (decEndDevices (stDec E)) dcap href
              (aeSim A) (aeReportInterval A) w of
             (Inl e, w) \<Rightarrow> Some (Inl (StopFatal (FailManaged e)), w)
           | (Inr fleet, w) \<Rightarrow>
               (let fleet = (case aeSim A of
                       None \<Rightarrow> fleet
                     | Some f \<Rightarrow> map_option (setStatusInterval (seconds (IntervalS (cfStatus f)))) fleet)
                in Some (Inr (startReservations (lfdi (stClient E)) (aeReqLink A) (aeRespLink A) (aeSim A) fleet), w))))"

datatype 'h ready =
    ReadyDevice EndDevice "DERProgram option" "DefaultDERControl option" Reporter
  | ReadyAggregator "'h aggregator"

record startTimers =
  tmLinks :: timers
  tmEdev :: timers
  tmRegistration :: timers
  tmAssignments :: timers
  tmPrograms :: timers
  tmSynced :: time

text \<open>The phases up to the registration, and those after it.\<close>

definition identityPhases :: "'w startEnv \<Rightarrow> startTimers \<Rightarrow> ('w, DeviceCapability \<times> EndDevice \<times> string) startPhase" where
  "identityPhases E T =
     andThen (discovery E (tmLinks T)) (\<lambda>dcap.
     andThen (timePhase E dcap (tmSynced T)) (\<lambda>_.
     andThen (acquirePhase E dcap (tmEdev T)) (\<lambda>(ed, href).
     andThen (registrationPhase E ed href dcap (tmRegistration T)) (\<lambda>ed.
     goOn (dcap, ed, href)))))"

definition servicePhases :: "'w startEnv \<Rightarrow> ('w, 'h) aggEnv \<Rightarrow> startTimers \<Rightarrow> DeviceCapability \<times> EndDevice \<times> string \<Rightarrow> ('w, 'h ready) startPhase" where
  "servicePhases E A T =
     (\<lambda>(dcap, ed, href).
       andThen (subscribePhase E ed) (\<lambda>_.
       andThen (assignmentsPhase E ed dcap (tmAssignments T)) (\<lambda>(fsas, ed).
       andThen (programsPhase E fsas dcap (tmPrograms T)) (\<lambda>progs.
       let selected = SelectHighestPriority (map snd progs) in
       andThen (defaultPhase E selected) (\<lambda>def.
       andThen (setupPhase E ed) (\<lambda>status.
       if skipDERPipelineForRole (stRole E) then andThen (aggregatorPhase E A dcap href) (\<lambda>ag. goOn (ReadyAggregator ag))
       else andThen (deviceMetering E dcap status) (\<lambda>r. goOn (ReadyDevice ed selected def r))))))))"

definition startup :: "'w startEnv \<Rightarrow> ('w, 'h) aggEnv \<Rightarrow> startTimers \<Rightarrow> ('w, 'h ready) startPhase" where
  "startup E A T = andThen (identityPhases E T) (servicePhases E A T)"

text \<open>The exit of a start that did not get through.\<close>

definition exitOf :: "stop \<Rightarrow> shutdownState \<Rightarrow> exitAct list \<times> nat" where
  "exitOf s sd = (case s of StopFatal _ \<Rightarrow> fatalf sd | StopQuiet \<Rightarrow> mainReturn sd | StopAbort \<Rightarrow> ([], 1))"

section \<open>The shutdown\<close>

text \<open>However often and from wherever the shutdown is called, what was started is stopped once.\<close>

fun shutdowns :: "nat \<Rightarrow> shutdownState \<Rightarrow> exitAct list" where
  "shutdowns 0 s = []"
| "shutdowns (Suc n) s = (case shutdown s of (a, s) \<Rightarrow> a @ shutdowns n s)"

lemma shutdowns_done: "sdDone s \<Longrightarrow> shutdowns n s = []"
  by (induction n) (simp_all add: shutdown_def)

lemma shutdown_once:
  assumes "0 < n" "\<not> sdDone s"
  shows "shutdowns n s = (if sdReceiver s then [StopReceiverAct] else []) @ map StopFleetAct (sdFleets s)"
proof -
  obtain m where "n = Suc m" using assms(1) by (cases n) simp_all
  then show ?thesis using assms(2) by (simp add: shutdown_def shutdowns_done)
qed

lemma startFleets_balanced:
  assumes "startFleets fs os d = Some (acts, Some x)"
  shows "count_list acts (FleetStop f) = count_list acts (FleetRun f)"
proof -
  have "count_list (map FleetRun fs) (FleetStop f) = 0" "count_list (map FleetStop fs) (FleetRun f) = 0"
    by (auto simp: count_list_0_iff)
  moreover have "count_list (map FleetRun fs) (FleetRun f) = count_list (map FleetStop fs) (FleetStop f)" by (induction fs) simp_all
  ultimately show ?thesis using assms by (auto simp: startFleets_def split: option.splits if_splits)
qed

section \<open>What the phases send\<close>

lemma andThen_cases:
  assumes "andThen p k w = Some (r, w')"
  obtains (stopped) s where "p w = Some (Inl s, w')" "r = Inl s"
  | (next_one) a w1 where "p w = Some (Inr a, w1)" "k a w1 = Some (r, w')"
  using assms by (auto simp: andThen_def split: option.splits sum.splits prod.splits)

lemma andThen_Inr:
  "andThen p k w = Some (Inr b, w') \<longleftrightarrow> (\<exists>a w1. p w = Some (Inr a, w1) \<and> k a w1 = Some (Inr b, w'))"
  by (auto simp: andThen_def split: option.splits sum.splits prod.splits)

definition emitting :: "string set \<Rightarrow> ('w, 'a) startPhase \<Rightarrow> bool" where
  "emitting M p \<longleftrightarrow> (\<forall>w r w'. p w = Some (r, w') \<longrightarrow> emits M w w')"

lemma emittingI: "(\<And>w r w'. p w = Some (r, w') \<Longrightarrow> emits M w w') \<Longrightarrow> emitting M p"
  by (simp add: emitting_def)

lemma emittingD: "emitting M p \<Longrightarrow> p w = Some (r, w') \<Longrightarrow> emits M w w'"
  by (simp add: emitting_def)

lemma emitting_andThen: "emitting M p \<Longrightarrow> (\<And>a. emitting M (k a)) \<Longrightarrow> emitting M (andThen p k)"
  by (rule emittingI) (erule andThen_cases, auto dest: emittingD intro: emits_trans)

lemma emitting_goOn: "emitting M (goOn a)"
  by (simp add: emitting_def goOn_def)

lemma emitting_mono: "emitting M p \<Longrightarrow> M \<subseteq> N \<Longrightarrow> emitting N p"
  by (auto simp: emitting_def intro: emits_mono)

context reader begin

lemma discovery_emits: "emitting M (discovery E ts)"
proof (rule emittingI)
  fix w r w'
  assume d: "discovery E ts w = Some (r, w')"
  obtain x w1 where x: "Discover (stClient E) (stCtx E) (stDecDcap E) w = (x, w1)" by force
  note e = Discover_emits [OF x]
  show "emits M w w'"
  proof (cases x)
    case (Inl a)
    then show ?thesis using d x e by (simp add: discovery_def)
  next
    case (Inr dcap)
    then obtain y where y: "WaitForAdvertisedLinks (stClient E) (stCtx E) (stDecDcap E) ts dcap w1 = Some y"
      using d x by (cases "WaitForAdvertisedLinks (stClient E) (stCtx E) (stDecDcap E) ts dcap w1") (simp_all add: discovery_def)
    obtain z ws w2 where z: "y = (z, ws, w2)" by (rule prod_cases3)
    have "w' = w2" using d x Inr y z by (simp add: discovery_def split: prod.splits option.splits)
    then show ?thesis using e WaitForAdvertisedLinks_emits [OF y [unfolded z]] by (blast intro: emits_trans)
  qed
qed

lemma timePhase_emits: "emitting M (timePhase E dcap t)"
  by (rule emittingI) (auto simp: timePhase_def split: prod.splits option.splits dest: runPhase1bTimeSync_emits)

lemma lookupPhase_emits: "endDeviceAcquisitionUsesLookup (CSIP (stCfg E)) (stRole E) \<Longrightarrow> emitting M (acquirePhase E dcap ts)"
  by (rule emittingI) (auto simp: acquirePhase_def acquireEndDevice_def Let_def split: prod.splits option.splits sum.splits if_splits
      dest!: lookupUntilListed_emits)

lemma registrationPhase_emits: "emitting M (registrationPhase E ed href dcap ts)"
  by (rule emittingI) (auto simp: registrationPhase_def split: prod.splits option.splits dest: runPhase2bRegistration_emits)

lemma assignmentsPhase_emits: "emitting M (assignmentsPhase E ed dcap ts)"
  by (rule emittingI) (auto simp: assignmentsPhase_def split: prod.splits option.splits sum.splits dest: runPhase2cFSAList_emits)

lemma programsPhase_emits: "emitting M (programsPhase E fsas dcap ts)"
  by (rule emittingI) (auto simp: programsPhase_def split: if_splits prod.splits option.splits sum.splits dest: runPhase2cDERProgramWalk_emits)

lemma defaultPhase_emits: "emitting M (defaultPhase E p)"
  by (rule emittingI) (auto simp: defaultPhase_def Let_def split: if_splits prod.splits option.splits sum.splits dest: GetDefaultDERControl_emits)

lemma identityPhases_emits:
  "endDeviceAcquisitionUsesLookup (CSIP (stCfg E)) (stRole E) \<Longrightarrow> emitting M (identityPhases E T)"
  unfolding identityPhases_def split_def
  by (intro emitting_andThen emitting_goOn discovery_emits timePhase_emits lookupPhase_emits registrationPhase_emits)

lemma curveHook_emits: "curveHook c ctx dec href prev nxt cache w = (cache', w') \<Longrightarrow> emits M w w'"
  by (auto simp: curveHook_def FetchProgramCurves_def GetDERCurveList_def split: if_splits prod.splits sum.splits dest: getPaged_emits)

end

context poster begin

lemma subscribePhase_emits: "emitting M (subscribePhase E ed)"
  by (rule emittingI) (auto simp: subscribePhase_def split: prod.splits dest: registerSubscriptions_emits)

lemma deviceMetering_emits: "emitting M (deviceMetering E dcap h)"
  by (rule emittingI) (auto simp: deviceMetering_def split: prod.splits option.splits dest: runPhase4Metering_emits)

lemma aggregatorPhase_emits: "emitting M (aggregatorPhase E A dcap href)"
  by (rule emittingI) (auto simp: aggregatorPhase_def Let_def split: prod.splits option.splits sum.splits dest: startManagedForRole_emits)

lemma aggregatorServices_emits: "skipDERPipelineForRole (stRole E) \<Longrightarrow> emitting M (servicePhases E A T x)"
proof -
  assume r: "skipDERPipelineForRole (stRole E)"
  have s: "emitting M (setupPhase E ed)" for ed by (rule emittingI) (simp add: setupPhase_def r)
  show ?thesis
    unfolding servicePhases_def split_def Let_def if_P [OF r]
    by (intro emitting_andThen emitting_goOn subscribePhase_emits assignmentsPhase_emits programsPhase_emits defaultPhase_emits s
        aggregatorPhase_emits)
qed

end

context writer begin

lemma setupPhase_emits: "emitting M (setupPhase E ed)"
proof -
  have p: "emits M w w'" if "putOwnSetup E d w = (h, w')" for d w h w'
    using that unfolding putOwnSetup_def PutDERCapability_def PutDERSettings_def
    by (auto simp: Let_def split: option.splits prod.splits dest!: putDER_emits intro: emits_trans)
  show ?thesis
    by (rule emittingI) (auto simp: setupPhase_def split: if_splits option.splits prod.splits sum.splits list.splits
        dest!: fetchDERListForSetup_emits p intro: emits_trans)
qed

lemma servicePhases_emits: "emitting M (servicePhases E A T x)"
  unfolding servicePhases_def split_def Let_def
  by (cases "skipDERPipelineForRole (stRole E)", simp_all only: if_True if_False)
    (intro emitting_andThen emitting_goOn subscribePhase_emits assignmentsPhase_emits programsPhase_emits defaultPhase_emits
      setupPhase_emits aggregatorPhase_emits deviceMetering_emits)+

end

section \<open>Nothing is written before the PIN\<close>

context reader begin

lemma matchPIN_read:
  "matchPIN c ctx D pin href ts w = Some (None, ws, w') \<Longrightarrow>
     \<exists>wR rg. emits M w wR \<and> GetRegistration c ctx (decRegistration D) href wR = (Inr rg, w') \<and> (pin = 0 \<or> uint (regPIN rg) = pin)"
proof (induction ts arbitrary: w ws)
  case Nil
  then show ?case by (subst (asm) matchPIN.simps) (fastforce split: prod.splits sum.splits if_splits)
next
  case (Cons t ts)
  obtain x w1 where g: "GetRegistration c ctx (decRegistration D) href w = (x, w1)" by force
  consider (passed) rg where "x = Inr rg" "pin = 0 \<or> uint (regPIN rg) = pin" "w1 = w'"
    | (again) ws1 where "matchPIN c ctx D pin href ts w1 = Some (None, ws1, w')"
    using Cons.prems g
    by (subst (asm) matchPIN.simps) (auto simp: Let_def split: prod.splits sum.splits if_splits option.splits)
  then show ?case
  proof cases
    case passed
    then show ?thesis using g by blast
  next
    case again
    then show ?thesis using Cons.IH [OF again] GetRegistration_emits [OF g] by (blast intro: emits_trans)
  qed
qed

lemma awaitRegistrationLink_kept:
  "awaitRegistrationLink c ctx D dcap ts href ed w = Some (r, ed', rest, ws, w') \<Longrightarrow> RegistrationLink ed \<noteq> None \<Longrightarrow> ed' = ed"
  by (subst (asm) awaitRegistrationLink.simps) auto

lemma runPhase2b_read:
  assumes "runPhase2bRegistration c ctx D ed href cfg dcap ts w = Some (None, ed', ws, w')" "RegistrationLink ed \<noteq> None \<or> csipStrict cfg"
  shows "\<exists>l wR rg. RegistrationLink ed' = Some l \<and> (RegistrationLink ed \<noteq> None \<longrightarrow> ed' = ed) \<and> emits M w wR \<and>
    GetRegistration c ctx (decRegistration D) l wR = (Inr rg, w') \<and> (ExpectedPIN cfg = 0 \<or> uint (regPIN rg) = ExpectedPIN cfg)"
proof -
  obtain x ed1 rest ws1 w1 where a: "awaitRegistrationLink c ctx D dcap ts href ed w = Some (x, ed1, rest, ws1, w1)"
    using assms by (auto simp: runPhase2bRegistration_def split: option.splits)
  then obtain l where l: "x = Inr l" using assms by (cases x) (auto simp: runPhase2bRegistration_def)
  obtain ws2 where m: "matchPIN c ctx D (ExpectedPIN cfg) l rest w1 = Some (None, ws2, w')" "ed' = ed1"
    using assms a l by (auto simp: runPhase2bRegistration_def)
  obtain wR rg where "emits M w1 wR" "GetRegistration c ctx (decRegistration D) l wR = (Inr rg, w')"
      "ExpectedPIN cfg = 0 \<or> uint (regPIN rg) = ExpectedPIN cfg"
    using matchPIN_read [OF m(1)] by blast
  moreover from this(1) awaitRegistrationLink_emits [OF a] have "emits M w wR" by (blast intro: emits_trans)
  ultimately show ?thesis using awaitRegistrationLink_outcome(1) [OF a, of l] l m(2) awaitRegistrationLink_kept [OF a] by blast
qed

end

text \<open>
  What the registration is to establish about the EndDevice \<open>ed0\<close> that was acquired, between the world \<open>wA\<close> after the
  acquisition and the world \<open>w1\<close> of the first service: outside strict mode an EndDevice without a Registration has nothing
  to check; in every other case nothing but reads is sent until a Registration of the EndDevice is read, the last request
  of all, that carries the configured PIN, if one is configured.
\<close>

definition pinGate :: "'w startEnv \<Rightarrow> EndDevice \<Rightarrow> 'w World \<Rightarrow> EndDevice \<Rightarrow> 'w World \<Rightarrow> bool" where
  "pinGate E ed0 wA ed w1 \<longleftrightarrow>
     (if RegistrationLink ed0 = None \<and> \<not> csipStrict (stCfg E) then ed = ed0 \<and> w1 = wA
      else
        (\<exists>l wR rg. RegistrationLink ed = Some l \<and> (RegistrationLink ed0 \<noteq> None \<longrightarrow> ed = ed0) \<and> emits {MethodGet} wA wR \<and>
           GetRegistration (stClient E) (stCtx E) (decRegistration (stDec E)) l wR = (Inr rg, w1) \<and>
           (ExpectedPIN (stCfg E) = 0 \<or> uint (regPIN rg) = ExpectedPIN (stCfg E))))"

lemma registrationPhase_gate:
  assumes "registrationPhase E ed href dcap ts w = Some (Inr ed', w')"
  shows "pinGate E ed w ed' w'"
proof -
  obtain ws where r: "runPhase2bRegistration (stClient E) (stCtx E) (stDec E) ed href (stCfg E) dcap ts w = Some (None, ed', ws, w')"
    using assms by (auto simp: registrationPhase_def split: option.splits)
  show ?thesis
  proof (cases "RegistrationLink ed = None \<and> \<not> csipStrict (stCfg E)")
    case True
    then show ?thesis using r by (simp add: runPhase2bRegistration_def pinGate_def)
  next
    case False
    then show ?thesis using only_gets.runPhase2b_read [OF r] unfolding pinGate_def if_not_P [OF False] by blast
  qed
qed

lemma identityPhases_steps:
  assumes "identityPhases E T w = Some (Inr (dcap, ed, href), w1)"
  obtains wD wB ed0 wA where "discovery E (tmLinks T) w = Some (Inr dcap, wD)" "timePhase E dcap (tmSynced T) wD = Some (Inr (), wB)"
    "acquirePhase E dcap (tmEdev T) wB = Some (Inr (ed0, href), wA)" "pinGate E ed0 wA ed w1"
  using assms registrationPhase_gate by (auto simp: identityPhases_def andThen_Inr goOn_def intro!: that)

text \<open>C37: Nothing is written before the PIN. A client that looks itself up either stops during discovery, time, acquisition
  or registration, having sent only reads, or it gets to the services (subscriptions, set-up of the DER, mirrors) having
  sent only reads, with exactly the EndDevice and the world the registration left, and that registration passed: unless it is
  outside strict mode and its EndDevice has no Registration, it read a Registration of that EndDevice as the last request
  before the services, carrying the configured PIN, if one is configured. An EndDevice that came with a Registration is the
  one that is served.
\<close>

theorem nothing_written_before_pin:
  assumes "startup E A T w = Some (r, w')" "endDeviceAcquisitionUsesLookup (CSIP (stCfg E)) (stRole E)"
  shows "(\<exists>s. r = Inl s \<and> emits {MethodGet} w w') \<or>
    (\<exists>dcap wD wB ed0 href wA ed w1 rest.
       discovery E (tmLinks T) w = Some (Inr dcap, wD) \<and> timePhase E dcap (tmSynced T) wD = Some (Inr (), wB) \<and>
       acquirePhase E dcap (tmEdev T) wB = Some (Inr (ed0, href), wA) \<and> pinGate E ed0 wA ed w1 \<and> emits {MethodGet} w w1 \<and>
       servicePhases E A T (dcap, ed, href) w1 = Some (r, w') \<and> sent w' = sent w1 @ rest)"
  using assms(1) unfolding startup_def
proof (cases rule: andThen_cases)
  case (stopped s)
  then show ?thesis using emittingD [OF only_gets.identityPhases_emits [OF assms(2)] stopped(1)] by blast
next
  case (next_one x w1)
  obtain dcap ed href where x: "x = (dcap, ed, href)" by (rule prod_cases3)
  have "emits {MethodGet} w w1" by (rule emittingD [OF only_gets.identityPhases_emits [OF assms(2)] next_one(1)])
  moreover have "emits UNIV w1 w'" by (rule emittingD [OF all_methods.servicePhases_emits next_one(2)])
  then obtain rest where "sent w' = sent w1 @ rest" unfolding emits_def by blast
  ultimately show ?thesis using identityPhases_steps [OF next_one(1) [unfolded x]] next_one(2) unfolding x by metis
qed

section \<open>The aggregator's start\<close>

definition configuredW :: "Managed \<Rightarrow> f64" where
  "configuredW m = sdRatedW (theOr zeroDevice (mgDevice m))"

text \<open>
  A device as its part \<open>m\<close> of the configuration has it: its name and LFDI, its kind and rating, the recording of its file,
  the EndDevice of the server's list with its LFDI, and a control session for that EndDevice.
\<close>

definition recordingOf :: "('w, 'h) aggEnv \<Rightarrow> Managed \<Rightarrow> Replay \<Rightarrow> bool" where
  "recordingOf A m dev \<longleftrightarrow>
     (\<exists>t. NewReplay (aeParseTime A) (aeParseFloat A) (aeFiles A (srFile (theOr zeroReplay (mgReplay m)))) t
        \<lparr>rcFile = srFile (theOr zeroReplay (mgReplay m)), rcType = sdType (theOr zeroDevice (mgDevice m)),
          rcClock = srClock (theOr zeroReplay (mgReplay m)), rcScale = srScale (theOr zeroReplay (mgReplay m)),
          rcRatedW = configuredW m, rcCapacityWh = sdCapacityWh (theOr zeroDevice (mgDevice m)),
          rcInitialSOC = theOr 0 (sdInitialSOC (theOr zeroDevice (mgDevice m)))\<rparr> = Inr dev)"

definition startedAs :: "('w, 'h) aggEnv \<Rightarrow> EndDeviceList \<Rightarrow> Managed \<Rightarrow> 'h managedDevice \<Rightarrow> bool" where
  "startedAs A list m md \<longleftrightarrow>
     mdName md = mgName m \<and> mdLFDI md = mgLFDI m \<and> mdKind md = sdType (theOr zeroDevice (mgDevice m)) \<and>
     mdRatedW md = configuredW m \<and> recordingOf A m (mdDev md) \<and> mdEdev md = ownEndDevice list (mgLFDI m) \<and>
     mdCtl md = Some (aeSession A m (mdEdev md))"

lemma startManagedDevice_config:
  assumes "startManagedDevice (aeFleet A) (aeParseTime A) (aeParseFloat A) (aeFiles A) dcap m i w = (Inr md, w')"
  shows "mdName md = mgName m \<and> mdLFDI md = mgLFDI m \<and> mdKind md = sdType (theOr zeroDevice (mgDevice m)) \<and>
    mdRatedW md = configuredW m \<and> recordingOf A m (mdDev md)"
  using assms
  by (auto simp: startManagedDevice_def configuredW_def recordingOf_def stay_defs Let_def
      split: sum.splits option.splits prod.splits dest!: tryMirror_stays)

lemma startDevices_config:
  "startDevices (aeFleet A) (aeParseTime A) (aeParseFloat A) (aeFiles A) (aeSession A) dcap list i ms w = (Inr mds, w') \<Longrightarrow>
     list_all2 (startedAs A list) ms mds"
proof (induction ms arbitrary: mds w)
  case (Cons m ms)
  then show ?case by (auto simp: Let_def startedAs_def split: prod.splits sum.splits dest!: startManagedDevice_config)
qed simp

lemma startManagedForRole_config:
  assumes "startManagedForRole (aeFleet A) (aeParseTime A) (aeParseFloat A) (aeFiles A) (aeSession A) dec dcap href (Some f) i w = (Inr fleet, w')"
  shows "if cfManaged f = [] then fleet = None
    else \<exists>fl list h w0 w1. fleet = Some fl \<and> GetEndDeviceList (feClient (aeFleet A)) (feCtx (aeFleet A)) dec href w0 = (Inr (list, h), w1) \<and>
      missingManaged list (cfManaged f) = None \<and> list_all2 (startedAs A list) (cfManaged f) (mfDevices fl) \<and>
      mfReportInterval fl = i \<and> mfDispatch fl = None"
  using assms
  by (fastforce simp: startManagedForRole_def startManaged_def Let_def split: if_splits option.splits prod.splits sum.splits
      dest!: startDevices_config)

lemma fleet_of_config:
  assumes "wfConfig f" "list_all2 (startedAs A list) (cfManaged f) mds"
  shows "distinct (map mdLFDI mds) \<and> (\<forall>md\<in>set mds. \<exists>r. mdRatedW md = Fin r \<and> 0 \<le> r)"
proof -
  have "distinct (map (\<lambda>m. toUpper (mgLFDI m)) (cfManaged f))" using assms(1) unfolding wfConfig_def by blast
  then have "distinct (cfManaged f)" "inj_on (\<lambda>m. toUpper (mgLFDI m)) (set (cfManaged f))" by (simp_all add: distinct_map)
  then have "distinct (map mgLFDI (cfManaged f))" by (simp add: distinct_map inj_on_def)
  moreover have "map mdLFDI mds = map mgLFDI (cfManaged f)"
    using assms(2) by (induction rule: list_all2_induct) (simp_all add: startedAs_def)
  moreover have "\<exists>r. configuredW m = Fin r \<and> 0 \<le> r" if "m \<in> set (cfManaged f)" for m
  proof -
    have "wfManaged m" using assms(1) that by (simp add: wfConfig_def)
    then obtain d r where "mgDevice m = Some d" "0 < r" "sdRatedW d = Fin r" unfolding wfManaged_def wfDevice_def by blast
    then show ?thesis by (simp add: configuredW_def theOr_def)
  qed
  moreover have "\<exists>m\<in>set (cfManaged f). mdRatedW md = configuredW m" if "md \<in> set mds" for md
    using assms(2) that by (induction rule: list_all2_induct) (auto simp: startedAs_def)
  ultimately show ?thesis by metis
qed

lemma startReservations_parts:
  assumes "rs = newReserver q ql pl (frqOf (cfFrq f)) (newDispatcher (seconds (TickS (cfDispatch f))))"
    "\<forall>fl. fleet = Some fl \<longrightarrow> mfDispatch fl = None"
  shows "agReserver (startReservations q ql pl (Some f) fleet) = rs \<and>
    agFleet (startReservations q ql pl (Some f) fleet) = map_option (\<lambda>fl. fl\<lparr>mfDispatch := map_option disp rs\<rparr>) fleet"
proof (cases rs)
  case None
  then show ?thesis using assms(2) by (cases fleet) (simp_all add: startReservations_def assms(1) [symmetric] Let_def)
next
  case (Some r)
  then have "disp r = newDispatcher (seconds (TickS (cfDispatch f)))" by (auto simp: assms(1) newReserver_def split: option.splits)
  then show ?thesis using Some by (cases fleet) (simp_all add: startReservations_def assms(1) [symmetric] setDispatcher_def Let_def)
qed

text \<open>
  What the start is to hand to the aggregator's loop under the configuration \<open>f\<close>: the reserver of its links and its
  configuration, with a free dispatcher that ticks as configured, and the fleet.
\<close>

definition handedOver :: "'w startEnv \<Rightarrow> ('w, 'h) aggEnv \<Rightarrow> simFile \<Rightarrow> 'h aggregator \<Rightarrow> bool" where
  "handedOver E A f ag \<longleftrightarrow>
     agReserver ag = newReserver (lfdi (stClient E)) (aeReqLink A) (aeRespLink A) (frqOf (cfFrq f))
       (newDispatcher (seconds (TickS (cfDispatch f)))) \<and>
     (if cfManaged f = [] then agFleet ag = None
      else \<exists>fl list h href w0 w1. agFleet ag = Some fl \<and>
        GetEndDeviceList (feClient (aeFleet A)) (feCtx (aeFleet A)) (decEndDevices (stDec E)) href w0 = (Inr (list, h), w1) \<and>
        missingManaged list (cfManaged f) = None \<and> list_all2 (startedAs A list) (cfManaged f) (mfDevices fl) \<and>
        distinct (map mdLFDI (mfDevices fl)) \<and> (\<forall>md\<in>set (mfDevices fl). \<exists>r. mdRatedW md = Fin r \<and> 0 \<le> r) \<and>
        mfReportInterval fl = aeReportInterval A \<and> mfStatusInterval fl = seconds (IntervalS (cfStatus f)) \<and>
        mfDispatch fl = map_option disp (agReserver ag))"

lemma aggregatorPhase_hands_over:
  assumes "aggregatorPhase E A dcap href w = Some (Inr ag, w')" "aeSim A = Some f" "wfConfig f"
  shows "handedOver E A f ag"
proof -
  let ?set = "setStatusInterval (seconds (IntervalS (cfStatus f)))"
  obtain fleet where s: "startManagedForRole (aeFleet A) (aeParseTime A) (aeParseFloat A) (aeFiles A) (aeSession A) (decEndDevices (stDec E))
        dcap href (Some f) (aeReportInterval A) w = (Inr fleet, w')"
      "ag = startReservations (lfdi (stClient E)) (aeReqLink A) (aeRespLink A) (Some f) (map_option ?set fleet)"
    using assms(1,2) by (auto simp: aggregatorPhase_def Let_def split: option.splits prod.splits sum.splits)
  note c = startManagedForRole_config [OF s(1)]
  have "\<forall>fl. map_option ?set fleet = Some fl \<longrightarrow> mfDispatch fl = None" using c by (auto simp: setStatusInterval_def split: if_splits)
  note p = startReservations_parts [OF refl this, of "lfdi (stClient E)" "aeReqLink A" "aeRespLink A" f, folded s(2)]
  show ?thesis
  proof (cases "cfManaged f = []")
    case True
    then show ?thesis using c p by (simp add: handedOver_def)
  next
    case False
    then obtain fl list h href w0 w1 where fl: "fleet = Some fl"
        "GetEndDeviceList (feClient (aeFleet A)) (feCtx (aeFleet A)) (decEndDevices (stDec E)) href w0 = (Inr (list, h), w1)"
        "missingManaged list (cfManaged f) = None" "list_all2 (startedAs A list) (cfManaged f) (mfDevices fl)"
        "mfReportInterval fl = aeReportInterval A"
      using c by auto
    then show ?thesis
      using False p fleet_of_config [OF assms(3) fl(4)] by (simp add: handedOver_def setStatusInterval_def) (intro exI [of _ list], blast)
  qed
qed

text \<open>C38: An aggregator starts as a manager and nothing else. On the way it PUTs nothing, and a start that gets through hands
  over to the aggregator's loop: the reserver that its links and its configuration give, with a free dispatcher that ticks
  as configured, and, when devices are configured, a fleet of exactly these, in the order of the configuration, each of which is
  in the server's list, with its configured name, LFDI, kind, rating and recording, its EndDevice of that list and a control session
  of its own; their LFDIs are distinct and their ratings numbers; the fleet reports at the given interval, puts its status at
  the configured one and follows the dispatcher of the reserver, if there is one. With no device configured
  there is no fleet.
\<close>

theorem aggregator_starts_as_manager:
  assumes "startup E A T w = Some (r, w')" "stRole E = ''aggregator''" "aeSim A = Some f" "wfConfig f"
  shows "emits {MethodGet, MethodPost} w w' \<and> (\<forall>x. r = Inr x \<longrightarrow> (\<exists>ag. x = ReadyAggregator ag \<and> handedOver E A f ag))"
proof
  have role: "skipDERPipelineForRole (stRole E)" "endDeviceAcquisitionUsesLookup (CSIP (stCfg E)) (stRole E)"
    using assms(2) by (simp_all add: skipDERPipelineForRole_def endDeviceAcquisitionUsesLookup_def)
  have "emitting {MethodGet, MethodPost} (startup E A T)"
    unfolding startup_def
    by (intro emitting_andThen gets_posts.identityPhases_emits gets_posts.aggregatorServices_emits role)
  then show "emits {MethodGet, MethodPost} w w'" using assms(1) by (rule emittingD)
  show "\<forall>x. r = Inr x \<longrightarrow> (\<exists>ag. x = ReadyAggregator ag \<and> handedOver E A f ag)"
  proof (intro allI impI)
    fix x assume x: "r = Inr x"
    obtain dcap href w1 ag where a: "aggregatorPhase E A dcap href w1 = Some (Inr ag, w')" "x = ReadyAggregator ag"
      using assms(1) role(1) unfolding x startup_def servicePhases_def by (auto simp: andThen_Inr goOn_def Let_def split_def)
    then show "\<exists>ag. x = ReadyAggregator ag \<and> handedOver E A f ag" using aggregatorPhase_hands_over [OF a(1) assms(3,4)] by blast
  qed
qed

section \<open>A start against one server\<close>

text \<open>The server that answers every request with one body: the world after one more request.\<close>

definition asked :: "string \<Rightarrow> string \<Rightarrow> string \<Rightarrow> nat World \<Rightarrow> nat World" where
  "asked m url body w = w\<lparr>srv := Suc (srv w), sent := sent w @ [\<lparr>rqMethod = m, rqURL = url, rqBody = body\<rparr>]\<rparr>"

abbreviation demoServer :: "nat Client" where
  "demoServer \<equiv> demoClient (Reply 200 [] (Some ''b''))"

lemma asked_simps [simp]:
  "cGuard (asked m u b w) = cGuard w" "serverTimeOffset (asked m u b w) = serverTimeOffset w"
  "sent (asked m u b w) = sent w @ [\<lparr>rqMethod = m, rqURL = u, rqBody = b\<rparr>]"
  by (simp_all add: asked_def)

abbreviation selfPermits :: "nat World \<Rightarrow> Kind \<Rightarrow> bool" where
  "selfPermits w kind \<equiv> permits (cGuard w) (kindMethod kind) \<lparr>aKind = kind, TargetLFDI = []\<rparr>"

lemma asked_Get:
  assumes "selfPermits w kind" "kindMethod kind = MethodGet" "dec ''b'' = Some v"
  shows "Get demoServer demoCtx kind path dec w = (Inr (v, []), asked MethodGet (''https://s'' @ path) [] w)"
proof -
  have "guarded demoCtx MethodGet kind w = (None, w)" using assms(1,2) by (simp add: guarded_cases)
  then show ?thesis
    using assms(3) by (simp add: Get_def getOnce_def attempt_def send_def demoClient_def classifyResponse_def asked_def)
qed

lemma asked_Put:
  assumes "selfPermits w KindDERResourceWrite"
  shows "Put demoServer demoCtx KindDERResourceWrite path (Some d) w = (Inr [], asked MethodPut path d w)"
proof -
  have "guarded demoCtx MethodPut KindDERResourceWrite w = (None, w)" using assms by (simp add: guarded_cases)
  then show ?thesis
    by (simp add: Put_def putOnce_def attempt_def send_def demoClient_def classifyResponse_def putTarget_def IsAbs_def sameServer_def
        Hostname_def effectivePort_def Http.Port_def asked_def)
qed

text \<open>The list of the server has the client's own device and one more.\<close>

definition ownListed :: EndDevice where
  "ownListed = blankEndDevice\<lparr>LFDI := ''AA'', RegistrationLink := Some ''/rg'', DERListLink := Some ''/der''\<rparr>"

definition demoStartEnv :: "string \<Rightarrow> nat startEnv" where
  "demoStartEnv role =
     \<lparr>stClient = demoServer, stCtx = demoCtx,
      stDec = (demoDecoders 111115)\<lparr>decEndDevices := (\<lambda>_. Some \<lparr>edEndDevice = [ownListed, blankEndDevice\<lparr>LFDI := demoLFDI\<rparr>]\<rparr>)\<rparr>,
      stDecDcap = (\<lambda>_. Some demoDcap), stDecTime = (\<lambda>_. None), stDecEdev = (\<lambda>_. None),
      stDecDERs = (\<lambda>_. Some [\<lparr>DERCapabilityLink = Some ''/cap'', DERSettingsLink = None, DERStatusLink = None, DERAvailabilityLink = None\<rparr>]),
      stEncEdev = (\<lambda>_. None), stEncSubscription = (\<lambda>_. None), stEncCapability = (\<lambda>_. Some ''c''), stEncSettings = (\<lambda>_ _. None),
      stEnc = demoEncoders, stCfg = \<lparr>CSIP = True, AllowUnregistered = True, ExpectedPIN = 111115\<rparr>, stRole = role,
      stNotifyURL = [], stClock = (\<lambda>_. 0), stMaxW = 10000, stMaxVar = 4400\<rparr>"

abbreviation noTimers :: startTimers where
  "noTimers \<equiv> \<lparr>tmLinks = [], tmEdev = [], tmRegistration = [], tmAssignments = [], tmPrograms = [], tmSynced = 0\<rparr>"

abbreviation startReads :: "nat World \<Rightarrow> nat World" where
  "startReads w \<equiv> asked MethodGet ''https://s/rg'' [] (asked MethodGet ''https://s/edev?l=255'' [] (asked MethodGet ''https://s/dcap'' [] w))"

lemma demo_discovery:
  "selfPermits w KindEndDeviceRead \<Longrightarrow> discovery (demoStartEnv role) [] w = Some (Inr demoDcap, asked MethodGet ''https://s/dcap'' [] w)"
  by (simp add: discovery_def Discover_def asked_Get demoStartEnv_def WaitForAdvertisedLinks.simps dcapHasAnyLink_def) (simp add: demoDcap_def)

lemma demo_time: "timePhase (demoStartEnv role) demoDcap 0 w = Some (Inr (), w)"
  by (simp add: timePhase_def runPhase1bTimeSync_def demoDcap_def)

lemma demo_acquire:
  "selfPermits w KindEndDeviceRead \<Longrightarrow>
     acquirePhase (demoStartEnv role) demoDcap [] w = Some (Inr (ownListed, ''/edev''), asked MethodGet ''https://s/edev?l=255'' [] w)"
  by (simp add: acquirePhase_def acquireEndDevice_def endDeviceAcquisitionUsesLookup_def demoStartEnv_def lookupUntilListed.simps demoDcap_def
      LookupOwnEndDevice_def getPaged_def asked_Get pageSep_def stripPagingQuery_def ownListed_def equalFold_def demoDecoders_def)
    (simp add: demoClient_def)

lemma demo_registration:
  "selfPermits w KindRegistrationRead \<Longrightarrow>
     registrationPhase (demoStartEnv role) ownListed ''/edev'' demoDcap [] w = Some (Inr ownListed, asked MethodGet ''https://s/rg'' [] w)"
  by (simp add: registrationPhase_def runPhase2bRegistration_def demoStartEnv_def csipStrict_def awaitRegistrationLink.simps ownListed_def
      matchPIN.simps GetRegistration_def asked_Get demoDecoders_def)

lemma demo_identity:
  assumes "selfPermits w KindEndDeviceRead" "selfPermits w KindRegistrationRead"
  shows "identityPhases (demoStartEnv role) noTimers w = Some (Inr (demoDcap, ownListed, ''/edev''), startReads w)"
  using assms by (simp add: identityPhases_def andThen_def demo_discovery demo_time demo_acquire demo_registration goOn_def)

lemma demo_services:
  "subscribePhase (demoStartEnv role) ownListed w = Some (Inr [], w)"
  "assignmentsPhase (demoStartEnv role) ownListed demoDcap [] w = Some (Inr ([], ownListed), w)"
  "programsPhase (demoStartEnv role) [] demoDcap [] w = Some (Inr [], w)"
  "defaultPhase (demoStartEnv role) None w = Some (Inr None, w)" "SelectHighestPriority [] = None"
  by (simp_all add: subscribePhase_def registerSubscriptions_def demoStartEnv_def assignmentsPhase_def runPhase2cFSAList_def csipStrict_def
      ownListed_def blankEndDevice_def programsPhase_def defaultPhase_def listHref_def SelectHighestPriority_def)

lemma demo_setup:
  assumes "selfPermits w KindEndDeviceRead" "selfPermits w KindDERResourceWrite"
  shows "setupPhase (demoStartEnv ''der'') ownListed w =
    Some (Inr [], asked MethodPut ''/cap'' ''c'' (asked MethodGet ''https://s/der'' [] w))"
  using assms by (simp add: setupPhase_def skipDERPipelineForRole_def ownListed_def fetchDERListForSetup_def demoStartEnv_def asked_Get
      putOwnSetup_def PutDERCapability_def putDER_def asked_Put listHref_def)

lemma der_permits:
  "selfPermits demoWorld KindEndDeviceRead" "selfPermits demoWorld KindRegistrationRead" "selfPermits demoWorld KindDERResourceWrite"
  by (simp_all add: permits_def ownTarget_def selfAllowed_def demoWorld_def NewGuard_def RoleDER_def RoleAggregator_def derSelfKinds_def)

text \<open>What comes with an aggregator: one device that replays a recording, no reservations.\<close>

definition replayed :: Managed where
  "replayed = demoManaged\<lparr>mgReplay := Some (demoSynthetic\<lparr>srFile := ''f''\<rparr>)\<rparr>"

definition demoAggEnv :: "(nat, nat) aggEnv" where
  "demoAggEnv = \<lparr>aeFleet = demoFleetEnv\<lparr>feClient := demoServer\<rparr>, aeParseTime = demoParseTime, aeParseFloat = demoParseFloat,
     aeFiles = (\<lambda>_. Some (map demoLine [0..<1440])), aeSession = (\<lambda>m ed. newControlSession (mgControls m) [] None ed),
     aeReqLink = None, aeRespLink = None, aeSim = Some (demoFile ''aggregator'' [replayed] 1200 3000), aeReportInterval = 60000000000\<rparr>"

lemma demoStartEnv_simps [simp]: "stRole (demoStartEnv r) = r" "CSIP (stCfg (demoStartEnv r))" "stClient (demoStartEnv r) = demoServer"
  by (simp_all add: demoStartEnv_def)

theorem nothing_written_before_pin_witness:
  "\<exists>r w' wA w1 rest. startup (demoStartEnv ''der'') demoAggEnv noTimers demoWorld = Some (Inr r, w') \<and>
     RegistrationLink ownListed = Some ''/rg'' \<and> pinGate (demoStartEnv ''der'') ownListed wA ownListed w1 \<and> emits {MethodGet} demoWorld w1 \<and>
     sent w' = sent w1 @ rest \<and> \<lparr>rqMethod = MethodPut, rqURL = ''/cap'', rqBody = ''c''\<rparr> \<in> set rest"
proof -
  let ?E = "demoStartEnv ''der''"
  let ?w = "asked MethodPut ''/cap'' ''c'' (asked MethodGet ''https://s/der'' [] (startReads demoWorld))"
  obtain rep where m: "deviceMetering ?E demoDcap [] ?w = Some (Inr rep, ?w)"
    by (simp add: deviceMetering_def runPhase4Metering_def createOwnMirror_def demoDcap_def demoStartEnv_def NewReporter_def demoClient_def)
  have s: "startup ?E demoAggEnv noTimers demoWorld = Some (Inr (ReadyDevice ownListed None None rep), ?w)"
    using m der_permits by (simp add: startup_def servicePhases_def andThen_def demo_identity demo_services demo_setup
        skipDERPipelineForRole_def goOn_def Let_def)
  obtain dcap wD wB ed0 href wA ed w1 rest where *: "discovery ?E [] demoWorld = Some (Inr dcap, wD)"
    "timePhase ?E dcap 0 wD = Some (Inr (), wB)" "acquirePhase ?E dcap [] wB = Some (Inr (ed0, href), wA)"
    "pinGate ?E ed0 wA ed w1" "emits {MethodGet} demoWorld w1" "sent ?w = sent w1 @ rest"
    using nothing_written_before_pin [OF s] by (auto simp: endDeviceAcquisitionUsesLookup_def)
  have d: "dcap = demoDcap" "wD = asked MethodGet ''https://s/dcap'' [] demoWorld" using *(1) demo_discovery [OF der_permits(1)] by simp_all
  then have "wB = wD" using *(2) by (simp add: demo_time)
  then have o: "ed0 = ownListed" using *(3) d der_permits(1) by (simp add: demo_acquire)
  have l: "RegistrationLink ownListed = Some ''/rg''" by (simp add: ownListed_def)
  then have "ed = ownListed" using *(4) o by (auto simp: pinGate_def)
  let ?put = "\<lparr>rqMethod = MethodPut, rqURL = ''/cap'', rqBody = ''c''\<rparr>"
  obtain first where "sent w1 = first" "\<forall>rq\<in>set first. rqMethod rq = MethodGet" using *(5) by (auto simp: emits_def demoWorld_def)
  then have "?put \<notin> set (sent w1)" by (auto simp: MethodPut_def MethodGet_def)
  moreover have "?put \<in> set (sent ?w)" by simp
  ultimately have "?put \<in> set rest" unfolding *(6) by simp
  then show ?thesis using s * o l \<open>ed = ownListed\<close> by blast
qed

lemma wf_replayed: "wfConfig (demoFile ''aggregator'' [replayed] 1200 3000)"
  using parsed_config_well_formed [OF demo_parse visits_demo(1)]
  by (simp add: wfConfig_def demoFile_def wfManaged_def replayed_def demoManaged_def wfReplay_def demoSynthetic_def)

abbreviation aggWorld :: "nat World" where
  "aggWorld \<equiv> demoWorld\<lparr>cGuard := NewGuard RoleAggregator ''AA'' None []\<rparr>"

lemma agg_permits: "selfPermits aggWorld KindEndDeviceRead" "selfPermits aggWorld KindRegistrationRead"
  by (simp_all add: permits_def ownTarget_def selfAllowed_def NewGuard_def RoleAggregator_def aggregatorSelfKinds_def)

lemma demo_fleet_starts:
  assumes "selfPermits w KindEndDeviceRead"
  shows "\<exists>fl w'. startManagedForRole (demoFleetEnv\<lparr>feClient := demoServer\<rparr>) demoParseTime demoParseFloat (\<lambda>_. Some (map demoLine [0..<1440]))
     mk (\<lambda>_. Some \<lparr>edEndDevice = [ownListed, blankEndDevice\<lparr>LFDI := demoLFDI\<rparr>]\<rparr>) demoDcap ''/edev''
     (Some (demoFile ''aggregator'' [replayed] 1200 3000)) i w = (Inr (Some fl), w')"
proof -
  obtain r where r: "NewReplay demoParseTime demoParseFloat (Some (map demoLine [0..<1440])) 100000000000
     \<lparr>rcFile = ''f'', rcType = ''pv'', rcClock = ''wall'', rcScale = 1, rcRatedW = 10000, rcCapacityWh = 10000, rcInitialSOC = Fin (1/2)\<rparr> = Inr r"
    using replay_starts by blast
  have "length (toUpper demoLFDI) \<noteq> length (toUpper ''AA'')" by (simp add: demoLFDI_def toUpper_def)
  then have "\<not> equalFold demoLFDI ''AA''" "NewReporter demoLFDI [] [] \<noteq> None"
    by (auto simp: equalFold_def NewReporter_def demoLFDI_def)
  then have "lfdi demoServer = ''AA''" "\<exists>rep. NewReporter demoLFDI [] [] = Some rep" "\<not> equalFold demoLFDI ''AA''" by (auto simp: demoClient_def)
  then show ?thesis
    using assms r
    by (auto simp: startManagedForRole_def startManaged_def demoFile_def replayed_def demoManaged_def demoSynthetic_def demoPV_def
      GetEndDeviceList_def getPaged_def asked_Get missingManaged_def Let_def startManagedDevice_def theOr_def demoFleetEnv_def
      tryMirror_def demoDcap_def)
qed

theorem aggregator_starts_as_manager_witness:
  "\<exists>ag fl w'. startup (demoStartEnv ''aggregator'') demoAggEnv noTimers aggWorld = Some (Inr (ReadyAggregator ag), w') \<and>
     emits {MethodGet, MethodPost} aggWorld w' \<and> agFleet ag = Some fl \<and> map mdLFDI (mfDevices fl) = [demoLFDI] \<and>
     mfStatusInterval fl = 60000000000"
proof -
  let ?f = "demoFile ''aggregator'' [replayed] 1200 3000"
  have ro: "startReservations q None None (Some f) fl = \<lparr>agFleet = fl, agReserver = None\<rparr>" for q f and fl :: "nat managedFleet option"
    by (simp add: startReservations_def newReserver_def)
  obtain fl0 w' where s: "startManagedForRole (aeFleet demoAggEnv) (aeParseTime demoAggEnv) (aeParseFloat demoAggEnv) (aeFiles demoAggEnv)
      (aeSession demoAggEnv) (decEndDevices (stDec (demoStartEnv ''aggregator''))) demoDcap ''/edev'' (Some ?f) (aeReportInterval demoAggEnv)
      (startReads aggWorld) = (Inr (Some fl0), w')"
    using demo_fleet_starts [of "startReads aggWorld" "aeSession demoAggEnv" "aeReportInterval demoAggEnv"] agg_permits
    by (auto simp: demoAggEnv_def demoStartEnv_def)
  define ag where "ag = startReservations ''AA'' None None (Some ?f) (Some (setStatusInterval (seconds 60) fl0))"
  have l: "lfdi demoServer = ''AA''" by (simp add: demoClient_def)
  have "setupPhase (demoStartEnv ''aggregator'') ownListed w = Some (Inr [], w)" for w
    by (simp add: setupPhase_def skipDERPipelineForRole_def)
  moreover have "aggregatorPhase (demoStartEnv ''aggregator'') demoAggEnv demoDcap ''/edev'' (startReads aggWorld) = Some (Inr ag, w')"
    using s by (simp add: aggregatorPhase_def l NewReporter_def ag_def) (simp add: l demoAggEnv_def demoFile_def)
  ultimately have st: "startup (demoStartEnv ''aggregator'') demoAggEnv noTimers aggWorld = Some (Inr (ReadyAggregator ag), w')"
    using agg_permits by (simp add: startup_def servicePhases_def andThen_def demo_identity demo_services
        skipDERPipelineForRole_def goOn_def Let_def)
  have si: "aeSim demoAggEnv = Some ?f" "aeReqLink demoAggEnv = None" "aeRespLink demoAggEnv = None" by (simp_all add: demoAggEnv_def)
  have h: "emits {MethodGet, MethodPost} aggWorld w'" "handedOver (demoStartEnv ''aggregator'') demoAggEnv ?f ag"
    using aggregator_starts_as_manager [OF st _ si(1) wf_replayed] by auto
  obtain fl list md where fl: "agFleet ag = Some fl" "mfDevices fl = [md]" "startedAs demoAggEnv list replayed md" "mfStatusInterval fl = 60000000000"
    using h(2) by (auto simp: handedOver_def demoFile_def list_all2_Cons1 seconds_def wrap64_def)
  then have "mdLFDI md = demoLFDI" by (simp add: startedAs_def replayed_def demoManaged_def)
  with fl st h(1) show ?thesis by auto
qed

end
