(* ===== verification/Preflight.thy ===== *)
theory Preflight
  imports Startup Backends Manager Notify Scenarios
begin

text \<open>
  From the command line to the first phase: the flags and their defaults (\<open>cmd/inverterclient/flags.go\<close>), what \<open>main\<close>
  checks and builds before anything runs (\<open>main.go\<close>, lines 244 to 334), and the start of the fleets. The text of the
  messages, the certificates and the listeners are left out.
\<close>

section \<open>Flags\<close>

definition getenv :: "(string \<Rightarrow> string option) \<Rightarrow> string \<Rightarrow> string" where
  "getenv env name = theOr [] (env name)"

definition defaultPEN :: "(string \<Rightarrow> string option) \<Rightarrow> int" where
  "defaultPEN env =
     (let v = getenv env ''SEP2_PEN'' in if v \<noteq> [] then theOr 0 (parseUint10 32 v) else 0)"

definition defaultNotifyListen :: "(string \<Rightarrow> string option) \<Rightarrow> string" where
  "defaultNotifyListen env =
     (let v = getenv env ''SEP2_NOTIFY_LISTEN'' in if v = [] then ''127.0.0.1:0'' else v)"

definition flagDefaults :: "(string \<Rightarrow> string option) \<Rightarrow> (string \<times> flagVal) list" where
  "flagDefaults env =
     [(''server'', FString ''https://localhost:8443''),
      (''cert'', FString ''certs/device.crt''),
      (''key'', FString ''certs/device.key''),
      (''ca'', FString ''certs/ca.crt''),
      (''scenario'', FString ''normal''),
      (''timescale'', FFloat 60),
      (''tick'', FDuration 1000000000),
      (''report-interval'', FDuration 10000000000),
      (''hmi-port'', FInt 0),
      (''list-scenarios'', FBool False),
      (''csip'', FBool False),
      (''pin'', FUint 0),
      (''allow-unregistered'', FBool False),
      (''pen'', FUint (defaultPEN env)),
      (''notify-listen'', FString (defaultNotifyListen env)),
      (''notify-advertise-host'', FString []),
      (''backend'', FString ''synthetic''),
      (''role'', FString ''simulator''),
      (''client-role'', FString RoleDER),
      (''fleet-file'', FList []),
      (''run-dir'', FString []),
      (''sidecar-pythonpath'', FString ''sim/gridlabd''),
      (''sim-config'', FString [])]"

definition registerFlags :: "(string \<Rightarrow> string option) \<Rightarrow> FlagSet" where
  "registerFlags env = \<lparr>flagValues = map_of (flagDefaults env), flagsGiven = []\<rparr>"

text \<open>The command line as names and texts in order; \<open>None\<close> is an unknown flag or a text its type does not take.\<close>

fun parseArgs :: "flagSyntax \<Rightarrow> (string \<times> string) list \<Rightarrow> FlagSet \<Rightarrow> FlagSet option" where
  "parseArgs T [] fs = Some fs"
| "parseArgs T ((name, v) # args) fs =
     (case setFlag T name v fs of None \<Rightarrow> None | Some fs \<Rightarrow> parseArgs T args fs)"

definition boolFlag :: "FlagSet \<Rightarrow> string \<Rightarrow> bool" where
  "boolFlag fs name \<longleftrightarrow> flagValues fs name = Some (FBool True)"

definition uintFlag :: "FlagSet \<Rightarrow> string \<Rightarrow> int" where
  "uintFlag fs name = (case flagValues fs name of Some (FUint n) \<Rightarrow> n | _ \<Rightarrow> 0)"

definition durationFlag :: "FlagSet \<Rightarrow> string \<Rightarrow> duration" where
  "durationFlag fs name = (case flagValues fs name of Some (FDuration d) \<Rightarrow> d | _ \<Rightarrow> 0)"

definition floatFlag :: "FlagSet \<Rightarrow> string \<Rightarrow> f64" where
  "floatFlag fs name = (case flagValues fs name of Some (FFloat x) \<Rightarrow> x | _ \<Rightarrow> 0)"

definition listFlag :: "FlagSet \<Rightarrow> string \<Rightarrow> string list" where
  "listFlag fs name = (case flagValues fs name of Some (FList xs) \<Rightarrow> xs | _ \<Rightarrow> [])"

section \<open>What is built\<close>

text \<open>What the start reads besides the flags: the environment, the configuration file, the file system, the recording.\<close>

record preEnv =
  peSyntax :: flagSyntax
  peLoad :: "string \<Rightarrow> cfgErr + simFile"
  peEnv :: "string \<Rightarrow> string option"
  peFS :: fileSystem
  peTiming :: SupervisorConfig
  peParseTime :: parseTime
  peParseFloat :: parseFloat
  peFiles :: "string \<Rightarrow> string list option"
  peNow :: time

datatype preflightErr =
    BadStart startRefusal
  | BadHost hostErr
  | BadFleets mgrErr
  | BadPEN int
  | UnknownScenario string
  | BadDevice backendErr
  | UnknownDispatch string
  | RatingRange f64

record assembly =
  asFlags :: FlagSet
  asSim :: "simResult option"
  asFleets :: "Manager option"
  asPEN :: int
  asScenario :: Scenario
  asDevice :: backend
  asDispatcher :: dispatcherKind
  asRatedW :: int
  asRatedVAr :: int

datatype checked = NotBuilt preflightErr | ListOnly "string list" | Assembled assembly

abbreviation zeroReplaySettings :: ReplaySettings where
  "zeroReplaySettings \<equiv> \<lparr>rsFile = [], rsType = [], rsClock = [], rsScale = 0, rsRatedW = 0, rsCapacityWh = 0, rsInitialSOC = 0\<rparr>"

text \<open>What follows the choice of the scenario: the device, the dispatcher, the ratings that go on the wire.\<close>

definition construct :: "preEnv \<Rightarrow> FlagSet \<Rightarrow> simResult option \<Rightarrow> Manager option \<Rightarrow> int \<Rightarrow> Scenario \<Rightarrow> checked" where
  "construct E fs r m pn sc =
     (let rt = (case r of None \<Rightarrow> defaultRating | Some x \<Rightarrow> smRating x);
          cfg = \<lparr>dcBackend = stringFlag fs ''backend'', dcTick = durationFlag fs ''tick'', dcTimeScale = floatFlag fs ''timescale'',
                 dcReplay = (case r of None \<Rightarrow> zeroReplaySettings | Some x \<Rightarrow> smReplay x), dcMaxStateAge = 0\<rparr>
      in case deviceNew (peParseTime E) (peParseFloat E) (peFiles E) rt (peNow E) sc cfg of
           Inl e \<Rightarrow> NotBuilt (BadDevice e)
         | Inr dev \<Rightarrow>
             (case dispatchNew (stringFlag fs ''role'') of
                None \<Rightarrow> NotBuilt (UnknownDispatch (stringFlag fs ''role''))
              | Some d \<Rightarrow>
                  (case ratingInt16 (RatedW rt) of
                     None \<Rightarrow> NotBuilt (RatingRange (RatedW rt))
                   | Some w \<Rightarrow>
                       (case ratingInt16 (RatedVAr rt) of
                          None \<Rightarrow> NotBuilt (RatingRange (RatedVAr rt))
                        | Some v \<Rightarrow>
                            Assembled \<lparr>asFlags = fs, asSim = r, asFleets = m, asPEN = pn, asScenario = sc, asDevice = dev,
                              asDispatcher = d, asRatedW = w, asRatedVAr = v\<rparr>))))"

definition assemble :: "preEnv \<Rightarrow> FlagSet \<Rightarrow> checked" where
  "assemble E fs =
     (case startGate (peSyntax E) (peLoad E) fs defaultRating (peEnv E) of
        Inl e \<Rightarrow> NotBuilt (BadStart e)
      | Inr (fs, r) \<Rightarrow>
          (case validateNotifyAdvertiseHost (stringFlag fs ''notify-advertise-host'') of
             Some e \<Rightarrow> NotBuilt (BadHost e)
           | None \<Rightarrow>
               (case buildFleetManagerConfig (peFS E) (peEnv E) (peTiming E) (stringFlag fs ''client-role'') (listFlag fs ''fleet-file'')
                   (stringFlag fs ''run-dir'') (stringFlag fs ''sidecar-pythonpath'') of
                  Inl e \<Rightarrow> NotBuilt (BadFleets e)
                | Inr mc \<Rightarrow>
                    (case NewManager (peFS E) (peEnv E) mc of
                       Inl e \<Rightarrow> NotBuilt (BadFleets e)
                     | Inr m \<Rightarrow>
                         (case applyPEN (uintFlag fs ''pen'') of
                            None \<Rightarrow> NotBuilt (BadPEN (uintFlag fs ''pen''))
                          | Some pn \<Rightarrow>
                              if boolFlag fs ''list-scenarios'' then ListOnly (sort (map fst AllScenarios))
                              else
                                (case map_of AllScenarios (stringFlag fs ''scenario'') of
                                   None \<Rightarrow> NotBuilt (UnknownScenario (stringFlag fs ''scenario''))
                                 | Some sc \<Rightarrow> construct E fs r m pn sc))))))"

section \<open>The fleets are started\<close>

datatype preflightEnd = EndRefused preflightErr | EndListed "string list" | EndSignal | EndFleet startErr | Ready assembly

definition fleetsOf :: "Manager option \<Rightarrow> string list" where
  "fleetsOf m = (case m of None \<Rightarrow> [] | Some m \<Rightarrow> map scFleet (mSupervisors m))"

text \<open>\<open>None\<close> still waits for a first start.\<close>

definition preflight :: "preEnv \<Rightarrow> FlagSet \<Rightarrow> startErr option list \<Rightarrow> bool \<Rightarrow> (fleetAct list \<times> preflightEnd) option" where
  "preflight E fs outcomes ctxDone =
     (case assemble E fs of
        NotBuilt e \<Rightarrow> Some ([], EndRefused e)
      | ListOnly ns \<Rightarrow> Some ([], EndListed ns)
      | Assembled a \<Rightarrow>
          (case startFleets (fleetsOf (asFleets a)) outcomes ctxDone of
             None \<Rightarrow> None
           | Some (acts, None) \<Rightarrow> Some (acts, Ready a)
           | Some (acts, Some FleetSignal) \<Rightarrow> Some (acts, EndSignal)
           | Some (acts, Some (FleetRefused e)) \<Rightarrow> Some (acts, EndFleet e)))"

text \<open>The exit status of a start that ends here.\<close>

definition preflightStatus :: "preflightEnd \<Rightarrow> nat option" where
  "preflightStatus e =
     (case e of EndRefused _ \<Rightarrow> Some 1 | EndListed _ \<Rightarrow> Some 0 | EndSignal \<Rightarrow> Some 0 | EndFleet _ \<Rightarrow> Some 1 | Ready _ \<Rightarrow> None)"

section \<open>All or nothing\<close>

text \<open>A rating and the integer that stands for it on the wire: the rating lies in the range of an int16, and loses only its fraction.\<close>

definition onWire :: "f64 \<Rightarrow> int \<Rightarrow> bool" where
  "onWire x n \<longleftrightarrow>
     (case x of
        Fin r \<Rightarrow> - 32768 \<le> r \<and> r \<le> 32767 \<and> n = truncReal r
      | NaN \<Rightarrow> True
      | _ \<Rightarrow> False)"

definition ratingOf :: "simResult option \<Rightarrow> Nameplate" where
  "ratingOf r = (case r of None \<Rightarrow> defaultRating | Some x \<Rightarrow> smRating x)"

lemma ratingInt16_wire:
  assumes "ratingInt16 x = Some n"
  shows "onWire x n"
proof (cases x)
  case (Fin r)
  then have r: "- 32768 \<le> r" "r \<le> 32767" using assms by (auto simp: ratingInt16_def split: if_splits)
  then have "- 32768 \<le> truncReal r" "truncReal r \<le> 32767" by (auto simp: truncReal_def floor_le_iff le_ceiling_iff le_floor_iff ceiling_le_iff)
  then have "int16 (truncReal r) = truncReal r" "toInt64 x = truncReal r"
    using Fin by (simp_all add: int16_def int_word_sint minInt64_def maxInt64_def)
  then show ?thesis using assms Fin r by (auto simp: onWire_def ratingInt16_def split: if_splits)
qed (use assms in \<open>auto simp: onWire_def ratingInt16_def\<close>)

lemma construct_ok:
  assumes "construct E fs r m pn sc = Assembled a"
  shows "asFlags a = fs \<and> asSim a = r \<and> asFleets a = m \<and> asPEN a = pn \<and> asScenario a = sc \<and>
    dispatchNew (stringFlag fs ''role'') = Some (asDispatcher a) \<and>
    onWire (RatedW (ratingOf r)) (asRatedW a) \<and> onWire (RatedVAr (ratingOf r)) (asRatedVAr a)"
  using assms by (auto simp: construct_def ratingOf_def Let_def dest!: ratingInt16_wire split: sum.splits option.splits)

lemma construct_not_list: "construct E fs r m pn sc \<noteq> ListOnly ns"
  by (auto simp: construct_def Let_def split: sum.splits option.splits)

lemma assemble_ok:
  assumes "assemble E fs0 = Assembled a"
  shows "\<exists>mc. startGate (peSyntax E) (peLoad E) fs0 defaultRating (peEnv E) = Inr (asFlags a, asSim a) \<and>
    NewManager (peFS E) (peEnv E) mc = Inr (asFleets a) \<and> mcRole mc = stringFlag (asFlags a) ''client-role'' \<and>
    mcFleetFiles mc = listFlag (asFlags a) ''fleet-file'' \<and>
    map_of AllScenarios (stringFlag (asFlags a) ''scenario'') = Some (asScenario a) \<and>
    \<not> boolFlag (asFlags a) ''list-scenarios'' \<and> asPEN a = uintFlag (asFlags a) ''pen'' \<and> asPEN a \<le> 0xFFFFFFFF \<and>
    dispatchNew (stringFlag (asFlags a) ''role'') = Some (asDispatcher a) \<and>
    onWire (RatedW (ratingOf (asSim a))) (asRatedW a) \<and> onWire (RatedVAr (ratingOf (asSim a))) (asRatedVAr a)"
proof -
  have b: "mcRole mc = role \<and> mcFleetFiles mc = files"
    if "buildFleetManagerConfig fs' env timing role files dir py = Inr mc" for fs' env timing role files dir py mc
    using that by (auto simp: buildFleetManagerConfig_def Let_def split: if_splits sum.splits)
  show ?thesis
    using assms
    by (auto simp: assemble_def applyPEN_def dest!: b construct_ok split: sum.splits option.splits prod.splits if_splits)
qed

lemma startFleets_started:
  assumes "startFleets fs os d = Some (acts, None)"
  shows "acts = map FleetRun fs \<and> length fs \<le> length os \<or> fs = [] \<and> acts = []" "x \<in> set (take (length fs) os) \<Longrightarrow> x = None"
  using assms by (auto simp: startFleets_def find_None_iff find_Some_iff split: if_splits option.splits)

text \<open>The fleets of a manager are those of its files, in their order.\<close>

definition fleetOfFile :: "fileSystem \<Rightarrow> string \<Rightarrow> string \<Rightarrow> bool" where
  "fleetOfFile fs path name \<longleftrightarrow> (\<exists>ff. LoadFleetFile fs path = Inr ff \<and> name = ffFleet ff)"

lemma NewManager_fleets:
  assumes "NewManager fs env cfg = Inr m"
  shows "distinct (fleetsOf m) \<and> (mcRole cfg \<noteq> AggregatorRole \<longrightarrow> mcFleetFiles cfg = []) \<and> (m = None \<longleftrightarrow> mcFleetFiles cfg = []) \<and>
    list_all2 (fleetOfFile fs) (mcFleetFiles cfg) (fleetsOf m)"
proof -
  have "distinct (map scFleet (mSupervisors x)) \<and> list_all2 (fleetOfFile fs) files (map scFleet (mSupervisors x))"
    if "buildFleets fs env c files [] [] = Inr x" for c files x
    using buildFleets_ok [OF that] buildFleets_files [OF that] by (simp add: manager_ok_def list_all2_map2 fleetOfFile_def)
  then show ?thesis
    using assms by (auto simp: NewManager_def fleetsOf_def Let_def split: if_splits option.splits sum.splits)
qed

lemma startGate_role: "startGate T ld fs rt env = Inr (fs', r) \<Longrightarrow> stringFlag fs' ''client-role'' \<in> {''der'', ''aggregator''}"
  by (auto simp: startGate_def Let_def ParseRole_def RoleDER_def RoleAggregator_def split: sum.splits option.splits if_splits)

lemma startFleets_failed:
  assumes "startFleets fs os d = Some (acts, Some x)"
  shows "(x = FleetSignal \<longleftrightarrow> d) \<and> (\<forall>e. x = FleetRefused e \<longrightarrow> Some e \<in> set os) \<and>
    count_list acts (FleetStop f) = count_list acts (FleetRun f)"
proof -
  have f: "find P ys = Some y \<Longrightarrow> y \<in> set ys" for P and ys :: "startErr option list" and y by (auto simp: find_Some_iff)
  have "(x = FleetSignal \<longleftrightarrow> d) \<and> (\<forall>e. x = FleetRefused e \<longrightarrow> Some e \<in> set (take (length fs) os))"
    using assms by (auto simp: startFleets_def dest: f split: if_splits option.splits)
  then show ?thesis using startFleets_balanced [OF assms] by (auto dest: in_set_takeD)
qed

text \<open>C40: The start is all or nothing. When it gets through, the role is one of the two and fleet files belong to an
  aggregator only; there is a fleet manager exactly when fleet files are configured, and what was run is one fleet per file, in
  their order, each under the name its file gives and no name twice, and every first start succeeded; the scenario and the
  dispatcher are the named ones; the enterprise number is the one given and fits 32 bits; and the ratings that go
  on the wire are the nameplate's, which lie in the range of an int16, without their fractions. When it does
  not get through, the process exits with status 1 for a refusal and 0 for a listing or a signal, and every fleet that was run
  has been stopped; nothing at all was run when a setting was refused.
\<close>

theorem start_is_all_or_nothing:
  assumes "preflight E fs outcomes ctxDone = Some (acts, e)"
  shows "case e of
      Ready a \<Rightarrow>
        (let role = stringFlag (asFlags a) ''client-role''; files = listFlag (asFlags a) ''fleet-file'' in
         role \<in> {''der'', ''aggregator''} \<and> (role = ''der'' \<longrightarrow> files = []) \<and> (asFleets a = None \<longleftrightarrow> files = []) \<and>
         acts = map FleetRun (fleetsOf (asFleets a)) \<and> distinct (fleetsOf (asFleets a)) \<and>
         list_all2 (fleetOfFile (peFS E)) files (fleetsOf (asFleets a)) \<and>
         length acts \<le> length outcomes \<and> (\<forall>x\<in>set (take (length acts) outcomes). x = None) \<and>
         (stringFlag (asFlags a) ''scenario'', asScenario a) \<in> set AllScenarios \<and>
         dispatchNew (stringFlag (asFlags a) ''role'') = Some (asDispatcher a) \<and>
         asPEN a = uintFlag (asFlags a) ''pen'' \<and> asPEN a \<le> 0xFFFFFFFF \<and>
         onWire (RatedW (ratingOf (asSim a))) (asRatedW a) \<and> onWire (RatedVAr (ratingOf (asSim a))) (asRatedVAr a))
    | EndRefused _ \<Rightarrow> acts = [] \<and> preflightStatus e = Some 1
    | EndListed _ \<Rightarrow> acts = [] \<and> preflightStatus e = Some 0
    | EndSignal \<Rightarrow> ctxDone \<and> preflightStatus e = Some 0 \<and> (\<forall>f. count_list acts (FleetStop f) = count_list acts (FleetRun f))
    | EndFleet x \<Rightarrow> Some x \<in> set outcomes \<and> \<not> ctxDone \<and> preflightStatus e = Some 1 \<and>
        (\<forall>f. count_list acts (FleetStop f) = count_list acts (FleetRun f))"
proof (cases "assemble E fs")
  case (Assembled a)
  obtain x where st: "startFleets (fleetsOf (asFleets a)) outcomes ctxDone = Some (acts, x)"
    using assms Assembled by (auto simp: preflight_def split: option.splits fleetStartErr.splits)
  show ?thesis
  proof (cases x)
    case None
    then have e: "e = Ready a" using assms Assembled st by (simp add: preflight_def)
    obtain mc where ok: "startGate (peSyntax E) (peLoad E) fs defaultRating (peEnv E) = Inr (asFlags a, asSim a)"
      "NewManager (peFS E) (peEnv E) mc = Inr (asFleets a)" "mcRole mc = stringFlag (asFlags a) ''client-role''"
      "mcFleetFiles mc = listFlag (asFlags a) ''fleet-file''"
      "map_of AllScenarios (stringFlag (asFlags a) ''scenario'') = Some (asScenario a)"
      "asPEN a = uintFlag (asFlags a) ''pen''" "asPEN a \<le> 0xFFFFFFFF"
      "dispatchNew (stringFlag (asFlags a) ''role'') = Some (asDispatcher a)"
      "onWire (RatedW (ratingOf (asSim a))) (asRatedW a)" "onWire (RatedVAr (ratingOf (asSim a))) (asRatedVAr a)"
      using assemble_ok [OF Assembled] by blast
    note st = startFleets_started [OF st [unfolded None]] and m = NewManager_fleets [OF ok(2), unfolded ok(3,4)]
    have "length acts = length (fleetsOf (asFleets a))" "acts = map FleetRun (fleetsOf (asFleets a))" using st(1) by auto
    then show ?thesis
      unfolding e preflightEnd.case Let_def
      using startGate_role [OF ok(1)] st m ok(6-) map_of_SomeD [OF ok(5)] by (auto simp: AggregatorRole_def)
  next
    case (Some y)
    then show ?thesis
      using assms Assembled st startFleets_failed [OF st [unfolded Some]]
      by (auto simp: preflight_def preflightStatus_def split: fleetStartErr.splits)
  qed
qed (use assms in \<open>auto simp: preflight_def preflightStatus_def\<close>)

section \<open>The client\<close>

text \<open>
  \<open>NewSEP2Client\<close>: the certificate files are read by the core library's TLS package, whose result is a parameter, the
  SFDI and LFDI of the leaf certificate; \<open>net\<close> has the transport. The client's guard stands for the same identity.
\<close>

datatype clientErr = BadCertificate | BadClientRole string

definition NewSEP2Client :: "(string \<Rightarrow> string \<Rightarrow> string \<Rightarrow> (string \<times> string) option) \<Rightarrow> 'w Client \<Rightarrow> FlagSet \<Rightarrow> int \<Rightarrow> clientErr + ('w Client \<times> Guard)" where
  "NewSEP2Client creds net fs pn =
     (case creds (stringFlag fs ''cert'') (stringFlag fs ''key'') (stringFlag fs ''ca'') of
        None \<Rightarrow> Inl BadCertificate
      | Some (sf, lf) \<Rightarrow>
          (let given = stringFlag fs ''client-role'' in
           case (if given = [] then Some RoleDER else ParseRole given) of
             None \<Rightarrow> Inl (BadClientRole given)
           | Some role \<Rightarrow>
               Inr (net\<lparr>baseURL := stringFlag fs ''server'', sfdi := sf, lfdi := lf, pen := word_of_int pn\<rparr>,
                 NewGuard role lf None [WithRefusalLogger True DefaultRefusalLogWindow])))"

text \<open>
  A new client speaks for itself only: whatever device another target names, its guard refuses it until the managed set is
  installed, and the enterprise number it stamps is the one that was given.
\<close>

lemma new_client_speaks_for_itself:
  assumes "NewSEP2Client creds net fs pn = Inr (c, g)" "permits g meth a"
  shows "Guard.selfLFDI g = lfdi c \<and> (TargetLFDI a = [] \<or> equalFold (TargetLFDI a) (lfdi c)) \<and> selfAllowed (gRole g) (aKind a)"
  using assms
  by (auto simp: NewSEP2Client_def NewGuard_def WithRefusalLogger_def permits_def isMember_def ownTarget_def Let_def
      split: option.splits if_splits)

lemma new_client_pen:
  assumes "assemble E fs0 = Assembled a" "0 \<le> uintFlag (asFlags a) ''pen''" "NewSEP2Client creds net (asFlags a) (asPEN a) = Inr (c, g)"
  shows "uint (pen c) = uintFlag (asFlags a) ''pen''"
proof -
  have n: "asPEN a = uintFlag (asFlags a) ''pen''" "asPEN a \<le> 0xFFFFFFFF"
    using assms(1) by (auto simp: assemble_def applyPEN_def dest!: construct_ok split: sum.splits option.splits prod.splits if_splits)
  then have "uint (word_of_int (asPEN a) :: 32 word) = asPEN a" using assms(2) by (simp add: uint_word_of_int take_bit_eq_mod)
  moreover have "pen c = word_of_int (asPEN a)" using assms(3) by (auto simp: NewSEP2Client_def Let_def split: option.splits if_splits)
  ultimately show ?thesis using n(1) by simp
qed

section \<open>A start with two fleets\<close>

definition demoPreEnv :: preEnv where
  "demoPreEnv = \<lparr>peSyntax = demoSyntax, peLoad = demoLoad, peEnv = (\<lambda>_. None), peFS = demoFS, peTiming = mcTiming demoManagerConfig,
     peParseTime = demoParseTime, peParseFloat = demoParseFloat, peFiles = (\<lambda>_. None), peNow = 0\<rparr>"

lemma demo_ratings: "ratingInt16 (RatedW defaultRating) = Some 10000" "ratingInt16 (RatedVAr defaultRating) = Some 4400"
  by (simp_all add: ratingInt16_def defaultRating_def int16_def truncReal_def minInt64_def maxInt64_def)

text \<open>Two fleets on the command line of an aggregator.\<close>

definition demoArgs :: "(string \<times> string) list" where
  "demoArgs = [(''client-role'', ''aggregator''), (''fleet-file'', ''/x''), (''fleet-file'', ''/y''), (''run-dir'', ''/r''),
     (''sidecar-pythonpath'', [])]"

lemma demo_args:
  "\<exists>fs. parseArgs demoSyntax demoArgs (registerFlags (\<lambda>_. None)) = Some fs \<and> listFlag fs ''fleet-file'' = [''/x'', ''/y''] \<and>
     stringFlag fs ''client-role'' = ''aggregator'' \<and> stringFlag fs ''run-dir'' = ''/r'' \<and> stringFlag fs ''sidecar-pythonpath'' = [] \<and>
     stringFlag fs ''sim-config'' = [] \<and> stringFlag fs ''notify-advertise-host'' = [] \<and> stringFlag fs ''scenario'' = ''normal'' \<and>
     stringFlag fs ''backend'' = ''synthetic'' \<and> stringFlag fs ''role'' = ''simulator'' \<and> uintFlag fs ''pen'' = 0 \<and>
     \<not> csipFlag fs \<and> \<not> boolFlag fs ''list-scenarios''"
  by (simp add: demoArgs_def registerFlags_def flagDefaults_def setFlag_def listFlag_def stringFlag_def uintFlag_def csipFlag_def boolFlag_def
      defaultPEN_def getenv_def theOr_def)

lemma demo_assembles:
  "\<exists>fs a. parseArgs demoSyntax demoArgs (registerFlags (\<lambda>_. None)) = Some fs \<and> assemble demoPreEnv fs = Assembled a \<and>
     fleetsOf (asFleets a) = [''X'', ''Y''] \<and> asSim a = None \<and> listFlag (asFlags a) ''fleet-file'' = [''/x'', ''/y'']"
proof -
  obtain fs where fs: "parseArgs demoSyntax demoArgs (registerFlags (\<lambda>_. None)) = Some fs" and
    f: "listFlag fs ''fleet-file'' = [''/x'', ''/y'']" "stringFlag fs ''client-role'' = ''aggregator''" "stringFlag fs ''run-dir'' = ''/r''"
      "stringFlag fs ''sidecar-pythonpath'' = []" "stringFlag fs ''sim-config'' = []" "stringFlag fs ''notify-advertise-host'' = []"
      "stringFlag fs ''scenario'' = ''normal''" "stringFlag fs ''backend'' = ''synthetic''" "stringFlag fs ''role'' = ''simulator''"
      "uintFlag fs ''pen'' = 0" "\<not> csipFlag fs" "\<not> boolFlag fs ''list-scenarios''"
    using demo_args by blast
  let ?mc = "demoManagerConfig\<lparr>mcEnv := Some (fleetSidecarEnv (\<lambda>_. None) [])\<rparr>"
  obtain m where m: "NewManager demoFS (\<lambda>_. None) ?mc = Inr (Some m)" "map scFleet (mSupervisors m) = [''X'', ''Y'']"
    using demo_manager [of "Some (fleetSidecarEnv (\<lambda>_. None) [])"] by (elim exE conjE) (rule that)
  have g: "startGate (peSyntax demoPreEnv) (peLoad demoPreEnv) fs defaultRating (peEnv demoPreEnv) = Inr (fs, None)"
    by (simp add: startGate_def loadSimConfig_def simConfigPath_def f demoPreEnv_def ParseRole_def RoleAggregator_def
        derOnlyFlagUsedInAggregatorRole_def)
  have c: "buildFleetManagerConfig (peFS demoPreEnv) (peEnv demoPreEnv) (peTiming demoPreEnv) ''aggregator'' [''/x'', ''/y''] ''/r'' [] = Inr ?mc"
    by (simp add: buildFleetManagerConfig_def resolveSidecarPythonPath_def demoPreEnv_def demoManagerConfig_def AggregatorRole_def Let_def)
  have n: "NewManager (peFS demoPreEnv) (peEnv demoPreEnv) ?mc = Inr (Some m)" using m(1) by (simp add: demoPreEnv_def)
  have "\<exists>a. assemble demoPreEnv fs = Assembled a \<and> asFleets a = Some m \<and> asFlags a = fs \<and> asSim a = None"
    by (simp add: assemble_def g f c n validateNotifyAdvertiseHost_def applyPEN_def AllScenarios_def construct_def deviceNew_def
        dispatchNew_def demo_ratings Let_def)
  with fs m(2) f(1) show ?thesis by (auto simp: fleetsOf_def)
qed

theorem start_is_all_or_nothing_witness:
  "\<exists>fs a acts. parseArgs demoSyntax demoArgs (registerFlags (\<lambda>_. None)) = Some fs \<and>
     preflight demoPreEnv fs [None, None] False = Some (acts, Ready a) \<and> acts = [FleetRun ''X'', FleetRun ''Y''] \<and>
     stringFlag (asFlags a) ''client-role'' = ''aggregator'' \<and> list_all2 (fleetOfFile demoFS) [''/x'', ''/y''] [''X'', ''Y''] \<and>
     onWire (Fin 10000) (asRatedW a) \<and>
     preflight demoPreEnv fs [None, Some (StartRefused ''r'')] False =
       Some ([FleetRun ''X'', FleetRun ''Y'', FleetStop ''X'', FleetStop ''Y''], EndFleet (StartRefused ''r''))"
proof -
  obtain fs a where a: "parseArgs demoSyntax demoArgs (registerFlags (\<lambda>_. None)) = Some fs" "assemble demoPreEnv fs = Assembled a"
      "fleetsOf (asFleets a) = [''X'', ''Y'']" "asSim a = None" "listFlag (asFlags a) ''fleet-file'' = [''/x'', ''/y'']"
    using demo_assembles by blast
  then have r: "RatedW (ratingOf (asSim a)) = Fin 10000" "peFS demoPreEnv = demoFS"
    by (simp_all add: ratingOf_def defaultRating_def demoPreEnv_def)
  have p: "preflight demoPreEnv fs [None, None] False = Some ([FleetRun ''X'', FleetRun ''Y''], Ready a)"
    "preflight demoPreEnv fs [None, Some (StartRefused ''r'')] False =
       Some ([FleetRun ''X'', FleetRun ''Y'', FleetStop ''X'', FleetStop ''Y''], EndFleet (StartRefused ''r''))"
    by (simp_all add: preflight_def a startFleets_def)
  have "stringFlag (asFlags a) ''client-role'' = ''aggregator'' \<and> list_all2 (fleetOfFile demoFS) [''/x'', ''/y''] [''X'', ''Y''] \<and>
      onWire (Fin 10000) (asRatedW a)"
    using start_is_all_or_nothing [OF p(1)] unfolding preflightEnd.case Let_def a(3,5) r by blast
  then show ?thesis using p a(1) by blast
qed

end
