(* ===== verification/Dashboard.thy ===== *)
theory Dashboard
  imports Simulator "HOL-Library.Sublist"
begin

text \<open>
  The local dashboard (\<open>internal/inverter/hmi.go\<close>): every connected page has a channel of 50 lines, a broadcast puts
  its line into the channels that have room, and the page's handler writes what it takes out. The connections are the
  events of the model; JSON, HTTP and the page itself are parameters or left out.
\<close>

section \<open>The state\<close>

record HMIDataPoint =
  dpTime :: string
  dpSimTime :: string
  dpP :: f64
  dpQ :: f64
  dpPF :: f64
  dpV :: f64
  dpF :: f64
  dpMode :: string
  dpConnected :: bool
  dpIrradiance :: f64

text \<open>The sample a tick of the loop shows (\<open>main.go\<close>); the formats of the two clocks are parameters.\<close>

definition loopSample :: "(time \<Rightarrow> string) \<Rightarrow> (time \<Rightarrow> string) \<Rightarrow> time \<Rightarrow> time \<Rightarrow> f64 \<Rightarrow> InverterState \<Rightarrow> HMIDataPoint" where
  "loopSample fmtNow fmtSim now simTime irr st =
     \<lparr>dpTime = fmtNow now, dpSimTime = fmtSim simTime, dpP = isActivePowerW st, dpQ = isReactivePowerVAr st, dpPF = PowerFactor st,
      dpV = isVoltsPU st, dpF = isFreqHz st, dpMode = modeName (isMode st), dpConnected = isConnected st, dpIrradiance = irr\<rparr>"

text \<open>A page: the lines waiting in its channel and those written to it.\<close>

record page =
  waiting :: "string list"
  written :: "string list"

record dashboard =
  pages :: "(nat \<times> page) list"
  notifyAddr :: string

definition NewHMI :: dashboard where
  "NewHMI = \<lparr>pages = [], notifyAddr = []\<rparr>"

definition SetNotifyAddr :: "string \<Rightarrow> dashboard \<Rightarrow> dashboard" where
  "SetNotifyAddr addr h = h\<lparr>notifyAddr := addr\<rparr>"

definition handleNotifyAddr :: "dashboard \<Rightarrow> string" where
  "handleNotifyAddr h =
     (if notifyAddr h = [] then ''disabled'' @ [CHR 0x0A] else ''https://'' @ notifyAddr h @ ''/notify'' @ [CHR 0x0A])"

text \<open>\<open>json.Marshal\<close> refuses NaN and the infinities; \<open>enc\<close> is its text for the rest.\<close>

definition marshalPoint :: "(HMIDataPoint \<Rightarrow> string) \<Rightarrow> HMIDataPoint \<Rightarrow> string option" where
  "marshalPoint enc dp =
     (if list_all isFin [dpP dp, dpQ dp, dpPF dp, dpV dp, dpF dp, dpIrradiance dp] then Some (enc dp) else None)"

definition channelSize :: nat where "channelSize = 50"

definition offer :: "string \<Rightarrow> page \<Rightarrow> page" where
  "offer line p = (if length (waiting p) < channelSize then p\<lparr>waiting := waiting p @ [line]\<rparr> else p)"

definition Broadcast :: "(HMIDataPoint \<Rightarrow> string) \<Rightarrow> HMIDataPoint \<Rightarrow> dashboard \<Rightarrow> dashboard" where
  "Broadcast enc dp h =
     (case marshalPoint enc dp of
        None \<Rightarrow> h
      | Some line \<Rightarrow> h\<lparr>pages := map (\<lambda>(i, p). (i, offer line p)) (pages h)\<rparr>)"

definition connectPage :: "nat \<Rightarrow> dashboard \<Rightarrow> dashboard" where
  "connectPage i h = h\<lparr>pages := (i, \<lparr>waiting = [], written = []\<rparr>) # pages h\<rparr>"

definition disconnectPage :: "nat \<Rightarrow> dashboard \<Rightarrow> dashboard" where
  "disconnectPage i h = h\<lparr>pages := filter (\<lambda>(j, _). j \<noteq> i) (pages h)\<rparr>"

definition flushOne :: "page \<Rightarrow> page" where
  "flushOne p = (case waiting p of [] \<Rightarrow> p | l # ls \<Rightarrow> \<lparr>waiting = ls, written = written p @ [l]\<rparr>)"

definition flushPage :: "nat \<Rightarrow> dashboard \<Rightarrow> dashboard" where
  "flushPage i h = h\<lparr>pages := map (\<lambda>(j, p). (j, if j = i then flushOne p else p)) (pages h)\<rparr>"

text \<open>What happens to a dashboard. A channel is made for its connection: a connection has a number of its own.\<close>

datatype hmiEvent = Connect nat | Disconnect nat | Flush nat | Sample HMIDataPoint | NotifyAt string

fun hmiStep :: "(HMIDataPoint \<Rightarrow> string) \<Rightarrow> hmiEvent \<Rightarrow> dashboard \<Rightarrow> dashboard" where
  "hmiStep enc (Connect i) h = connectPage i h"
| "hmiStep enc (Disconnect i) h = disconnectPage i h"
| "hmiStep enc (Flush i) h = flushPage i h"
| "hmiStep enc (Sample dp) h = Broadcast enc dp h"
| "hmiStep enc (NotifyAt a) h = SetNotifyAddr a h"

definition hmiRun :: "(HMIDataPoint \<Rightarrow> string) \<Rightarrow> hmiEvent list \<Rightarrow> dashboard \<Rightarrow> dashboard" where
  "hmiRun enc evs h = fold (hmiStep enc) evs h"

section \<open>What a page sees\<close>

definition pageOf :: "nat \<Rightarrow> dashboard \<Rightarrow> page option" where
  "pageOf i h = map_of (pages h) i"

text \<open>The events of one connection, and its own view of them.\<close>

fun concerns :: "nat \<Rightarrow> hmiEvent \<Rightarrow> bool" where
  "concerns i (Connect j) = (j = i)"
| "concerns i (Disconnect j) = (j = i)"
| "concerns i (Flush j) = (j = i)"
| "concerns i (Sample _) = True"
| "concerns i (NotifyAt _) = False"

fun viewStep :: "(HMIDataPoint \<Rightarrow> string) \<Rightarrow> hmiEvent \<Rightarrow> page option \<Rightarrow> page option" where
  "viewStep enc (Connect _) v = Some \<lparr>waiting = [], written = []\<rparr>"
| "viewStep enc (Disconnect _) v = None"
| "viewStep enc (Flush _) v = map_option flushOne v"
| "viewStep enc (Sample dp) v = (case marshalPoint enc dp of None \<Rightarrow> v | Some l \<Rightarrow> map_option (offer l) v)"
| "viewStep enc (NotifyAt _) v = v"

lemma map_of_filter_ne: "map_of (filter (\<lambda>(j, _). j \<noteq> i) xs) k = (if k = i then None else map_of xs k)"
  by (induction xs) auto

lemma pageOf_step: "pageOf i (hmiStep enc ev h) = (if concerns i ev then viewStep enc ev (pageOf i h) else pageOf i h)"
proof (cases ev)
  case (Flush j)
  have "map_of (map (\<lambda>(k, p). (k, if k = j then flushOne p else p)) xs) i =
      (if i = j then map_option flushOne (map_of xs i) else map_of xs i)" for xs
    by (induction xs) auto
  then show ?thesis by (simp add: Flush pageOf_def flushPage_def)
next
  case (Sample dp)
  have "map_of (map (\<lambda>(k, p). (k, offer l p)) xs) i = map_option (offer l) (map_of xs i)" for l xs
    by (induction xs) auto
  then show ?thesis by (simp add: Sample pageOf_def Broadcast_def split: option.split)
qed (simp_all add: pageOf_def connectPage_def disconnectPage_def SetNotifyAddr_def map_of_filter_ne)

text \<open>A page's stream depends on its own events and the samples only: a slow page delays nobody.\<close>

theorem page_view: "pageOf i (hmiRun enc evs h) = fold (viewStep enc) (filter (concerns i) evs) (pageOf i h)"
proof (induction evs arbitrary: h)
  case (Cons ev evs)
  then show ?case by (simp add: hmiRun_def pageOf_step)
qed (simp add: hmiRun_def)

definition lines :: "(HMIDataPoint \<Rightarrow> string) \<Rightarrow> hmiEvent list \<Rightarrow> string list" where
  "lines enc evs = List.map_filter (\<lambda>ev. case ev of Sample dp \<Rightarrow> marshalPoint enc dp | _ \<Rightarrow> None) evs"

text \<open>The stream of a page is the samples since it connected, in order, without those that found 50 lines waiting;
  none of the first 50 is lost.\<close>

definition streamed :: "string list \<Rightarrow> page \<Rightarrow> bool" where
  "streamed ls p \<longleftrightarrow> subseq (written p @ waiting p) ls \<and> length (waiting p) \<le> channelSize \<and>
     (length ls \<le> channelSize \<longrightarrow> written p @ waiting p = ls)"

lemma streamed_offer: "streamed ls p \<Longrightarrow> streamed (ls @ [l]) (offer l p)"
proof -
  assume s: "streamed ls p"
  have "subseq ((written p @ waiting p) @ [l]) (ls @ [l])" "subseq (written p @ waiting p) (ls @ [l])"
    using s list_emb_append_mono [of "(=)" "written p @ waiting p" ls "[l]" "[l]"] by (simp_all add: streamed_def subseq_rev_drop_many del: append_assoc)
  moreover have "length ls \<le> channelSize \<Longrightarrow> length (waiting p) \<le> length ls" using s by (auto simp: streamed_def)
  ultimately show ?thesis using s by (auto simp: streamed_def offer_def)
qed

lemma streamed_flush: "streamed ls p \<Longrightarrow> streamed ls (flushOne p)"
  by (auto simp: streamed_def flushOne_def split: list.split)

lemma view_streamed:
  assumes "streamed ls p" "\<forall>ev\<in>set evs. ev \<notin> {Connect i, Disconnect i}"
  shows "\<exists>p'. fold (viewStep enc) (filter (concerns i) evs) (Some p) = Some p' \<and> streamed (ls @ lines enc evs) p'"
  using assms
proof (induction evs arbitrary: ls p)
  case (Cons ev evs)
  have r: "\<forall>ev\<in>set evs. ev \<notin> {Connect i, Disconnect i}" using Cons.prems(2) by simp
  show ?case
  proof (cases ev)
    case (Sample dp)
    show ?thesis
    proof (cases "marshalPoint enc dp")
      case None
      then show ?thesis using Cons.IH [OF Cons.prems(1) r] by (simp add: Sample lines_def map_filter_simps)
    next
      case (Some l)
      then show ?thesis using Cons.IH [OF streamed_offer [OF Cons.prems(1)] r] by (simp add: Sample lines_def map_filter_simps)
    qed
  next
    case (Flush j)
    then show ?thesis
      using Cons.IH [OF Cons.prems(1) r] Cons.IH [OF streamed_flush [OF Cons.prems(1)] r] by (simp add: lines_def map_filter_simps)
  qed (use Cons.IH [OF Cons.prems(1) r] Cons.prems(2) in \<open>simp_all add: lines_def map_filter_simps\<close>)
qed (simp add: lines_def map_filter_simps)

theorem pages_stream_in_order:
  assumes "\<forall>ev\<in>set evs. ev \<notin> {Connect i, Disconnect i}"
  shows "\<exists>p. pageOf i (hmiRun enc (Connect i # evs) h) = Some p \<and> streamed (lines enc evs) p"
proof -
  have "streamed [] \<lparr>waiting = [], written = []\<rparr>" by (simp add: streamed_def)
  from view_streamed [OF this assms, of enc] show ?thesis by (simp add: page_view)
qed

end
