(* ===== verification/Spec2Isabelle.thy ===== *)
theory Spec2Isabelle
  imports EventLoop RideThrough Alarms Manager Reserver SimMode Backends Managed DeviceLoop AggregatorLoop Startup Preflight Dashboard
begin

text \<open>
  A verification development for \<open>ieee-2030_5-client-go\<close>, an IEEE 2030.5 (CSIP) client that runs either as one
  inverter (role \<open>der\<close>) or as an aggregator that manages several devices.

  \<^bold>\<open>The program.\<close> \<open>main\<close> (\<open>src/cmd/inverterclient/main.go\<close>) reads flags, environment and an optional
  configuration file, builds a device backend and a notification dispatcher, starts the sidecars of its simulated fleets, and
  walks the phases of the protocol: discovery, clock, EndDevice, registration and PIN, subscriptions, function set assignments,
  programs, set-up of the DER, metering. After that a device polls the controls of its program into an event state
  machine, and its simulation loop applies what the machine offers, evaluates alarms and reports. An aggregator keeps
  one session per managed device, each with its own control session, and shares a granted flow reservation among the
  batteries. Every request passes the action guard of the client.

  \<^bold>\<open>Common ground.\<close>
  \<^item> \<open>Prelude\<close>: instants and durations as nanoseconds, 64-bit wrap-around, strings, generic lemmas. \<open>F64\<close>: \<open>float64\<close> as
    exact reals with infinities and NaN. \<open>Sep2\<close>: the fields of the core library's resources that the code reads.
    \<open>Types\<close>: \<open>internal/inverter/types.go\<close>.

  \<^bold>\<open>Events and controls\<close> (\<open>internal/inverter\<close>).
  \<^item> \<open>Scheduler\<close> (\<open>scheduler.go\<close>) and \<open>StateMachine\<close> (\<open>statemachine.go\<close>): one definition per method over the
    records of the Go structs. The queue implements the interface \<open>event_queue\<close>, a map from mRIDs to events.
    \<open>Lifecycle\<close> follows one event through both; it also shows an event that arrives while another one is current and is lost.
  \<^item> \<open>ControlCache\<close> (\<open>dercontrol_poll.go\<close>, \<open>stepEvents\<close> of \<open>main.go\<close>) and \<open>EventLoop\<close>: the polled list, the differences
    and the driver as an inductive relation, with the invariants of all its runs: no step skips the life cycle, what is cancelled or
    rejected never runs, and an event with a list entry is what the machine works on.
  \<^item> \<open>Curves\<close> (\<open>voltvar.go\<close>, \<open>freqdroop.go\<close>, \<open>dercurve_fetch.go\<close>), \<open>Controller\<close> (\<open>controller.go\<close>,
    \<open>control_refusal.go\<close>), \<open>RideThrough\<close> (\<open>ridethrough.go\<close>): totality, refusals, and the bounds of the commanded power.
  \<^item> \<open>Responses\<close> (\<open>response_hook.go\<close>, \<open>select.go\<close>, \<open>mrid.go\<close>), \<open>Retry\<close> (\<open>response_retry.go\<close>): every step of an
    event is answered, with bounded retries. \<open>Alarms\<close> (\<open>alarm_detector.go\<close>, \<open>log_event_*.go\<close>), \<open>Limiter\<close>
    (\<open>log_event_ratelimiter.go\<close>): alarms on edges, at most one per window; the limiter's interface \<open>rate_limiter\<close> is shared
    with the guard's refusal log.

  \<^bold>\<open>Requests.\<close>
  \<^item> \<open>Guard\<close> (\<open>guard/\<close>): what a role may send for which device. \<open>Http\<close>, \<open>ClientApi\<close> (\<open>client.go\<close>, \<open>errors.go\<close>,
    \<open>target.go\<close>): one request with its single redirect, and the typed operations. The state \<open>World\<close> holds the server, the
    requests sent so far, the guard and the clock offset. Nothing is sent that the guard did not permit, nor to another host.
  \<^item> \<open>Requests\<close>: which methods a call can send, as a chain of locales (read, post, write), interpreted at the three sets of
    methods the start-up needs.
  \<^item> \<open>Phases\<close> (\<open>phase*.go\<close>), \<open>Notify\<close> (\<open>notify*.go\<close>, \<open>subscription_*.go\<close>, \<open>dispatch/\<close>), \<open>Metering\<close>
    (\<open>reporter.go\<close>, \<open>mirror.go\<close>, \<open>phase4_metering.go\<close>).

  \<^bold>\<open>Devices.\<close>
  \<^item> \<open>Simulator\<close>, \<open>Scenarios\<close>, \<open>Replay\<close> (the simulated inverter, the scenarios, recorded output with a battery),
    \<open>SafetyGuards\<close> (\<open>device/guards.go\<close>, the write budget as an interface), \<open>Backends\<close> (\<open>device/select.go\<close>).
  \<^item> \<open>Sidecar\<close>, \<open>Supervisor\<close>, \<open>Fleet\<close>, \<open>Manager\<close> (\<open>internal/sim/gridlabd\<close>, \<open>device/fleet.go\<close>): the protocol of the
    sidecar, its life with restarts within a budget, the devices behind the interface \<open>fleet_transport\<close>, and the manager that
    keeps fleets apart.

  \<^bold>\<open>The aggregator.\<close>
  \<^item> \<open>Reservation\<close>, \<open>Reserver\<close> (\<open>reservation*.go\<close>): requests, grants, dispatch and withdrawals as a relation over the
    operator's and the server's moves. \<open>Sessions\<close> (\<open>managed_controls.go\<close>) refines the driver of \<open>EventLoop\<close>.
    \<open>Managed\<close> (\<open>managed.go\<close>, \<open>managed_status.go\<close>): the sessions of the managed devices and the tick of the fleet.

  \<^bold>\<open>The whole.\<close>
  \<^item> \<open>SimConfig\<close> (\<open>simconfig.go\<close>), \<open>SimMode\<close> (\<open>simmode.go\<close>, \<open>role.go\<close>), \<open>Preflight\<close> (\<open>flags.go\<close> and the checks of
    \<open>main\<close>), \<open>Startup\<close> (the phases in \<open>main\<close>'s order, \<open>fleet_start.go\<close>, the shutdown), \<open>DeviceLoop\<close> and
    \<open>AggregatorLoop\<close> (the two loops, \<open>reservation_start.go\<close>, \<open>reservation_signal*.go\<close>), \<open>Dashboard\<close> (\<open>hmi.go\<close>).
    Here the properties span components: an event's limit reaches the device, a grant reaches the batteries and stops with its
    withdrawal, nothing is written before the PIN, a refused start leaves nothing running.

  \<^bold>\<open>Conventions.\<close> A definition has the name of the function it models, or says in its text which part of a function it is. An
  error is a value; a panic is \<open>None\<close> where the code can reach one. Goroutines are sequences of events: what others
  do between two steps is an event or an input. Waiting is a list of timer answers, \<open>None\<close> for a timer that fires and the
  context's error for its end; a loop that still waits when the list is used up is \<open>None\<close>, and \<open>Phases\<close> shows
  that an end of the context in the list is enough. Recursions are structural; there is no fuel. The local clock is a
  function of the world or an input. Machine integers are words, or wrap as written where the code multiplies.

  \<^bold>\<open>Parameters.\<close> XML and JSON text, URL parsing, SHA-256, the formats of instants and numbers, the transport and the
  server, the file system, the random source, the order of a map's iteration, the curve type constants of the core module.
  Interfaces of the code are locales, each interpreted on the code's implementation.

  \<^bold>\<open>Not modelled.\<close> Rounding of \<open>float64\<close>: sums and products are exact, so bounds hold up to rounding. TLS and certificates
  (\<open>NewSEP2Client\<close>), sockets and listeners, the exec and the signals of a sidecar beyond their outcome, the HTML of the
  dashboard, log texts, the scheduling of goroutines inside a step and data races, the memory of a Go slice or pointer beyond
  its value. The platform files of the sidecar are single system calls.
\<close>

end
